(* ===== verification/Zb_Prelude.thy ===== *)
theory Zb_Prelude
  imports Main "HOL-Library.Word"
begin

text \<open>
  The vocabulary the theories of this development share: the integer types of
  \<^verbatim>\<open>proj/common/types.h\<close>, the byte macros of \<^verbatim>\<open>proj/common/utility.h\<close>, memory as the
  code sees it from a byte pointer, and the generic lemmas about them.

  A \<open>view\<close> is what a \<^verbatim>\<open>u8 *\<close> can reach: offset \<open>i\<close> is the byte at \<^verbatim>\<open>p[i]\<close>. It is a total
  function because C reads past the end of a frame without any check, and such a read
  yields whatever byte is there. \<open>vdrop n v\<close> is the pointer advanced by \<open>n\<close>.
\<close>

unbundle bit_operations_syntax

type_synonym u8 = "8 word"
type_synonym u16 = "16 word"
type_synonym u32 = "32 word"
type_synonym bytes = "u8 list"
type_synonym view = "nat \<Rightarrow> u8"

named_theorems byte_simps

subsection \<open>Byte macros\<close>

definition LO_UINT16 :: "u16 \<Rightarrow> u8" where
  "LO_UINT16 a = ucast (a AND 0xFF)"

definition HI_UINT16 :: "u16 \<Rightarrow> u8" where
  "HI_UINT16 a = ucast (drop_bit 8 a AND 0xFF)"

definition BUILD_U16 :: "u8 \<Rightarrow> u8 \<Rightarrow> u16" where
  "BUILD_U16 lo hi = push_bit 8 (ucast hi AND 0xFF) + (ucast lo AND 0xFF)"

definition BUILD_U24 :: "u8 \<Rightarrow> u8 \<Rightarrow> u8 \<Rightarrow> u32" where
  "BUILD_U24 b0 b1 b2 =
     push_bit 16 (ucast b2 AND 0xFF) + push_bit 8 (ucast b1 AND 0xFF) + (ucast b0 AND 0xFF)"

definition BUILD_U32 :: "u8 \<Rightarrow> u8 \<Rightarrow> u8 \<Rightarrow> u8 \<Rightarrow> u32" where
  "BUILD_U32 b0 b1 b2 b3 =
     push_bit 24 (ucast b3 AND 0xFF) + push_bit 16 (ucast b2 AND 0xFF)
     + push_bit 8 (ucast b1 AND 0xFF) + (ucast b0 AND 0xFF)"

text \<open>The signed macros are the unsigned sums cast to a signed type. There is no signed
  24-bit type: \<^verbatim>\<open>BUILD_S24\<close> casts the 24-bit sum to a 32-bit \<^verbatim>\<open>signed int\<close>.\<close>

definition BUILD_S16 :: "u8 \<Rightarrow> u8 \<Rightarrow> int" where
  "BUILD_S16 lo hi = sint (BUILD_U16 lo hi)"

definition BUILD_S24 :: "u8 \<Rightarrow> u8 \<Rightarrow> u8 \<Rightarrow> int" where
  "BUILD_S24 b0 b1 b2 = sint (BUILD_U24 b0 b1 b2)"

definition BUILD_S32 :: "u8 \<Rightarrow> u8 \<Rightarrow> u8 \<Rightarrow> u8 \<Rightarrow> int" where
  "BUILD_S32 b0 b1 b2 b3 = sint (BUILD_U32 b0 b1 b2 b3)"

lemma byte_mask_16 [simp]: "(ucast (x::u8) :: u16) AND 0xFF = ucast x"
proof -
  have "(0xFF::u16) = mask 8" by (simp add: mask_eq_exp_minus_1)
  show ?thesis
    unfolding \<open>0xFF = mask 8\<close> by (rule bit_word_eqI) (auto simp: bit_simps dest: bit_imp_le_length)
qed

lemma byte_mask_32 [simp]: "(ucast (x::u8) :: u32) AND 0xFF = ucast x"
proof -
  have "(0xFF::u32) = mask 8" by (simp add: mask_eq_exp_minus_1)
  show ?thesis
    unfolding \<open>0xFF = mask 8\<close> by (rule bit_word_eqI) (auto simp: bit_simps dest: bit_imp_le_length)
qed

lemma ucast_mask_byte [simp]: "ucast ((a::u16) AND 0xFF) = (ucast a :: u8)"
proof -
  have "(0xFF::u16) = mask 8" by (simp add: mask_eq_exp_minus_1)
  show ?thesis
    unfolding \<open>0xFF = mask 8\<close> by (rule bit_word_eqI) (auto simp: bit_simps)
qed

lemma BUILD_U16_cat: "BUILD_U16 lo hi = word_cat hi lo"
  by (simp add: BUILD_U16_def word_cat_eq)

lemma BUILD_LO_HI [simp, byte_simps]: "BUILD_U16 (LO_UINT16 a) (HI_UINT16 a) = a"
  unfolding BUILD_U16_cat LO_UINT16_def HI_UINT16_def
  by (rule bit_word_eqI) (auto simp: bit_simps)

lemma LO_BUILD [simp, byte_simps]: "LO_UINT16 (BUILD_U16 lo hi) = lo"
  unfolding BUILD_U16_cat LO_UINT16_def
  by (rule bit_word_eqI) (auto simp: bit_simps)

lemma HI_BUILD [simp, byte_simps]: "HI_UINT16 (BUILD_U16 lo hi) = hi"
  unfolding BUILD_U16_cat HI_UINT16_def
  by (rule bit_word_eqI) (auto simp: bit_simps)

lemma BUILD_U16_eq_iff [simp]:
  "BUILD_U16 a b = BUILD_U16 c d \<longleftrightarrow> a = c \<and> b = d"
  by (metis LO_BUILD HI_BUILD)

lemma unat_BUILD_U16: "unat (BUILD_U16 lo hi) = 256 * unat hi + unat lo"
proof -
  have b: "unat hi < 256" "unat lo < 256"
    using unsigned_less [of hi, where ?'a = nat] unsigned_less [of lo, where ?'a = nat] by simp_all
  have "unat (push_bit 8 (ucast hi :: u16)) = 256 * unat hi"
    using b by (simp add: push_bit_eq_mult unat_word_ariths unsigned_ucast_eq take_bit_nat_eq_self)
  then show ?thesis
    using b by (simp add: BUILD_U16_def unat_word_ariths unsigned_ucast_eq take_bit_nat_eq_self)
qed

subsection \<open>Views\<close>

definition vdrop :: "nat \<Rightarrow> view \<Rightarrow> view" where
  "vdrop n v = (\<lambda>i. v (n + i))"

definition vtake :: "nat \<Rightarrow> view \<Rightarrow> bytes" where
  "vtake n v = map v [0..<n]"

definition lview :: "bytes \<Rightarrow> view \<Rightarrow> view" where
  \<comment> \<open>the bytes of a list, followed by whatever is behind them\<close>
  "lview xs rest = (\<lambda>i. if i < length xs then xs ! i else rest (i - length xs))"

definition get_u16 :: "view \<Rightarrow> u16" where
  "get_u16 v = BUILD_U16 (v 0) (v 1)"

definition u16_bytes :: "u16 \<Rightarrow> bytes" where
  "u16_bytes a = [LO_UINT16 a, HI_UINT16 a]"

lemma vdrop_apply [simp]: "vdrop n v i = v (n + i)"
  by (simp add: vdrop_def)

lemma vdrop_0 [simp]: "vdrop 0 v = v"
  by (simp add: vdrop_def)

lemma vdrop_vdrop [simp]: "vdrop a (vdrop b v) = vdrop (b + a) v"
  by (simp add: vdrop_def add.assoc)

lemma length_vtake [simp]: "length (vtake n v) = n"
  by (simp add: vtake_def)

lemma vtake_0 [simp]: "vtake 0 v = []"
  by (simp add: vtake_def)

lemma vtake_nth [simp]: "i < n \<Longrightarrow> vtake n v ! i = v i"
  by (simp add: vtake_def)

lemma lview_Nil [simp]: "lview [] v = v"
  by (simp add: lview_def)

lemma lview_Cons_0 [simp]: "lview (x # xs) v 0 = x"
  by (simp add: lview_def)

lemma lview_Cons_Suc [simp]: "lview (x # xs) v (Suc i) = lview xs v i"
  by (simp add: lview_def)

lemma lview_Cons_1 [simp]: "lview (x # xs) v 1 = lview xs v 0"
  by (simp add: lview_def)

lemma lview_append: "lview (xs @ ys) v = lview xs (lview ys v)"
  by (rule ext) (auto simp: lview_def nth_append)

lemma vdrop_lview_append [simp]: "vdrop (length xs) (lview (xs @ ys) v) = lview ys v"
  by (rule ext) (auto simp: lview_def nth_append)

lemma vdrop_lview_exact [simp]: "vdrop (length xs) (lview xs v) = v"
  by (rule ext) (simp add: lview_def)

lemma vdrop_Suc_lview [simp]: "vdrop (Suc n) (lview (x # xs) v) = vdrop n (lview xs v)"
  by (rule ext) simp

lemma vtake_lview_append [simp]: "vtake (length xs) (lview (xs @ ys) v) = xs"
  by (rule nth_equalityI) (auto simp: lview_def nth_append)

lemma vtake_lview_exact [simp]: "vtake (length xs) (lview xs v) = xs"
  by (rule nth_equalityI) (auto simp: lview_def)

lemma lview_inside: "i < length xs \<Longrightarrow> lview xs v i = xs ! i"
  by (simp add: lview_def)

lemma length_u16_bytes [simp]: "length (u16_bytes a) = 2"
  by (simp add: u16_bytes_def)

lemma get_u16_bytes [simp]: "get_u16 (lview (u16_bytes a @ ys) v) = a"
  by (simp add: get_u16_def u16_bytes_def)

lemma vdrop_u16_bytes [simp]: "vdrop 2 (lview (u16_bytes a @ ys) v) = lview ys v"
  using vdrop_lview_append [of "u16_bytes a"] by simp

subsection \<open>Flat memory\<close>

text \<open>RAM is a byte per address. \<open>mem_write\<close> is \<^verbatim>\<open>memcpy\<close> into it, \<open>mem_at\<close> the view from
  a pointer. Nothing stops a write from running over the end of a variable, as in C.\<close>

type_synonym mem = "nat \<Rightarrow> u8"

definition mem_write :: "mem \<Rightarrow> nat \<Rightarrow> bytes \<Rightarrow> mem" where
  "mem_write m a xs = (\<lambda>i. if a \<le> i \<and> i < a + length xs then xs ! (i - a) else m i)"

definition mem_at :: "mem \<Rightarrow> nat \<Rightarrow> view" where
  "mem_at m a = (\<lambda>i. m (a + i))"

lemma mem_at_write [simp]: "vtake (length xs) (mem_at (mem_write m a xs) a) = xs"
  by (rule nth_equalityI) (auto simp: mem_at_def mem_write_def)

lemma mem_write_outside: "i < a \<or> a + length xs \<le> i \<Longrightarrow> mem_write m a xs i = m i"
  by (auto simp: mem_write_def)

lemma mem_write_Nil [simp]: "mem_write m a [] = m"
  by (rule ext) (auto simp: mem_write_def)

subsection \<open>Lists\<close>

text \<open>The first index whose element satisfies a test: the \<^verbatim>\<open>for\<close> loops of the code that
  return the first hit of a table.\<close>

fun find_index :: "('a \<Rightarrow> bool) \<Rightarrow> 'a list \<Rightarrow> nat option" where
  "find_index P [] = None"
| "find_index P (x # xs) = (if P x then Some 0 else map_option Suc (find_index P xs))"

lemma find_index_Some:
  "find_index P xs = Some i \<Longrightarrow> i < length xs \<and> P (xs ! i) \<and> (\<forall>j < i. \<not> P (xs ! j))"
  by (induction xs arbitrary: i) (auto split: if_splits simp: nth_Cons' less_Suc_eq_0_disj)

lemma find_index_None_iff: "find_index P xs = None \<longleftrightarrow> (\<forall>x \<in> set xs. \<not> P x)"
  by (induction xs) auto

lemma find_index_eq_iff:
  "find_index P xs = Some i \<longleftrightarrow> i < length xs \<and> P (xs ! i) \<and> (\<forall>j < i. \<not> P (xs ! j))"
proof
  assume h: "i < length xs \<and> P (xs ! i) \<and> (\<forall>j < i. \<not> P (xs ! j))"
  then obtain k where k: "find_index P xs = Some k"
    using find_index_None_iff [of P xs] by (metis not_None_eq nth_mem)
  with find_index_Some [OF k] h have "k = i"
    by (metis linorder_neqE_nat)
  with k show "find_index P xs = Some i" by simp
qed (rule find_index_Some)

lemma find_Some_mem: "find P xs = Some x \<Longrightarrow> x \<in> set xs \<and> P x"
  by (induction xs) (auto split: if_splits)

lemma length_filter_list_update:
  "i < length xs \<Longrightarrow> length (filter P (xs[i := x])) + (if P (xs ! i) then 1 else 0)
     = length (filter P xs) + (if P x then 1 else 0)"
proof (induction xs arbitrary: i)
  case (Cons y ys)
  then show ?case by (cases i) auto
qed simp

lemma unat_of_nat_u16: "n < 2 ^ 16 \<Longrightarrow> unat (of_nat n :: u16) = n"
  by (simp add: unsigned_of_nat take_bit_nat_eq_self)

end
