(* ===== verification/Zcl_Data.thy ===== *)
theory Zcl_Data
  imports Zb_Prelude
begin

text \<open>
  Constants and data types of the ZCL (\<^verbatim>\<open>zigbee/zcl/zcl_const.h\<close>, \<^verbatim>\<open>zigbee/zcl/zcl.h\<close>) and the
  functions of \<^verbatim>\<open>zigbee/zcl/zcl.c\<close> that give the length of a value. The length of strings and
  structures is read from the value itself, so these functions take a view of the bytes.
\<close>

subsection \<open>Constants\<close>

abbreviation ZCL_STA_SUCCESS :: u8 where "ZCL_STA_SUCCESS \<equiv> 0x00"
abbreviation ZCL_STA_FAILURE :: u8 where "ZCL_STA_FAILURE \<equiv> 0x01"
abbreviation ZCL_STA_UNSUP_CLUSTER_COMMAND :: u8 where "ZCL_STA_UNSUP_CLUSTER_COMMAND \<equiv> 0x81"
abbreviation ZCL_STA_UNSUP_GENERAL_COMMAND :: u8 where "ZCL_STA_UNSUP_GENERAL_COMMAND \<equiv> 0x82"
abbreviation ZCL_STA_UNSUP_MANU_CLUSTER_COMMAND :: u8 where "ZCL_STA_UNSUP_MANU_CLUSTER_COMMAND \<equiv> 0x83"
abbreviation ZCL_STA_UNSUP_MANU_GENERAL_COMMAND :: u8 where "ZCL_STA_UNSUP_MANU_GENERAL_COMMAND \<equiv> 0x84"
abbreviation ZCL_STA_INVALID_FIELD :: u8 where "ZCL_STA_INVALID_FIELD \<equiv> 0x85"
abbreviation ZCL_STA_UNSUPPORTED_ATTRIBUTE :: u8 where "ZCL_STA_UNSUPPORTED_ATTRIBUTE \<equiv> 0x86"
abbreviation ZCL_STA_INVALID_VALUE :: u8 where "ZCL_STA_INVALID_VALUE \<equiv> 0x87"
abbreviation ZCL_STA_READ_ONLY :: u8 where "ZCL_STA_READ_ONLY \<equiv> 0x88"
abbreviation ZCL_STA_INSUFFICIENT_SPACE :: u8 where "ZCL_STA_INSUFFICIENT_SPACE \<equiv> 0x89"
abbreviation ZCL_STA_DUPLICATE_EXISTS :: u8 where "ZCL_STA_DUPLICATE_EXISTS \<equiv> 0x8A"
abbreviation ZCL_STA_NOT_FOUND :: u8 where "ZCL_STA_NOT_FOUND \<equiv> 0x8B"
abbreviation ZCL_STA_UNREPORTABLE_ATTRIBUTE :: u8 where "ZCL_STA_UNREPORTABLE_ATTRIBUTE \<equiv> 0x8C"
abbreviation ZCL_STA_INVALID_DATA_TYPE :: u8 where "ZCL_STA_INVALID_DATA_TYPE \<equiv> 0x8D"
abbreviation ZCL_STA_WRITE_ONLY :: u8 where "ZCL_STA_WRITE_ONLY \<equiv> 0x8F"
abbreviation ZCL_STA_ABORT :: u8 where "ZCL_STA_ABORT \<equiv> 0x95"
abbreviation ZCL_STA_CMD_HAS_RESP :: u8 where "ZCL_STA_CMD_HAS_RESP \<equiv> 0xFF"
abbreviation ZCL_CMD_READ :: u8 where "ZCL_CMD_READ \<equiv> 0x00"
abbreviation ZCL_CMD_READ_RSP :: u8 where "ZCL_CMD_READ_RSP \<equiv> 0x01"
abbreviation ZCL_CMD_WRITE :: u8 where "ZCL_CMD_WRITE \<equiv> 0x02"
abbreviation ZCL_CMD_WRITE_UNDIVIDED :: u8 where "ZCL_CMD_WRITE_UNDIVIDED \<equiv> 0x03"
abbreviation ZCL_CMD_WRITE_RSP :: u8 where "ZCL_CMD_WRITE_RSP \<equiv> 0x04"
abbreviation ZCL_CMD_WRITE_NO_RSP :: u8 where "ZCL_CMD_WRITE_NO_RSP \<equiv> 0x05"
abbreviation ZCL_CMD_CONFIG_REPORT :: u8 where "ZCL_CMD_CONFIG_REPORT \<equiv> 0x06"
abbreviation ZCL_CMD_CONFIG_REPORT_RSP :: u8 where "ZCL_CMD_CONFIG_REPORT_RSP \<equiv> 0x07"
abbreviation ZCL_CMD_READ_REPORT_CFG :: u8 where "ZCL_CMD_READ_REPORT_CFG \<equiv> 0x08"
abbreviation ZCL_CMD_READ_REPORT_CFG_RSP :: u8 where "ZCL_CMD_READ_REPORT_CFG_RSP \<equiv> 0x09"
abbreviation ZCL_CMD_REPORT :: u8 where "ZCL_CMD_REPORT \<equiv> 0x0A"
abbreviation ZCL_CMD_DEFAULT_RSP :: u8 where "ZCL_CMD_DEFAULT_RSP \<equiv> 0x0B"
abbreviation ZCL_CMD_DISCOVER_ATTR :: u8 where "ZCL_CMD_DISCOVER_ATTR \<equiv> 0x0C"
abbreviation ZCL_CMD_DISCOVER_ATTR_RSP :: u8 where "ZCL_CMD_DISCOVER_ATTR_RSP \<equiv> 0x0D"
abbreviation ZCL_CMD_DISCOVER_CMDS_RCVD :: u8 where "ZCL_CMD_DISCOVER_CMDS_RCVD \<equiv> 0x11"
abbreviation ZCL_CMD_DISCOVER_CMDS_RCVD_RSP :: u8 where "ZCL_CMD_DISCOVER_CMDS_RCVD_RSP \<equiv> 0x12"
abbreviation ZCL_CMD_DISCOVER_CMDS_GEN :: u8 where "ZCL_CMD_DISCOVER_CMDS_GEN \<equiv> 0x13"
abbreviation ZCL_CMD_DISCOVER_CMDS_GEN_RSP :: u8 where "ZCL_CMD_DISCOVER_CMDS_GEN_RSP \<equiv> 0x14"
abbreviation ZCL_CMD_DISCOVER_ATTR_EXTD :: u8 where "ZCL_CMD_DISCOVER_ATTR_EXTD \<equiv> 0x15"
abbreviation ZCL_CMD_DISCOVER_ATTR_EXTD_RSP :: u8 where "ZCL_CMD_DISCOVER_ATTR_EXTD_RSP \<equiv> 0x16"
abbreviation ACCESS_CONTROL_READ :: u8 where "ACCESS_CONTROL_READ \<equiv> 0x01"
abbreviation ACCESS_CONTROL_WRITE :: u8 where "ACCESS_CONTROL_WRITE \<equiv> 0x02"
abbreviation ACCESS_CONTROL_REPORTABLE :: u8 where "ACCESS_CONTROL_REPORTABLE \<equiv> 0x04"
abbreviation ACCESS_CONTROL_EXT_MASK :: u8 where "ACCESS_CONTROL_EXT_MASK \<equiv> 0x07"
abbreviation ZCL_DATA_TYPE_NO_DATA :: u8 where "ZCL_DATA_TYPE_NO_DATA \<equiv> 0x00"
abbreviation ZCL_DATA_TYPE_DATA8 :: u8 where "ZCL_DATA_TYPE_DATA8 \<equiv> 0x08"
abbreviation ZCL_DATA_TYPE_DATA16 :: u8 where "ZCL_DATA_TYPE_DATA16 \<equiv> 0x09"
abbreviation ZCL_DATA_TYPE_DATA24 :: u8 where "ZCL_DATA_TYPE_DATA24 \<equiv> 0x0A"
abbreviation ZCL_DATA_TYPE_DATA32 :: u8 where "ZCL_DATA_TYPE_DATA32 \<equiv> 0x0B"
abbreviation ZCL_DATA_TYPE_DATA40 :: u8 where "ZCL_DATA_TYPE_DATA40 \<equiv> 0x0C"
abbreviation ZCL_DATA_TYPE_DATA48 :: u8 where "ZCL_DATA_TYPE_DATA48 \<equiv> 0x0D"
abbreviation ZCL_DATA_TYPE_DATA56 :: u8 where "ZCL_DATA_TYPE_DATA56 \<equiv> 0x0E"
abbreviation ZCL_DATA_TYPE_DATA64 :: u8 where "ZCL_DATA_TYPE_DATA64 \<equiv> 0x0F"
abbreviation ZCL_DATA_TYPE_BOOLEAN :: u8 where "ZCL_DATA_TYPE_BOOLEAN \<equiv> 0x10"
abbreviation ZCL_DATA_TYPE_BITMAP8 :: u8 where "ZCL_DATA_TYPE_BITMAP8 \<equiv> 0x18"
abbreviation ZCL_DATA_TYPE_BITMAP16 :: u8 where "ZCL_DATA_TYPE_BITMAP16 \<equiv> 0x19"
abbreviation ZCL_DATA_TYPE_BITMAP24 :: u8 where "ZCL_DATA_TYPE_BITMAP24 \<equiv> 0x1A"
abbreviation ZCL_DATA_TYPE_BITMAP32 :: u8 where "ZCL_DATA_TYPE_BITMAP32 \<equiv> 0x1B"
abbreviation ZCL_DATA_TYPE_BITMAP40 :: u8 where "ZCL_DATA_TYPE_BITMAP40 \<equiv> 0x1C"
abbreviation ZCL_DATA_TYPE_BITMAP48 :: u8 where "ZCL_DATA_TYPE_BITMAP48 \<equiv> 0x1D"
abbreviation ZCL_DATA_TYPE_BITMAP56 :: u8 where "ZCL_DATA_TYPE_BITMAP56 \<equiv> 0x1E"
abbreviation ZCL_DATA_TYPE_BITMAP64 :: u8 where "ZCL_DATA_TYPE_BITMAP64 \<equiv> 0x1F"
abbreviation ZCL_DATA_TYPE_UINT8 :: u8 where "ZCL_DATA_TYPE_UINT8 \<equiv> 0x20"
abbreviation ZCL_DATA_TYPE_UINT16 :: u8 where "ZCL_DATA_TYPE_UINT16 \<equiv> 0x21"
abbreviation ZCL_DATA_TYPE_UINT24 :: u8 where "ZCL_DATA_TYPE_UINT24 \<equiv> 0x22"
abbreviation ZCL_DATA_TYPE_UINT32 :: u8 where "ZCL_DATA_TYPE_UINT32 \<equiv> 0x23"
abbreviation ZCL_DATA_TYPE_UINT40 :: u8 where "ZCL_DATA_TYPE_UINT40 \<equiv> 0x24"
abbreviation ZCL_DATA_TYPE_UINT48 :: u8 where "ZCL_DATA_TYPE_UINT48 \<equiv> 0x25"
abbreviation ZCL_DATA_TYPE_UINT56 :: u8 where "ZCL_DATA_TYPE_UINT56 \<equiv> 0x26"
abbreviation ZCL_DATA_TYPE_UINT64 :: u8 where "ZCL_DATA_TYPE_UINT64 \<equiv> 0x27"
abbreviation ZCL_DATA_TYPE_INT8 :: u8 where "ZCL_DATA_TYPE_INT8 \<equiv> 0x28"
abbreviation ZCL_DATA_TYPE_INT16 :: u8 where "ZCL_DATA_TYPE_INT16 \<equiv> 0x29"
abbreviation ZCL_DATA_TYPE_INT24 :: u8 where "ZCL_DATA_TYPE_INT24 \<equiv> 0x2A"
abbreviation ZCL_DATA_TYPE_INT32 :: u8 where "ZCL_DATA_TYPE_INT32 \<equiv> 0x2B"
abbreviation ZCL_DATA_TYPE_INT40 :: u8 where "ZCL_DATA_TYPE_INT40 \<equiv> 0x2C"
abbreviation ZCL_DATA_TYPE_INT48 :: u8 where "ZCL_DATA_TYPE_INT48 \<equiv> 0x2D"
abbreviation ZCL_DATA_TYPE_INT56 :: u8 where "ZCL_DATA_TYPE_INT56 \<equiv> 0x2E"
abbreviation ZCL_DATA_TYPE_INT64 :: u8 where "ZCL_DATA_TYPE_INT64 \<equiv> 0x2F"
abbreviation ZCL_DATA_TYPE_ENUM8 :: u8 where "ZCL_DATA_TYPE_ENUM8 \<equiv> 0x30"
abbreviation ZCL_DATA_TYPE_ENUM16 :: u8 where "ZCL_DATA_TYPE_ENUM16 \<equiv> 0x31"
abbreviation ZCL_DATA_TYPE_SEMI_PREC :: u8 where "ZCL_DATA_TYPE_SEMI_PREC \<equiv> 0x38"
abbreviation ZCL_DATA_TYPE_SINGLE_PREC :: u8 where "ZCL_DATA_TYPE_SINGLE_PREC \<equiv> 0x39"
abbreviation ZCL_DATA_TYPE_DOUBLE_PREC :: u8 where "ZCL_DATA_TYPE_DOUBLE_PREC \<equiv> 0x3A"
abbreviation ZCL_DATA_TYPE_OCTET_STR :: u8 where "ZCL_DATA_TYPE_OCTET_STR \<equiv> 0x41"
abbreviation ZCL_DATA_TYPE_CHAR_STR :: u8 where "ZCL_DATA_TYPE_CHAR_STR \<equiv> 0x42"
abbreviation ZCL_DATA_TYPE_LONG_OCTET_STR :: u8 where "ZCL_DATA_TYPE_LONG_OCTET_STR \<equiv> 0x43"
abbreviation ZCL_DATA_TYPE_LONG_CHAR_STR :: u8 where "ZCL_DATA_TYPE_LONG_CHAR_STR \<equiv> 0x44"
abbreviation ZCL_DATA_TYPE_STRUCT :: u8 where "ZCL_DATA_TYPE_STRUCT \<equiv> 0x4C"
abbreviation ZCL_DATA_TYPE_TOD :: u8 where "ZCL_DATA_TYPE_TOD \<equiv> 0xE0"
abbreviation ZCL_DATA_TYPE_DATE :: u8 where "ZCL_DATA_TYPE_DATE \<equiv> 0xE1"
abbreviation ZCL_DATA_TYPE_UTC :: u8 where "ZCL_DATA_TYPE_UTC \<equiv> 0xE2"
abbreviation ZCL_DATA_TYPE_CLUSTER_ID :: u8 where "ZCL_DATA_TYPE_CLUSTER_ID \<equiv> 0xE8"
abbreviation ZCL_DATA_TYPE_ATTR_ID :: u8 where "ZCL_DATA_TYPE_ATTR_ID \<equiv> 0xE9"
abbreviation ZCL_DATA_TYPE_BAC_OID :: u8 where "ZCL_DATA_TYPE_BAC_OID \<equiv> 0xEA"
abbreviation ZCL_DATA_TYPE_IEEE_ADDR :: u8 where "ZCL_DATA_TYPE_IEEE_ADDR \<equiv> 0xF0"
abbreviation ZCL_DATA_TYPE_128_BIT_SEC_KEY :: u8 where "ZCL_DATA_TYPE_128_BIT_SEC_KEY \<equiv> 0xF1"
abbreviation ZCL_DATA_TYPE_UNKNOWN :: u8 where "ZCL_DATA_TYPE_UNKNOWN \<equiv> 0xFF"
abbreviation ZCL_EXPECT_ATTR_REPORTS :: u8 where "ZCL_EXPECT_ATTR_REPORTS \<equiv> 0x01"
abbreviation ZCL_FRAME_TYPE_PROFILE_CMD :: u8 where "ZCL_FRAME_TYPE_PROFILE_CMD \<equiv> 0x00"
abbreviation ZCL_FRAME_TYPE_SPECIFIC_CMD :: u8 where "ZCL_FRAME_TYPE_SPECIFIC_CMD \<equiv> 0x01"
abbreviation ZCL_FRAME_SERVER_CLIENT_DIR :: u8 where "ZCL_FRAME_SERVER_CLIENT_DIR \<equiv> 0x01"
abbreviation ZCL_SEND_ATTR_REPORTS :: u8 where "ZCL_SEND_ATTR_REPORTS \<equiv> 0x00"

abbreviation MANUFACTURER_CODE_NONE :: u16 where "MANUFACTURER_CODE_NONE \<equiv> 0x0000"
abbreviation ZCL_CLUSTER_GEN_BASIC :: u16 where "ZCL_CLUSTER_GEN_BASIC \<equiv> 0x0000"
abbreviation ZCL_CLUSTER_GEN_IDENTIFY :: u16 where "ZCL_CLUSTER_GEN_IDENTIFY \<equiv> 0x0003"
abbreviation ZCL_CLUSTER_OTA :: u16 where "ZCL_CLUSTER_OTA \<equiv> 0x0019"
abbreviation ZCL_CLUSTER_TOUCHLINK_COMMISSIONING :: u16 where
  "ZCL_CLUSTER_TOUCHLINK_COMMISSIONING \<equiv> 0x1000"
abbreviation ZCL_ATTRID_BASIC_DEV_ENABLED :: u16 where "ZCL_ATTRID_BASIC_DEV_ENABLED \<equiv> 0x0012"
abbreviation ZCL_ATTRID_OTA_IMAGE_UPGRADE_STATUS :: u16 where
  "ZCL_ATTRID_OTA_IMAGE_UPGRADE_STATUS \<equiv> 0x0006"
abbreviation ZCL_CMD_OTA_UPGRADE_END_REQ :: u8 where "ZCL_CMD_OTA_UPGRADE_END_REQ \<equiv> 0x06"
abbreviation IMAGE_UPGRADE_STATUS_DOWNLOAD_COMPLETE :: u8 where
  "IMAGE_UPGRADE_STATUS_DOWNLOAD_COMPLETE \<equiv> 0x02"

abbreviation APS_DSTADDR_EP_NOTPRESETNT :: u8 where "APS_DSTADDR_EP_NOTPRESETNT \<equiv> 0x00"
abbreviation APS_SHORT_GROUPADDR_NOEP :: u8 where "APS_SHORT_GROUPADDR_NOEP \<equiv> 0x01"
abbreviation APS_SHORT_DSTADDR_WITHEP :: u8 where "APS_SHORT_DSTADDR_WITHEP \<equiv> 0x02"
abbreviation APS_TX_OPT_SECURITY_ENABLED :: u8 where "APS_TX_OPT_SECURITY_ENABLED \<equiv> 0x01"
abbreviation APS_TX_OPT_ACK_TX :: u8 where "APS_TX_OPT_ACK_TX \<equiv> 0x04"
abbreviation APS_TX_OPT_INTRA_PAN :: u8 where "APS_TX_OPT_INTRA_PAN \<equiv> 0x80"
abbreviation SECURITY_IN_APSLAYER :: u8 where "SECURITY_IN_APSLAYER \<equiv> 0x01"
abbreviation NWK_BROADCAST_ROUTER_COORDINATOR :: u16 where
  "NWK_BROADCAST_ROUTER_COORDINATOR \<equiv> 0xFFFC"
abbreviation RET_OK :: u8 where "RET_OK \<equiv> 0x00"

subsection \<open>Lengths\<close>

definition zcl_getDataTypeLen :: "u8 \<Rightarrow> u8" where
  "zcl_getDataTypeLen dataType =
    (if dataType \<in> {ZCL_DATA_TYPE_BOOLEAN} then 1
     else if dataType \<in> {ZCL_DATA_TYPE_DATA8, ZCL_DATA_TYPE_BITMAP8, ZCL_DATA_TYPE_UINT8,
         ZCL_DATA_TYPE_INT8, ZCL_DATA_TYPE_ENUM8} then 1
     else if dataType \<in> {ZCL_DATA_TYPE_DATA16, ZCL_DATA_TYPE_BITMAP16,
         ZCL_DATA_TYPE_UINT16, ZCL_DATA_TYPE_INT16, ZCL_DATA_TYPE_ENUM16,
         ZCL_DATA_TYPE_SEMI_PREC, ZCL_DATA_TYPE_CLUSTER_ID, ZCL_DATA_TYPE_ATTR_ID} then 2
     else if dataType \<in> {ZCL_DATA_TYPE_DATA24, ZCL_DATA_TYPE_BITMAP24,
         ZCL_DATA_TYPE_UINT24, ZCL_DATA_TYPE_INT24} then 3
     else if dataType \<in> {ZCL_DATA_TYPE_DATA32, ZCL_DATA_TYPE_BITMAP32,
         ZCL_DATA_TYPE_UINT32, ZCL_DATA_TYPE_INT32, ZCL_DATA_TYPE_SINGLE_PREC,
         ZCL_DATA_TYPE_UTC, ZCL_DATA_TYPE_DATE, ZCL_DATA_TYPE_BAC_OID} then 4
     else if dataType \<in> {ZCL_DATA_TYPE_DATA40, ZCL_DATA_TYPE_BITMAP40,
         ZCL_DATA_TYPE_UINT40, ZCL_DATA_TYPE_INT40} then 5
     else if dataType \<in> {ZCL_DATA_TYPE_DATA48, ZCL_DATA_TYPE_BITMAP48,
         ZCL_DATA_TYPE_UINT48, ZCL_DATA_TYPE_INT48} then 6
     else if dataType \<in> {ZCL_DATA_TYPE_DATA56, ZCL_DATA_TYPE_BITMAP56,
         ZCL_DATA_TYPE_UINT56, ZCL_DATA_TYPE_INT56} then 7
     else if dataType \<in> {ZCL_DATA_TYPE_DATA64, ZCL_DATA_TYPE_BITMAP64,
         ZCL_DATA_TYPE_UINT64, ZCL_DATA_TYPE_INT64, ZCL_DATA_TYPE_DOUBLE_PREC,
         ZCL_DATA_TYPE_IEEE_ADDR} then 8
     else if dataType \<in> {ZCL_DATA_TYPE_128_BIT_SEC_KEY} then 16
     else 0)"

definition zcl_analogDataType :: "u8 \<Rightarrow> bool" where
  "zcl_analogDataType dataType \<longleftrightarrow> dataType \<in> {
     ZCL_DATA_TYPE_UINT8, ZCL_DATA_TYPE_UINT16, ZCL_DATA_TYPE_UINT24, ZCL_DATA_TYPE_UINT32,
     ZCL_DATA_TYPE_UINT40, ZCL_DATA_TYPE_UINT48, ZCL_DATA_TYPE_UINT56, ZCL_DATA_TYPE_UINT64,
     ZCL_DATA_TYPE_INT8, ZCL_DATA_TYPE_INT16, ZCL_DATA_TYPE_INT24, ZCL_DATA_TYPE_INT32,
     ZCL_DATA_TYPE_INT40, ZCL_DATA_TYPE_INT48, ZCL_DATA_TYPE_INT56, ZCL_DATA_TYPE_INT64,
     ZCL_DATA_TYPE_SEMI_PREC, ZCL_DATA_TYPE_SINGLE_PREC, ZCL_DATA_TYPE_DOUBLE_PREC,
     ZCL_DATA_TYPE_TOD, ZCL_DATA_TYPE_DATE, ZCL_DATA_TYPE_UTC}"

text \<open>The \<^verbatim>\<open>for\<close> loop over the items of a structure; \<open>dataLen\<close> is the offset of the next item's
  type byte.\<close>

fun struct_size :: "view \<Rightarrow> nat \<Rightarrow> u16 \<Rightarrow> u16" where
  "struct_size pData 0 dataLen = dataLen"
| "struct_size pData (Suc n) dataLen =
     struct_size pData n (dataLen + (ucast (zcl_getDataTypeLen (pData (unat dataLen))) + 1))"

definition zcl_getAttrSize :: "u8 \<Rightarrow> view \<Rightarrow> u16" where
  "zcl_getAttrSize dataType pData =
     (if dataType = ZCL_DATA_TYPE_LONG_CHAR_STR \<or> dataType = ZCL_DATA_TYPE_LONG_OCTET_STR
      then BUILD_U16 (pData 0) (pData 1) + 2
      else if dataType = ZCL_DATA_TYPE_CHAR_STR \<or> dataType = ZCL_DATA_TYPE_OCTET_STR
      then ucast (pData 0) + 1
      else if dataType = ZCL_DATA_TYPE_STRUCT
      then struct_size pData (unat (pData 0)) 2
      else ucast (zcl_getDataTypeLen dataType))"

definition isLittleEndianMachineCheck :: bool where
  \<comment> \<open>the chips are little-endian\<close>
  "isLittleEndianMachineCheck = (get_u16 (lview [1, 0] (\<lambda>_. 0)) = 1)"

text \<open>\<^verbatim>\<open>zcl_analogDataBuild\<close> copies into \<open>pData\<close>, whose first bytes it also asks for the size;
  the result is the bytes written, in memory order.\<close>

fun analog_copy :: "nat \<Rightarrow> bool \<Rightarrow> nat \<Rightarrow> view \<Rightarrow> (nat \<times> u8) list" where
  "analog_copy 0 le k pBuf = []"
| "analog_copy (Suc n) le k pBuf = ((if le then k else n), pBuf k) # analog_copy n le (Suc k) pBuf"

definition zcl_analogDataBuild :: "u8 \<Rightarrow> view \<Rightarrow> view \<Rightarrow> view" where
  "zcl_analogDataBuild dataType pData pBuf =
     foldl (\<lambda>v (i, b). v(i := b)) pData
       (analog_copy (unat (zcl_getAttrSize dataType pData)) isLittleEndianMachineCheck 0 pBuf)"


subsection \<open>Facts about lengths\<close>

lemma little_endian [simp]: "isLittleEndianMachineCheck"
  by (simp add: isLittleEndianMachineCheck_def get_u16_def BUILD_U16_def)

lemma getDataTypeLen_le: "unat (zcl_getDataTypeLen t) \<le> 16"
  by (simp add: zcl_getDataTypeLen_def)

lemma analog_len_le: "zcl_analogDataType t \<Longrightarrow> unat (zcl_getDataTypeLen t) \<le> 8"
  by (auto simp: zcl_analogDataType_def zcl_getDataTypeLen_def)

lemma analog_attrSize: "zcl_analogDataType t \<Longrightarrow> zcl_getAttrSize t v = ucast (zcl_getDataTypeLen t)"
  by (auto simp: zcl_analogDataType_def zcl_getAttrSize_def)

lemma unat_ucast_u8_u16 [simp]: "unat (ucast (b :: u8) :: u16) = unat b"
  using unsigned_less [of b, where ?'a = nat]
  by (simp add: unsigned_ucast_eq take_bit_nat_eq_self)

lemma analog_copy_map: "analog_copy n True k p = map (\<lambda>i. (i, p i)) [k..<k + n]"
  by (induction n arbitrary: k) (simp_all add: upt_conv_Cons del: upt_Suc)

lemma foldl_upd: "foldl (\<lambda>v (i, b). v(i := b)) v (map (\<lambda>i. (i, p i)) [0..<n])
    = (\<lambda>j. if j < n then p j else v j)"
  by (induction n) (auto simp: fun_eq_iff)

text \<open>On an analog type the builder copies exactly the bytes of the value.\<close>

lemma analogDataBuild_eq:
  assumes "zcl_analogDataType t"
  shows "zcl_analogDataBuild t d b = (\<lambda>j. if j < unat (zcl_getDataTypeLen t) then b j else d j)"
proof -
  have "unat (zcl_getAttrSize t d) = unat (zcl_getDataTypeLen t)"
    using assms by (simp add: analog_attrSize)
  then show ?thesis
    unfolding zcl_analogDataBuild_def by (simp add: analog_copy_map foldl_upd)
qed

text \<open>The size of a structure never wraps, and no byte behind it is read.\<close>

lemma struct_size_bound:
  "unat d + 17 * n < 65536 \<Longrightarrow>
     unat d + n \<le> unat (struct_size v n d) \<and> unat (struct_size v n d) \<le> unat d + 17 * n"
proof (induction n arbitrary: d)
  case (Suc n)
  let ?l = "zcl_getDataTypeLen (v (unat d))"
  have l: "unat ?l \<le> 16" by (rule getDataTypeLen_le)
  have "unat (d + (ucast ?l + 1)) = unat d + unat ?l + 1"
    using l Suc.prems by (simp add: unat_word_ariths)
  with Suc.IH [of "d + (ucast ?l + 1)"] Suc.prems l show ?case by simp
qed simp

lemma struct_size_cong:
  "unat d + 17 * n < 65536 \<Longrightarrow> (\<And>i. i < unat (struct_size v n d) \<Longrightarrow> v i = w i) \<Longrightarrow>
     struct_size w n d = struct_size v n d"
proof (induction n arbitrary: d)
  case (Suc n)
  let ?l = "zcl_getDataTypeLen (v (unat d))"
  have l: "unat ?l \<le> 16" by (rule getDataTypeLen_le)
  have u: "unat (d + (ucast ?l + 1)) = unat d + unat ?l + 1"
    using l Suc.prems(1) by (simp add: unat_word_ariths)
  have "unat d < unat (struct_size v (Suc n) d)"
    using struct_size_bound [of d "Suc n" v] Suc.prems(1) by simp
  then have e: "w (unat d) = v (unat d)" using Suc.prems(2) by metis
  have "struct_size w n (d + (ucast ?l + 1)) = struct_size v n (d + (ucast ?l + 1))"
  proof (rule Suc.IH)
    show "unat (d + (ucast ?l + 1)) + 17 * n < 65536"
      unfolding u using l Suc.prems(1) by simp
    show "v i = w i" if "i < unat (struct_size v n (d + (ucast ?l + 1)))" for i
      by (rule Suc.prems(2)) (use that in simp)
  qed
  then show ?case by (simp add: e)
qed simp

text \<open>The bytes that decide the size of a value are its first two, or, in a structure, the
  value itself; so a copy of a value has the same size.\<close>

lemma getAttrSize_cong:
  assumes "\<And>i. i < max 2 (unat (zcl_getAttrSize t v)) \<Longrightarrow> v i = w i"
  shows "zcl_getAttrSize t w = zcl_getAttrSize t v"
proof -
  have "v 0 = w 0" "v 1 = w 1" using assms by auto
  moreover have "struct_size w (unat (v 0)) 2 = struct_size v (unat (v 0)) 2"
    if "t = ZCL_DATA_TYPE_STRUCT"
  proof (rule struct_size_cong)
    show "unat (2 :: u16) + 17 * unat (v 0) < 65536"
      using unsigned_less [of "v 0", where ?'a = nat] by simp
    show "v i = w i" if "i < unat (struct_size v (unat (v 0)) 2)" for i
      using that assms \<open>t = _\<close> by (auto simp: zcl_getAttrSize_def)
  qed
  ultimately show ?thesis by (simp add: zcl_getAttrSize_def)
qed

end
