(* ===== verification/Ev_Buffer.thy ===== *)
theory Ev_Buffer
  imports Zb_Prelude
begin

text \<open>
  The buffer pool: \<^verbatim>\<open>proj/common/mempool.c\<close> and \<^verbatim>\<open>proj/os/ev_buffer.c\<close>.

  A block of group \<open>g\<close> is \<open>EvBuf g i\<close>, the \<open>i\<close>-th item of the array \<^verbatim>\<open>size_g_mem\<close>; any other
  address is \<open>NotEvBuf\<close>. A memory pool is its free list; the \<^verbatim>\<open>next_block\<close> links inside the
  free blocks are the order of the list. The header word \<^verbatim>\<open>groupIndex\<close> of every block is
  kept in a map from addresses, because \<^verbatim>\<open>ev_buf_free\<close> trusts it. Disabling interrupts has
  no effect on the sequential model.
\<close>

subsection \<open>Memory pools\<close>

datatype ptr = EvBuf nat nat | NotEvBuf nat

type_synonym mem_pool_t = "ptr list"

definition MEMPOOL_ITEMSIZE_2_BLOCKSIZE :: "u32 \<Rightarrow> u32" where
  "MEMPOOL_ITEMSIZE_2_BLOCKSIZE s = (s + (4 - 1)) AND NOT (4 - 1)"

definition mempool_init :: "nat \<Rightarrow> nat \<Rightarrow> mem_pool_t" where
  \<comment> \<open>the pool of group \<open>g\<close>: the first block is in the list whatever \<^verbatim>\<open>itemcount\<close> is\<close>
  "mempool_init g itemcount = EvBuf g 0 # map (EvBuf g) [1..<itemcount]"

definition mempool_alloc :: "mem_pool_t \<Rightarrow> ptr option \<times> mem_pool_t" where
  "mempool_alloc pool = (case pool of [] \<Rightarrow> (None, []) | b # rest \<Rightarrow> (Some b, rest))"

definition mempool_free :: "mem_pool_t \<Rightarrow> ptr \<Rightarrow> mem_pool_t" where
  "mempool_free pool p = p # pool"

subsection \<open>Buffer groups\<close>

record ev_buf_groups_t =
  bg_size :: u16
  availBufNum :: u8
  qHead :: mem_pool_t

record ev_buf_vars_t =
  bufGroups :: "ev_buf_groups_t list"
  groupIndex :: "ptr \<Rightarrow> nat"
  T_evtExcept :: "nat list"

datatype buf_sts_t = BUFFER_SUCC | BUFFER_INVALID_PARAMETER | BUFFER_DUPLICATE_FREE

definition BUFFER_GROUPS :: "nat list" where
  "BUFFER_GROUPS = [24, 60, 152, 512]"

definition BUFFER_NUM_IN_GROUPS :: "nat list" where
  "BUFFER_NUM_IN_GROUPS = [8, 8, 8, 2]"

text \<open>\<^verbatim>\<open>OFFSETOF(ev_bufItem_t, data)\<close>: the link and the group index, four bytes each.\<close>

definition EV_BUF_HDR :: nat where
  "EV_BUF_HDR = 8"

definition MAX_BUFFER_SIZE :: nat where
  "MAX_BUFFER_SIZE = 512 - EV_BUF_HDR"

definition FREE_OVERFLON :: nat where "FREE_OVERFLON = 0x71"
definition FREE_MULTI :: nat where "FREE_MULTI = 0x72"

definition sys_exceptionPost :: "nat \<Rightarrow> ev_buf_vars_t \<Rightarrow> ev_buf_vars_t" where
  "sys_exceptionPost evt v = v\<lparr>T_evtExcept := evt # T_evtExcept v\<rparr>"

definition ev_buf_reset :: "ev_buf_vars_t \<Rightarrow> ev_buf_vars_t" where
  "ev_buf_reset v = v\<lparr>bufGroups := map (\<lambda>i.
     \<lparr>bg_size = of_nat (BUFFER_GROUPS ! i),
      availBufNum = of_nat (BUFFER_NUM_IN_GROUPS ! i),
      qHead = mempool_init i (BUFFER_NUM_IN_GROUPS ! i)\<rparr>) [0..<4]\<rparr>"

definition group_fits :: "u16 \<Rightarrow> ev_buf_groups_t \<Rightarrow> bool" where
  "group_fits sz g \<longleftrightarrow>
     int (unat sz) \<le> int (unat (bg_size g)) - int EV_BUF_HDR \<and> availBufNum g \<noteq> 0"

definition ev_buf_allocate :: "u16 \<Rightarrow> ev_buf_vars_t \<Rightarrow> ptr option \<times> ev_buf_vars_t" where
  "ev_buf_allocate sz v =
    (if sz = 0 \<or> unat sz > MAX_BUFFER_SIZE then (None, v)
     else case find_index (group_fits sz) (bufGroups v) of
       None \<Rightarrow> (None, v)
     | Some index \<Rightarrow>
         (let g = bufGroups v ! index in
          case mempool_alloc (qHead g) of
            (None, _) \<Rightarrow> (None, v)
          | (Some temp, q) \<Rightarrow>
              (Some temp,
               v\<lparr>bufGroups := (bufGroups v)[index := g\<lparr>qHead := q, availBufNum := availBufNum g - 1\<rparr>],
                 groupIndex := (groupIndex v)(temp := index)\<rparr>)))"

definition is_ev_buf :: "ptr \<Rightarrow> bool" where
  "is_ev_buf p = (case p of
     EvBuf g i \<Rightarrow> g < 4 \<and> i < BUFFER_NUM_IN_GROUPS ! g | NotEvBuf _ \<Rightarrow> False)"

definition ev_buf_isExisted :: "ev_buf_vars_t \<Rightarrow> nat \<Rightarrow> ptr \<Rightarrow> bool" where
  "ev_buf_isExisted v index block \<longleftrightarrow> block \<in> set (qHead (bufGroups v ! index))"

text \<open>
  \<^verbatim>\<open>ev_buf_free\<close> posts an exception for an address outside the pools but goes on, and
  indexes \<^verbatim>\<open>bufGroups\<close> with the header word it finds there: \<open>None\<close> is that out-of-bounds
  access.
\<close>

definition ev_buf_free :: "ptr \<Rightarrow> ev_buf_vars_t \<Rightarrow> (buf_sts_t \<times> ev_buf_vars_t) option" where
  "ev_buf_free p v0 =
    (let v = (if \<not> is_ev_buf p then sys_exceptionPost FREE_OVERFLON v0 else v0);
         index = groupIndex v p in
     if index \<ge> length (bufGroups v) then None
     else if ev_buf_isExisted v index p then
       Some (BUFFER_DUPLICATE_FREE, sys_exceptionPost FREE_MULTI v)
     else
       (let g = bufGroups v ! index in
        Some (BUFFER_SUCC,
          v\<lparr>bufGroups := (bufGroups v)[index :=
              g\<lparr>qHead := mempool_free (qHead g) p, availBufNum := availBufNum g + 1\<rparr>]\<rparr>)))"

text \<open>The callers of \<^verbatim>\<open>ev_buf_free\<close> in the ZCL ignore its status.\<close>

definition buf_free :: "ptr \<Rightarrow> ev_buf_vars_t \<Rightarrow> ev_buf_vars_t" where
  "buf_free p v = (case ev_buf_free p v of Some (_, v') \<Rightarrow> v' | None \<Rightarrow> v)"

definition ev_buf_getFreeMaxSize :: "ev_buf_vars_t \<Rightarrow> nat" where
  "ev_buf_getFreeMaxSize v =
     foldl (\<lambda>sz g. if availBufNum g \<noteq> 0 \<and> unat (bg_size g) - EV_BUF_HDR > sz
                   then unat (bg_size g) - EV_BUF_HDR else sz) 0 (bufGroups v)"

subsection \<open>What the pool promises\<close>

definition blocks :: "nat \<Rightarrow> ptr set" where
  "blocks g = {EvBuf g i |i. i < BUFFER_NUM_IN_GROUPS ! g}"

definition capacity :: "ptr \<Rightarrow> nat" where
  "capacity p = (case p of EvBuf g _ \<Rightarrow> BUFFER_GROUPS ! g - EV_BUF_HDR | NotEvBuf _ \<Rightarrow> 0)"

definition free_blocks :: "ev_buf_vars_t \<Rightarrow> nat \<Rightarrow> ptr list" where
  "free_blocks v g = qHead (bufGroups v ! g)"

definition live :: "ev_buf_vars_t \<Rightarrow> ptr set" where
  "live v = (\<Union>g < 4. blocks g - set (free_blocks v g))"

text \<open>The well-formed pools: every group has its size, its count is the length of its free
  list, the free list holds blocks of the group without repetition, and the header of every
  block in use names its group.\<close>

definition group_ok :: "nat \<Rightarrow> ev_buf_groups_t \<Rightarrow> bool" where
  "group_ok g b \<longleftrightarrow> bg_size b = of_nat (BUFFER_GROUPS ! g) \<and>
     unat (availBufNum b) = length (qHead b) \<and>
     distinct (qHead b) \<and> set (qHead b) \<subseteq> blocks g"

definition pool_ok :: "ev_buf_vars_t \<Rightarrow> bool" where
  "pool_ok v \<longleftrightarrow> length (bufGroups v) = 4 \<and>
     (\<forall>g < 4. group_ok g (bufGroups v ! g)) \<and>
     (\<forall>g < 4. \<forall>p \<in> blocks g - set (free_blocks v g). groupIndex v p = g)"


subsection \<open>Facts about groups and blocks\<close>

lemma group_cases: "g < (4::nat) \<Longrightarrow> g = 0 \<or> g = 1 \<or> g = 2 \<or> g = 3"
  by arith

lemma blocks_disjoint: "p \<in> blocks g \<Longrightarrow> p \<in> blocks h \<Longrightarrow> g = h"
  by (auto simp: blocks_def)

lemma is_ev_buf_iff: "is_ev_buf p \<longleftrightarrow> (\<exists>g < 4. p \<in> blocks g)"
  by (cases p) (auto simp: is_ev_buf_def blocks_def)

lemma finite_blocks [simp]: "finite (blocks g)"
  by (simp add: blocks_def)

lemma capacity_blocks: "p \<in> blocks g \<Longrightarrow> capacity p = BUFFER_GROUPS ! g - EV_BUF_HDR"
  by (auto simp: blocks_def capacity_def)

lemma card_blocks: "card (blocks g) = BUFFER_NUM_IN_GROUPS ! g"
proof -
  have "blocks g = EvBuf g ` {..< BUFFER_NUM_IN_GROUPS ! g}"
    by (auto simp: blocks_def)
  then show ?thesis by (simp add: card_image inj_on_def)
qed

lemma BUFFER_NUM_bound: "g < 4 \<Longrightarrow> 0 < BUFFER_NUM_IN_GROUPS ! g \<and> BUFFER_NUM_IN_GROUPS ! g \<le> 8"
  by (drule group_cases) (auto simp: BUFFER_NUM_IN_GROUPS_def)

lemma unat_group_size: "g < 4 \<Longrightarrow> unat (of_nat (BUFFER_GROUPS ! g) :: u16) = BUFFER_GROUPS ! g"
  by (drule group_cases) (auto simp: BUFFER_GROUPS_def)

lemma group_size_bound: "g < 4 \<Longrightarrow> EV_BUF_HDR < BUFFER_GROUPS ! g \<and> BUFFER_GROUPS ! g \<le> 512"
  by (drule group_cases) (auto simp: BUFFER_GROUPS_def EV_BUF_HDR_def)

lemma group_size_mono: "g \<le> h \<Longrightarrow> h < 4 \<Longrightarrow> BUFFER_GROUPS ! g \<le> BUFFER_GROUPS ! h"
  using group_cases [of g] group_cases [of h] by (auto simp: BUFFER_GROUPS_def)

lemma pool_okD:
  assumes "pool_ok v"
  shows "length (bufGroups v) = 4"
    and "g < 4 \<Longrightarrow> group_ok g (bufGroups v ! g)"
    and "g < 4 \<Longrightarrow> p \<in> blocks g \<Longrightarrow> p \<notin> set (qHead (bufGroups v ! g)) \<Longrightarrow> groupIndex v p = g"
  using assms by (auto simp: pool_ok_def free_blocks_def)

lemma group_fits_iff:
  "pool_ok v \<Longrightarrow> g < 4 \<Longrightarrow>
     group_fits sz (bufGroups v ! g) \<longleftrightarrow>
       unat sz \<le> BUFFER_GROUPS ! g - EV_BUF_HDR \<and> free_blocks v g \<noteq> []"
proof -
  assume "pool_ok v" and g: "g < 4"
  then have "group_ok g (bufGroups v ! g)" by (rule pool_okD)
  then have s: "unat (bg_size (bufGroups v ! g)) = BUFFER_GROUPS ! g"
    and a: "unat (availBufNum (bufGroups v ! g)) = length (free_blocks v g)"
    using unat_group_size [OF g] by (auto simp: group_ok_def free_blocks_def)
  from a have "availBufNum (bufGroups v ! g) = 0 \<longleftrightarrow> free_blocks v g = []"
    by (metis length_0_conv unat_eq_0)
  moreover have "int (unat sz) \<le> int (BUFFER_GROUPS ! g) - int EV_BUF_HDR
      \<longleftrightarrow> unat sz \<le> BUFFER_GROUPS ! g - EV_BUF_HDR"
    using group_size_bound [OF g] by arith
  ultimately show ?thesis by (simp add: group_fits_def s del: of_nat_unat)
qed

lemma pool_ok_reset: "pool_ok (ev_buf_reset v)"
proof -
  have "group_ok g (bufGroups (ev_buf_reset v) ! g) \<and> set (free_blocks (ev_buf_reset v) g) = blocks g"
    if g: "g < 4" for g
  proof -
    let ?n = "BUFFER_NUM_IN_GROUPS ! g"
    have n: "0 < ?n" "?n \<le> 8" using BUFFER_NUM_bound [OF g] by auto
    have q: "mempool_init g ?n = map (EvBuf g) [0..< ?n]"
      using n by (simp add: mempool_init_def upt_conv_Cons)
    have "unat (of_nat ?n :: u8) = ?n"
      using n by (simp add: unsigned_of_nat take_bit_nat_eq_self)
    with g q show ?thesis
      by (auto simp: ev_buf_reset_def group_ok_def free_blocks_def blocks_def distinct_map inj_on_def)
  qed
  then show ?thesis
    by (auto simp: pool_ok_def) (auto simp: ev_buf_reset_def)
qed

lemma live_reset: "live (ev_buf_reset v) = {}"
proof -
  have "blocks g \<subseteq> set (free_blocks (ev_buf_reset v) g)" if g: "g < 4" for g
    using g BUFFER_NUM_bound [OF g]
    by (auto simp: ev_buf_reset_def free_blocks_def mempool_init_def blocks_def image_iff)
  then show ?thesis by (auto simp: live_def)
qed


subsection \<open>Allocation and release\<close>

lemma pool_ok_update:
  assumes ok: "pool_ok v" and g: "g < 4" and b: "group_ok g b"
    and own: "\<And>p. p \<in> blocks g \<Longrightarrow> p \<notin> set (qHead b) \<Longrightarrow> gi p = g"
    and others: "\<And>h p. h \<noteq> g \<Longrightarrow> p \<in> blocks h \<Longrightarrow> gi p = groupIndex v p"
  shows "pool_ok (v\<lparr>bufGroups := (bufGroups v)[g := b], groupIndex := gi\<rparr>)"
proof -
  have "group_ok h ((bufGroups v)[g := b] ! h)" if "h < 4" for h
    using pool_okD [OF ok] b that g by (cases "h = g") auto
  moreover have "gi p = h" if "h < 4" "p \<in> blocks h" "p \<notin> set (qHead ((bufGroups v)[g := b] ! h))" for h p
    using pool_okD [OF ok] own others [of h p] that g by (cases "h = g") auto
  ultimately show ?thesis
    using pool_okD(1) [OF ok] by (auto simp: pool_ok_def free_blocks_def)
qed

lemma free_blocks_update:
  "pool_ok v \<Longrightarrow> g < 4 \<Longrightarrow>
     free_blocks (v\<lparr>bufGroups := (bufGroups v)[g := b], groupIndex := gi\<rparr>) h
       = (if h = g then qHead b else free_blocks v h)"
  using pool_okD(1) [of v] by (auto simp: free_blocks_def)

text \<open>The two ways an allocation ends.\<close>

lemma ev_buf_allocate_cases [consumes 1, case_names none some]:
  assumes ok: "pool_ok v"
  obtains (none) "ev_buf_allocate sz v = (None, v)"
      "sz = 0 \<or> unat sz > MAX_BUFFER_SIZE \<or>
       (\<forall>g < 4. unat sz \<le> BUFFER_GROUPS ! g - EV_BUF_HDR \<longrightarrow> free_blocks v g = [])"
  | (some) g p q b where "g < 4" "sz \<noteq> 0" "unat sz \<le> BUFFER_GROUPS ! g - EV_BUF_HDR"
      "free_blocks v g = p # q"
      "\<And>h. h < g \<Longrightarrow> unat sz \<le> BUFFER_GROUPS ! h - EV_BUF_HDR \<Longrightarrow> free_blocks v h = []"
      "b = bufGroups v ! g"
      "ev_buf_allocate sz v = (Some p,
        v\<lparr>bufGroups := (bufGroups v)[g := b\<lparr>qHead := q, availBufNum := availBufNum b - 1\<rparr>],
          groupIndex := (groupIndex v)(p := g)\<rparr>)"
proof (cases "sz = 0 \<or> unat sz > MAX_BUFFER_SIZE")
  case True
  with none show ?thesis by (auto simp: ev_buf_allocate_def)
next
  case c: False
  show ?thesis
  proof (cases "find_index (group_fits sz) (bufGroups v)")
    case None
    then have "\<forall>g < 4. \<not> group_fits sz (bufGroups v ! g)"
      using pool_okD(1) [OF ok] by (simp add: find_index_None_iff)
    with None c ok none show ?thesis
      by (auto simp: ev_buf_allocate_def group_fits_iff)
  next
    case (Some g)
    then have g: "g < 4" "group_fits sz (bufGroups v ! g)"
      and less: "\<And>h. h < g \<Longrightarrow> \<not> group_fits sz (bufGroups v ! h)"
      using pool_okD(1) [OF ok] by (auto simp: find_index_eq_iff)
    then obtain p q where "free_blocks v g = p # q" "unat sz \<le> BUFFER_GROUPS ! g - EV_BUF_HDR"
      using ok by (cases "free_blocks v g") (auto simp: group_fits_iff)
    with Some c g less ok some [of g p q] show ?thesis
      by (auto simp: ev_buf_allocate_def mempool_alloc_def free_blocks_def Let_def group_fits_iff)
  qed
qed

lemma group_ok_take:
  "group_ok g b \<Longrightarrow> qHead b = p # q \<Longrightarrow>
     group_ok g (b\<lparr>qHead := q, availBufNum := availBufNum b - 1\<rparr>)"
  by (cases "availBufNum b = 0") (auto simp: group_ok_def unat_minus_one)

lemma group_ok_give:
  assumes "group_ok g b" "p \<in> blocks g" "p \<notin> set (qHead b)" "g < 4"
  shows "group_ok g (b\<lparr>qHead := p # qHead b, availBufNum := availBufNum b + 1\<rparr>)"
proof -
  have "card (insert p (set (qHead b))) \<le> card (blocks g)"
    using assms by (intro card_mono) (auto simp: group_ok_def)
  with assms BUFFER_NUM_bound [of g] have "length (qHead b) < 8"
    by (auto simp: group_ok_def card_blocks distinct_card)
  with assms have "unat (availBufNum b + 1) = Suc (length (qHead b))"
    by (simp add: group_ok_def unat_word_ariths)
  with assms show ?thesis by (auto simp: group_ok_def)
qed

lemma alloc_pool_ok:
  assumes "pool_ok v" "ev_buf_allocate sz v = (r, v')"
  shows "pool_ok v'"
  using assms(1)
proof (cases rule: ev_buf_allocate_cases [where sz = sz])
  case none
  with assms show ?thesis by simp
next
  case (some g p q b)
  have b: "group_ok g b" using pool_okD(2) [OF assms(1) some(1)] some(6) by simp
  have q: "qHead b = p # q" using some by (simp add: free_blocks_def)
  have p: "p \<in> blocks g" using b q by (auto simp: group_ok_def)
  show ?thesis
    using some(7) assms(2)
    apply (clarsimp)
    apply (rule pool_ok_update [OF assms(1) some(1)])
    subgoal using group_ok_take [OF b q] by simp
    subgoal for p' using pool_okD(3) [OF assms(1) some(1), of p'] q some(6) by auto
    subgoal using blocks_disjoint p by auto
    done
qed


lemma in_live_iff: "p \<in> live v \<longleftrightarrow> (\<exists>g < 4. p \<in> blocks g \<and> p \<notin> set (free_blocks v g))"
  by (auto simp: live_def)

lemma live_in_group: "p \<in> blocks g \<Longrightarrow> p \<in> live v \<longleftrightarrow> g < 4 \<and> p \<notin> set (free_blocks v g)"
  using blocks_disjoint by (auto simp: live_def)

lemma live_update:
  assumes "pool_ok v" "g < 4"
  shows "live (v\<lparr>bufGroups := (bufGroups v)[g := b], groupIndex := gi\<rparr>)
    = {p \<in> live v. p \<notin> blocks g} \<union> (blocks g - set (qHead b))" (is "live ?w = ?r")
proof (rule set_eqI)
  fix x
  show "x \<in> live ?w \<longleftrightarrow> x \<in> ?r"
  proof (cases "x \<in> blocks g")
    case True
    with assms show ?thesis by (simp add: live_in_group free_blocks_update)
  next
    case False
    then have "x \<in> live ?w \<longleftrightarrow> x \<in> live v"
      unfolding in_live_iff by (metis assms free_blocks_update)
    with False show ?thesis by simp
  qed
qed

lemma alloc_live:
  assumes "pool_ok v" "ev_buf_allocate sz v = (Some p, v')"
  shows "p \<notin> live v" "live v' = insert p (live v)" "unat sz \<le> capacity p" "is_ev_buf p" "sz \<noteq> 0"
proof -
  have "p \<notin> live v \<and> live v' = insert p (live v) \<and> unat sz \<le> capacity p \<and> is_ev_buf p \<and> sz \<noteq> 0"
    using assms(1)
  proof (cases rule: ev_buf_allocate_cases [where sz = sz])
    case none
    with assms(2) show ?thesis by simp
  next
    case (some g p' q b)
    with assms(2) have p': "p' = p" by simp
    have b: "group_ok g b" using pool_okD(2) [OF assms(1) some(1)] some(6) by simp
    have q: "qHead b = p # q" using some p' by (simp add: free_blocks_def)
    have p: "p \<in> blocks g" "p \<notin> set q" "set q \<subseteq> blocks g" using b q by (auto simp: group_ok_def)
    have "live v' = {x \<in> live v. x \<notin> blocks g} \<union> (blocks g - set q)"
      using some(7) assms live_update [OF assms(1) some(1)] by auto
    moreover have "x \<in> live v \<longleftrightarrow> x \<noteq> p \<and> x \<notin> set q" if "x \<in> blocks g" for x
      using that live_in_group [of x g v] some(1,4) p' by auto
    ultimately have "live v' = insert p (live v)" "p \<notin> live v" using p by auto
    with p capacity_blocks [of p g] some show ?thesis
      by (auto simp: is_ev_buf_iff)
  qed
  then show "p \<notin> live v" "live v' = insert p (live v)" "unat sz \<le> capacity p" "is_ev_buf p" "sz \<noteq> 0"
    by auto
qed

lemma alloc_None: "pool_ok v \<Longrightarrow> ev_buf_allocate sz v = (None, v') \<Longrightarrow> v' = v"
  by (erule ev_buf_allocate_cases [where sz = sz]) auto

lemma alloc_fails_iff:
  assumes "pool_ok v"
  shows "fst (ev_buf_allocate sz v) = None \<longleftrightarrow>
    sz = 0 \<or> unat sz > MAX_BUFFER_SIZE \<or>
    (\<forall>g < 4. unat sz \<le> BUFFER_GROUPS ! g - EV_BUF_HDR \<longrightarrow> free_blocks v g = [])"
  using assms
proof (cases rule: ev_buf_allocate_cases [where sz = sz])
  case (some g p q b)
  have "BUFFER_GROUPS ! g - EV_BUF_HDR \<le> MAX_BUFFER_SIZE"
    using group_size_bound [OF some(1)] by (simp add: MAX_BUFFER_SIZE_def diff_le_mono)
  with some show ?thesis by auto
qed auto

lemma alloc_smallest:
  assumes "pool_ok v" "ev_buf_allocate sz v = (Some (EvBuf g i), v')" "h < g"
    "unat sz \<le> BUFFER_GROUPS ! h - EV_BUF_HDR"
  shows "free_blocks v h = []"
  using assms(1)
proof (cases rule: ev_buf_allocate_cases [where sz = sz])
  case (some g' p q b)
  have "EvBuf g i \<in> blocks g'"
    using pool_okD(2) [OF assms(1) some(1)] some assms(2)
    by (auto simp: group_ok_def free_blocks_def)
  then have "g' = g" by (simp add: blocks_def)
  with some assms show ?thesis by simp
qed (use assms in simp)

lemma ev_buf_free_live:
  assumes ok: "pool_ok v" and p: "p \<in> live v"
  shows "\<exists>g. p \<in> blocks g \<and> g < 4 \<and> p \<notin> set (free_blocks v g) \<and>
    ev_buf_free p v = Some (BUFFER_SUCC, v\<lparr>bufGroups := (bufGroups v)[g := (bufGroups v ! g)
      \<lparr>qHead := p # qHead (bufGroups v ! g), availBufNum := availBufNum (bufGroups v ! g) + 1\<rparr>]\<rparr>)"
proof -
  obtain g where g: "g < 4" "p \<in> blocks g" "p \<notin> set (free_blocks v g)"
    using p by (auto simp: in_live_iff)
  with pool_okD [OF ok] have "groupIndex v p = g" "length (bufGroups v) = 4"
    by (auto simp: free_blocks_def)
  moreover have "is_ev_buf p" using g by (auto simp: is_ev_buf_iff)
  ultimately have "ev_buf_free p v = Some (BUFFER_SUCC, v\<lparr>bufGroups := (bufGroups v)[g := (bufGroups v ! g)
      \<lparr>qHead := p # qHead (bufGroups v ! g), availBufNum := availBufNum (bufGroups v ! g) + 1\<rparr>]\<rparr>)"
    using g by (auto simp: ev_buf_free_def Let_def ev_buf_isExisted_def mempool_free_def free_blocks_def)
  with g show ?thesis by blast
qed


lemma free_live:
  assumes ok: "pool_ok v" and p: "p \<in> live v"
  shows "pool_ok (buf_free p v)" "live (buf_free p v) = live v - {p}"
    "\<exists>v'. ev_buf_free p v = Some (BUFFER_SUCC, v')"
proof -
  obtain g where g: "p \<in> blocks g" "g < 4" "p \<notin> set (free_blocks v g)"
    and e: "ev_buf_free p v = Some (BUFFER_SUCC, v\<lparr>bufGroups := (bufGroups v)[g := (bufGroups v ! g)
      \<lparr>qHead := p # qHead (bufGroups v ! g), availBufNum := availBufNum (bufGroups v ! g) + 1\<rparr>]\<rparr>)"
    using ev_buf_free_live [OF ok p] by blast
  let ?b = "(bufGroups v ! g)\<lparr>qHead := p # qHead (bufGroups v ! g),
    availBufNum := availBufNum (bufGroups v ! g) + 1\<rparr>"
  have f: "buf_free p v = v\<lparr>bufGroups := (bufGroups v)[g := ?b], groupIndex := groupIndex v\<rparr>"
    by (simp add: buf_free_def e)
  have b: "group_ok g ?b"
    using group_ok_give pool_okD(2) [OF ok g(2)] g by (simp add: free_blocks_def)
  show "pool_ok (buf_free p v)"
    unfolding f by (rule pool_ok_update [OF ok g(2) b]) (use pool_okD(3) [OF ok g(2)] in auto)
  have "x \<in> live v \<longleftrightarrow> x \<notin> set (free_blocks v g)" if "x \<in> blocks g" for x
    using that g(2) by (simp add: live_in_group)
  then show "live (buf_free p v) = live v - {p}"
    unfolding f live_update [OF ok g(2)] using g by (auto simp: free_blocks_def)
  show "\<exists>v'. ev_buf_free p v = Some (BUFFER_SUCC, v')" using e by blast
qed

lemma free_alloc:
  assumes ok: "pool_ok v" and a: "ev_buf_allocate sz v = (Some p, v')"
  shows "bufGroups (buf_free p v') = bufGroups v"
  using ok
proof (cases rule: ev_buf_allocate_cases [where sz = sz])
  case (some g p' q b)
  have gl: "g < length (bufGroups v)" using pool_okD(1) [OF ok] some(1) by simp
  have b: "group_ok g b" "qHead b = p # q" and v': "p' = p"
    "v' = v\<lparr>bufGroups := (bufGroups v)[g := b\<lparr>qHead := q, availBufNum := availBufNum b - 1\<rparr>],
          groupIndex := (groupIndex v)(p := g)\<rparr>"
    using pool_okD(2) [OF ok some(1)] some(4,6,7) a by (auto simp: free_blocks_def)
  then have "p \<in> blocks g" "p \<notin> set q" by (auto simp: group_ok_def)
  then have "is_ev_buf p" "\<not> ev_buf_isExisted v' g p" "groupIndex v' p = g" "g < length (bufGroups v')"
    using some(1) gl v' by (auto simp: is_ev_buf_iff ev_buf_isExisted_def)
  then show ?thesis
    using gl some(6) b(2) v'
    by (simp add: buf_free_def ev_buf_free_def mempool_free_def flip: b(2))
qed (use a in simp)

lemma double_free:
  assumes "pool_ok v" "p \<in> blocks g" "g < 4" "p \<notin> live v" "groupIndex v p = g"
  shows "ev_buf_free p v = Some (BUFFER_DUPLICATE_FREE, sys_exceptionPost FREE_MULTI v)"
  using assms live_in_group [of p g v] pool_okD(1) [OF assms(1)]
  by (auto simp: ev_buf_free_def ev_buf_isExisted_def free_blocks_def is_ev_buf_iff)

lemma groupIndex_free [simp]: "groupIndex (buf_free p v) = groupIndex v"
  by (auto simp: buf_free_def ev_buf_free_def sys_exceptionPost_def Let_def split: option.splits if_splits)

lemma bufGroups_length_4:
  assumes "pool_ok v"
  shows "bufGroups v = [bufGroups v ! 0, bufGroups v ! 1, bufGroups v ! 2, bufGroups v ! 3]"
proof -
  obtain a b c d where "bufGroups v = [a, b, c, d]"
    using pool_okD(1) [OF assms] by (auto simp: length_Suc_conv numeral_eq_Suc)
  then show ?thesis by (simp add: numeral_eq_Suc)
qed

lemma getFreeMaxSize_alloc:
  assumes ok: "pool_ok v" and n: "sz \<noteq> 0"
  shows "fst (ev_buf_allocate sz v) \<noteq> None \<longleftrightarrow> unat sz \<le> ev_buf_getFreeMaxSize v"
proof -
  have e: "availBufNum (bufGroups v ! g) = 0 \<longleftrightarrow> free_blocks v g = []"
    "unat (bg_size (bufGroups v ! g)) = BUFFER_GROUPS ! g" if "g < 4" for g
  proof -
    have "group_ok g (bufGroups v ! g)" by (rule pool_okD(2) [OF ok that])
    then show "availBufNum (bufGroups v ! g) = 0 \<longleftrightarrow> free_blocks v g = []"
      "unat (bg_size (bufGroups v ! g)) = BUFFER_GROUPS ! g"
      using unat_group_size [OF that]
      by (auto simp: group_ok_def free_blocks_def unat_eq_0 simp flip: length_0_conv)
  qed
  have all: "(\<forall>g < 4. P g) \<longleftrightarrow> P 0 \<and> P 1 \<and> P 2 \<and> P (3::nat)" for P
    by (auto dest: group_cases)
  have "unat sz \<noteq> 0" using n by (simp add: unat_eq_0)
  then show ?thesis
    using e [of 0] e [of 1] e [of 2] e [of 3] n
    unfolding alloc_fails_iff [OF ok] all
    apply (subst ev_buf_getFreeMaxSize_def, subst bufGroups_length_4 [OF ok])
    apply (simp add: BUFFER_GROUPS_def EV_BUF_HDR_def MAX_BUFFER_SIZE_def)
    apply (cases "free_blocks v 0"; cases "free_blocks v 1"; cases "free_blocks v 2"; cases "free_blocks v 3")
    apply auto
    done
qed

subsection \<open>The contract of an allocator\<close>

text \<open>
  What the code that uses the pool relies on. \<open>used\<close> is the set of blocks handed out; every
  user of the pool is proved against this contract, and \<^verbatim>\<open>ev_buffer.c\<close> provides it.
\<close>

locale buf_allocator =
  fixes alloc :: "u16 \<Rightarrow> 's \<Rightarrow> 'p option \<times> 's"
    and release :: "'p \<Rightarrow> 's \<Rightarrow> 's"
    and inv :: "'s \<Rightarrow> bool"
    and used :: "'s \<Rightarrow> 'p set"
    and cap :: "'p \<Rightarrow> nat"
  assumes alloc_inv: "inv s \<Longrightarrow> alloc n s = (r, s') \<Longrightarrow> inv s'"
    and alloc_fail: "inv s \<Longrightarrow> alloc n s = (None, s') \<Longrightarrow> s' = s"
    and alloc_new: "inv s \<Longrightarrow> alloc n s = (Some p, s') \<Longrightarrow>
      p \<notin> used s \<and> used s' = insert p (used s) \<and> unat n \<le> cap p"
    and release_inv: "inv s \<Longrightarrow> p \<in> used s \<Longrightarrow> inv (release p s)"
    and release_used: "inv s \<Longrightarrow> p \<in> used s \<Longrightarrow> used (release p s) = used s - {p}"
begin

text \<open>A block taken and given back around any work that keeps the blocks in use.\<close>

lemma scoped:
  assumes "inv s" "alloc n s = (Some p, s1)" "inv s2" "used s2 = used s1"
  shows "inv (release p s2)" "used (release p s2) = used s"
proof -
  from alloc_new [OF assms(1,2)] assms(4) have p: "p \<in> used s2" "used s2 - {p} = used s" by auto
  show "inv (release p s2)" by (rule release_inv [OF assms(3) p(1)])
  show "used (release p s2) = used s" using release_used [OF assms(3) p(1)] p(2) by simp
qed

lemma alloc_used_mono: "inv s \<Longrightarrow> alloc n s = (r, s') \<Longrightarrow> used s \<subseteq> used s'"
  using alloc_fail alloc_new by (cases r) fastforce+

end

lemma ev_buffer_allocator: "buf_allocator ev_buf_allocate buf_free pool_ok live capacity"
proof
  show "pool_ok s'" if "pool_ok s" "ev_buf_allocate n s = (r, s')" for s n r s'
    by (rule alloc_pool_ok [OF that])
  show "s' = s" if "pool_ok s" "ev_buf_allocate n s = (None, s')" for s n s'
    by (rule alloc_None [OF that])
  show "p \<notin> live s \<and> live s' = insert p (live s) \<and> unat n \<le> capacity p"
    if "pool_ok s" "ev_buf_allocate n s = (Some p, s')" for s n p s'
    using alloc_live [OF that] by simp
  show "pool_ok (buf_free p s)" if "pool_ok s" "p \<in> live s" for s p
    by (rule free_live(1) [OF that])
  show "live (buf_free p s) = live s - {p}" if "pool_ok s" "p \<in> live s" for s p
    by (rule free_live(2) [OF that])
qed

interpretation eb: buf_allocator ev_buf_allocate buf_free pool_ok live capacity
  by (rule ev_buffer_allocator)


subsection \<open>Runs of the pool\<close>

text \<open>The states users can bring the pool to: any allocation, and the release of a block that
  was handed out and not given back.\<close>

inductive pool_step :: "ev_buf_vars_t \<Rightarrow> ev_buf_vars_t \<Rightarrow> bool" where
  step_alloc: "pool_step v (snd (ev_buf_allocate sz v))"
| step_free: "p \<in> live v \<Longrightarrow> pool_step v (buf_free p v)"

inductive pool_reach :: "ev_buf_vars_t \<Rightarrow> bool" where
  reach_reset: "pool_reach (ev_buf_reset v)"
| reach_step: "pool_reach v \<Longrightarrow> pool_step v v' \<Longrightarrow> pool_reach v'"

inductive_cases pool_stepE: "pool_step v v'"

lemma pool_step_ok: "pool_step v v' \<Longrightarrow> pool_ok v \<Longrightarrow> pool_ok v'"
  by (erule pool_stepE) (auto intro: free_live(1) alloc_pool_ok [OF _ prod.collapse [symmetric]])

lemma pool_reach_ok: "pool_reach v \<Longrightarrow> pool_ok v"
  by (induction rule: pool_reach.induct) (auto intro: pool_ok_reset pool_step_ok)

lemma card_live_group:
  assumes "pool_ok v" "g < 4"
  shows "card (blocks g - set (free_blocks v g)) + length (free_blocks v g) = BUFFER_NUM_IN_GROUPS ! g"
proof -
  have q: "set (free_blocks v g) \<subseteq> blocks g" "distinct (free_blocks v g)"
    using pool_okD(2) [OF assms] by (auto simp: group_ok_def free_blocks_def)
  then have "length (free_blocks v g) \<le> card (blocks g)"
    by (metis card_mono distinct_card finite_blocks)
  with q show ?thesis
    by (simp add: card_Diff_subset distinct_card card_blocks)
qed

lemma card_live:
  assumes "pool_ok v"
  shows "card (live v) + (\<Sum>g<4. length (free_blocks v g)) = 26"
proof -
  have "card (live v) = (\<Sum>g<4. card (blocks g - set (free_blocks v g)))"
    unfolding live_def by (rule card_UN_disjoint) (auto dest: blocks_disjoint)
  then have "card (live v) + (\<Sum>g<4. length (free_blocks v g))
      = (\<Sum>g<4. BUFFER_NUM_IN_GROUPS ! g)"
    using card_live_group [OF assms] by (simp flip: sum.distrib)
  also have "\<dots> = 26" by (simp add: BUFFER_NUM_IN_GROUPS_def numeral_eq_Suc)
  finally show ?thesis .
qed

subsection \<open>Properties\<close>

definition ex_pool :: ev_buf_vars_t where
  "ex_pool = ev_buf_reset \<lparr>bufGroups = [], groupIndex = (\<lambda>_. 0), T_evtExcept = []\<rparr>"

lemma ex_pool_ok [simp]: "pool_ok ex_pool"
  by (simp add: ex_pool_def pool_ok_reset)

lemma ex_pool_alloc: "fst (ev_buf_allocate 20 ex_pool) = Some (EvBuf 1 0)"
  by code_simp

text \<open>C17. Allocation is safe and takes the smallest group that fits. A block that is handed out
  was not in use, is a block of the pools with room for the bytes asked for, becomes the only
  new block in use, and every group of smaller blocks that would fit is empty.\<close>

theorem buf_alloc_safe:
  assumes "pool_ok v" "ev_buf_allocate sz v = (Some (EvBuf g i), v')"
  shows "pool_ok v' \<and> EvBuf g i \<notin> live v \<and> live v' = insert (EvBuf g i) (live v) \<and>
    is_ev_buf (EvBuf g i) \<and> unat sz \<le> capacity (EvBuf g i) \<and>
    (\<forall>h < g. unat sz \<le> BUFFER_GROUPS ! h - EV_BUF_HDR \<longrightarrow> free_blocks v h = [])"
  using alloc_pool_ok [OF assms] alloc_live [OF assms] alloc_smallest [OF assms] by blast

lemma buf_alloc_safe_witness:
  "\<exists>v'. ev_buf_allocate 20 ex_pool = (Some (EvBuf 1 0), v') \<and> EvBuf 1 0 \<notin> live ex_pool \<and>
     live v' = {EvBuf 1 0}"
proof -
  obtain v' where a: "ev_buf_allocate 20 ex_pool = (Some (EvBuf 1 0), v')"
    using ex_pool_alloc by (metis prod.collapse)
  from buf_alloc_safe [OF ex_pool_ok a] show ?thesis
    using a by (simp add: ex_pool_def live_reset)
qed

text \<open>Allocating and freeing is a round trip: giving back the block just taken succeeds and
  restores every free list and every count, and giving it back once more is detected and
  changes no group.\<close>

theorem buf_free_restores:
  assumes "pool_ok v" "ev_buf_allocate sz v = (Some p, v')"
  shows "(\<exists>v''. ev_buf_free p v' = Some (BUFFER_SUCC, v'') \<and> bufGroups v'' = bufGroups v \<and>
    ev_buf_free p v'' = Some (BUFFER_DUPLICATE_FREE, sys_exceptionPost FREE_MULTI v''))"
proof -
  have ok: "pool_ok v'" and p: "p \<in> live v'"
    using alloc_pool_ok [OF assms] alloc_live [OF assms] by auto
  obtain v'' where f: "ev_buf_free p v' = Some (BUFFER_SUCC, v'')"
    using free_live(3) [OF ok p] by blast
  then have e: "v'' = buf_free p v'" by (simp add: buf_free_def)
  have "pool_ok v''" "p \<notin> live v''" using free_live [OF ok p] e by auto
  moreover obtain g where "g < 4" "p \<in> blocks g" "p \<notin> set (free_blocks v' g)"
    using p by (auto simp: in_live_iff)
  moreover from this have "groupIndex v'' p = g"
    using pool_okD(3) [OF ok] e by (simp add: free_blocks_def)
  ultimately have "ev_buf_free p v'' = Some (BUFFER_DUPLICATE_FREE, sys_exceptionPost FREE_MULTI v'')"
    by (intro double_free) auto
  then show ?thesis using f e free_alloc [OF assms] by auto
qed

lemma buf_free_restores_witness:
  "\<exists>v' v''. ev_buf_allocate 20 ex_pool = (Some (EvBuf 1 0), v') \<and>
     ev_buf_free (EvBuf 1 0) v' = Some (BUFFER_SUCC, v'') \<and> bufGroups v'' = bufGroups ex_pool"
proof -
  obtain v' where a: "ev_buf_allocate 20 ex_pool = (Some (EvBuf 1 0), v')"
    using ex_pool_alloc by (metis prod.collapse)
  from buf_free_restores [OF ex_pool_ok a] show ?thesis using a by blast
qed

text \<open>\<^verbatim>\<open>ev_buf_getFreeMaxSize\<close> is exact: a non-empty request succeeds if and only if it is not
  larger than the size it returns.\<close>

theorem buf_getFreeMaxSize_exact:
  assumes "pool_ok v" "sz \<noteq> 0"
  shows "fst (ev_buf_allocate sz v) \<noteq> None \<longleftrightarrow> unat sz \<le> ev_buf_getFreeMaxSize v"
  by (rule getFreeMaxSize_alloc [OF assms])

lemma buf_getFreeMaxSize_exact_witness: "fst (ev_buf_allocate 500 ex_pool) \<noteq> None"
proof -
  have "unat (500 :: u16) \<le> ev_buf_getFreeMaxSize ex_pool" by code_simp
  with buf_getFreeMaxSize_exact [of ex_pool 500] show ?thesis by simp
qed

text \<open>No sequence of allocations and releases loses or duplicates a block: in every reachable
  state the groups are well-formed, and the blocks in use and the blocks in the free lists are
  together the 26 blocks of the pools.\<close>

theorem buf_runs_conserve:
  assumes "pool_reach v"
  shows "pool_ok v \<and> card (live v) + (\<Sum>g<4. length (free_blocks v g)) = 26"
  using pool_reach_ok [OF assms] card_live by blast

lemma buf_runs_conserve_witness:
  "card (live (snd (ev_buf_allocate 20 ex_pool)))
     + (\<Sum>g<4. length (free_blocks (snd (ev_buf_allocate 20 ex_pool)) g)) = 26"
proof -
  have "pool_reach (snd (ev_buf_allocate 20 ex_pool))"
    unfolding ex_pool_def by (rule reach_step [OF reach_reset step_alloc])
  from buf_runs_conserve [OF this] show ?thesis by simp
qed

end
