(* ===== verification/Ev_Rtc.thy ===== *)
theory Ev_Rtc
  imports Zb_Prelude
begin

text \<open>
  The real-time clock, \<^verbatim>\<open>proj/os/ev_rtc.c\<close>: a second counter fed with elapsed milliseconds,
  and the conversions between seconds since 2000-01-01 and a calendar date. Every variable
  keeps the width it has in the code: days and years are 16 bits, the month index of
  \<^verbatim>\<open>ev_rtc_utc2Second\<close> is a signed byte.
\<close>

record utcTime_t =
  utc_year :: u16
  utc_month :: u8
  utc_day :: u8
  utc_hour :: u8
  utc_min :: u8
  utc_sec :: u8

record ev_rtc_t =
  rtcRemainingMs :: u32
  rtcSeconds :: u32

definition IS_LEAP_YEAR :: "u16 \<Rightarrow> bool" where
  "IS_LEAP_YEAR y \<longleftrightarrow> y mod 400 = 0 \<or> (y mod 100 \<noteq> 0 \<and> y mod 4 = 0)"

definition YEAR_LENGTH_GET :: "u16 \<Rightarrow> u16" where
  "YEAR_LENGTH_GET y = (if IS_LEAP_YEAR y then 366 else 365)"

definition monthLengthGet :: "bool \<Rightarrow> u8 \<Rightarrow> u8" where
  "monthLengthGet isLeapYear month =
     (if month = 1 then 28 + (if isLeapYear then 1 else 0)
      else let m = (if month > 6 then month - 1 else month) in
        if m AND 1 \<noteq> 0 then 30 else 31)"

lemma YEAR_LENGTH_pos: "0 < YEAR_LENGTH_GET y"
  by (simp add: YEAR_LENGTH_GET_def)

lemma monthLength_pos: "0 < monthLengthGet l m"
  by (simp add: monthLengthGet_def Let_def)

text \<open>The loop over the years, then the one over the months. Both end whatever the day
  count is, because a year and a month are never empty.\<close>

function second2utc_years :: "u16 \<Rightarrow> u16 \<Rightarrow> u16 \<times> u16" where
  "second2utc_years days year =
     (if days \<ge> YEAR_LENGTH_GET year
      then second2utc_years (days - YEAR_LENGTH_GET year) (year + 1) else (days, year))"
  by pat_completeness auto
termination
proof (relation "measure (\<lambda>(days, _). unat days)", simp)
  fix days year assume "YEAR_LENGTH_GET year \<le> days"
  then show "((days - YEAR_LENGTH_GET year, year + 1), days, year) \<in> measure (\<lambda>(days, _). unat days)"
    using YEAR_LENGTH_pos [of year] by (auto simp: unat_sub word_less_nat_alt word_le_nat_alt)
qed

function second2utc_months :: "bool \<Rightarrow> u16 \<Rightarrow> u8 \<Rightarrow> u16 \<times> u8" where
  "second2utc_months leap days month =
     (if days \<ge> ucast (monthLengthGet leap month)
      then second2utc_months leap (days - ucast (monthLengthGet leap month)) (month + 1)
      else (days, month))"
  by pat_completeness auto
termination
proof (relation "measure (\<lambda>(_, days, _). unat days)", simp)
  fix leap days month assume h: "ucast (monthLengthGet leap month) \<le> (days :: u16)"
  have "unat (ucast (monthLengthGet leap month) :: u16) = unat (monthLengthGet leap month)"
    using unsigned_less [of "monthLengthGet leap month", where ?'a = nat]
    by (simp add: unsigned_ucast_eq take_bit_nat_eq_self)
  with h monthLength_pos [of leap month]
  show "((leap, days - ucast (monthLengthGet leap month), month + 1), leap, days, month)
      \<in> measure (\<lambda>(_, days, _). unat days)"
    by (auto simp: unat_sub word_less_nat_alt word_le_nat_alt)
qed

definition ev_rtc_second2utc :: "u32 \<Rightarrow> utcTime_t" where
  "ev_rtc_second2utc utcSeconds =
     (let days0 = ucast (utcSeconds div 86400) :: u16;
          seconds = utcSeconds mod 86400;
          (days1, year) = second2utc_years days0 2000;
          (days, month) = second2utc_months (IS_LEAP_YEAR year) days1 0 in
      \<lparr>utc_year = year, utc_month = month + 1, utc_day = ucast days + 1,
       utc_hour = ucast (seconds div 3600), utc_min = ucast ((seconds mod 3600) div 60),
       utc_sec = ucast (seconds mod 60)\<rparr>)"

text \<open>The way back counts the days of the months and years before the date; the loop
  variables are decremented before the test, so the year \<open>0\<close> wraps to \<open>65535\<close> and the
  month index is compared as a signed byte.\<close>

function utc2Second_months :: "bool \<Rightarrow> u8 \<Rightarrow> u16 \<Rightarrow> u16" where
  "utc2Second_months leap month days =
     (if 0 \<le> sint (month - 1)
      then utc2Second_months leap (month - 1) (days + ucast (monthLengthGet leap (month - 1)))
      else days)"
  by pat_completeness auto
termination
proof (relation "measure (\<lambda>(_, m, _). nat (sint (m - 1) + 1))", simp)
  fix leap month days assume h: "0 \<le> sint (month - 1 :: u8)"
  then have "sint (month - 1 - 1) = sint (month - 1) - 1"
    using sint_range_size [of "month - 1"]
    by (subst sint_word_ariths(2) [of "month - 1" 1]) (simp add: signed_take_bit_int_eq_self word_size)
  with h show "((leap, month - 1, days + ucast (monthLengthGet leap (month - 1))), leap, month, days)
      \<in> measure (\<lambda>(_, m, _). nat (sint (m - 1) + 1))"
    by simp
qed

function utc2Second_years :: "u16 \<Rightarrow> u16 \<Rightarrow> u16" where
  "utc2Second_years year days =
     (if year - 1 \<ge> 2000
      then utc2Second_years (year - 1) (days + YEAR_LENGTH_GET (year - 1)) else days)"
  by pat_completeness auto
termination
proof (relation "measure (\<lambda>(y, _). unat (y - 1))", simp)
  fix year days assume h: "2000 \<le> (year - 1 :: u16)"
  then have "unat (year - 1 - 1) < unat (year - 1)"
    by (subst unat_minus_one) (auto simp: word_le_nat_alt)
  then show "((year - 1, days + YEAR_LENGTH_GET (year - 1)), year, days) \<in> measure (\<lambda>(y, _). unat (y - 1))"
    by simp
qed

definition ev_rtc_utc2Second :: "utcTime_t \<Rightarrow> u32" where
  "ev_rtc_utc2Second t =
     (let seconds = ((ucast (utc_hour t) * 60 + ucast (utc_min t)) * 60 + ucast (utc_sec t)) :: u32;
          days0 = ucast (utc_day t) - 1 :: u16;
          days1 = utc2Second_months (IS_LEAP_YEAR (utc_year t)) (utc_month t - 1) days0;
          days = utc2Second_years (utc_year t) days1 in
      seconds + ucast days * 86400)"

definition ev_rtc_secondsSet :: "u32 \<Rightarrow> ev_rtc_t \<Rightarrow> ev_rtc_t" where
  "ev_rtc_secondsSet seconds r = r\<lparr>rtcSeconds := seconds\<rparr>"

definition ev_rtc_update :: "u32 \<Rightarrow> ev_rtc_t \<Rightarrow> ev_rtc_t" where
  "ev_rtc_update updateTime r =
     (let rem = rtcRemainingMs r + updateTime in
      if rem \<ge> 1000
      then r\<lparr>rtcSeconds := rtcSeconds r + rem div 1000, rtcRemainingMs := rem mod 1000\<rparr>
      else r\<lparr>rtcRemainingMs := rem\<rparr>)"

declare second2utc_years.simps [simp del] second2utc_months.simps [simp del]
  utc2Second_months.simps [simp del] utc2Second_years.simps [simp del]


subsection \<open>The loops undo each other\<close>

lemma unat_monthLength: "unat (ucast (monthLengthGet l m) :: u16) = unat (monthLengthGet l m)"
  using unsigned_less [of "monthLengthGet l m", where ?'a = nat]
  by (simp add: unsigned_ucast_eq take_bit_nat_eq_self)

lemma monthLength_le: "unat (monthLengthGet l m) \<le> 31"
  by (simp add: monthLengthGet_def Let_def)

lemma unat_plus1: "unat (w :: 'a::len word) + 1 < 2 ^ LENGTH('a) \<Longrightarrow> unat (w + 1) = unat w + 1"
  by (cases "LENGTH('a) = 0") (simp_all add: unat_word_ariths)

lemma utc2Second_years_base: "utc2Second_years 2000 d = d"
  by (subst utc2Second_years.simps) (simp add: word_le_nat_alt)

lemma utc2Second_years_Suc:
  "2000 \<le> y \<Longrightarrow> utc2Second_years (y + 1) d = utc2Second_years y (d + YEAR_LENGTH_GET y)"
  by (subst utc2Second_years.simps) simp

lemma second2utc_years_inverse:
  "2000 \<le> year \<Longrightarrow> unat year + unat days < 65536 \<Longrightarrow> second2utc_years days year = (d, y) \<Longrightarrow>
     utc2Second_years y d = utc2Second_years year days \<and> d < YEAR_LENGTH_GET y \<and>
     2000 \<le> y \<and> unat y + unat d \<le> unat year + unat days"
proof (induction days year arbitrary: d y rule: second2utc_years.induct)
  case (1 days year)
  show ?case
  proof (cases "YEAR_LENGTH_GET year \<le> days")
    case True
    let ?L = "YEAR_LENGTH_GET year"
    have L: "unat ?L \<ge> 365" by (simp add: YEAR_LENGTH_GET_def)
    have d: "unat (days - ?L) = unat days - unat ?L" "unat ?L \<le> unat days"
      using True by (auto simp: unat_sub word_le_nat_alt)
    have y: "unat (year + 1) = unat year + 1"
      by (rule unat_plus1) (use 1(3) d(2) L in simp)
    have r: "second2utc_years (days - ?L) (year + 1) = (d, y)"
      using 1(4) True by (subst (asm) second2utc_years.simps) simp
    have "2000 \<le> year + 1" "unat (year + 1) + unat (days - ?L) < 65536"
      using 1(2,3) d y L by (auto simp: word_le_nat_alt)
    from 1(1) [OF True this r] show ?thesis
      using utc2Second_years_Suc [OF 1(2)] d(2) y L unfolding d(1) by auto
  next
    case False
    then have "d = days" "y = year" using 1(4) by (auto simp: second2utc_years.simps [of days])
    with False 1(2) show ?thesis by simp
  qed
qed

definition days_from :: "bool \<Rightarrow> nat \<Rightarrow> nat" where
  "days_from leap k = sum_list (map (\<lambda>j. unat (monthLengthGet leap (of_nat j))) [k..<12])"

lemma days_from_step:
  "k < 12 \<Longrightarrow> days_from leap k = unat (monthLengthGet leap (of_nat k)) + days_from leap (Suc k)"
  by (simp add: days_from_def upt_conv_Cons)

lemma days_from_12 [simp]: "days_from leap 12 = 0"
  by (simp add: days_from_def)

lemma days_from_0: "days_from (IS_LEAP_YEAR y) 0 = unat (YEAR_LENGTH_GET y)"
proof -
  have u: "[0..<12] = [0, 1, 2, 3, 4, 5, 6, 7, 8, 9, 10, 11 :: nat]" by (simp add: upt_conv_Cons)
  show ?thesis unfolding days_from_def u by (cases "IS_LEAP_YEAR y") (simp_all add: monthLengthGet_def YEAR_LENGTH_GET_def)
qed

lemma utc2Second_months_base: "utc2Second_months leap 0 d = d"
  by (subst utc2Second_months.simps) simp

lemma sint_small: "unat (m :: u8) < 128 \<Longrightarrow> 0 \<le> sint m"
proof -
  assume "unat m < 128"
  then have "int (unat m) < 128" by linarith
  then have "uint m < 128" by simp
  then have "signed_take_bit 7 (uint m) = uint m"
    by (intro signed_take_bit_int_eq_self) (simp_all add: order.trans [OF _ unsigned_greater_eq])
  then have "sint m = uint m" by (simp add: sint_uint)
  then show "0 \<le> sint m" by simp
qed

lemma utc2Second_months_Suc:
  "unat m < 12 \<Longrightarrow>
     utc2Second_months leap (m + 1) d = utc2Second_months leap m (d + ucast (monthLengthGet leap m))"
  by (subst utc2Second_months.simps) (simp add: sint_small)

lemma second2utc_months_inverse:
  "unat month < 12 \<Longrightarrow> unat days < days_from leap (unat month) \<Longrightarrow>
     second2utc_months leap days month = (d, m) \<Longrightarrow>
     utc2Second_months leap m d = utc2Second_months leap month days \<and>
     unat m < 12 \<and> unat d < unat (monthLengthGet leap m)"
proof (induction leap days month arbitrary: d m rule: second2utc_months.induct)
  case (1 leap days month)
  let ?L = "ucast (monthLengthGet leap month) :: u16"
  have step: "days_from leap (unat month) = unat ?L + days_from leap (Suc (unat month))"
    using days_from_step [OF 1(2), of leap] by (simp add: unat_monthLength)
  show ?case
  proof (cases "?L \<le> days")
    case True
    then have d: "unat (days - ?L) = unat days - unat ?L" "unat ?L \<le> unat days"
      by (auto simp: unat_sub word_le_nat_alt)
    have "unat month \<noteq> 11"
    proof
      assume e: "unat month = 11"
      have "days_from leap (Suc (unat month)) = 0" unfolding e by (simp add: days_from_def)
      with step d 1(3) show False by linarith
    qed
    with 1(2) have m: "unat month < 11" by simp
    have m1: "unat (month + 1) = Suc (unat month)" using unat_plus1 [of month] m by simp
    have r: "second2utc_months leap (days - ?L) (month + 1) = (d, m)"
      using 1(4) True by (subst (asm) second2utc_months.simps) simp
    have "unat (month + 1) < 12" "unat (days - ?L) < days_from leap (unat (month + 1))"
      using m m1 d step 1(3) by auto
    from 1(1) [OF True this r] show ?thesis
      using utc2Second_months_Suc [OF 1(2)] by simp
  next
    case False
    then have "d = days" "m = month" using 1(4) by (auto simp: second2utc_months.simps [of leap days])
    with False 1(2) show ?thesis by (simp add: word_le_nat_alt unat_monthLength)
  qed
qed


text \<open>The date of a second count: what \<^verbatim>\<open>ev_rtc_second2utc\<close> computes, with the loops run.\<close>

lemma second2utc_cases:
  obtains y d1 m d where
    "ev_rtc_second2utc s = \<lparr>utc_year = y, utc_month = m + 1, utc_day = ucast d + 1,
       utc_hour = ucast (s mod 86400 div 3600), utc_min = ucast (s mod 86400 mod 3600 div 60),
       utc_sec = ucast (s mod 86400 mod 60)\<rparr>"
    "utc2Second_years y d1 = ucast (s div 86400)"
    "utc2Second_months (IS_LEAP_YEAR y) m d = d1"
    "unat m < 12" "unat d < unat (monthLengthGet (IS_LEAP_YEAR y) m)" "2000 \<le> y" "unat y \<le> 51710"
proof -
  obtain d1 y where y: "second2utc_years (ucast (s div 86400)) 2000 = (d1, y)" by fastforce
  obtain d m where m: "second2utc_months (IS_LEAP_YEAR y) d1 0 = (d, m)" by fastforce
  have b: "unat (s div 86400) \<le> 49710"
    using unsigned_less [of s, where ?'a = nat] by (simp add: unat_div)
  then have b': "unat (ucast (s div 86400) :: u16) \<le> 49710"
    by (simp add: unsigned_ucast_eq take_bit_nat_eq_self)
  have Y: "utc2Second_years y d1 = ucast (s div 86400)" "d1 < YEAR_LENGTH_GET y" "2000 \<le> y"
      "unat y + unat d1 \<le> 2000 + unat (ucast (s div 86400) :: u16)"
    using second2utc_years_inverse [OF _ _ y] b' by (auto simp: utc2Second_years_base)
  have M: "utc2Second_months (IS_LEAP_YEAR y) m d = d1" "unat m < 12"
      "unat d < unat (monthLengthGet (IS_LEAP_YEAR y) m)"
    using second2utc_months_inverse [OF _ _ m] Y(2)
    by (auto simp: utc2Second_months_base days_from_0 word_less_nat_alt)
  show ?thesis
    by (rule that [of y m d d1]) (use y m Y M b' in \<open>auto simp: ev_rtc_second2utc_def Let_def\<close>)
qed

lemma time_of_day:
  fixes t :: u32
  assumes "unat t < 86400"
  shows "((ucast (ucast (t div 3600) :: u8) * 60 + ucast (ucast (t mod 3600 div 60) :: u8)) * 60
           + ucast (ucast (t mod 60) :: u8)) = t"
    and "unat (ucast (t div 3600) :: u8) < 24" "unat (ucast (t mod 3600 div 60) :: u8) < 60"
    and "unat (ucast (t mod 60) :: u8) < 60"
proof -
  have u: "unat (ucast (w :: u32) :: u8) = unat w" "unat (ucast (ucast w :: u8) :: u32) = unat w"
    if "unat w < 256" for w
    using that by (simp_all add: unsigned_ucast_eq unsigned_take_bit_eq take_bit_nat_eq_self)
  have h: "unat (t div 3600) = unat t div 3600" "unat (t mod 3600 div 60) = unat t mod 3600 div 60"
      "unat (t mod 60) = unat t mod 60"
    by (simp_all add: unat_div unat_mod)
  have b: "unat t div 3600 < 24" "unat t mod 3600 div 60 < 60" "unat t mod 60 < 60"
    using assms by auto
  show "unat (ucast (t div 3600) :: u8) < 24" "unat (ucast (t mod 3600 div 60) :: u8) < 60"
    "unat (ucast (t mod 60) :: u8) < 60"
    using u h b by simp_all
  have e: "(unat t div 3600 * 60 + unat t mod 3600 div 60) * 60 + unat t mod 60 = unat t"
  proof -
    have "unat t mod 3600 mod 60 = unat t mod 60" by (simp add: mod_mod_cancel)
    then have "unat t mod 3600 = unat t mod 3600 div 60 * 60 + unat t mod 60" by (metis div_mult_mod_eq)
    moreover have "unat t = unat t div 3600 * 3600 + unat t mod 3600" by simp
    ultimately show ?thesis by (simp only: add_mult_distrib mult.assoc)
  qed
  show "((ucast (ucast (t div 3600) :: u8) * 60 + ucast (ucast (t mod 3600 div 60) :: u8)) * 60
           + ucast (ucast (t mod 60) :: u8)) = t"
    apply (rule word_unat_eq_iff [THEN iffD2])
    apply (simp add: unat_word_ariths u(2) h b less_trans [OF b(1)] less_trans [OF b(2)] less_trans [OF b(3)])
    using e assms apply simp
    done
qed


subsection \<open>Properties\<close>

text \<open>C18. The conversions of the real-time clock are inverse: for every 32-bit second count,
  the date \<^verbatim>\<open>ev_rtc_second2utc\<close> computes is read back by \<^verbatim>\<open>ev_rtc_utc2Second\<close> as the same
  count. (In C the product of days and seconds is computed in a signed int, which overflows
  from 2068 on; the theorem takes the two's complement result.)\<close>

theorem utc_roundtrip: "ev_rtc_utc2Second (ev_rtc_second2utc s) = s"
proof (cases s rule: second2utc_cases)
  case (1 y d1 m d)
  let ?t = "s mod 86400"
  have t: "unat ?t < 86400"
    by (simp add: unat_mod)
  have "unat d + 1 < 256" "unat d < 31"
    using 1(5) monthLength_le [of "IS_LEAP_YEAR y" m] by linarith+
  then have e: "unat (ucast d + 1 :: u8) = unat d + 1"
    by (simp add: unat_word_ariths unsigned_ucast_eq take_bit_nat_eq_self)
  then have "unat (ucast (ucast d + 1 :: u8) :: u16) = unat (d + 1)"
    using \<open>unat d < 31\<close> by (simp add: unsigned_ucast_eq take_bit_nat_eq_self unat_word_ariths)
  then have d: "ucast (ucast d + 1 :: u8) - 1 = d"
    by (simp add: word_unat_eq_iff [symmetric])
  have m: "m + 1 - 1 = m" by simp
  have "unat (s div 86400) \<le> 49710"
    using unsigned_less [of s, where ?'a = nat] by (simp add: unat_div)
  then have u: "ucast (ucast (s div 86400) :: u16) = s div 86400"
    by (simp add: word_unat_eq_iff unsigned_ucast_eq unsigned_take_bit_eq take_bit_nat_eq_self)
  have "ev_rtc_utc2Second (ev_rtc_second2utc s) = ?t + s div 86400 * 86400"
    unfolding 1(1) ev_rtc_utc2Second_def
    using time_of_day(1) [OF t] by (simp add: Let_def d 1(2,3) u)
  then show ?thesis by (simp add: mod_div_mult_eq)
qed

text \<open>Every second count becomes a date of the calendar: month, day, hour, minute and
  second are in their ranges, the day within its month, and the year from 2000 on. In
  particular both loops of \<^verbatim>\<open>ev_rtc_second2utc\<close> end.\<close>

theorem utc_valid_date:
  "let t = ev_rtc_second2utc s in
     2000 \<le> utc_year t \<and>
     1 \<le> unat (utc_month t) \<and> unat (utc_month t) \<le> 12 \<and>
     1 \<le> unat (utc_day t) \<and>
     utc_day t \<le> monthLengthGet (IS_LEAP_YEAR (utc_year t)) (utc_month t - 1) \<and>
     unat (utc_hour t) < 24 \<and> unat (utc_min t) < 60 \<and> unat (utc_sec t) < 60"
proof (cases s rule: second2utc_cases)
  case (1 y d1 m d)
  have t: "unat (s mod 86400) < 86400"
    by (simp add: unat_mod)
  have "unat d < 31" using 1(5) monthLength_le [of "IS_LEAP_YEAR y" m] by linarith
  then have "unat (ucast d + 1 :: u8) = unat d + 1"
    by (simp add: unat_word_ariths unsigned_ucast_eq take_bit_nat_eq_self)
  moreover have "unat (m + 1) = unat m + 1" using 1(4) by (simp add: unat_word_ariths)
  ultimately show ?thesis
    using 1(4-6) time_of_day [OF t] by (simp add: 1(1) Let_def word_le_nat_alt)
qed

end
