(* ===== verification/Ev_Timer.thy ===== *)
theory Ev_Timer
  imports Ev_Rtc
begin

text \<open>
  Software timers: \<^verbatim>\<open>proj/os/ev_timer.c\<close> with the list macros of \<^verbatim>\<open>proj/common/utlist.h\<close>.

  A timer is a slot of the event pool (\<open>PoolEvt i\<close>) or a static variable of a user
  (\<open>UserEvt n\<close>). The linked list from \<^verbatim>\<open>timer_head\<close> is the list \<open>timer_list\<close>: the \<^verbatim>\<open>next\<close> of a
  linked timer is its successor there, and the field \<open>next\<close> is kept only for the timers that
  are not linked, because \<^verbatim>\<open>ev_timer_executeCB\<close> follows the stale pointer of a timer that was
  removed while it ran. A callback with its argument is a value of type \<open>'cb\<close>; what it does
  is a parameter of the functions that call it. The clock does not advance during a call.
\<close>

datatype tref = PoolEvt nat | UserEvt nat

record 'cb ev_timer_event_t =
  "next" :: "tref option"
  cb :: "'cb option"
  timeout :: u32
  period :: u32
  curSysTick :: u32
  isBusy :: bool
  isRunning :: bool
  used :: bool

record 'cb ev_timer_ctrl =
  timer_list :: "tref list"
  timer_nearest :: "tref option"
  evt :: "tref \<Rightarrow> 'cb ev_timer_event_t"
  used_num :: u32
  clock_time :: u32
  prevSysTick :: u32
  remSysTick :: u32
  rtc :: ev_rtc_t
  T_timerExcept :: nat

definition TIMER_EVENT_NUM :: nat where "TIMER_EVENT_NUM = 24"
definition TIMER_EVENT_ENOUGH_NUM :: nat where "TIMER_EVENT_ENOUGH_NUM = TIMER_EVENT_NUM - 4"
definition NO_TIMER_AVAIL :: u8 where "NO_TIMER_AVAIL = 0x08"
definition TIMER_CANCEL_NOT_ALLOWED :: u8 where "TIMER_CANCEL_NOT_ALLOWED = 0x0D"
definition TIMER_SUCCESS :: u8 where "TIMER_SUCCESS = 0"

definition evt0 :: "'cb ev_timer_event_t" where
  "evt0 = \<lparr>next = None, cb = None, timeout = 0, period = 0, curSysTick = 0,
     isBusy = False, isRunning = False, used = False\<rparr>"

definition upd_evt ::
  "tref \<Rightarrow> ('cb ev_timer_event_t \<Rightarrow> 'cb ev_timer_event_t) \<Rightarrow>
     ('cb, 'm) ev_timer_ctrl_scheme \<Rightarrow> ('cb, 'm) ev_timer_ctrl_scheme" where
  "upd_evt t f s = s\<lparr>evt := (evt s)(t := f (evt s t))\<rparr>"

definition is_pool :: "tref \<Rightarrow> bool" where
  "is_pool t = (case t of PoolEvt i \<Rightarrow> i < TIMER_EVENT_NUM | UserEvt _ \<Rightarrow> False)"

subsection \<open>The list\<close>

fun succ_of :: "tref list \<Rightarrow> tref \<Rightarrow> tref option" where
  "succ_of (x # y # ys) t = (if x = t then Some y else succ_of (y # ys) t)"
| "succ_of _ t = None"

definition list_head :: "('cb, 'm) ev_timer_ctrl_scheme \<Rightarrow> tref option" where
  "list_head s = (case timer_list s of [] \<Rightarrow> None | t # _ \<Rightarrow> Some t)"

definition next_of :: "('cb, 'm) ev_timer_ctrl_scheme \<Rightarrow> tref \<Rightarrow> tref option" where
  "next_of s t = (if t \<in> set (timer_list s) then succ_of (timer_list s) t else next (evt s t))"

definition LIST_EXIST :: "tref list \<Rightarrow> tref \<Rightarrow> bool" where
  "LIST_EXIST xs t \<longleftrightarrow> t \<in> set xs"

definition LIST_ADD :: "tref \<Rightarrow> ('cb, 'm) ev_timer_ctrl_scheme \<Rightarrow> ('cb, 'm) ev_timer_ctrl_scheme" where
  "LIST_ADD t s = s\<lparr>timer_list := t # timer_list s\<rparr>"

definition LIST_DELETE :: "tref \<Rightarrow> ('cb, 'm) ev_timer_ctrl_scheme \<Rightarrow> ('cb, 'm) ev_timer_ctrl_scheme" where
  \<comment> \<open>the removed element keeps its \<^verbatim>\<open>next\<close>\<close>
  "LIST_DELETE t s = upd_evt t (\<lambda>e. e\<lparr>next := succ_of (timer_list s) t\<rparr>)
     (s\<lparr>timer_list := remove1 t (timer_list s)\<rparr>)"

subsection \<open>Operations\<close>

definition ev_timer_init :: "('cb, 'm) ev_timer_ctrl_scheme \<Rightarrow> ('cb, 'm) ev_timer_ctrl_scheme" where
  "ev_timer_init s = s\<lparr>timer_list := [], timer_nearest := None, used_num := 0,
     evt := (\<lambda>t. if is_pool t then evt0 else evt s t)\<rparr>"

definition ev_timer_setPrevSysTick ::
  "u32 \<Rightarrow> ('cb, 'm) ev_timer_ctrl_scheme \<Rightarrow> ('cb, 'm) ev_timer_ctrl_scheme" where
  "ev_timer_setPrevSysTick tick s = s\<lparr>prevSysTick := tick\<rparr>"

definition ev_timer_nearestGet :: "('cb, 'm) ev_timer_ctrl_scheme \<Rightarrow> tref option" where
  "ev_timer_nearestGet s = timer_nearest s"

definition ev_timer_freeGet ::
  "('cb, 'm) ev_timer_ctrl_scheme \<Rightarrow> tref option \<times> ('cb, 'm) ev_timer_ctrl_scheme" where
  "ev_timer_freeGet s =
     (if unat (used_num s) \<ge> TIMER_EVENT_NUM then (None, s)
      else case find (\<lambda>i. \<not> used (evt s (PoolEvt i))) [0..<TIMER_EVENT_NUM] of
        None \<Rightarrow> (None, s)
      | Some i \<Rightarrow> (Some (PoolEvt i),
          upd_evt (PoolEvt i) (\<lambda>e. e\<lparr>used := True\<rparr>) (s\<lparr>used_num := used_num s + 1\<rparr>)))"

definition ev_timer_poolDelUpdate ::
  "tref \<Rightarrow> ('cb, 'm) ev_timer_ctrl_scheme \<Rightarrow> ('cb, 'm) ev_timer_ctrl_scheme" where
  "ev_timer_poolDelUpdate t s0 =
     (let s = upd_evt t (\<lambda>e. e\<lparr>isRunning := False, curSysTick := 0\<rparr>) s0 in
      if is_pool t \<and> used (evt s t)
      then upd_evt t (\<lambda>e. e\<lparr>used := False\<rparr>) (s\<lparr>used_num := used_num s - 1\<rparr>) else s)"

definition nearest_in ::
  "('cb, 'm) ev_timer_ctrl_scheme \<Rightarrow> tref \<Rightarrow> tref list \<Rightarrow> tref" where
  "nearest_in s = foldl (\<lambda>n t. if timeout (evt s t) < timeout (evt s n) then t else n)"

definition ev_timer_nearestUpdate ::
  "('cb, 'm) ev_timer_ctrl_scheme \<Rightarrow> ('cb, 'm) ev_timer_ctrl_scheme" where
  "ev_timer_nearestUpdate s = s\<lparr>timer_nearest :=
     (case timer_list s of [] \<Rightarrow> None | t # ts \<Rightarrow> Some (nearest_in s t (t # ts)))\<rparr>"

definition ev_timer_enough :: "('cb, 'm) ev_timer_ctrl_scheme \<Rightarrow> bool" where
  "ev_timer_enough s \<longleftrightarrow> unat (used_num s) < TIMER_EVENT_ENOUGH_NUM"

definition ev_timer_exist :: "('cb, 'm) ev_timer_ctrl_scheme \<Rightarrow> tref \<Rightarrow> bool" where
  "ev_timer_exist s t \<longleftrightarrow> LIST_EXIST (timer_list s) t"

definition timer_exception :: "('cb, 'm) ev_timer_ctrl_scheme \<Rightarrow> ('cb, 'm) ev_timer_ctrl_scheme" where
  "timer_exception s = s\<lparr>T_timerExcept := T_timerExcept s + 1\<rparr>"

definition ev_on_timer ::
  "tref option \<Rightarrow> u32 \<Rightarrow> ('cb, 'm) ev_timer_ctrl_scheme \<Rightarrow> ('cb, 'm) ev_timer_ctrl_scheme" where
  "ev_on_timer te tmo s0 = (case te of
     None \<Rightarrow> timer_exception s0
   | Some t \<Rightarrow>
      (let s = upd_evt t (\<lambda>e. e\<lparr>period := tmo\<rparr>) s0;
           s' = (if LIST_EXIST (timer_list s) t
                 then upd_evt t (\<lambda>e. e\<lparr>timeout := period e\<rparr>) s
                 else LIST_ADD t (upd_evt t (\<lambda>e. e\<lparr>timeout := period e,
                   curSysTick := (if isRunning e then curSysTick e else clock_time s)\<rparr>) s)) in
       ev_timer_nearestUpdate s'))"

definition ev_unon_timer ::
  "tref option \<Rightarrow> ('cb, 'm) ev_timer_ctrl_scheme \<Rightarrow> ('cb, 'm) ev_timer_ctrl_scheme" where
  "ev_unon_timer te s = (case te of
     None \<Rightarrow> timer_exception s
   | Some t \<Rightarrow>
      (if \<not> LIST_EXIST (timer_list s) t then s
       else ev_timer_nearestUpdate (LIST_DELETE t (ev_timer_poolDelUpdate t s))))"

definition ev_timer_add ::
  "'cb option \<Rightarrow> u32 \<Rightarrow> ('cb, 'm) ev_timer_ctrl_scheme \<Rightarrow> tref option \<times> ('cb, 'm) ev_timer_ctrl_scheme" where
  "ev_timer_add func tmo s0 = (case ev_timer_freeGet s0 of
     (None, s) \<Rightarrow> (None, timer_exception s)
   | (Some t, s) \<Rightarrow>
      (Some t, ev_on_timer (Some t) tmo (upd_evt t (\<lambda>e. e\<lparr>cb := func, isBusy := False\<rparr>) s)))"

definition ev_timer_taskPost ::
  "'cb option \<Rightarrow> u32 \<Rightarrow> ('cb, 'm) ev_timer_ctrl_scheme \<Rightarrow> tref option \<times> ('cb, 'm) ev_timer_ctrl_scheme" where
  "ev_timer_taskPost func t_ms s = ev_timer_add func t_ms s"

text \<open>\<^verbatim>\<open>ev_timer_taskCancel\<close> also clears the caller's pointer: the second component is its new
  value.\<close>

definition ev_timer_taskCancel ::
  "tref option \<Rightarrow> ('cb, 'm) ev_timer_ctrl_scheme \<Rightarrow> u8 \<times> tref option \<times> ('cb, 'm) ev_timer_ctrl_scheme" where
  "ev_timer_taskCancel te s = (case te of
     None \<Rightarrow> (NO_TIMER_AVAIL, te, s)
   | Some t \<Rightarrow>
      (if \<not> used (evt s t) then (NO_TIMER_AVAIL, te, s)
       else if isBusy (evt s t) then (TIMER_CANCEL_NOT_ALLOWED, te, s)
       else (TIMER_SUCCESS, None, ev_unon_timer (Some t) s)))"


subsection \<open>Time\<close>

text \<open>\<open>tick_ms\<close> is \<^verbatim>\<open>S_TIMER_CLOCK_1US * 1000\<close>, the ticks of a millisecond; it is a constant of
  the chip and a parameter here.\<close>

definition timer_elapse :: "u32 \<Rightarrow> u32 \<Rightarrow> u32 \<Rightarrow> 'cb ev_timer_event_t \<Rightarrow> 'cb ev_timer_event_t" where
  "timer_elapse tick_ms now updateTime e =
     (let ms = (if isRunning e then updateTime else (now - curSysTick e) div tick_ms);
          e' = (if isRunning e then e else e\<lparr>isRunning := True\<rparr>) in
      e'\<lparr>timeout := (if timeout e > ms then timeout e - ms else 0)\<rparr>)"

definition ev_timer_update ::
  "u32 \<Rightarrow> u32 \<Rightarrow> ('cb, 'm) ev_timer_ctrl_scheme \<Rightarrow> ('cb, 'm) ev_timer_ctrl_scheme" where
  "ev_timer_update tick_ms updateTime s =
     (if updateTime = 0 then s
      else fold (\<lambda>t. upd_evt t (timer_elapse tick_ms (clock_time s) updateTime)) (timer_list s)
             (s\<lparr>rtc := ev_rtc_update updateTime (rtc s)\<rparr>))"

type_synonym ('cb, 'm) cb_fun =
  "'cb \<Rightarrow> ('cb, 'm) ev_timer_ctrl_scheme \<Rightarrow> int \<times> ('cb, 'm) ev_timer_ctrl_scheme"

text \<open>One expired timer: the callback runs with \<^verbatim>\<open>isBusy\<close> set; what it returns removes the
  timer, restarts it, or gives it a new period. \<open>None\<close> is a call through a null pointer.\<close>

definition ev_timer_fire ::
  "('cb, 'm) cb_fun \<Rightarrow> tref \<Rightarrow> ('cb, 'm) ev_timer_ctrl_scheme \<Rightarrow> ('cb, 'm) ev_timer_ctrl_scheme option" where
  "ev_timer_fire call_cb t s0 =
     (let s1 = upd_evt t (\<lambda>e. e\<lparr>isBusy := True\<rparr>) s0 in
      case cb (evt s1 t) of
        None \<Rightarrow> None
      | Some f \<Rightarrow>
          (let (r, s2) = call_cb f s1;
               s3 = (if r < 0 then ev_unon_timer (Some t) s2
                     else if r = 0 then upd_evt t (\<lambda>e. e\<lparr>timeout := period e\<rparr>) s2
                     else upd_evt t (\<lambda>e. e\<lparr>period := of_int r, timeout := of_int r\<rparr>) s2) in
           Some (upd_evt t (\<lambda>e. e\<lparr>isBusy := False\<rparr>) s3)))"

text \<open>The loop of \<^verbatim>\<open>ev_timer_executeCB\<close> goes back to the head when a callback changed it, so it
  may run forever; then its value is \<open>None\<close>.\<close>

partial_function (option) executeCB_loop ::
  "('cb, 'm) cb_fun \<Rightarrow> tref option \<Rightarrow> tref option \<Rightarrow> ('cb, 'm) ev_timer_ctrl_scheme \<Rightarrow>
     ('cb, 'm) ev_timer_ctrl_scheme option" where
  "executeCB_loop call_cb timerEvt prev_head s =
     (case timerEvt of
        None \<Rightarrow> Some s
      | Some t \<Rightarrow>
          (if timeout (evt s t) = 0
           then Option.bind (ev_timer_fire call_cb t s) (\<lambda>s'.
             if prev_head \<noteq> list_head s'
             then executeCB_loop call_cb (list_head s') (list_head s') s'
             else executeCB_loop call_cb (next_of s' t) prev_head s')
           else executeCB_loop call_cb (next_of s t) prev_head s))"

definition ev_timer_executeCB ::
  "('cb, 'm) cb_fun \<Rightarrow> ('cb, 'm) ev_timer_ctrl_scheme \<Rightarrow> ('cb, 'm) ev_timer_ctrl_scheme option" where
  "ev_timer_executeCB call_cb s =
     map_option ev_timer_nearestUpdate (executeCB_loop call_cb (list_head s) (list_head s) s)"

definition ev_timer_account ::
  "u32 \<Rightarrow> ('cb, 'm) ev_timer_ctrl_scheme \<Rightarrow> u32 \<times> ('cb, 'm) ev_timer_ctrl_scheme" where
  \<comment> \<open>the milliseconds since the last call, keeping the ticks that do not make one\<close>
  "ev_timer_account tick_ms s =
     (let sysTicks = clock_time s - prevSysTick s;
          s1 = s\<lparr>prevSysTick := clock_time s\<rparr>;
          updateTime = sysTicks div tick_ms;
          rem = remSysTick s1 + sysTicks mod tick_ms in
      (updateTime + rem div tick_ms, s1\<lparr>remSysTick := rem mod tick_ms\<rparr>))"

definition ev_timer_process ::
  "u32 \<Rightarrow> ('cb, 'm) cb_fun \<Rightarrow> ('cb, 'm) ev_timer_ctrl_scheme \<Rightarrow> ('cb, 'm) ev_timer_ctrl_scheme option" where
  "ev_timer_process tick_ms call_cb s =
     (if clock_time s \<noteq> prevSysTick s then
        let (updateTime, s1) = ev_timer_account tick_ms s;
            s2 = (if updateTime \<noteq> 0 then ev_timer_update tick_ms updateTime s1 else s1) in
        ev_timer_executeCB call_cb s2
      else Some s)"


subsection \<open>The user's part of the state\<close>

text \<open>The operations change the timers only: whatever a user adds to the state stays.\<close>

abbreviation user :: "('cb, 'm) ev_timer_ctrl_scheme \<Rightarrow> 'm" where
  "user \<equiv> ev_timer_ctrl.more"

lemma user_upd_evt [simp]: "user (upd_evt t f s) = user s"
  by (simp add: upd_evt_def)

lemma user_nearestUpdate [simp]: "user (ev_timer_nearestUpdate s) = user s"
  by (simp add: ev_timer_nearestUpdate_def)

lemma user_on_timer [simp]: "user (ev_on_timer te n s) = user s"
  by (auto simp: ev_on_timer_def timer_exception_def Let_def LIST_ADD_def split: option.splits)

lemma user_unon_timer [simp]: "user (ev_unon_timer te s) = user s"
  by (auto simp: ev_unon_timer_def timer_exception_def Let_def LIST_DELETE_def
      ev_timer_poolDelUpdate_def split: option.splits)

end
