(* ===== verification/Zcl_Core.thy ===== *)
theory Zcl_Core
  imports Zcl_Data Ev_Buffer Ev_Timer
begin

text \<open>
  The state of the ZCL layer and the parts of \<^verbatim>\<open>zigbee/zcl/zcl.c\<close> every command uses: the
  cluster registry, attribute access, the frame header and \<^verbatim>\<open>zcl_sendCmd\<close>.

  Attribute storage is a flat memory: \<^verbatim>\<open>pAttrEntry->data\<close> is an address in \<open>ram\<close>, \<open>0\<close> is
  \<^verbatim>\<open>NULL\<close>. Function pointers are numbers (\<open>None\<close> is \<^verbatim>\<open>NULL\<close>), and what they do is part of the
environment \<open>zenv\<close>, like the functions of the binary stack library. The contents of an
  allocated buffer are passed as values. \<open>ub\<close> records that the code did something C gives no
  meaning to: wrote more bytes to a block (or a local variable) than it has, let two parts of a
  block overlap, or followed a null pointer. Once it is set the rest of the state says nothing
  about the real device; the safety theorems say when it stays clear, or claim nothing of a run
  that sets it (\<open>no_leak\<close>). What it does not record is a write beyond an attribute's value:
  \<open>ram\<close> has no bounds of objects, as the attribute table has none, and a string attribute that
  is written longer than its memory overwrites what is behind it there.
\<close>

subsection \<open>State\<close>

record zclAttrInfo_t =
  a_id :: u16
  a_type :: u8
  a_access :: u8
  a_data :: nat

record clusterInfo_t =
  attrTable :: "zclAttrInfo_t list"
  cmdHandlerFunc :: "nat option"
  clusterAppCb :: "nat option"
  clusterID :: u16
  manuCode :: u16
  endpoint :: u8
  attrNum :: u8

record zcl_specClusterInfo_t =
  sp_manuCode :: u16
  sp_attrNum :: u16
  sp_attrTbl :: "zclAttrInfo_t list"
  sp_clusterRegisterFunc :: "nat option"
  sp_clusterAppCb :: "nat option"

record reportCfgInfo_t =
  r_profileID :: u16
  r_clusterID :: u16
  r_attrID :: u16
  minIntDft :: u16
  maxIntDft :: u16
  minInterval :: u16
  maxInterval :: u16
  minIntCnt :: u16
  maxIntCnt :: u16
  endPoint :: u8
  r_dataType :: u8
  reportableChange :: bytes
  prevData :: bytes
  r_used :: u8

record zcl_reportTimerEvt_t =
  t_pEntry :: "nat option"
  t_seconds :: u16
  t_minOrMax :: u8

record epInfo_t =
  shortAddr :: u16
  profileId :: u16
  dstAddrMode :: u8
  dstEp :: u8
  txOptions :: u8

record sent_t =
  s_srcEp :: u8
  s_dst :: epInfo_t
  s_clusterId :: u16
  s_asdu :: bytes

text \<open>The callbacks of the timers the ZCL starts; other users of the timers are numbered.\<close>

datatype zcb = ReportingTimerCb | ReportAttrTimerCb nat | OtherCb nat

record zst = "zcb ev_timer_ctrl" +
  pool :: ev_buf_vars_t
  ram :: mem
  hookFn :: "nat option"
  clusterNum :: u8
  clusterList :: "clusterInfo_t list"
  zcl_seqNum :: u8
  reportNum :: u8
  reportCfgInfo :: "reportCfgInfo_t list"
  reportTimer :: "zcl_reportTimerEvt_t list"
  lastMessageLQI :: u8
  lastMessageRSSI :: u8
  T_sent :: "sent_t list"
  T_except :: nat
  ub :: bool

subsection \<open>Incoming messages\<close>

record aps_data_ind_t =
  i_dst_addr_mode :: u8
  i_dst_addr :: u16
  i_dst_ep :: u8
  i_src_short_addr :: u16
  i_src_ep :: u8
  i_profile_id :: u16
  i_cluster_id :: u16
  i_security_status :: u8
  i_lqi :: u8
  i_rssi :: u8

record apsdeDataInd_t =
  d_buf :: ptr
  indInfo :: aps_data_ind_t
  asduLen :: u16
  asdu :: view

record zclHdr_t =
  h_frmCtrl :: u8
  h_manufCode :: u16
  h_seqNum :: u8
  h_cmd :: u8

record zclReadRspStatus_t =
  rr_attrID :: u16
  rr_status :: u8
  rr_dataType :: u8
  rr_data :: "view option"

record zclWriteRec_t =
  w_attrID :: u16
  w_dataType :: u8
  w_attrData :: view

record zclCfgReportRec_t =
  c_direction :: u8
  c_attrID :: u16
  c_dataType :: u8
  c_minReportInt :: u16
  c_maxReportInt :: u16
  c_timeoutPeriod :: u16
  c_reportableChange :: view

record zclReportCfgRspRec_t =
  q_status :: u8
  q_direction :: u8
  q_attrID :: u16
  q_dataType :: u8
  q_minReportInt :: u16
  q_maxReportInt :: u16
  q_timeoutPeriod :: u16
  q_reportableChange :: view

text \<open>The parsed command an incoming message carries in \<^verbatim>\<open>attrCmd\<close>. The C structs end in an
  array of \<^verbatim>\<open>numAttr\<close> records; here \<^verbatim>\<open>numAttr\<close> is the length of the list.\<close>

datatype attr_cmd =
    ReadCmd "u16 list"
  | ReadRspCmd "zclReadRspStatus_t list"
  | WriteCmd "zclWriteRec_t list"
  | WriteRspCmd "(u8 \<times> u16) list"
  | CfgReportCmd "zclCfgReportRec_t list"
  | CfgReportRspCmd "(u8 \<times> u8 \<times> u16) list"
  | ReadReportCfgCmd "(u8 \<times> u16) list"
  | ReadReportCfgRspCmd "zclReportCfgRspRec_t list"
  | ReportCmd "zclWriteRec_t list"
  | DefaultRspCmd u8 u8
  | DiscoverAttrCmd u16 u8
  | DiscoverAttrRspCmd u8 "(u16 \<times> u8) list"
  | DiscoverCmdsCmd u8 u8
  | DiscoverAttrExtRspCmd u8 "(u16 \<times> u8 \<times> u8) list"

record zclIncomingAddrInfo_t =
  ai_profileId :: u16
  ai_srcAddr :: u16
  ai_dstAddr :: u16
  ai_srcEp :: u8
  ai_dstEp :: u8
  ai_seqNum :: u8
  ai_dirCluster :: bool
  ai_apsSec :: bool

record zclIncoming_t =
  m_clusterAppCb :: "nat option"
  msg :: apsdeDataInd_t
  pData :: view
  attrCmd :: "(ptr \<times> attr_cmd) option"
  dataLen :: u16
  addrInfo :: zclIncomingAddrInfo_t
  hdr :: zclHdr_t

text \<open>What is outside the C sources of the ZCL: the stack library, the application's
  functions, the flash driver, and the bytes left in memory that is read uninitialised.\<close>

record zenv =
  af_dataSend :: "sent_t list \<Rightarrow> sent_t \<Rightarrow> u8"
  zb_bindingTblSearched :: "u16 \<Rightarrow> u8 \<Rightarrow> bool"
  zb_isDeviceJoinedNwk :: bool
  zb_random :: u32
  registerFunc :: "nat \<Rightarrow> u8 \<Rightarrow> u16 \<Rightarrow> u8 \<Rightarrow> zclAttrInfo_t list \<Rightarrow> nat option \<Rightarrow> zst \<Rightarrow> u8 \<times> zst"
  cmdHandler :: "nat \<Rightarrow> zclIncoming_t \<Rightarrow> zst \<Rightarrow> u8 \<times> zst"
  otherCb :: "nat \<Rightarrow> zst \<Rightarrow> int \<times> zst"
  hook :: "nat \<Rightarrow> zclIncoming_t \<Rightarrow> zst \<Rightarrow> zst"
  ota_upgradeAbort :: "zst \<Rightarrow> zst"
  nv_flashWriteNew :: "u8 \<times> reportCfgInfo_t list \<Rightarrow> zst \<Rightarrow> u8 \<times> zst"
  nv_flashReadNew :: "zst \<Rightarrow> u8 \<times> (u8 \<times> reportCfgInfo_t list)"
  uninit :: view


type_synonym zclReport_t = zclWriteRec_t

subsection \<open>Buffers\<close>

definition zalloc :: "u16 \<Rightarrow> zst \<Rightarrow> ptr option \<times> zst" where
  "zalloc n s = (let (r, v) = ev_buf_allocate n (pool s) in (r, s\<lparr>pool := v\<rparr>))"

definition zfree :: "ptr \<Rightarrow> zst \<Rightarrow> zst" where
  "zfree p s = s\<lparr>pool := buf_free p (pool s)\<rparr>"

definition buf_touch :: "ptr \<Rightarrow> nat \<Rightarrow> zst \<Rightarrow> zst" where
  \<comment> \<open>\<open>n\<close> bytes are written from the start of the block\<close>
  "buf_touch p n s = s\<lparr>ub := (ub s \<or> capacity p < n)\<rparr>"

definition null_deref :: "zst \<Rightarrow> zst" where
  "null_deref s = s\<lparr>ub := True\<rparr>"

definition local_touch :: "nat \<Rightarrow> nat \<Rightarrow> zst \<Rightarrow> zst" where
  \<comment> \<open>\<open>n\<close> bytes are written to a local variable of \<open>k\<close> bytes\<close>
  "local_touch k n s = s\<lparr>ub := (ub s \<or> k < n)\<rparr>"

subsection \<open>The cluster registry\<close>

definition clusterInfo_reset :: "clusterInfo_t \<Rightarrow> clusterInfo_t" where
  "clusterInfo_reset c = c\<lparr>endpoint := 0xFE, clusterID := 0xFFFF, attrNum := 0, attrTable := [],
     cmdHandlerFunc := None, clusterAppCb := None\<rparr>"

definition zcl_reset :: "zst \<Rightarrow> zst" where
  "zcl_reset s = s\<lparr>hookFn := None, clusterNum := 0,
     clusterList := map clusterInfo_reset (clusterList s)\<rparr>"

definition zcl_init :: "zenv \<Rightarrow> nat option \<Rightarrow> zst \<Rightarrow> zst" where
  "zcl_init env fn s = (zcl_reset s)\<lparr>zcl_seqNum := ucast (zb_random env), hookFn := fn\<rparr>"

text \<open>\<^verbatim>\<open>ZCL_CLUSTER_NUM_MAX\<close> is the length of the list.\<close>

definition cluster_is :: "u8 \<Rightarrow> u16 \<Rightarrow> clusterInfo_t \<Rightarrow> bool" where
  "cluster_is ep cid c \<longleftrightarrow> endpoint c = ep \<and> clusterID c = cid"

definition zcl_findCluster :: "u8 \<Rightarrow> u16 \<Rightarrow> zst \<Rightarrow> clusterInfo_t option" where
  "zcl_findCluster ep clusterId s = find (cluster_is ep clusterId) (clusterList s)"

definition zcl_registerCluster ::
  "u8 \<Rightarrow> u16 \<Rightarrow> u16 \<Rightarrow> u8 \<Rightarrow> zclAttrInfo_t list \<Rightarrow> nat option \<Rightarrow> nat option \<Rightarrow> zst \<Rightarrow> u8 \<times> zst" where
  "zcl_registerCluster ep clusterId manu num pAttrTbl cmdHdlrFn appCb s =
     (if unat (clusterNum s) \<ge> length (clusterList s) then (ZCL_STA_INSUFFICIENT_SPACE, s)
      else if zcl_findCluster ep clusterId s \<noteq> None then (ZCL_STA_DUPLICATE_EXISTS, s)
      else (ZCL_STA_SUCCESS,
        s\<lparr>clusterList := (clusterList s)[unat (clusterNum s) :=
             \<lparr>attrTable = pAttrTbl, cmdHandlerFunc = cmdHdlrFn, clusterAppCb = appCb,
              clusterID = clusterId, manuCode = manu, endpoint = ep, attrNum = num\<rparr>],
          clusterNum := clusterNum s + 1\<rparr>))"

fun zcl_register :: "zenv \<Rightarrow> u8 \<Rightarrow> zcl_specClusterInfo_t list \<Rightarrow> zst \<Rightarrow> zst" where
  "zcl_register env ep [] s = s"
| "zcl_register env ep (p # ps) s =
     (case sp_clusterRegisterFunc p of
        None \<Rightarrow> zcl_register env ep ps s
      | Some f \<Rightarrow>
          (let (st, s') = registerFunc env f ep (sp_manuCode p) (ucast (sp_attrNum p)) (sp_attrTbl p)
                            (sp_clusterAppCb p) s in
           if st = ZCL_STA_INSUFFICIENT_SPACE then s' else zcl_register env ep ps s'))"

subsection \<open>Attributes\<close>

text \<open>A table holds at least \<^verbatim>\<open>attrNum\<close> entries; the code looks at the first \<^verbatim>\<open>attrNum\<close>.\<close>

definition cluster_attrs :: "clusterInfo_t \<Rightarrow> zclAttrInfo_t list" where
  "cluster_attrs c = take (unat (attrNum c)) (attrTable c)"

definition zcl_findAttribute :: "u8 \<Rightarrow> u16 \<Rightarrow> u16 \<Rightarrow> zst \<Rightarrow> zclAttrInfo_t option" where
  "zcl_findAttribute ep clusterId attrId s =
     (case zcl_findCluster ep clusterId s of
        None \<Rightarrow> None
      | Some c \<Rightarrow> find (\<lambda>a. a_id a = attrId) (cluster_attrs c))"

definition attr_view :: "zclAttrInfo_t \<Rightarrow> zst \<Rightarrow> view" where
  "attr_view a s = mem_at (ram s) (a_data a)"

definition zcl_getAttrVal :: "u8 \<Rightarrow> u16 \<Rightarrow> u16 \<Rightarrow> zst \<Rightarrow> u8 \<times> u16 \<times> bytes" where
  "zcl_getAttrVal ep clusterId attrId s =
     (case zcl_findAttribute ep clusterId attrId s of
        None \<Rightarrow> (ZCL_STA_NOT_FOUND, 0, [])
      | Some a \<Rightarrow>
          (if a_data a = 0 then (ZCL_STA_NOT_FOUND, 0, [])
           else let len = zcl_getAttrSize (a_type a) (attr_view a s) in
             (ZCL_STA_SUCCESS, len, vtake (unat len) (attr_view a s))))"

definition zcl_setAttrVal :: "u8 \<Rightarrow> u16 \<Rightarrow> u16 \<Rightarrow> view \<Rightarrow> zst \<Rightarrow> u8 \<times> zst" where
  "zcl_setAttrVal ep clusterId attrId val s =
     (case zcl_findAttribute ep clusterId attrId s of
        None \<Rightarrow> (ZCL_STA_UNSUPPORTED_ATTRIBUTE, s)
      | Some a \<Rightarrow>
          (let len = zcl_getAttrSize (a_type a) val in
           (ZCL_STA_SUCCESS, s\<lparr>ram := mem_write (ram s) (a_data a) (vtake (unat len) val)\<rparr>)))"

definition zcl_attrRead :: "u8 \<Rightarrow> u16 \<Rightarrow> u16 \<Rightarrow> zst \<Rightarrow> zclAttrInfo_t option \<times> u8" where
  "zcl_attrRead ep clusterId attrId s =
     (case zcl_findAttribute ep clusterId attrId s of
        None \<Rightarrow> (None, ZCL_STA_UNSUPPORTED_ATTRIBUTE)
      | Some a \<Rightarrow>
          (if a_access a AND ACCESS_CONTROL_READ = 0 then (None, ZCL_STA_WRITE_ONLY)
           else if a_data a = 0 then (None, ZCL_STA_UNSUPPORTED_ATTRIBUTE)
           else (Some a, ZCL_STA_SUCCESS)))"

definition zcl_attrWrite :: "u8 \<Rightarrow> u16 \<Rightarrow> zclWriteRec_t \<Rightarrow> bool \<Rightarrow> zst \<Rightarrow> u8 \<times> zst" where
  "zcl_attrWrite ep clusterId r enable s =
     (case zcl_findAttribute ep clusterId (w_attrID r) s of
        None \<Rightarrow> (ZCL_STA_UNSUPPORTED_ATTRIBUTE, s)
      | Some a \<Rightarrow>
          (if a_type a \<noteq> w_dataType r then (ZCL_STA_INVALID_DATA_TYPE, s)
           else if a_access a AND ACCESS_CONTROL_WRITE = 0 then (ZCL_STA_READ_ONLY, s)
           else if a_data a = 0 then (ZCL_STA_UNSUPPORTED_ATTRIBUTE, s)
           else if enable then zcl_setAttrVal ep clusterId (w_attrID r) (w_attrData r) s
           else (ZCL_STA_SUCCESS, s)))"

subsection \<open>Frames\<close>

definition frmCtrl_type :: "u8 \<Rightarrow> u8" where "frmCtrl_type b = b AND 0x03"
definition frmCtrl_manufSpec :: "u8 \<Rightarrow> bool" where "frmCtrl_manufSpec b = bit b 2"
definition frmCtrl_dir :: "u8 \<Rightarrow> bool" where "frmCtrl_dir b = bit b 3"
definition frmCtrl_disDefResp :: "u8 \<Rightarrow> bool" where "frmCtrl_disDefResp b = bit b 4"

definition b2u8 :: "bool \<Rightarrow> u8" where "b2u8 b = (if b then 1 else 0)"

definition zcl_buildHdr :: "u8 \<Rightarrow> u8 \<Rightarrow> u8 \<Rightarrow> u16 \<Rightarrow> u8 \<Rightarrow> u8 \<Rightarrow> bytes" where
  "zcl_buildHdr clusterSpec dir disDefRsp manufCode seqNum cmd =
     [(if clusterSpec \<noteq> 0 then ZCL_FRAME_TYPE_SPECIFIC_CMD else ZCL_FRAME_TYPE_PROFILE_CMD)
        + push_bit 2 (if manufCode \<noteq> 0 then 1 else 0)
        + push_bit 3 (dir AND 1) + push_bit 4 (disDefRsp AND 1)]
     @ (if manufCode \<noteq> 0 then [LO_UINT16 manufCode, HI_UINT16 manufCode] else [])
     @ [seqNum, cmd]"

text \<open>Both senders build the frame in a block of their own and give the block back after
  \<^verbatim>\<open>af_dataSend\<close>. \<open>room\<close> is what they ask for beside the payload.\<close>

definition send_frame ::
  "zenv \<Rightarrow> u16 \<Rightarrow> u8 \<Rightarrow> epInfo_t \<Rightarrow> u16 \<Rightarrow> bytes \<Rightarrow> u16 \<Rightarrow> view \<Rightarrow> zst \<Rightarrow> u8 \<times> zst" where
  "send_frame env room srcEp dst clusterId header cmdPldLen cmdPld s =
     (case zalloc (room + cmdPldLen) s of
        (None, s1) \<Rightarrow> (ZCL_STA_INSUFFICIENT_SPACE, s1)
      | (Some p, s1) \<Rightarrow>
          (let frame = header @ vtake (unat cmdPldLen) cmdPld;
               s2 = buf_touch p (length frame) s1;
               asdulength = of_nat (length header) + cmdPldLen;
               m = \<lparr>s_srcEp = srcEp, s_dst = dst, s_clusterId = clusterId,
                    s_asdu = take (unat asdulength) frame\<rparr>;
               status = af_dataSend env (T_sent s2) m;
               s3 = zfree p (s2\<lparr>T_sent := m # T_sent s2\<rparr>) in
           (if status = RET_OK then ZCL_STA_SUCCESS else ZCL_STA_INSUFFICIENT_SPACE, s3)))"

definition zcl_sendCmd ::
  "zenv \<Rightarrow> u8 \<Rightarrow> epInfo_t \<Rightarrow> u16 \<Rightarrow> u8 \<Rightarrow> u8 \<Rightarrow> u8 \<Rightarrow> u8 \<Rightarrow> u16 \<Rightarrow> u8 \<Rightarrow> u16 \<Rightarrow> view \<Rightarrow> zst \<Rightarrow> u8 \<times> zst" where
  "zcl_sendCmd env srcEp dst clusterId cmd specific direction disableDefaultRsp manu seqNo
       cmdPldLen cmdPld s =
     send_frame env 5 srcEp dst clusterId
       (zcl_buildHdr specific direction disableDefaultRsp manu seqNo cmd) cmdPldLen cmdPld s"

definition zcl_sendInterPANCmd ::
  "zenv \<Rightarrow> u8 \<Rightarrow> epInfo_t \<Rightarrow> u16 \<Rightarrow> u8 \<Rightarrow> u8 \<Rightarrow> u8 \<Rightarrow> u8 \<Rightarrow> u16 \<Rightarrow> u8 \<Rightarrow> u16 \<Rightarrow> view \<Rightarrow> zst \<Rightarrow> u8 \<times> zst" where
  "zcl_sendInterPANCmd env srcEp dst clusterId cmd specific direction disableDefaultRsp manu seqNo
       cmdPldLen cmdPld s =
     send_frame env 8 srcEp
       (if ZCL_CLUSTER_TOUCHLINK_COMMISSIONING = clusterId
        then dst\<lparr>txOptions := txOptions dst OR APS_TX_OPT_INTRA_PAN\<rparr> else dst)
       clusterId
       (zcl_buildHdr specific direction disableDefaultRsp manu seqNo cmd) cmdPldLen cmdPld s"

text \<open>The shape the senders of the foundation commands share: a block for the payload, the
  payload written into it, \<^verbatim>\<open>zcl_sendCmd\<close> (not cluster specific), the block given back.\<close>

definition zcl_sendBuf ::
  "zenv \<Rightarrow> u8 \<Rightarrow> epInfo_t \<Rightarrow> u16 \<Rightarrow> u8 \<Rightarrow> u8 \<Rightarrow> u8 \<Rightarrow> u16 \<Rightarrow> u8 \<Rightarrow> u16 \<Rightarrow> u16 \<Rightarrow> bytes \<Rightarrow> zst \<Rightarrow> u8 \<times> zst" where
  "zcl_sendBuf env srcEp dst clusterId cmd direction disableDefaultRsp manu seqNo
       allocLen len payload s =
     (case zalloc allocLen s of
        (None, s1) \<Rightarrow> (ZCL_STA_INSUFFICIENT_SPACE, s1)
      | (Some p, s1) \<Rightarrow>
          (let (status, s2) = zcl_sendCmd env srcEp dst clusterId cmd 0 direction disableDefaultRsp
                 manu seqNo len (lview payload (uninit env)) (buf_touch p (length payload) s1) in
           (status, zfree p s2)))"

definition reply_ep :: "zclIncoming_t \<Rightarrow> u8 \<Rightarrow> epInfo_t" where
  \<comment> \<open>the destination every handler fills in to answer; \<open>opts\<close> are its own transmit options\<close>
  "reply_ep m opts = (let i = indInfo (msg m) in
     \<lparr>shortAddr = i_src_short_addr i, profileId = i_profile_id i,
      dstAddrMode = APS_SHORT_DSTADDR_WITHEP, dstEp = i_src_ep i,
      txOptions = (if i_security_status i AND SECURITY_IN_APSLAYER \<noteq> 0
                   then opts OR APS_TX_OPT_SECURITY_ENABLED else opts)\<rparr>)"

definition not_dir :: "zclIncoming_t \<Rightarrow> u8" where
  "not_dir m = b2u8 (\<not> frmCtrl_dir (h_frmCtrl (hdr m)))"


subsection \<open>The allocator of the ZCL\<close>

text \<open>\<open>pool_effects\<close> collects, for every parser and sender, what it does to the pool;
  \<open>handled_rules\<close> are the ways a handler ends.\<close>

named_theorems pool_effects
named_theorems handled_rules

abbreviation zok :: "zst \<Rightarrow> bool" where "zok s \<equiv> pool_ok (pool s)"
abbreviation zlive :: "zst \<Rightarrow> ptr set" where "zlive s \<equiv> live (pool s)"

lemma zalloc_eq: "zalloc n s = (r, s') \<Longrightarrow>
    s' = s\<lparr>pool := pool s'\<rparr> \<and> ev_buf_allocate n (pool s) = (r, pool s')"
  by (auto simp: zalloc_def split: prod.splits)

interpretation zb: buf_allocator zalloc zfree "\<lambda>s. pool_ok (pool s)" "\<lambda>s. live (pool s)" capacity
proof
  fix s n r s' p
  show "zok s'" if "zok s" "zalloc n s = (r, s')"
    using eb.alloc_inv zalloc_eq that by blast
  show "s' = s" if "zok s" "zalloc n s = (None, s')"
    using eb.alloc_fail [of "pool s" n "pool s'"] zalloc_eq [OF that(2)] that(1) by auto
  show "p \<notin> zlive s \<and> zlive s' = insert p (zlive s) \<and> unat n \<le> capacity p"
    if "zok s" "zalloc n s = (Some p, s')"
    using eb.alloc_new zalloc_eq that by blast
  show "zok (zfree p s)" if "zok s" "p \<in> zlive s"
    using eb.release_inv that by (simp add: zfree_def)
  show "zlive (zfree p s) = zlive s - {p}" if "zok s" "p \<in> zlive s"
    using eb.release_used that by (simp add: zfree_def)
qed

text \<open>\<open>same_pool s s'\<close>: a piece of work that keeps the pool well-formed and the blocks in use, and
  the hook of the application, which decides who frees the parsed command.\<close>

lemma only_pool_zalloc: "zalloc n s = (r, s') \<Longrightarrow> hookFn s' = hookFn s"
  by (auto simp: zalloc_def split: prod.splits)

lemma hookFn_zfree [simp]: "hookFn (zfree p s) = hookFn s"
  by (simp add: zfree_def)

definition same_pool :: "zst \<Rightarrow> zst \<Rightarrow> bool" where
  "same_pool s s' \<longleftrightarrow> hookFn s' = hookFn s \<and> (zok s \<longrightarrow> zok s' \<and> zlive s' = zlive s)"

lemma same_pool_refl [simp, intro]: "same_pool s s"
  by (simp add: same_pool_def)

lemma same_pool_trans: "same_pool s s' \<Longrightarrow> same_pool s' s'' \<Longrightarrow> same_pool s s''"
  by (simp add: same_pool_def)

lemma same_pool_eq: "pool s' = pool s \<Longrightarrow> hookFn s' = hookFn s \<Longrightarrow> same_pool s s'"
  by (simp add: same_pool_def)

lemma same_pool_fail: "zalloc n s = (None, s') \<Longrightarrow> same_pool s s'"
  using zb.alloc_fail only_pool_zalloc by (auto simp: same_pool_def)

lemma same_pool_scoped:
  "zalloc n s = (Some p, s1) \<Longrightarrow> same_pool s1 s2 \<Longrightarrow> same_pool s (zfree p s2)"
  using zb.scoped zb.alloc_inv only_pool_zalloc by (fastforce simp: same_pool_def)

lemma buf_touch_fields [simp]: "pool (buf_touch p n s) = pool s" "hookFn (buf_touch p n s) = hookFn s"
  by (simp_all add: buf_touch_def)

lemma same_pool_touch_iff [simp]: "same_pool (buf_touch p n s) s' \<longleftrightarrow> same_pool s s'"
  by (simp add: same_pool_def)

text \<open>A write outside its block destroys memory the model does not follow; all that is claimed of
  such a run is that it is marked. \<open>no_leak s s'\<close>: if the end is not marked, the start was not, and
  the pool was kept. The mark is never cleared, so the claim composes.\<close>

definition no_leak :: "zst \<Rightarrow> zst \<Rightarrow> bool" where
  "no_leak s s' \<longleftrightarrow> (\<not> ub s' \<longrightarrow> \<not> ub s \<and> same_pool s s')"

lemma no_leakI: "same_pool s s' \<Longrightarrow> (ub s \<Longrightarrow> ub s') \<Longrightarrow> no_leak s s'"
  by (auto simp: no_leak_def)

lemma no_leak_refl [simp, intro]: "no_leak s s"
  by (simp add: no_leak_def)

lemma no_leak_trans: "no_leak s s' \<Longrightarrow> no_leak s' s'' \<Longrightarrow> no_leak s s''"
  using same_pool_trans by (auto simp: no_leak_def)

lemma no_leak_eq: "pool s' = pool s \<Longrightarrow> hookFn s' = hookFn s \<Longrightarrow> (ub s \<Longrightarrow> ub s') \<Longrightarrow> no_leak s s'"
  by (intro no_leakI same_pool_eq)

lemma zalloc_ub: "zalloc n s = (r, s') \<Longrightarrow> ub s' = ub s"
  by (auto simp: zalloc_def split: prod.splits)

lemma zfree_ub [simp]: "ub (zfree p s) = ub s"
  by (simp add: zfree_def)

lemma buf_touch_ub: "ub s \<Longrightarrow> ub (buf_touch p n s)"
  by (simp add: buf_touch_def)

lemma no_leak_fail: "zalloc n s = (None, s') \<Longrightarrow> no_leak s s'"
  by (simp add: no_leakI same_pool_fail zalloc_ub)

lemma no_leak_scoped: "zalloc n s = (Some p, s1) \<Longrightarrow> no_leak s1 s2 \<Longrightarrow> no_leak s (zfree p s2)"
  using same_pool_scoped zalloc_ub by (auto simp: no_leak_def)

lemma no_leak_touch [pool_effects]: "no_leak (buf_touch p n s) s' \<Longrightarrow> no_leak s s'"
  by (auto simp: no_leak_def buf_touch_ub)

subsection \<open>What sending changes\<close>

definition only_sent :: "zst \<Rightarrow> zst \<Rightarrow> bool" where
  \<comment> \<open>nothing but the pool, the frames sent and the mark differ\<close>
  "only_sent s s' \<longleftrightarrow> s' = s\<lparr>pool := pool s', T_sent := T_sent s', ub := ub s'\<rparr>"

lemma only_sent_refl [simp]: "only_sent s s"
  by (simp add: only_sent_def)

lemma only_sent_trans: "only_sent s s' \<Longrightarrow> only_sent s' s'' \<Longrightarrow> only_sent s s''"
  unfolding only_sent_def by (cases s; cases s'; cases s'') simp

lemma only_sent_fields:
  assumes "only_sent s s'"
  shows "reportCfgInfo s' = reportCfgInfo s" "clusterList s' = clusterList s" "ram s' = ram s"
    "reportNum s' = reportNum s" "reportTimer s' = reportTimer s" "zcl_seqNum s' = zcl_seqNum s"
    "timer_list s' = timer_list s" "evt s' = evt s" "hookFn s' = hookFn s" "clusterNum s' = clusterNum s"
  using assms unfolding only_sent_def by (cases s; cases s'; simp)+

lemma only_sent_zalloc: "zalloc n s = (r, s') \<Longrightarrow> only_sent s s'"
  using zalloc_eq [of n s r s'] unfolding only_sent_def by (cases s; cases s') simp

lemma only_sent_buf_touch: "only_sent s (buf_touch p n s)"
  by (simp add: only_sent_def buf_touch_def)

lemma only_sent_zfree: "only_sent s (zfree p s)"
  by (simp add: only_sent_def zfree_def)

lemma only_sent_upd [simp]: "only_sent s (s\<lparr>T_sent := x\<rparr>)"
  by (simp add: only_sent_def)

lemma send_frame_effect:
  assumes "send_frame env room srcEp dst clusterId header len v s = (st, s')"
  shows "only_sent s s'" "same_pool s s'" "no_leak s s'"
proof -
  obtain r s1 where a: "zalloc (room + len) s = (r, s1)" by fastforce
  have "only_sent s s' \<and> same_pool s s' \<and> (ub s \<longrightarrow> ub s')"
  proof (cases r)
    case None
    then show ?thesis
      using assms a only_sent_zalloc same_pool_fail zalloc_ub by (auto simp: send_frame_def)
  next
    case (Some p)
    then obtain n x where s': "s' = zfree p ((buf_touch p n s1)\<lparr>T_sent := x\<rparr>)"
      using assms a by (auto simp: send_frame_def Let_def)
    have "only_sent s s'"
      unfolding s' by (metis a only_sent_trans only_sent_zalloc only_sent_buf_touch only_sent_zfree only_sent_upd)
    moreover have "same_pool s s'"
      unfolding s' by (rule same_pool_scoped [OF a [unfolded Some]]) (simp add: same_pool_eq)
    moreover have "ub s \<longrightarrow> ub s'" using zalloc_ub [OF a] by (simp add: s' buf_touch_ub)
    ultimately show ?thesis by blast
  qed
  then show "only_sent s s'" "same_pool s s'" "no_leak s s'" by (auto intro: no_leakI)
qed

lemma sendCmd_effect:
  assumes "zcl_sendCmd env srcEp dst clusterId cmd specific dir dis manu seqNo len v s = (st, s')"
  shows "only_sent s s'" "same_pool s s'" "no_leak s s'"
  using send_frame_effect [OF assms [unfolded zcl_sendCmd_def]] by simp_all

lemma sendBuf_effect:
  assumes "zcl_sendBuf env srcEp dst clusterId cmd dir dis manu seqNo al len bs s = (st, s')"
  shows "only_sent s s'" "same_pool s s'" "no_leak s s'"
proof -
  obtain r s1 where a: "zalloc al s = (r, s1)" by fastforce
  have "only_sent s s' \<and> same_pool s s' \<and> no_leak s s'"
  proof (cases r)
    case None
    then show ?thesis
      using assms a only_sent_zalloc same_pool_fail no_leak_fail by (auto simp: zcl_sendBuf_def)
  next
    case (Some p)
    obtain st2 s2 where c: "zcl_sendCmd env srcEp dst clusterId cmd 0 dir dis manu seqNo len
        (lview bs (uninit env)) (buf_touch p (length bs) s1) = (st2, s2)" by fastforce
    note e = sendCmd_effect [OF c]
    have s': "s' = zfree p s2"
      using assms a Some c by (auto simp: zcl_sendBuf_def)
    have "only_sent s s'"
      unfolding s' using e(1) a
      by (metis only_sent_trans only_sent_zalloc only_sent_buf_touch only_sent_zfree)
    moreover have "same_pool s s'" "no_leak s s'"
      unfolding s' using same_pool_scoped [OF a [unfolded Some], of s2] e(2)
        no_leak_scoped [OF a [unfolded Some] no_leak_touch [OF e(3)]] by simp_all
    ultimately show ?thesis by blast
  qed
  then show "only_sent s s'" "same_pool s s'" "no_leak s s'" by auto
qed


subsection \<open>Blocks a handler keeps\<close>

text \<open>\<open>holds s r s'\<close>: work that ends, if it ends without the mark, with the block \<open>r\<close> (if any) in use
  in addition.\<close>

definition holds :: "zst \<Rightarrow> ptr option \<Rightarrow> zst \<Rightarrow> bool" where
  "holds s r s' \<longleftrightarrow> (\<not> ub s' \<longrightarrow> \<not> ub s \<and> hookFn s' = hookFn s \<and> (zok s \<longrightarrow> zok s' \<and>
     (case r of None \<Rightarrow> zlive s' = zlive s | Some p \<Rightarrow> p \<notin> zlive s \<and> zlive s' = insert p (zlive s))))"

lemma holds_None [simp]: "holds s None s' \<longleftrightarrow> no_leak s s'"
  by (simp add: holds_def no_leak_def same_pool_def)

lemma holds_alloc: "zalloc n s = (r, s') \<Longrightarrow> holds s r s'"
  using zb.alloc_inv [of s n r s'] zb.alloc_fail [of s n s'] zb.alloc_new [of s n _ s']
    only_pool_zalloc [of n s r s'] zalloc_ub [of n s r s']
  by (cases r) (auto simp: holds_def)

lemma holds_trans: "holds s r s' \<Longrightarrow> no_leak s' s'' \<Longrightarrow> holds s r s''"
  by (auto simp: holds_def no_leak_def same_pool_def split: option.splits)

lemma holds_eq:
  "holds s r s' \<Longrightarrow> pool s'' = pool s' \<Longrightarrow> hookFn s'' = hookFn s' \<Longrightarrow> (ub s' \<Longrightarrow> ub s'') \<Longrightarrow> holds s r s''"
  by (auto intro: holds_trans no_leak_eq)

lemma holds_touch: "holds s r s' \<Longrightarrow> holds s r (buf_touch p n s')"
  by (erule holds_eq) (simp_all add: buf_touch_ub)

lemma holds_ub: "holds s r s' \<Longrightarrow> holds s r (s'\<lparr>ub := ub s' \<or> b\<rparr>)"
  by (erule holds_eq) simp_all

lemma holds_before:
  "pool s = pool s0 \<Longrightarrow> hookFn s = hookFn s0 \<Longrightarrow> (ub s0 \<Longrightarrow> ub s) \<Longrightarrow> holds s r s' \<Longrightarrow> holds s0 r s'"
  by (auto simp: holds_def split: option.splits)

lemma holds_free: "holds s (Some p) s' \<Longrightarrow> no_leak s (zfree p s')"
  using zb.release_inv [of s' p] zb.release_used [of s' p]
  by (auto simp: holds_def no_leak_def same_pool_def)

definition handled :: "zclIncoming_t \<Rightarrow> zst \<Rightarrow> zclIncoming_t \<Rightarrow> zst \<Rightarrow> bool" where
  \<comment> \<open>a handler leaves the message's buffer alone and keeps the block of the parsed command\<close>
  "handled m s m' s' \<longleftrightarrow> msg m' = msg m \<and>
     (attrCmd m = None \<longrightarrow> holds s (map_option fst (attrCmd m')) s')"

lemma handled_None [handled_rules]: "no_leak s s' \<Longrightarrow> handled m s m s'"
  by (simp add: handled_def)

lemma handled_Some [handled_rules]: "holds s (Some p) s' \<Longrightarrow> handled m s (m\<lparr>attrCmd := Some (p, c)\<rparr>) s'"
  by (simp add: handled_def)


lemmas handled_splits = prod.splits option.splits if_splits

text \<open>The tail of every handler that answers: a block for the answer, the answer sent, the block
  given back, around work that keeps the pool.\<close>

lemma answer_pool:
  assumes "holds s (Some p) s1" "zalloc n s1 = (Some q, s2)" "no_leak s2 s3"
  shows "holds s (Some p) (zfree q s3)"
  using holds_trans [OF assms(1)] no_leak_scoped [OF assms(2,3)] by blast

lemma alloc_fail_pool:
  "holds s (Some p) s1 \<Longrightarrow> zalloc n s1 = (None, s2) \<Longrightarrow> holds s (Some p) s2"
  using holds_trans no_leak_fail by blast

lemma answer_pool2:
  "holds s (Some p) s1 \<Longrightarrow> zalloc n s1 = (Some q, s2) \<Longrightarrow> no_leak s2 s3 \<Longrightarrow> no_leak s3 s4 \<Longrightarrow>
     holds s (Some p) (zfree q s4)"
  by (blast intro: answer_pool no_leak_trans)

lemmas answer_rules = alloc_fail_pool answer_pool answer_pool2 holds_trans



subsection \<open>Sizes of copies\<close>

text \<open>A long string whose length field is 65534 or 65535 has a size that wraps to 0 or 1. With
  that exception the bytes of a value decide its size.\<close>

definition size_fits :: "u8 \<Rightarrow> view \<Rightarrow> bool" where
  "size_fits t v \<longleftrightarrow> (t = ZCL_DATA_TYPE_LONG_CHAR_STR \<or> t = ZCL_DATA_TYPE_LONG_OCTET_STR \<longrightarrow>
     unat (get_u16 v) < 65534)"

lemma unat_plus_2: "unat (a :: u16) < 65534 \<Longrightarrow> unat (a + 2) = unat a + 2"
  by (simp add: unat_word_ariths)

lemma unat_getDataTypeLen_u16: "unat (ucast (zcl_getDataTypeLen t) :: u16) = unat (zcl_getDataTypeLen t)"
  by (rule unat_ucast_u8_u16)

lemma getAttrSize_cong_fits:
  assumes f: "size_fits t v" and e: "\<And>i. i < unat (zcl_getAttrSize t v) \<Longrightarrow> v i = w i"
  shows "zcl_getAttrSize t w = zcl_getAttrSize t v"
proof -
  have s1: "unat (ucast (v 0) + 1 :: u16) = unat (v 0) + 1"
    using unsigned_less [of "v 0", where ?'a = nat] by (simp add: unat_word_ariths)
  consider (long) "t = ZCL_DATA_TYPE_LONG_CHAR_STR \<or> t = ZCL_DATA_TYPE_LONG_OCTET_STR"
    | (str) "t = ZCL_DATA_TYPE_CHAR_STR \<or> t = ZCL_DATA_TYPE_OCTET_STR"
    | (struct) "t = ZCL_DATA_TYPE_STRUCT"
    | (fixed) "t \<notin> {ZCL_DATA_TYPE_LONG_CHAR_STR, ZCL_DATA_TYPE_LONG_OCTET_STR, ZCL_DATA_TYPE_CHAR_STR,
        ZCL_DATA_TYPE_OCTET_STR, ZCL_DATA_TYPE_STRUCT}"
    by blast
  then show ?thesis
  proof cases
    case long
    then have z: "zcl_getAttrSize t x = get_u16 x + 2" for x
      by (auto simp: zcl_getAttrSize_def get_u16_def)
    have "unat (get_u16 v) < 65534" using f long by (auto simp: size_fits_def)
    then have "unat (get_u16 v + 2) = unat (get_u16 v) + 2" by (rule unat_plus_2)
    then have "v 0 = w 0" "v 1 = w 1" using e unfolding z by simp_all
    then show ?thesis unfolding z by (simp add: get_u16_def)
  next
    case str
    then have z: "zcl_getAttrSize t x = ucast (x 0) + 1" for x
      by (auto simp: zcl_getAttrSize_def)
    have "v 0 = w 0" using e unfolding z s1 by simp
    then show ?thesis unfolding z by simp
  next
    case struct
    have "unat (2 :: u16) + 17 * unat (v 0) < 65536"
      using unsigned_less [of "v 0", where ?'a = nat] by simp
    from struct_size_bound [OF this, of v] have "2 \<le> unat (zcl_getAttrSize t v)"
      by (simp add: zcl_getAttrSize_def struct)
    with e show ?thesis by (intro getAttrSize_cong) auto
  next
    case fixed
    then show ?thesis by (simp add: zcl_getAttrSize_def)
  qed
qed

subsection \<open>The registry\<close>

definition registry_ok :: "zst \<Rightarrow> bool" where
  \<comment> \<open>the first \<^verbatim>\<open>clusterNum\<close> entries have different keys, the others are as \<^verbatim>\<open>zcl_reset\<close> left them\<close>
  "registry_ok s \<longleftrightarrow> unat (clusterNum s) \<le> length (clusterList s) \<and> length (clusterList s) \<le> 255 \<and>
     distinct (map (\<lambda>c. (endpoint c, clusterID c)) (take (unat (clusterNum s)) (clusterList s))) \<and>
     (\<forall>c \<in> set (drop (unat (clusterNum s)) (clusterList s)). endpoint c = 0xFE \<and> clusterID c = 0xFFFF)"

lemma registry_split:
  assumes "registry_ok s" "unat (clusterNum s) < length (clusterList s)"
  obtains xs c ys where "clusterList s = xs @ c # ys" "length xs = unat (clusterNum s)"
    "distinct (map (\<lambda>c. (endpoint c, clusterID c)) xs)"
    "endpoint c = 0xFE" "clusterID c = 0xFFFF"
    "\<And>d. d \<in> set ys \<Longrightarrow> endpoint d = 0xFE \<and> clusterID d = 0xFFFF"
proof -
  let ?n = "unat (clusterNum s)"
  have "clusterList s = take ?n (clusterList s) @ (clusterList s ! ?n) # drop (Suc ?n) (clusterList s)"
    using assms(2) by (simp add: id_take_nth_drop)
  moreover have "drop ?n (clusterList s) = (clusterList s ! ?n) # drop (Suc ?n) (clusterList s)"
    using assms(2) by (simp add: Cons_nth_drop_Suc)
  ultimately show thesis
    using that [of "take ?n (clusterList s)" "clusterList s ! ?n" "drop (Suc ?n) (clusterList s)"] assms
    unfolding registry_ok_def by auto
qed

lemma find_append: "find P (xs @ ys) = (case find P xs of None \<Rightarrow> find P ys | Some x \<Rightarrow> Some x)"
  by (induction xs) auto

subsection \<open>An example device\<close>

text \<open>One endpoint with the Basic cluster, a temperature sensor registered without a command
  handler and an on/off cluster with one; the witnesses of the properties are evaluated on it.\<close>

definition ex_env :: zenv where
  "ex_env = \<lparr>af_dataSend = (\<lambda>_ _. 0), zb_bindingTblSearched = (\<lambda>_ _. True),
     zb_isDeviceJoinedNwk = True, zb_random = 0, registerFunc = (\<lambda>_ _ _ _ _ _ s. (0, s)),
     cmdHandler = (\<lambda>_ _ s. (ZCL_STA_SUCCESS, s)), otherCb = (\<lambda>_ s. (-1, s)), hook = (\<lambda>_ _ s. s),
     ota_upgradeAbort = (\<lambda>s. s), nv_flashWriteNew = (\<lambda>_ s. (0, s)),
     nv_flashReadNew = (\<lambda>s. (1, reportNum s, reportCfgInfo s)), uninit = (\<lambda>_. 0)\<rparr>"

definition ex_basic :: clusterInfo_t where
  "ex_basic = \<lparr>attrTable =
      [\<lparr>a_id = 0x0000, a_type = ZCL_DATA_TYPE_UINT8, a_access = 1, a_data = 100\<rparr>,
       \<lparr>a_id = 0x0010, a_type = ZCL_DATA_TYPE_CHAR_STR, a_access = 3, a_data = 120\<rparr>,
       \<lparr>a_id = 0x0012, a_type = ZCL_DATA_TYPE_BOOLEAN, a_access = 3, a_data = 110\<rparr>],
     cmdHandlerFunc = None, clusterAppCb = None, clusterID = 0, manuCode = 0, endpoint = 1, attrNum = 3\<rparr>"

definition ex_temp :: clusterInfo_t where
  "ex_temp = \<lparr>attrTable =
      [\<lparr>a_id = 0x0000, a_type = ZCL_DATA_TYPE_INT16, a_access = 5, a_data = 200\<rparr>,
       \<lparr>a_id = 0x0001, a_type = ZCL_DATA_TYPE_INT16, a_access = 1, a_data = 202\<rparr>,
       \<lparr>a_id = 0xFFFD, a_type = ZCL_DATA_TYPE_UINT16, a_access = 1, a_data = 204\<rparr>],
     cmdHandlerFunc = None, clusterAppCb = None, clusterID = 0x0402, manuCode = 0, endpoint = 1, attrNum = 3\<rparr>"

definition ex_onoff :: clusterInfo_t where
  "ex_onoff = \<lparr>attrTable = [\<lparr>a_id = 0x0000, a_type = ZCL_DATA_TYPE_BOOLEAN, a_access = 5, a_data = 300\<rparr>],
     cmdHandlerFunc = Some 0, clusterAppCb = Some 0, clusterID = 6, manuCode = 0, endpoint = 1, attrNum = 1\<rparr>"

definition ex_free :: clusterInfo_t where
  "ex_free = \<lparr>attrTable = [], cmdHandlerFunc = None, clusterAppCb = None, clusterID = 0xFFFF,
     manuCode = 0, endpoint = 0xFE, attrNum = 0\<rparr>"

definition ex_entry :: reportCfgInfo_t where
  "ex_entry = \<lparr>r_profileID = 0, r_clusterID = 0, r_attrID = 0, minIntDft = 0, maxIntDft = 0,
      minInterval = 0, maxInterval = 0, minIntCnt = 0, maxIntCnt = 0, endPoint = 0,
      r_dataType = 0, reportableChange = replicate 8 0, prevData = replicate 8 0, r_used = 0\<rparr>"

definition ex_state :: zst where
  "ex_state = \<lparr>timer_list = [], timer_nearest = None, evt = (\<lambda>_. evt0), used_num = 0, clock_time = 0,
     prevSysTick = 0, remSysTick = 0, rtc = \<lparr>rtcRemainingMs = 0, rtcSeconds = 0\<rparr>, T_timerExcept = 0,
     pool = snd (ev_buf_allocate 100 ex_pool), ram = (\<lambda>a. if a \<in> {100, 110, 200} then 1 else 0),
     hookFn = Some 0, clusterNum = 3, clusterList = [ex_basic, ex_temp, ex_onoff, ex_free], zcl_seqNum = 0,
     reportNum = 0, reportCfgInfo = replicate 3 ex_entry,
     reportTimer = replicate 3 \<lparr>t_pEntry = None, t_seconds = 0, t_minOrMax = 0\<rparr>,
     lastMessageLQI = 0, lastMessageRSSI = 0, T_sent = [], T_except = 0, ub = False\<rparr>"

text \<open>A frame for the device, in the block \<open>ex_state\<close> has handed out.\<close>

definition ex_ind :: "u16 \<Rightarrow> bytes \<Rightarrow> apsdeDataInd_t" where
  "ex_ind c bs = \<lparr>d_buf = EvBuf 2 0,
     indInfo = \<lparr>i_dst_addr_mode = APS_SHORT_DSTADDR_WITHEP, i_dst_addr = 0x1234, i_dst_ep = 1,
       i_src_short_addr = 0, i_src_ep = 1, i_profile_id = 0x0104, i_cluster_id = c,
       i_security_status = 1, i_lqi = 0, i_rssi = 0\<rparr>,
     asduLen = of_nat (length bs), asdu = lview bs (\<lambda>_. 0)\<rparr>"

lemma ex_pool_alloc_100: "fst (ev_buf_allocate 100 ex_pool) = Some (EvBuf 2 0)"
  by code_simp

lemma ex_state_ok [simp]: "pool_ok (pool ex_state)" "live (pool ex_state) = {EvBuf 2 0}"
proof -
  obtain v where v: "ev_buf_allocate 100 ex_pool = (Some (EvBuf 2 0), v)"
    using ex_pool_alloc_100 by (metis prod.collapse)
  then have "pool ex_state = v" by (simp add: ex_state_def)
  with alloc_pool_ok [OF ex_pool_ok v] alloc_live [OF ex_pool_ok v]
  show "pool_ok (pool ex_state)" "live (pool ex_state) = {EvBuf 2 0}"
    by (simp_all add: ex_pool_def live_reset)
qed

subsection \<open>Properties\<close>

text \<open>A written attribute reads back. When \<^verbatim>\<open>zcl_attrWrite\<close> accepts a value, the attribute
  exists, has the type of the value, is writable and has storage; after the write
  \<^verbatim>\<open>zcl_getAttrVal\<close> returns exactly the bytes and the length of the value, and no byte of
  memory outside the value and nothing else of the state has changed. (A long string must not
  be so long that its size wraps.)\<close>

theorem attr_write_read:
  assumes "zcl_attrWrite ep c r True s = (ZCL_STA_SUCCESS, s')" "size_fits (w_dataType r) (w_attrData r)"
  shows "\<exists>a. zcl_findAttribute ep c (w_attrID r) s = Some a \<and> a_type a = w_dataType r \<and>
    a_access a AND ACCESS_CONTROL_WRITE \<noteq> 0 \<and> a_data a \<noteq> 0 \<and>
    (let n = zcl_getAttrSize (w_dataType r) (w_attrData r) in
     zcl_getAttrVal ep c (w_attrID r) s' = (ZCL_STA_SUCCESS, n, vtake (unat n) (w_attrData r)) \<and>
     s' = s\<lparr>ram := ram s'\<rparr> \<and> (\<forall>i. i < a_data a \<or> a_data a + unat n \<le> i \<longrightarrow> ram s' i = ram s i))"
proof -
  obtain a where a: "zcl_findAttribute ep c (w_attrID r) s = Some a" "a_type a = w_dataType r"
    "a_access a AND ACCESS_CONTROL_WRITE \<noteq> 0" "a_data a \<noteq> 0"
    "zcl_setAttrVal ep c (w_attrID r) (w_attrData r) s = (ZCL_STA_SUCCESS, s')"
    using assms(1) by (auto simp: zcl_attrWrite_def split: option.splits if_splits)
  let ?n = "zcl_getAttrSize (w_dataType r) (w_attrData r)"
  let ?bs = "vtake (unat ?n) (w_attrData r)"
  have s': "s' = s\<lparr>ram := mem_write (ram s) (a_data a) ?bs\<rparr>"
    using a by (auto simp: zcl_setAttrVal_def Let_def)
  have v: "attr_view a s' = mem_at (mem_write (ram s) (a_data a) ?bs) (a_data a)"
    by (simp add: attr_view_def s')
  have t: "vtake (unat ?n) (attr_view a s') = ?bs"
    using mem_at_write [of ?bs "ram s" "a_data a"] by (simp add: v)
  have "zcl_getAttrSize (w_dataType r) (attr_view a s') = ?n"
  proof (rule getAttrSize_cong_fits [OF assms(2)])
    show "w_attrData r i = attr_view a s' i" if "i < unat ?n" for i
      using that arg_cong [OF t, of "\<lambda>xs. xs ! i"] by simp
  qed
  moreover have "zcl_findAttribute ep c (w_attrID r) s' = Some a"
    using a(1) by (simp add: zcl_findAttribute_def zcl_findCluster_def s')
  ultimately have "zcl_getAttrVal ep c (w_attrID r) s' = (ZCL_STA_SUCCESS, ?n, ?bs)"
    using a(2,4) t by (simp add: zcl_getAttrVal_def Let_def)
  then show ?thesis
    using a s' by (auto simp: Let_def mem_write_outside)
qed

definition ex_write :: zclWriteRec_t where
  "ex_write = \<lparr>w_attrID = 0x0010, w_dataType = ZCL_DATA_TYPE_CHAR_STR, w_attrData = lview [2, 0x68, 0x69] (\<lambda>_. 0)\<rparr>"

lemma attr_write_read_witness:
  "zcl_getAttrVal 1 0 0x0010 (snd (zcl_attrWrite 1 0 ex_write True ex_state))
     = (ZCL_STA_SUCCESS, 3, [2, 0x68, 0x69])"
proof -
  have w: "zcl_attrWrite 1 0 ex_write True ex_state
      = (ZCL_STA_SUCCESS, snd (zcl_attrWrite 1 0 ex_write True ex_state))"
    by (simp add: zcl_attrWrite_def zcl_setAttrVal_def zcl_findAttribute_def zcl_findCluster_def
        ex_state_def ex_basic_def cluster_is_def cluster_attrs_def ex_write_def)
  have f: "size_fits (w_dataType ex_write) (w_attrData ex_write)"
    by (simp add: size_fits_def ex_write_def)
  have n: "zcl_getAttrSize (w_dataType ex_write) (w_attrData ex_write) = 3"
    "vtake 3 (w_attrData ex_write) = [2, 0x68, 0x69]" "w_attrID ex_write = 0x0010"
    by (simp_all add: ex_write_def zcl_getAttrSize_def vtake_def upt_conv_Cons lview_def)
  from attr_write_read [OF w f] show ?thesis unfolding n Let_def by (auto simp: n)
qed

lemma find_cluster_unused:
  "\<forall>c \<in> set ys. endpoint c = 0xFE \<and> clusterID c = 0xFFFF \<Longrightarrow> (ep, cid) \<noteq> (0xFE, 0xFFFF) \<Longrightarrow>
     find (cluster_is ep cid) ys = None"
  by (auto simp: find_None_iff cluster_is_def)

text \<open>Registration keeps the cluster table a map. For a key other than the one of free
  entries, \<^verbatim>\<open>zcl_registerCluster\<close> fails with \<^verbatim>\<open>INSUFFICIENT_SPACE\<close> exactly on a full table and
  with \<^verbatim>\<open>DUPLICATE_EXISTS\<close> exactly on a known key, changing nothing; otherwise the table stays
  well-formed, \<^verbatim>\<open>zcl_findCluster\<close> finds the new cluster under its key, and finds under every
  other key what it found before.\<close>

theorem register_find:
  assumes "registry_ok s" "(ep, cid) \<noteq> (0xFE, 0xFFFF)" "zcl_registerCluster ep cid manu n tbl h app s = (st, s')"
  shows "registry_ok s' \<and>
    (st = ZCL_STA_INSUFFICIENT_SPACE \<and> unat (clusterNum s) = length (clusterList s) \<and> s' = s \<or>
     st = ZCL_STA_DUPLICATE_EXISTS \<and> zcl_findCluster ep cid s \<noteq> None \<and> s' = s \<or>
     st = ZCL_STA_SUCCESS \<and> zcl_findCluster ep cid s = None \<and>
       zcl_findCluster ep cid s' = Some \<lparr>attrTable = tbl, cmdHandlerFunc = h, clusterAppCb = app,
         clusterID = cid, manuCode = manu, endpoint = ep, attrNum = n\<rparr> \<and>
       (\<forall>ep2 cid2. (ep2, cid2) \<noteq> (ep, cid) \<and> (ep2, cid2) \<noteq> (0xFE, 0xFFFF) \<longrightarrow>
          zcl_findCluster ep2 cid2 s' = zcl_findCluster ep2 cid2 s))"
proof (cases "unat (clusterNum s) < length (clusterList s)")
  case False
  with assms show ?thesis by (auto simp: zcl_registerCluster_def registry_ok_def)
next
  case True
  show ?thesis
  proof (cases "zcl_findCluster ep cid s")
    case (Some c)
    with True assms show ?thesis by (auto simp: zcl_registerCluster_def)
  next
    case None
    obtain xs c ys where l: "clusterList s = xs @ c # ys" "length xs = unat (clusterNum s)"
      and xs: "distinct (map (\<lambda>c. (endpoint c, clusterID c)) xs)"
      and c: "endpoint c = 0xFE" "clusterID c = 0xFFFF"
      and ys: "\<And>d. d \<in> set ys \<Longrightarrow> endpoint d = 0xFE \<and> clusterID d = 0xFFFF"
      by (rule registry_split [OF assms(1) True]) (rule that)
    let ?new = "\<lparr>attrTable = tbl, cmdHandlerFunc = h, clusterAppCb = app, clusterID = cid,
      manuCode = manu, endpoint = ep, attrNum = n\<rparr>"
    have s': "st = ZCL_STA_SUCCESS" "s' = s\<lparr>clusterList := xs @ ?new # ys, clusterNum := clusterNum s + 1\<rparr>"
      using assms(3) True None
      by (simp_all add: zcl_registerCluster_def l(1) list_update_length [of xs, unfolded l(2)])
    have fresh: "find (cluster_is ep cid) xs = None"
      using None by (auto simp: zcl_findCluster_def l find_append split: option.splits)
    then have "\<forall>d \<in> set xs. (endpoint d, clusterID d) \<noteq> (ep, cid)"
      by (auto simp: find_None_iff cluster_is_def)
    then have d: "distinct (map (\<lambda>c. (endpoint c, clusterID c)) (xs @ [?new]))"
      using xs by force
    have "length xs < 255" "length xs + length ys < 255"
      using assms(1) l by (auto simp: registry_ok_def)
    then have k: "unat (clusterNum s + 1) = length (xs @ [?new])"
      using l(2) by (simp add: unat_word_ariths)
    have "registry_ok s'"
      using d ys \<open>length xs + length ys < 255\<close> unfolding registry_ok_def s'(2)
      by (simp add: k)
    moreover have "zcl_findCluster ep cid s' = Some ?new"
      using fresh by (simp add: zcl_findCluster_def s'(2) find_append cluster_is_def)
    moreover have "zcl_findCluster ep2 cid2 s' = zcl_findCluster ep2 cid2 s"
      if "(ep2, cid2) \<noteq> (ep, cid)" "(ep2, cid2) \<noteq> (0xFE, 0xFFFF)" for ep2 cid2
      using that c by (auto simp: zcl_findCluster_def s'(2) l find_append cluster_is_def split: option.splits)
    ultimately show ?thesis using s'(1) None by blast
  qed
qed

lemma ex_registry_ok: "registry_ok ex_state"
  by (simp add: registry_ok_def ex_state_def ex_basic_def ex_temp_def ex_onoff_def ex_free_def)

lemma register_find_witness:
  "zcl_findCluster 1 8 (snd (zcl_registerCluster 1 8 0 0 [] None None ex_state)) \<noteq> None"
proof -
  have "fst (zcl_registerCluster 1 8 0 0 [] None None ex_state) = ZCL_STA_SUCCESS"
    by (simp add: zcl_registerCluster_def zcl_findCluster_def ex_state_def ex_basic_def ex_temp_def
        ex_onoff_def ex_free_def cluster_is_def)
  then have "zcl_registerCluster 1 8 0 0 [] None None ex_state
      = (ZCL_STA_SUCCESS, snd (zcl_registerCluster 1 8 0 0 [] None None ex_state))"
    by (metis prod.collapse)
  from register_find [OF ex_registry_ok _ this] show ?thesis by simp
qed

lemma copy_size [simp]:
  assumes "size_fits t d"
  shows "zcl_getAttrSize t (lview (vtake (unat (zcl_getAttrSize t d)) d @ ys) v) = zcl_getAttrSize t d"
  by (rule getAttrSize_cong_fits [OF assms]) (simp add: lview_append lview_inside)

lemma length_buildHdr: "length (zcl_buildHdr a b c manu e f) = (if manu \<noteq> 0 then 5 else 3)"
  by (simp add: zcl_buildHdr_def)

lemma ub_zfree [simp]: "ub (zfree p s) = ub s" "T_sent (zfree p s) = T_sent s"
  by (simp_all add: zfree_def)

lemma zalloc_fields: "zalloc n s = (r, s') \<Longrightarrow> ub s' = ub s \<and> T_sent s' = T_sent s"
  using zalloc_eq [of n s r s'] by (metis zst.select_convs zst.surjective zst.update_convs(1))

text \<open>A payload that fits is sent behind its header, and its bytes stay inside the blocks.\<close>

definition sent_frame :: "u8 \<Rightarrow> epInfo_t \<Rightarrow> u16 \<Rightarrow> bytes \<Rightarrow> sent_t" where
  "sent_frame srcEp dst clusterId bs = \<lparr>s_srcEp = srcEp, s_dst = dst, s_clusterId = clusterId, s_asdu = bs\<rparr>"

lemma sendCmd_sends:
  assumes "zcl_sendCmd env srcEp dst cl cmd spec dir dis manu seqNo (of_nat (length bs)) (lview bs v) s = (st, s')"
    and "length bs < 65530" and ok: "zok s"
  shows "ub s' = ub s"
    "st = ZCL_STA_SUCCESS \<or> st = ZCL_STA_INSUFFICIENT_SPACE"
    "st = ZCL_STA_SUCCESS \<Longrightarrow> T_sent s' =
       sent_frame srcEp dst cl (zcl_buildHdr spec dir dis manu seqNo cmd @ bs) # T_sent s"
    "T_sent s' = T_sent s \<or> T_sent s' =
       sent_frame srcEp dst cl (zcl_buildHdr spec dir dis manu seqNo cmd @ bs) # T_sent s"
proof -
  let ?h = "zcl_buildHdr spec dir dis manu seqNo cmd"
  have n: "unat (of_nat (length bs) :: u16) = length bs"
    using assms(2) by (simp add: unat_of_nat_u16)
  have n5: "unat (5 + of_nat (length bs) :: u16) = 5 + length bs"
    using unat_of_nat_u16 [of "5 + length bs"] assms(2) by simp
  have nh: "unat (of_nat (length ?h) + of_nat (length bs) :: u16) = length ?h + length bs"
    using unat_of_nat_u16 [of "length ?h + length bs"] assms(2) by (simp add: length_buildHdr)
  obtain r s1 where a: "zalloc (5 + of_nat (length bs)) s = (r, s1)" by fastforce
  note f = zalloc_fields [OF a]
  have "ub s' = ub s \<and> (st = ZCL_STA_SUCCESS \<or> st = ZCL_STA_INSUFFICIENT_SPACE) \<and>
    (st = ZCL_STA_SUCCESS \<longrightarrow> T_sent s' = sent_frame srcEp dst cl (?h @ bs) # T_sent s) \<and>
    (T_sent s' = T_sent s \<or> T_sent s' = sent_frame srcEp dst cl (?h @ bs) # T_sent s)"
  proof (cases r)
    case None
    with assms(1) a f show ?thesis by (auto simp: zcl_sendCmd_def send_frame_def)
  next
    case (Some p)
    have "5 + length bs \<le> capacity p"
      using zb.alloc_new [OF ok a [unfolded Some]] n5 by simp
    then have "ub (buf_touch p (length (?h @ bs)) s1) = ub s"
      using f by (simp add: buf_touch_def length_buildHdr)
    then show ?thesis
      using assms(1) a f Some
      by (auto simp: zcl_sendCmd_def send_frame_def Let_def n nh sent_frame_def buf_touch_def split: if_splits)
  qed
  then show "ub s' = ub s" "st = ZCL_STA_SUCCESS \<or> st = ZCL_STA_INSUFFICIENT_SPACE"
    "st = ZCL_STA_SUCCESS \<Longrightarrow> T_sent s' = sent_frame srcEp dst cl (?h @ bs) # T_sent s"
    "T_sent s' = T_sent s \<or> T_sent s' = sent_frame srcEp dst cl (?h @ bs) # T_sent s" by auto
qed

text \<open>The payload may be cut: what the block holds is \<open>bs @ tl_bs\<close>, what is sent of it \<open>bs\<close>.\<close>

lemma sendBuf_sends_cut:
  assumes "zcl_sendBuf env srcEp dst cl cmd dir dis manu seqNo al len (bs @ tl_bs) s = (st, s')"
    and len: "al = of_nat (length (bs @ tl_bs))" "len = of_nat (length bs)" "length (bs @ tl_bs) < 65530"
    and ok: "zok s"
  shows "ub s' = ub s" "st = ZCL_STA_SUCCESS \<or> st = ZCL_STA_INSUFFICIENT_SPACE"
    "st = ZCL_STA_SUCCESS \<Longrightarrow> T_sent s' =
       sent_frame srcEp dst cl (zcl_buildHdr 0 dir dis manu seqNo cmd @ bs) # T_sent s"
    "T_sent s' = T_sent s \<or> T_sent s' =
       sent_frame srcEp dst cl (zcl_buildHdr 0 dir dis manu seqNo cmd @ bs) # T_sent s"
proof -
  let ?f = "sent_frame srcEp dst cl (zcl_buildHdr 0 dir dis manu seqNo cmd @ bs)"
  have n: "unat al = length (bs @ tl_bs)"
    unfolding len(1) by (rule unat_of_nat_u16) (use len(3) in simp)
  obtain r s1 where a: "zalloc al s = (r, s1)" by fastforce
  note f = zalloc_fields [OF a]
  have "ub s' = ub s \<and> (st = ZCL_STA_SUCCESS \<or> st = ZCL_STA_INSUFFICIENT_SPACE) \<and>
    (st = ZCL_STA_SUCCESS \<longrightarrow> T_sent s' = ?f # T_sent s) \<and> (T_sent s' = T_sent s \<or> T_sent s' = ?f # T_sent s)"
  proof (cases r)
    case None
    with assms(1) a f show ?thesis by (auto simp: zcl_sendBuf_def)
  next
    case (Some p)
    let ?s1 = "buf_touch p (length (bs @ tl_bs)) s1"
    have u: "ub ?s1 = ub s"
      using zb.alloc_new [OF ok a [unfolded Some]] f by (simp add: buf_touch_def n)
    obtain st2 s2 where c: "zcl_sendCmd env srcEp dst cl cmd 0 dir dis manu seqNo (of_nat (length bs))
        (lview bs (lview tl_bs (uninit env))) ?s1 = (st2, s2)" by fastforce
    have "zok ?s1" using zb.alloc_inv [OF ok a] by simp
    moreover have "T_sent ?s1 = T_sent s" using f by (simp add: buf_touch_def)
    moreover have "length bs < 65530" using len(3) by simp
    moreover have "st = st2" "s' = zfree p s2"
      using assms(1) a Some c len(2) by (auto simp: zcl_sendBuf_def lview_append)
    ultimately show ?thesis using sendCmd_sends [OF c] u by auto
  qed
  then show "ub s' = ub s" "st = ZCL_STA_SUCCESS \<or> st = ZCL_STA_INSUFFICIENT_SPACE"
    "st = ZCL_STA_SUCCESS \<Longrightarrow> T_sent s' = ?f # T_sent s"
    "T_sent s' = T_sent s \<or> T_sent s' = ?f # T_sent s" by auto
qed

lemmas sendBuf_sends = sendBuf_sends_cut [where tl_bs = "[]", simplified append_Nil2]

end
