(* ===== verification/Zcl_Read.thy ===== *)
theory Zcl_Read
  imports Zcl_Core
begin

text \<open>
  Read Attributes of \<^verbatim>\<open>zigbee/zcl/zcl.c\<close>: the command and its response, sent and received.

  Every parser of the ZCL runs over the payload twice. The first pass counts the records and
  the bytes of their values to size one block; the second fills it, the records first and the
  values behind them. A parser here returns the filled block as a list of records together
  with the bytes of the value area; a value is a view that starts in that area, so a read
  behind a value sees the next ones and then what was in the block before.
\<close>

subsection \<open>Sending\<close>

definition zcl_read ::
  "zenv \<Rightarrow> u8 \<Rightarrow> epInfo_t \<Rightarrow> u16 \<Rightarrow> u16 \<Rightarrow> u8 \<Rightarrow> u8 \<Rightarrow> u8 \<Rightarrow> u16 list \<Rightarrow> zst \<Rightarrow> u8 \<times> zst" where
  "zcl_read env srcEp dst clusterId manu disableDefaultRsp direction seqNo attrIDs s =
     (let len = of_nat (length attrIDs) * 2 in
      if len = 0 then (ZCL_STA_INVALID_FIELD, s)
      else zcl_sendBuf env srcEp dst clusterId ZCL_CMD_READ direction disableDefaultRsp manu seqNo
             len len (concat (map u16_bytes attrIDs)) s)"

text \<open>\<open>None\<close>: a successful record without data.\<close>

fun readRsp_len :: "zclReadRspStatus_t list \<Rightarrow> u16 \<Rightarrow> u16 option" where
  "readRsp_len [] len = Some len"
| "readRsp_len (r # rs) len =
     (if rr_status r = ZCL_STA_SUCCESS
      then (case rr_data r of
              None \<Rightarrow> None
            | Some d \<Rightarrow> readRsp_len rs (len + 3 + 1 + zcl_getAttrSize (rr_dataType r) d))
      else readRsp_len rs (len + 3))"

definition readRsp_rec :: "zclReadRspStatus_t \<Rightarrow> bytes" where
  "readRsp_rec r = u16_bytes (rr_attrID r) @ [rr_status r] @
     (if rr_status r = ZCL_STA_SUCCESS
      then rr_dataType r # (case rr_data r of
             None \<Rightarrow> []
           | Some d \<Rightarrow> vtake (unat (zcl_getAttrSize (rr_dataType r) d)) d)
      else [])"

definition zcl_readRsp ::
  "zenv \<Rightarrow> u8 \<Rightarrow> epInfo_t \<Rightarrow> u16 \<Rightarrow> u16 \<Rightarrow> u8 \<Rightarrow> u8 \<Rightarrow> u8 \<Rightarrow> zclReadRspStatus_t list \<Rightarrow> zst \<Rightarrow> u8 \<times> zst" where
  "zcl_readRsp env srcEp dst clusterId manu disableDefaultRsp direction seqNo recs s =
     (case readRsp_len recs 0 of
        None \<Rightarrow> (ZCL_STA_INVALID_FIELD, s)
      | Some len \<Rightarrow>
          zcl_sendBuf env srcEp dst clusterId ZCL_CMD_READ_RSP direction disableDefaultRsp manu
            seqNo len len (concat (map readRsp_rec recs)) s)"

subsection \<open>Parsing\<close>

function readRsp_scan :: "view \<Rightarrow> nat \<Rightarrow> nat \<Rightarrow> u8 \<Rightarrow> u16 \<Rightarrow> u8 \<times> u16" where
  "readRsp_scan v i end numAttr dLen =
     (if i < end then
        (if v (i + 2) = ZCL_STA_SUCCESS
         then let n = zcl_getAttrSize (v (i + 3)) (vdrop (i + 4) v) in
              readRsp_scan v (i + 4 + unat n) end (numAttr + 1) (dLen + n)
         else readRsp_scan v (i + 3) end (numAttr + 1) dLen)
      else (numAttr, dLen))"
  by pat_completeness auto
termination by (relation "measure (\<lambda>(_, i, e, _). e - i)") (auto simp: Let_def)

fun readRsp_fill :: "view \<Rightarrow> nat \<Rightarrow> view \<Rightarrow> bytes \<times> zclReadRspStatus_t list" where
  "readRsp_fill junk 0 v = ([], [])"
| "readRsp_fill junk (Suc k) v =
     (if v 2 = ZCL_STA_SUCCESS
      then let n = unat (zcl_getAttrSize (v 3) (vdrop 4 v));
               (rest, rs) = readRsp_fill junk k (vdrop (4 + n) v);
               d = vtake n (vdrop 4 v) @ rest in
           (d, \<lparr>rr_attrID = get_u16 v, rr_status = v 2, rr_dataType = v 3,
                rr_data = Some (lview d junk)\<rparr> # rs)
      else let (rest, rs) = readRsp_fill junk k (vdrop 3 v) in
           (rest, \<lparr>rr_attrID = get_u16 v, rr_status = v 2, rr_dataType = junk 0, rr_data = None\<rparr> # rs))"

definition zcl_parseInReadRspCmd ::
  "zenv \<Rightarrow> zclIncoming_t \<Rightarrow> zst \<Rightarrow> (ptr \<times> zclReadRspStatus_t list) option \<times> zst" where
  "zcl_parseInReadRspCmd env m s =
     (let (numAttr, dLen) = readRsp_scan (pData m) 0 (unat (dataLen m)) 0 0;
          len = 1 + ucast numAttr * 8 in
      case zalloc (len + dLen) s of
        (None, s1) \<Rightarrow> (None, s1)
      | (Some p, s1) \<Rightarrow>
          (let (area, recs) = readRsp_fill (uninit env) (unat numAttr) (pData m) in
           (Some (p, recs), buf_touch p (unat len + length area) s1)))"

definition zcl_parseInReadCmd :: "zclIncoming_t \<Rightarrow> zst \<Rightarrow> (ptr \<times> u16 list) option \<times> zst" where
  "zcl_parseInReadCmd m s =
     (case zalloc (1 + dataLen m) s of
        (None, s1) \<Rightarrow> (None, s1)
      | (Some p, s1) \<Rightarrow>
          (let numAttr = ucast (dataLen m div 2) :: u8;
               ids = map (\<lambda>i. get_u16 (vdrop (2 * i) (pData m))) [0..<unat numAttr] in
           (Some (p, ids), buf_touch p (1 + 2 * length ids) s1)))"

subsection \<open>Handlers\<close>

definition set_attrCmd :: "ptr \<Rightarrow> attr_cmd \<Rightarrow> zclIncoming_t \<Rightarrow> zclIncoming_t" where
  "set_attrCmd p c m = m\<lparr>attrCmd := Some (p, c)\<rparr>"

definition zcl_readRspHandler ::
  "zenv \<Rightarrow> zclIncoming_t \<Rightarrow> zst \<Rightarrow> u8 \<times> zclIncoming_t \<times> zst" where
  "zcl_readRspHandler env m s =
     (case zcl_parseInReadRspCmd env m s of
        (None, s1) \<Rightarrow> (ZCL_STA_INSUFFICIENT_SPACE, m, s1)
      | (Some (p, recs), s1) \<Rightarrow> (ZCL_STA_SUCCESS, set_attrCmd p (ReadRspCmd recs) m, s1))"

definition read_record :: "u8 \<Rightarrow> u16 \<Rightarrow> zst \<Rightarrow> u8 \<Rightarrow> u16 \<Rightarrow> zclReadRspStatus_t" where
  \<comment> \<open>one turn of the loop of \<^verbatim>\<open>zcl_readHandler\<close>; type and data stay unset on failure\<close>
  "read_record ep clusterId s junk attrId =
     (case zcl_attrRead ep clusterId attrId s of
        (Some a, st) \<Rightarrow> \<lparr>rr_attrID = attrId, rr_status = st, rr_dataType = a_type a,
                          rr_data = Some (attr_view a s)\<rparr>
      | (None, st) \<Rightarrow> \<lparr>rr_attrID = attrId, rr_status = st, rr_dataType = junk, rr_data = None\<rparr>)"

definition zcl_readHandler ::
  "zenv \<Rightarrow> zclIncoming_t \<Rightarrow> zst \<Rightarrow> u8 \<times> zclIncoming_t \<times> zst" where
  "zcl_readHandler env m s0 =
     (let clusterId = i_cluster_id (indInfo (msg m));
          ep = i_dst_ep (indInfo (msg m));
          s = s0\<lparr>lastMessageLQI := i_lqi (indInfo (msg m)), lastMessageRSSI := i_rssi (indInfo (msg m))\<rparr> in
      case zcl_parseInReadCmd m s of
        (None, s1) \<Rightarrow> (ZCL_STA_INSUFFICIENT_SPACE, m, s1)
      | (Some (p, ids), s1) \<Rightarrow>
          (let m1 = set_attrCmd p (ReadCmd ids) m in
           if i_security_status (indInfo (msg m)) = 0 then (ZCL_STA_FAILURE, m1, s1)
           else case zalloc (1 + of_nat (length ids) * 8) s1 of
             (None, s2) \<Rightarrow> (ZCL_STA_INSUFFICIENT_SPACE, m1, s2)
           | (Some q, s2) \<Rightarrow>
               (let s3 = buf_touch q (1 + length ids * 8) s2;
                    recs = map (read_record ep clusterId s3 (uninit env 0)) ids;
                    (status, s4) = zcl_readRsp env ep (reply_ep m APS_TX_OPT_ACK_TX) clusterId
                      (h_manufCode (hdr m)) 1 (not_dir m) (h_seqNum (hdr m)) recs s3;
                    s5 = zfree q s4 in
                (if status = ZCL_STA_SUCCESS then ZCL_STA_CMD_HAS_RESP else status, m1, s5))))"

declare readRsp_scan.simps [simp del]


subsection \<open>Blocks\<close>

lemma parseInReadRspCmd_holds [pool_effects]:
  "zcl_parseInReadRspCmd env m s = (r, s') \<Longrightarrow> holds s (map_option fst r) s'"
  by (auto simp: zcl_parseInReadRspCmd_def Let_def split: handled_splits
      dest!: holds_alloc intro: holds_touch)

lemma parseInReadCmd_holds [pool_effects]:
  "zcl_parseInReadCmd m s = (r, s') \<Longrightarrow> holds s (map_option fst r) s'"
  by (auto simp: zcl_parseInReadCmd_def Let_def split: handled_splits
      dest!: holds_alloc intro: holds_touch)

lemma readRsp_effect:
  assumes "zcl_readRsp env srcEp dst cl manu dis dir seq recs s = (st, s')"
  shows "only_sent s s'" "no_leak s s'"
  using assms sendBuf_effect by (auto simp: zcl_readRsp_def split: option.splits)

lemmas [pool_effects] = readRsp_effect(2)

lemma holds_diag [simp]:
  "holds (s\<lparr>lastMessageLQI := a, lastMessageRSSI := b\<rparr>) r s' \<longleftrightarrow> holds s r s'"
  by (simp add: holds_def cong: option.case_cong)

lemma same_pool_diag [simp]:
  "no_leak (s\<lparr>lastMessageLQI := a, lastMessageRSSI := b\<rparr>) s' \<longleftrightarrow> no_leak s s'"
  by (simp add: no_leak_def same_pool_def)

lemma readRspHandler_handled [pool_effects]:
  "zcl_readRspHandler env m s = (st, m', s') \<Longrightarrow> handled m s m' s'"
  by (auto simp: zcl_readRspHandler_def set_attrCmd_def split: handled_splits
      dest!: pool_effects intro!: handled_rules)

lemma readHandler_handled [pool_effects]:
  "zcl_readHandler env m s = (st, m', s') \<Longrightarrow> handled m s m' s'"
  by (auto simp: zcl_readHandler_def Let_def set_attrCmd_def split: handled_splits
      dest!: pool_effects intro!: handled_rules intro: answer_rules)

subsection \<open>The response is read back\<close>

lemma eq_of_nat_unat: "unat (w :: 'a::len word) = n \<Longrightarrow> w = of_nat n"
  by auto

definition readRsp_wf :: "zclReadRspStatus_t \<Rightarrow> bool" where
  "readRsp_wf r \<longleftrightarrow> (rr_status r = ZCL_STA_SUCCESS \<longrightarrow>
     (\<exists>d. rr_data r = Some d \<and> size_fits (rr_dataType r) d))"

definition readRsp_same :: "zclReadRspStatus_t \<Rightarrow> zclReadRspStatus_t \<Rightarrow> bool" where
  \<comment> \<open>the same answer: identifier, status and, of a success, type and value\<close>
  "readRsp_same r r' \<longleftrightarrow> rr_attrID r' = rr_attrID r \<and> rr_status r' = rr_status r \<and>
     (if rr_status r = ZCL_STA_SUCCESS
      then rr_dataType r' = rr_dataType r \<and>
        (\<exists>d d'. rr_data r = Some d \<and> rr_data r' = Some d' \<and>
           zcl_getAttrSize (rr_dataType r) d' = zcl_getAttrSize (rr_dataType r) d \<and>
           vtake (unat (zcl_getAttrSize (rr_dataType r) d)) d' =
           vtake (unat (zcl_getAttrSize (rr_dataType r) d)) d)
      else rr_data r' = None)"

definition readRsp_val :: "zclReadRspStatus_t \<Rightarrow> bytes" where
  "readRsp_val r = (if rr_status r = ZCL_STA_SUCCESS then
     (case rr_data r of None \<Rightarrow> [] | Some d \<Rightarrow> vtake (unat (zcl_getAttrSize (rr_dataType r) d)) d) else [])"

definition readRsp_payload :: "zclReadRspStatus_t list \<Rightarrow> bytes" where
  "readRsp_payload recs = concat (map readRsp_rec recs)"

lemma readRsp_payload_simps [simp]:
  "readRsp_payload [] = []" "readRsp_payload (r # rs) = readRsp_rec r @ readRsp_payload rs"
  by (simp_all add: readRsp_payload_def)

lemma readRsp_rec_shape:
  "readRsp_wf r \<Longrightarrow> readRsp_rec r =
     [LO_UINT16 (rr_attrID r), HI_UINT16 (rr_attrID r), rr_status r] @
     (if rr_status r = ZCL_STA_SUCCESS then rr_dataType r # readRsp_val r else [])"
  by (auto simp: readRsp_rec_def readRsp_val_def readRsp_wf_def u16_bytes_def)

lemma readRsp_len_payload:
  "\<forall>r \<in> set recs. readRsp_wf r \<Longrightarrow> readRsp_len recs n = Some (n + of_nat (length (readRsp_payload recs)))"
  by (induction recs arbitrary: n)
    (auto simp: readRsp_wf_def readRsp_rec_def algebra_simps)

lemma length_readRsp_payload:
  "\<forall>r \<in> set recs. readRsp_wf r \<Longrightarrow>
     3 * length recs + length (concat (map readRsp_val recs)) \<le> length (readRsp_payload recs)"
  by (induction recs) (auto simp: readRsp_rec_shape readRsp_val_def)

text \<open>The reading of one record that stands at the start of the bytes.\<close>

lemma readRsp_at:
  assumes "readRsp_wf r" and v: "v = lview (readRsp_rec r @ ys) rest"
  shows "get_u16 v = rr_attrID r" "v 2 = rr_status r"
    "rr_status r \<noteq> ZCL_STA_SUCCESS \<Longrightarrow> vdrop 3 v = lview ys rest"
    "rr_status r = ZCL_STA_SUCCESS \<Longrightarrow> v 3 = rr_dataType r"
    "rr_status r = ZCL_STA_SUCCESS \<Longrightarrow> unat (zcl_getAttrSize (v 3) (vdrop 4 v)) = length (readRsp_val r)"
    "rr_status r = ZCL_STA_SUCCESS \<Longrightarrow> vtake (length (readRsp_val r)) (vdrop 4 v) = readRsp_val r"
    "rr_status r = ZCL_STA_SUCCESS \<Longrightarrow> vdrop (4 + length (readRsp_val r)) v = lview ys rest"
proof -
  note sh = readRsp_rec_shape [OF assms(1)]
  show "get_u16 v = rr_attrID r" "v 2 = rr_status r"
    by (simp_all add: v sh get_u16_def numeral_eq_Suc)
  show "vdrop 3 v = lview ys rest" if "rr_status r \<noteq> ZCL_STA_SUCCESS"
    using that by (simp add: v sh numeral_eq_Suc)
  assume s: "rr_status r = ZCL_STA_SUCCESS"
  obtain d where d: "rr_data r = Some d" "size_fits (rr_dataType r) d"
    using assms(1) s by (auto simp: readRsp_wf_def)
  have val: "readRsp_val r = vtake (unat (zcl_getAttrSize (rr_dataType r) d)) d"
    by (simp add: readRsp_val_def s d)
  have v4: "vdrop 4 v = lview (readRsp_val r @ ys) rest"
    by (simp add: v sh s numeral_eq_Suc)
  show t: "v 3 = rr_dataType r" by (simp add: v sh s numeral_eq_Suc)
  show "unat (zcl_getAttrSize (v 3) (vdrop 4 v)) = length (readRsp_val r)"
    unfolding t v4 val using copy_size [OF d(2)] by simp
  show "vtake (length (readRsp_val r)) (vdrop 4 v) = readRsp_val r"
    unfolding v4 by simp
  show "vdrop (4 + length (readRsp_val r)) v = lview ys rest"
    using vdrop_vdrop [of "length (readRsp_val r)" 4 v] unfolding v4 by simp
qed

lemma readRsp_scan_payload:
  "\<forall>r \<in> set recs. readRsp_wf r \<Longrightarrow> vdrop i v = lview (readRsp_payload recs) rest \<Longrightarrow>
   readRsp_scan v i (i + length (readRsp_payload recs)) k d =
     (k + of_nat (length recs), d + of_nat (length (concat (map readRsp_val recs))))"
proof (induction recs arbitrary: i k d)
  case Nil
  then show ?case by (subst readRsp_scan.simps) simp
next
  case (Cons r rs)
  let ?L = "length (readRsp_payload rs)"
  have wf: "readRsp_wf r" using Cons.prems(1) by simp
  have vi: "vdrop i v = lview (readRsp_rec r @ readRsp_payload rs) rest"
    using Cons.prems(2) by (simp only: readRsp_payload_simps)
  note at = readRsp_at [OF wf vi]
  have at2: "v (i + 2) = rr_status r" using at(2) by simp
  have l: "length (readRsp_rec r) = (if rr_status r = ZCL_STA_SUCCESS then 4 + length (readRsp_val r) else 3)"
    by (simp add: readRsp_rec_shape [OF wf])
  show ?case
  proof (cases "rr_status r = ZCL_STA_SUCCESS")
    case False
    have n: "vdrop (i + 3) v = lview (readRsp_payload rs) rest"
      using at(3) [OF False] by simp
    have "readRsp_val r = []" using False by (simp add: readRsp_val_def)
    have e: "i + length (readRsp_payload (r # rs)) = i + 3 + ?L"
      using False l by simp
    have "readRsp_scan v i (i + length (readRsp_payload (r # rs))) k d
        = readRsp_scan v (i + 3) (i + 3 + ?L) (k + 1) d"
      unfolding e using False at2 by (subst readRsp_scan.simps) simp
    also have "\<dots> = (k + 1 + of_nat (length rs), d + of_nat (length (concat (map readRsp_val rs))))"
      using Cons.IH [OF _ n] Cons.prems(1) by simp
    finally show ?thesis by (simp add: \<open>readRsp_val r = []\<close> add.assoc)
  next
    case True
    let ?n = "zcl_getAttrSize (v (i + 3)) (vdrop (i + 4) v)"
    have z: "unat ?n = length (readRsp_val r)"
      using at(5) [OF True] by simp
    have z': "?n = of_nat (length (readRsp_val r))" by (rule eq_of_nat_unat [OF z])
    have n: "vdrop (i + 4 + unat ?n) v = lview (readRsp_payload rs) rest"
      using at(7) [OF True] unfolding z by (simp add: add.assoc)
    have e: "i + length (readRsp_payload (r # rs)) = i + 4 + unat ?n + ?L"
      using True l z by simp
    have "readRsp_scan v i (i + length (readRsp_payload (r # rs))) k d
        = readRsp_scan v (i + 4 + unat ?n) (i + 4 + unat ?n + ?L) (k + 1) (d + ?n)"
      unfolding e using True at2 by (subst readRsp_scan.simps) (simp add: Let_def)
    also have "\<dots> = (k + 1 + of_nat (length rs), d + ?n + of_nat (length (concat (map readRsp_val rs))))"
      using Cons.IH [OF _ n] Cons.prems(1) by simp
    finally show ?thesis by (simp add: z' add.assoc)
  qed
qed

lemma readRsp_fill_payload:
  "\<forall>r \<in> set recs. readRsp_wf r \<Longrightarrow> v = lview (readRsp_payload recs) rest \<Longrightarrow>
   fst (readRsp_fill junk (length recs) v) = concat (map readRsp_val recs) \<and>
   list_all2 readRsp_same recs (snd (readRsp_fill junk (length recs) v))"
proof (induction recs arbitrary: v)
  case (Cons r rs)
  have wf: "readRsp_wf r" using Cons.prems(1) by simp
  have v: "v = lview (readRsp_rec r @ readRsp_payload rs) rest"
    using Cons.prems(2) by (simp only: readRsp_payload_simps)
  note at = readRsp_at [OF wf v]
  show ?case
  proof (cases "rr_status r = ZCL_STA_SUCCESS")
    case False
    let ?f = "readRsp_fill junk (length rs) (vdrop 3 v)"
    let ?r = "\<lparr>rr_attrID = rr_attrID r, rr_status = rr_status r, rr_dataType = junk 0, rr_data = None\<rparr>"
    have ih: "fst ?f = concat (map readRsp_val rs)" "list_all2 readRsp_same rs (snd ?f)"
      using Cons.IH [of "vdrop 3 v"] at(3) [OF False] Cons.prems(1) by simp_all
    have "readRsp_fill junk (length (r # rs)) v = (fst ?f, ?r # snd ?f)"
      using False at(1,2) by (simp add: split_beta)
    moreover have "readRsp_same r ?r" "readRsp_val r = []"
      using False by (simp_all add: readRsp_same_def readRsp_val_def)
    ultimately show ?thesis using ih by simp
  next
    case True
    let ?f = "readRsp_fill junk (length rs) (vdrop (4 + length (readRsp_val r)) v)"
    have ih: "fst ?f = concat (map readRsp_val rs)" "list_all2 readRsp_same rs (snd ?f)"
      using Cons.IH [of "vdrop (4 + length (readRsp_val r)) v"] at(7) [OF True] Cons.prems(1) by simp_all
    obtain d where d: "rr_data r = Some d" "size_fits (rr_dataType r) d"
      using wf True by (auto simp: readRsp_wf_def)
    have val: "readRsp_val r = vtake (unat (zcl_getAttrSize (rr_dataType r) d)) d"
      by (simp add: readRsp_val_def True d)
    let ?r = "\<lparr>rr_attrID = rr_attrID r, rr_status = rr_status r, rr_dataType = rr_dataType r,
      rr_data = Some (lview (readRsp_val r @ fst ?f) junk)\<rparr>"
    have "readRsp_same r ?r"
      using True d copy_size [OF d(2), of "fst ?f" junk]
        vtake_lview_append [of "readRsp_val r" "fst ?f" junk]
      by (simp add: readRsp_same_def val)
    moreover have "readRsp_fill junk (length (r # rs)) v = (readRsp_val r @ fst ?f, ?r # snd ?f)"
      using True at(1,2) at(4-6) [OF True] by (simp add: Let_def split_beta)
    ultimately show ?thesis using ih by simp
  qed
qed simp

text \<open>C14. A read response survives transmission. When the receiver gets exactly the bytes
  \<^verbatim>\<open>zcl_readRsp\<close> builds from a list of records, and a block is free, its parser returns the
  same number of records with the same identifiers and statuses and, for every success, the
  same type and value; it writes inside its block only.\<close>

theorem readRsp_roundtrip:
  assumes "\<forall>r \<in> set recs. readRsp_wf r" "length recs < 256" "length (readRsp_payload recs) < 60000"
    "pData m = lview (readRsp_payload recs) rest" "dataLen m = of_nat (length (readRsp_payload recs))"
    "pool_ok (pool s)" "zcl_parseInReadRspCmd env m s = (Some (p, recs'), s')"
  shows "list_all2 readRsp_same recs recs' \<and> ub s' = ub s"
proof -
  let ?vals = "concat (map readRsp_val recs)"
  have n: "unat (dataLen m) = length (readRsp_payload recs)"
    using assms(3,5) by (simp add: unat_of_nat_u16)
  have num: "unat (of_nat (length recs) :: u8) = length recs"
    using assms(2) by (simp add: unsigned_of_nat take_bit_nat_eq_self)
  have sc: "readRsp_scan (pData m) 0 (unat (dataLen m)) 0 0
      = (of_nat (length recs), of_nat (length ?vals))"
    using readRsp_scan_payload [OF assms(1), of 0 "pData m" rest 0 0] assms(4) n by simp
  let ?len = "1 + ucast (of_nat (length recs) :: u8) * 8 :: u16"
  have len: "unat ?len = 1 + 8 * length recs"
    using assms(2) num by (simp add: unat_word_ariths)
  have vl: "length ?vals < 60000" using length_readRsp_payload [OF assms(1)] assms(3) by simp
  have tot: "unat (?len + of_nat (length ?vals)) = 1 + 8 * length recs + length ?vals"
    using len vl assms(2) by (simp add: unat_word_ariths unat_of_nat_u16)
  obtain r1 s1 where a: "zalloc (?len + of_nat (length ?vals)) s = (r1, s1)" by fastforce
  have r1: "r1 = Some p" "recs' = snd (readRsp_fill (uninit env) (length recs) (pData m))"
    "s' = buf_touch p (unat ?len + length (fst (readRsp_fill (uninit env) (length recs) (pData m)))) s1"
    using assms(7) a unfolding zcl_parseInReadRspCmd_def sc
    by (auto simp: Let_def num split: option.splits prod.splits)
  have "unat (?len + of_nat (length ?vals)) \<le> capacity p"
    using zb.alloc_new [OF assms(6) a [unfolded r1(1)]] by simp
  then show ?thesis
    using readRsp_fill_payload [OF assms(1,4)] r1(2,3) zalloc_fields [OF a] tot len
    by (simp add: buf_touch_def)
qed

definition ex_read_recs :: "zclReadRspStatus_t list" where
  "ex_read_recs =
     [\<lparr>rr_attrID = 0x0010, rr_status = ZCL_STA_SUCCESS, rr_dataType = ZCL_DATA_TYPE_CHAR_STR,
        rr_data = Some (lview [2, 0x68, 0x69] (\<lambda>_. 7))\<rparr>,
      \<lparr>rr_attrID = 0x4000, rr_status = ZCL_STA_UNSUPPORTED_ATTRIBUTE, rr_dataType = 0, rr_data = None\<rparr>]"

definition ex_in :: "u16 \<Rightarrow> bytes \<Rightarrow> zclIncoming_t" where
  "ex_in c bs = \<lparr>m_clusterAppCb = None, msg = ex_ind c bs, pData = lview bs (\<lambda>_. 0), attrCmd = None,
     dataLen = of_nat (length bs),
     addrInfo = \<lparr>ai_profileId = 0, ai_srcAddr = 0, ai_dstAddr = 0, ai_srcEp = 0, ai_dstEp = 0,
       ai_seqNum = 0, ai_dirCluster = False, ai_apsSec = False\<rparr>,
     hdr = \<lparr>h_frmCtrl = 0, h_manufCode = 0, h_seqNum = 7, h_cmd = 0\<rparr>\<rparr>"

lemma readRsp_roundtrip_witness:
  "\<exists>p recs' s'. zcl_parseInReadRspCmd ex_env (ex_in 0 (readRsp_payload ex_read_recs)) ex_state
     = (Some (p, recs'), s') \<and> list_all2 readRsp_same ex_read_recs recs'"
proof -
  let ?m = "ex_in 0 (readRsp_payload ex_read_recs)"
  have bs: "readRsp_payload ex_read_recs = [0x10, 0, 0, 0x42, 2, 0x68, 0x69, 0, 0x40, 0x86]"
    by code_simp
  have "fst (zcl_parseInReadRspCmd ex_env ?m ex_state) \<noteq> None"
    unfolding bs by code_simp
  then obtain p recs' s' where p: "zcl_parseInReadRspCmd ex_env ?m ex_state = (Some (p, recs'), s')"
    by (metis not_None_eq prod.exhaust_sel)
  have w: "\<forall>r \<in> set ex_read_recs. readRsp_wf r"
    by (simp add: ex_read_recs_def readRsp_wf_def size_fits_def)
  have l: "length ex_read_recs < 256" "length (readRsp_payload ex_read_recs) < 60000"
    by (simp_all add: bs) (simp add: ex_read_recs_def)
  from readRsp_roundtrip [OF w l _ _ _ p, of "\<lambda>_. 0"] p show ?thesis
    by (auto simp: ex_in_def)
qed

text \<open>What a read request asks for, and what the handler answers for it.\<close>

definition requested :: "zclIncoming_t \<Rightarrow> u16 list" where
  "requested m = map (\<lambda>i. get_u16 (vdrop (2 * i) (pData m))) [0..<unat (dataLen m) div 2]"

definition read_answer :: "zenv \<Rightarrow> zclIncoming_t \<Rightarrow> zst \<Rightarrow> zclReadRspStatus_t list" where
  "read_answer env m s =
     map (read_record (i_dst_ep (indInfo (msg m))) (i_cluster_id (indInfo (msg m))) s (uninit env 0)) (requested m)"

lemma read_record_cong:
  "clusterList s' = clusterList s \<Longrightarrow> ram s' = ram s \<Longrightarrow>
     read_record ep c s' j a = read_record ep c s j a"
  by (simp add: read_record_def zcl_attrRead_def zcl_findAttribute_def zcl_findCluster_def attr_view_def
      cong: option.case_cong if_cong)

lemma numAttr_half:
  assumes "unat (n :: u16) < 512"
  shows "unat (ucast (n div 2) :: u8) = unat n div 2"
proof -
  have "unat (n div 2) < 256" using assms by (simp add: unat_div)
  then show ?thesis by (simp add: unsigned_ucast_eq take_bit_nat_eq_self unat_div)
qed

lemma parseInReadCmd_ids:
  assumes "zcl_parseInReadCmd m s = (Some (p, ids), s')" "unat (dataLen m) < 512" "zok s"
  shows "ids = requested m" "ub s' = ub s" "only_sent s s'" "T_sent s' = T_sent s" "zok s'"
proof -
  obtain r s1 where a: "zalloc (1 + dataLen m) s = (r, s1)" by fastforce
  have e: "r = Some p" "ids = requested m" "s' = buf_touch p (1 + 2 * (unat (dataLen m) div 2)) s1"
    using assms(1) a by (auto simp: zcl_parseInReadCmd_def requested_def numAttr_half [OF assms(2)]
        split: option.splits)
  have "unat (1 + dataLen m) = 1 + unat (dataLen m)"
    using assms(2) by (simp add: unat_word_ariths)
  then have "1 + 2 * (unat (dataLen m) div 2) \<le> capacity p"
    using zb.alloc_new [OF assms(3) a [unfolded e(1)]] by linarith
  with e(2,3) zalloc_fields [OF a] zb.alloc_inv [OF assms(3) a]
  show "ids = requested m" "ub s' = ub s" "T_sent s' = T_sent s" "zok s'"
    by (simp_all add: buf_touch_def)
  show "only_sent s s'"
    unfolding e(3) by (rule only_sent_trans [OF only_sent_zalloc [OF a] only_sent_buf_touch])
qed

lemma parseInReadCmd_None:
  assumes "zcl_parseInReadCmd m s = (None, s')"
  shows "only_sent s s'" "ub s' = ub s"
proof -
  obtain r s1 where a: "zalloc (1 + dataLen m) s = (r, s1)" by fastforce
  with assms have "s' = s1" by (auto simp: zcl_parseInReadCmd_def Let_def split: option.splits)
  with only_sent_zalloc [OF a] zalloc_fields [OF a] show "only_sent s s'" "ub s' = ub s" by simp_all
qed

text \<open>C13. A read request is answered for exactly the attributes it names, in their order: each
  with the status, type and current value \<^verbatim>\<open>zcl_attrRead\<close> gives, in one response frame to the
  sender of the request with its sequence number and the opposite direction. The handler
  answers a request without security by \<^verbatim>\<open>FAILURE\<close> and sends nothing; otherwise it sends
  the response or runs out of blocks (or the stack refuses the frame), and in no case writes
  outside a block or changes an attribute.\<close>

theorem read_handler_answers:
  assumes "pool_ok (pool s)" "unat (dataLen m) < 512" "\<forall>r \<in> set (read_answer env m s). readRsp_wf r"
    "length (readRsp_payload (read_answer env m s)) < 65530"
    "zcl_readHandler env m s = (st, m', s')"
  shows "ub s' = ub s \<and> ram s' = ram s \<and> clusterList s' = clusterList s \<and>
    (st = ZCL_STA_CMD_HAS_RESP \<and> i_security_status (indInfo (msg m)) \<noteq> 0 \<and>
       T_sent s' = sent_frame (i_dst_ep (indInfo (msg m))) (reply_ep m APS_TX_OPT_ACK_TX)
         (i_cluster_id (indInfo (msg m)))
         (zcl_buildHdr 0 (not_dir m) 1 (h_manufCode (hdr m)) (h_seqNum (hdr m)) ZCL_CMD_READ_RSP
            @ readRsp_payload (read_answer env m s)) # T_sent s \<or>
     st = ZCL_STA_FAILURE \<and> i_security_status (indInfo (msg m)) = 0 \<and> T_sent s' = T_sent s \<or>
     st = ZCL_STA_INSUFFICIENT_SPACE)"
proof -
  let ?ep = "i_dst_ep (indInfo (msg m))" and ?cl = "i_cluster_id (indInfo (msg m))"
  let ?bs = "readRsp_payload (read_answer env m s)"
  define s0 where "s0 = s\<lparr>lastMessageLQI := i_lqi (indInfo (msg m)), lastMessageRSSI := i_rssi (indInfo (msg m))\<rparr>"
  have s0: "ub s0 = ub s" "ram s0 = ram s" "clusterList s0 = clusterList s" "T_sent s0 = T_sent s" "zok s0"
    using assms(1) by (simp_all add: s0_def)
  obtain r s1 where pr: "zcl_parseInReadCmd m s0 = (r, s1)" by fastforce
  show ?thesis
  proof (cases r)
    case None
    note n = parseInReadCmd_None [OF pr [unfolded None]]
    have "st = ZCL_STA_INSUFFICIENT_SPACE" "s' = s1"
      using assms(5) pr None by (simp_all add: zcl_readHandler_def s0_def [symmetric])
    then show ?thesis using n(2) only_sent_fields [OF n(1)] s0 by simp
  next
    case (Some x)
    obtain p ids where x: "x = (p, ids)" by fastforce
    note q = parseInReadCmd_ids [OF pr [unfolded Some x] assms(2) s0(5)]
    note o1 = only_sent_fields [OF q(3)]
    show ?thesis
    proof (cases "i_security_status (indInfo (msg m)) = 0")
      case True
      then show ?thesis
        using assms(5) pr Some x s0 q o1 by (auto simp: zcl_readHandler_def s0_def [symmetric])
    next
      case sec: False
      obtain r2 s2 where a: "zalloc (1 + of_nat (length ids) * 8) s1 = (r2, s2)" by fastforce
      note f2 = zalloc_fields [OF a] and o2 = only_sent_fields [OF only_sent_zalloc [OF a]]
      show ?thesis
      proof (cases r2)
        case None
        then show ?thesis
          using assms(5) pr Some x s0 q o1 sec a f2 o2 by (auto simp: zcl_readHandler_def s0_def [symmetric])
      next
        case q2: (Some q')
        let ?s3 = "buf_touch q' (1 + length ids * 8) s2"
        have n: "length ids < 256" using assms(2) q(1) by (simp add: requested_def)
        then have "unat (1 + of_nat (length ids) * 8 :: u16) = 1 + length ids * 8"
          by (simp add: unat_word_ariths unat_of_nat_u16)
        then have u3: "ub ?s3 = ub s" "T_sent ?s3 = T_sent s" "zok ?s3" "ram ?s3 = ram s" "clusterList ?s3 = clusterList s"
          using zb.alloc_new [OF q(5) a [unfolded q2]] zb.alloc_inv [OF q(5) a] f2 q s0 o1 o2
          by (simp_all add: buf_touch_def)
        have recs: "map (read_record ?ep ?cl ?s3 (uninit env 0)) ids = read_answer env m s"
          using ext [of "read_record ?ep ?cl ?s3 (uninit env 0)" "read_record ?ep ?cl s (uninit env 0)",
              OF read_record_cong [OF u3(5,4)]]
          by (simp only: read_answer_def q(1) [symmetric])
        obtain st2 s4 where rr: "zcl_readRsp env ?ep (reply_ep m APS_TX_OPT_ACK_TX) ?cl
            (h_manufCode (hdr m)) 1 (not_dir m) (h_seqNum (hdr m)) (read_answer env m s) ?s3 = (st2, s4)"
          by fastforce
        have sb: "zcl_sendBuf env ?ep (reply_ep m APS_TX_OPT_ACK_TX) ?cl ZCL_CMD_READ_RSP (not_dir m) 1
            (h_manufCode (hdr m)) (h_seqNum (hdr m)) (of_nat (length ?bs)) (of_nat (length ?bs)) ?bs ?s3 = (st2, s4)"
          using rr by (simp add: zcl_readRsp_def readRsp_len_payload [OF assms(3)] flip: readRsp_payload_def)
        note s = sendBuf_sends [OF sb refl refl assms(4) u3(3)]
        note o4 = only_sent_fields [OF readRsp_effect(1) [OF rr]]
        have "st = (if st2 = ZCL_STA_SUCCESS then ZCL_STA_CMD_HAS_RESP else st2)" "s' = zfree q' s4"
          using assms(5) pr Some x sec a q2 recs rr by (auto simp: zcl_readHandler_def s0_def [symmetric])
        then show ?thesis
          using s(1-3) u3 o4 sec by (auto simp: zfree_def)
      qed
    qed
  qed
qed

lemma read_handler_answers_witness:
  "\<exists>m' s'. zcl_readHandler ex_env (ex_in 0 [0, 0, 0x12, 0]) ex_state = (ZCL_STA_CMD_HAS_RESP, m', s') \<and>
     map s_asdu (T_sent s') = [[0x18, 7, 1, 0, 0, 0, 0x20, 1, 0x12, 0, 0, 0x10, 1]] \<and> \<not> ub s'"
proof -
  let ?m = "ex_in 0 [0, 0, 0x12, 0]"
  have "fst (zcl_readHandler ex_env ?m ex_state) = ZCL_STA_CMD_HAS_RESP" by code_simp
  then obtain m' s' where h: "zcl_readHandler ex_env ?m ex_state = (ZCL_STA_CMD_HAS_RESP, m', s')"
    by (metis prod.collapse)
  have w: "\<forall>r \<in> set (read_answer ex_env ?m ex_state). readRsp_wf r"
    by (simp add: read_answer_def requested_def ex_in_def upt_conv_Cons read_record_def zcl_attrRead_def
        zcl_findAttribute_def zcl_findCluster_def ex_state_def ex_ind_def ex_basic_def cluster_is_def
        cluster_attrs_def get_u16_def lview_def BUILD_U16_def readRsp_wf_def size_fits_def)
  have bs: "readRsp_payload (read_answer ex_env ?m ex_state) = [0, 0, 0, 0x20, 1, 0x12, 0, 0, 0x10, 1]"
    by code_simp
  have hd: "zcl_buildHdr 0 (not_dir ?m) 1 (h_manufCode (hdr ?m)) (h_seqNum (hdr ?m)) ZCL_CMD_READ_RSP = [0x18, 7, 1]"
    by code_simp
  have d: "unat (dataLen ?m) < 512" "length (readRsp_payload (read_answer ex_env ?m ex_state)) < 65530"
    by (simp add: ex_in_def, simp add: bs)
  have "T_sent ex_state = []" "\<not> ub ex_state" by (simp_all add: ex_state_def)
  with read_handler_answers [OF ex_state_ok(1) d(1) w d(2) h] h show ?thesis
    unfolding bs hd by (auto simp: sent_frame_def)
qed

end
