(* ===== verification/Zcl_Write.thy ===== *)
theory Zcl_Write
  imports Zcl_Read
begin

text \<open>
  Write Attributes, Write Attributes Undivided and Write Attributes No Response of
  \<^verbatim>\<open>zigbee/zcl/zcl.c\<close>.
\<close>

subsection \<open>Sending\<close>

definition writeReq_len :: "zclWriteRec_t list \<Rightarrow> u16" where
  "writeReq_len recs =
     foldl (\<lambda>len r. len + 3 + zcl_getAttrSize (w_dataType r) (w_attrData r)) 0 recs"

definition attr_rec_bytes :: "zclWriteRec_t \<Rightarrow> bytes" where
  "attr_rec_bytes r = u16_bytes (w_attrID r) @ [w_dataType r] @
     vtake (unat (zcl_getAttrSize (w_dataType r) (w_attrData r))) (w_attrData r)"

definition zcl_writeReq ::
  "zenv \<Rightarrow> u8 \<Rightarrow> epInfo_t \<Rightarrow> u16 \<Rightarrow> u16 \<Rightarrow> u8 \<Rightarrow> u8 \<Rightarrow> u8 \<Rightarrow> u8 \<Rightarrow> zclWriteRec_t list \<Rightarrow> zst \<Rightarrow> u8 \<times> zst" where
  "zcl_writeReq env srcEp dst clusterId manu cmd disableDefaultRsp direction seqNo recs s =
     (let len = writeReq_len recs in
      zcl_sendBuf env srcEp dst clusterId cmd direction disableDefaultRsp manu seqNo
        len len (concat (map attr_rec_bytes recs)) s)"

text \<open>A response to a command that wrote everything is cut to its first byte.\<close>

definition writeRsp_rec :: "u8 \<times> u16 \<Rightarrow> bytes" where
  "writeRsp_rec r = fst r # u16_bytes (snd r)"

definition zcl_writeRsp ::
  "zenv \<Rightarrow> u8 \<Rightarrow> epInfo_t \<Rightarrow> u16 \<Rightarrow> u16 \<Rightarrow> u8 \<Rightarrow> u8 \<Rightarrow> u8 \<Rightarrow> (u8 \<times> u16) list \<Rightarrow> zst \<Rightarrow> u8 \<times> zst" where
  "zcl_writeRsp env srcEp dst clusterId manu disableDefaultRsp direction seqNo recs s =
     (let len = of_nat (length recs) * 3;
          sendLen = (if length recs = 1 \<and> fst (hd recs) = ZCL_STA_SUCCESS then 1 else len) in
      zcl_sendBuf env srcEp dst clusterId ZCL_CMD_WRITE_RSP direction disableDefaultRsp manu seqNo
        len sendLen (concat (map writeRsp_rec recs)) s)"

subsection \<open>Parsing\<close>

definition zcl_parseInWriteRspCmd ::
  "zclIncoming_t \<Rightarrow> zst \<Rightarrow> (ptr \<times> (u8 \<times> u16) list) option \<times> zst" where
  "zcl_parseInWriteRspCmd m s =
     (let numAttr = (if dataLen m = 1 then 1 else ucast (dataLen m div 3)) :: u8;
          len = 1 + ucast numAttr * 3 in
      case zalloc len s of
        (None, s1) \<Rightarrow> (None, s1)
      | (Some p, s1) \<Rightarrow>
          (let v = pData m;
               recs = (if dataLen m = 1 then [(v 0, 0xFFFF)]
                       else map (\<lambda>i. (v (3 * i), get_u16 (vdrop (3 * i + 1) v))) [0..<unat numAttr]) in
           (Some (p, recs), buf_touch p (1 + 3 * length recs) s1)))"

function write_scan :: "view \<Rightarrow> nat \<Rightarrow> nat \<Rightarrow> u8 \<Rightarrow> u16 \<Rightarrow> u8 \<times> u16" where
  "write_scan v i end numAttr dLen =
     (if i < end then
        let n = zcl_getAttrSize (v (i + 2)) (vdrop (i + 3) v) in
        write_scan v (i + 3 + unat n) end (numAttr + 1) (dLen + n)
      else (numAttr, dLen))"
  by pat_completeness auto
termination by (relation "measure (\<lambda>(_, i, e, _). e - i)") (auto simp: Let_def)

fun write_fill :: "view \<Rightarrow> nat \<Rightarrow> view \<Rightarrow> bytes \<times> zclWriteRec_t list" where
  "write_fill junk 0 v = ([], [])"
| "write_fill junk (Suc k) v =
     (let n = unat (zcl_getAttrSize (v 2) (vdrop 3 v));
          (rest, rs) = write_fill junk k (vdrop (3 + n) v);
          d = vtake n (vdrop 3 v) @ rest in
      (d, \<lparr>w_attrID = get_u16 v, w_dataType = v 2, w_attrData = lview d junk\<rparr> # rs))"

definition zcl_parseInWriteCmd ::
  "zenv \<Rightarrow> zclIncoming_t \<Rightarrow> zst \<Rightarrow> (ptr \<times> zclWriteRec_t list) option \<times> zst" where
  "zcl_parseInWriteCmd env m s =
     (let (numAttr, dLen) = write_scan (pData m) 0 (unat (dataLen m)) 0 0;
          len = 1 + ucast numAttr * 7 in
      case zalloc (len + dLen) s of
        (None, s1) \<Rightarrow> (None, s1)
      | (Some p, s1) \<Rightarrow>
          (let (area, recs) = write_fill (uninit env) (unat numAttr) (pData m) in
           (Some (p, recs), buf_touch p (unat len + length area) s1)))"

subsection \<open>Handlers\<close>

definition zcl_writeRspHandler ::
  "zenv \<Rightarrow> zclIncoming_t \<Rightarrow> zst \<Rightarrow> u8 \<times> zclIncoming_t \<times> zst" where
  "zcl_writeRspHandler env m s =
     (case zcl_parseInWriteRspCmd m s of
        (None, s1) \<Rightarrow> (ZCL_STA_INSUFFICIENT_SPACE, m, s1)
      | (Some (p, recs), s1) \<Rightarrow> (ZCL_STA_SUCCESS, set_attrCmd p (WriteRspCmd recs) m, s1))"

text \<open>The loop of \<^verbatim>\<open>zcl_writeHandler\<close>: the failures it collects and the number of successes.\<close>

fun write_loop ::
  "u8 \<Rightarrow> u16 \<Rightarrow> zclWriteRec_t list \<Rightarrow> nat \<Rightarrow> (u8 \<times> u16) list \<Rightarrow> zst \<Rightarrow> nat \<times> (u8 \<times> u16) list \<times> zst" where
  "write_loop ep clusterId [] succ fails s = (succ, fails, s)"
| "write_loop ep clusterId (r # rs) succ fails s =
     (let (status, s') = zcl_attrWrite ep clusterId r True s in
      if status = ZCL_STA_SUCCESS then write_loop ep clusterId rs (succ + 1) fails s'
      else write_loop ep clusterId rs succ (fails @ [(status, w_attrID r)]) s')"

definition zcl_writeHandler ::
  "zenv \<Rightarrow> zclIncoming_t \<Rightarrow> zst \<Rightarrow> u8 \<times> zclIncoming_t \<times> zst" where
  "zcl_writeHandler env m s =
     (let clusterId = i_cluster_id (indInfo (msg m));
          ep = i_dst_ep (indInfo (msg m)) in
      case zcl_parseInWriteCmd env m s of
        (None, s1) \<Rightarrow> (ZCL_STA_INSUFFICIENT_SPACE, m, s1)
      | (Some (p, recs), s1) \<Rightarrow>
          (let m1 = set_attrCmd p (WriteCmd recs) m in
           if h_cmd (hdr m) = ZCL_CMD_WRITE then
             (case zalloc (1 + of_nat (length recs) * 3) s1 of
                (None, s2) \<Rightarrow> (ZCL_STA_INSUFFICIENT_SPACE, m1, s2)
              | (Some q, s2) \<Rightarrow>
                  (let (succ, fails, s3) = write_loop ep clusterId recs 0 [] s2;
                       rsp = (if length recs = succ
                              then [(ZCL_STA_SUCCESS, get_u16 (uninit env))] else fails);
                       s4 = buf_touch q (1 + 3 * length rsp) s3;
                       (status, s5) = zcl_writeRsp env ep (reply_ep m APS_TX_OPT_ACK_TX) clusterId
                         (h_manufCode (hdr m)) 1 (not_dir m) (h_seqNum (hdr m)) rsp s4;
                       s6 = zfree q s5 in
                   (if status = ZCL_STA_SUCCESS then ZCL_STA_CMD_HAS_RESP else status, m1, s6)))
           else
             (let (_, _, s3) = write_loop ep clusterId recs 0 [] s1 in
              (ZCL_STA_CMD_HAS_RESP, m1, s3))))"

text \<open>The two loops of \<^verbatim>\<open>zcl_writeUndividedHandler\<close>: a dry run of every write, then the
  writes, whose statuses are not looked at.\<close>

definition write_check :: "u8 \<Rightarrow> u16 \<Rightarrow> zst \<Rightarrow> zclWriteRec_t \<Rightarrow> u8 \<times> u16" where
  "write_check ep clusterId s r = (fst (zcl_attrWrite ep clusterId r False s), w_attrID r)"

definition write_all :: "u8 \<Rightarrow> u16 \<Rightarrow> zclWriteRec_t list \<Rightarrow> zst \<Rightarrow> zst" where
  "write_all ep clusterId recs s = fold (\<lambda>r s. snd (zcl_attrWrite ep clusterId r True s)) recs s"

definition zcl_writeUndividedHandler ::
  "zenv \<Rightarrow> zclIncoming_t \<Rightarrow> zst \<Rightarrow> u8 \<times> zclIncoming_t \<times> zst" where
  "zcl_writeUndividedHandler env m s =
     (let clusterId = i_cluster_id (indInfo (msg m));
          ep = i_dst_ep (indInfo (msg m)) in
      case zcl_parseInWriteCmd env m s of
        (None, s1) \<Rightarrow> (ZCL_STA_INSUFFICIENT_SPACE, m, s1)
      | (Some (p, recs), s1) \<Rightarrow>
          (let m1 = set_attrCmd p (WriteCmd recs) m in
           case zalloc (1 + of_nat (length recs) * 3) s1 of
             (None, s2) \<Rightarrow> (ZCL_STA_INSUFFICIENT_SPACE, m1, s2)
           | (Some q, s2) \<Rightarrow>
               (let checks = map (write_check ep clusterId s2) recs;
                    s3 = buf_touch q (1 + 3 * length checks) s2;
                    needWrite = list_all (\<lambda>c. fst c = ZCL_STA_SUCCESS) checks;
                    s4 = (if needWrite then write_all ep clusterId recs s3 else s3);
                    rsp = (if needWrite
                           then [(ZCL_STA_SUCCESS,
                                  case checks of [] \<Rightarrow> get_u16 (uninit env) | c # _ \<Rightarrow> snd c)]
                           else checks);
                    s5 = buf_touch q (1 + 3 * length rsp) s4;
                    (status, s6) = zcl_writeRsp env ep (reply_ep m 0) clusterId
                      (h_manufCode (hdr m)) 1 (not_dir m) (h_seqNum (hdr m)) rsp s5;
                    s7 = zfree q s6 in
                (if status = ZCL_STA_SUCCESS then ZCL_STA_CMD_HAS_RESP else status, m1, s7))))"

declare write_scan.simps [simp del]


subsection \<open>Blocks\<close>

lemma parseInWriteRspCmd_holds [pool_effects]:
  "zcl_parseInWriteRspCmd m s = (r, s') \<Longrightarrow> holds s (map_option fst r) s'"
  by (auto simp: zcl_parseInWriteRspCmd_def Let_def split: handled_splits
      dest!: holds_alloc intro: holds_touch)

lemma parseInWriteCmd_holds [pool_effects]:
  "zcl_parseInWriteCmd env m s = (r, s') \<Longrightarrow> holds s (map_option fst r) s'"
  by (auto simp: zcl_parseInWriteCmd_def Let_def split: handled_splits
      dest!: holds_alloc intro: holds_touch)

lemma writeRsp_effect:
  assumes "zcl_writeRsp env srcEp dst cl manu dis dir seq recs s = (st, s')"
  shows "only_sent s s'" "no_leak s s'"
  using sendBuf_effect(1,3) [OF assms [unfolded zcl_writeRsp_def Let_def]] by simp_all

lemmas [pool_effects] = writeRsp_effect(2)

text \<open>Writing an attribute changes the memory and nothing else.\<close>

lemma setAttrVal_ram: "zcl_setAttrVal ep c a v s = (st, s') \<Longrightarrow> s' = s\<lparr>ram := ram s'\<rparr>"
  by (auto simp: zcl_setAttrVal_def Let_def split: option.splits)

lemma attrWrite_ram: "zcl_attrWrite ep c r en s = (st, s') \<Longrightarrow> s' = s\<lparr>ram := ram s'\<rparr>"
  by (auto simp: zcl_attrWrite_def split: option.splits if_splits dest: setAttrVal_ram)

lemma ram_trans: "s1 = s\<lparr>ram := ram s1\<rparr> \<Longrightarrow> s2 = s1\<lparr>ram := ram s2\<rparr> \<Longrightarrow> s2 = s\<lparr>ram := ram s2\<rparr>"
  by (cases s; cases s1; cases s2) simp

lemma write_loop_ram: "write_loop ep c rs k fs s = (k', fs', s') \<Longrightarrow> s' = s\<lparr>ram := ram s'\<rparr>"
proof (induction rs arbitrary: k fs s)
  case (Cons r rs)
  obtain st s1 where w: "zcl_attrWrite ep c r True s = (st, s1)" by fastforce
  then have "s' = s1\<lparr>ram := ram s'\<rparr>"
    using Cons.prems Cons.IH by (auto split: if_splits)
  with attrWrite_ram [OF w] show ?case by (rule ram_trans)
qed simp

lemma write_all_ram: "write_all ep c rs s = s\<lparr>ram := ram (write_all ep c rs s)\<rparr>"
proof (induction rs arbitrary: s)
  case Nil
  then show ?case by (simp add: write_all_def)
next
  case (Cons r rs)
  obtain st s1 where w: "zcl_attrWrite ep c r True s = (st, s1)" by fastforce
  then have e: "write_all ep c (r # rs) s = write_all ep c rs s1" by (simp add: write_all_def)
  show ?case unfolding e by (rule ram_trans [OF attrWrite_ram [OF w] Cons.IH])
qed

lemma no_leak_ram:
  assumes "s' = s\<lparr>ram := ram s'\<rparr>"
  shows "no_leak s s'"
  using arg_cong [OF assms, of pool] arg_cong [OF assms, of hookFn] arg_cong [OF assms, of ub]
  by (intro no_leak_eq) simp_all

lemma write_loop_pool [pool_effects]: "write_loop ep c rs k fs s = (k', fs', s') \<Longrightarrow> no_leak s s'"
  by (rule no_leak_ram, rule write_loop_ram)

lemma write_all_pool [simp]:
  "pool (write_all ep c rs s) = pool s" "hookFn (write_all ep c rs s) = hookFn s"
  "ub (write_all ep c rs s) = ub s"
  using arg_cong [OF write_all_ram, of pool] arg_cong [OF write_all_ram, of hookFn]
    arg_cong [OF write_all_ram, of ub] by simp_all

lemma writeRspHandler_handled [pool_effects]:
  "zcl_writeRspHandler env m s = (st, m', s') \<Longrightarrow> handled m s m' s'"
  by (auto simp: zcl_writeRspHandler_def set_attrCmd_def split: handled_splits
      dest!: pool_effects intro!: handled_rules)

lemma writeHandler_handled [pool_effects]:
  "zcl_writeHandler env m s = (st, m', s') \<Longrightarrow> handled m s m' s'"
  by (auto simp: zcl_writeHandler_def Let_def set_attrCmd_def split: handled_splits
      dest!: pool_effects intro!: handled_rules intro: answer_rules)

lemma no_leak_write_all [simp]: "no_leak (write_all ep c rs s) s' \<longleftrightarrow> no_leak s s'"
  by (simp add: no_leak_def same_pool_def)

lemma writeUndividedHandler_handled [pool_effects]:
  "zcl_writeUndividedHandler env m s = (st, m', s') \<Longrightarrow> handled m s m' s'"
  by (auto simp: zcl_writeUndividedHandler_def Let_def set_attrCmd_def split: handled_splits
      dest!: pool_effects intro!: handled_rules intro: answer_rules)

subsection \<open>The records are read back\<close>

definition write_wf :: "zclWriteRec_t \<Rightarrow> bool" where
  "write_wf r \<longleftrightarrow> size_fits (w_dataType r) (w_attrData r)"

definition write_val :: "zclWriteRec_t \<Rightarrow> bytes" where
  "write_val r = vtake (unat (zcl_getAttrSize (w_dataType r) (w_attrData r))) (w_attrData r)"

definition write_same :: "zclWriteRec_t \<Rightarrow> zclWriteRec_t \<Rightarrow> bool" where
  \<comment> \<open>the same attribute, type and value\<close>
  "write_same r r' \<longleftrightarrow> w_attrID r' = w_attrID r \<and> w_dataType r' = w_dataType r \<and> write_val r' = write_val r"

definition write_payload :: "zclWriteRec_t list \<Rightarrow> bytes" where
  "write_payload recs = concat (map attr_rec_bytes recs)"

lemma write_payload_simps [simp]:
  "write_payload [] = []" "write_payload (r # rs) = attr_rec_bytes r @ write_payload rs"
  by (simp_all add: write_payload_def)

lemma attr_rec_shape:
  "attr_rec_bytes r = [LO_UINT16 (w_attrID r), HI_UINT16 (w_attrID r), w_dataType r] @ write_val r"
  by (simp add: attr_rec_bytes_def write_val_def u16_bytes_def)

lemma length_write_payload:
  "length (write_payload recs) = 3 * length recs + length (concat (map write_val recs))"
  by (induction recs) (simp_all add: attr_rec_shape)

lemma write_at:
  assumes "write_wf r" and v: "v = lview (attr_rec_bytes r @ ys) rest"
  shows "get_u16 v = w_attrID r" "v 2 = w_dataType r"
    "unat (zcl_getAttrSize (v 2) (vdrop 3 v)) = length (write_val r)"
    "vtake (length (write_val r)) (vdrop 3 v) = write_val r"
    "vdrop (3 + length (write_val r)) v = lview ys rest"
proof -
  have v3: "vdrop 3 v = lview (write_val r @ ys) rest"
    by (simp add: v attr_rec_shape numeral_eq_Suc)
  show "get_u16 v = w_attrID r" by (simp add: v attr_rec_shape get_u16_def)
  show t: "v 2 = w_dataType r" by (simp add: v attr_rec_shape numeral_eq_Suc)
  show "unat (zcl_getAttrSize (v 2) (vdrop 3 v)) = length (write_val r)"
    unfolding t v3 write_val_def using copy_size [OF assms(1) [unfolded write_wf_def]] by simp
  show "vtake (length (write_val r)) (vdrop 3 v) = write_val r" unfolding v3 by simp
  show "vdrop (3 + length (write_val r)) v = lview ys rest"
    using vdrop_vdrop [of "length (write_val r)" 3 v] unfolding v3 by simp
qed

lemma write_scan_payload:
  "\<forall>r \<in> set recs. write_wf r \<Longrightarrow> vdrop i v = lview (write_payload recs) rest \<Longrightarrow>
   write_scan v i (i + length (write_payload recs)) k d =
     (k + of_nat (length recs), d + of_nat (length (concat (map write_val recs))))"
proof (induction recs arbitrary: i k d)
  case Nil
  then show ?case by (subst write_scan.simps) simp
next
  case (Cons r rs)
  let ?L = "length (write_payload rs)"
  have wf: "write_wf r" using Cons.prems(1) by simp
  have vi: "vdrop i v = lview (attr_rec_bytes r @ write_payload rs) rest"
    using Cons.prems(2) by (simp only: write_payload_simps)
  note at = write_at [OF wf vi]
  let ?n = "zcl_getAttrSize (v (i + 2)) (vdrop (i + 3) v)"
  have z: "unat ?n = length (write_val r)" using at(3) by simp
  have z': "?n = of_nat (length (write_val r))" by (rule eq_of_nat_unat [OF z])
  have n: "vdrop (i + 3 + unat ?n) v = lview (write_payload rs) rest"
    using at(5) unfolding z by (simp add: add.assoc)
  have e: "i + length (write_payload (r # rs)) = i + 3 + unat ?n + ?L"
    using z by (simp add: attr_rec_shape)
  have "write_scan v i (i + length (write_payload (r # rs))) k d
      = write_scan v (i + 3 + unat ?n) (i + 3 + unat ?n + ?L) (k + 1) (d + ?n)"
    unfolding e by (subst write_scan.simps) (simp add: Let_def)
  also have "\<dots> = (k + 1 + of_nat (length rs), d + ?n + of_nat (length (concat (map write_val rs))))"
    using Cons.IH [OF _ n] Cons.prems(1) by simp
  finally show ?case unfolding z' by (simp add: add.assoc)
qed

lemma write_fill_payload:
  "\<forall>r \<in> set recs. write_wf r \<Longrightarrow> v = lview (write_payload recs) rest \<Longrightarrow>
   fst (write_fill junk (length recs) v) = concat (map write_val recs) \<and>
   list_all2 write_same recs (snd (write_fill junk (length recs) v))"
proof (induction recs arbitrary: v)
  case (Cons r rs)
  have wf: "write_wf r" using Cons.prems(1) by simp
  have v: "v = lview (attr_rec_bytes r @ write_payload rs) rest"
    using Cons.prems(2) by (simp only: write_payload_simps)
  note at = write_at [OF wf v]
  let ?f = "write_fill junk (length rs) (vdrop (3 + length (write_val r)) v)"
  have ih: "fst ?f = concat (map write_val rs)" "list_all2 write_same rs (snd ?f)"
    using Cons.IH [of "vdrop (3 + length (write_val r)) v"] at(5) Cons.prems(1) by simp_all
  let ?r = "\<lparr>w_attrID = w_attrID r, w_dataType = w_dataType r,
    w_attrData = lview (write_val r @ fst ?f) junk\<rparr>"
  have "zcl_getAttrSize (w_dataType r) (lview (write_val r @ fst ?f) junk)
      = zcl_getAttrSize (w_dataType r) (w_attrData r)"
    unfolding write_val_def by (rule copy_size) (use wf in \<open>simp add: write_wf_def\<close>)
  then have "write_same r ?r"
    using vtake_lview_append [of "write_val r" "fst ?f" junk] by (simp add: write_same_def write_val_def)
  moreover have "write_fill junk (length (r # rs)) v = (write_val r @ fst ?f, ?r # snd ?f)"
    using at(1-4) by (simp add: Let_def split_beta)
  ultimately show ?case using ih by simp
qed simp

text \<open>Both parsers of such records size their block by the first pass and fill it in the second.\<close>

lemma parse_records:
  assumes "\<forall>r \<in> set recs. write_wf r" "length recs < 256" "length (write_payload recs) < 60000"
    "pData m = lview (write_payload recs) rest" "dataLen m = of_nat (length (write_payload recs))"
    "zok s" "zcl_parseInWriteCmd env m s = (Some (p, recs'), s')"
  shows "list_all2 write_same recs recs' \<and> ub s' = ub s"
proof -
  let ?vals = "concat (map write_val recs)"
  have n: "unat (dataLen m) = length (write_payload recs)"
    using assms(3,5) by (simp add: unat_of_nat_u16)
  have num: "unat (of_nat (length recs) :: u8) = length recs"
    using assms(2) by (simp add: unsigned_of_nat take_bit_nat_eq_self)
  have sc: "write_scan (pData m) 0 (unat (dataLen m)) 0 0 = (of_nat (length recs), of_nat (length ?vals))"
    using write_scan_payload [OF assms(1), of 0 "pData m" rest 0 0] assms(4) n by simp
  let ?len = "1 + ucast (of_nat (length recs) :: u8) * 7 :: u16"
  have len: "unat ?len = 1 + 7 * length recs" using assms(2) num by (simp add: unat_word_ariths)
  have vl: "length ?vals < 60000" using length_write_payload [of recs] assms(3) by simp
  have tot: "unat (?len + of_nat (length ?vals)) = 1 + 7 * length recs + length ?vals"
    using len vl assms(2) by (simp add: unat_word_ariths unat_of_nat_u16)
  obtain r1 s1 where a: "zalloc (?len + of_nat (length ?vals)) s = (r1, s1)" by fastforce
  have r1: "r1 = Some p" "recs' = snd (write_fill (uninit env) (length recs) (pData m))"
    "s' = buf_touch p (unat ?len + length (fst (write_fill (uninit env) (length recs) (pData m)))) s1"
    using assms(7) a unfolding zcl_parseInWriteCmd_def sc
    by (auto simp: Let_def num split: option.splits prod.splits)
  have "unat (?len + of_nat (length ?vals)) \<le> capacity p"
    using zb.alloc_new [OF assms(6) a [unfolded r1(1)]] by simp
  then show ?thesis
    using write_fill_payload [OF assms(1,4)] r1(2,3) zalloc_fields [OF a] tot len
    by (simp add: buf_touch_def)
qed

text \<open>A write request survives transmission: from exactly the bytes \<^verbatim>\<open>zcl_writeReq\<close> builds, the
  parser of the receiver returns the same number of records with the same attributes, types and
  values, and writes inside its block only.\<close>

theorem write_roundtrip:
  assumes "\<forall>r \<in> set recs. write_wf r" "length recs < 256" "length (write_payload recs) < 60000"
    "pData m = lview (write_payload recs) rest" "dataLen m = of_nat (length (write_payload recs))"
    "pool_ok (pool s)" "zcl_parseInWriteCmd env m s = (Some (p, recs'), s')"
  shows "list_all2 write_same recs recs' \<and> ub s' = ub s"
  by (rule parse_records [OF assms])

definition ex_writes :: "zclWriteRec_t list" where
  "ex_writes = [ex_write, \<lparr>w_attrID = 0x0012, w_dataType = ZCL_DATA_TYPE_BOOLEAN, w_attrData = lview [0] (\<lambda>_. 0)\<rparr>]"

lemma ex_writes_payload: "write_payload ex_writes = [0x10, 0, 0x42, 2, 0x68, 0x69, 0x12, 0, 0x10, 0]"
  by code_simp

lemma write_roundtrip_witness:
  "\<exists>p recs' s'. zcl_parseInWriteCmd ex_env (ex_in 0 (write_payload ex_writes)) ex_state = (Some (p, recs'), s') \<and>
     list_all2 write_same ex_writes recs'"
proof -
  let ?m = "ex_in 0 (write_payload ex_writes)"
  have "fst (zcl_parseInWriteCmd ex_env ?m ex_state) \<noteq> None" by code_simp
  then obtain p recs' s' where p: "zcl_parseInWriteCmd ex_env ?m ex_state = (Some (p, recs'), s')"
    by (metis not_None_eq prod.exhaust_sel)
  have w: "\<forall>r \<in> set ex_writes. write_wf r"
    by (simp add: ex_writes_def ex_write_def write_wf_def size_fits_def)
  have l: "length ex_writes < 256" "length (write_payload ex_writes) < 60000"
    by (simp_all add: ex_writes_payload) (simp add: ex_writes_def)
  from write_roundtrip [OF w l _ _ _ p, of "\<lambda>_. 0"] p show ?thesis
    by (auto simp: ex_in_def)
qed

text \<open>C19. A write request of five bytes can overrun a block by 65 kilobytes. The size of a long
  string is added in 16 bits to the size of the records, so a length field of \<^verbatim>\<open>0xFFF8\<close> makes the
  parser ask for two bytes, copy 65530 behind its records, and accept the request: whenever the
  small block is available, the parser writes outside it, whatever the state and the
  bytes behind the frame are.\<close>

theorem write_parse_overrun:
  assumes "pool_ok (pool s)" "fst (ev_buf_allocate 2 (pool s)) \<noteq> None"
    "dataLen m = 5" "pData m = lview [a, b, ZCL_DATA_TYPE_LONG_OCTET_STR, 0xF8, 0xFF] rest"
  shows "\<exists>p recs s'. zcl_parseInWriteCmd env m s = (Some (p, recs), s') \<and> ub s'"
proof -
  have v: "pData m 2 = ZCL_DATA_TYPE_LONG_OCTET_STR" "pData m 3 = 0xF8" "pData m 4 = 0xFF"
    by (simp_all add: assms(4) lview_def)
  have sz: "zcl_getAttrSize (pData m 2) (vdrop 3 (pData m)) = 65530"
    using v by (simp add: zcl_getAttrSize_def BUILD_U16_def)
  have sc: "write_scan (pData m) 0 5 0 0 = (1, 65530)"
  proof -
    have "zcl_getAttrSize (pData m (0 + 2)) (vdrop (0 + 3) (pData m)) = 65530"
      using sz by (simp only: add_0_left)
    then have "write_scan (pData m) 0 5 0 0 = write_scan (pData m) (0 + 3 + unat (65530 :: u16)) 5 (0 + 1) (0 + 65530)"
      by (subst write_scan.simps) (simp only: Let_def if_True zero_less_numeral)
    then show ?thesis by (simp add: write_scan.simps [of "pData m" 65533])
  qed
  let ?f = "write_fill (uninit env) 1 (pData m)"
  have len: "length (fst ?f) = 65530"
    using sz by (simp add: Let_def split_beta)
  obtain p s1 where a: "zalloc 2 s = (Some p, s1)"
    using assms(2) by (cases "ev_buf_allocate 2 (pool s)") (auto simp: zalloc_def)
  have "capacity p \<le> 504"
  proof -
    have "ev_buf_allocate 2 (pool s) = (Some p, pool s1)" using zalloc_eq [OF a] by simp
    then have "is_ev_buf p" using alloc_live [OF assms(1)] by blast
    then obtain g where "g < 4" "p \<in> blocks g" by (auto simp: is_ev_buf_iff)
    then show ?thesis using capacity_blocks [of p g] group_size_bound [of g] by (auto simp: EV_BUF_HDR_def)
  qed
  then have "ub (buf_touch p (8 + length (fst ?f)) s1)" unfolding len by (simp add: buf_touch_def)
  moreover have "zcl_parseInWriteCmd env m s = (Some (p, snd ?f), buf_touch p (8 + length (fst ?f)) s1)"
  proof -
    have w: "(65538 :: u16) = 2" by simp
    show ?thesis
      using sc assms(3) a
      by (simp add: zcl_parseInWriteCmd_def w split_beta del: write_fill.simps)
  qed
  ultimately show ?thesis by blast
qed

lemma write_parse_overrun_witness:
  "\<exists>p recs s'. zcl_parseInWriteCmd ex_env (ex_in 0 [0x10, 0, 0x43, 0xF8, 0xFF]) ex_state
     = (Some (p, recs), s') \<and> ub s'"
proof -
  have "fst (ev_buf_allocate 2 (pool ex_state)) \<noteq> None" by code_simp
  from write_parse_overrun [OF ex_state_ok(1) this, of "ex_in 0 [0x10, 0, 0x43, 0xF8, 0xFF]" _ _ "\<lambda>_. 0"]
  show ?thesis by (simp add: ex_in_def)
qed

subsection \<open>What a write request does\<close>

text \<open>The statuses of the records, each written in the state the earlier ones left.\<close>

fun write_statuses :: "u8 \<Rightarrow> u16 \<Rightarrow> zclWriteRec_t list \<Rightarrow> zst \<Rightarrow> (u8 \<times> u16) list" where
  "write_statuses ep c [] s = []"
| "write_statuses ep c (r # rs) s =
     (fst (zcl_attrWrite ep c r True s), w_attrID r)
       # write_statuses ep c rs (snd (zcl_attrWrite ep c r True s))"

definition write_failed :: "u8 \<times> u16 \<Rightarrow> bool" where
  "write_failed x \<longleftrightarrow> fst x \<noteq> ZCL_STA_SUCCESS"

lemma write_all_simps [simp]:
  "write_all ep c [] s = s"
  "write_all ep c (r # rs) s = write_all ep c rs (snd (zcl_attrWrite ep c r True s))"
  by (simp_all add: write_all_def)

lemma length_write_statuses [simp]: "length (write_statuses ep c rs s) = length rs"
  by (induction rs arbitrary: s) simp_all

lemma write_loop_spec:
  "write_loop ep c rs k fs s =
     (k + length (filter (\<lambda>x. \<not> write_failed x) (write_statuses ep c rs s)),
      fs @ filter write_failed (write_statuses ep c rs s), write_all ep c rs s)"
  by (induction rs arbitrary: k fs s) (simp_all add: write_failed_def split_beta)

lemma no_failures_iff: "length xs = length (filter (\<lambda>x. \<not> P x) xs) \<longleftrightarrow> filter P xs = []"
  using sum_length_filter_compl [of P xs] by auto

definition write_response :: "(u8 \<times> u16) list \<Rightarrow> bytes" where
  "write_response sts = (if filter write_failed sts = [] then [ZCL_STA_SUCCESS]
     else concat (map writeRsp_rec (filter write_failed sts)))"

text \<open>Writing looks at the registry and at the memory only.\<close>

lemma attrWrite_cong:
  assumes "clusterList s' = clusterList s" "ram s' = ram s"
  shows "fst (zcl_attrWrite ep c r en s') = fst (zcl_attrWrite ep c r en s)"
    "ram (snd (zcl_attrWrite ep c r en s')) = ram (snd (zcl_attrWrite ep c r en s))"
    "clusterList (snd (zcl_attrWrite ep c r en s')) = clusterList (snd (zcl_attrWrite ep c r en s))"
  using assms
  by (auto simp: zcl_attrWrite_def zcl_setAttrVal_def zcl_findAttribute_def zcl_findCluster_def Let_def
      split: option.splits)

lemma write_all_cong:
  "clusterList s' = clusterList s \<Longrightarrow> ram s' = ram s \<Longrightarrow>
     ram (write_all ep c rs s') = ram (write_all ep c rs s) \<and>
     write_statuses ep c rs s' = write_statuses ep c rs s"
proof (induction rs arbitrary: s s')
  case (Cons r rs)
  from Cons.IH [OF attrWrite_cong(3,2) [OF Cons.prems]] attrWrite_cong(1) [OF Cons.prems]
  show ?case by simp
qed simp

lemma write_all_fields [simp]:
  "clusterList (write_all ep c rs s) = clusterList s" "ub (write_all ep c rs s) = ub s"
  "T_sent (write_all ep c rs s) = T_sent s"
  using arg_cong [OF write_all_ram, of clusterList] arg_cong [OF write_all_ram, of ub]
    arg_cong [OF write_all_ram, of T_sent] by simp_all

lemma length_write_fill: "length (snd (write_fill junk k v)) = k"
  by (induction k arbitrary: v) (simp_all add: Let_def split_beta)

lemma parseInWriteCmd_state:
  assumes "zcl_parseInWriteCmd env m s = (r, s')"
  shows "only_sent s s'" "T_sent s' = T_sent s" "zok s \<Longrightarrow> zok s'"
    "r = Some (p, recs) \<Longrightarrow> length recs < 256"
proof -
  obtain n d where sc: "write_scan (pData m) 0 (unat (dataLen m)) 0 0 = (n, d)" by fastforce
  let ?l = "1 + ucast n * 7 + d"
  obtain r1 s1 where a: "zalloc ?l s = (r1, s1)" by fastforce
  have "s' = s1 \<or> (\<exists>p k. s' = buf_touch p k s1)"
    using assms a by (auto simp: zcl_parseInWriteCmd_def sc Let_def split: option.splits prod.splits)
  then show "only_sent s s'" "T_sent s' = T_sent s" "zok s \<Longrightarrow> zok s'"
    using only_sent_zalloc [OF a] zalloc_fields [OF a] zb.alloc_inv [OF _ a]
      only_sent_trans [OF only_sent_zalloc [OF a] only_sent_buf_touch]
    by (auto simp: buf_touch_def)
  assume "r = Some (p, recs)"
  then have "recs = snd (write_fill (uninit env) (unat n) (pData m))"
    using assms a by (auto simp: zcl_parseInWriteCmd_def sc Let_def split: option.splits prod.splits)
  then show "length recs < 256"
    using unsigned_less [of n, where ?'a = nat] by (simp add: length_write_fill)
qed

lemma zalloc_block:
  assumes "zok s" "zalloc n s = (Some p, s')"
  shows "16 \<le> capacity p" "unat n \<le> capacity p"
proof -
  have "ev_buf_allocate n (pool s) = (Some p, pool s')" using zalloc_eq [OF assms(2)] by simp
  then have "is_ev_buf p" using alloc_live [OF assms(1)] by blast
  then obtain g where g: "g < 4" "p \<in> blocks g" by (auto simp: is_ev_buf_iff)
  then show "16 \<le> capacity p"
    using capacity_blocks [OF g(2)] group_size_mono [of 0 g] by (simp add: EV_BUF_HDR_def BUFFER_GROUPS_def)
  show "unat n \<le> capacity p" using zb.alloc_new [OF assms] by simp
qed

text \<open>What \<^verbatim>\<open>zcl_writeRsp\<close> sends.\<close>

lemma length_writeRsp [simp]: "length (concat (map writeRsp_rec recs)) = 3 * length recs"
  by (induction recs) (simp_all add: writeRsp_rec_def)

lemma writeRsp_sends:
  assumes "zcl_writeRsp env ep dst cl manu dis dir seqNo recs s = (st, s')" "zok s" "length recs < 256"
  defines "bs \<equiv> if length recs = 1 \<and> fst (hd recs) = ZCL_STA_SUCCESS then [ZCL_STA_SUCCESS]
     else concat (map writeRsp_rec recs)"
  shows "ub s' = ub s" "st = ZCL_STA_SUCCESS \<or> st = ZCL_STA_INSUFFICIENT_SPACE"
    "st = ZCL_STA_SUCCESS \<Longrightarrow> T_sent s' =
       sent_frame ep dst cl (zcl_buildHdr 0 dir dis manu seqNo ZCL_CMD_WRITE_RSP @ bs) # T_sent s"
proof -
  let ?all = "concat (map writeRsp_rec recs)"
  let ?one = "length recs = 1 \<and> fst (hd recs) = ZCL_STA_SUCCESS"
  define rest where "rest = (if ?one then u16_bytes (snd (hd recs)) else [])"
  have split: "?all = bs @ rest"
    unfolding bs_def rest_def by (cases recs; cases "tl recs") (auto simp: writeRsp_rec_def)
  have len: "of_nat (length recs) * 3 = (of_nat (length (bs @ rest)) :: u16)"
    unfolding split [symmetric] by simp
  have cut: "(if ?one then 1 else of_nat (length recs) * 3) = (of_nat (length bs) :: u16)"
    by (simp add: bs_def)
  have sb: "zcl_sendBuf env ep dst cl ZCL_CMD_WRITE_RSP dir dis manu seqNo (of_nat (length (bs @ rest)))
      (of_nat (length bs)) (bs @ rest) s = (st, s')"
    using assms(1) unfolding zcl_writeRsp_def Let_def cut unfolding len split .
  have "length (bs @ rest) < 65530" unfolding split [symmetric] using assms(3) by simp
  from sendBuf_sends_cut [OF sb refl refl this assms(2)]
  show "ub s' = ub s" "st = ZCL_STA_SUCCESS \<or> st = ZCL_STA_INSUFFICIENT_SPACE"
    "st = ZCL_STA_SUCCESS \<Longrightarrow> T_sent s' =
       sent_frame ep dst cl (zcl_buildHdr 0 dir dis manu seqNo ZCL_CMD_WRITE_RSP @ bs) # T_sent s" by auto
qed

lemma write_response_recs:
  assumes "rsp = (if filter write_failed sts = [] then [(ZCL_STA_SUCCESS, x)] else filter write_failed sts)"
  shows "(if length rsp = 1 \<and> fst (hd rsp) = ZCL_STA_SUCCESS then [ZCL_STA_SUCCESS]
     else concat (map writeRsp_rec rsp)) = write_response sts"
proof (cases "filter write_failed sts")
  case (Cons y ys)
  have "y \<in> set (filter write_failed sts)" unfolding Cons by simp
  then have "write_failed y" by simp
  with Cons show ?thesis by (simp add: assms write_response_def write_failed_def)
qed (simp add: assms write_response_def)

definition write_rsp_frame :: "zclIncoming_t \<Rightarrow> u8 \<Rightarrow> bytes \<Rightarrow> sent_t" where
  "write_rsp_frame m opts bs = sent_frame (i_dst_ep (indInfo (msg m))) (reply_ep m opts)
     (i_cluster_id (indInfo (msg m)))
     (zcl_buildHdr 0 (not_dir m) 1 (h_manufCode (hdr m)) (h_seqNum (hdr m)) ZCL_CMD_WRITE_RSP @ bs)"

text \<open>The tail of both handlers: the response block written and sent.\<close>

lemma write_answer:
  assumes w: "zcl_writeRsp env (i_dst_ep (indInfo (msg m))) (reply_ep m opts) (i_cluster_id (indInfo (msg m)))
      (h_manufCode (hdr m)) 1 (not_dir m) (h_seqNum (hdr m)) rsp s1 = (st2, s2)"
    and s1: "zok s1" "length rsp < 256"
    and bs: "(if length rsp = 1 \<and> fst (hd rsp) = ZCL_STA_SUCCESS then [ZCL_STA_SUCCESS]
     else concat (map writeRsp_rec rsp)) = bs"
  shows "ub s2 = ub s1" "ram s2 = ram s1" "clusterList s2 = clusterList s1"
    "st2 = ZCL_STA_SUCCESS \<or> st2 = ZCL_STA_INSUFFICIENT_SPACE"
    "st2 = ZCL_STA_SUCCESS \<Longrightarrow> T_sent s2 = write_rsp_frame m opts bs # T_sent s1"
  using writeRsp_sends [OF w s1] only_sent_fields [OF writeRsp_effect(1) [OF w]] bs
  by (simp_all add: write_rsp_frame_def)

text \<open>C12. A write request is answered with exactly its failures. The records are written one
  after the other; the response is the single status \<^verbatim>\<open>SUCCESS\<close> if every write succeeded, and
  otherwise the status and the attribute of each failed record in the order of the request.
  When no block is left for the response, nothing is written; beyond that the handler only runs
  out of space for sending. It writes no byte outside its blocks.\<close>

theorem write_handler_answers:
  assumes "pool_ok (pool s)" "h_cmd (hdr m) = ZCL_CMD_WRITE"
    "zcl_parseInWriteCmd env m s = (Some (p, recs), s1)" "zcl_writeHandler env m s = (st, m', s')"
  defines "ep \<equiv> i_dst_ep (indInfo (msg m))" and "cl \<equiv> i_cluster_id (indInfo (msg m))"
  shows "ub s' = ub s1 \<and> clusterList s' = clusterList s \<and>
    (st = ZCL_STA_CMD_HAS_RESP \<and> ram s' = ram (write_all ep cl recs s) \<and>
       T_sent s' = write_rsp_frame m APS_TX_OPT_ACK_TX (write_response (write_statuses ep cl recs s)) # T_sent s \<or>
     st = ZCL_STA_INSUFFICIENT_SPACE \<and> (ram s' = ram s \<or> ram s' = ram (write_all ep cl recs s)))"
proof -
  note ps = parseInWriteCmd_state [OF assms(3)]
  note o1 = only_sent_fields [OF ps(1)]
  have ok1: "zok s1" and n: "length recs < 256" using ps(3) assms(1) ps(4) by simp_all
  obtain r2 s2 where a: "zalloc (1 + of_nat (length recs) * 3) s1 = (r2, s2)" by fastforce
  note f2 = zalloc_fields [OF a] and o2 = only_sent_fields [OF only_sent_zalloc [OF a]]
  show ?thesis
  proof (cases r2)
    case None
    then have "st = ZCL_STA_INSUFFICIENT_SPACE" "s' = s2"
      using assms(2,4) assms(3) a by (simp_all add: zcl_writeHandler_def)
    then show ?thesis using f2 o1 o2 by simp
  next
    case (Some q)
    let ?sts = "write_statuses ep cl recs s"
    let ?x = "get_u16 (uninit env)"
    have eq: "ram (write_all ep cl recs s2) = ram (write_all ep cl recs s)" "write_statuses ep cl recs s2 = ?sts"
      using write_all_cong [of s2 s] o1 o2 by simp_all
    define rsp where "rsp = (if filter write_failed ?sts = [] then [(ZCL_STA_SUCCESS, ?x)]
      else filter write_failed ?sts)"
    define s4 where "s4 = buf_touch q (Suc (3 * length rsp)) (write_all ep cl recs s2)"
    have wl: "write_loop ep cl recs 0 [] s2 =
        (length (filter (\<lambda>x. \<not> write_failed x) ?sts), filter write_failed ?sts, write_all ep cl recs s2)"
      by (simp add: write_loop_spec eq)
    have k: "(if length recs = length (filter (\<lambda>x. \<not> write_failed x) ?sts) then [(ZCL_STA_SUCCESS, ?x)]
        else filter write_failed ?sts) = rsp"
      using no_failures_iff [of ?sts write_failed] by (simp add: rsp_def)
    have rn: "length rsp < 256" "length rsp \<le> max 1 (length recs)"
      using n length_filter_le [of write_failed ?sts] by (auto simp: rsp_def)
    have "unat (1 + of_nat (length recs) * 3 :: u16) = 1 + 3 * length recs"
      using n by (simp add: unat_word_ariths unat_of_nat_u16)
    then have "1 + 3 * length rsp \<le> capacity q"
      using zalloc_block [OF ok1 a [unfolded Some]] rn(2) by (auto simp: max_def split: if_splits)
    then have u4: "ub s4 = ub s1" "T_sent s4 = T_sent s" "ram s4 = ram (write_all ep cl recs s)"
      "clusterList s4 = clusterList s" "zok s4"
      using f2 o1 o2 eq ps(2) zb.alloc_inv [OF ok1 a] by (simp_all add: s4_def buf_touch_def)
    obtain st2 s5 where w: "zcl_writeRsp env ep (reply_ep m APS_TX_OPT_ACK_TX) cl (h_manufCode (hdr m)) 1
        (not_dir m) (h_seqNum (hdr m)) rsp s4 = (st2, s5)" by fastforce
    note an = write_answer [OF w [unfolded ep_def cl_def] u4(5) rn(1) write_response_recs [OF rsp_def]]
    have "st = (if st2 = ZCL_STA_SUCCESS then ZCL_STA_CMD_HAS_RESP else st2)" "s' = zfree q s5"
      using assms(4) w unfolding zcl_writeHandler_def Let_def ep_def [symmetric] cl_def [symmetric]
      by (simp_all add: assms(2,3) a Some wl k w [unfolded s4_def])
    then show ?thesis using an u4 by (auto simp: zfree_def)
  qed
qed

lemma write_handler_answers_witness:
  "\<exists>m' s'. zcl_writeHandler ex_env ((ex_in 0 (write_payload ex_writes))
       \<lparr>hdr := \<lparr>h_frmCtrl = 0, h_manufCode = 0, h_seqNum = 7, h_cmd = ZCL_CMD_WRITE\<rparr>\<rparr>) ex_state
     = (ZCL_STA_CMD_HAS_RESP, m', s') \<and> map s_asdu (T_sent s') = [[0x18, 7, 4, 0]]"
proof -
  let ?m = "(ex_in 0 (write_payload ex_writes))
       \<lparr>hdr := \<lparr>h_frmCtrl = 0, h_manufCode = 0, h_seqNum = 7, h_cmd = ZCL_CMD_WRITE\<rparr>\<rparr>"
  have "fst (zcl_parseInWriteCmd ex_env ?m ex_state) \<noteq> None" by code_simp
  then obtain p recs s1 where p: "zcl_parseInWriteCmd ex_env ?m ex_state = (Some (p, recs), s1)"
    by (metis not_None_eq prod.exhaust_sel)
  have "map_option snd (fst (zcl_parseInWriteCmd ex_env ?m ex_state)) = Some recs" using p by simp
  moreover have "map_option (\<lambda>x. write_response (write_statuses 1 0 (snd x) ex_state))
      (fst (zcl_parseInWriteCmd ex_env ?m ex_state)) = Some [0]" by code_simp
  ultimately have r: "write_response (write_statuses 1 0 recs ex_state) = [0]" using p by simp
  have "fst (zcl_writeHandler ex_env ?m ex_state) = ZCL_STA_CMD_HAS_RESP" by code_simp
  then obtain m' s' where h: "zcl_writeHandler ex_env ?m ex_state = (ZCL_STA_CMD_HAS_RESP, m', s')"
    by (metis prod.collapse)
  have hd: "zcl_buildHdr 0 (not_dir ?m) 1 (h_manufCode (hdr ?m)) (h_seqNum (hdr ?m)) ZCL_CMD_WRITE_RSP = [0x18, 7, 4]"
    by code_simp
  have i: "i_dst_ep (indInfo (msg ?m)) = 1" "i_cluster_id (indInfo (msg ?m)) = 0" "T_sent ex_state = []"
    by (simp_all add: ex_in_def ex_ind_def ex_state_def)
  have c: "h_cmd (hdr ?m) = ZCL_CMD_WRITE" by simp
  from write_handler_answers [OF ex_state_ok(1) c p h] h show ?thesis
    unfolding i r write_rsp_frame_def hd by (auto simp: sent_frame_def)
qed

text \<open>The dry run tells the truth: a record is accepted exactly as it would be if the records
  before it were written first.\<close>

lemma attrWrite_dry: "fst (zcl_attrWrite ep c r True s) = fst (zcl_attrWrite ep c r False s)"
  by (auto simp: zcl_attrWrite_def zcl_setAttrVal_def Let_def split: option.splits)

lemma attrWrite_dry_cong:
  "clusterList s' = clusterList s \<Longrightarrow> fst (zcl_attrWrite ep c r False s') = fst (zcl_attrWrite ep c r False s)"
  by (simp add: zcl_attrWrite_def zcl_findAttribute_def zcl_findCluster_def split: option.split)

lemma attrWrite_clusters: "clusterList (snd (zcl_attrWrite ep c r en s)) = clusterList s"
  by (auto simp: zcl_attrWrite_def zcl_setAttrVal_def Let_def split: option.splits)

lemma write_check_cong: "clusterList s' = clusterList s \<Longrightarrow> write_check ep c s' = write_check ep c s"
  by (rule ext) (simp add: write_check_def attrWrite_dry_cong [of s' s])

lemma write_statuses_checks: "write_statuses ep c rs s = map (write_check ep c s) rs"
proof (induction rs arbitrary: s)
  case (Cons r rs)
  show ?case
    by (simp add: Cons.IH write_check_cong [OF attrWrite_clusters] attrWrite_dry)
      (simp add: write_check_def)
qed simp

lemma none_failed_iff: "list_all (\<lambda>x. fst x = ZCL_STA_SUCCESS) xs \<longleftrightarrow> filter write_failed xs = []"
  by (induction xs) (auto simp: write_failed_def)

text \<open>C3. An undivided write is all or nothing. If every record of the request can be written,
  every one is written, with the statuses that writing them one after the other gives, and the
  response is the single status \<^verbatim>\<open>SUCCESS\<close>; if any of them cannot, no byte of memory changes and
  the response lists the status of every record. Running out of blocks writes nothing unless
  all records were already accepted.\<close>

theorem write_undivided_atomic:
  assumes "pool_ok (pool s)" "zcl_parseInWriteCmd env m s = (Some (p, recs), s1)"
    "zcl_writeUndividedHandler env m s = (st, m', s')"
  defines "ep \<equiv> i_dst_ep (indInfo (msg m))" and "cl \<equiv> i_cluster_id (indInfo (msg m))"
  defines "sts \<equiv> write_statuses ep cl recs s"
  shows "ub s' = ub s1 \<and> clusterList s' = clusterList s \<and>
    (if filter write_failed sts = [] then ram s' = ram (write_all ep cl recs s) \<or>
       ram s' = ram s \<and> st = ZCL_STA_INSUFFICIENT_SPACE else ram s' = ram s) \<and>
    (st = ZCL_STA_CMD_HAS_RESP \<and> T_sent s' = write_rsp_frame m 0
       (if filter write_failed sts = [] then [ZCL_STA_SUCCESS] else concat (map writeRsp_rec sts)) # T_sent s \<or>
     st = ZCL_STA_INSUFFICIENT_SPACE)"
proof -
  note ps = parseInWriteCmd_state [OF assms(2)]
  note o1 = only_sent_fields [OF ps(1)]
  have ok1: "zok s1" and n: "length recs < 256" using ps(3) assms(1) ps(4) by simp_all
  obtain r2 s2 where a: "zalloc (1 + of_nat (length recs) * 3) s1 = (r2, s2)" by fastforce
  note f2 = zalloc_fields [OF a] and o2 = only_sent_fields [OF only_sent_zalloc [OF a]]
  show ?thesis
  proof (cases r2)
    case None
    then have "st = ZCL_STA_INSUFFICIENT_SPACE" "s' = s2"
      using assms(3) assms(2) a by (simp_all add: zcl_writeUndividedHandler_def)
    then show ?thesis using f2 o1 o2 by simp
  next
    case (Some q)
    have ck: "map (write_check ep cl s2) recs = sts"
      using write_check_cong [of s2 s ep cl] o1 o2 by (simp add: sts_def write_statuses_checks)
    let ?ok = "filter write_failed sts = []"
    define s3 where "s3 = buf_touch q (Suc (3 * length recs)) s2"
    define sw where "sw = (if ?ok then write_all ep cl recs s3 else s3)"
    define rsp where "rsp = (if ?ok then [(ZCL_STA_SUCCESS, case sts of [] \<Rightarrow> get_u16 (uninit env) | c # _ \<Rightarrow> snd c)]
      else sts)"
    define s5 where "s5 = buf_touch q (Suc (3 * length rsp)) sw"
    have "unat (1 + of_nat (length recs) * 3 :: u16) = 1 + 3 * length recs"
      using n by (simp add: unat_word_ariths unat_of_nat_u16)
    then have cap: "Suc (3 * length recs) \<le> capacity q" "16 \<le> capacity q"
      using zalloc_block [OF ok1 a [unfolded Some]] by simp_all
    have ls: "length sts = length recs" by (simp add: sts_def)
    then have lr: "length rsp = 1 \<or> length rsp = length recs" by (auto simp: rsp_def)
    have s3: "ub s3 = ub s1" "ram s3 = ram s" "clusterList s3 = clusterList s" "T_sent s3 = T_sent s" "zok s3"
      using cap f2 o1 o2 ps(2) zb.alloc_inv [OF ok1 a] by (simp_all add: s3_def buf_touch_def)
    have sw: "ub sw = ub s1" "clusterList sw = clusterList s" "T_sent sw = T_sent s" "zok sw"
      "ram sw = (if ?ok then ram (write_all ep cl recs s) else ram s)"
      using s3 write_all_cong [OF s3(3,2)] by (simp_all add: sw_def)
    have s5: "ub s5 = ub s1" "clusterList s5 = clusterList s" "T_sent s5 = T_sent s" "zok s5" "ram s5 = ram sw"
      using sw lr cap by (auto simp: s5_def buf_touch_def)
    have rn: "length rsp < 256" using lr n by auto
    have bs: "(if length rsp = 1 \<and> fst (hd rsp) = ZCL_STA_SUCCESS then [ZCL_STA_SUCCESS]
        else concat (map writeRsp_rec rsp)) = (if ?ok then [ZCL_STA_SUCCESS] else concat (map writeRsp_rec sts))"
    proof (cases ?ok)
      case False
      then have "\<not> (length sts = 1 \<and> fst (hd sts) = ZCL_STA_SUCCESS)"
        by (cases sts) (auto simp: write_failed_def split: if_splits)
      with False show ?thesis by (auto simp: rsp_def)
    qed (simp add: rsp_def)
    obtain st2 s6 where w: "zcl_writeRsp env ep (reply_ep m 0) cl (h_manufCode (hdr m)) 1
        (not_dir m) (h_seqNum (hdr m)) rsp s5 = (st2, s6)" by fastforce
    note an = write_answer [OF w [unfolded ep_def cl_def] s5(4) rn bs]
    have "st = (if st2 = ZCL_STA_SUCCESS then ZCL_STA_CMD_HAS_RESP else st2)" "s' = zfree q s6"
      using assms(3) unfolding zcl_writeUndividedHandler_def Let_def ep_def [symmetric] cl_def [symmetric]
      by (simp_all add: assms(2) a Some ck ls none_failed_iff cong: if_cong flip: s3_def sw_def rsp_def s5_def)
        (auto simp: w)
    then show ?thesis using an s5 sw by (auto simp: zfree_def)
  qed
qed

definition ex_bad_writes :: "zclWriteRec_t list" where
  "ex_bad_writes = ex_writes @ [\<lparr>w_attrID = 0, w_dataType = ZCL_DATA_TYPE_UINT8, w_attrData = lview [9] (\<lambda>_. 0)\<rparr>]"

lemma write_undivided_atomic_witness:
  "ram (snd (snd (zcl_writeUndividedHandler ex_env (ex_in 0 (write_payload ex_bad_writes)) ex_state))) = ram ex_state"
proof -
  let ?m = "ex_in 0 (write_payload ex_bad_writes)"
  have "fst (zcl_parseInWriteCmd ex_env ?m ex_state) \<noteq> None" by code_simp
  then obtain p recs s1 where p: "zcl_parseInWriteCmd ex_env ?m ex_state = (Some (p, recs), s1)"
    by (metis not_None_eq prod.exhaust_sel)
  have "map_option (\<lambda>x. filter write_failed (write_statuses 1 0 (snd x) ex_state) = [])
      (fst (zcl_parseInWriteCmd ex_env ?m ex_state)) = Some False" by code_simp
  then have r: "filter write_failed (write_statuses 1 0 recs ex_state) \<noteq> []" using p by simp
  obtain st m' s' where h: "zcl_writeUndividedHandler ex_env ?m ex_state = (st, m', s')"
    by (metis prod_cases3)
  have i: "i_dst_ep (indInfo (msg ?m)) = 1" "i_cluster_id (indInfo (msg ?m)) = 0"
    by (simp_all add: ex_in_def ex_ind_def)
  from write_undivided_atomic [OF ex_state_ok(1) p h] r show ?thesis
    unfolding i h by simp
qed

end
