(* ===== verification/Zcl_Reporting.thy ===== *)
theory Zcl_Reporting
  imports Zcl_Write
begin

text \<open>
  Attribute reporting: the table of \<^verbatim>\<open>zigbee/zcl/zcl_reporting.c\<close> with its timers, the report
  commands of \<^verbatim>\<open>zigbee/zcl/zcl.c\<close> and the NV save and restore of \<^verbatim>\<open>zigbee/zcl/zcl_nv.c\<close>.

  \<^verbatim>\<open>reportingTab.reportCfgInfo\<close> and \<^verbatim>\<open>reportTimer\<close> are the lists of the state, of length
  \<^verbatim>\<open>ZCL_REPORTING_TABLE_NUM\<close>; a pointer to an entry is its index. The timer of
  \<^verbatim>\<open>reportTimer[i]\<close> is \<open>UserEvt (Suc i)\<close>, \<^verbatim>\<open>reportingTimer\<close> is \<open>UserEvt 0\<close>.
\<close>

subsection \<open>The report command\<close>

definition zcl_report ::
  "zenv \<Rightarrow> u8 \<Rightarrow> epInfo_t \<Rightarrow> u8 \<Rightarrow> u8 \<Rightarrow> u8 \<Rightarrow> u16 \<Rightarrow> u16 \<Rightarrow> u16 \<Rightarrow> u8 \<Rightarrow> view \<Rightarrow> zst \<Rightarrow> u8 \<times> zst" where
  "zcl_report env srcEp dst disableDefaultRsp direction seqNo manu clusterId attrId dataType v s =
     (let attrSize = ucast (zcl_getAttrSize dataType v) :: u8;
          len = 3 + ucast attrSize in
      zcl_sendBuf env srcEp dst clusterId ZCL_CMD_REPORT direction disableDefaultRsp manu seqNo
        len len (u16_bytes attrId @ [dataType] @ vtake (unat attrSize) v) s)"

definition zcl_reportAttrs ::
  "zenv \<Rightarrow> u8 \<Rightarrow> epInfo_t \<Rightarrow> u8 \<Rightarrow> u8 \<Rightarrow> u8 \<Rightarrow> u16 \<Rightarrow> u16 \<Rightarrow> zclReport_t list \<Rightarrow> zst \<Rightarrow> u8 \<times> zst" where
  "zcl_reportAttrs env srcEp dst disableDefaultRsp direction seqNo manu clusterId attrs s =
     (let len = writeReq_len attrs in
      zcl_sendBuf env srcEp dst clusterId ZCL_CMD_REPORT direction disableDefaultRsp manu seqNo
        len len (concat (map attr_rec_bytes attrs)) s)"

definition zcl_sendReportAttrsCmd ::
  "zenv \<Rightarrow> u8 \<Rightarrow> epInfo_t \<Rightarrow> u8 \<Rightarrow> u8 \<Rightarrow> u16 \<Rightarrow> zclReport_t list \<Rightarrow> zst \<Rightarrow> u8 \<times> zst" where
  "zcl_sendReportAttrsCmd env srcEp dst disableDefaultRsp direction clusterId attrs s =
     zcl_reportAttrs env srcEp dst disableDefaultRsp direction (zcl_seqNum s) MANUFACTURER_CODE_NONE
       clusterId attrs (s\<lparr>zcl_seqNum := zcl_seqNum s + 1\<rparr>)"

subsection \<open>The table\<close>

definition REPORTABLE_CHANGE_MAX_ANALOG_SIZE :: nat where
  "REPORTABLE_CHANGE_MAX_ANALOG_SIZE = 8"

definition zcl_reportCfgInfoEntryClear :: reportCfgInfo_t where
  "zcl_reportCfgInfoEntryClear =
     \<lparr>r_profileID = 0, r_clusterID = 0, r_attrID = 0, minIntDft = 0, maxIntDft = 0,
      minInterval = 0, maxInterval = 0, minIntCnt = 0, maxIntCnt = 0, endPoint = 0,
      r_dataType = 0, reportableChange = replicate 8 0, prevData = replicate 8 0, r_used = 0\<rparr>"

definition zcl_reportingTab_save :: "zenv \<Rightarrow> zst \<Rightarrow> u8 \<times> zst" where
  "zcl_reportingTab_save env s = nv_flashWriteNew env (reportNum s, reportCfgInfo s) s"

definition NV_SUCC :: u8 where "NV_SUCC = 0"

definition zcl_reportingTab_restore :: "zenv \<Rightarrow> zst \<Rightarrow> u8 \<times> zst" where
  \<comment> \<open>the loop clears \<^verbatim>\<open>prevData\<close> of the first \<^verbatim>\<open>reportNum\<close> entries, whatever number was read\<close>
  "zcl_reportingTab_restore env s =
     (let (st, num, tab) = nv_flashReadNew env s;
          tab' = map (\<lambda>(i, e). if i < unat num then e\<lparr>prevData := replicate 8 0xFF\<rparr> else e)
                   (enumerate 0 tab) in
      (st, s\<lparr>reportNum := num, reportCfgInfo := tab',
             ub := (ub s \<or> length tab < unat num)\<rparr>))"

definition zcl_reportingTabInit :: "zenv \<Rightarrow> zst \<Rightarrow> zst" where
  "zcl_reportingTabInit env s =
     (let (st, s1) = zcl_reportingTab_restore env s in
      if st \<noteq> NV_SUCC
      then s1\<lparr>reportNum := 0, reportCfgInfo := map (\<lambda>_. zcl_reportCfgInfoEntryClear) (reportCfgInfo s1)\<rparr>
      else s1)"

definition zcl_reportingEntryActiveNumGet :: "zst \<Rightarrow> u8" where
  "zcl_reportingEntryActiveNumGet s =
     (if reportNum s \<noteq> 0
      then of_nat (length (filter (\<lambda>e. r_used e \<noteq> 0 \<and> maxInterval e \<noteq> 0xFFFF) (reportCfgInfo s)))
      else 0)"

definition entry_is :: "u8 \<Rightarrow> u16 \<Rightarrow> u16 \<Rightarrow> reportCfgInfo_t \<Rightarrow> bool" where
  "entry_is ep clusterId attrId e \<longleftrightarrow>
     r_used e \<noteq> 0 \<and> r_clusterID e = clusterId \<and> r_attrID e = attrId \<and> endPoint e = ep"

definition zcl_reportCfgInfoEntryFind :: "u8 \<Rightarrow> u16 \<Rightarrow> u16 \<Rightarrow> zst \<Rightarrow> nat option" where
  "zcl_reportCfgInfoEntryFind ep clusterId attrId s =
     find_index (entry_is ep clusterId attrId) (reportCfgInfo s)"

definition zcl_reportCfgInfoEntryFreeGet :: "zst \<Rightarrow> nat option" where
  "zcl_reportCfgInfoEntryFreeGet s = find_index (\<lambda>e. r_used e = 0) (reportCfgInfo s)"

definition upd_entry :: "nat \<Rightarrow> (reportCfgInfo_t \<Rightarrow> reportCfgInfo_t) \<Rightarrow> zst \<Rightarrow> zst" where
  "upd_entry i f s = s\<lparr>reportCfgInfo := (reportCfgInfo s)[i := f (reportCfgInfo s ! i)]\<rparr>"

definition overwrite :: "bytes \<Rightarrow> bytes \<Rightarrow> bytes" where
  \<comment> \<open>\<^verbatim>\<open>memcpy\<close> to the start of an array\<close>
  "overwrite new old = new @ drop (length new) old"

definition set_change :: "u8 \<Rightarrow> view \<Rightarrow> reportCfgInfo_t \<Rightarrow> reportCfgInfo_t" where
  "set_change t v e =
     (if zcl_analogDataType t
      then e\<lparr>reportableChange := overwrite (vtake (unat (zcl_getDataTypeLen t)) v) (reportableChange e)\<rparr>
      else e)"

definition zcl_reportCfgInfoEntryUpdate ::
  "nat \<Rightarrow> u8 \<Rightarrow> u16 \<Rightarrow> u16 \<Rightarrow> zclCfgReportRec_t \<Rightarrow> zst \<Rightarrow> zst" where
  "zcl_reportCfgInfoEntryUpdate i ep profId clusterId r s =
     (if r_used (reportCfgInfo s ! i) = 0 then
        let s1 = upd_entry i (\<lambda>e. set_change (c_dataType r) (c_reportableChange r)
                   (e\<lparr>r_profileID := profId, r_clusterID := clusterId, endPoint := ep,
                      r_attrID := c_attrID r, minIntDft := c_minReportInt r,
                      maxIntDft := c_maxReportInt r, minInterval := c_minReportInt r,
                      maxInterval := c_maxReportInt r, r_dataType := c_dataType r\<rparr>)) s;
            s2 = (if zcl_findAttribute ep clusterId (c_attrID r) s1 = None
                  then s1\<lparr>T_except := T_except s1 + 1\<rparr> else s1);
            s3 = upd_entry i (\<lambda>e. e\<lparr>minIntCnt := c_minReportInt r, maxIntCnt := c_maxReportInt r,
                   r_used := 1\<rparr>) s2 in
        s3\<lparr>reportNum := reportNum s3 + 1\<rparr>
      else
        upd_entry i (\<lambda>e. set_change (r_dataType e) (c_reportableChange r)
          (e\<lparr>minInterval := c_minReportInt r, maxInterval := c_maxReportInt r,
             minIntCnt := c_minReportInt r, maxIntCnt := c_maxReportInt r\<rparr>)) s)"

subsection \<open>When a value has changed enough\<close>

definition chg_u :: "'a::len word \<Rightarrow> 'a word \<Rightarrow> 'a word \<Rightarrow> bool" where
  "chg_u P C R = (if P > C then P - C \<ge> R else if P < C then C - P \<ge> R else False)"

definition chg_s :: "int \<Rightarrow> int \<Rightarrow> int \<Rightarrow> bool" where
  \<comment> \<open>the difference is a 32-bit \<^verbatim>\<open>int\<close>\<close>
  "chg_s P C R = (if P > C then sint (of_int (P - C) :: u32) \<ge> R
                  else if P < C then sint (of_int (C - P) :: u32) \<ge> R else False)"

definition reportableChangeValueChk :: "u8 \<Rightarrow> view \<Rightarrow> view \<Rightarrow> view \<Rightarrow> bool" where
  "reportableChangeValueChk dataType c p r =
    (if dataType = ZCL_DATA_TYPE_UINT8 then chg_u (p 0) (c 0) (r 0)
     else if dataType = ZCL_DATA_TYPE_UINT16 then
       chg_u (BUILD_U16 (p 0) (p 1)) (BUILD_U16 (c 0) (c 1)) (BUILD_U16 (r 0) (r 1))
     else if dataType = ZCL_DATA_TYPE_UINT24 then
       chg_u (BUILD_U24 (p 0) (p 1) (p 2)) (BUILD_U24 (c 0) (c 1) (c 2)) (BUILD_U24 (r 0) (r 1) (r 2))
     else if dataType = ZCL_DATA_TYPE_UINT32 then
       chg_u (BUILD_U32 (p 0) (p 1) (p 2) (p 3)) (BUILD_U32 (c 0) (c 1) (c 2) (c 3))
         (BUILD_U32 (r 0) (r 1) (r 2) (r 3))
     else if dataType = ZCL_DATA_TYPE_INT8 then chg_s (sint (p 0)) (sint (c 0)) (sint (r 0))
     else if dataType = ZCL_DATA_TYPE_INT16 then
       chg_s (BUILD_S16 (p 0) (p 1)) (BUILD_S16 (c 0) (c 1)) (BUILD_S16 (r 0) (r 1))
     else if dataType = ZCL_DATA_TYPE_INT24 then
       chg_s (BUILD_S24 (p 0) (p 1) (p 2)) (BUILD_S24 (c 0) (c 1) (c 2)) (BUILD_S24 (r 0) (r 1) (r 2))
     else if dataType = ZCL_DATA_TYPE_INT32 then
       chg_s (BUILD_S32 (p 0) (p 1) (p 2) (p 3)) (BUILD_S32 (c 0) (c 1) (c 2) (c 3))
         (BUILD_S32 (r 0) (r 1) (r 2) (r 3))
     else False)"


subsection \<open>Sending due reports\<close>

definition reportable_entry :: "zenv \<Rightarrow> reportCfgInfo_t \<Rightarrow> bool" where
  "reportable_entry env e \<longleftrightarrow> r_used e \<noteq> 0 \<and> maxInterval e \<noteq> 0xFFFF \<and>
     zb_bindingTblSearched env (r_clusterID e) (endPoint e)"

definition report_size :: "zclAttrInfo_t \<Rightarrow> zst \<Rightarrow> nat" where
  \<comment> \<open>\<^verbatim>\<open>dataLen\<close>: the size cut to a byte, then to the size of \<^verbatim>\<open>prevData\<close>\<close>
  "report_size a s = min (unat (ucast (zcl_getAttrSize (a_type a) (attr_view a s)) :: u8))
     REPORTABLE_CHANGE_MAX_ANALOG_SIZE"

definition entry_valid :: "reportCfgInfo_t \<Rightarrow> bool" where
  "entry_valid e \<longleftrightarrow> (maxIntCnt e = 0 \<and> maxInterval e \<noteq> 0) \<or> minIntCnt e = 0"

definition entry_reported :: "bytes \<Rightarrow> reportCfgInfo_t \<Rightarrow> reportCfgInfo_t" where
  "entry_reported new e = e\<lparr>prevData := overwrite new (prevData e),
     minIntCnt := (if minInterval e \<noteq> 0 then minInterval e else 0xFFFF),
     maxIntCnt := (if maxInterval e \<noteq> 0 then maxInterval e else 0xFFFF)\<rparr>"

record report_acc =
  acc_attr :: "zclReport_t list"
  acc_clusterID :: u16
  acc_profileID :: u16
  acc_endpoint :: u8
  acc_again :: bool

definition report_of :: "zclAttrInfo_t \<Rightarrow> zst \<Rightarrow> zclReport_t" where
  "report_of a s = \<lparr>w_attrID = a_id a, w_dataType = a_type a, w_attrData = attr_view a s\<rparr>"

text \<open>The \<^verbatim>\<open>for\<close> loop of \<^verbatim>\<open>reportAttrs\<close>: up to two due attributes of one cluster.\<close>

fun report_scan :: "zenv \<Rightarrow> nat list \<Rightarrow> report_acc \<Rightarrow> zst \<Rightarrow> report_acc \<times> zst" where
  "report_scan env [] acc s = (acc, s)"
| "report_scan env (i # is) acc s =
     (let e = reportCfgInfo s ! i in
      if \<not> reportable_entry env e then report_scan env is acc s
      else case zcl_findAttribute (endPoint e) (r_clusterID e) (r_attrID e) s of
        None \<Rightarrow> report_scan env is acc s
      | Some a \<Rightarrow>
          (if \<not> entry_valid e then report_scan env is acc s
           else if acc_clusterID acc \<noteq> 0xFFFF \<and>
             (acc_clusterID acc \<noteq> r_clusterID e \<or> acc_profileID acc \<noteq> r_profileID e \<or>
              acc_endpoint acc \<noteq> endPoint e)
           then report_scan env is (acc\<lparr>acc_again := True\<rparr>) s
           else
             (let acc1 = (if acc_clusterID acc = 0xFFFF
                          then acc\<lparr>acc_clusterID := r_clusterID e, acc_profileID := r_profileID e,
                                   acc_endpoint := endPoint e\<rparr> else acc);
                  acc2 = acc1\<lparr>acc_attr := acc_attr acc1 @ [report_of a s]\<rparr>;
                  s' = upd_entry i (entry_reported (vtake (report_size a s) (attr_view a s))) s in
              if length (acc_attr acc2) \<ge> 2 then (acc2\<lparr>acc_again := True\<rparr>, s')
              else report_scan env is acc2 s')))"

definition report_acc0 :: "u16 \<Rightarrow> report_acc" where
  "report_acc0 prof = \<lparr>acc_attr = [], acc_clusterID = 0xFFFF, acc_profileID = prof,
     acc_endpoint = 0, acc_again = False\<rparr>"

definition report_send :: "zenv \<Rightarrow> report_acc \<Rightarrow> zst \<Rightarrow> zst" where
  "report_send env acc s =
     (if acc_clusterID acc \<noteq> 0xFFFF
      then snd (zcl_sendReportAttrsCmd env (acc_endpoint acc)
             \<lparr>shortAddr = 0, profileId = acc_profileID acc, dstAddrMode = APS_DSTADDR_EP_NOTPRESETNT,
              dstEp = 0, txOptions = 0\<rparr>
             1 ZCL_FRAME_SERVER_CLIENT_DIR (acc_clusterID acc) (acc_attr acc) s)
      else s)"

definition report_pass :: "zenv \<Rightarrow> u16 \<Rightarrow> zst \<Rightarrow> report_acc \<times> zst" where
  "report_pass env prof s =
     (let (acc, s1) = report_scan env [0..<length (reportCfgInfo s)] (report_acc0 prof) s in
      (acc, report_send env acc s1))"


text \<open>An entry is due when the loop would report it. Reporting an entry makes it not due, so the
  number of due entries bounds the turns of the \<^verbatim>\<open>do\<close> loop.\<close>

definition due :: "zenv \<Rightarrow> zst \<Rightarrow> nat set" where
  "due env s = {i. i < length (reportCfgInfo s) \<and> reportable_entry env (reportCfgInfo s ! i) \<and>
     entry_valid (reportCfgInfo s ! i) \<and>
     zcl_findAttribute (endPoint (reportCfgInfo s ! i)) (r_clusterID (reportCfgInfo s ! i))
       (r_attrID (reportCfgInfo s ! i)) s \<noteq> None}"

lemma finite_due [simp]: "finite (due env s)"
  by (simp add: due_def)

lemma findAttribute_cong:
  "clusterList s' = clusterList s \<Longrightarrow> zcl_findAttribute ep c a s' = zcl_findAttribute ep c a s"
  by (simp add: zcl_findAttribute_def zcl_findCluster_def)

lemma due_cong:
  "clusterList s' = clusterList s \<Longrightarrow> reportCfgInfo s' = reportCfgInfo s \<Longrightarrow> due env s' = due env s"
  by (simp add: due_def zcl_findAttribute_def zcl_findCluster_def)

lemma upd_entry_simps [simp]:
  "clusterList (upd_entry i f s) = clusterList s" "ram (upd_entry i f s) = ram s"
  "pool (upd_entry i f s) = pool s" "ub (upd_entry i f s) = ub s"
  "length (reportCfgInfo (upd_entry i f s)) = length (reportCfgInfo s)"
  "reportNum (upd_entry i f s) = reportNum s" "reportTimer (upd_entry i f s) = reportTimer s"
  "T_sent (upd_entry i f s) = T_sent s" "timer_list (upd_entry i f s) = timer_list s"
  "evt (upd_entry i f s) = evt s"
  "reportCfgInfo (upd_entry i f s) = (reportCfgInfo s)[i := f (reportCfgInfo s ! i)]"
  by (simp_all add: upd_entry_def)

lemma entry_reported_simps [simp]:
  "endPoint (entry_reported b e) = endPoint e" "r_clusterID (entry_reported b e) = r_clusterID e"
  "r_attrID (entry_reported b e) = r_attrID e" "r_used (entry_reported b e) = r_used e"
  "maxInterval (entry_reported b e) = maxInterval e" "minInterval (entry_reported b e) = minInterval e"
  "reportable_entry env (entry_reported b e) = reportable_entry env e"
  "\<not> entry_valid (entry_reported b e)"
  by (simp_all add: entry_reported_def reportable_entry_def entry_valid_def)

lemma due_reported:
  assumes "i < length (reportCfgInfo s)"
  shows "due env (upd_entry i (entry_reported b) s) = due env s - {i}"
proof (rule set_eqI)
  fix j
  show "j \<in> due env (upd_entry i (entry_reported b) s) \<longleftrightarrow> j \<in> due env s - {i}"
    using assms by (cases "j = i") (auto simp: due_def findAttribute_cong [of "upd_entry i (entry_reported b) s" s])
qed

text \<open>The three ways a turn of the \<^verbatim>\<open>for\<close> loop goes: the entry is passed over, it belongs to
  another cluster, or it is taken.\<close>

lemma report_scan_Cons:
  assumes "report_scan env (i # js) acc s = (acc', s')" "i < length (reportCfgInfo s)"
  obtains (skip) "i \<notin> due env s" "report_scan env js acc s = (acc', s')"
  | (other) "acc_clusterID acc \<noteq> 0xFFFF" "report_scan env js (acc\<lparr>acc_again := True\<rparr>) s = (acc', s')"
  | (taken) a acc2 b where "i \<in> due env s"
      "zcl_findAttribute (endPoint (reportCfgInfo s ! i)) (r_clusterID (reportCfgInfo s ! i))
         (r_attrID (reportCfgInfo s ! i)) s = Some a"
      "acc_attr acc2 = acc_attr acc @ [report_of a s]" "acc_again acc2 = acc_again acc"
      "(acc', s') = (acc2\<lparr>acc_again := True\<rparr>, upd_entry i (entry_reported b) s) \<or>
       report_scan env js acc2 (upd_entry i (entry_reported b) s) = (acc', s')"
      "acc_clusterID acc2 = r_clusterID (reportCfgInfo s ! i)"
      "acc_endpoint acc2 = endPoint (reportCfgInfo s ! i)"
      "acc_clusterID acc = 0xFFFF \<or>
       acc_clusterID acc2 = acc_clusterID acc \<and> acc_endpoint acc2 = acc_endpoint acc"
      "acc' = acc2\<lparr>acc_again := True\<rparr> \<and> s' = upd_entry i (entry_reported b) s \<or>
       length (acc_attr acc2) < 2 \<and> report_scan env js acc2 (upd_entry i (entry_reported b) s) = (acc', s')"
proof -
  let ?e = "reportCfgInfo s ! i"
  let ?fa = "zcl_findAttribute (endPoint ?e) (r_clusterID ?e) (r_attrID ?e) s"
  show ?thesis
  proof (cases "reportable_entry env ?e \<and> ?fa \<noteq> None \<and> entry_valid ?e")
    case False
    then have "i \<notin> due env s" by (auto simp: due_def)
    with False assms(1) skip show ?thesis by (auto simp: Let_def split: if_splits option.splits)
  next
    case True
    then obtain a where fa: "?fa = Some a" by auto
    show ?thesis
    proof (cases "acc_clusterID acc \<noteq> 0xFFFF \<and>
        (acc_clusterID acc \<noteq> r_clusterID ?e \<or> acc_profileID acc \<noteq> r_profileID ?e \<or> acc_endpoint acc \<noteq> endPoint ?e)")
      case o: True
      then have "acc_clusterID acc \<noteq> 0xFFFF" ..
      with assms(1) other True fa o show ?thesis by (simp add: Let_def)
    next
      case o: False
      let ?acc1 = "if acc_clusterID acc = 0xFFFF
        then acc\<lparr>acc_clusterID := r_clusterID ?e, acc_profileID := r_profileID ?e,
          acc_endpoint := endPoint ?e\<rparr> else acc"
      let ?acc2 = "?acc1\<lparr>acc_attr := acc_attr ?acc1 @ [report_of a s]\<rparr>"
      let ?X = "upd_entry i (entry_reported (vtake (report_size a s) (attr_view a s))) s"
      have d: "i \<in> due env s" using True assms(2) by (simp add: due_def)
      have at: "acc_attr ?acc2 = acc_attr acc @ [report_of a s]" "acc_again ?acc2 = acc_again acc"
        by simp_all
      have "(if 2 \<le> length (acc_attr ?acc2) then (?acc2\<lparr>acc_again := True\<rparr>, ?X)
          else report_scan env js ?acc2 ?X) = (acc', s')"
        using assms(1) o True fa by (simp only: report_scan.simps Let_def) (simp split del: if_split)
      then have dj: "acc' = ?acc2\<lparr>acc_again := True\<rparr> \<and> s' = ?X \<or>
          length (acc_attr ?acc2) < 2 \<and> report_scan env js ?acc2 ?X = (acc', s')"
        by (cases "2 \<le> length (acc_attr ?acc2)") (simp_all only: if_True if_False prod.inject not_le simp_thms)
      have dj5: "(acc', s') = (?acc2\<lparr>acc_again := True\<rparr>, ?X) \<or> report_scan env js ?acc2 ?X = (acc', s')"
        using dj by (elim disjE conjE) (simp_all only: simp_thms)
      have c: "acc_clusterID ?acc2 = r_clusterID ?e" "acc_endpoint ?acc2 = endPoint ?e"
        "acc_clusterID acc = 0xFFFF \<or>
         acc_clusterID ?acc2 = acc_clusterID acc \<and> acc_endpoint ?acc2 = acc_endpoint acc"
        using o by auto
      show ?thesis by (rule taken [OF d fa at dj5 c dj])
    qed
  qed
qed

lemma report_scan_due:
  "report_scan env js acc s = (acc', s') \<Longrightarrow> \<forall>i \<in> set js. i < length (reportCfgInfo s) \<Longrightarrow>
     due env s' \<subseteq> due env s \<and> length (reportCfgInfo s') = length (reportCfgInfo s) \<and>
     clusterList s' = clusterList s \<and> length (acc_attr acc) \<le> length (acc_attr acc') \<and>
     (length (acc_attr acc) < length (acc_attr acc') \<longrightarrow> due env s' \<subset> due env s) \<and>
     (acc_again acc' \<longrightarrow> acc_again acc \<or> acc_attr acc' \<noteq> [] \<or> acc_clusterID acc \<noteq> 0xFFFF)"
proof (induction js arbitrary: acc s)
  case (Cons i js)
  have i: "i < length (reportCfgInfo s)" and js: "\<forall>i \<in> set js. i < length (reportCfgInfo s)"
    using Cons.prems(2) by auto
  from Cons.prems(1) i show ?case
  proof (cases rule: report_scan_Cons)
    case skip
    with Cons.IH js show ?thesis by blast
  next
    case other
    with Cons.IH [OF other(2) js] show ?thesis by auto
  next
    case (taken a acc2 b)
    let ?s2 = "upd_entry i (entry_reported b) s"
    have d: "due env ?s2 \<subset> due env s" using due_reported [OF i] taken(1) by auto
    from taken(5) show ?thesis
    proof
      assume "(acc', s') = (acc2\<lparr>acc_again := True\<rparr>, ?s2)"
      with d taken(3) show ?thesis by auto
    next
      assume r: "report_scan env js acc2 ?s2 = (acc', s')"
      from Cons.IH [OF this] js taken(3) have
        "due env s' \<subseteq> due env ?s2" "length (reportCfgInfo s') = length (reportCfgInfo s)"
        "clusterList s' = clusterList s" "length (acc_attr acc) < length (acc_attr acc')" by auto
      with d show ?thesis by (auto simp: psubset_eq)
    qed
  qed
qed simp

lemma report_send_effect: "only_sent (s\<lparr>zcl_seqNum := zcl_seqNum (report_send env acc s)\<rparr>) (report_send env acc s)
    \<and> same_pool s (report_send env acc s)"
proof (cases "acc_clusterID acc = 0xFFFF")
  case False
  obtain st s' where r: "zcl_reportAttrs env (acc_endpoint acc)
       \<lparr>shortAddr = 0, profileId = acc_profileID acc, dstAddrMode = APS_DSTADDR_EP_NOTPRESETNT,
        dstEp = 0, txOptions = 0\<rparr> 1 ZCL_FRAME_SERVER_CLIENT_DIR (zcl_seqNum s) MANUFACTURER_CODE_NONE
       (acc_clusterID acc) (acc_attr acc) (s\<lparr>zcl_seqNum := zcl_seqNum s + 1\<rparr>) = (st, s')" by fastforce
  have e: "report_send env acc s = s'"
    using r False by (simp add: report_send_def zcl_sendReportAttrsCmd_def)
  have o: "only_sent (s\<lparr>zcl_seqNum := zcl_seqNum s + 1\<rparr>) s'"
    "same_pool (s\<lparr>zcl_seqNum := zcl_seqNum s + 1\<rparr>) s'"
    using sendBuf_effect [OF r [unfolded zcl_reportAttrs_def Let_def]] by simp_all
  from only_sent_fields(6) [OF o(1)] have "zcl_seqNum s' = zcl_seqNum s + 1" by simp
  with o e show ?thesis by (simp add: same_pool_def)
qed (simp add: report_send_def)

lemma report_send_fields [simp]:
  "reportCfgInfo (report_send env acc s) = reportCfgInfo s"
  "clusterList (report_send env acc s) = clusterList s"
  "ram (report_send env acc s) = ram s" "reportNum (report_send env acc s) = reportNum s"
  "timer_list (report_send env acc s) = timer_list s" "evt (report_send env acc s) = evt s"
  "reportTimer (report_send env acc s) = reportTimer s"
  using only_sent_fields [OF conjunct1 [OF report_send_effect [where s = s and env = env and acc = acc]]] by simp_all

lemma report_pass_due:
  assumes "report_pass env prof s = (acc, s')" "acc_again acc"
  shows "due env s' \<subset> due env s"
proof -
  obtain s1 where r: "report_scan env [0..<length (reportCfgInfo s)] (report_acc0 prof) s = (acc, s1)"
    and s': "s' = report_send env acc s1"
    using assms(1) by (auto simp: report_pass_def split: prod.splits)
  have "due env s' = due env s1" unfolding s' by (rule due_cong) simp_all
  with report_scan_due [OF r] assms(2) show ?thesis by (auto simp: report_acc0_def)
qed

function reportAttrs_loop :: "zenv \<Rightarrow> u16 \<Rightarrow> zst \<Rightarrow> zst" where
  "reportAttrs_loop env prof s =
     (let (acc, s') = report_pass env prof s in
      if acc_again acc then reportAttrs_loop env (acc_profileID acc) s' else s')"
  by pat_completeness auto
termination
proof (relation "measure (\<lambda>(env, _, s). card (due env s))", simp)
  fix env prof s x acc s'
  assume "x = report_pass env prof s" "(acc, s') = x" "acc_again acc"
  then have "due env s' \<subset> due env s" by (metis report_pass_due)
  then show "((env, acc_profileID acc, s'), env, prof, s) \<in> measure (\<lambda>(env, _, s). card (due env s))"
    by (simp add: psubset_card_mono)
qed

definition reportAttrs :: "zenv \<Rightarrow> zst \<Rightarrow> zst" where
  "reportAttrs env s = reportAttrs_loop env 0xFFFF s"

declare reportAttrs_loop.simps [simp del]


subsection \<open>The timers\<close>

definition reportingTimer :: tref where "reportingTimer = UserEvt 0"
definition report_timer :: "nat \<Rightarrow> tref" where "report_timer i = UserEvt (Suc i)"

definition upd_rt :: "nat \<Rightarrow> (zcl_reportTimerEvt_t \<Rightarrow> zcl_reportTimerEvt_t) \<Rightarrow> zst \<Rightarrow> zst" where
  "upd_rt i f s = s\<lparr>reportTimer := (reportTimer s)[i := f (reportTimer s ! i)]\<rparr>"

definition rt_clear :: "zcl_reportTimerEvt_t \<Rightarrow> zcl_reportTimerEvt_t" where
  "rt_clear t = t\<lparr>t_pEntry := None, t_seconds := 0, t_minOrMax := 0\<rparr>"

definition reportingTimerCb :: "zenv \<Rightarrow> zst \<Rightarrow> int \<times> zst" where
  "reportingTimerCb env s = (-1, reportAttrs env s)"

definition reportingTimerStart :: "zst \<Rightarrow> zst" where
  "reportingTimerStart s =
     (if \<not> ev_timer_exist s reportingTimer
      then ev_on_timer (Some reportingTimer) 100
             (upd_evt reportingTimer (\<lambda>e. e\<lparr>cb := Some ReportingTimerCb\<rparr>) s)
      else s)"

definition count_down :: "u16 \<Rightarrow> u16 \<Rightarrow> u16" where
  "count_down n sec = (if n \<noteq> 0 then (if n \<ge> sec then n - sec else 0) else n)"

definition reportAttrTimerCb :: "zenv \<Rightarrow> nat \<Rightarrow> zst \<Rightarrow> int \<times> zst" where
  "reportAttrTimerCb env i s =
     (case t_pEntry (reportTimer s ! i) of
        None \<Rightarrow> (-1, s)
      | Some j \<Rightarrow>
          (let sec = t_seconds (reportTimer s ! i);
               s1 = (if reportable_entry env (reportCfgInfo s ! j)
                     then upd_entry j (\<lambda>e. e\<lparr>minIntCnt := count_down (minIntCnt e) sec,
                            maxIntCnt := count_down (maxIntCnt e) sec\<rparr>) s
                     else s);
               s2 = reportingTimerStart s1 in
           (-1, upd_rt i rt_clear s2)))"

definition reportAttrTimerStop :: "nat \<Rightarrow> zst \<Rightarrow> zst" where
  "reportAttrTimerStop i s =
     (if t_pEntry (reportTimer s ! i) \<noteq> None then
        let s1 = (if ev_timer_exist s (report_timer i) then ev_unon_timer (Some (report_timer i)) s else s) in
        upd_rt i rt_clear s1
      else s)"

definition value_changed :: "reportCfgInfo_t \<Rightarrow> zclAttrInfo_t \<Rightarrow> zst \<Rightarrow> bool" where
  "value_changed e a s =
     (if \<not> zcl_analogDataType (a_type a)
      then take (report_size a s) (prevData e) \<noteq> vtake (report_size a s) (attr_view a s)
      else reportableChangeValueChk (a_type a) (attr_view a s)
             (lview (prevData e) (\<lambda>_. 0)) (lview (reportableChange e) (\<lambda>_. 0)))"

definition arm_report_timer :: "nat \<Rightarrow> u16 \<Rightarrow> u8 \<Rightarrow> zst \<Rightarrow> zst" where
  "arm_report_timer i seconds minOrMax s =
     (if t_pEntry (reportTimer s ! i) = None then
        ev_on_timer (Some (report_timer i)) (ucast seconds * 1000)
          (upd_evt (report_timer i) (\<lambda>e. e\<lparr>cb := Some (ReportAttrTimerCb i)\<rparr>)
            (upd_rt i (\<lambda>t. t\<lparr>t_pEntry := Some i, t_seconds := seconds, t_minOrMax := minOrMax\<rparr>) s))
      else s)"

text \<open>One turn of the loop of \<^verbatim>\<open>reportAttrTimerStart\<close>. The attribute of a used entry is taken to
  exist: the code does not test the pointer.\<close>

definition reportAttrTimerStart_entry :: "zenv \<Rightarrow> nat \<Rightarrow> zst \<Rightarrow> zst" where
  "reportAttrTimerStart_entry env i s =
     (let e = reportCfgInfo s ! i; t = reportTimer s ! i in
      if \<not> reportable_entry env e then reportAttrTimerStop i s
      else case zcl_findAttribute (endPoint e) (r_clusterID e) (r_attrID e) s of
        None \<Rightarrow> null_deref s
      | Some a \<Rightarrow>
          (if value_changed e a s then
             (let new = vtake (report_size a s) (attr_view a s);
                  s1 = upd_entry i (\<lambda>e. e\<lparr>prevData := overwrite new (prevData e)\<rparr>) s in
              if minInterval e \<noteq> 0 then
                let s2 = (if t_pEntry t \<noteq> None \<and> t_minOrMax t = 1 then reportAttrTimerStop i s1 else s1) in
                arm_report_timer i (minInterval e) 0 s2
              else
                reportingTimerStart (upd_entry i (\<lambda>e. e\<lparr>minIntCnt := 0\<rparr>) (reportAttrTimerStop i s1)))
           else
             (if maxInterval e \<noteq> 0 then
                let s2 = (if t_pEntry t \<noteq> None \<and> t_minOrMax t = 1 \<and> t_seconds t \<noteq> maxInterval e
                          then reportAttrTimerStop i s else s) in
                arm_report_timer i (maxInterval e) 1 s2
              else
                (if t_pEntry t \<noteq> None \<and> t_minOrMax t = 1 then reportAttrTimerStop i s else s))))"

definition reportAttrTimerStart :: "zenv \<Rightarrow> zst \<Rightarrow> zst" where
  "reportAttrTimerStart env s = fold (reportAttrTimerStart_entry env) [0..<length (reportCfgInfo s)] s"

definition report_handler :: "zenv \<Rightarrow> zst \<Rightarrow> zst" where
  "report_handler env s = (if zb_isDeviceJoinedNwk env then reportAttrTimerStart env s else s)"

definition zcl_reportCfgInfoEntryRst :: "zenv \<Rightarrow> nat \<Rightarrow> zst \<Rightarrow> zst" where
  "zcl_reportCfgInfoEntryRst env i s =
     (if r_used (reportCfgInfo s ! i) \<noteq> 0 then
        let s1 = upd_entry i (\<lambda>e. e\<lparr>minInterval := minIntDft e, maxInterval := maxIntDft e,
                   minIntCnt := minIntDft e, maxIntCnt := maxIntDft e,
                   reportableChange := replicate 8 0\<rparr>) s;
            s2 = (case find_index (\<lambda>t. t_pEntry t = Some i) (reportTimer s1) of
                    None \<Rightarrow> s1 | Some k \<Rightarrow> reportAttrTimerStop k s1) in
        reportAttrTimerStart env s2
      else s)"

text \<open>What \<^verbatim>\<open>ev_timer_executeCB\<close> calls.\<close>

definition zcl_timer_cb :: "zenv \<Rightarrow> zcb \<Rightarrow> zst \<Rightarrow> int \<times> zst" where
  "zcl_timer_cb env f s = (case f of
     ReportingTimerCb \<Rightarrow> reportingTimerCb env s
   | ReportAttrTimerCb i \<Rightarrow> reportAttrTimerCb env i s
   | OtherCb n \<Rightarrow> otherCb env n s)"


subsection \<open>What the timers leave alone\<close>

lemma user_fields:
  assumes "user s' = user (s :: zst)"
  shows "pool s' = pool s" "ram s' = ram s" "clusterList s' = clusterList s"
    "reportCfgInfo s' = reportCfgInfo s" "reportNum s' = reportNum s" "reportTimer s' = reportTimer s"
    "T_sent s' = T_sent s" "ub s' = ub s" "zcl_seqNum s' = zcl_seqNum s" "hookFn s' = hookFn s"
  using assms by (cases s; cases s'; simp)+

lemmas on_timer_fields [simp] = user_fields [OF user_on_timer]
lemmas unon_timer_fields [simp] = user_fields [OF user_unon_timer]
lemmas upd_evt_fields [simp] = user_fields [OF user_upd_evt]

lemma upd_rt_fields [simp]:
  "pool (upd_rt i f s) = pool s" "ram (upd_rt i f s) = ram s" "clusterList (upd_rt i f s) = clusterList s"
  "reportCfgInfo (upd_rt i f s) = reportCfgInfo s" "reportNum (upd_rt i f s) = reportNum s"
  "T_sent (upd_rt i f s) = T_sent s" "ub (upd_rt i f s) = ub s"
  "length (reportTimer (upd_rt i f s)) = length (reportTimer s)"
  "timer_list (upd_rt i f s) = timer_list s" "evt (upd_rt i f s) = evt s"
  "reportTimer (upd_rt i f s) = (reportTimer s)[i := f (reportTimer s ! i)]"
  by (simp_all add: upd_rt_def)

lemma reportingTimerStart_fields [simp]:
  "pool (reportingTimerStart s) = pool s" "ram (reportingTimerStart s) = ram s"
  "clusterList (reportingTimerStart s) = clusterList s"
  "reportCfgInfo (reportingTimerStart s) = reportCfgInfo s"
  "reportNum (reportingTimerStart s) = reportNum s" "T_sent (reportingTimerStart s) = T_sent s"
  "reportTimer (reportingTimerStart s) = reportTimer s" "ub (reportingTimerStart s) = ub s"
  by (simp_all add: reportingTimerStart_def)

lemma reportAttrTimerStop_fields [simp]:
  "pool (reportAttrTimerStop i s) = pool s" "ram (reportAttrTimerStop i s) = ram s"
  "clusterList (reportAttrTimerStop i s) = clusterList s"
  "reportCfgInfo (reportAttrTimerStop i s) = reportCfgInfo s"
  "reportNum (reportAttrTimerStop i s) = reportNum s" "T_sent (reportAttrTimerStop i s) = T_sent s"
  "length (reportTimer (reportAttrTimerStop i s)) = length (reportTimer s)"
  "ub (reportAttrTimerStop i s) = ub s"
  by (simp_all add: reportAttrTimerStop_def Let_def)

lemma arm_report_timer_fields [simp]:
  "pool (arm_report_timer i n b s) = pool s" "ram (arm_report_timer i n b s) = ram s"
  "clusterList (arm_report_timer i n b s) = clusterList s"
  "reportCfgInfo (arm_report_timer i n b s) = reportCfgInfo s"
  "reportNum (arm_report_timer i n b s) = reportNum s" "T_sent (arm_report_timer i n b s) = T_sent s"
  "length (reportTimer (arm_report_timer i n b s)) = length (reportTimer s)"
  "ub (arm_report_timer i n b s) = ub s"
  by (simp_all add: arm_report_timer_def)

lemma null_deref_fields [simp]:
  "pool (null_deref s) = pool s" "clusterList (null_deref s) = clusterList s" "ram (null_deref s) = ram s"
  "reportCfgInfo (null_deref s) = reportCfgInfo s" "reportNum (null_deref s) = reportNum s"
  "T_sent (null_deref s) = T_sent s" "reportTimer (null_deref s) = reportTimer s" "ub (null_deref s)"
  by (simp_all add: null_deref_def)

text \<open>The key of an entry is what it reports. The timers change counters and \<^verbatim>\<open>prevData\<close> of
  the entries, never which entries are used nor their keys.\<close>

definition entry_key :: "reportCfgInfo_t \<Rightarrow> u8 \<times> u16 \<times> u16" where
  "entry_key e = (endPoint e, r_clusterID e, r_attrID e)"

definition table_keys :: "zst \<Rightarrow> (u8 \<times> (u8 \<times> u16 \<times> u16)) list" where
  "table_keys s = map (\<lambda>e. (r_used e, entry_key e)) (reportCfgInfo s)"

lemma table_keys_cong: "reportCfgInfo s' = reportCfgInfo s \<Longrightarrow> table_keys s' = table_keys s"
  by (simp add: table_keys_def)

lemma table_keys_upd:
  "r_used (f (reportCfgInfo s ! i)) = r_used (reportCfgInfo s ! i) \<Longrightarrow>
   entry_key (f (reportCfgInfo s ! i)) = entry_key (reportCfgInfo s ! i) \<Longrightarrow>
   table_keys (upd_entry i f s) = table_keys s"
  by (cases "i < length (reportCfgInfo s)")
    (auto simp: table_keys_def nth_list_update intro!: nth_equalityI)

definition keeps :: "zst \<Rightarrow> zst \<Rightarrow> bool" where
  "keeps s s' \<longleftrightarrow> pool s' = pool s \<and> ram s' = ram s \<and> clusterList s' = clusterList s \<and>
     reportNum s' = reportNum s \<and> T_sent s' = T_sent s \<and> table_keys s' = table_keys s \<and>
     length (reportTimer s') = length (reportTimer s) \<and> zcl_seqNum s' = zcl_seqNum s \<and>
     hookFn s' = hookFn s \<and> (ub s \<longrightarrow> ub s')"

lemma keeps_refl [simp, intro]: "keeps s s" by (simp add: keeps_def)

lemma keeps_trans: "keeps s s' \<Longrightarrow> keeps s' s'' \<Longrightarrow> keeps s s''" by (simp add: keeps_def)

lemma keeps_upd_entry:
  "r_used (f (reportCfgInfo s ! i)) = r_used (reportCfgInfo s ! i) \<Longrightarrow>
   entry_key (f (reportCfgInfo s ! i)) = entry_key (reportCfgInfo s ! i) \<Longrightarrow> keeps s (upd_entry i f s)"
  by (simp add: keeps_def table_keys_upd) (simp add: upd_entry_def)

lemma keeps_user:
  assumes "user s' = user (s :: zst)"
  shows "keeps s s'"
  by (simp add: keeps_def table_keys_def user_fields [OF assms])

lemma keeps_upd_rt: "keeps s (upd_rt i f s)"
  by (simp add: keeps_def table_keys_def) (simp add: upd_rt_def)

lemma keeps_TimerStart [intro]: "keeps s (reportingTimerStart s)"
  by (auto simp: reportingTimerStart_def intro!: keeps_user)

lemma keeps_TimerStop [intro]: "keeps s (reportAttrTimerStop i s)"
  by (auto simp: reportAttrTimerStop_def Let_def
      intro: keeps_trans [OF keeps_user keeps_upd_rt] keeps_upd_rt)

lemma keeps_arm [intro]: "keeps s (arm_report_timer i n b s)"
  by (auto simp: arm_report_timer_def intro!: keeps_trans [OF keeps_upd_rt keeps_user])

lemma keeps_null_deref [intro]: "keeps s (null_deref s)"
  by (simp add: keeps_def table_keys_def) (simp add: null_deref_def)

lemma keeps_TimerStart_entry: "keeps s (reportAttrTimerStart_entry env i s)"
proof -
  have p: "keeps s (upd_entry i (\<lambda>e. e\<lparr>prevData := d e\<rparr>) s)" for d s
    by (rule keeps_upd_entry) (simp_all add: entry_key_def)
  have c: "keeps s (upd_entry i (\<lambda>e. e\<lparr>minIntCnt := 0\<rparr>) s)" for s
    by (rule keeps_upd_entry) (simp_all add: entry_key_def)
  show ?thesis
    unfolding reportAttrTimerStart_entry_def Let_def
    by (auto split: option.splits
        intro: keeps_trans [OF keeps_trans [OF p keeps_TimerStop] keeps_arm] keeps_trans [OF p keeps_arm]
          keeps_trans [OF keeps_trans [OF keeps_trans [OF p keeps_TimerStop] c] keeps_TimerStart]
          keeps_trans [OF keeps_TimerStop keeps_arm])
qed

lemma keeps_fold: "(\<And>i s. keeps s (f i s)) \<Longrightarrow> keeps s (fold f is s)"
  by (induction "is" arbitrary: s) (auto intro: keeps_trans)

lemma keeps_reportAttrTimerStart: "keeps s (reportAttrTimerStart env s)"
  unfolding reportAttrTimerStart_def by (rule keeps_fold) (rule keeps_TimerStart_entry)

lemma keeps_EntryRst: "keeps s (zcl_reportCfgInfoEntryRst env i s)"
proof -
  let ?f = "\<lambda>e. e\<lparr>minInterval := minIntDft e, maxInterval := maxIntDft e,
     minIntCnt := minIntDft e, maxIntCnt := maxIntDft e, reportableChange := replicate 8 0\<rparr>"
  have "keeps s (upd_entry i ?f s)" by (rule keeps_upd_entry) (simp_all add: entry_key_def)
  then show ?thesis
    unfolding zcl_reportCfgInfoEntryRst_def Let_def
    by (auto split: option.splits
        intro: keeps_trans keeps_trans [OF keeps_TimerStop keeps_reportAttrTimerStart] keeps_reportAttrTimerStart)
qed

lemma same_pool_keeps: "keeps s s' \<Longrightarrow> same_pool s s'"
  by (rule same_pool_eq) (simp_all add: keeps_def)

subsection \<open>What sending achieves\<close>

lemma report_scan_again:
  "report_scan env js acc s = (acc', s') \<Longrightarrow> \<forall>i \<in> set js. i < length (reportCfgInfo s) \<Longrightarrow>
     acc_again acc \<Longrightarrow> acc_again acc'"
proof (induction js arbitrary: acc s)
  case (Cons i js)
  have i: "i < length (reportCfgInfo s)" and js: "\<forall>i \<in> set js. i < length (reportCfgInfo s)"
    using Cons.prems(2) by auto
  from Cons.prems(1) i show ?case
  proof (cases rule: report_scan_Cons)
    case (taken a acc2 b)
    then show ?thesis using Cons.IH [of acc2 "upd_entry i (entry_reported b) s"] js Cons.prems(3) by auto
  next
    case other
    then show ?thesis using Cons.IH [of "acc\<lparr>acc_again := True\<rparr>" s] js by simp
  qed (use Cons.IH js Cons.prems(3) in blast)
qed simp

lemma report_scan_done:
  "report_scan env js acc s = (acc', s') \<Longrightarrow> \<forall>i \<in> set js. i < length (reportCfgInfo s) \<Longrightarrow>
     \<not> acc_again acc' \<Longrightarrow> due env s' \<inter> set js = {}"
proof (induction js arbitrary: acc s)
  case (Cons i js)
  have i: "i < length (reportCfgInfo s)" and js: "\<forall>i \<in> set js. i < length (reportCfgInfo s)"
    using Cons.prems(2) by auto
  have sub: "due env s' \<subseteq> due env s2" if "report_scan env js acc2 s2 = (acc', s')"
    "length (reportCfgInfo s2) = length (reportCfgInfo s)" for acc2 s2
    using report_scan_due [OF that(1)] js that(2) by simp
  from Cons.prems(1) i show ?case
  proof (cases rule: report_scan_Cons)
    case skip
    with Cons.IH js Cons.prems(3) sub [OF skip(2)] show ?thesis by auto
  next
    case other
    from report_scan_again [OF other(2) js] Cons.prems(3) show ?thesis by simp
  next
    case (taken a acc2 b)
    let ?s2 = "upd_entry i (entry_reported b) s"
    have "acc' \<noteq> acc2\<lparr>acc_again := True\<rparr>" using Cons.prems(3) by auto
    then have r: "report_scan env js acc2 ?s2 = (acc', s')" using taken(5) by auto
    have "i \<notin> due env ?s2" using due_reported [OF i] by simp
    then have "i \<notin> due env s'" using sub [OF r] by auto
    moreover have "due env s' \<inter> set js = {}" using Cons.IH [OF r] js Cons.prems(3) by simp
    ultimately show ?thesis by auto
  qed
qed simp

lemma reportAttrs_loop_due: "due env (reportAttrs_loop env prof s) = {}"
proof (induction env prof s rule: reportAttrs_loop.induct)
  case (1 env prof s)
  obtain acc s' where p: "report_pass env prof s = (acc, s')" by fastforce
  show ?case
  proof (cases "acc_again acc")
    case True
    then have e: "reportAttrs_loop env prof s = reportAttrs_loop env (acc_profileID acc) s'"
      using p by (subst reportAttrs_loop.simps) simp
    show ?thesis unfolding e by (rule 1 [OF p [symmetric] refl True])
  next
    case False
    then have e: "reportAttrs_loop env prof s = s'"
      using p by (subst reportAttrs_loop.simps) simp
    obtain s1 where r: "report_scan env [0..<length (reportCfgInfo s)] (report_acc0 prof) s = (acc, s1)"
      and s': "s' = report_send env acc s1"
      using p by (auto simp: report_pass_def split: prod.splits)
    have d: "due env s' = due env s1" unfolding s' by (rule due_cong) simp_all
    have l: "length (reportCfgInfo s1) = length (reportCfgInfo s)"
      using report_scan_due [OF r] by simp
    have "due env s1 \<subseteq> {0..<length (reportCfgInfo s1)}" by (auto simp: due_def)
    then show ?thesis using report_scan_done [OF r _ False] unfolding e d l by auto
  qed
qed

text \<open>C10. Sending reports leaves nothing due. \<^verbatim>\<open>reportAttrs\<close> ends on every table, and afterwards no
  used, bound entry of an existing attribute has a counter that has run out.\<close>

theorem reportAttrs_complete:
  "\<forall>e \<in> set (reportCfgInfo (reportAttrs env s)). reportable_entry env e \<and>
     zcl_findAttribute (endPoint e) (r_clusterID e) (r_attrID e) (reportAttrs env s) \<noteq> None \<longrightarrow>
     minIntCnt e \<noteq> 0 \<and> (maxIntCnt e \<noteq> 0 \<or> maxInterval e = 0)"
proof
  let ?s = "reportAttrs env s"
  fix e assume "e \<in> set (reportCfgInfo ?s)"
  then obtain i where i: "i < length (reportCfgInfo ?s)" "reportCfgInfo ?s ! i = e"
    by (auto simp: in_set_conv_nth)
  moreover have "i \<notin> due env ?s" using reportAttrs_loop_due [where env = env and prof = "0xFFFF" and s = s] by (simp add: reportAttrs_def)
  ultimately show "reportable_entry env e \<and>
     zcl_findAttribute (endPoint e) (r_clusterID e) (r_attrID e) ?s \<noteq> None \<longrightarrow>
     minIntCnt e \<noteq> 0 \<and> (maxIntCnt e \<noteq> 0 \<or> maxInterval e = 0)"
    by (auto simp: due_def entry_valid_def)
qed

definition ex_due :: zst where
  "ex_due = ex_state\<lparr>reportCfgInfo := [ex_entry\<lparr>r_used := 1, endPoint := 1, r_clusterID := 0x0402,
     r_attrID := 0, maxInterval := 60, maxIntCnt := 0, minIntCnt := 5\<rparr>, ex_entry, ex_entry]\<rparr>"

lemma reportAttrs_complete_witness: "maxIntCnt (reportCfgInfo (reportAttrs ex_env ex_due) ! 0) \<noteq> 0"
proof -
  let ?s = "reportAttrs ex_env ex_due"
  have c: "length (reportCfgInfo ?s) = 3 \<and>
      reportable_entry ex_env (reportCfgInfo ?s ! 0) \<and> maxInterval (reportCfgInfo ?s ! 0) = 60 \<and>
      zcl_findAttribute (endPoint (reportCfgInfo ?s ! 0)) (r_clusterID (reportCfgInfo ?s ! 0))
        (r_attrID (reportCfgInfo ?s ! 0)) ?s \<noteq> None"
    by code_simp
  then have "reportCfgInfo ?s ! 0 \<in> set (reportCfgInfo ?s)" by simp
  from reportAttrs_complete [THEN bspec, OF this] c show ?thesis by auto
qed

text \<open>The records collected so far belong to due entries of the cluster and endpoint chosen.\<close>

definition acc_good :: "zenv \<Rightarrow> zst \<Rightarrow> report_acc \<Rightarrow> bool" where
  "acc_good env s acc \<longleftrightarrow> (acc_clusterID acc = 0xFFFF \<longrightarrow> acc_attr acc = []) \<and>
     (\<forall>r \<in> set (acc_attr acc). \<exists>i \<in> due env s. \<exists>a.
        endPoint (reportCfgInfo s ! i) = acc_endpoint acc \<and> r_clusterID (reportCfgInfo s ! i) = acc_clusterID acc \<and>
        zcl_findAttribute (acc_endpoint acc) (acc_clusterID acc) (r_attrID (reportCfgInfo s ! i)) s = Some a \<and>
        r = report_of a s)"

lemma report_of_cong: "ram s' = ram s \<Longrightarrow> report_of a s' = report_of a s"
  by (simp add: report_of_def attr_view_def)

lemma table_keys_nth:
  assumes "table_keys s' = table_keys s" "i < length (reportCfgInfo s)"
  shows "r_clusterID (reportCfgInfo s' ! i) = r_clusterID (reportCfgInfo s ! i)"
    "endPoint (reportCfgInfo s' ! i) = endPoint (reportCfgInfo s ! i)"
    "r_attrID (reportCfgInfo s' ! i) = r_attrID (reportCfgInfo s ! i)"
    "r_used (reportCfgInfo s' ! i) = r_used (reportCfgInfo s ! i)"
proof -
  have "length (reportCfgInfo s') = length (reportCfgInfo s)"
    using arg_cong [OF assms(1), of length] by (simp add: table_keys_def)
  with assms(2) arg_cong [OF assms(1), of "\<lambda>xs. xs ! i"]
  show "r_clusterID (reportCfgInfo s' ! i) = r_clusterID (reportCfgInfo s ! i)"
    "endPoint (reportCfgInfo s' ! i) = endPoint (reportCfgInfo s ! i)"
    "r_attrID (reportCfgInfo s' ! i) = r_attrID (reportCfgInfo s ! i)"
    "r_used (reportCfgInfo s' ! i) = r_used (reportCfgInfo s ! i)"
    by (simp_all add: table_keys_def entry_key_def)
qed

lemma report_scan_good:
  "report_scan env js acc s = (acc', s') \<Longrightarrow> \<forall>i \<in> set js. i < length (reportCfgInfo s) \<Longrightarrow>
   table_keys s = table_keys s0 \<Longrightarrow> ram s = ram s0 \<Longrightarrow> clusterList s = clusterList s0 \<Longrightarrow>
   due env s \<subseteq> due env s0 \<Longrightarrow> \<forall>e \<in> set (reportCfgInfo s0). r_clusterID e \<noteq> 0xFFFF \<Longrightarrow>
   acc_good env s0 acc \<Longrightarrow> length (acc_attr acc) < 2 \<Longrightarrow>
   acc_good env s0 acc' \<and> length (acc_attr acc') \<le> 2 \<and> T_sent s' = T_sent s \<and> ub s' = ub s \<and> pool s' = pool s"
proof (induction js arbitrary: acc s)
  case (Cons i js)
  have i: "i < length (reportCfgInfo s)" and js: "\<forall>i \<in> set js. i < length (reportCfgInfo s)"
    using Cons.prems(2) by auto
  have l0: "length (reportCfgInfo s) = length (reportCfgInfo s0)"
    using arg_cong [OF Cons.prems(3), of length] by (simp add: table_keys_def)
  from Cons.prems(1) i show ?case
  proof (cases rule: report_scan_Cons)
    case skip
    show ?thesis by (rule Cons.IH [OF skip(2) js Cons.prems(3-9)])
  next
    case other
    have "acc_good env s0 (acc\<lparr>acc_again := True\<rparr>)" using Cons.prems(8) by (simp add: acc_good_def)
    from Cons.IH [OF other(2) js Cons.prems(3-7) this] Cons.prems(9) show ?thesis by simp
  next
    case (taken a acc2 b)
    let ?s2 = "upd_entry i (entry_reported b) s"
    note k = table_keys_nth [OF Cons.prems(3) [symmetric], of i] and i0 = i [unfolded l0]
    have cl: "acc_clusterID acc2 \<noteq> 0xFFFF"
      using Cons.prems(7) k(1) i i0 nth_mem taken(6) by fastforce
    have new: "i \<in> due env s0 \<and> endPoint (reportCfgInfo s0 ! i) = acc_endpoint acc2 \<and>
        r_clusterID (reportCfgInfo s0 ! i) = acc_clusterID acc2 \<and>
        zcl_findAttribute (acc_endpoint acc2) (acc_clusterID acc2) (r_attrID (reportCfgInfo s0 ! i)) s0 = Some a \<and>
        report_of a s = report_of a s0"
      using taken(1,2,6,7) k [OF i] Cons.prems(6) report_of_cong [OF Cons.prems(4)]
        findAttribute_cong [OF Cons.prems(5)] by auto
    have g2: "acc_good env s0 acc2"
      unfolding acc_good_def
    proof (intro conjI ballI)
      show "acc_clusterID acc2 = 0xFFFF \<longrightarrow> acc_attr acc2 = []" using cl by simp
      fix r assume "r \<in> set (acc_attr acc2)"
      then consider "r \<in> set (acc_attr acc)" | "r = report_of a s" using taken(3) by auto
      then show "\<exists>i \<in> due env s0. \<exists>a. endPoint (reportCfgInfo s0 ! i) = acc_endpoint acc2 \<and>
          r_clusterID (reportCfgInfo s0 ! i) = acc_clusterID acc2 \<and>
          zcl_findAttribute (acc_endpoint acc2) (acc_clusterID acc2) (r_attrID (reportCfgInfo s0 ! i)) s0 = Some a \<and>
          r = report_of a s0"
      proof cases
        case 1
        with taken(8) Cons.prems(8) show ?thesis unfolding acc_good_def by force
      next
        case 2
        with new show ?thesis by auto
      qed
    qed
    have keys2: "table_keys ?s2 = table_keys s0"
      using Cons.prems(3) by (subst table_keys_upd) (simp_all add: entry_key_def)
    have due2: "due env ?s2 \<subseteq> due env s0" using due_reported [OF i] Cons.prems(6) by auto
    from taken(9) show ?thesis
    proof
      assume "acc' = acc2\<lparr>acc_again := True\<rparr> \<and> s' = ?s2"
      with g2 taken(3) Cons.prems(9) show ?thesis by (simp add: acc_good_def)
    next
      assume h: "length (acc_attr acc2) < 2 \<and> report_scan env js acc2 ?s2 = (acc', s')"
      from Cons.IH [of acc2 ?s2, OF conjunct2 [OF h] _ keys2 _ _ due2 Cons.prems(7) g2 conjunct1 [OF h]]
      show ?thesis using js Cons.prems(4,5) by simp
    qed
  qed
qed simp

lemma writeReq_len_payload: "writeReq_len recs = of_nat (length (write_payload recs))"
proof -
  have "foldl (\<lambda>len r. len + 3 + zcl_getAttrSize (w_dataType r) (w_attrData r)) n recs
      = n + of_nat (length (write_payload recs))" for n
    by (induction recs arbitrary: n) (simp_all add: attr_rec_shape write_val_def algebra_simps)
  then show ?thesis by (simp add: writeReq_len_def)
qed

definition report_frame :: "report_acc \<Rightarrow> u8 \<Rightarrow> sent_t" where
  "report_frame acc seqNo = sent_frame (acc_endpoint acc)
     \<lparr>shortAddr = 0, profileId = acc_profileID acc, dstAddrMode = APS_DSTADDR_EP_NOTPRESETNT,
      dstEp = 0, txOptions = 0\<rparr> (acc_clusterID acc)
     (zcl_buildHdr 0 ZCL_FRAME_SERVER_CLIENT_DIR 1 MANUFACTURER_CODE_NONE seqNo ZCL_CMD_REPORT
        @ write_payload (acc_attr acc))"

lemma report_send_sends:
  assumes "zok s" "length (write_payload (acc_attr acc)) < 65530"
  shows "ub (report_send env acc s) = ub s"
    "T_sent (report_send env acc s) = T_sent s \<or>
     acc_clusterID acc \<noteq> 0xFFFF \<and> T_sent (report_send env acc s) = report_frame acc (zcl_seqNum s) # T_sent s"
proof -
  have "ub (report_send env acc s) = ub s \<and> (T_sent (report_send env acc s) = T_sent s \<or>
     acc_clusterID acc \<noteq> 0xFFFF \<and> T_sent (report_send env acc s) = report_frame acc (zcl_seqNum s) # T_sent s)"
  proof (cases "acc_clusterID acc = 0xFFFF")
    case False
    let ?s0 = "s\<lparr>zcl_seqNum := zcl_seqNum s + 1\<rparr>"
    let ?dst = "\<lparr>shortAddr = 0, profileId = acc_profileID acc, dstAddrMode = APS_DSTADDR_EP_NOTPRESETNT,
      dstEp = 0, txOptions = 0\<rparr>"
    obtain st s' where b: "zcl_sendBuf env (acc_endpoint acc) ?dst (acc_clusterID acc) ZCL_CMD_REPORT
        ZCL_FRAME_SERVER_CLIENT_DIR 1 MANUFACTURER_CODE_NONE (zcl_seqNum s)
        (of_nat (length (write_payload (acc_attr acc)))) (of_nat (length (write_payload (acc_attr acc))))
        (write_payload (acc_attr acc)) ?s0 = (st, s')" by fastforce
    have "report_send env acc s = s'"
      using False b by (simp add: report_send_def zcl_sendReportAttrsCmd_def zcl_reportAttrs_def
          writeReq_len_payload Let_def flip: write_payload_def)
    moreover have "zok ?s0" using assms(1) by simp
    ultimately show ?thesis
      using sendBuf_sends [OF b refl refl assms(2)] False by (auto simp: report_frame_def)
  qed (simp add: report_send_def)
  then show "ub (report_send env acc s) = ub s" "T_sent (report_send env acc s) = T_sent s \<or>
     acc_clusterID acc \<noteq> 0xFFFF \<and> T_sent (report_send env acc s) = report_frame acc (zcl_seqNum s) # T_sent s"
    by auto
qed

text \<open>C11. A report frame carries at most two attributes, of one cluster of one endpoint, that are
  due, with their current values; a turn of the loop of \<^verbatim>\<open>reportAttrs\<close> sends at most this one
  frame, with the direction server to client and the next sequence number, and writes outside
  no block. (\<^verbatim>\<open>0xFFFF\<close>, which marks the accumulator as empty, is not the identifier of a
  cluster that is reported.)\<close>

theorem report_pass_frame:
  assumes "report_pass env prof s = (acc, s')" "pool_ok (pool s)"
    "\<forall>e \<in> set (reportCfgInfo s). r_clusterID e \<noteq> 0xFFFF"
    "length (write_payload (acc_attr acc)) < 65530"
  shows "length (acc_attr acc) \<le> 2 \<and> ub s' = ub s \<and>
    (\<forall>r \<in> set (acc_attr acc). \<exists>i \<in> due env s. \<exists>a.
        endPoint (reportCfgInfo s ! i) = acc_endpoint acc \<and> r_clusterID (reportCfgInfo s ! i) = acc_clusterID acc \<and>
        zcl_findAttribute (acc_endpoint acc) (acc_clusterID acc) (r_attrID (reportCfgInfo s ! i)) s = Some a \<and>
        r = report_of a s) \<and>
    (T_sent s' = T_sent s \<or> (\<exists>n. T_sent s' = report_frame acc n # T_sent s))"
proof -
  obtain s1 where r: "report_scan env [0..<length (reportCfgInfo s)] (report_acc0 prof) s = (acc, s1)"
    and s': "s' = report_send env acc s1"
    using assms(1) by (auto simp: report_pass_def split: prod.splits)
  have g0: "acc_good env s (report_acc0 prof)" "length (acc_attr (report_acc0 prof)) < 2"
    by (simp_all add: acc_good_def report_acc0_def)
  from report_scan_good [OF r _ refl refl refl order.refl assms(3) g0]
  have g: "acc_good env s acc" "length (acc_attr acc) \<le> 2" "T_sent s1 = T_sent s" "ub s1 = ub s" "zok s1"
    using assms(2) by simp_all
  from report_send_sends [OF g(5) assms(4), of env] g show ?thesis
    unfolding s' acc_good_def by auto
qed

lemma report_pass_frame_witness:
  "length (acc_attr (fst (report_pass ex_env 0x0104 ex_due))) = 1 \<and>
   \<not> ub (snd (report_pass ex_env 0x0104 ex_due))"
proof -
  let ?r = "report_pass ex_env 0x0104 ex_due"
  have p: "?r = (fst ?r, snd ?r)" by simp
  have l: "length (acc_attr (fst ?r)) = 1 \<and> length (write_payload (acc_attr (fst ?r))) = 5" by code_simp
  have "pool_ok (pool ex_due)" "\<not> ub ex_due" "\<forall>e \<in> set (reportCfgInfo ex_due). r_clusterID e \<noteq> 0xFFFF"
    using ex_state_ok(1) by (simp_all add: ex_due_def ex_entry_def) (simp add: ex_state_def)
  with report_pass_frame [OF p] l show ?thesis by simp
qed

subsection \<open>The check for a reportable change\<close>

definition le_val :: "nat \<Rightarrow> view \<Rightarrow> nat" where
  \<comment> \<open>the number the first \<open>n\<close> bytes stand for\<close>
  "le_val n v = (\<Sum>i<n. 256 ^ i * unat (v i))"

definition le_sval :: "nat \<Rightarrow> view \<Rightarrow> int" where
  \<comment> \<open>the same bytes in two's complement\<close>
  "le_sval n v = (if 2 * le_val n v < 256 ^ n then int (le_val n v) else int (le_val n v) - 256 ^ n)"

lemma byte_bound: "unat (b :: u8) < 256"
  using unsigned_less [of b, where ?'a = nat] by simp

lemma unat_ucast_u8_u32 [simp]: "unat (ucast (b :: u8) :: u32) = unat b"
  using byte_bound [of b] by (simp add: unsigned_ucast_eq take_bit_nat_eq_self)

lemma unat_BUILD_U24: "unat (BUILD_U24 a b c) = unat a + 256 * unat b + 65536 * unat c"
proof -
  have p: "unat (push_bit 8 (ucast b :: u32)) = 256 * unat b" "unat (push_bit 16 (ucast c :: u32)) = 65536 * unat c"
    using byte_bound [of b] byte_bound [of c] by (simp_all add: push_bit_eq_mult unat_word_ariths)
  show ?thesis
    using byte_bound [of a] byte_bound [of b] byte_bound [of c] p
    by (simp add: BUILD_U24_def unat_word_ariths)
qed

lemma unat_BUILD_U32: "unat (BUILD_U32 a b c d) = unat a + 256 * unat b + 65536 * unat c + 16777216 * unat d"
proof -
  have p: "unat (push_bit 8 (ucast b :: u32)) = 256 * unat b" "unat (push_bit 16 (ucast c :: u32)) = 65536 * unat c"
    "unat (push_bit 24 (ucast d :: u32)) = 16777216 * unat d"
    using byte_bound [of b] byte_bound [of c] byte_bound [of d]
    by (simp_all add: push_bit_eq_mult unat_word_ariths)
  show ?thesis
    using byte_bound [of a] byte_bound [of b] byte_bound [of c] byte_bound [of d] p
    by (simp add: BUILD_U32_def unat_word_ariths)
qed

lemma le_val_simps:
  "le_val 1 v = unat (v 0)" "le_val 2 v = unat (BUILD_U16 (v 0) (v 1))"
  "le_val 3 v = unat (BUILD_U24 (v 0) (v 1) (v 2))" "le_val 4 v = unat (BUILD_U32 (v 0) (v 1) (v 2) (v 3))"
proof -
  have s: "{..<1} = {0 :: nat}" "{..<2} = {0, 1 :: nat}" "{..<3} = {0, 1, 2 :: nat}" "{..<4} = {0, 1, 2, 3 :: nat}"
    by auto
  show "le_val 1 v = unat (v 0)" "le_val 2 v = unat (BUILD_U16 (v 0) (v 1))"
    "le_val 3 v = unat (BUILD_U24 (v 0) (v 1) (v 2))" "le_val 4 v = unat (BUILD_U32 (v 0) (v 1) (v 2) (v 3))"
    unfolding le_val_def s by (simp_all add: unat_BUILD_U16 unat_BUILD_U24 unat_BUILD_U32)
qed

lemma unat_less: "unat (x - y) = unat x - unat y \<and> unat y < unat x" if "y < (x :: 'a::len word)"
  using that by (simp add: unat_sub word_less_nat_alt word_le_nat_alt less_imp_le)

lemma chg_u_iff:
  "chg_u P C R \<longleftrightarrow> unat C \<noteq> unat P \<and> int (unat R) \<le> \<bar>int (unat C) - int (unat P)\<bar>"
proof -
  consider "C < P" | "P < C" | "P = C" by force
  then show ?thesis
  proof cases
    case 1
    from unat_less [OF this] have "unat R \<le> unat (P - C) \<longleftrightarrow> int (unat R) \<le> \<bar>int (unat C) - int (unat P)\<bar>"
      "unat C \<noteq> unat P" by arith+
    with 1 show ?thesis unfolding chg_u_def word_le_nat_alt by simp
  next
    case 2
    from unat_less [OF this] have "unat R \<le> unat (C - P) \<longleftrightarrow> int (unat R) \<le> \<bar>int (unat C) - int (unat P)\<bar>"
      "unat C \<noteq> unat P" by arith+
    moreover have "\<not> P > C" using 2 by simp
    ultimately show ?thesis using 2 unfolding chg_u_def word_le_nat_alt by simp
  qed (simp add: chg_u_def)
qed

lemma sint_u8: "sint (b :: u8) = (if unat b < 128 then int (unat b) else int (unat b) - 256)"
proof -
  have b: "- 128 \<le> sint b" "sint b < 128" using sint_greater_eq [of b] sint_less [of b] by simp_all
  have "int (unat b) = sint b mod 256" using uint_sint [of b] by (simp add: take_bit_eq_mod)
  also have "\<dots> = (if 0 \<le> sint b then sint b else sint b + 256)"
    using b mod_pos_pos_trivial [of "sint b" 256] mod_pos_pos_trivial [of "sint b + 256" 256] by simp
  finally show ?thesis using b
    by (cases "0 \<le> sint b"; cases "unat b < 128"; simp only: if_True if_False; linarith)
qed

lemma sint_u16: "sint (b :: u16) = (if unat b < 32768 then int (unat b) else int (unat b) - 65536)"
proof -
  have b: "- 32768 \<le> sint b" "sint b < 32768" using sint_greater_eq [of b] sint_less [of b] by simp_all
  have "int (unat b) = sint b mod 65536" using uint_sint [of b] by (simp add: take_bit_eq_mod)
  also have "\<dots> = (if 0 \<le> sint b then sint b else sint b + 65536)"
    using b mod_pos_pos_trivial [of "sint b" 65536] mod_pos_pos_trivial [of "sint b + 65536" 65536] by simp
  finally show ?thesis using b
    by (cases "0 \<le> sint b"; cases "unat b < 32768"; simp only: if_True if_False; linarith)
qed

lemma le_sval_simps:
  "le_sval 1 v = sint (v 0)" "le_sval 2 v = BUILD_S16 (v 0) (v 1)"
  unfolding le_sval_def le_val_simps sint_u8 BUILD_S16_def sint_u16 by simp_all

lemma sint_of_int_u32: "- 2147483648 \<le> x \<Longrightarrow> x < 2147483648 \<Longrightarrow> sint (of_int x :: u32) = x"
  by (simp add: signed_take_bit_int_eq_self signed_of_int)

lemma chg_s_iff:
  assumes "\<bar>P - C\<bar> < 2147483648"
  shows "chg_s P C R \<longleftrightarrow> C \<noteq> P \<and> R \<le> \<bar>C - P\<bar>"
proof -
  have "sint (of_int (P - C) :: u32) = P - C" "sint (of_int (C - P) :: u32) = C - P"
    using assms by (intro sint_of_int_u32; linarith)+
  then show ?thesis unfolding chg_s_def by auto
qed

lemma le_sval_bounds: "n \<le> 2 \<Longrightarrow> 0 < n \<Longrightarrow> - 32768 \<le> le_sval n v \<and> le_sval n v < 32768"
proof -
  assume "n \<le> 2" "0 < n"
  then have "n = 1 \<or> n = 2" by linarith
  moreover have "- 32768 \<le> sint (v 0) \<and> sint (v 0) < 32768"
    using sint_greater_eq [of "v 0"] sint_less [of "v 0"] by simp
  moreover have "- 32768 \<le> BUILD_S16 (v 0) (v 1) \<and> BUILD_S16 (v 0) (v 1) < 32768"
    using sint_greater_eq [of "BUILD_U16 (v 0) (v 1)"] sint_less [of "BUILD_U16 (v 0) (v 1)"]
    by (simp add: BUILD_S16_def)
  ultimately show ?thesis using le_sval_simps by metis
qed

lemma type_lens:
  "unat (zcl_getDataTypeLen ZCL_DATA_TYPE_UINT8) = 1" "unat (zcl_getDataTypeLen ZCL_DATA_TYPE_UINT16) = 2"
  "unat (zcl_getDataTypeLen ZCL_DATA_TYPE_UINT24) = 3" "unat (zcl_getDataTypeLen ZCL_DATA_TYPE_UINT32) = 4"
  "unat (zcl_getDataTypeLen ZCL_DATA_TYPE_INT8) = 1" "unat (zcl_getDataTypeLen ZCL_DATA_TYPE_INT16) = 2"
  by (simp_all add: zcl_getDataTypeLen_def)

lemma chk_unsigned:
  "reportableChangeValueChk ZCL_DATA_TYPE_UINT8 c p r = chg_u (p 0) (c 0) (r 0)"
  "reportableChangeValueChk ZCL_DATA_TYPE_UINT16 c p r =
     chg_u (BUILD_U16 (p 0) (p 1)) (BUILD_U16 (c 0) (c 1)) (BUILD_U16 (r 0) (r 1))"
  "reportableChangeValueChk ZCL_DATA_TYPE_UINT24 c p r =
     chg_u (BUILD_U24 (p 0) (p 1) (p 2)) (BUILD_U24 (c 0) (c 1) (c 2)) (BUILD_U24 (r 0) (r 1) (r 2))"
  "reportableChangeValueChk ZCL_DATA_TYPE_UINT32 c p r =
     chg_u (BUILD_U32 (p 0) (p 1) (p 2) (p 3)) (BUILD_U32 (c 0) (c 1) (c 2) (c 3)) (BUILD_U32 (r 0) (r 1) (r 2) (r 3))"
  by (simp_all add: reportableChangeValueChk_def)

lemma chk_signed:
  "reportableChangeValueChk ZCL_DATA_TYPE_INT8 c p r = chg_s (sint (p 0)) (sint (c 0)) (sint (r 0))"
  "reportableChangeValueChk ZCL_DATA_TYPE_INT16 c p r =
     chg_s (BUILD_S16 (p 0) (p 1)) (BUILD_S16 (c 0) (c 1)) (BUILD_S16 (r 0) (r 1))"
  "reportableChangeValueChk ZCL_DATA_TYPE_INT24 c p r =
     chg_s (BUILD_S24 (p 0) (p 1) (p 2)) (BUILD_S24 (c 0) (c 1) (c 2)) (BUILD_S24 (r 0) (r 1) (r 2))"
  by (simp_all add: reportableChangeValueChk_def)

lemma BUILD_S24_unsigned: "BUILD_S24 (v 0) (v 1) (v 2) = int (le_val 3 v)" "le_val 3 v < 16777216"
proof -
  let ?w = "BUILD_U24 (v 0) (v 1) (v 2)"
  show b: "le_val 3 v < 16777216"
    using byte_bound [of "v 0"] byte_bound [of "v 1"] byte_bound [of "v 2"]
    unfolding le_val_simps unat_BUILD_U24 by linarith
  have "sint (of_int (int (le_val 3 v)) :: u32) = int (le_val 3 v)"
    using b by (intro sint_of_int_u32) linarith+
  moreover have "(of_int (int (le_val 3 v)) :: u32) = ?w" unfolding le_val_simps by simp
  ultimately show "BUILD_S24 (v 0) (v 1) (v 2) = int (le_val 3 v)" by (simp add: BUILD_S24_def)
qed

lemma sint_u32: "sint (b :: u32) = (if unat b < 2147483648 then int (unat b) else int (unat b) - 4294967296)"
proof -
  have b: "- 2147483648 \<le> sint b" "sint b < 2147483648" using sint_greater_eq [of b] sint_less [of b] by simp_all
  have "int (unat b) = sint b mod 4294967296" using uint_sint [of b] by (simp add: take_bit_eq_mod)
  also have "\<dots> = (if 0 \<le> sint b then sint b else sint b + 4294967296)"
    using b mod_pos_pos_trivial [of "sint b" 4294967296] mod_pos_pos_trivial [of "sint b + 4294967296" 4294967296] by simp
  finally show ?thesis using b
    by (cases "0 \<le> sint b"; cases "unat b < 2147483648"; simp only: if_True if_False; linarith)
qed

lemma le_sval_4: "le_sval 4 v = BUILD_S32 (v 0) (v 1) (v 2) (v 3)"
  unfolding le_sval_def le_val_simps BUILD_S32_def sint_u32 by simp

text \<open>The difference of two 32-bit signed values can be too large for the \<^verbatim>\<open>int\<close> it is computed in.\<close>

definition wrapped :: "int \<Rightarrow> int" where
  "wrapped d = (if d < 2147483648 then d else d - 4294967296)"

lemma sint_wrapped: "0 \<le> d \<Longrightarrow> d < 4294967296 \<Longrightarrow> sint (of_int d :: u32) = wrapped d"
proof (cases "d < 2147483648")
  case False
  assume "0 \<le> d" "d < 4294967296"
  have "(of_int d :: u32) = of_int (d - 4294967296)" unfolding word_of_int_eq_iff by (simp add: take_bit_eq_mod)
  then have "sint (of_int d :: u32) = sint (of_int (d - 4294967296) :: u32)" by (simp only:)
  also have "\<dots> = d - 4294967296" by (rule sint_of_int_u32) (use False \<open>d < 4294967296\<close> in auto)
  finally show ?thesis using False by (simp add: wrapped_def)
qed (simp add: sint_of_int_u32 wrapped_def)

lemma chg_s_wrapped:
  assumes "\<bar>C - P\<bar> < 4294967296"
  shows "chg_s P C R \<longleftrightarrow> C \<noteq> P \<and> R \<le> wrapped \<bar>C - P\<bar>"
  using assms sint_wrapped [of "P - C"] sint_wrapped [of "C - P"] by (auto simp: chg_s_def)

lemma chk_INT24: "reportableChangeValueChk ZCL_DATA_TYPE_INT24 c p r \<longleftrightarrow>
    le_val 3 c \<noteq> le_val 3 p \<and> int (le_val 3 r) \<le> \<bar>int (le_val 3 c) - int (le_val 3 p)\<bar>"
proof -
  have "\<bar>int (le_val 3 p) - int (le_val 3 c)\<bar> < 2147483648"
    using BUILD_S24_unsigned(2) [of p] BUILD_S24_unsigned(2) [of c] by linarith
  from chg_s_iff [OF this] show ?thesis unfolding chk_signed BUILD_S24_unsigned by simp
qed

lemma chk_INT32: "reportableChangeValueChk ZCL_DATA_TYPE_INT32 c p r \<longleftrightarrow>
    le_sval 4 c \<noteq> le_sval 4 p \<and> le_sval 4 r \<le> wrapped \<bar>le_sval 4 c - le_sval 4 p\<bar>"
proof -
  have b: "- 2147483648 \<le> le_sval 4 v \<and> le_sval 4 v < 2147483648" for v
    unfolding le_sval_4 BUILD_S32_def
    using sint_greater_eq [of "BUILD_U32 (v 0) (v 1) (v 2) (v 3)"] sint_less [of "BUILD_U32 (v 0) (v 1) (v 2) (v 3)"] by simp
  have "reportableChangeValueChk ZCL_DATA_TYPE_INT32 c p r = chg_s (le_sval 4 p) (le_sval 4 c) (le_sval 4 r)"
    unfolding le_sval_4 by (simp add: reportableChangeValueChk_def)
  also have "\<dots> \<longleftrightarrow> le_sval 4 c \<noteq> le_sval 4 p \<and> le_sval 4 r \<le> wrapped \<bar>le_sval 4 c - le_sval 4 p\<bar>"
    by (rule chg_s_wrapped) (use b [of c] b [of p] in arith)
  finally show ?thesis .
qed

lemma chk_other:
  "t \<notin> {ZCL_DATA_TYPE_UINT8, ZCL_DATA_TYPE_UINT16, ZCL_DATA_TYPE_UINT24, ZCL_DATA_TYPE_UINT32,
        ZCL_DATA_TYPE_INT8, ZCL_DATA_TYPE_INT16, ZCL_DATA_TYPE_INT24, ZCL_DATA_TYPE_INT32} \<Longrightarrow>
   \<not> reportableChangeValueChk t c p r"
  by (simp add: reportableChangeValueChk_def)

lemma chk_u_exact:
  assumes "t \<in> {ZCL_DATA_TYPE_UINT8, ZCL_DATA_TYPE_UINT16, ZCL_DATA_TYPE_UINT24, ZCL_DATA_TYPE_UINT32}"
    "n = unat (zcl_getDataTypeLen t)"
  shows "reportableChangeValueChk t c p r \<longleftrightarrow>
    le_val n c \<noteq> le_val n p \<and> int (le_val n r) \<le> \<bar>int (le_val n c) - int (le_val n p)\<bar>"
  using assms(1) unfolding assms(2) insert_iff empty_iff
  by (elim disjE; simp only: type_lens chk_unsigned chg_u_iff le_val_simps refl simp_thms)

lemma chk_s_exact:
  assumes "t \<in> {ZCL_DATA_TYPE_INT8, ZCL_DATA_TYPE_INT16}" "n = unat (zcl_getDataTypeLen t)"
  shows "reportableChangeValueChk t c p r \<longleftrightarrow>
    le_sval n c \<noteq> le_sval n p \<and> le_sval n r \<le> \<bar>le_sval n c - le_sval n p\<bar>"
proof -
  have n: "n = 1 \<and> t = ZCL_DATA_TYPE_INT8 \<or> n = 2 \<and> t = ZCL_DATA_TYPE_INT16"
    using assms by (auto simp: zcl_getDataTypeLen_def)
  have "reportableChangeValueChk t c p r = chg_s (le_sval n p) (le_sval n c) (le_sval n r)"
    using n by (elim disjE conjE) (simp_all only: le_sval_simps chk_signed)
  moreover have "\<bar>le_sval n p - le_sval n c\<bar> < 2147483648"
    using le_sval_bounds [of n p] le_sval_bounds [of n c] n by auto
  ultimately show ?thesis by (simp add: chg_s_iff)
qed

text \<open>C16. What the change check answers, for every data type, with the values read as little-endian
  numbers. For the unsigned types of one to four bytes and the signed types of one and two it
  is exact: yes if and only if the current value differs from the value last reported by at least the
  reportable change. A 24-bit signed value is compared as an unsigned one. For 32-bit signed values
  the difference is computed in 32 bits, so the check is exact while the difference is below
  \<open>2\<^sup>3\<^sup>1\<close>, and compares the wrapped, negative difference beyond (signed overflow, which C leaves
  undefined). For every other type - more than four bytes, floating point, dates and times - the
  answer is no.\<close>

theorem change_check_exact:
  "let n = unat (zcl_getDataTypeLen t);
       exact_u = (le_val n c \<noteq> le_val n p \<and> int (le_val n r) \<le> \<bar>int (le_val n c) - int (le_val n p)\<bar>);
       exact_s = (le_sval n c \<noteq> le_sval n p \<and> le_sval n r \<le> \<bar>le_sval n c - le_sval n p\<bar>);
       wrapped_s = (le_sval n c \<noteq> le_sval n p \<and> le_sval n r \<le> wrapped \<bar>le_sval n c - le_sval n p\<bar>) in
   reportableChangeValueChk t c p r \<longleftrightarrow>
    (if t \<in> {ZCL_DATA_TYPE_UINT8, ZCL_DATA_TYPE_UINT16, ZCL_DATA_TYPE_UINT24, ZCL_DATA_TYPE_UINT32} then exact_u
     else if t \<in> {ZCL_DATA_TYPE_INT8, ZCL_DATA_TYPE_INT16} then exact_s
     else if t = ZCL_DATA_TYPE_INT24 then exact_u
     else if t = ZCL_DATA_TYPE_INT32 then
       (if \<bar>le_sval n c - le_sval n p\<bar> < 2 ^ 31 then exact_s else wrapped_s)
     else False)"
proof -
  define n where "n = unat (zcl_getDataTypeLen t)"
  have n3: "t = ZCL_DATA_TYPE_INT24 \<Longrightarrow> n = 3" and n4: "t = ZCL_DATA_TYPE_INT32 \<Longrightarrow> n = 4"
    by (simp_all add: n_def zcl_getDataTypeLen_def)
  show ?thesis
    unfolding Let_def n_def [symmetric]
    using chk_u_exact [OF _ n_def] chk_s_exact [OF _ n_def] chk_INT24 [of c p r] n3 chk_INT32 [of c p r] n4
      chk_other [of t c p r]
    by (cases "t \<in> {ZCL_DATA_TYPE_UINT8, ZCL_DATA_TYPE_UINT16, ZCL_DATA_TYPE_UINT24, ZCL_DATA_TYPE_UINT32}";
        cases "t \<in> {ZCL_DATA_TYPE_INT8, ZCL_DATA_TYPE_INT16}"; cases "t = ZCL_DATA_TYPE_INT24";
        cases "t = ZCL_DATA_TYPE_INT32") (simp_all only: if_True if_False simp_thms insert_iff empty_iff wrapped_def, simp_all)
qed

lemma change_check_exact_witness:
  "reportableChangeValueChk ZCL_DATA_TYPE_INT16 (lview [0xFE, 0xFF] (\<lambda>_. 0)) (lview [3, 0] (\<lambda>_. 0)) (lview [5, 0] (\<lambda>_. 0))"
proof -
  have "le_sval 2 (lview [0xFE, 0xFF] (\<lambda>_. 0)) = -2" "le_sval 2 (lview [3, 0] (\<lambda>_. 0)) = 3"
    "le_sval 2 (lview [5, 0] (\<lambda>_. 0)) = 5" "zcl_getDataTypeLen ZCL_DATA_TYPE_INT16 = 2"
    unfolding le_sval_simps by code_simp+
  with change_check_exact [of ZCL_DATA_TYPE_INT16 "lview [0xFE, 0xFF] (\<lambda>_. 0)" "lview [3, 0] (\<lambda>_. 0)"
      "lview [5, 0] (\<lambda>_. 0)"]
  show ?thesis by (simp add: Let_def)
qed

text \<open>So the step of a 24-bit signed value from -1 to 0 counts as a change of \<^verbatim>\<open>0xFFFFFF\<close>, and an analog
  value of more than four bytes, a floating-point number, a date or a time is never seen to change.\<close>

theorem change_check_gaps:
  "(reportableChangeValueChk ZCL_DATA_TYPE_INT24 c p r \<longleftrightarrow>
      le_val 3 c \<noteq> le_val 3 p \<and> int (le_val 3 r) \<le> \<bar>int (le_val 3 c) - int (le_val 3 p)\<bar>) \<and>
   (zcl_analogDataType t \<and> (unat (zcl_getDataTypeLen t) > 4 \<or>
      t \<in> {ZCL_DATA_TYPE_SEMI_PREC, ZCL_DATA_TYPE_SINGLE_PREC, ZCL_DATA_TYPE_TOD, ZCL_DATA_TYPE_DATE,
           ZCL_DATA_TYPE_UTC}) \<longrightarrow> \<not> reportableChangeValueChk t c p r)"
  using chk_INT24 by (auto intro!: chk_other simp: zcl_getDataTypeLen_def)

lemma change_check_gaps_witness:
  "\<not> reportableChangeValueChk ZCL_DATA_TYPE_SINGLE_PREC (lview [1, 2, 3, 4] (\<lambda>_. 0)) (\<lambda>_. 0) (\<lambda>_. 0)"
  using change_check_gaps [of "\<lambda>_. 0" "\<lambda>_. 0" "\<lambda>_. 0" ZCL_DATA_TYPE_SINGLE_PREC]
    change_check_gaps [of "lview [1, 2, 3, 4] (\<lambda>_. 0)" "\<lambda>_. 0" "\<lambda>_. 0" ZCL_DATA_TYPE_SINGLE_PREC]
  by (simp add: zcl_analogDataType_def)

end
