(* ===== verification/Zcl_Report.thy ===== *)
theory Zcl_Report
  imports Zcl_Reporting "HOL-Library.Multiset"
begin

text \<open>
  Configure Reporting, Read Reporting Configuration and Report Attributes of
  \<^verbatim>\<open>zigbee/zcl/zcl.c\<close>, and \<^verbatim>\<open>bdb_defaultReportingCfg\<close> of \<^verbatim>\<open>zigbee/bdb/bdb.c\<close>, which
  configures a report from inside the device.

  The handlers keep the size of their blocks in a \<^verbatim>\<open>u8\<close>; the values wrap here as they do
  there.
\<close>

subsection \<open>Sending\<close>

definition cfg_rec_len :: "zclCfgReportRec_t \<Rightarrow> u16" where
  "cfg_rec_len r = 3 +
     (if c_direction r = ZCL_SEND_ATTR_REPORTS
      then 5 + (if zcl_analogDataType (c_dataType r)
                then zcl_getAttrSize (c_dataType r) (c_reportableChange r) else 0)
      else 2)"

definition cfg_rec_bytes :: "zclCfgReportRec_t \<Rightarrow> bytes" where
  "cfg_rec_bytes r = [c_direction r] @ u16_bytes (c_attrID r) @
     (if c_direction r = ZCL_SEND_ATTR_REPORTS
      then [c_dataType r] @ u16_bytes (c_minReportInt r) @ u16_bytes (c_maxReportInt r) @
           (if zcl_analogDataType (c_dataType r)
            then vtake (unat (zcl_getAttrSize (c_dataType r) (c_reportableChange r))) (c_reportableChange r)
            else [])
      else u16_bytes (c_timeoutPeriod r))"

definition zcl_configReport ::
  "zenv \<Rightarrow> u8 \<Rightarrow> epInfo_t \<Rightarrow> u16 \<Rightarrow> u16 \<Rightarrow> u8 \<Rightarrow> u8 \<Rightarrow> u8 \<Rightarrow> zclCfgReportRec_t list \<Rightarrow> zst \<Rightarrow> u8 \<times> zst" where
  "zcl_configReport env srcEp dst clusterId manu disableDefaultRsp direction seqNo recs s =
     (let len = foldl (\<lambda>len r. len + cfg_rec_len r) 0 recs in
      zcl_sendBuf env srcEp dst clusterId ZCL_CMD_CONFIG_REPORT direction disableDefaultRsp manu seqNo
        len len (concat (map cfg_rec_bytes recs)) s)"

definition cfgRsp_rec :: "u8 \<times> u8 \<times> u16 \<Rightarrow> bytes" where
  "cfgRsp_rec r = (case r of (status, direction, attrId) \<Rightarrow> [status, direction] @ u16_bytes attrId)"

definition zcl_configReportRsp ::
  "zenv \<Rightarrow> u8 \<Rightarrow> epInfo_t \<Rightarrow> u16 \<Rightarrow> u16 \<Rightarrow> u8 \<Rightarrow> u8 \<Rightarrow> u8 \<Rightarrow> (u8 \<times> u8 \<times> u16) list \<Rightarrow> zst \<Rightarrow> u8 \<times> zst" where
  "zcl_configReportRsp env srcEp dst clusterId manu disableDefaultRsp direction seqNo recs s =
     (let len = (if length recs = 0 then 1 else of_nat (length recs) * 4);
          bs = (if length recs = 0 then [ZCL_STA_SUCCESS] else concat (map cfgRsp_rec recs)) in
      zcl_sendBuf env srcEp dst clusterId ZCL_CMD_CONFIG_REPORT_RSP direction disableDefaultRsp manu
        seqNo len len bs s)"

definition readCfg_rec :: "u8 \<times> u16 \<Rightarrow> bytes" where
  "readCfg_rec r = fst r # u16_bytes (snd r)"

definition zcl_readReportConfig ::
  "zenv \<Rightarrow> u8 \<Rightarrow> epInfo_t \<Rightarrow> u16 \<Rightarrow> u16 \<Rightarrow> u8 \<Rightarrow> u8 \<Rightarrow> u8 \<Rightarrow> (u8 \<times> u16) list \<Rightarrow> zst \<Rightarrow> u8 \<times> zst" where
  "zcl_readReportConfig env srcEp dst clusterId manu disableDefaultRsp direction seqNo recs s =
     (let len = of_nat (length recs) * 3 in
      zcl_sendBuf env srcEp dst clusterId ZCL_CMD_READ_REPORT_CFG direction disableDefaultRsp manu
        seqNo len len (concat (map readCfg_rec recs)) s)"

definition cfgInfo_rec_len :: "zclReportCfgRspRec_t \<Rightarrow> u16" where
  "cfgInfo_rec_len r = 4 +
     (if q_status r = ZCL_STA_SUCCESS then
        (if q_direction r = ZCL_SEND_ATTR_REPORTS
         then 5 + (if zcl_analogDataType (q_dataType r)
                   then zcl_getAttrSize (q_dataType r) (q_reportableChange r) else 0)
         else 2)
      else 0)"

definition cfgInfo_rec_bytes :: "zclReportCfgRspRec_t \<Rightarrow> bytes" where
  "cfgInfo_rec_bytes r = [q_status r, q_direction r] @ u16_bytes (q_attrID r) @
     (if q_status r = ZCL_STA_SUCCESS then
        (if q_direction r = ZCL_SEND_ATTR_REPORTS
         then [q_dataType r] @ u16_bytes (q_minReportInt r) @ u16_bytes (q_maxReportInt r) @
              (if zcl_analogDataType (q_dataType r)
               then vtake (unat (zcl_getAttrSize (q_dataType r) (q_reportableChange r))) (q_reportableChange r)
               else [])
         else u16_bytes (q_timeoutPeriod r))
      else [])"

definition zcl_readReportConfigRsp ::
  "zenv \<Rightarrow> u8 \<Rightarrow> epInfo_t \<Rightarrow> u16 \<Rightarrow> u16 \<Rightarrow> u8 \<Rightarrow> u8 \<Rightarrow> u8 \<Rightarrow> zclReportCfgRspRec_t list \<Rightarrow> zst \<Rightarrow> u8 \<times> zst" where
  "zcl_readReportConfigRsp env srcEp dst clusterId manu disableDefaultRsp direction seqNo recs s =
     (let len = foldl (\<lambda>len r. len + cfgInfo_rec_len r) 0 recs in
      zcl_sendBuf env srcEp dst clusterId ZCL_CMD_READ_REPORT_CFG_RSP direction disableDefaultRsp manu
        seqNo len len (concat (map cfgInfo_rec_bytes recs)) s)"

subsection \<open>Parsing Configure Reporting\<close>

text \<open>The first pass: a record whose type is not analog is taken to be one byte longer than the
  second pass reads it.\<close>

function cfg_scan :: "view \<Rightarrow> nat \<Rightarrow> nat \<Rightarrow> u8 \<Rightarrow> u16 \<Rightarrow> u8 \<times> u16" where
  "cfg_scan v i end numAttr dLen =
     (if i < end then
        (if v i = ZCL_SEND_ATTR_REPORTS then
           (if zcl_analogDataType (v (i + 3))
            then let n = zcl_getDataTypeLen (v (i + 3)) in
                 cfg_scan v (i + 8 + unat n) end (numAttr + 1) (dLen + ucast n)
            else cfg_scan v (i + 9) end (numAttr + 1) dLen)
         else cfg_scan v (i + 5) end (numAttr + 1) dLen)
      else (numAttr, dLen))"
  by pat_completeness auto
termination by (relation "measure (\<lambda>(_, i, e, _). e - i)") (auto simp: Let_def)

text \<open>The second pass. The block was cleared, so a field that is not set is \<open>0\<close>; the change
  pointer is then null, and a read through it finds whatever is at address \<open>0\<close>.\<close>

fun cfg_fill :: "view \<Rightarrow> nat \<Rightarrow> view \<Rightarrow> bytes \<times> zclCfgReportRec_t list" where
  "cfg_fill junk 0 v = ([], [])"
| "cfg_fill junk (Suc k) v =
     (if v 0 = ZCL_SEND_ATTR_REPORTS then
        (let t = v 3;
             n = (if zcl_analogDataType t then unat (zcl_getDataTypeLen t) else 0);
             new = (if zcl_analogDataType t then vtake n (zcl_analogDataBuild t junk (vdrop 8 v)) else []);
             (rest, rs) = cfg_fill junk k (vdrop (8 + n) v) in
         (new @ rest,
          \<lparr>c_direction = v 0, c_attrID = get_u16 (vdrop 1 v), c_dataType = t,
           c_minReportInt = get_u16 (vdrop 4 v), c_maxReportInt = get_u16 (vdrop 6 v),
           c_timeoutPeriod = 0,
           c_reportableChange = (if zcl_analogDataType t then lview (new @ rest) junk else junk)\<rparr> # rs))
      else
        (let (rest, rs) = cfg_fill junk k (vdrop 5 v) in
         (rest,
          \<lparr>c_direction = v 0, c_attrID = get_u16 (vdrop 1 v), c_dataType = 0, c_minReportInt = 0,
           c_maxReportInt = 0, c_timeoutPeriod = get_u16 (vdrop 3 v), c_reportableChange = junk\<rparr> # rs)))"

definition cfg_len :: "u8 \<Rightarrow> u8" where
  "cfg_len numAttr = 1 + numAttr * 14"

text \<open>The value area starts behind the \<open>len\<close> bytes of the records; when \<open>len\<close> wrapped, the
  records run into it.\<close>

definition zcl_parseInCfgReportCmd ::
  "zenv \<Rightarrow> zclIncoming_t \<Rightarrow> zst \<Rightarrow> (ptr \<times> zclCfgReportRec_t list) option \<times> zst" where
  "zcl_parseInCfgReportCmd env m s =
     (let (numAttr, dLen) = cfg_scan (pData m) 0 (unat (dataLen m)) 0 0;
          len = cfg_len numAttr in
      case zalloc (ucast len + dLen) s of
        (None, s1) \<Rightarrow> (None, s1)
      | (Some p, s1) \<Rightarrow>
          (let s2 = buf_touch p (unat len + unat dLen) s1;
               (area, recs) = cfg_fill (uninit env) (unat numAttr) (pData m);
               s3 = buf_touch p (unat len + length area) s2 in
           (Some (p, recs), s3\<lparr>ub := (ub s3 \<or> unat len < 1 + 14 * length recs)\<rparr>)))"


subsection \<open>Configuring\<close>

definition zcl_configureReporting ::
  "zenv \<Rightarrow> u8 \<Rightarrow> u16 \<Rightarrow> u16 \<Rightarrow> zclCfgReportRec_t \<Rightarrow> zst \<Rightarrow> u8 \<times> zst" where
  "zcl_configureReporting env ep profId clusterId r s =
     (case zcl_findAttribute ep clusterId (c_attrID r) s of
        None \<Rightarrow> (ZCL_STA_UNSUPPORTED_ATTRIBUTE, s)
      | Some a \<Rightarrow>
          (if a_type a \<noteq> c_dataType r then (ZCL_STA_INVALID_DATA_TYPE, s)
           else if a_access a AND ACCESS_CONTROL_REPORTABLE = 0 then (ZCL_STA_UNSUPPORTED_ATTRIBUTE, s)
           else if c_direction r = ZCL_EXPECT_ATTR_REPORTS then (ZCL_STA_UNSUPPORTED_ATTRIBUTE, s)
           else
             (let pEntry = zcl_reportCfgInfoEntryFind ep clusterId (c_attrID r) s;
                  update = (case (case pEntry of None \<Rightarrow> zcl_reportCfgInfoEntryFreeGet s | Some i \<Rightarrow> Some i) of
                      None \<Rightarrow> (ZCL_STA_INSUFFICIENT_SPACE, s)
                    | Some i \<Rightarrow> (ZCL_STA_SUCCESS, zcl_reportCfgInfoEntryUpdate i ep profId clusterId r s)) in
              if c_maxReportInt r = 0xFFFF then
                (if pEntry = None then (ZCL_STA_NOT_FOUND, s) else update)
              else if c_maxReportInt r = 0 then
                (if c_minReportInt r = 0xFFFF then
                   (case pEntry of None \<Rightarrow> (ZCL_STA_NOT_FOUND, s)
                    | Some i \<Rightarrow> (ZCL_STA_SUCCESS, zcl_reportCfgInfoEntryRst env i s))
                 else update)
              else if c_maxReportInt r < c_minReportInt r then (ZCL_STA_INVALID_VALUE, s)
              else update)))"

definition bdb_defaultReportingCfg ::
  "zenv \<Rightarrow> u8 \<Rightarrow> u16 \<Rightarrow> u16 \<Rightarrow> u16 \<Rightarrow> u16 \<Rightarrow> u16 \<Rightarrow> view \<Rightarrow> zst \<Rightarrow> u8 \<times> zst" where
  "bdb_defaultReportingCfg env ep profId clusterId attrId minInt maxInt change s =
     (if zcl_reportCfgInfoEntryFind ep clusterId attrId s \<noteq> None then (ZCL_STA_DUPLICATE_EXISTS, s)
      else case zcl_findAttribute ep clusterId attrId s of
        None \<Rightarrow> (ZCL_STA_UNSUPPORTED_ATTRIBUTE, s)
      | Some a \<Rightarrow>
          zcl_configureReporting env ep profId clusterId
            \<lparr>c_direction = 0, c_attrID = attrId, c_dataType = a_type a, c_minReportInt = minInt,
             c_maxReportInt = maxInt, c_timeoutPeriod = 0, c_reportableChange = change\<rparr> s)"

text \<open>The loop of \<^verbatim>\<open>zcl_configReportHandler\<close>: the failures, and whether anything changed.\<close>

fun cfg_loop ::
  "zenv \<Rightarrow> u8 \<Rightarrow> u16 \<Rightarrow> u16 \<Rightarrow> zclCfgReportRec_t list \<Rightarrow> bool \<Rightarrow> (u8 \<times> u8 \<times> u16) list \<Rightarrow> zst \<Rightarrow>
     bool \<times> (u8 \<times> u8 \<times> u16) list \<times> zst" where
  "cfg_loop env ep profId clusterId [] chg fails s = (chg, fails, s)"
| "cfg_loop env ep profId clusterId (r # rs) chg fails s =
     (let (status, s') = zcl_configureReporting env ep profId clusterId r s in
      if status = ZCL_STA_SUCCESS then cfg_loop env ep profId clusterId rs True fails s'
      else cfg_loop env ep profId clusterId rs chg (fails @ [(status, c_direction r, c_attrID r)]) s')"

definition zcl_configReportHandler ::
  "zenv \<Rightarrow> zclIncoming_t \<Rightarrow> zst \<Rightarrow> u8 \<times> zclIncoming_t \<times> zst" where
  "zcl_configReportHandler env m s =
     (let clusterId = i_cluster_id (indInfo (msg m));
          ep = i_dst_ep (indInfo (msg m)) in
      case zcl_parseInCfgReportCmd env m s of
        (None, s1) \<Rightarrow> (ZCL_STA_INSUFFICIENT_SPACE, m, s1)
      | (Some (p, recs), s1) \<Rightarrow>
          (let m1 = set_attrCmd p (CfgReportCmd recs) m in
           if length recs = 0 then (ZCL_STA_INVALID_FIELD, m1, s1)
           else
             (let len = 1 + of_nat (length recs) * 4 :: u8 in
              case zalloc (ucast len) s1 of
                (None, s2) \<Rightarrow> (ZCL_STA_INSUFFICIENT_SPACE, m1, s2)
              | (Some q, s2) \<Rightarrow>
                  (let (chg, fails, s3) = cfg_loop env ep (i_profile_id (indInfo (msg m))) clusterId
                         recs False [] s2;
                       s4 = buf_touch q (1 + 4 * length fails) s3;
                       s5 = (if chg then snd (zcl_reportingTab_save env s4) else s4);
                       (status, s6) = zcl_configReportRsp env ep (reply_ep m 0) clusterId
                         (h_manufCode (hdr m)) 1 (not_dir m) (h_seqNum (hdr m)) fails s5;
                       s7 = zfree q s6 in
                   (if status = ZCL_STA_SUCCESS then ZCL_STA_CMD_HAS_RESP else status, m1, s7)))))"

definition zcl_parseInCfgReportRspCmd ::
  "zclIncoming_t \<Rightarrow> zst \<Rightarrow> (ptr \<times> (u8 \<times> u8 \<times> u16) list) option \<times> zst" where
  "zcl_parseInCfgReportRspCmd m s =
     (let numAttr = (if dataLen m = 1 then 1 else ucast (dataLen m div 4)) :: u8;
          len = 1 + ucast numAttr * 4 in
      case zalloc len s of
        (None, s1) \<Rightarrow> (None, s1)
      | (Some p, s1) \<Rightarrow>
          (let v = pData m;
               recs = (if dataLen m = 1 then [(v 0, 0xFF, 0xFFFF)]
                       else map (\<lambda>i. (v (4 * i), v (4 * i + 1), get_u16 (vdrop (4 * i + 2) v)))
                              [0..<unat numAttr]) in
           (Some (p, recs), buf_touch p (1 + 4 * length recs) s1)))"

definition zcl_configReportRspHandler ::
  "zenv \<Rightarrow> zclIncoming_t \<Rightarrow> zst \<Rightarrow> u8 \<times> zclIncoming_t \<times> zst" where
  "zcl_configReportRspHandler env m s =
     (case zcl_parseInCfgReportRspCmd m s of
        (None, s1) \<Rightarrow> (ZCL_STA_INSUFFICIENT_SPACE, m, s1)
      | (Some (p, recs), s1) \<Rightarrow> (ZCL_STA_SUCCESS, set_attrCmd p (CfgReportRspCmd recs) m, s1))"

subsection \<open>Reading the configuration\<close>

definition zcl_parseInReadReportCfgCmd ::
  "zclIncoming_t \<Rightarrow> zst \<Rightarrow> (ptr \<times> (u8 \<times> u16) list) option \<times> zst" where
  "zcl_parseInReadReportCfgCmd m s =
     (let numAttr = ucast (dataLen m div 3) :: u8; len = 1 + ucast numAttr * 3 in
      case zalloc len s of
        (None, s1) \<Rightarrow> (None, s1)
      | (Some p, s1) \<Rightarrow>
          (let v = pData m;
               recs = map (\<lambda>i. (v (3 * i), get_u16 (vdrop (3 * i + 1) v))) [0..<unat numAttr] in
           (Some (p, recs), buf_touch p (1 + 3 * length recs) s1)))"

text \<open>The loop of \<^verbatim>\<open>zcl_readReportCfgHandler\<close>. \<open>st\<close> is the variable \<^verbatim>\<open>status\<close>, which is not set
  back between the records: after a failure it stays.\<close>

fun readCfg_loop ::
  "u8 \<Rightarrow> u16 \<Rightarrow> view \<Rightarrow> (u8 \<times> u16) list \<Rightarrow> u8 \<Rightarrow> zst \<Rightarrow> zclReportCfgRspRec_t list" where
  "readCfg_loop ep clusterId junk [] st s = []"
| "readCfg_loop ep clusterId junk ((dir, attrId) # rs) st s =
     (let q0 = \<lparr>q_status = st, q_direction = dir, q_attrID = attrId, q_dataType = junk 0,
                q_minReportInt = get_u16 junk, q_maxReportInt = get_u16 junk,
                q_timeoutPeriod = get_u16 junk, q_reportableChange = junk\<rparr>;
          (st', q) =
            (case zcl_findAttribute ep clusterId attrId s of
               None \<Rightarrow> (ZCL_STA_UNSUPPORTED_ATTRIBUTE, q0)
             | Some a \<Rightarrow>
                 (if dir \<noteq> ZCL_SEND_ATTR_REPORTS then (ZCL_STA_UNSUPPORTED_ATTRIBUTE, q0)
                  else if a_access a AND ACCESS_CONTROL_REPORTABLE = 0
                  then (ZCL_STA_UNREPORTABLE_ATTRIBUTE, q0)
                  else case zcl_reportCfgInfoEntryFind ep clusterId attrId s of
                    None \<Rightarrow> (ZCL_STA_NOT_FOUND, q0)
                  | Some i \<Rightarrow>
                      (let e = reportCfgInfo s ! i in
                       (st, q0\<lparr>q_dataType := r_dataType e, q_minReportInt := minInterval e,
                               q_maxReportInt := maxInterval e,
                               q_reportableChange := (if zcl_analogDataType (r_dataType e)
                                 then lview (reportableChange e) junk else junk)\<rparr>)))) in
      q\<lparr>q_status := st'\<rparr> # readCfg_loop ep clusterId junk rs st' s)"

definition zcl_readReportCfgHandler ::
  "zenv \<Rightarrow> zclIncoming_t \<Rightarrow> zst \<Rightarrow> u8 \<times> zclIncoming_t \<times> zst" where
  "zcl_readReportCfgHandler env m s =
     (let clusterId = i_cluster_id (indInfo (msg m));
          ep = i_dst_ep (indInfo (msg m)) in
      case zcl_parseInReadReportCfgCmd m s of
        (None, s1) \<Rightarrow> (ZCL_STA_INSUFFICIENT_SPACE, m, s1)
      | (Some (p, recs), s1) \<Rightarrow>
          (let m1 = set_attrCmd p (ReadReportCfgCmd recs) m;
               len = 1 + of_nat (length recs) * 15 :: u8 in
           case zalloc (ucast len) s1 of
             (None, s2) \<Rightarrow> (ZCL_STA_INSUFFICIENT_SPACE, m1, s2)
           | (Some q, s2) \<Rightarrow>
               (let s3 = buf_touch q (1 + 15 * length recs) s2;
                    rsp = readCfg_loop ep clusterId (uninit env) recs ZCL_STA_SUCCESS s3;
                    (status, s4) = zcl_readReportConfigRsp env ep (reply_ep m 0) clusterId
                      (h_manufCode (hdr m)) 1 (not_dir m) (h_seqNum (hdr m)) rsp s3;
                    s5 = zfree q s4 in
                (if status = ZCL_STA_SUCCESS then ZCL_STA_CMD_HAS_RESP else status, m1, s5))))"

declare cfg_scan.simps [simp del]


function cfgRsp_scan :: "view \<Rightarrow> nat \<Rightarrow> nat \<Rightarrow> u8 \<Rightarrow> u16 \<Rightarrow> u8 \<times> u16" where
  "cfgRsp_scan v i end numAttr dLen =
     (if i < end then
        (if v i = ZCL_STA_SUCCESS then
           (if v (i + 1) = ZCL_SEND_ATTR_REPORTS then
              (if zcl_analogDataType (v (i + 4))
               then let n = zcl_getDataTypeLen (v (i + 4)) in
                    cfgRsp_scan v (i + 9 + unat n) end (numAttr + 1) (dLen + ucast n)
               else cfgRsp_scan v (i + 9) end (numAttr + 1) dLen)
            else cfgRsp_scan v (i + 6) end (numAttr + 1) dLen)
         else cfgRsp_scan v (i + 4) end (numAttr + 1) dLen)
      else (numAttr, dLen))"
  by pat_completeness auto
termination by (relation "measure (\<lambda>(_, i, e, _). e - i)") (auto simp: Let_def)

text \<open>The block is not cleared here: the fields a record does not carry keep what was in it.\<close>

fun cfgRsp_fill :: "view \<Rightarrow> nat \<Rightarrow> view \<Rightarrow> bytes \<times> zclReportCfgRspRec_t list" where
  "cfgRsp_fill junk 0 v = ([], [])"
| "cfgRsp_fill junk (Suc k) v =
     (let q0 = \<lparr>q_status = v 0, q_direction = v 1, q_attrID = get_u16 (vdrop 2 v), q_dataType = junk 0,
                q_minReportInt = get_u16 junk, q_maxReportInt = get_u16 junk,
                q_timeoutPeriod = get_u16 junk, q_reportableChange = junk\<rparr> in
      if v 0 = ZCL_STA_SUCCESS then
        (if v 1 = ZCL_SEND_ATTR_REPORTS then
           (let t = v 4;
                n = (if zcl_analogDataType t then unat (zcl_getDataTypeLen t) else 0);
                new = (if zcl_analogDataType t then vtake n (zcl_analogDataBuild t junk (vdrop 9 v)) else []);
                (rest, rs) = cfgRsp_fill junk k (vdrop (9 + n) v) in
            (new @ rest,
             q0\<lparr>q_dataType := t, q_minReportInt := get_u16 (vdrop 5 v),
                q_maxReportInt := get_u16 (vdrop 7 v),
                q_reportableChange := (if zcl_analogDataType t then lview (new @ rest) junk else junk)\<rparr> # rs))
         else
           (let (rest, rs) = cfgRsp_fill junk k (vdrop 6 v) in
            (rest, q0\<lparr>q_timeoutPeriod := get_u16 (vdrop 4 v)\<rparr> # rs)))
      else
        (let (rest, rs) = cfgRsp_fill junk k (vdrop 4 v) in (rest, q0 # rs)))"

definition zcl_parseInReadReportCfgRspCmd ::
  "zenv \<Rightarrow> zclIncoming_t \<Rightarrow> zst \<Rightarrow> (ptr \<times> zclReportCfgRspRec_t list) option \<times> zst" where
  "zcl_parseInReadReportCfgRspCmd env m s =
     (let (numAttr, dLen) = cfgRsp_scan (pData m) 0 (unat (dataLen m)) 0 0;
          len = 1 + ucast numAttr * 15 in
      case zalloc (len + dLen) s of
        (None, s1) \<Rightarrow> (None, s1)
      | (Some p, s1) \<Rightarrow>
          (let (area, recs) = cfgRsp_fill (uninit env) (unat numAttr) (pData m) in
           (Some (p, recs), buf_touch p (unat len + length area) s1)))"

definition zcl_readReportCfgRspHandler ::
  "zenv \<Rightarrow> zclIncoming_t \<Rightarrow> zst \<Rightarrow> u8 \<times> zclIncoming_t \<times> zst" where
  "zcl_readReportCfgRspHandler env m s =
     (case zcl_parseInReadReportCfgRspCmd env m s of
        (None, s1) \<Rightarrow> (ZCL_STA_INSUFFICIENT_SPACE, m, s1)
      | (Some (p, recs), s1) \<Rightarrow> (ZCL_STA_SUCCESS, set_attrCmd p (ReadReportCfgRspCmd recs) m, s1))"

subsection \<open>Incoming reports\<close>

text \<open>A report is laid out like a write command, and its parser has the same two passes.\<close>

definition zcl_parseInReportCmd ::
  "zenv \<Rightarrow> zclIncoming_t \<Rightarrow> zst \<Rightarrow> (ptr \<times> zclReport_t list) option \<times> zst" where
  "zcl_parseInReportCmd env m s =
     (let (numAttr, dLen) = write_scan (pData m) 0 (unat (dataLen m)) 0 0;
          len = 1 + ucast numAttr * 7 in
      case zalloc (len + dLen) s of
        (None, s1) \<Rightarrow> (None, s1)
      | (Some p, s1) \<Rightarrow>
          (let (area, recs) = write_fill (uninit env) (unat numAttr) (pData m) in
           (Some (p, recs), buf_touch p (unat len + length area) s1)))"

definition zcl_reportHandler ::
  "zenv \<Rightarrow> zclIncoming_t \<Rightarrow> zst \<Rightarrow> u8 \<times> zclIncoming_t \<times> zst" where
  "zcl_reportHandler env m s =
     (case zcl_parseInReportCmd env m s of
        (None, s1) \<Rightarrow> (ZCL_STA_INSUFFICIENT_SPACE, m, s1)
      | (Some (p, recs), s1) \<Rightarrow> (ZCL_STA_SUCCESS, set_attrCmd p (ReportCmd recs) m, s1))"

declare cfgRsp_scan.simps [simp del]


subsection \<open>Blocks\<close>

text \<open>What is required of the code outside: it gives back the blocks it takes, unless it writes outside
  an object, and it never clears the mark of such a write.\<close>

definition env_balanced :: "zenv \<Rightarrow> bool" where
  "env_balanced env \<longleftrightarrow>
     (\<forall>t s. no_leak s (snd (nv_flashWriteNew env t s))) \<and>
     (\<forall>s. no_leak s (ota_upgradeAbort env s)) \<and>
     (\<forall>f m s. no_leak s (snd (cmdHandler env f m s))) \<and>
     (\<forall>h m s. no_leak s (hook env h m s))"

lemma parseInCfgReportCmd_holds [pool_effects]:
  "zcl_parseInCfgReportCmd env m s = (r, s') \<Longrightarrow> holds s (map_option fst r) s'"
  by (auto simp: zcl_parseInCfgReportCmd_def Let_def split: handled_splits
      dest!: holds_alloc intro!: holds_ub holds_touch)

lemma parseInCfgReportRspCmd_holds [pool_effects]:
  "zcl_parseInCfgReportRspCmd m s = (r, s') \<Longrightarrow> holds s (map_option fst r) s'"
  by (auto simp: zcl_parseInCfgReportRspCmd_def Let_def split: handled_splits
      dest!: holds_alloc intro: holds_touch)

lemma parseInReadReportCfgCmd_holds [pool_effects]:
  "zcl_parseInReadReportCfgCmd m s = (r, s') \<Longrightarrow> holds s (map_option fst r) s'"
  by (auto simp: zcl_parseInReadReportCfgCmd_def Let_def split: handled_splits
      dest!: holds_alloc intro: holds_touch)

lemma parseInReadReportCfgRspCmd_holds [pool_effects]:
  "zcl_parseInReadReportCfgRspCmd env m s = (r, s') \<Longrightarrow> holds s (map_option fst r) s'"
  by (auto simp: zcl_parseInReadReportCfgRspCmd_def Let_def split: handled_splits
      dest!: holds_alloc intro: holds_touch)

lemma parseInReportCmd_holds [pool_effects]:
  "zcl_parseInReportCmd env m s = (r, s') \<Longrightarrow> holds s (map_option fst r) s'"
  by (auto simp: zcl_parseInReportCmd_def Let_def split: handled_splits
      dest!: holds_alloc intro: holds_touch)

lemma configReportRsp_effect:
  assumes "zcl_configReportRsp env srcEp dst cl manu dis dir seq recs s = (st, s')"
  shows "only_sent s s'" "no_leak s s'"
  using sendBuf_effect(1,3) [OF assms [unfolded zcl_configReportRsp_def Let_def]] by simp_all

lemma readReportConfigRsp_effect:
  assumes "zcl_readReportConfigRsp env srcEp dst cl manu dis dir seq recs s = (st, s')"
  shows "only_sent s s'" "no_leak s s'"
  using sendBuf_effect(1,3) [OF assms [unfolded zcl_readReportConfigRsp_def Let_def]] by simp_all

lemmas [pool_effects] = configReportRsp_effect(2) readReportConfigRsp_effect(2)

lemma EntryUpdate_pool [simp]:
  "pool (zcl_reportCfgInfoEntryUpdate i ep prof cl r s) = pool s"
  "hookFn (zcl_reportCfgInfoEntryUpdate i ep prof cl r s) = hookFn s"
  "ub (zcl_reportCfgInfoEntryUpdate i ep prof cl r s) = ub s"
  by (simp_all add: zcl_reportCfgInfoEntryUpdate_def Let_def upd_entry_def)

lemma configureReporting_pool:
  "zcl_configureReporting env ep prof cl r s = (st, s') \<Longrightarrow> pool s' = pool s \<and> hookFn s' = hookFn s \<and> (ub s \<longrightarrow> ub s')"
  using keeps_EntryRst [of s env]
  by (auto simp: zcl_configureReporting_def Let_def keeps_def split: handled_splits)

lemma cfg_loop_pool:
  "cfg_loop env ep prof cl rs chg fs s = (chg', fs', s') \<Longrightarrow> pool s' = pool s \<and> hookFn s' = hookFn s \<and> (ub s \<longrightarrow> ub s')"
  by (induction rs arbitrary: chg fs s)
    (auto split: handled_splits dest!: configureReporting_pool)

lemma cfg_loop_no_leak [pool_effects]:
  "cfg_loop env ep prof cl rs chg fs s = (chg', fs', s') \<Longrightarrow> no_leak s s'"
  using cfg_loop_pool [of env ep prof cl rs chg fs s chg' fs' s'] by (intro no_leak_eq) simp_all

lemma configReportRspHandler_handled [pool_effects]:
  "zcl_configReportRspHandler env m s = (st, m', s') \<Longrightarrow> handled m s m' s'"
  by (auto simp: zcl_configReportRspHandler_def set_attrCmd_def split: handled_splits
      dest!: pool_effects intro!: handled_rules)

lemma readReportCfgHandler_handled [pool_effects]:
  "zcl_readReportCfgHandler env m s = (st, m', s') \<Longrightarrow> handled m s m' s'"
  by (auto simp: zcl_readReportCfgHandler_def Let_def set_attrCmd_def split: handled_splits
      dest!: pool_effects intro!: handled_rules intro: answer_rules)

lemma readReportCfgRspHandler_handled [pool_effects]:
  "zcl_readReportCfgRspHandler env m s = (st, m', s') \<Longrightarrow> handled m s m' s'"
  by (auto simp: zcl_readReportCfgRspHandler_def set_attrCmd_def split: handled_splits
      dest!: pool_effects intro!: handled_rules)

lemma reportHandler_handled [pool_effects]:
  "zcl_reportHandler env m s = (st, m', s') \<Longrightarrow> handled m s m' s'"
  by (auto simp: zcl_reportHandler_def set_attrCmd_def split: handled_splits
      dest!: pool_effects intro!: handled_rules)

lemma save_pool: "env_balanced env \<Longrightarrow> no_leak s (snd (zcl_reportingTab_save env s))"
  by (simp add: env_balanced_def zcl_reportingTab_save_def)

lemma configReportHandler_handled:
  assumes env: "env_balanced env" and h: "zcl_configReportHandler env m s = (st, m', s')"
  shows "handled m s m' s'"
proof -
  have sv: "no_leak (snd (zcl_reportingTab_save env (buf_touch q n s1))) s2 \<Longrightarrow> no_leak s1 s2"
    for q n s1 s2
    by (rule no_leak_touch [OF no_leak_trans [OF save_pool [OF env]]])
  show ?thesis
    using h
    by (auto simp: zcl_configReportHandler_def Let_def set_attrCmd_def split: handled_splits
        dest!: pool_effects sv intro!: handled_rules intro: answer_rules)
qed

subsection \<open>Configure Reporting is read back\<close>

definition cfg_wf :: "zclCfgReportRec_t \<Rightarrow> bool" where
  "cfg_wf r \<longleftrightarrow> (c_direction r = ZCL_SEND_ATTR_REPORTS \<longrightarrow> zcl_analogDataType (c_dataType r))"

definition cfg_val :: "zclCfgReportRec_t \<Rightarrow> bytes" where
  "cfg_val r = (if c_direction r = ZCL_SEND_ATTR_REPORTS
     then vtake (unat (zcl_getDataTypeLen (c_dataType r))) (c_reportableChange r) else [])"

definition cfg_same :: "zclCfgReportRec_t \<Rightarrow> zclCfgReportRec_t \<Rightarrow> bool" where
  \<comment> \<open>the same request: intervals and reportable change, or the timeout\<close>
  "cfg_same r r' \<longleftrightarrow> c_direction r' = c_direction r \<and> c_attrID r' = c_attrID r \<and>
     (if c_direction r = ZCL_SEND_ATTR_REPORTS
      then c_dataType r' = c_dataType r \<and> c_minReportInt r' = c_minReportInt r \<and>
        c_maxReportInt r' = c_maxReportInt r \<and> cfg_val r' = cfg_val r
      else c_timeoutPeriod r' = c_timeoutPeriod r)"

definition cfg_payload :: "zclCfgReportRec_t list \<Rightarrow> bytes" where
  "cfg_payload recs = concat (map cfg_rec_bytes recs)"

lemma cfg_payload_simps [simp]:
  "cfg_payload [] = []" "cfg_payload (r # rs) = cfg_rec_bytes r @ cfg_payload rs"
  by (simp_all add: cfg_payload_def)

lemma cfg_rec_shape:
  "cfg_wf r \<Longrightarrow> cfg_rec_bytes r = [c_direction r, LO_UINT16 (c_attrID r), HI_UINT16 (c_attrID r)] @
     (if c_direction r = ZCL_SEND_ATTR_REPORTS
      then [c_dataType r, LO_UINT16 (c_minReportInt r), HI_UINT16 (c_minReportInt r),
            LO_UINT16 (c_maxReportInt r), HI_UINT16 (c_maxReportInt r)] @ cfg_val r
      else [LO_UINT16 (c_timeoutPeriod r), HI_UINT16 (c_timeoutPeriod r)])"
  by (auto simp: cfg_rec_bytes_def cfg_val_def cfg_wf_def u16_bytes_def analog_attrSize)

lemma length_cfg_payload:
  "\<forall>r \<in> set recs. cfg_wf r \<Longrightarrow>
     5 * length recs + length (concat (map cfg_val recs)) \<le> length (cfg_payload recs)"
  by (induction recs) (auto simp: cfg_rec_shape cfg_val_def)

lemma cfg_at:
  assumes "cfg_wf r" and v: "v = lview (cfg_rec_bytes r @ ys) rest"
  shows "v 0 = c_direction r" "get_u16 (vdrop 1 v) = c_attrID r"
    "c_direction r \<noteq> ZCL_SEND_ATTR_REPORTS \<Longrightarrow> get_u16 (vdrop 3 v) = c_timeoutPeriod r \<and> vdrop 5 v = lview ys rest"
    "c_direction r = ZCL_SEND_ATTR_REPORTS \<Longrightarrow> v 3 = c_dataType r \<and> get_u16 (vdrop 4 v) = c_minReportInt r \<and>
       get_u16 (vdrop 6 v) = c_maxReportInt r \<and> zcl_analogDataType (c_dataType r) \<and>
       unat (zcl_getDataTypeLen (c_dataType r)) = length (cfg_val r) \<and>
       vdrop 8 v = lview (cfg_val r @ ys) rest"
  using assms(1)
  by (auto simp: v cfg_rec_shape get_u16_def numeral_eq_Suc cfg_wf_def cfg_val_def)

lemma cfg_scan_payload:
  "\<forall>r \<in> set recs. cfg_wf r \<Longrightarrow> vdrop i v = lview (cfg_payload recs) rest \<Longrightarrow>
   cfg_scan v i (i + length (cfg_payload recs)) k d =
     (k + of_nat (length recs), d + of_nat (length (concat (map cfg_val recs))))"
proof (induction recs arbitrary: i k d)
  case Nil
  then show ?case by (subst cfg_scan.simps) simp
next
  case (Cons r rs)
  let ?L = "length (cfg_payload rs)"
  have wf: "cfg_wf r" using Cons.prems(1) by simp
  have vi: "vdrop i v = lview (cfg_rec_bytes r @ cfg_payload rs) rest"
    using Cons.prems(2) by (simp only: cfg_payload_simps)
  note at = cfg_at [OF wf vi]
  have v0: "v i = c_direction r" using at(1) by simp
  show ?case
  proof (cases "c_direction r = ZCL_SEND_ATTR_REPORTS")
    case False
    have n: "vdrop (i + 5) v = lview (cfg_payload rs) rest"
      using at(3) [OF False] by simp
    have e: "i + length (cfg_payload (r # rs)) = i + 5 + ?L" "cfg_val r = []"
      using False by (simp_all add: cfg_rec_shape [OF wf] cfg_val_def)
    have "cfg_scan v i (i + length (cfg_payload (r # rs))) k d = cfg_scan v (i + 5) (i + 5 + ?L) (k + 1) d"
      unfolding e using False v0 by (subst cfg_scan.simps) simp
    also have "\<dots> = (k + 1 + of_nat (length rs), d + of_nat (length (concat (map cfg_val rs))))"
      using Cons.IH [OF _ n] Cons.prems(1) by simp
    finally show ?thesis by (simp add: e(2) add.assoc)
  next
    case True
    let ?n = "zcl_getDataTypeLen (v (i + 3))"
    have v3: "v (i + 3) = c_dataType r" "zcl_analogDataType (c_dataType r)"
      using at(4) [OF True] by simp_all
    have z: "unat ?n = length (cfg_val r)" unfolding v3 using at(4) [OF True] by simp
    then have z': "ucast ?n = (of_nat (length (cfg_val r)) :: u16)"
      by (intro eq_of_nat_unat) (simp only: unat_ucast_u8_u16)
    have n: "vdrop (i + 8 + unat ?n) v = lview (cfg_payload rs) rest"
    proof -
      have "vdrop (length (cfg_val r)) (vdrop 8 (vdrop i v)) = lview (cfg_payload rs) rest"
        using at(4) [OF True] by (simp del: vdrop_vdrop)
      then show ?thesis unfolding z by (simp add: add.assoc)
    qed
    have e: "i + length (cfg_payload (r # rs)) = i + 8 + unat ?n + ?L"
      unfolding z using True by (simp add: cfg_rec_shape [OF wf])
    have "cfg_scan v i (i + length (cfg_payload (r # rs))) k d
        = cfg_scan v (i + 8 + unat ?n) (i + 8 + unat ?n + ?L) (k + 1) (d + ucast ?n)"
      unfolding e using True v0 v3 by (subst cfg_scan.simps) (simp add: Let_def)
    also have "\<dots> = (k + 1 + of_nat (length rs), d + ucast ?n + of_nat (length (concat (map cfg_val rs))))"
      using Cons.IH [OF _ n] Cons.prems(1) by simp
    finally show ?thesis unfolding z' by (simp add: add.assoc)
  qed
qed

lemma analogDataBuild_take:
  "zcl_analogDataType t \<Longrightarrow> n = unat (zcl_getDataTypeLen t) \<Longrightarrow>
     vtake n (zcl_analogDataBuild t d b) = vtake n b"
  by (rule nth_equalityI) (simp_all add: analogDataBuild_eq)

lemma cfg_fill_payload:
  "\<forall>r \<in> set recs. cfg_wf r \<Longrightarrow> v = lview (cfg_payload recs) rest \<Longrightarrow>
   fst (cfg_fill junk (length recs) v) = concat (map cfg_val recs) \<and>
   list_all2 cfg_same recs (snd (cfg_fill junk (length recs) v))"
proof (induction recs arbitrary: v)
  case (Cons r rs)
  have wf: "cfg_wf r" using Cons.prems(1) by simp
  have v: "v = lview (cfg_rec_bytes r @ cfg_payload rs) rest"
    using Cons.prems(2) by (simp only: cfg_payload_simps)
  note at = cfg_at [OF wf v]
  show ?case
  proof (cases "c_direction r = ZCL_SEND_ATTR_REPORTS")
    case False
    let ?f = "cfg_fill junk (length rs) (vdrop 5 v)"
    have ih: "fst ?f = concat (map cfg_val rs)" "list_all2 cfg_same rs (snd ?f)"
      using Cons.IH [of "vdrop 5 v"] at(3) [OF False] Cons.prems(1) by simp_all
    let ?r = "\<lparr>c_direction = c_direction r, c_attrID = c_attrID r, c_dataType = 0, c_minReportInt = 0,
      c_maxReportInt = 0, c_timeoutPeriod = c_timeoutPeriod r, c_reportableChange = junk\<rparr>"
    have "cfg_fill junk (length (r # rs)) v = (fst ?f, ?r # snd ?f)"
      using False at(1,2) at(3) [OF False] by (simp add: split_beta)
    moreover have "cfg_val r = []" "cfg_same r ?r" using False by (simp_all add: cfg_val_def cfg_same_def)
    ultimately show ?thesis using ih by (simp del: cfg_fill.simps)
  next
    case True
    let ?n = "length (cfg_val r)"
    note s = at(4) [OF True]
    let ?f = "cfg_fill junk (length rs) (vdrop (8 + ?n) v)"
    have d: "vdrop (8 + ?n) v = lview (cfg_payload rs) rest"
      using vdrop_vdrop [of ?n 8 v] s by simp
    have ih: "fst ?f = concat (map cfg_val rs)" "list_all2 cfg_same rs (snd ?f)"
      using Cons.IH [OF _ d] d Cons.prems(1) by simp_all
    have new: "vtake ?n (zcl_analogDataBuild (c_dataType r) junk (vdrop 8 v)) = cfg_val r"
      using s by (simp add: analogDataBuild_take)
    let ?r = "\<lparr>c_direction = c_direction r, c_attrID = c_attrID r, c_dataType = c_dataType r,
       c_minReportInt = c_minReportInt r, c_maxReportInt = c_maxReportInt r, c_timeoutPeriod = 0,
       c_reportableChange = lview (cfg_val r @ fst ?f) junk\<rparr>"
    have fl: "cfg_fill junk (length (r # rs)) v = (cfg_val r @ fst ?f, ?r # snd ?f)"
      using True at(1,2) s new by (simp add: split_beta Let_def)
    have "cfg_val ?r = vtake ?n (lview (cfg_val r @ fst ?f) junk)"
      using s True by (simp add: cfg_val_def)
    then have "cfg_val ?r = cfg_val r" by simp
    then have "cfg_same r ?r" using True by (simp add: cfg_same_def)
    then show ?thesis using fl ih by (simp del: cfg_fill.simps)
  qed
qed simp

lemma cfg_len_small: "n \<le> 18 \<Longrightarrow> unat (cfg_len (of_nat n)) = 1 + 14 * n"
  by (simp add: cfg_len_def unat_word_ariths unsigned_of_nat take_bit_nat_eq_self)

text \<open>C15. A configuration of reports survives transmission as long as every record to be reported
  is analog and there are at most 18 of them: from exactly the bytes \<^verbatim>\<open>zcl_configReport\<close> builds,
  the parser returns the same records (direction and attribute; type, intervals and
  reportable change; or the timeout) and writes inside its block only. Both bounds are
  sharp, see the next two properties.\<close>

theorem cfg_roundtrip:
  assumes "\<forall>r \<in> set recs. cfg_wf r" "length recs \<le> 18"
    "pData m = lview (cfg_payload recs) rest" "dataLen m = of_nat (length (cfg_payload recs))"
    "length (cfg_payload recs) < 60000"
    "pool_ok (pool s)" "zcl_parseInCfgReportCmd env m s = (Some (p, recs'), s')"
  shows "list_all2 cfg_same recs recs' \<and> ub s' = ub s"
proof -
  let ?vals = "concat (map cfg_val recs)"
  have n: "unat (dataLen m) = length (cfg_payload recs)"
    using assms(4,5) by (simp add: unat_of_nat_u16)
  have num: "unat (of_nat (length recs) :: u8) = length recs"
    using assms(2) by (simp add: unsigned_of_nat take_bit_nat_eq_self)
  have sc: "cfg_scan (pData m) 0 (unat (dataLen m)) 0 0 = (of_nat (length recs), of_nat (length ?vals))"
    using cfg_scan_payload [OF assms(1), of 0 "pData m" rest 0 0] assms(3) n by simp
  let ?len = "cfg_len (of_nat (length recs))"
  note len = cfg_len_small [OF assms(2)]
  have vl: "length ?vals < 60000" using length_cfg_payload [OF assms(1)] assms(5) by simp
  then have vu: "unat (of_nat (length ?vals) :: u16) = length ?vals" by (simp add: unat_of_nat_u16)
  have tot: "unat (ucast ?len + of_nat (length ?vals) :: u16) = 1 + 14 * length recs + length ?vals"
    using len vu vl assms(2) by (simp add: unat_word_ariths)
  obtain r1 s1 where a: "zalloc (ucast ?len + of_nat (length ?vals)) s = (r1, s1)" by fastforce
  let ?f = "cfg_fill (uninit env) (length recs) (pData m)"
  note f = cfg_fill_payload [OF assms(1,3), of "uninit env"]
  have lr: "length (snd ?f) = length recs" using f list_all2_lengthD by fastforce
  define s2 where "s2 = buf_touch p (unat ?len + length ?vals) s1"
  have r1: "r1 = Some p" "recs' = snd ?f"
    "s' = (buf_touch p (unat ?len + length (fst ?f)) s2)
       \<lparr>ub := (ub (buf_touch p (unat ?len + length (fst ?f)) s2) \<or> unat ?len < 1 + 14 * length (snd ?f))\<rparr>"
    using assms(7) a unfolding zcl_parseInCfgReportCmd_def sc
    by (auto simp: Let_def num vu s2_def split: option.splits prod.splits)
  have "1 + 14 * length recs + length ?vals \<le> capacity p"
    using zb.alloc_new [OF assms(6) a [unfolded r1(1)]] tot by simp
  then have "ub s' = ub s"
    using f lr r1(3) zalloc_fields [OF a] len by (simp add: buf_touch_def s2_def)
  with f r1(2) show ?thesis by simp
qed

definition ex_cfg :: "zclCfgReportRec_t list" where
  "ex_cfg = [\<lparr>c_direction = 0, c_attrID = 0, c_dataType = ZCL_DATA_TYPE_INT16, c_minReportInt = 10,
      c_maxReportInt = 300, c_timeoutPeriod = 0, c_reportableChange = lview [50, 0] (\<lambda>_. 0)\<rparr>,
    \<lparr>c_direction = 1, c_attrID = 1, c_dataType = 0, c_minReportInt = 0,
      c_maxReportInt = 0, c_timeoutPeriod = 600, c_reportableChange = (\<lambda>_. 0)\<rparr>]"

lemma ex_cfg_payload: "cfg_payload ex_cfg = [0, 0, 0, 0x29, 10, 0, 44, 1, 50, 0, 1, 1, 0, 88, 2]"
  by code_simp

lemma cfg_roundtrip_witness:
  "\<exists>p recs' s'. zcl_parseInCfgReportCmd ex_env (ex_in 0x0402 (cfg_payload ex_cfg)) ex_state = (Some (p, recs'), s') \<and>
     list_all2 cfg_same ex_cfg recs'"
proof -
  let ?m = "ex_in 0x0402 (cfg_payload ex_cfg)"
  have "fst (zcl_parseInCfgReportCmd ex_env ?m ex_state) \<noteq> None" by code_simp
  then obtain p recs' s' where p: "zcl_parseInCfgReportCmd ex_env ?m ex_state = (Some (p, recs'), s')"
    by (metis not_None_eq prod.exhaust_sel)
  have w: "\<forall>r \<in> set ex_cfg. cfg_wf r"
    by (simp add: ex_cfg_def cfg_wf_def zcl_analogDataType_def)
  have l: "length ex_cfg \<le> 18" "length (cfg_payload ex_cfg) < 60000"
    by (simp add: ex_cfg_def, simp add: ex_cfg_payload)
  from cfg_roundtrip [OF w l(1) _ _ l(2) ex_state_ok(1) p, of "\<lambda>_. 0"] p show ?thesis
    by (auto simp: ex_in_def)
qed

text \<open>Nineteen records overrun the block. The size of the records is kept in a byte, which
  wraps from 19 records on; whatever such a frame holds, if a block is found for the wrapped
  size, the records run over the start of the value area and possibly over the block.\<close>

theorem cfg_parse_overrun:
  assumes "zcl_parseInCfgReportCmd env m s = (Some (p, recs), s')" "19 \<le> length recs"
  shows "ub s'"
proof -
  obtain n d where sc: "cfg_scan (pData m) 0 (unat (dataLen m)) 0 0 = (n, d)" by fastforce
  obtain r1 s1 where a: "zalloc (ucast (cfg_len n) + d) s = (r1, s1)" by fastforce
  have "unat (cfg_len n) < 256" using unsigned_less [of "cfg_len n", where ?'a = nat] by simp
  then have "unat (cfg_len n) < 1 + 14 * length recs" using assms(2) by linarith
  then show ?thesis
    using assms(1) a unfolding zcl_parseInCfgReportCmd_def sc
    by (auto simp: Let_def split: option.splits prod.splits)
qed

definition ex_cfg19 :: bytes where
  "ex_cfg19 = concat (replicate 19 [1, 0, 0, 60, 0])"

lemma cfg_parse_overrun_witness:
  "ub (snd (zcl_parseInCfgReportCmd ex_env (ex_in 0x0402 ex_cfg19) ex_state))"
proof -
  let ?r = "zcl_parseInCfgReportCmd ex_env (ex_in 0x0402 ex_cfg19) ex_state"
  have "map_option (\<lambda>x. 19 \<le> length (snd x)) (fst ?r) = Some True" by code_simp
  then obtain p recs where "fst ?r = Some (p, recs)" "19 \<le> length recs"
    by (cases "fst ?r") auto
  then have "?r = (Some (p, recs), snd ?r)" by (metis prod.collapse)
  from cfg_parse_overrun [OF this \<open>19 \<le> length recs\<close>] show ?thesis .
qed

text \<open>Two discrete attributes are misread. The first pass takes a record of a type that is not
  analog for nine bytes, the second pass reads eight: from a well-formed request for two such
  attributes (the second with a low byte that is not zero) the parser returns three records,
  the third read from behind the frame.\<close>

theorem cfg_parse_misreads:
  assumes "dataLen m = 16" "pData m = lview
      ([0, LO_UINT16 a1, HI_UINT16 a1, t1] @ ints1 @ [0, LO_UINT16 a2, HI_UINT16 a2, t2] @ ints2) rest"
    "length ints1 = 4" "length ints2 = 4" "\<not> zcl_analogDataType t1" "LO_UINT16 a2 \<noteq> 0"
    "zcl_parseInCfgReportCmd env m s = (Some (p, recs), s')"
  shows "length recs = 3"
proof -
  let ?v = "pData m"
  obtain i1 i2 i3 i4 where i: "ints1 = [i1, i2, i3, i4]"
    using assms(3) by (auto simp: length_Suc_conv numeral_eq_Suc)
  have v: "?v 0 = 0" "?v 3 = t1" "?v 9 = LO_UINT16 a2"
    by (simp_all add: assms(2) i numeral_eq_Suc)
  have last: "\<exists>d. cfg_scan ?v 14 16 2 0 = (3, d)"
    by (subst cfg_scan.simps, subst (1 2 3) cfg_scan.simps) (simp add: Let_def)
  have "cfg_scan ?v 9 16 1 0 = cfg_scan ?v 14 16 2 0"
    using assms(6) v(3) by (subst cfg_scan.simps) simp
  moreover have "cfg_scan ?v 0 16 0 0 = cfg_scan ?v 9 16 1 0"
    using assms(5) v(1,2) by (subst cfg_scan.simps) simp
  ultimately obtain d where sc: "cfg_scan ?v 0 16 0 0 = (3, d)" using last by metis
  have "length (snd (cfg_fill junk k x)) = k" for junk k x
    by (induction k arbitrary: x) (simp_all add: Let_def split_beta)
  then have "length (snd (cfg_fill (uninit env) 3 ?v)) = 3" .
  then show ?thesis
    using assms(1,7) sc unfolding zcl_parseInCfgReportCmd_def
    by (auto simp: Let_def split_beta split: option.splits prod.splits)
qed

lemma cfg_parse_misreads_witness:
  "\<exists>p recs s'. zcl_parseInCfgReportCmd ex_env
     (ex_in 6 [0, 0, 0, 0x10, 1, 0, 60, 0, 0, 1, 0, 0x10, 1, 0, 60, 0]) ex_state = (Some (p, recs), s') \<and> length recs = 3"
proof -
  let ?bs = "[0, LO_UINT16 0, HI_UINT16 0, 0x10] @ [1, 0, 60, 0] @ [0, LO_UINT16 1, HI_UINT16 1, 0x10] @ [1, 0, 60, 0]"
  let ?m = "ex_in 6 ?bs"
  have b: "?bs = [0, 0, 0, 0x10, 1, 0, 60, 0, 0, 1, 0, 0x10, 1, 0, 60, 0]"
    by (simp add: LO_UINT16_def HI_UINT16_def)
  have "fst (zcl_parseInCfgReportCmd ex_env ?m ex_state) \<noteq> None" by code_simp
  then obtain p recs s' where p: "zcl_parseInCfgReportCmd ex_env ?m ex_state = (Some (p, recs), s')"
    by (metis not_None_eq prod.exhaust_sel)
  have d: "dataLen ?m = 16" "pData ?m = lview ?bs (\<lambda>_. 0)" "\<not> zcl_analogDataType 0x10" "LO_UINT16 1 \<noteq> 0"
    by (simp_all add: ex_in_def zcl_analogDataType_def LO_UINT16_def)
  from cfg_parse_misreads [OF d(1,2) _ _ d(3,4) p] p show ?thesis
    unfolding b by auto
qed

subsection \<open>The table of reports stays a map\<close>

definition used_keys :: "zst \<Rightarrow> (u8 \<times> u16 \<times> u16) list" where
  "used_keys s = map snd (filter (\<lambda>k. fst k \<noteq> 0) (table_keys s))"

definition table_ok :: "zst \<Rightarrow> bool" where
  \<comment> \<open>\<^verbatim>\<open>reportNum\<close> counts the used entries, and no two of them have the same key\<close>
  "table_ok s \<longleftrightarrow> unat (reportNum s) = length (used_keys s) \<and> distinct (used_keys s) \<and>
     length (reportCfgInfo s) < 256"

definition timers_own :: "zst \<Rightarrow> bool" where
  \<comment> \<open>the timer of an entry is only ever armed for this entry\<close>
  "timers_own s \<longleftrightarrow> (\<forall>i < length (reportTimer s). t_pEntry (reportTimer s ! i) \<in> {None, Some i})"

lemma length_table_keys [simp]: "length (table_keys s) = length (reportCfgInfo s)"
  by (simp add: table_keys_def)

lemma table_ok_cong:
  "table_keys s' = table_keys s \<Longrightarrow> reportNum s' = reportNum s \<Longrightarrow> table_ok s' \<longleftrightarrow> table_ok s"
  using length_table_keys [of s] length_table_keys [of s'] by (simp add: table_ok_def used_keys_def)

lemma table_ok_keeps: "keeps s s' \<Longrightarrow> table_ok s \<Longrightarrow> table_ok s'"
  using table_ok_cong [of s' s] by (simp add: keeps_def)

lemma find_entry_keys:
  "zcl_reportCfgInfoEntryFind ep c a s = find_index (\<lambda>k. fst k \<noteq> 0 \<and> snd k = (ep, c, a)) (table_keys s)"
proof -
  have "find_index (entry_is ep c a) xs
      = find_index (\<lambda>k. fst k \<noteq> 0 \<and> snd k = (ep, c, a)) (map (\<lambda>e. (r_used e, entry_key e)) xs)" for xs
    by (induction xs) (auto simp: entry_is_def entry_key_def)
  then show ?thesis by (simp add: zcl_reportCfgInfoEntryFind_def table_keys_def)
qed

lemma find_None_used_keys:
  "zcl_reportCfgInfoEntryFind ep c a s = None \<longleftrightarrow> (ep, c, a) \<notin> set (used_keys s)"
  unfolding find_entry_keys find_index_None_iff used_keys_def by (force simp: image_iff)

lemma used_keys_insert:
  assumes "i < length xs" "fst (xs ! i) = (0 :: u8)"
  shows "mset (map snd (filter (\<lambda>k. fst k \<noteq> 0) (xs[i := (1, k)]))) =
    add_mset k (mset (map snd (filter (\<lambda>k. fst k \<noteq> 0) xs)))"
  using assms
proof (induction xs arbitrary: i)
  case (Cons x xs)
  then show ?case by (cases i) auto
qed simp

lemma set_change_key [simp]:
  "r_used (set_change t v e) = r_used e" "entry_key (set_change t v e) = entry_key e"
  "minInterval (set_change t v e) = minInterval e" "maxInterval (set_change t v e) = maxInterval e"
  "r_dataType (set_change t v e) = r_dataType e"
  by (simp_all add: set_change_def entry_key_def)

text \<open>Filling a free entry, and changing a used one.\<close>

lemma EntryUpdate_free:
  assumes "i < length (reportCfgInfo s)" "r_used (reportCfgInfo s ! i) = 0"
  shows "table_keys (zcl_reportCfgInfoEntryUpdate i ep prof c r s) = (table_keys s)[i := (1, ep, c, c_attrID r)]"
    "reportNum (zcl_reportCfgInfoEntryUpdate i ep prof c r s) = reportNum s + 1"
    "\<exists>f. reportCfgInfo (zcl_reportCfgInfoEntryUpdate i ep prof c r s) = (reportCfgInfo s)[i := f] \<and>
       r_used f = 1 \<and> entry_key f = (ep, c, c_attrID r) \<and> r_dataType f = c_dataType r \<and>
       r_profileID f = prof \<and> minIntDft f = c_minReportInt r \<and> maxIntDft f = c_maxReportInt r \<and>
       prevData f = prevData (reportCfgInfo s ! i) \<and>
       minInterval f = c_minReportInt r \<and> maxInterval f = c_maxReportInt r \<and>
       minIntCnt f = c_minReportInt r \<and> maxIntCnt f = c_maxReportInt r \<and>
       reportableChange f = (if zcl_analogDataType (c_dataType r)
         then overwrite (vtake (unat (zcl_getDataTypeLen (c_dataType r))) (c_reportableChange r))
                (reportableChange (reportCfgInfo s ! i))
         else reportableChange (reportCfgInfo s ! i))"
proof -
  let ?s' = "zcl_reportCfgInfoEntryUpdate i ep prof c r s"
  let ?g = "\<lambda>e. set_change (c_dataType r) (c_reportableChange r)
      (e\<lparr>r_profileID := prof, r_clusterID := c, endPoint := ep, r_attrID := c_attrID r,
         minIntDft := c_minReportInt r, maxIntDft := c_maxReportInt r, minInterval := c_minReportInt r,
         maxInterval := c_maxReportInt r, r_dataType := c_dataType r\<rparr>)"
  let ?h = "\<lambda>e. e\<lparr>minIntCnt := c_minReportInt r, maxIntCnt := c_maxReportInt r, r_used := 1\<rparr>"
  define f where "f = ?h (?g (reportCfgInfo s ! i))"
  have s': "reportCfgInfo ?s' = (reportCfgInfo s)[i := f]" "reportNum ?s' = reportNum s + 1"
    using assms unfolding zcl_reportCfgInfoEntryUpdate_def f_def
    by (auto simp: Let_def upd_entry_def)
  have f: "r_used f = 1" "entry_key f = (ep, c, c_attrID r)"
    by (simp_all add: f_def entry_key_def set_change_def)
  show "table_keys ?s' = (table_keys s)[i := (1, ep, c, c_attrID r)]"
    using assms(1) f by (simp add: table_keys_def s' map_update)
  show "reportNum ?s' = reportNum s + 1" by (rule s'(2))
  show "\<exists>f. reportCfgInfo ?s' = (reportCfgInfo s)[i := f] \<and>
       r_used f = 1 \<and> entry_key f = (ep, c, c_attrID r) \<and> r_dataType f = c_dataType r \<and>
       r_profileID f = prof \<and> minIntDft f = c_minReportInt r \<and> maxIntDft f = c_maxReportInt r \<and>
       prevData f = prevData (reportCfgInfo s ! i) \<and>
       minInterval f = c_minReportInt r \<and> maxInterval f = c_maxReportInt r \<and>
       minIntCnt f = c_minReportInt r \<and> maxIntCnt f = c_maxReportInt r \<and>
       reportableChange f = (if zcl_analogDataType (c_dataType r)
         then overwrite (vtake (unat (zcl_getDataTypeLen (c_dataType r))) (c_reportableChange r))
                (reportableChange (reportCfgInfo s ! i))
         else reportableChange (reportCfgInfo s ! i))"
    by (rule exI [of _ f]) (use f s' in \<open>simp add: f_def set_change_def\<close>)
qed

lemma EntryUpdate_used:
  assumes "r_used (reportCfgInfo s ! i) \<noteq> 0"
  shows "keeps s (zcl_reportCfgInfoEntryUpdate i ep prof c r s)"
proof -
  have "keeps s (upd_entry i (\<lambda>e. set_change (r_dataType e) v (e\<lparr>minInterval := a, maxInterval := b,
      minIntCnt := a', maxIntCnt := b'\<rparr>)) s)" for v a b a' b'
    by (rule keeps_upd_entry) (simp_all add: entry_key_def set_change_def)
  then show ?thesis using assms by (simp add: zcl_reportCfgInfoEntryUpdate_def)
qed

lemma table_ok_insert:
  assumes ok: "table_ok s" and i: "i < length (reportCfgInfo s)" "r_used (reportCfgInfo s ! i) = 0"
    and new: "zcl_reportCfgInfoEntryFind ep c (c_attrID r) s = None"
  shows "table_ok (zcl_reportCfgInfoEntryUpdate i ep prof c r s)"
proof -
  let ?s' = "zcl_reportCfgInfoEntryUpdate i ep prof c r s"
  note u = EntryUpdate_free [OF i, of ep prof c r]
  let ?k = "(ep, c, c_attrID r)"
  have "fst (table_keys s ! i) = 0" using i by (simp add: table_keys_def)
  from used_keys_insert [OF _ this] i(1)
  have m: "mset (used_keys ?s') = add_mset ?k (mset (used_keys s))"
    by (simp add: used_keys_def u(1))
  have len: "length (used_keys ?s') = Suc (length (used_keys s))" using arg_cong [OF m, of size] by simp
  have "distinct (used_keys ?s')"
  proof -
    have "mset (used_keys ?s') = mset (?k # used_keys s)" using m by simp
    then have "distinct (used_keys ?s') \<longleftrightarrow> distinct (?k # used_keys s)" by (rule mset_eq_imp_distinct_iff)
    then show ?thesis using ok new by (simp add: table_ok_def find_None_used_keys)
  qed
  moreover have l: "length (reportCfgInfo ?s') = length (reportCfgInfo s)"
    using arg_cong [OF u(1), of length] by simp
  moreover have "unat (reportNum ?s') = length (used_keys ?s')"
  proof -
    have "length (used_keys ?s') \<le> length (table_keys ?s')"
      unfolding used_keys_def by (simp only: length_map length_filter_le)
    then have "unat (reportNum s) + 1 < 256" using ok len l by (simp add: table_ok_def)
    then show ?thesis using ok len by (simp add: table_ok_def u(2) unat_word_ariths)
  qed
  ultimately show ?thesis using ok by (simp add: table_ok_def)
qed

lemma FreeGet_free:
  "zcl_reportCfgInfoEntryFreeGet s = Some i \<Longrightarrow> i < length (reportCfgInfo s) \<and> r_used (reportCfgInfo s ! i) = 0"
  unfolding zcl_reportCfgInfoEntryFreeGet_def by (auto dest: find_index_Some)

lemma EntryFind_used:
  "zcl_reportCfgInfoEntryFind ep c a s = Some i \<Longrightarrow> i < length (reportCfgInfo s) \<and>
     r_used (reportCfgInfo s ! i) \<noteq> 0 \<and> entry_key (reportCfgInfo s ! i) = (ep, c, a)"
  unfolding zcl_reportCfgInfoEntryFind_def by (auto dest!: find_index_Some simp: entry_is_def entry_key_def)

text \<open>The ways \<^verbatim>\<open>zcl_configureReporting\<close> ends.\<close>

lemma configureReporting_cases:
  assumes "zcl_configureReporting env ep prof c r s = (st, s')"
  obtains (error) "st \<noteq> ZCL_STA_SUCCESS" "s' = s"
  | (insert) i where "st = ZCL_STA_SUCCESS" "zcl_reportCfgInfoEntryFind ep c (c_attrID r) s = None"
      "zcl_reportCfgInfoEntryFreeGet s = Some i" "s' = zcl_reportCfgInfoEntryUpdate i ep prof c r s"
  | (update) i where "st = ZCL_STA_SUCCESS" "zcl_reportCfgInfoEntryFind ep c (c_attrID r) s = Some i"
      "s' = zcl_reportCfgInfoEntryUpdate i ep prof c r s"
  | (reset) i where "st = ZCL_STA_SUCCESS" "zcl_reportCfgInfoEntryFind ep c (c_attrID r) s = Some i"
      "s' = zcl_reportCfgInfoEntryRst env i s" "c_maxReportInt r = 0" "c_minReportInt r = 0xFFFF"
proof -
  let ?F = "zcl_reportCfgInfoEntryFind ep c (c_attrID r) s"
  let ?U = "\<lambda>i. zcl_reportCfgInfoEntryUpdate i ep prof c r s"
  have "st \<noteq> ZCL_STA_SUCCESS \<and> s' = s \<or>
    (\<exists>i. st = ZCL_STA_SUCCESS \<and> ?F = None \<and> zcl_reportCfgInfoEntryFreeGet s = Some i \<and> s' = ?U i) \<or>
    (\<exists>i. st = ZCL_STA_SUCCESS \<and> ?F = Some i \<and> s' = ?U i) \<or>
    (\<exists>i. st = ZCL_STA_SUCCESS \<and> ?F = Some i \<and> s' = zcl_reportCfgInfoEntryRst env i s \<and>
       c_maxReportInt r = 0 \<and> c_minReportInt r = 0xFFFF)"
    using assms unfolding zcl_configureReporting_def Let_def
    by (cases ?F; cases "zcl_reportCfgInfoEntryFreeGet s") (auto split: option.splits if_splits)
  then show thesis using error insert update reset by blast
qed

lemma configureReporting_table:
  assumes "zcl_configureReporting env ep prof c r s = (st, s')" "table_ok s"
  shows "table_ok s'"
  using assms(1)
proof (cases rule: configureReporting_cases)
  case (insert i)
  with FreeGet_free [of s i] assms(2) table_ok_insert show ?thesis by blast
next
  case (update i)
  with EntryFind_used [OF update(2)] assms(2) EntryUpdate_used table_ok_keeps show ?thesis by blast
next
  case (reset i)
  with keeps_EntryRst assms(2) table_ok_keeps show ?thesis by blast
qed (use assms in simp)

subsection \<open>The timers\<close>

lemma timers_own_cong: "reportTimer s' = reportTimer s \<Longrightarrow> timers_own s' \<longleftrightarrow> timers_own s"
  by (simp add: timers_own_def)

lemma timers_own_upd_rt:
  "timers_own s \<Longrightarrow> t_pEntry (f (reportTimer s ! i)) \<in> {None, Some i} \<Longrightarrow> timers_own (upd_rt i f s)"
  unfolding timers_own_def
proof (intro allI impI)
  fix j
  assume "\<forall>i < length (reportTimer s). t_pEntry (reportTimer s ! i) \<in> {None, Some i}"
    "t_pEntry (f (reportTimer s ! i)) \<in> {None, Some i}" "j < length (reportTimer (upd_rt i f s))"
  then show "t_pEntry (reportTimer (upd_rt i f s) ! j) \<in> {None, Some j}"
    by (cases "j = i") auto
qed

lemma timers_own_simps [simp]:
  "timers_own (upd_entry i f s) = timers_own s" "timers_own (reportingTimerStart s) = timers_own s"
  "timers_own (null_deref s) = timers_own s"
  by (rule timers_own_cong; simp)+

lemma timers_own_unon [simp]: "timers_own (ev_unon_timer te s) = timers_own s"
  by (rule timers_own_cong) simp

lemma timers_own_Stop: "timers_own s \<Longrightarrow> timers_own (reportAttrTimerStop i s)"
  unfolding reportAttrTimerStop_def Let_def
  by (simp add: timers_own_upd_rt rt_clear_def)

lemma timers_own_arm: "timers_own s \<Longrightarrow> timers_own (arm_report_timer i n b s)"
proof -
  assume s: "timers_own s"
  let ?s1 = "upd_rt i (\<lambda>t. t\<lparr>t_pEntry := Some i, t_seconds := n, t_minOrMax := b\<rparr>) s"
  have "timers_own ?s1" using s by (rule timers_own_upd_rt) simp
  then have "timers_own (ev_on_timer (Some (report_timer i)) (ucast n * 1000)
      (upd_evt (report_timer i) (\<lambda>e. e\<lparr>cb := Some (ReportAttrTimerCb i)\<rparr>) ?s1))"
    by (subst timers_own_cong [of _ ?s1]) simp_all
  with s show ?thesis by (simp add: arm_report_timer_def)
qed

lemma timers_own_Start_entry: "timers_own s \<Longrightarrow> timers_own (reportAttrTimerStart_entry env i s)"
  unfolding reportAttrTimerStart_entry_def Let_def
  by (auto split: option.splits intro!: timers_own_arm timers_own_Stop)

lemma timers_own_Start: "timers_own s \<Longrightarrow> timers_own (reportAttrTimerStart env s)"
proof -
  have "timers_own s \<Longrightarrow> timers_own (fold (reportAttrTimerStart_entry env) is s)" for "is"
    by (induction "is" arbitrary: s) (simp_all add: timers_own_Start_entry)
  then show "timers_own s \<Longrightarrow> timers_own (reportAttrTimerStart env s)"
    by (simp add: reportAttrTimerStart_def)
qed

lemma timers_own_Rst: "timers_own s \<Longrightarrow> timers_own (zcl_reportCfgInfoEntryRst env i s)"
  unfolding zcl_reportCfgInfoEntryRst_def Let_def
  by (auto split: option.splits intro!: timers_own_Start timers_own_Stop)

lemma timers_own_Update: "timers_own s \<Longrightarrow> timers_own (zcl_reportCfgInfoEntryUpdate i ep prof c r s)"
  unfolding zcl_reportCfgInfoEntryUpdate_def Let_def
  by (auto simp: timers_own_def upd_entry_def)

lemma configureReporting_timers:
  "zcl_configureReporting env ep prof c r s = (st, s') \<Longrightarrow> timers_own s \<Longrightarrow> timers_own s'"
  by (erule configureReporting_cases) (auto intro: timers_own_Rst timers_own_Update)

subsection \<open>Runs of the reporting engine\<close>

text \<open>What reporting does between two requests: the periodic poll, the timers of the entries, the
  report timer.\<close>

lemma report_scan_same:
  "report_scan env js acc s = (acc', s') \<Longrightarrow> \<forall>i \<in> set js. i < length (reportCfgInfo s) \<Longrightarrow>
     table_keys s' = table_keys s \<and> reportNum s' = reportNum s \<and> reportTimer s' = reportTimer s"
proof (induction js arbitrary: acc s)
  case (Cons i js)
  have i: "i < length (reportCfgInfo s)" and js: "\<forall>i \<in> set js. i < length (reportCfgInfo s)"
    using Cons.prems(2) by auto
  from Cons.prems(1) i show ?case
  proof (cases rule: report_scan_Cons)
    case (taken a acc2 b)
    let ?s2 = "upd_entry i (entry_reported b) s"
    have "table_keys ?s2 = table_keys s" by (rule table_keys_upd) (simp_all add: entry_key_def)
    then show ?thesis using taken(5) Cons.IH [of acc2 ?s2] js by auto
  qed (use Cons.IH js in blast)+
qed simp

lemma reportAttrs_same:
  "table_keys (reportAttrs env s) = table_keys s \<and> reportNum (reportAttrs env s) = reportNum s \<and>
   reportTimer (reportAttrs env s) = reportTimer s"
proof -
  have "table_keys (reportAttrs_loop env prof s) = table_keys s \<and>
      reportNum (reportAttrs_loop env prof s) = reportNum s \<and>
      reportTimer (reportAttrs_loop env prof s) = reportTimer s" for prof
  proof (induction env prof s rule: reportAttrs_loop.induct)
    case (1 env prof s)
    obtain acc s' where p: "report_pass env prof s = (acc, s')" by fastforce
    then obtain s1 where r: "report_scan env [0..<length (reportCfgInfo s)] (report_acc0 prof) s = (acc, s1)"
      and s': "s' = report_send env acc s1"
      by (auto simp: report_pass_def split: prod.splits)
    have "table_keys s' = table_keys s \<and> reportNum s' = reportNum s \<and> reportTimer s' = reportTimer s"
      using report_scan_same [OF r] table_keys_cong [of s' s1] by (simp add: s')
    then show ?case using 1 [OF p [symmetric]] p by (subst (1 2 3) reportAttrs_loop.simps) auto
  qed
  then show ?thesis by (simp add: reportAttrs_def)
qed

inductive report_step :: "zenv \<Rightarrow> zst \<Rightarrow> zst \<Rightarrow> bool" for env where
  rs_configure: "report_step env s (snd (zcl_configureReporting env ep prof c r s))"
| rs_default: "report_step env s (snd (bdb_defaultReportingCfg env ep prof c a mn mx v s))"
| rs_poll: "report_step env s (report_handler env s)"
| rs_entry_timer: "i < length (reportTimer s) \<Longrightarrow> report_step env s (snd (reportAttrTimerCb env i s))"
| rs_report_timer: "report_step env s (snd (reportingTimerCb env s))"
| rs_other: "reportCfgInfo s' = reportCfgInfo s \<Longrightarrow> reportNum s' = reportNum s \<Longrightarrow>
     reportTimer s' = reportTimer s \<Longrightarrow> report_step env s s'"

text \<open>The engine starts with an empty table, when nothing could be restored.\<close>

inductive report_reach :: "zenv \<Rightarrow> zst \<Rightarrow> bool" for env where
  rr_init: "fst (zcl_reportingTab_restore env s) \<noteq> NV_SUCC \<Longrightarrow>
     length (reportCfgInfo (snd (zcl_reportingTab_restore env s))) < 256 \<Longrightarrow>
     \<forall>t \<in> set (reportTimer s). t_pEntry t = None \<Longrightarrow> report_reach env (zcl_reportingTabInit env s)"
| rr_step: "report_reach env s \<Longrightarrow> report_step env s s' \<Longrightarrow> report_reach env s'"

lemma report_step_inv:
  assumes "report_step env s s'" "table_ok s" "timers_own s"
  shows "table_ok s' \<and> timers_own s'"
  using assms
proof (induction rule: report_step.induct)
  case (rs_configure s ep prof c r)
  then show ?case
    using configureReporting_table configureReporting_timers by (metis prod.collapse)
next
  case (rs_default s ep prof c a mn mx v)
  then show ?case
    using configureReporting_table configureReporting_timers
    by (auto simp: bdb_defaultReportingCfg_def split: option.split) (metis prod.collapse)+
next
  case (rs_poll s)
  then show ?case
    using table_ok_keeps [OF keeps_reportAttrTimerStart] timers_own_Start by (simp add: report_handler_def)
next
  case (rs_entry_timer i s)
  show ?case
  proof (cases "t_pEntry (reportTimer s ! i)")
    case None
    with rs_entry_timer show ?thesis by (simp add: reportAttrTimerCb_def)
  next
    case (Some j)
    define s1 where "s1 = (if reportable_entry env (reportCfgInfo s ! j)
      then upd_entry j (\<lambda>e. e\<lparr>minIntCnt := count_down (minIntCnt e) (t_seconds (reportTimer s ! i)),
             maxIntCnt := count_down (maxIntCnt e) (t_seconds (reportTimer s ! i))\<rparr>) s else s)"
    have "keeps s s1" unfolding s1_def by (auto intro!: keeps_upd_entry simp: entry_key_def)
    then have "keeps s (upd_rt i rt_clear (reportingTimerStart s1))"
      by (blast intro: keeps_trans keeps_TimerStart keeps_upd_rt)
    moreover have "timers_own s1" using rs_entry_timer by (simp add: s1_def)
    then have "timers_own (upd_rt i rt_clear (reportingTimerStart s1))"
      by (intro timers_own_upd_rt) (simp_all add: rt_clear_def)
    moreover have "snd (reportAttrTimerCb env i s) = upd_rt i rt_clear (reportingTimerStart s1)"
      by (simp add: reportAttrTimerCb_def Some s1_def Let_def)
    ultimately show ?thesis using rs_entry_timer table_ok_keeps by metis
  qed
next
  case (rs_report_timer s)
  then show ?case
    using reportAttrs_same [of env s] table_ok_cong [of "reportAttrs env s" s]
      timers_own_cong [of "reportAttrs env s" s]
    by (simp add: reportingTimerCb_def)
next
  case (rs_other s' s)
  then show ?case
    using table_ok_cong [of s' s] table_keys_cong [of s' s] timers_own_cong [of s' s] by simp
qed

lemma report_reach_inv: "report_reach env s \<Longrightarrow> table_ok s \<and> timers_own s"
proof (induction rule: report_reach.induct)
  case (rr_init s)
  obtain st s1 where r: "zcl_reportingTab_restore env s = (st, s1)" by fastforce
  then have t: "reportTimer s1 = reportTimer s"
    by (auto simp: zcl_reportingTab_restore_def Let_def split: prod.splits)
  let ?s' = "zcl_reportingTabInit env s"
  have i: "reportNum ?s' = 0" "reportCfgInfo ?s' = map (\<lambda>_. zcl_reportCfgInfoEntryClear) (reportCfgInfo s1)"
    "reportTimer ?s' = reportTimer s"
    using rr_init r t by (simp_all add: zcl_reportingTabInit_def)
  have "used_keys ?s' = []"
    by (auto simp: used_keys_def table_keys_def i filter_empty_conv zcl_reportCfgInfoEntryClear_def)
  then have "table_ok ?s'" using rr_init(2) r i by (simp add: table_ok_def)
  moreover have "timers_own ?s'" using rr_init(3) by (simp add: timers_own_def i(3))
  ultimately show ?case ..
next
  case (rr_step s s')
  then show ?case using report_step_inv by blast
qed

text \<open>C4. The reporting table is a map with an exact count. In every state the engine can reach
  from an empty table, by requests, defaults, polls, timers and sending, and whatever else
  the device does, no two used entries report the same attribute, \<^verbatim>\<open>reportNum\<close> is the number
  of used entries, and the timer of an entry is armed for that entry only.\<close>

theorem report_table_invariant:
  assumes "report_reach env s"
  shows "(\<forall>i j. i < length (reportCfgInfo s) \<and> j < length (reportCfgInfo s) \<and>
      r_used (reportCfgInfo s ! i) \<noteq> 0 \<and> r_used (reportCfgInfo s ! j) \<noteq> 0 \<and>
      entry_key (reportCfgInfo s ! i) = entry_key (reportCfgInfo s ! j) \<longrightarrow> i = j) \<and>
    unat (reportNum s) = length (filter (\<lambda>e. r_used e \<noteq> 0) (reportCfgInfo s)) \<and>
    (\<forall>i < length (reportTimer s). t_pEntry (reportTimer s ! i) \<in> {None, Some i})"
proof -
  have ok: "table_ok s" and t: "timers_own s" using report_reach_inv [OF assms] by auto
  let ?u = "\<lambda>e. r_used e \<noteq> 0"
  have k: "used_keys s = map entry_key (filter ?u (reportCfgInfo s))"
    by (simp add: used_keys_def table_keys_def filter_map comp_def)
  have uniq: "i = j" if "i < length xs" "j < length xs" "?u (xs ! i)" "?u (xs ! j)"
      "entry_key (xs ! i) = entry_key (xs ! j)" "distinct (map entry_key (filter ?u xs))" for i j xs
    using that
  proof (induction xs arbitrary: i j)
    case (Cons x xs)
    have out: False if "?u x" "l < length xs" "?u (xs ! l)" "entry_key x = entry_key (xs ! l)" for l
      using that Cons.prems(6) by (auto simp: image_iff) (metis nth_mem)
    from Cons show ?case
    proof (cases i; cases j)
      fix l assume "i = 0" "j = Suc l" with Cons.prems out [of l] show ?thesis by simp
    next
      fix l assume "i = Suc l" "j = 0" with Cons.prems out [of l] show ?thesis by simp
    next
      fix a b assume "i = Suc a" "j = Suc b"
      with Cons.prems Cons.IH [of a b] show ?thesis by (auto split: if_splits)
    qed simp
  qed simp
  show ?thesis
    using uniq [of _ "reportCfgInfo s"] ok t unfolding table_ok_def k timers_own_def by auto
qed

definition ex_rec :: zclCfgReportRec_t where
  "ex_rec = \<lparr>c_direction = 0, c_attrID = 0, c_dataType = ZCL_DATA_TYPE_INT16, c_minReportInt = 10,
      c_maxReportInt = 300, c_timeoutPeriod = 0, c_reportableChange = lview [50, 0] (\<lambda>_. 0)\<rparr>"

definition ex_init :: zst where
  "ex_init = zcl_reportingTabInit ex_env ex_state"

lemma ex_init_reach: "report_reach ex_env ex_init"
  unfolding ex_init_def
  by (rule rr_init) (simp_all add: zcl_reportingTab_restore_def ex_env_def NV_SUCC_def ex_state_def)

lemma report_table_invariant_witness:
  "let s = snd (zcl_configureReporting ex_env 1 0x0104 0x0402 ex_rec ex_init) in
     unat (reportNum s) = length (filter (\<lambda>e. r_used e \<noteq> 0) (reportCfgInfo s))"
proof -
  have "report_reach ex_env (snd (zcl_configureReporting ex_env 1 0x0104 0x0402 ex_rec ex_init))"
    by (rule rr_step [OF ex_init_reach rs_configure])
  from report_table_invariant [OF this] show ?thesis by (simp add: Let_def)
qed

lemma u16_le_max: "(w :: u16) \<le> 0xFFFF"
  using unsigned_less [of w, where ?'a = nat] by (simp add: word_le_nat_alt)

lemma configureReporting_valid:
  assumes "zcl_configureReporting env ep prof c r s = (ZCL_STA_SUCCESS, s')"
  shows "\<exists>a. zcl_findAttribute ep c (c_attrID r) s = Some a \<and> a_type a = c_dataType r \<and>
    a_access a AND ACCESS_CONTROL_REPORTABLE \<noteq> 0 \<and> c_direction r \<noteq> ZCL_EXPECT_ATTR_REPORTS \<and>
    (c_maxReportInt r = 0 \<or> c_minReportInt r \<le> c_maxReportInt r)"
  using assms unfolding zcl_configureReporting_def Let_def
  by (auto split: option.splits if_splits simp: not_less u16_le_max)

lemma EntryUpdate_clusters: "clusterList (zcl_reportCfgInfoEntryUpdate i ep prof c r s) = clusterList s"
  by (simp add: zcl_reportCfgInfoEntryUpdate_def Let_def)

lemma take_overwrite: "take (length xs) (overwrite xs ys) = xs"
  by (simp add: overwrite_def)

lemma vtake_lview_take:
  "n \<le> length xs \<Longrightarrow> vtake n (lview xs rest) = take n xs"
  by (rule nth_equalityI) (auto simp: lview_inside)

lemma entry_key_find:
  assumes "i < length (reportCfgInfo s)" "r_used (reportCfgInfo s ! i) \<noteq> 0"
    "entry_key (reportCfgInfo s ! i) = (ep, c, a)"
    "\<forall>j < i. \<not> entry_is ep c a (reportCfgInfo s ! j)"
  shows "zcl_reportCfgInfoEntryFind ep c a s = Some i"
  using assms by (simp add: zcl_reportCfgInfoEntryFind_def find_index_eq_iff entry_is_def entry_key_def)

definition types_agree :: "zst \<Rightarrow> bool" where
  \<comment> \<open>an entry in use has the type its attribute is registered with\<close>
  "types_agree s \<longleftrightarrow> (\<forall>e \<in> set (reportCfgInfo s). \<forall>a. r_used e \<noteq> 0 \<and>
     zcl_findAttribute (endPoint e) (r_clusterID e) (r_attrID e) s = Some a \<longrightarrow> r_dataType e = a_type a)"

definition change_stored :: "zclCfgReportRec_t \<Rightarrow> reportCfgInfo_t \<Rightarrow> reportCfgInfo_t \<Rightarrow> bool" where
  \<comment> \<open>the bytes of the reportable change are those of the request, for an analog type\<close>
  "change_stored r old e \<longleftrightarrow>
     (if zcl_analogDataType (c_dataType r)
      then take (unat (zcl_getDataTypeLen (c_dataType r))) (reportableChange e)
         = vtake (unat (zcl_getDataTypeLen (c_dataType r))) (c_reportableChange r)
      else reportableChange e = reportableChange old)"

definition takes_effect :: "u16 \<Rightarrow> zclCfgReportRec_t \<Rightarrow> reportCfgInfo_t \<Rightarrow> reportCfgInfo_t \<Rightarrow> bool" where
  \<comment> \<open>every field of the entry \<open>e\<close> that answers the request \<open>r\<close>, from the entry \<open>old\<close> that was there\<close>
  "takes_effect prof r old e \<longleftrightarrow> r_used e \<noteq> 0 \<and> r_dataType e = c_dataType r \<and>
     minInterval e = c_minReportInt r \<and> maxInterval e = c_maxReportInt r \<and>
     minIntCnt e = c_minReportInt r \<and> maxIntCnt e = c_maxReportInt r \<and>
     change_stored r old e \<and> prevData e = prevData old \<and>
     (if r_used old = 0
      then r_profileID e = prof \<and> minIntDft e = c_minReportInt r \<and> maxIntDft e = c_maxReportInt r
      else r_profileID e = r_profileID old \<and> minIntDft e = minIntDft old \<and> maxIntDft e = maxIntDft old)"

lemma change_stored_overwrite:
  "reportableChange e = (if zcl_analogDataType (c_dataType r)
     then overwrite (vtake (unat (zcl_getDataTypeLen (c_dataType r))) (c_reportableChange r)) (reportableChange old)
     else reportableChange old) \<Longrightarrow> change_stored r old e"
  using take_overwrite [of "vtake (unat (zcl_getDataTypeLen (c_dataType r))) (c_reportableChange r)"]
  by (simp add: change_stored_def)

lemma change_stored_read:
  assumes "change_stored r old e" "zcl_analogDataType (c_dataType r)"
  shows "vtake (unat (zcl_getDataTypeLen (c_dataType r))) (lview (reportableChange e) junk)
    = vtake (unat (zcl_getDataTypeLen (c_dataType r))) (c_reportableChange r)"
proof -
  let ?n = "unat (zcl_getDataTypeLen (c_dataType r))"
  have t: "take ?n (reportableChange e) = vtake ?n (c_reportableChange r)"
    using assms by (simp add: change_stored_def)
  have "?n \<le> length (reportableChange e)" using arg_cong [OF t, of length] by simp
  with t show ?thesis by (simp add: vtake_lview_take)
qed

lemma updated_entry:
  fixes prof :: u16
  assumes i: "i < length (reportCfgInfo s)"
    and f: "if r_used (reportCfgInfo s ! i) = 0 then zcl_reportCfgInfoEntryFind ep c (c_attrID r) s = None
      else zcl_reportCfgInfoEntryFind ep c (c_attrID r) s = Some i"
    and ty: "types_agree s" "zcl_findAttribute ep c (c_attrID r) s = Some a" "a_type a = c_dataType r"
  defines "s' \<equiv> zcl_reportCfgInfoEntryUpdate i ep prof c r s"
  shows "\<exists>e. reportCfgInfo s' = (reportCfgInfo s)[i := e] \<and> entry_key e = (ep, c, c_attrID r) \<and>
    takes_effect prof r (reportCfgInfo s ! i) e"
proof (cases "r_used (reportCfgInfo s ! i) = 0")
  case True
  obtain e where e: "reportCfgInfo s' = (reportCfgInfo s)[i := e]" "r_used e = 1" "entry_key e = (ep, c, c_attrID r)"
      "r_dataType e = c_dataType r" "r_profileID e = prof" "minIntDft e = c_minReportInt r"
      "maxIntDft e = c_maxReportInt r" "prevData e = prevData (reportCfgInfo s ! i)"
      "minInterval e = c_minReportInt r" "maxInterval e = c_maxReportInt r"
      "minIntCnt e = c_minReportInt r" "maxIntCnt e = c_maxReportInt r"
      "change_stored r (reportCfgInfo s ! i) e"
    using EntryUpdate_free(3) [OF i True, of ep prof c r] change_stored_overwrite unfolding s'_def by metis
  then show ?thesis using True by (intro exI [of _ e]) (simp add: takes_effect_def)
next
  case False
  let ?old = "reportCfgInfo s ! i"
  have k: "entry_key ?old = (ep, c, c_attrID r)" using f False EntryFind_used by simp
  have "r_dataType ?old = c_dataType r"
    using ty k i False nth_mem [OF i] unfolding types_agree_def entry_key_def by auto
  moreover define e where "e = set_change (r_dataType ?old) (c_reportableChange r)
      (?old\<lparr>minInterval := c_minReportInt r, maxInterval := c_maxReportInt r,
         minIntCnt := c_minReportInt r, maxIntCnt := c_maxReportInt r\<rparr>)"
  ultimately have "takes_effect prof r ?old e" "entry_key e = (ep, c, c_attrID r)"
    using False k change_stored_overwrite [of e r ?old]
    by (simp_all add: takes_effect_def set_change_def entry_key_def)
  moreover have "reportCfgInfo s' = (reportCfgInfo s)[i := e]"
    using False by (simp add: s'_def e_def zcl_reportCfgInfoEntryUpdate_def)
  ultimately show ?thesis by blast
qed

lemma updated_find:
  assumes "i < length (reportCfgInfo s)" "reportCfgInfo s' = (reportCfgInfo s)[i := e]" "r_used e \<noteq> 0"
    "entry_key e = (ep, c, a)"
    "if r_used (reportCfgInfo s ! i) = 0 then zcl_reportCfgInfoEntryFind ep c a s = None
     else zcl_reportCfgInfoEntryFind ep c a s = Some i"
  shows "zcl_reportCfgInfoEntryFind ep c a s' = Some i"
proof (rule entry_key_find)
  show "\<forall>j < i. \<not> entry_is ep c a (reportCfgInfo s' ! j)"
    using assms(1,2,5)
    by (auto simp: zcl_reportCfgInfoEntryFind_def find_index_None_iff find_index_eq_iff split: if_splits)
qed (use assms in simp_all)

lemma types_agree_upd:
  assumes "types_agree s" "clusterList s' = clusterList s" "reportCfgInfo s' = (reportCfgInfo s)[i := e]"
    "entry_key e = (ep, c, at)" "zcl_findAttribute ep c at s = Some a" "a_type a = r_dataType e"
  shows "types_agree s'"
proof -
  have "set (reportCfgInfo s') \<subseteq> insert e (set (reportCfgInfo s))" by (simp add: assms(3) set_update_subset_insert)
  then show ?thesis
    using assms(1,4-6) unfolding types_agree_def findAttribute_cong [OF assms(2)] entry_key_def by auto
qed

text \<open>C8. An accepted configuration takes effect and reads back. When
  \<^verbatim>\<open>zcl_configureReporting\<close> succeeds (and is not the request to restore the defaults), the attribute exists, is
  reportable and has the type of the request, the maximum is not below the minimum (or is 0).
  One entry of the table then has the key of the attribute and every other entry is as it was. This
  entry has the data type and the intervals of the request, with the counters started from them, and,
  for an analog type, the bytes of its reportable change; a new entry takes the profile of the
  message and has the request as its defaults, an entry that was there keeps these. Read Reporting
  Configuration answers with the type, the intervals and the change of the request. This
  is for a table whose entries have the types of their attributes, as an empty table has;
  the new table again has them.\<close>

theorem configure_takes_effect:
  assumes "zcl_configureReporting env ep prof c r s = (ZCL_STA_SUCCESS, s')"
    "\<not> (c_maxReportInt r = 0 \<and> c_minReportInt r = 0xFFFF)" "types_agree s"
  shows "\<exists>a i e q. zcl_findAttribute ep c (c_attrID r) s = Some a \<and> a_type a = c_dataType r \<and>
    a_access a AND ACCESS_CONTROL_REPORTABLE \<noteq> 0 \<and>
    (c_maxReportInt r = 0 \<or> c_minReportInt r \<le> c_maxReportInt r) \<and>
    i < length (reportCfgInfo s) \<and> reportCfgInfo s' = (reportCfgInfo s)[i := e] \<and>
    zcl_reportCfgInfoEntryFind ep c (c_attrID r) s' = Some i \<and>
    takes_effect prof r (reportCfgInfo s ! i) e \<and> types_agree s' \<and>
    readCfg_loop ep c junk [(ZCL_SEND_ATTR_REPORTS, c_attrID r)] ZCL_STA_SUCCESS s' = [q] \<and>
    q_status q = ZCL_STA_SUCCESS \<and> q_direction q = ZCL_SEND_ATTR_REPORTS \<and> q_attrID q = c_attrID r \<and>
    q_dataType q = c_dataType r \<and>
    q_minReportInt q = c_minReportInt r \<and> q_maxReportInt q = c_maxReportInt r \<and>
    (zcl_analogDataType (c_dataType r) \<longrightarrow>
       vtake (unat (zcl_getDataTypeLen (c_dataType r))) (q_reportableChange q)
         = vtake (unat (zcl_getDataTypeLen (c_dataType r))) (c_reportableChange r))"
proof -
  obtain a where a: "zcl_findAttribute ep c (c_attrID r) s = Some a" "a_type a = c_dataType r"
    "a_access a AND ACCESS_CONTROL_REPORTABLE \<noteq> 0" "c_maxReportInt r = 0 \<or> c_minReportInt r \<le> c_maxReportInt r"
    using configureReporting_valid [OF assms(1)] by blast
  obtain i where i: "i < length (reportCfgInfo s)" "s' = zcl_reportCfgInfoEntryUpdate i ep prof c r s"
    "if r_used (reportCfgInfo s ! i) = 0 then zcl_reportCfgInfoEntryFind ep c (c_attrID r) s = None
     else zcl_reportCfgInfoEntryFind ep c (c_attrID r) s = Some i"
    using assms(1)
  proof (cases rule: configureReporting_cases)
    case (insert i)
    with FreeGet_free [OF insert(3)] that [of i] show ?thesis by simp
  next
    case (update i)
    with EntryFind_used [of ep c "c_attrID r" s i] that show ?thesis by auto
  qed (use assms(2) in auto)
  obtain e where e: "reportCfgInfo s' = (reportCfgInfo s)[i := e]" "entry_key e = (ep, c, c_attrID r)"
    "takes_effect prof r (reportCfgInfo s ! i) e"
    using updated_entry [OF i(1,3) assms(3) a(1,2), of prof, folded i(2)] by blast
  note e' = e(3) [unfolded takes_effect_def]
  have cl: "clusterList s' = clusterList s" by (simp add: i(2) EntryUpdate_clusters)
  have f: "zcl_reportCfgInfoEntryFind ep c (c_attrID r) s' = Some i"
    using e' by (intro updated_find [OF i(1) e(1) _ e(2) i(3)]) blast
  have ag: "types_agree s'" using types_agree_upd [OF assms(3) cl e(1,2) a(1)] a(2) e' by simp
  have "reportCfgInfo s' ! i = e" "zcl_findAttribute ep c (c_attrID r) s' = Some a"
    using e(1) i(1) a(1) findAttribute_cong [OF cl] by simp_all
  then have "\<exists>q. readCfg_loop ep c junk [(ZCL_SEND_ATTR_REPORTS, c_attrID r)] ZCL_STA_SUCCESS s' = [q] \<and>
      q_status q = ZCL_STA_SUCCESS \<and> q_direction q = ZCL_SEND_ATTR_REPORTS \<and> q_attrID q = c_attrID r \<and>
      q_dataType q = c_dataType r \<and>
      q_minReportInt q = c_minReportInt r \<and> q_maxReportInt q = c_maxReportInt r \<and>
      (zcl_analogDataType (c_dataType r) \<longrightarrow> q_reportableChange q = lview (reportableChange e) junk)"
    using f a(3) e' by (simp add: Let_def)
  with a i(1) e(1,3) f ag change_stored_read [of r "reportCfgInfo s ! i" e junk] e' show ?thesis by metis
qed

lemma ex_init_types: "types_agree ex_init"
  by (simp add: types_agree_def ex_init_def zcl_reportingTabInit_def zcl_reportingTab_restore_def ex_env_def
      ex_state_def NV_SUCC_def zcl_reportCfgInfoEntryClear_def)

lemma configure_takes_effect_witness:
  "\<exists>i e. zcl_reportCfgInfoEntryFind 1 0x0402 0
     (snd (zcl_configureReporting ex_env 1 0x0104 0x0402 ex_rec ex_init)) = Some i \<and>
   reportCfgInfo (snd (zcl_configureReporting ex_env 1 0x0104 0x0402 ex_rec ex_init)) = (reportCfgInfo ex_init)[i := e] \<and>
   takes_effect 0x0104 ex_rec (reportCfgInfo ex_init ! i) e"
proof -
  have "fst (zcl_configureReporting ex_env 1 0x0104 0x0402 ex_rec ex_init) = ZCL_STA_SUCCESS"
    by code_simp
  then have c: "zcl_configureReporting ex_env 1 0x0104 0x0402 ex_rec ex_init
      = (ZCL_STA_SUCCESS, snd (zcl_configureReporting ex_env 1 0x0104 0x0402 ex_rec ex_init))"
    by (metis prod.collapse)
  have d: "\<not> (c_maxReportInt ex_rec = 0 \<and> c_minReportInt ex_rec = 0xFFFF)" "c_attrID ex_rec = 0"
    by (simp_all add: ex_rec_def)
  from configure_takes_effect [OF c d(1) ex_init_types, of "\<lambda>_. 0"] show ?thesis unfolding d(2) by blast
qed

end
