(* ===== verification/Zcl_Discover.thy ===== *)
theory Zcl_Discover
  imports Zcl_Report
begin

text \<open>
  Discover Attributes and Discover Attributes Extended of \<^verbatim>\<open>zigbee/zcl/zcl.c\<close>.
\<close>

definition disc_bytes :: "u16 \<Rightarrow> u8 \<Rightarrow> bytes" where
  "disc_bytes startAttr maxAttrIDs = u16_bytes startAttr @ [maxAttrIDs]"

definition zcl_discAttrs ::
  "zenv \<Rightarrow> u8 \<Rightarrow> epInfo_t \<Rightarrow> u16 \<Rightarrow> u16 \<Rightarrow> u8 \<Rightarrow> u8 \<Rightarrow> u8 \<Rightarrow> u16 \<Rightarrow> u8 \<Rightarrow> zst \<Rightarrow> u8 \<times> zst" where
  "zcl_discAttrs env srcEp dst clusterId manu disableDefaultRsp direction seqNo startAttr maxAttrIDs s =
     zcl_sendCmd env srcEp dst clusterId ZCL_CMD_DISCOVER_ATTR 0 direction disableDefaultRsp manu seqNo
       3 (lview (disc_bytes startAttr maxAttrIDs) (uninit env)) s"

definition zcl_discAttrsExtended ::
  "zenv \<Rightarrow> u8 \<Rightarrow> epInfo_t \<Rightarrow> u16 \<Rightarrow> u16 \<Rightarrow> u8 \<Rightarrow> u8 \<Rightarrow> u8 \<Rightarrow> u16 \<Rightarrow> u8 \<Rightarrow> zst \<Rightarrow> u8 \<times> zst" where
  "zcl_discAttrsExtended env srcEp dst clusterId manu disableDefaultRsp direction seqNo startAttr maxAttrIDs s =
     zcl_sendCmd env srcEp dst clusterId ZCL_CMD_DISCOVER_ATTR_EXTD 0 direction disableDefaultRsp manu seqNo
       3 (lview (disc_bytes startAttr maxAttrIDs) (uninit env)) s"

definition disc_rec :: "u16 \<times> u8 \<Rightarrow> bytes" where
  "disc_rec r = u16_bytes (fst r) @ [snd r]"

definition zcl_discAttrsRsp ::
  "zenv \<Rightarrow> u8 \<Rightarrow> epInfo_t \<Rightarrow> u16 \<Rightarrow> u16 \<Rightarrow> u8 \<Rightarrow> u8 \<Rightarrow> u8 \<Rightarrow> u8 \<Rightarrow> (u16 \<times> u8) list \<Rightarrow> zst \<Rightarrow> u8 \<times> zst" where
  "zcl_discAttrsRsp env srcEp dst clusterId manu disableDefaultRsp direction seqNo discComplete recs s =
     (let len = 1 + of_nat (length recs) * 3 in
      zcl_sendBuf env srcEp dst clusterId ZCL_CMD_DISCOVER_ATTR_RSP direction disableDefaultRsp manu
        seqNo len len (discComplete # concat (map disc_rec recs)) s)"

definition disc_ext_rec :: "u16 \<times> u8 \<times> u8 \<Rightarrow> bytes" where
  "disc_ext_rec r = (case r of (i, t, ac) \<Rightarrow> u16_bytes i @ [t, ac])"

definition zcl_discAttrsExtendedRsp ::
  "zenv \<Rightarrow> u8 \<Rightarrow> epInfo_t \<Rightarrow> u16 \<Rightarrow> u16 \<Rightarrow> u8 \<Rightarrow> u8 \<Rightarrow> u8 \<Rightarrow> u8 \<Rightarrow> (u16 \<times> u8 \<times> u8) list \<Rightarrow> zst \<Rightarrow> u8 \<times> zst" where
  "zcl_discAttrsExtendedRsp env srcEp dst clusterId manu disableDefaultRsp direction seqNo discComplete recs s =
     (let len = 1 + of_nat (length recs) * 4 in
      zcl_sendBuf env srcEp dst clusterId ZCL_CMD_DISCOVER_ATTR_EXTD_RSP direction disableDefaultRsp manu
        seqNo len len (discComplete # concat (map disc_ext_rec recs)) s)"

definition zcl_parseInDiscAttrsCmd :: "zclIncoming_t \<Rightarrow> zst \<Rightarrow> (ptr \<times> u16 \<times> u8) option \<times> zst" where
  "zcl_parseInDiscAttrsCmd m s =
     (case zalloc 3 s of
        (None, s1) \<Rightarrow> (None, s1)
      | (Some p, s1) \<Rightarrow> (Some (p, get_u16 (pData m), pData m 2), buf_touch p 3 s1))"

text \<open>The first loop of the handlers counts the attributes to return and stops at the maximum
  asked for; the second collects that many and finds out whether there are more.\<close>

fun disc_count :: "zclAttrInfo_t list \<Rightarrow> u16 \<Rightarrow> u8 \<Rightarrow> u8 \<Rightarrow> u8" where
  "disc_count [] startAttr maxIDs n = n"
| "disc_count (a # as) startAttr maxIDs n =
     (if n \<ge> maxIDs then n
      else disc_count as startAttr maxIDs (if a_id a \<ge> startAttr then n + 1 else n))"

fun disc_collect ::
  "zclAttrInfo_t list \<Rightarrow> u16 \<Rightarrow> nat \<Rightarrow> zclAttrInfo_t list \<Rightarrow> bool \<times> zclAttrInfo_t list" where
  "disc_collect [] startAttr num acc = (True, acc)"
| "disc_collect (a # as) startAttr num acc =
     (if a_id a \<ge> startAttr
      then (if length acc \<ge> num then (False, acc) else disc_collect as startAttr num (acc @ [a]))
      else disc_collect as startAttr num acc)"

definition disc_find :: "u8 \<Rightarrow> u16 \<Rightarrow> u16 \<Rightarrow> u8 \<Rightarrow> zst \<Rightarrow> u8" where
  "disc_find ep clusterId startAttr maxIDs s =
     (case zcl_findCluster ep clusterId s of
        None \<Rightarrow> 0 | Some c \<Rightarrow> disc_count (cluster_attrs c) startAttr maxIDs 0)"

definition disc_list :: "u8 \<Rightarrow> u16 \<Rightarrow> u16 \<Rightarrow> u8 \<Rightarrow> zst \<Rightarrow> bool \<times> zclAttrInfo_t list" where
  "disc_list ep clusterId startAttr numAttr s =
     (if numAttr > 0 then
        (case zcl_findCluster ep clusterId s of
           None \<Rightarrow> (True, []) | Some c \<Rightarrow> disc_collect (cluster_attrs c) startAttr (unat numAttr) [])
      else (True, []))"

definition zcl_discAttrsHandler ::
  "zenv \<Rightarrow> zclIncoming_t \<Rightarrow> zst \<Rightarrow> u8 \<times> zclIncoming_t \<times> zst" where
  "zcl_discAttrsHandler env m s =
     (let clusterId = i_cluster_id (indInfo (msg m));
          ep = i_dst_ep (indInfo (msg m)) in
      case zcl_parseInDiscAttrsCmd m s of
        (None, s1) \<Rightarrow> (ZCL_STA_INSUFFICIENT_SPACE, m, s1)
      | (Some (p, startAttr, maxIDs), s1) \<Rightarrow>
          (let m1 = set_attrCmd p (DiscoverAttrCmd startAttr maxIDs) m;
               numAttr = disc_find ep clusterId startAttr maxIDs s1 in
           case zalloc (2 + ucast numAttr * 3) s1 of
             (None, s2) \<Rightarrow> (ZCL_STA_INSUFFICIENT_SPACE, m1, s2)
           | (Some q, s2) \<Rightarrow>
               (let (complete, as) = disc_list ep clusterId startAttr numAttr s2;
                    s3 = buf_touch q (2 + 3 * length as) s2;
                    (status, s4) = zcl_discAttrsRsp env ep (reply_ep m 0) clusterId
                      (h_manufCode (hdr m)) 1 (not_dir m) (h_seqNum (hdr m)) (b2u8 complete)
                      (map (\<lambda>a. (a_id a, a_type a)) as) s3;
                    s5 = zfree q s4 in
                (if status = ZCL_STA_SUCCESS then ZCL_STA_CMD_HAS_RESP else status, m1, s5))))"

definition zcl_discAttrsExtendedHandler ::
  "zenv \<Rightarrow> zclIncoming_t \<Rightarrow> zst \<Rightarrow> u8 \<times> zclIncoming_t \<times> zst" where
  "zcl_discAttrsExtendedHandler env m s =
     (let clusterId = i_cluster_id (indInfo (msg m));
          ep = i_dst_ep (indInfo (msg m)) in
      case zcl_parseInDiscAttrsCmd m s of
        (None, s1) \<Rightarrow> (ZCL_STA_INSUFFICIENT_SPACE, m, s1)
      | (Some (p, startAttr, maxIDs), s1) \<Rightarrow>
          (let m1 = set_attrCmd p (DiscoverAttrCmd startAttr maxIDs) m;
               numAttr = disc_find ep clusterId startAttr maxIDs s1 in
           case zalloc (2 + ucast numAttr * 4) s1 of
             (None, s2) \<Rightarrow> (ZCL_STA_INSUFFICIENT_SPACE, m1, s2)
           | (Some q, s2) \<Rightarrow>
               (let (complete, as) = disc_list ep clusterId startAttr numAttr s2;
                    s3 = buf_touch q (2 + 4 * length as) s2;
                    (status, s4) = zcl_discAttrsExtendedRsp env ep (reply_ep m 0) clusterId
                      (h_manufCode (hdr m)) 1 (not_dir m) (h_seqNum (hdr m)) (b2u8 complete)
                      (map (\<lambda>a. (a_id a, a_type a, a_access a AND ACCESS_CONTROL_EXT_MASK)) as) s3;
                    s5 = zfree q s4 in
                (if status = ZCL_STA_SUCCESS then ZCL_STA_CMD_HAS_RESP else status, m1, s5))))"

subsection \<open>Responses\<close>

text \<open>\<^verbatim>\<open>dataLen - 1\<close> is a signed \<^verbatim>\<open>int\<close> and the division rounds towards zero, so an empty payload
  gives no records.\<close>

definition zcl_parseInDiscAttrsRspCmd ::
  "zclIncoming_t \<Rightarrow> zst \<Rightarrow> (ptr \<times> u8 \<times> (u16 \<times> u8) list) option \<times> zst" where
  "zcl_parseInDiscAttrsRspCmd m s =
     (let numAttr = of_nat ((unat (dataLen m) - 1) div 3) :: u8; len = 2 + ucast numAttr * 3 in
      case zalloc len s of
        (None, s1) \<Rightarrow> (None, s1)
      | (Some p, s1) \<Rightarrow>
          (let v = pData m;
               recs = map (\<lambda>i. (get_u16 (vdrop (1 + 3 * i) v), v (3 + 3 * i))) [0..<unat numAttr] in
           (Some (p, v 0, recs), buf_touch p (2 + 3 * length recs) s1)))"

definition zcl_discAttrsRspHandler ::
  "zenv \<Rightarrow> zclIncoming_t \<Rightarrow> zst \<Rightarrow> u8 \<times> zclIncoming_t \<times> zst" where
  "zcl_discAttrsRspHandler env m s =
     (case zcl_parseInDiscAttrsRspCmd m s of
        (None, s1) \<Rightarrow> (ZCL_STA_INSUFFICIENT_SPACE, m, s1)
      | (Some (p, c, recs), s1) \<Rightarrow> (ZCL_STA_SUCCESS, set_attrCmd p (DiscoverAttrRspCmd c recs) m, s1))"

definition zcl_parseInDiscCmdsCmd :: "zclIncoming_t \<Rightarrow> zst \<Rightarrow> (ptr \<times> u8 \<times> u8) option \<times> zst" where
  "zcl_parseInDiscCmdsCmd m s =
     (case zalloc 2 s of
        (None, s1) \<Rightarrow> (None, s1)
      | (Some p, s1) \<Rightarrow> (Some (p, pData m 0, pData m 1), buf_touch p 2 s1))"

definition zcl_discCmdsHandler :: "zclIncoming_t \<Rightarrow> u8" where
  "zcl_discCmdsHandler m = ZCL_STA_SUCCESS"

definition zcl_parseInDiscAttrsExtRspCmd ::
  "zclIncoming_t \<Rightarrow> zst \<Rightarrow> (ptr \<times> u8 \<times> (u16 \<times> u8 \<times> u8) list) option \<times> zst" where
  "zcl_parseInDiscAttrsExtRspCmd m s =
     (let numAttr = of_nat ((unat (dataLen m) - 1) div 4) :: u8; len = 2 + ucast numAttr * 4 in
      case zalloc len s of
        (None, s1) \<Rightarrow> (None, s1)
      | (Some p, s1) \<Rightarrow>
          (let v = pData m;
               recs = map (\<lambda>i. (get_u16 (vdrop (1 + 4 * i) v), v (3 + 4 * i), v (4 + 4 * i)))
                        [0..<unat numAttr] in
           (Some (p, v 0, recs), buf_touch p (2 + 4 * length recs) s1)))"

definition zcl_discAttrsExtRspHandler ::
  "zenv \<Rightarrow> zclIncoming_t \<Rightarrow> zst \<Rightarrow> u8 \<times> zclIncoming_t \<times> zst" where
  "zcl_discAttrsExtRspHandler env m s =
     (case zcl_parseInDiscAttrsExtRspCmd m s of
        (None, s1) \<Rightarrow> (ZCL_STA_INSUFFICIENT_SPACE, m, s1)
      | (Some (p, c, recs), s1) \<Rightarrow> (ZCL_STA_SUCCESS, set_attrCmd p (DiscoverAttrExtRspCmd c recs) m, s1))"


subsection \<open>Blocks\<close>

lemma parseInDiscAttrsCmd_holds [pool_effects]:
  "zcl_parseInDiscAttrsCmd m s = (r, s') \<Longrightarrow> holds s (map_option fst r) s'"
  by (auto simp: zcl_parseInDiscAttrsCmd_def split: handled_splits dest!: holds_alloc intro: holds_touch)

lemma parseInDiscAttrsRspCmd_holds [pool_effects]:
  "zcl_parseInDiscAttrsRspCmd m s = (r, s') \<Longrightarrow> holds s (map_option fst r) s'"
  by (auto simp: zcl_parseInDiscAttrsRspCmd_def Let_def split: handled_splits
      dest!: holds_alloc intro: holds_touch)

lemma parseInDiscAttrsExtRspCmd_holds [pool_effects]:
  "zcl_parseInDiscAttrsExtRspCmd m s = (r, s') \<Longrightarrow> holds s (map_option fst r) s'"
  by (auto simp: zcl_parseInDiscAttrsExtRspCmd_def Let_def split: handled_splits
      dest!: holds_alloc intro: holds_touch)

lemma discAttrsRsp_effect:
  assumes "zcl_discAttrsRsp env srcEp dst cl manu dis dir seq c recs s = (st, s')"
  shows "only_sent s s'" "no_leak s s'"
  using sendBuf_effect(1,3) [OF assms [unfolded zcl_discAttrsRsp_def Let_def]] by simp_all

lemma discAttrsExtendedRsp_effect:
  assumes "zcl_discAttrsExtendedRsp env srcEp dst cl manu dis dir seq c recs s = (st, s')"
  shows "only_sent s s'" "no_leak s s'"
  using sendBuf_effect(1,3) [OF assms [unfolded zcl_discAttrsExtendedRsp_def Let_def]] by simp_all

lemmas [pool_effects] = discAttrsRsp_effect(2) discAttrsExtendedRsp_effect(2)

lemma discAttrsHandler_handled [pool_effects]:
  "zcl_discAttrsHandler env m s = (st, m', s') \<Longrightarrow> handled m s m' s'"
  by (auto simp: zcl_discAttrsHandler_def Let_def set_attrCmd_def split: handled_splits
      dest!: pool_effects intro!: handled_rules intro: answer_rules)

lemma discAttrsExtendedHandler_handled [pool_effects]:
  "zcl_discAttrsExtendedHandler env m s = (st, m', s') \<Longrightarrow> handled m s m' s'"
  by (auto simp: zcl_discAttrsExtendedHandler_def Let_def set_attrCmd_def split: handled_splits
      dest!: pool_effects intro!: handled_rules intro: answer_rules)

lemma discAttrsRspHandler_handled [pool_effects]:
  "zcl_discAttrsRspHandler env m s = (st, m', s') \<Longrightarrow> handled m s m' s'"
  by (auto simp: zcl_discAttrsRspHandler_def set_attrCmd_def split: handled_splits
      dest!: pool_effects intro!: handled_rules)

lemma discAttrsExtRspHandler_handled [pool_effects]:
  "zcl_discAttrsExtRspHandler env m s = (st, m', s') \<Longrightarrow> handled m s m' s'"
  by (auto simp: zcl_discAttrsExtRspHandler_def set_attrCmd_def split: handled_splits
      dest!: pool_effects intro!: handled_rules)

end
