(* ===== verification/Zcl_Dispatch.thy ===== *)
theory Zcl_Dispatch
  imports Zcl_Discover
begin

text \<open>
  Default responses and the dispatch of an incoming frame: \<^verbatim>\<open>zcl_foundationCmdHandler\<close> and
  \<^verbatim>\<open>zcl_cmdHandler\<close> of \<^verbatim>\<open>zigbee/zcl/zcl.c\<close>, with every profile command compiled in
  (\<^verbatim>\<open>ZCL_READ\<close>, \<^verbatim>\<open>ZCL_WRITE\<close>, \<^verbatim>\<open>ZCL_REPORT\<close>, \<^verbatim>\<open>ZCL_DISCOVER\<close>, \<^verbatim>\<open>ZCL_OTA\<close>) and without
  \<^verbatim>\<open>ZCL_WWAH\<close>, as the applications of the repository do.
  Its theorem follows the blocks of the pool through a whole frame, for every run in which no
  handler writes outside an object.
\<close>

subsection \<open>Default responses\<close>

definition zcl_sendDfltRsp :: "zenv \<Rightarrow> zclIncoming_t \<Rightarrow> u8 \<Rightarrow> u8 \<Rightarrow> zst \<Rightarrow> u8 \<times> zst" where
  "zcl_sendDfltRsp env m cmdId status s =
     zcl_sendCmd env (i_dst_ep (indInfo (msg m))) (reply_ep m APS_TX_OPT_ACK_TX)
       (i_cluster_id (indInfo (msg m))) ZCL_CMD_DEFAULT_RSP 0 (not_dir m) 1 (h_manufCode (hdr m))
       (h_seqNum (hdr m)) 2 (lview [cmdId, status] (uninit env)) s"

definition zcl_parseInDftRspCmd :: "zclIncoming_t \<Rightarrow> zst \<Rightarrow> (ptr \<times> u8 \<times> u8) option \<times> zst" where
  "zcl_parseInDftRspCmd m s =
     (case zalloc 2 s of
        (None, s1) \<Rightarrow> (None, s1)
      | (Some p, s1) \<Rightarrow> (Some (p, pData m 0, pData m 1), buf_touch p 2 s1))"

definition set_disDefResp :: "zclIncoming_t \<Rightarrow> zclIncoming_t" where
  "set_disDefResp m =
     (if \<not> frmCtrl_disDefResp (h_frmCtrl (hdr m))
      then m\<lparr>hdr := (hdr m)\<lparr>h_frmCtrl := h_frmCtrl (hdr m) OR 0x10\<rparr>\<rparr> else m)"

text \<open>A default response is never answered: the handler sets the bit that suppresses the answer.\<close>

definition zcl_dfltRspHandler ::
  "zenv \<Rightarrow> zclIncoming_t \<Rightarrow> zst \<Rightarrow> u8 \<times> zclIncoming_t \<times> zst" where
  "zcl_dfltRspHandler env m0 s =
     (let m = set_disDefResp m0;
          clusterId = i_cluster_id (indInfo (msg m));
          ep = i_dst_ep (indInfo (msg m)) in
      case zcl_parseInDftRspCmd m s of
        (None, s1) \<Rightarrow> (ZCL_STA_INSUFFICIENT_SPACE, m, s1)
      | (Some (p, commandID, statusCode), s1) \<Rightarrow>
          (let m1 = set_attrCmd p (DefaultRspCmd commandID statusCode) m;
               s2 = (if clusterId = ZCL_CLUSTER_OTA \<and> commandID = ZCL_CMD_OTA_UPGRADE_END_REQ \<and>
                        statusCode = ZCL_STA_ABORT
                     then
                       (case zcl_getAttrVal ep ZCL_CLUSTER_OTA ZCL_ATTRID_OTA_IMAGE_UPGRADE_STATUS s1 of
                          (st, len, bs) \<Rightarrow>
                            (if st = ZCL_STA_SUCCESS then
                               let s' = local_touch 1 (length bs) s1;
                                   d = (case bs of [] \<Rightarrow> 0 | b # _ \<Rightarrow> b) in
                               (if d = IMAGE_UPGRADE_STATUS_DOWNLOAD_COMPLETE
                                then ota_upgradeAbort env s' else s')
                             else s1))
                     else s1) in
           (ZCL_STA_SUCCESS, m1, s2)))"

subsection \<open>Dispatch\<close>

definition unsup_general :: "zclIncoming_t \<Rightarrow> u8" where
  "unsup_general m = (if h_manufCode (hdr m) = MANUFACTURER_CODE_NONE
     then ZCL_STA_UNSUP_GENERAL_COMMAND else ZCL_STA_UNSUP_MANU_GENERAL_COMMAND)"

definition zcl_foundationCmdHandler ::
  "zenv \<Rightarrow> zclIncoming_t \<Rightarrow> zst \<Rightarrow> u8 \<times> zclIncoming_t \<times> zst" where
  "zcl_foundationCmdHandler env m s =
    (let c = h_cmd (hdr m) in
     if c = ZCL_CMD_READ then zcl_readHandler env m s
     else if c = ZCL_CMD_READ_RSP then zcl_readRspHandler env m s
     else if c = ZCL_CMD_WRITE then zcl_writeHandler env m s
     else if c = ZCL_CMD_WRITE_UNDIVIDED then zcl_writeUndividedHandler env m s
     else if c = ZCL_CMD_WRITE_RSP then zcl_writeRspHandler env m s
     else if c = ZCL_CMD_WRITE_NO_RSP then zcl_writeHandler env m s
     else if c = ZCL_CMD_CONFIG_REPORT then zcl_configReportHandler env m s
     else if c = ZCL_CMD_CONFIG_REPORT_RSP then zcl_configReportRspHandler env m s
     else if c = ZCL_CMD_READ_REPORT_CFG then zcl_readReportCfgHandler env m s
     else if c = ZCL_CMD_READ_REPORT_CFG_RSP then zcl_readReportCfgRspHandler env m s
     else if c = ZCL_CMD_REPORT then zcl_reportHandler env m s
     else if c = ZCL_CMD_DEFAULT_RSP then zcl_dfltRspHandler env m s
     else if c = ZCL_CMD_DISCOVER_ATTR then zcl_discAttrsHandler env m s
     else if c = ZCL_CMD_DISCOVER_ATTR_RSP then zcl_discAttrsRspHandler env m s
     else if c = ZCL_CMD_DISCOVER_ATTR_EXTD then zcl_discAttrsExtendedHandler env m s
     else if c = ZCL_CMD_DISCOVER_ATTR_EXTD_RSP then zcl_discAttrsExtRspHandler env m s
     else (unsup_general m, m, s))"

definition UNICAST_MSG :: "apsdeDataInd_t \<Rightarrow> bool" where
  "UNICAST_MSG d \<longleftrightarrow> i_dst_addr (indInfo d) < NWK_BROADCAST_ROUTER_COORDINATOR \<and>
     i_dst_addr_mode (indInfo d) \<noteq> APS_SHORT_GROUPADDR_NOEP"

definition inMsg0 :: "apsdeDataInd_t \<Rightarrow> zclIncoming_t" where
  "inMsg0 d = \<lparr>m_clusterAppCb = None, msg = d, pData = (\<lambda>_. 0), attrCmd = None, dataLen = 0,
     addrInfo = \<lparr>ai_profileId = 0, ai_srcAddr = 0, ai_dstAddr = 0, ai_srcEp = 0, ai_dstEp = 0,
       ai_seqNum = 0, ai_dirCluster = False, ai_apsSec = False\<rparr>,
     hdr = \<lparr>h_frmCtrl = 0, h_manufCode = 0, h_seqNum = 0, h_cmd = 0\<rparr>\<rparr>"

text \<open>The header of a frame, \<open>None\<close> when the frame is too short for it.\<close>

definition parse_header :: "apsdeDataInd_t \<Rightarrow> zclIncoming_t option" where
  "parse_header d =
     (let a = asdu d in
      if frmCtrl_manufSpec (a 0) then
        (if unat (asduLen d) \<ge> 5 then
           Some ((inMsg0 d)\<lparr>hdr := \<lparr>h_frmCtrl = a 0, h_manufCode = BUILD_U16 (a 1) (a 2),
                                    h_seqNum = a 3, h_cmd = a 4\<rparr>,
                            pData := vdrop 5 a, dataLen := asduLen d - 5\<rparr>)
         else None)
      else
        (if unat (asduLen d) \<ge> 3 then
           Some ((inMsg0 d)\<lparr>hdr := \<lparr>h_frmCtrl = a 0, h_manufCode = 0, h_seqNum = a 1, h_cmd = a 2\<rparr>,
                            pData := vdrop 3 a, dataLen := asduLen d - 3\<rparr>)
         else None))"

definition addr_info :: "zclIncoming_t \<Rightarrow> zclIncomingAddrInfo_t" where
  "addr_info m = (let i = indInfo (msg m) in
     \<lparr>ai_profileId = i_profile_id i, ai_srcAddr = i_src_short_addr i, ai_dstAddr = i_dst_addr i,
      ai_srcEp = i_src_ep i, ai_dstEp = i_dst_ep i, ai_seqNum = h_seqNum (hdr m),
      ai_dirCluster = frmCtrl_dir (h_frmCtrl (hdr m)),
      ai_apsSec = (i_security_status i AND SECURITY_IN_APSLAYER \<noteq> 0)\<rparr>)"

text \<open>Whether the device is disabled: the attribute \<^verbatim>\<open>DeviceEnabled\<close> of the Basic cluster of the
  endpoint, read into a one-byte variable that is \<^verbatim>\<open>TRUE\<close> before.\<close>

definition device_enable :: "zclIncoming_t \<Rightarrow> zst \<Rightarrow> bool \<times> zst" where
  "device_enable m s =
     (case zcl_getAttrVal (i_dst_ep (indInfo (msg m))) ZCL_CLUSTER_GEN_BASIC ZCL_ATTRID_BASIC_DEV_ENABLED s of
        (st, len, bs) \<Rightarrow>
          (if st = ZCL_STA_SUCCESS
           then ((case bs of [] \<Rightarrow> True | b # _ \<Rightarrow> b \<noteq> 0), local_touch 1 (length bs) s)
           else (True, s)))"

definition blocked_when_disabled :: "zclIncoming_t \<Rightarrow> bool" where
  "blocked_when_disabled m \<longleftrightarrow>
     i_cluster_id (indInfo (msg m)) \<noteq> ZCL_CLUSTER_GEN_IDENTIFY \<and>
     frmCtrl_type (h_frmCtrl (hdr m)) = ZCL_FRAME_TYPE_PROFILE_CMD \<and>
     h_cmd (hdr m) \<noteq> ZCL_CMD_READ \<and> h_cmd (hdr m) \<noteq> ZCL_CMD_WRITE"

definition profile_status :: "u8 \<Rightarrow> u8" where
  "profile_status st =
     (if st \<noteq> ZCL_STA_UNSUP_GENERAL_COMMAND \<and> st \<noteq> ZCL_STA_UNSUP_MANU_GENERAL_COMMAND \<and>
         st \<noteq> ZCL_STA_SUCCESS \<and> st \<noteq> ZCL_STA_CMD_HAS_RESP
      then ZCL_STA_FAILURE else st)"

text \<open>A cluster command goes to the handler the cluster registered. The handler pointer is called
  without a test; a cluster registered without a handler is a call through a null pointer.\<close>

definition dispatch_cluster ::
  "zenv \<Rightarrow> zclIncoming_t \<Rightarrow> zst \<Rightarrow> u8 \<times> zclIncoming_t \<times> zst" where
  "dispatch_cluster env m s =
     (let unsup = (if h_manufCode (hdr m) = MANUFACTURER_CODE_NONE
                   then ZCL_STA_UNSUP_CLUSTER_COMMAND else ZCL_STA_UNSUP_MANU_CLUSTER_COMMAND) in
      case zcl_findCluster (i_dst_ep (indInfo (msg m))) (i_cluster_id (indInfo (msg m))) s of
        None \<Rightarrow> (unsup, m, s)
      | Some c \<Rightarrow>
          (if manuCode c \<noteq> h_manufCode (hdr m) \<and> h_manufCode (hdr m) \<noteq> 0 then (unsup, m, s)
           else
             (let m1 = m\<lparr>m_clusterAppCb := clusterAppCb c, addrInfo := addr_info m\<rparr> in
              case cmdHandlerFunc c of
                None \<Rightarrow> (ZCL_STA_SUCCESS, m1, null_deref s)
              | Some f \<Rightarrow> (let (st, s') = cmdHandler env f m1 s in (st, m1, s')))))"

definition dispatch ::
  "zenv \<Rightarrow> zclIncoming_t \<Rightarrow> zst \<Rightarrow> u8 \<times> bool \<times> zclIncoming_t \<times> zst" where
  "dispatch env m s =
     (if frmCtrl_type (h_frmCtrl (hdr m)) = ZCL_FRAME_TYPE_PROFILE_CMD then
        let (st, m', s') = zcl_foundationCmdHandler env m s in (profile_status st, True, m', s')
      else
        let (st, m', s') = dispatch_cluster env m s in (st, False, m', s'))"

definition needs_dfltRsp :: "zclIncoming_t \<Rightarrow> u8 \<Rightarrow> bool" where
  "needs_dfltRsp m st \<longleftrightarrow>
     (\<not> frmCtrl_disDefResp (h_frmCtrl (hdr m)) \<or> st \<noteq> ZCL_STA_SUCCESS) \<and>
     UNICAST_MSG (msg m) \<and> st \<noteq> ZCL_STA_CMD_HAS_RESP"

definition finish_cmd :: "zenv \<Rightarrow> u8 \<Rightarrow> bool \<Rightarrow> zclIncoming_t \<Rightarrow> zst \<Rightarrow> zst" where
  "finish_cmd env st toAppFlg m s =
     (let s1 = (if needs_dfltRsp m st then snd (zcl_sendDfltRsp env m (h_cmd (hdr m)) st s) else s);
          s2 = (case (hookFn s1, toAppFlg, attrCmd m) of
                  (Some h, True, Some (p, c)) \<Rightarrow> zfree p (hook env h m s1)
                | _ \<Rightarrow> s1) in
      zfree (d_buf (msg m)) s2)"

definition zcl_cmdHandler :: "zenv \<Rightarrow> apsdeDataInd_t \<Rightarrow> zst \<Rightarrow> zst" where
  "zcl_cmdHandler env d s =
     (case parse_header d of
        None \<Rightarrow> zfree (d_buf d) s
      | Some m \<Rightarrow>
          (let (devEnable, s1) = device_enable m s in
           if \<not> devEnable \<and> blocked_when_disabled m then zfree (d_buf d) s1
           else
             (let (st, toAppFlg, m', s2) = dispatch env m s1 in
              finish_cmd env st toAppFlg m' s2)))"


subsection \<open>Blocks\<close>

lemma set_disDefResp_fields [simp]:
  "msg (set_disDefResp m) = msg m" "attrCmd (set_disDefResp m) = attrCmd m"
  "pData (set_disDefResp m) = pData m" "dataLen (set_disDefResp m) = dataLen m"
  by (simp_all add: set_disDefResp_def)

lemma parseInDftRspCmd_holds [pool_effects]:
  "zcl_parseInDftRspCmd m s = (r, s') \<Longrightarrow> holds s (map_option fst r) s'"
  by (auto simp: zcl_parseInDftRspCmd_def split: handled_splits dest!: holds_alloc intro: holds_touch)

lemma local_touch_fields [simp]:
  "pool (local_touch k n s) = pool s" "hookFn (local_touch k n s) = hookFn s" "ub s \<Longrightarrow> ub (local_touch k n s)"
  by (simp_all add: local_touch_def)

lemma holds_local: "holds s r s' \<Longrightarrow> holds s r (local_touch k n s')"
  by (erule holds_eq) simp_all

lemma dfltRspHandler_handled:
  assumes env: "env_balanced env" and h: "zcl_dfltRspHandler env m s = (st, m', s')"
  shows "handled m s m' s'"
proof -
  have ota: "holds s (Some p) s1 \<Longrightarrow> holds s (Some p) (ota_upgradeAbort env s1)" for p s1
    using env holds_trans by (auto simp: env_balanced_def)
  have k: "handled m s ((set_disDefResp m)\<lparr>attrCmd := Some (p, c)\<rparr>) s1" if "holds s (Some p) s1" for p c s1
    using that by (simp add: handled_def)
  show ?thesis
    using h
    by (auto simp: zcl_dfltRspHandler_def Let_def set_attrCmd_def handled_None
        split: handled_splits dest!: pool_effects intro!: k ota holds_local)
      (simp add: handled_def)
qed

lemma foundation_handled:
  assumes env: "env_balanced env" and h: "zcl_foundationCmdHandler env m s = (st, m', s')"
  shows "handled m s m' s'"
  using h configReportHandler_handled [OF env] dfltRspHandler_handled [OF env]
  unfolding zcl_foundationCmdHandler_def Let_def
  by (auto split: if_splits dest!: pool_effects intro: handled_None)

lemma dispatch_cluster_handled:
  assumes env: "env_balanced env" and h: "dispatch_cluster env m s = (st, m', s')"
  shows "msg m' = msg m" "attrCmd m' = attrCmd m" "no_leak s s'"
proof -
  have c: "no_leak s (snd (cmdHandler env f m1 s))" for f m1
    using env by (simp add: env_balanced_def)
  have n: "no_leak s (null_deref s)" by (rule no_leak_eq) (simp_all add: null_deref_def)
  have "msg m' = msg m \<and> attrCmd m' = attrCmd m \<and> no_leak s s'"
    using h by (auto simp: dispatch_cluster_def Let_def n split: handled_splits) (metis c snd_conv)+
  then show "msg m' = msg m" "attrCmd m' = attrCmd m" "no_leak s s'" by auto
qed

lemma dispatch_handled:
  assumes env: "env_balanced env" and h: "dispatch env m s = (st, app, m', s')" and "attrCmd m = None"
  shows "handled m s m' s'" "attrCmd m' \<noteq> None \<Longrightarrow> app"
  using h foundation_handled [OF env] dispatch_cluster_handled [OF env] assms(3)
  by (fastforce simp: dispatch_def handled_def split: handled_splits)+

lemma sendDfltRsp_pool [pool_effects]: "zcl_sendDfltRsp env m c st s = (r, s') \<Longrightarrow> no_leak s s'"
  unfolding zcl_sendDfltRsp_def by (rule sendCmd_effect(3))

lemma sendDfltRsp_snd: "no_leak s (snd (zcl_sendDfltRsp env m c st s))"
  using sendDfltRsp_pool by (metis prod.collapse)

text \<open>The end of \<^verbatim>\<open>zcl_cmdHandler\<close>: the frame is given back, and with a hook installed the parsed
  command too; without one, the block of the parsed command stays in use.\<close>

definition frame_freed :: "zst \<Rightarrow> ptr \<Rightarrow> zst \<Rightarrow> bool" where
  "frame_freed s b s' \<longleftrightarrow> zok s' \<and>
     (zlive s' = zlive s - {b} \<or>
      hookFn s = None \<and> (\<exists>p. p \<notin> zlive s \<and> zlive s' = insert p (zlive s - {b})))"

lemma frame_freed_free:
  assumes "no_leak s s'" "zok s" "b \<in> zlive s" "\<not> ub (zfree b s')"
  shows "frame_freed s b (zfree b s')"
  using assms zb.release_inv [of s'] zb.release_used [of s']
  by (simp add: frame_freed_def no_leak_def same_pool_def)

lemma frame_freed_before:
  "no_leak s0 s \<Longrightarrow> \<not> ub s \<Longrightarrow> zok s0 \<Longrightarrow> frame_freed s b s' \<Longrightarrow> frame_freed s0 b s'"
  by (simp add: frame_freed_def no_leak_def same_pool_def)

definition toApp :: "zenv \<Rightarrow> bool \<Rightarrow> zclIncoming_t \<Rightarrow> zst \<Rightarrow> zst" where
  \<comment> \<open>the call of the hook, at the end of \<^verbatim>\<open>zcl_cmdHandler\<close>\<close>
  "toApp env app m s = (case (hookFn s, app, attrCmd m) of
     (Some h, True, Some (p, c)) \<Rightarrow> zfree p (hook env h m s) | _ \<Rightarrow> s)"

lemma toApp_cases:
  assumes env: "env_balanced env"
    and h: "holds s (map_option fst (attrCmd m)) s1" "attrCmd m \<noteq> None \<longrightarrow> app"
  shows "no_leak s (toApp env app m s1) \<or>
    (\<exists>p. hookFn s1 = None \<and> toApp env app m s1 = s1 \<and> holds s (Some p) s1)"
proof (cases "attrCmd m")
  case None
  with h show ?thesis by (simp add: toApp_def split: option.splits bool.splits)
next
  case (Some pc)
  obtain p c where pc: "pc = (p, c)" by fastforce
  show ?thesis
  proof (cases "hookFn s1")
    case None
    with h Some pc show ?thesis by (auto simp: toApp_def)
  next
    case (Some hf)
    have "holds s (Some p) (hook env hf m s1)"
      using h \<open>attrCmd m = Some pc\<close> pc env holds_trans by (auto simp: env_balanced_def)
    from holds_free [OF this] show ?thesis
      using h(2) Some \<open>attrCmd m = Some pc\<close> pc by (simp add: toApp_def)
  qed
qed

lemma finish_cmd_pool:
  assumes env: "env_balanced env"
    and h: "holds s (map_option fst (attrCmd m)) s'" "attrCmd m \<noteq> None \<longrightarrow> app"
    and d: "d_buf (msg m) \<in> zlive s" and ok: "zok s" and u: "\<not> ub (finish_cmd env st app m s')"
  shows "frame_freed s (d_buf (msg m)) (finish_cmd env st app m s')"
proof -
  define s1 where "s1 = (if needs_dfltRsp m st then snd (zcl_sendDfltRsp env m (h_cmd (hdr m)) st s') else s')"
  have h1: "holds s (map_option fst (attrCmd m)) s1"
    by (rule holds_trans [OF h(1)]) (simp add: s1_def sendDfltRsp_snd)
  have f: "finish_cmd env st app m s' = zfree (d_buf (msg m)) (toApp env app m s1)"
    unfolding finish_cmd_def Let_def s1_def [symmetric] toApp_def by (rule refl)
  from toApp_cases [OF env h1 h(2)] show ?thesis
  proof (elim disjE exE conjE)
    assume "no_leak s (toApp env app m s1)"
    with d ok u show ?thesis unfolding f by (intro frame_freed_free)
  next
    fix p assume p: "hookFn s1 = None" "toApp env app m s1 = s1" "holds s (Some p) s1"
    have "\<not> ub s1" using u by (simp add: f p(2))
    with ok p have z: "zok s1" "p \<notin> zlive s" "zlive s1 = insert p (zlive s)" "hookFn s = None"
      by (simp_all add: holds_def)
    have "zok (zfree (d_buf (msg m)) s1)" "zlive (zfree (d_buf (msg m)) s1) = insert p (zlive s - {d_buf (msg m)})"
      using zb.release_inv [of s1 "d_buf (msg m)"] zb.release_used [of s1 "d_buf (msg m)"] d z(1-3) by auto
    with z(2,4) show ?thesis unfolding f p(2) frame_freed_def by blast
  qed
qed

lemma no_leak_ub: "no_leak s s' \<Longrightarrow> ub s \<Longrightarrow> ub s'"
  by (auto simp: no_leak_def)

lemma hook_no_leak: "env_balanced env \<Longrightarrow> no_leak s (hook env h m s)"
  unfolding env_balanced_def by blast

lemma toApp_ub: "env_balanced env \<Longrightarrow> ub s \<Longrightarrow> ub (toApp env app m s)"
  using no_leak_ub [OF hook_no_leak] by (auto simp: toApp_def split: option.splits bool.splits)

lemma finish_cmd_ub: "env_balanced env \<Longrightarrow> ub s \<Longrightarrow> ub (finish_cmd env st app m s)"
  using no_leak_ub [OF sendDfltRsp_snd]
  unfolding finish_cmd_def Let_def toApp_def [symmetric] by (simp add: toApp_ub)

lemma parse_header_msg: "parse_header d = Some m \<Longrightarrow> msg m = d \<and> attrCmd m = None"
  by (auto simp: parse_header_def inMsg0_def Let_def split: if_splits)

lemma device_enable_pool: "device_enable m s = (b, s') \<Longrightarrow> no_leak s s'"
  by (auto simp: device_enable_def split: handled_splits intro!: no_leak_eq)

text \<open>C2. A message that is handled without a write outside an object leaks no block. Whatever frame
  arrives, of whatever length and content, and whatever the handlers answer: if the mark of such
  a write is not set at the end of \<^verbatim>\<open>zcl_cmdHandler\<close>, the pools are well-formed and the blocks in use are
  those before, less the block of the frame; without a hook of the application one more block, that
  of the parsed command, may stay in use. The mark is set by a
  write outside a block of the pool or outside a local variable and by a null pointer, and never
  cleared, so that a run without it had no such write at any point; a run with it, as the
  frames of \<open>write_parse_overrun\<close> and \<open>cfg_parse_overrun\<close>, is not covered, for there the pool is
  overwritten in the code. Handlers and hook outside the model are taken to keep the blocks and
  the mark.\<close>

theorem cmdHandler_no_leak:
  assumes "env_balanced env" "pool_ok (pool s)" "d_buf d \<in> live (pool s)"
    "\<not> ub (zcl_cmdHandler env d s)"
  shows "let s' = zcl_cmdHandler env d s in \<not> ub s \<and> pool_ok (pool s') \<and>
    (if hookFn s \<noteq> None then live (pool s') = live (pool s) - {d_buf d}
     else live (pool s') = live (pool s) - {d_buf d} \<or>
          (\<exists>p. p \<notin> live (pool s) \<and> live (pool s') = insert p (live (pool s) - {d_buf d})))"
proof -
  have "\<not> ub s \<and> frame_freed s (d_buf d) (zcl_cmdHandler env d s)"
  proof (cases "parse_header d")
    case None
    with assms frame_freed_free [of s s "d_buf d"] show ?thesis by (simp add: zcl_cmdHandler_def)
  next
    case (Some m)
    note m = parse_header_msg [OF Some]
    obtain en s1 where e: "device_enable m s = (en, s1)" by fastforce
    note s1 = device_enable_pool [OF e]
    show ?thesis
    proof (cases "\<not> en \<and> blocked_when_disabled m")
      case True
      then have "zcl_cmdHandler env d s = zfree (d_buf d) s1" using Some e by (simp add: zcl_cmdHandler_def)
      with frame_freed_free [OF s1] s1 assms show ?thesis by (simp add: no_leak_def)
    next
      case False
      obtain st app m' s2 where d: "dispatch env m s1 = (st, app, m', s2)" by (metis prod_cases4)
      have z: "zcl_cmdHandler env d s = finish_cmd env st app m' s2"
        using Some e False d by (auto simp: zcl_cmdHandler_def)
      note h = dispatch_handled [OF assms(1) d]
      have h1: "holds s1 (map_option fst (attrCmd m')) s2" "msg m' = d"
        using h m by (auto simp: handled_def)
      have "\<not> ub s1" using h1(1) finish_cmd_ub [OF assms(1), of s2 st app m'] assms(4) z by (auto simp: holds_def)
      then have "\<not> ub s" "zok s1" "zlive s1 = zlive s"
        using s1 assms(2) by (auto simp: no_leak_def same_pool_def)
      moreover from this have "frame_freed s1 (d_buf d) (finish_cmd env st app m' s2)"
        using finish_cmd_pool [OF assms(1) h1(1)] h(2) h1(2) m assms(3,4) z by simp
      ultimately show ?thesis
        using frame_freed_before [OF s1 \<open>\<not> ub s1\<close>] assms(2) z by simp
    qed
  qed
  then show ?thesis by (auto simp: frame_freed_def Let_def)
qed

lemma ex_env_balanced: "env_balanced ex_env"
  by (simp add: env_balanced_def ex_env_def)

lemma cmdHandler_no_leak_witness:
  "live (pool (zcl_cmdHandler ex_env (ex_ind 0 [0, 7, 0, 0x12, 0]) ex_state)) = {}"
proof -
  have "d_buf (ex_ind 0 [0, 7, 0, 0x12, 0]) \<in> live (pool ex_state)" "hookFn ex_state \<noteq> None"
    by (simp_all add: ex_ind_def) (simp add: ex_state_def)
  moreover have "\<not> ub (zcl_cmdHandler ex_env (ex_ind 0 [0, 7, 0, 0x12, 0]) ex_state)" by code_simp
  ultimately show ?thesis
    using cmdHandler_no_leak [OF ex_env_balanced ex_state_ok(1)] by (simp add: ex_ind_def Let_def)
qed

end
