(* ===== verification/Float32.thy ===== *)
theory Float32
  imports Complex_Main Zb_Prelude
begin

text \<open>
  The C type \<^verbatim>\<open>float\<close> of the applications: IEEE binary32 with rounding to nearest, ties to even. A
  finite value is a rational, each operation is exact and rounded once. Infinities, NaNs and
  the sign of zero are left out; no value the applications compute reaches them, the
  inputs being integers of 32 bits. A cast to an integer truncates, and is undefined in C when the
  result does not fit: \<open>in_width\<close> is the test the models use for that.
\<close>

definition round_he :: "rat \<Rightarrow> int" where
  \<comment> \<open>the nearest integer, the even one when two are\<close>
  "round_he x =
     (let f = \<lfloor>x\<rfloor>; r = x - of_int f in
      if r < 1 / 2 then f else if r > 1 / 2 then f + 1 else if even f then f else f + 1)"

definition f32_exp :: "rat \<Rightarrow> int" where
  \<comment> \<open>the exponent of the last place: from the subnormal grid up to the largest finite values\<close>
  "f32_exp q = (case find (\<lambda>e. \<bar>q\<bar> < 2 powi (24 + e)) [-149..104] of Some e \<Rightarrow> e | None \<Rightarrow> 105)"

definition f32 :: "rat \<Rightarrow> rat" where
  "f32 q = of_int (round_he (q / 2 powi f32_exp q)) * 2 powi f32_exp q"

definition f_div :: "rat \<Rightarrow> rat \<Rightarrow> rat" where "f_div a b = f32 (a / b)"
definition f_mul :: "rat \<Rightarrow> rat \<Rightarrow> rat" where "f_mul a b = f32 (a * b)"
definition f_add :: "rat \<Rightarrow> rat \<Rightarrow> rat" where "f_add a b = f32 (a + b)"
definition f_sub :: "rat \<Rightarrow> rat \<Rightarrow> rat" where "f_sub a b = f32 (a - b)"
definition f_of_int :: "int \<Rightarrow> rat" where "f_of_int n = f32 (of_int n)"

definition f_trunc :: "rat \<Rightarrow> int" where
  "f_trunc x = (if 0 \<le> x then \<lfloor>x\<rfloor> else \<lceil>x\<rceil>)"

definition in_width :: "nat \<Rightarrow> int \<Rightarrow> bool" where
  \<comment> \<open>fits a signed integer of \<open>w\<close> bits\<close>
  "in_width w n \<longleftrightarrow> - (2 ^ (w - 1)) \<le> n \<and> n < 2 ^ (w - 1)"

text \<open>The bytes of a float in memory, low byte first.\<close>

definition f32_bits :: "rat \<Rightarrow> u32" where
  "f32_bits q = (let e = f32_exp q; m = \<lfloor>\<bar>q\<bar> / 2 powi e\<rfloor> in
     if q = 0 then 0
     else (if q < 0 then 0x80000000 else 0) +
       of_int ((if m < 8388608 then 0 else e + 150) * 8388608 + m mod 8388608))"

definition f32_bytes :: "rat \<Rightarrow> bytes" where
  "f32_bytes q = map (\<lambda>i. ucast (drop_bit (8 * i) (f32_bits q))) [0..<4]"

lemma length_f32_bytes [simp]: "length (f32_bytes q) = 4"
  by (simp add: f32_bytes_def)

lemma round_he_error: "\<bar>of_int (round_he x) - x\<bar> \<le> 1 / 2"
proof -
  define r where "r = x - of_int \<lfloor>x\<rfloor>"
  have "0 \<le> r" "r < 1" unfolding r_def by linarith+
  moreover have "x = of_int \<lfloor>x\<rfloor> + r" by (simp add: r_def)
  ultimately show ?thesis unfolding round_he_def Let_def r_def [symmetric]
    by (auto simp: abs_if)
qed

lemma round_heI: "\<bar>x - of_int m\<bar> < 1 / 2 \<Longrightarrow> round_he x = m"
proof -
  assume "\<bar>x - of_int m\<bar> < 1 / 2"
  with round_he_error [of x] have "\<bar>of_int (round_he x) - of_int m :: rat\<bar> < 1" by linarith
  then show ?thesis by linarith
qed

lemma find_upto_Some:
  "find P [a..b] = Some e \<Longrightarrow> a \<le> e \<and> e \<le> b \<and> P e \<and> (\<forall>k. a \<le> k \<and> k < e \<longrightarrow> \<not> P k)"
proof (induction a b rule: upto.induct)
  case (1 a b)
  show ?case
  proof (cases "a \<le> b \<and> \<not> P a")
    case True
    then have "find P [a + 1..b] = Some e" using 1(2) by (simp add: upto_rec1)
    from 1(1) [OF _ this] True show ?thesis by (metis add1_zle_eq le_less order.strict_implies_order)
  next
    case False
    then show ?thesis using 1(2) by (cases "a \<le> b") (auto simp: upto_rec1)
  qed
qed

lemma find_upto_None: "find P [a..b] = None \<Longrightarrow> a \<le> k \<Longrightarrow> k \<le> b \<Longrightarrow> \<not> P k"
  by (auto simp: find_None_iff)

lemma f32_expI:
  assumes "\<bar>q\<bar> < 2 powi (24 + e)" "e = -149 \<or> 2 powi (23 + e) \<le> \<bar>q\<bar>" "-149 \<le> e" "e \<le> 104"
  shows "f32_exp q = e"
proof (cases "find (\<lambda>e. \<bar>q\<bar> < 2 powi (24 + e)) [-149..104]")
  case None
  then show ?thesis using find_upto_None [OF None assms(3,4)] assms(1) by simp
next
  case (Some k)
  note k = find_upto_Some [OF Some]
  have "\<not> k < e"
  proof
    assume "k < e"
    then have "2 powi (24 + k) \<le> (2 powi (23 + e) :: rat)" by (intro power_int_increasing) auto
    then show False using k assms(2) \<open>k < e\<close> by auto
  qed
  moreover have "\<not> e < k" using k assms(1,3) by blast
  ultimately show ?thesis using Some by (simp add: f32_exp_def)
qed

lemma f32_exp_props:
  assumes "\<bar>q\<bar> < 2 powi 128" "2 powi (-126) \<le> \<bar>q\<bar>"
  shows "2 powi (23 + f32_exp q) \<le> \<bar>q\<bar>"
proof (cases "find (\<lambda>e. \<bar>q\<bar> < 2 powi (24 + e)) [-149..104]")
  case None
  then show ?thesis using find_upto_None [OF None, of 104] assms(1) by simp
next
  case (Some e)
  note k = find_upto_Some [OF Some]
  show ?thesis
  proof (cases "e = -149")
    case False
    then have "-149 \<le> e - 1 \<and> e - 1 < e" using k by simp
    then have "\<not> \<bar>q\<bar> < 2 powi (24 + (e - 1))" using k by blast
    then show ?thesis using Some by (simp add: f32_exp_def algebra_simps)
  qed (use Some assms(2) in \<open>simp add: f32_exp_def\<close>)
qed

lemma f32_0 [simp]: "f32 0 = 0"
  by (simp add: f32_def round_he_def)

lemma f32_error:
  assumes "\<bar>q\<bar> < 2 powi 128" "2 powi (-126) \<le> \<bar>q\<bar>"
  shows "\<bar>f32 q - q\<bar> \<le> \<bar>q\<bar> / 16777216"
proof -
  let ?p = "2 powi f32_exp q :: rat"
  have p: "0 < ?p" by simp
  have "f32 q - q = (of_int (round_he (q / ?p)) - q / ?p) * ?p"
    using p by (simp add: f32_def field_simps)
  then have "\<bar>f32 q - q\<bar> = \<bar>of_int (round_he (q / ?p)) - q / ?p\<bar> * ?p"
    using p by (simp add: abs_mult)
  also have "\<dots> \<le> 1 / 2 * ?p" using round_he_error [of "q / ?p"] p by (intro mult_right_mono) auto
  finally have 1: "\<bar>f32 q - q\<bar> \<le> 1 / 2 * ?p" .
  have "8388608 * ?p = 2 powi (23 + f32_exp q)" by (simp add: power_int_add)
  then show ?thesis using 1 f32_exp_props [OF assms] by linarith
qed

lemma f32_exact:
  assumes "q = of_int m * 2 powi f32_exp q"
  shows "f32 q = q"
proof -
  have "q / 2 powi f32_exp q = of_int m" by (subst assms) simp
  then show ?thesis unfolding f32_def using assms by (simp add: round_he_def)
qed

lemma f32_exp_le: "\<bar>q\<bar> < 2 powi (24 + e) \<Longrightarrow> -149 \<le> e \<Longrightarrow> e \<le> 104 \<Longrightarrow> f32_exp q \<le> e"
proof (cases "find (\<lambda>e. \<bar>q\<bar> < 2 powi (24 + e)) [-149..104]")
  case None
  assume "\<bar>q\<bar> < 2 powi (24 + e)" "-149 \<le> e" "e \<le> 104"
  then show ?thesis using find_upto_None [OF None, of e] by simp
next
  case (Some k)
  assume "\<bar>q\<bar> < 2 powi (24 + e)" "-149 \<le> e"
  then show ?thesis using find_upto_Some [OF Some] Some by (force simp: f32_exp_def)
qed

lemma f_of_int_exact:
  assumes "\<bar>n\<bar> < 16777216"
  shows "f_of_int n = of_int n"
proof -
  let ?e = "f32_exp (of_int n)"
  have "\<bar>of_int n :: rat\<bar> < 16777216" using assms by linarith
  then have "?e \<le> 0" by (intro f32_exp_le) simp_all
  then have "(2 powi ?e :: rat) * 2 ^ nat (- ?e) = 1"
    by (simp add: power_int_def field_simps)
  then have "(of_int n :: rat) = of_int (n * 2 ^ nat (- ?e)) * 2 powi ?e"
    by (simp add: mult.assoc mult.commute)
  from f32_exact [OF this] show ?thesis unfolding f_of_int_def .
qed

lemma f_trunc_bounds: "\<bar>x - of_int (f_trunc x)\<bar> < 1" "0 \<le> x \<Longrightarrow> of_int (f_trunc x) \<le> x" "0 \<le> x \<Longrightarrow> 0 \<le> f_trunc x"
  unfolding f_trunc_def by (auto simp: abs_if; linarith)+

text \<open>Scaling by 100 and back loses at most the last unit: a reading that is divided by 100 and
  multiplied again is the reading or one less.\<close>

lemma f32_nonneg: "0 \<le> q \<Longrightarrow> 0 \<le> f32 q"
  unfolding f32_def by (intro mult_nonneg_nonneg) (auto simp: round_he_def Let_def)

lemma rat_small: "\<bar>q\<bar> \<le> 1000000000 \<Longrightarrow> \<bar>q :: rat\<bar> < 2 powi 128"
  by (rule le_less_trans [of _ 1000000000]) simp_all

lemma rat_large: "1 / 1000 \<le> \<bar>q\<bar> \<Longrightarrow> 2 powi (-126) \<le> \<bar>q :: rat\<bar>"
  by (rule order.trans [of _ "1 / 1000"]) (simp_all add: power_int_minus)

lemma scale_100:
  assumes "0 \<le> n" "n < 4000000"
  shows "f_trunc (f_mul (f_div (f_of_int n) 100) 100) \<in> {n - 1, n}"
proof (cases "n = 0")
  case True
  then show ?thesis by (simp add: f_of_int_exact f_div_def f_mul_def f_trunc_def)
next
  case False
  define a where "a = f32 (of_int n / 100 :: rat)"
  define b where "b = f32 (a * 100)"
  have n: "1 \<le> (of_int n :: rat)" "(of_int n :: rat) < 4000000" using assms False by linarith+
  have a: "\<bar>a - of_int n / 100\<bar> \<le> \<bar>of_int n / 100\<bar> / 16777216" unfolding a_def
    by (intro f32_error rat_small rat_large) (use n in \<open>simp_all add: abs_if\<close>)
  then have a2: "\<bar>a * 100 - of_int n\<bar> \<le> of_int n / 16777216" using n by (simp add: abs_if split: if_splits)
  have "1 / 2 \<le> a * 100" "a * 100 \<le> 5000000" using a2 n unfolding abs_if by (auto split: if_splits; linarith)+
  then have "\<bar>b - a * 100\<bar> \<le> \<bar>a * 100\<bar> / 16777216" unfolding b_def
    by (intro f32_error rat_small rat_large) (simp_all add: abs_if)
  then have "\<bar>b - of_int n\<bar> < 1" using a2 n by (simp add: abs_if split: if_splits)
  moreover have "0 \<le> b" unfolding b_def a_def by (intro f32_nonneg mult_nonneg_nonneg) (use n in auto)
  ultimately have "f_trunc b = n - 1 \<or> f_trunc b = n"
    using f_trunc_bounds [of b] unfolding abs_if by (auto split: if_splits; linarith)
  then show ?thesis using assms by (simp add: f_of_int_exact f_div_def f_mul_def a_def b_def)
qed

text \<open>For any number of 32 bits the result is near it.\<close>

lemma f32_near:
  assumes "100 \<le> q" "q \<le> 4400000000"
  shows "\<bar>f32 q - q\<bar> \<le> q / 16777216"
proof -
  have "\<bar>q\<bar> < 2 powi 128" by (rule le_less_trans [of _ 4400000000]) (use assms in simp_all)
  moreover have "2 powi (-126) \<le> \<bar>q\<bar>" by (rule rat_large) (use assms in simp)
  ultimately show ?thesis using f32_error [of q] assms by simp
qed

lemma scale_100_near:
  assumes "100000 \<le> n" "n < 4294967296"
  shows "\<bar>f_trunc (f_mul (f_div (f_of_int n) 100) 100) - n\<bar> \<le> 800"
proof -
  define x where "x = f32 (of_int n :: rat)"
  define a where "a = f32 (x / 100)"
  define b where "b = f32 (a * 100)"
  have n: "100000 \<le> (of_int n :: rat)" "(of_int n :: rat) < 4294967296" using assms by linarith+
  have x: "\<bar>x - of_int n\<bar> \<le> 256" unfolding x_def using f32_near [of "of_int n"] n by linarith
  have "\<bar>a - x / 100\<bar> \<le> x / 100 / 16777216" unfolding a_def by (rule f32_near) (use x n in linarith)+
  then have a: "\<bar>a * 100 - x\<bar> \<le> 257" using x n by linarith
  have "\<bar>b - a * 100\<bar> \<le> a * 100 / 16777216" unfolding b_def by (rule f32_near) (use a x n in linarith)+
  then have b: "\<bar>b - of_int n\<bar> \<le> 780" using a x n by linarith
  have "\<bar>of_int (f_trunc b) - of_int n :: rat\<bar> \<le> 800" using f_trunc_bounds(1) [of b] b by linarith
  then have "\<bar>f_trunc b - n\<bar> \<le> 800" by linarith
  then show ?thesis by (simp add: f_of_int_def f_div_def f_mul_def a_def b_def x_def)
qed

text \<open>The loss does happen: 53 hundredths become 52.\<close>

lemma f32_eqI:
  assumes "\<bar>q\<bar> < 2 powi (24 + e)" "2 powi (23 + e) \<le> \<bar>q\<bar>" "-149 \<le> e" "e \<le> 104"
    "\<bar>q / 2 powi e - of_int m\<bar> < 1 / 2"
  shows "f32 q = of_int m * 2 powi e"
  using f32_expI [OF assms(1) disjI2 [OF assms(2)] assms(3,4)] round_heI [OF assms(5)]
  by (simp add: f32_def)

lemma scale_53: "f_trunc (f_mul (f_div (f_of_int 53) 100) 100) = 52"
proof -
  have 1: "f32 (53 / 100) = of_int 8891924 * 2 powi (-24)"
    by (rule f32_eqI) (simp_all add: power_int_minus abs_if)
  have 2: "f32 (8891924 * 2 powi (-24) * 100) = of_int 13893631 * 2 powi (-18)"
    by (rule f32_eqI) (simp_all add: power_int_minus abs_if)
  have r: "f_mul (f_div (f_of_int 53) 100) 100 = 13893631 / 262144"
    unfolding f_mul_def f_div_def f_of_int_exact [of 53, simplified] using 2
    by (simp only: 1 of_int_numeral) (simp add: power_int_minus)
  show ?thesis unfolding r by (simp add: f_trunc_def floor_eq_iff)
qed

end
