(* ===== verification/App_Report.thy ===== *)
theory App_Report
  imports Float32 Zcl_Reporting
begin

text \<open>
  What the two monitor applications share: the identifiers of the clusters and attributes they
  publish, the casts from \<^verbatim>\<open>float\<close>, and the direct report of one attribute to the coordinator
  with the next sequence number.
\<close>

definition CLOCK_1MS :: u32 where "CLOCK_1MS = 16000"

definition cast_s16 :: "rat \<Rightarrow> u16" where
  \<comment> \<open>\<^verbatim>\<open>(s16)f\<close>; the two's complement result of the compiler where C leaves it undefined\<close>
  "cast_s16 x = of_int (f_trunc x)"

definition s16_ok :: "rat \<Rightarrow> bool" where
  "s16_ok x \<longleftrightarrow> in_width 16 (f_trunc x)"

definition ZCL_CLUSTER_MS_ELECTRICAL_MEASUREMENT :: u16 where "ZCL_CLUSTER_MS_ELECTRICAL_MEASUREMENT = 0x0B04"
definition ZCL_CLUSTER_MS_TEMPERATURE_MEASUREMENT :: u16 where "ZCL_CLUSTER_MS_TEMPERATURE_MEASUREMENT = 0x0402"
definition ZCL_CLUSTER_GEN_ANALOG_INPUT_BASIC :: u16 where "ZCL_CLUSTER_GEN_ANALOG_INPUT_BASIC = 0x000C"
definition ATTRID_RMS_VOLTAGE :: u16 where "ATTRID_RMS_VOLTAGE = 0x0505"
definition ATTRID_RMS_CURRENT :: u16 where "ATTRID_RMS_CURRENT = 0x0508"
definition ATTRID_ACTIVE_POWER :: u16 where "ATTRID_ACTIVE_POWER = 0x050B"
definition ATTRID_TEMP_MEAS_VAL :: u16 where "ATTRID_TEMP_MEAS_VAL = 0x0000"
definition ATTRID_ANALOG_PRESENT_VALUE :: u16 where "ATTRID_ANALOG_PRESENT_VALUE = 0x0055"
definition HA_PROFILE_ID :: u16 where "HA_PROFILE_ID = 0x0104"

definition coord_ep :: epInfo_t where
  "coord_ep = \<lparr>shortAddr = 0, profileId = HA_PROFILE_ID, dstAddrMode = APS_SHORT_DSTADDR_WITHEP,
     dstEp = 1, txOptions = 0\<rparr>"

definition app_report :: "zenv \<Rightarrow> u8 \<times> u16 \<times> u16 \<times> u8 \<times> bytes \<Rightarrow> zst \<Rightarrow> zst" where
  \<comment> \<open>\<^verbatim>\<open>zcl_report (ep, ..., zcl_seqNum++, cluster, attribute, type, value)\<close>\<close>
  "app_report env r z = (case r of (ep, cluster, attr, type, val) \<Rightarrow>
     snd (zcl_report env ep coord_ep 1 ZCL_FRAME_SERVER_CLIENT_DIR (zcl_seqNum z) MANUFACTURER_CODE_NONE
            cluster attr type (lview val (uninit env)) (z\<lparr>zcl_seqNum := zcl_seqNum z + 1\<rparr>)))"

definition elec_reports :: "u8 \<Rightarrow> u16 \<Rightarrow> u16 \<Rightarrow> u16 \<Rightarrow> (u8 \<times> u16 \<times> u16 \<times> u8 \<times> bytes) list" where
  "elec_reports ep v c p =
     [(ep, ZCL_CLUSTER_MS_ELECTRICAL_MEASUREMENT, ATTRID_RMS_VOLTAGE, ZCL_DATA_TYPE_INT16, u16_bytes v),
      (ep, ZCL_CLUSTER_MS_ELECTRICAL_MEASUREMENT, ATTRID_RMS_CURRENT, ZCL_DATA_TYPE_INT16, u16_bytes c),
      (ep, ZCL_CLUSTER_MS_ELECTRICAL_MEASUREMENT, ATTRID_ACTIVE_POWER, ZCL_DATA_TYPE_INT16, u16_bytes p)]"

lemma sint_of_int_u16: "- 32768 \<le> k \<Longrightarrow> k < 32768 \<Longrightarrow> sint (of_int k :: u16) = k"
  by (simp add: signed_of_int signed_take_bit_int_eq_self)

lemma clock_taskPost: "clock_time (snd (ev_timer_taskPost f n s)) = clock_time s"
  by (simp add: ev_timer_taskPost_def ev_timer_add_def ev_timer_freeGet_def ev_on_timer_def timer_exception_def
      upd_evt_def LIST_ADD_def ev_timer_nearestUpdate_def Let_def split: option.splits)

end
