(* ===== verification/Epever.thy ===== *)
theory Epever
  imports App_Report
begin

text \<open>
  The monitor of the Epever solar charger, \<^verbatim>\<open>apps/epeverMonitor\<close>: the Modbus poller of
  \<^verbatim>\<open>epeverMonitor.c\<close> (checksum, requests, response parsers, the state machine of the serial
  line, the poll timer and the timeouts) and the attributes of \<^verbatim>\<open>epeverEpCfg.c\<close> it publishes.

  The state \<open>ep_st\<close> holds the static variables of both files beside the ZCL state \<open>zs\<close>, in which
  the timers run and the reports are sent. The \<open>T_\<close> fields are traces: the frames given to
  \<^verbatim>\<open>uart_dma_send\<close>, how often the receive buffer was given back, the response frames that
  passed a parser, the readings that were published. The receive buffer is a view: what the
  DMA left there. Debug output (\<^verbatim>\<open>printf\<close>) is left out.
\<close>

subsection \<open>The checksum\<close>

definition crc_step :: "u16 \<Rightarrow> u16" where
  "crc_step crc = (if crc AND 0x0001 \<noteq> 0 then drop_bit 1 crc XOR 0xA001 else drop_bit 1 crc)"

definition crc_byte :: "u16 \<Rightarrow> u8 \<Rightarrow> u16" where
  "crc_byte crc b = (crc_step ^^ 8) (crc XOR ucast b)"

definition modbus_crc16 :: "view \<Rightarrow> nat \<Rightarrow> u16" where
  "modbus_crc16 buf len = foldl crc_byte 0xFFFF (vtake len buf)"

subsection \<open>Requests\<close>

definition EP_MODBUS_SLAVE_ID :: u8 where "EP_MODBUS_SLAVE_ID = 1"
definition EP_MODBUS_FUNC_READ :: u8 where "EP_MODBUS_FUNC_READ = 4"

definition modbus_build_request :: "u8 \<Rightarrow> u8 \<Rightarrow> u16 \<Rightarrow> u16 \<Rightarrow> bytes" where
  "modbus_build_request slave_id func addr cnt =
     (let req = [slave_id, func, HI_UINT16 addr, LO_UINT16 addr, HI_UINT16 cnt, LO_UINT16 cnt];
          crc = modbus_crc16 (lview req (\<lambda>_. 0)) 6 in
      req @ [LO_UINT16 crc, HI_UINT16 crc])"

subsection \<open>Responses\<close>

definition REG_BE :: "view \<Rightarrow> nat \<Rightarrow> u16" where
  "REG_BE d i = BUILD_U16 (d (2 * i + 1)) (d (2 * i))"

definition REG_BE32 :: "view \<Rightarrow> nat \<Rightarrow> nat \<Rightarrow> u32" where
  \<comment> \<open>two registers, \<open>hi\<close> and \<open>lo\<close>\<close>
  "REG_BE32 d hi lo = push_bit 16 (ucast (REG_BE d hi)) OR ucast (REG_BE d lo)"

text \<open>The checks the four parsers start with, for \<open>cnt\<close> registers.\<close>

definition rsp_ok :: "nat \<Rightarrow> view \<Rightarrow> u16 \<Rightarrow> bool" where
  "rsp_ok cnt buf buf_len =
     (let expected = 3 + cnt * 2 + 2 in
      \<not> unat buf_len < expected \<and> buf 0 = EP_MODBUS_SLAVE_ID \<and> buf 1 = EP_MODBUS_FUNC_READ \<and>
      buf 2 = of_nat (cnt * 2) \<and>
      modbus_crc16 buf (expected - 2) = BUILD_U16 (buf (expected - 2)) (buf (expected - 1)))"

subsection \<open>What the checksum detects\<close>

lemma crc_step_inj: "crc_step a = crc_step b \<Longrightarrow> a = b"
proof (rule bit_word_eqI)
  fix n assume h: "crc_step a = crc_step b" and n: "n < LENGTH(16)"
  have bits: "bit (crc_step c) i = ((i < 15 \<and> bit c (Suc i)) \<noteq> (bit c 0 \<and> bit (0xA001 :: u16) i))" if "i < 16" for c i
  proof -
    have "c AND 1 \<noteq> 0 \<longleftrightarrow> bit c 0" by (simp add: and_one_eq even_iff_mod_2_eq_zero bit_0)
    moreover have "bit c (Suc i) \<longleftrightarrow> i < 15 \<and> bit c (Suc i)"
      using bit_imp_le_length [of c "Suc i"] by auto
    ultimately show ?thesis using that by (auto simp: crc_step_def bit_xor_iff bit_drop_bit_eq)
  qed
  have top: "bit (0xA001 :: u16) 15" by code_simp
  have "bit (crc_step a) 15 = bit (crc_step b) 15" using h by simp
  then have 0: "bit a 0 = bit b 0" using top by (simp add: bits)
  show "bit a n = bit b n"
  proof (cases n)
    case (Suc i)
    then have "i < 15" using n by simp
    then have "bit (crc_step c) i = (bit c (Suc i) \<noteq> (bit c 0 \<and> bit (0xA001 :: u16) i))" for c
      by (simp add: bits)
    then show ?thesis using h 0 Suc by metis
  qed (simp add: 0)
qed

lemma crc_steps_inj: "(crc_step ^^ n) a = (crc_step ^^ n) b \<Longrightarrow> a = b"
  by (induction n) (auto dest: crc_step_inj)

lemma xor_cancel: "a XOR c = b XOR c \<longleftrightarrow> a = (b :: 'a::len word)"
  by (metis xor.assoc xor.right_neutral xor_self_eq)

lemma ucast_u8_u16_inj: "ucast a = (ucast b :: u16) \<longleftrightarrow> a = (b :: u8)"
proof
  assume h: "ucast a = (ucast b :: u16)"
  show "a = b"
  proof (rule bit_word_eqI)
    fix n assume "n < LENGTH(8)"
    then show "bit a n = bit b n" using arg_cong [OF h, of "\<lambda>w. bit w n"] by (simp add: bit_simps)
  qed
qed simp

lemma crc_byte_state: "crc_byte a x = crc_byte b x \<longleftrightarrow> a = b"
  unfolding crc_byte_def using crc_steps_inj xor_cancel by metis

lemma crc_byte_byte: "crc_byte a x = crc_byte a y \<longleftrightarrow> x = y"
  unfolding crc_byte_def using crc_steps_inj xor_cancel xor.commute ucast_u8_u16_inj by metis

lemma crc_list_state: "foldl crc_byte a xs = foldl crc_byte b xs \<longleftrightarrow> a = b"
  by (induction xs arbitrary: a b) (simp_all add: crc_byte_state)

lemma crc_one_byte: "foldl crc_byte a (xs @ x # ys) = foldl crc_byte a (xs @ y # ys) \<longleftrightarrow> x = y"
  by (simp add: crc_list_state crc_byte_byte)

lemma crc_one_byte_view:
  assumes "\<forall>j. j \<noteq> i \<longrightarrow> v' j = v j" "v' i \<noteq> v i" "i < n"
  shows "modbus_crc16 v' n \<noteq> modbus_crc16 v n"
proof -
  have split: "vtake n w = vtake i w @ w i # map w [Suc i..<n]" for w
    using assms(3) upt_conv_Cons [of i n] upt_add_eq_append [of 0 i "n - i"]
    by (simp add: vtake_def flip: map_append list.map(2))
  have "vtake i v' = vtake i v" "map v' [Suc i..<n] = map v [Suc i..<n]"
    using assms(1) by (simp_all add: vtake_def)
  then show ?thesis using assms(2) crc_one_byte unfolding modbus_crc16_def split by metis
qed

text \<open>Appending the checksum, low byte first, makes the checksum of the whole frame zero: the test a
  slave makes.\<close>

lemma crc_steps_shift: "n \<le> 8 \<Longrightarrow> (\<forall>i < n. \<not> bit c i) \<Longrightarrow> (crc_step ^^ n) c = drop_bit n c"
proof (induction n)
  case (Suc n)
  have "\<not> bit (drop_bit n c) 0" using Suc.prems(2) by (simp add: bit_drop_bit_eq)
  then have "drop_bit n c AND 1 = 0" by (simp add: and_one_eq bit_0 even_iff_mod_2_eq_zero)
  with Suc show ?case by (simp add: crc_step_def)
qed simp

lemma crc_byte_LO: "crc_byte c (LO_UINT16 c) = ucast (HI_UINT16 c)"
proof -
  let ?x = "c XOR ucast (LO_UINT16 c)"
  have "\<forall>i < 8. \<not> bit ?x i" by (simp add: LO_UINT16_def bit_simps)
  then have "crc_byte c (LO_UINT16 c) = drop_bit 8 ?x"
    unfolding crc_byte_def by (intro crc_steps_shift) auto
  also have "\<dots> = ucast (HI_UINT16 c)"
    by (rule bit_word_eqI) (auto simp: LO_UINT16_def HI_UINT16_def bit_simps dest: bit_imp_le_length)
  finally show ?thesis .
qed

lemma crc_byte_self: "crc_byte (ucast b) b = 0"
  by (simp add: crc_byte_def crc_steps_shift)

lemma crc_residue: "foldl crc_byte 0xFFFF (xs @ u16_bytes (foldl crc_byte 0xFFFF xs)) = 0"
  by (simp add: u16_bytes_def crc_byte_LO crc_byte_self)

text \<open>C21. Single errors are detected. If a frame is accepted and one of its bytes is
  changed, whichever and however, the changed frame is rejected; and a request carries
  the checksum that makes its own residue zero.\<close>

theorem modbus_detects_errors:
  "(rsp_ok n v len \<and> i < 2 * n + 5 \<and> (\<forall>j. j \<noteq> i \<longrightarrow> v' j = v j) \<and> v' i \<noteq> v i \<longrightarrow> \<not> rsp_ok n v' len) \<and>
   modbus_crc16 (lview (modbus_build_request sid fc addr cnt) rest) 8 = 0"
proof
  show "rsp_ok n v len \<and> i < 2 * n + 5 \<and> (\<forall>j. j \<noteq> i \<longrightarrow> v' j = v j) \<and> v' i \<noteq> v i \<longrightarrow> \<not> rsp_ok n v' len"
  proof (intro impI notI, elim conjE)
    assume a: "rsp_ok n v len" and i: "i < 2 * n + 5" and s: "\<forall>j. j \<noteq> i \<longrightarrow> v' j = v j" "v' i \<noteq> v i"
      and b: "rsp_ok n v' len"
    let ?c = "\<lambda>w. modbus_crc16 w (n * 2 + 3)"
    have eq: "?c w = BUILD_U16 (w (n * 2 + 3)) (w (n * 2 + 4))" if "rsp_ok n w len" for w
      using that by (simp add: rsp_ok_def Let_def algebra_simps numeral_eq_Suc)
    show False
    proof (cases "i < n * 2 + 3")
      case True
      then have "v' (n * 2 + 3) = v (n * 2 + 3)" "v' (n * 2 + 4) = v (n * 2 + 4)" using s(1) by auto
      with eq [OF a] eq [OF b] crc_one_byte_view [OF s True] show False by simp
    next
      case False
      then have "vtake (n * 2 + 3) v' = vtake (n * 2 + 3) v" using s(1) by (auto simp: vtake_def)
      then have "?c v' = ?c v" by (simp only: modbus_crc16_def)
      then have "v' (n * 2 + 3) = v (n * 2 + 3)" "v' (n * 2 + 4) = v (n * 2 + 4)" using eq [OF a] eq [OF b] by auto
      moreover have "i = n * 2 + 3 \<or> i = n * 2 + 4" using i False by linarith
      ultimately show False using s(2) by blast
    qed
  qed
  let ?req = "[sid, fc, HI_UINT16 addr, LO_UINT16 addr, HI_UINT16 cnt, LO_UINT16 cnt]"
  have 6: "vtake 6 (lview ?req (\<lambda>_. 0)) = ?req" 
  proof -
    have "length ?req = 6" by simp
    then show ?thesis using vtake_lview_exact by metis
  qed
  let ?all = "?req @ u16_bytes (foldl crc_byte 0xFFFF ?req)"
  have r: "modbus_build_request sid fc addr cnt = ?all"
    unfolding modbus_build_request_def Let_def modbus_crc16_def 6 u16_bytes_def ..
  have "length ?all = 8" by (simp add: u16_bytes_def)
  then have "vtake 8 (lview ?all rest) = ?all" using vtake_lview_exact [of ?all rest] by metis
  then show "modbus_crc16 (lview (modbus_build_request sid fc addr cnt) rest) 8 = 0"
    unfolding modbus_crc16_def r using crc_residue by metis
qed

subsection \<open>Readings\<close>

record epever_data_t =
  solar_volt :: rat
  solar_curr :: rat
  solar_pow :: rat
  bat_volt :: rat
  bat_curr :: rat
  chg_pow :: rat
  load_volt :: rat
  load_curr :: rat
  load_pow :: rat
  bat_temp :: rat
  dev_temp :: rat
  bat_soc :: u8
  valid :: bool

definition poll_data0 :: epever_data_t where
  "poll_data0 = \<lparr>solar_volt = 0, solar_curr = 0, solar_pow = 0, bat_volt = 0, bat_curr = 0, chg_pow = 0,
     load_volt = 0, load_curr = 0, load_pow = 0, bat_temp = 0, dev_temp = 0, bat_soc = 0, valid = False\<rparr>"

definition reg_f :: "'a::len word \<Rightarrow> rat" where
  \<comment> \<open>\<^verbatim>\<open>reg / 100.0f\<close>\<close>
  "reg_f w = f_div (f_of_int (uint w)) 100"

definition EP_READ1_COUNT :: nat where "EP_READ1_COUNT = 8"
definition EP_READ2_COUNT :: nat where "EP_READ2_COUNT = 6"
definition EP_READ3_COUNT :: nat where "EP_READ3_COUNT = 1"
definition EP_RATED_COUNT :: nat where "EP_RATED_COUNT = 15"
definition EP_READ1_ADDR :: u16 where "EP_READ1_ADDR = 0x3100"
definition EP_READ2_ADDR :: u16 where "EP_READ2_ADDR = 0x310C"
definition EP_READ3_ADDR :: u16 where "EP_READ3_ADDR = 0x311A"
definition EP_RATED_START_ADDR :: u16 where "EP_RATED_START_ADDR = 0x3000"

definition epever_parse_rsp1 :: "view \<Rightarrow> u16 \<Rightarrow> epever_data_t \<Rightarrow> bool \<times> epever_data_t" where
  "epever_parse_rsp1 buf buf_len out =
     (if \<not> rsp_ok EP_READ1_COUNT buf buf_len then (False, out)
      else let d = vdrop 3 buf in
        (True, out\<lparr>solar_volt := reg_f (REG_BE d 0), solar_curr := reg_f (REG_BE d 1),
           solar_pow := reg_f (REG_BE32 d 3 2), bat_volt := reg_f (REG_BE d 4),
           bat_curr := reg_f (REG_BE d 5), chg_pow := reg_f (REG_BE32 d 7 6)\<rparr>))"

definition epever_parse_rsp2 :: "view \<Rightarrow> u16 \<Rightarrow> epever_data_t \<Rightarrow> bool \<times> epever_data_t" where
  "epever_parse_rsp2 buf buf_len out =
     (if \<not> rsp_ok EP_READ2_COUNT buf buf_len then (False, out)
      else let d = vdrop 3 buf in
        (True, out\<lparr>load_volt := reg_f (REG_BE d 0), load_curr := reg_f (REG_BE d 1),
           load_pow := reg_f (REG_BE32 d 3 2), bat_temp := reg_f (REG_BE d 4),
           dev_temp := reg_f (REG_BE d 5)\<rparr>))"

definition epever_parse_rsp3 :: "view \<Rightarrow> u16 \<Rightarrow> epever_data_t \<Rightarrow> bool \<times> epever_data_t" where
  "epever_parse_rsp3 buf buf_len out =
     (if \<not> rsp_ok EP_READ3_COUNT buf buf_len then (False, out)
      else let d = vdrop 3 buf in (True, out\<lparr>bat_soc := ucast (REG_BE d 0), valid := True\<rparr>))"

subsection \<open>State\<close>

datatype ep_modbus_state_t =
  EP_STATE_RATED_REQ | EP_STATE_RATED_WAIT | EP_STATE_IDLE
| EP_STATE_WAIT_RSP1 | EP_STATE_WAIT_RSP2 | EP_STATE_WAIT_RSP3

text \<open>The attributes the poller publishes: three endpoints with voltage, current and power, the
  battery temperature, and the state of charge.\<close>

record epever_attrs_t =
  solarVoltage :: u16
  solarCurrent :: u16
  solarPower :: u16
  batteryVoltage :: u16
  batteryCurrent :: u16
  batteryPower :: u16
  loadVoltage :: u16
  loadCurrent :: u16
  loadPower :: u16
  tempValue :: u16
  socValue :: rat

record ep_st =
  zs :: zst
  s_ep_state :: ep_modbus_state_t
  s_req_time :: u32
  s_rated_done :: bool
  s_poll_data :: epever_data_t
  uart_rx_flag :: bool
  uart_rx_buf :: view
  g_poll_interval_ms :: u32
  cfg_pollInterval :: u16
  ep_attrs :: epever_attrs_t
  s_last_report_tick :: u32
  modelId :: bytes
  swBuildId :: bytes
  T_uart :: "bytes list"
  T_rxarm :: nat
  T_ok :: "(ep_modbus_state_t \<times> view \<times> u16) list"
  T_pub :: "epever_data_t list"

definition UART_BUF_SIZE :: nat where "UART_BUF_SIZE = 128"
definition EP_RSP_TIMEOUT_MS :: u32 where "EP_RSP_TIMEOUT_MS = 500"

definition poll_cb :: zcb where "poll_cb = OtherCb 1"
definition rated_cb :: zcb where "rated_cb = OtherCb 2"

abbreviation now :: "ep_st \<Rightarrow> u32" where
  "now s \<equiv> clock_time (zs s)"

definition elapsed_ms :: "ep_st \<Rightarrow> u32" where
  "elapsed_ms s = (now s - s_req_time s) div CLOCK_1MS"

definition uart_recbuff_init :: "ep_st \<Rightarrow> ep_st" where
  \<comment> \<open>gives the buffer back to the DMA\<close>
  "uart_recbuff_init s = s\<lparr>T_rxarm := T_rxarm s + 1\<rparr>"

definition uart_dma_send :: "bytes \<Rightarrow> ep_st \<Rightarrow> ep_st" where
  "uart_dma_send buf s = s\<lparr>T_uart := buf # T_uart s\<rparr>"

definition schedule :: "zcb \<Rightarrow> u32 \<Rightarrow> ep_st \<Rightarrow> ep_st" where
  "schedule f ms s = s\<lparr>zs := snd (ev_timer_taskPost (Some f) ms (zs s))\<rparr>"

definition go_idle :: "ep_st \<Rightarrow> ep_st" where
  "go_idle s = uart_recbuff_init (s\<lparr>s_ep_state := EP_STATE_IDLE\<rparr>)"

subsection \<open>The rated data\<close>

definition chr0 :: "int \<Rightarrow> u8" where "chr0 n = of_int (48 + n)"
definition ascii :: "string \<Rightarrow> bytes" where "ascii = map (\<lambda>c. of_nat (of_char c))"

definition two_digits :: "int \<Rightarrow> bytes" where
  "two_digits n = (if n \<ge> 10 then [chr0 (n div 10)] else []) @ [chr0 (n mod 10)]"

definition watts :: "int \<Rightarrow> bytes" where
  "watts n = (if n \<ge> 100 then [chr0 (n div 100)] else []) @
     (if n \<ge> 10 then [chr0 (n mod 100 div 10)] else []) @ [chr0 (n mod 10)]"

definition rated_int :: "u16 \<Rightarrow> int" where
  "rated_int r = f_trunc (f_add (reg_f r) (1 / 2))"

definition epever_parse_rated :: "view \<Rightarrow> u16 \<Rightarrow> ep_st \<Rightarrow> ep_st" where
  "epever_parse_rated buf buf_len s =
     (if \<not> rsp_ok EP_RATED_COUNT buf buf_len then s
      else
        let d = vdrop 3 buf;
            pv_v = rated_int (REG_BE d 0); pv_a = rated_int (REG_BE d 1);
            pv_w = uint (REG_BE32 d 3 2 div 100);
            bat_v = rated_int (REG_BE d 4); bat_a = rated_int (REG_BE d 5);
            ld_a = rated_int (REG_BE d 14);
            info = ascii ''PV:'' @ watts pv_w @ ascii ''W BAT:'' @ two_digits bat_v @ ascii ''V/'' @
              two_digits bat_a @ ascii ''A LD:'' @ two_digits ld_a @ ascii ''A'';
            pv_info = ascii ''PV:'' @ two_digits pv_v @ ascii ''V/'' @ two_digits pv_a @ ascii ''A/'' @
              watts pv_w @ ascii ''W'' in
        s\<lparr>modelId := overwrite (of_nat (length info) # info) (modelId s),
          swBuildId := overwrite (of_nat (length pv_info) # pv_info) (swBuildId s),
          s_rated_done := True\<rparr>)"

definition modbus_send :: "u16 \<Rightarrow> nat \<Rightarrow> ep_modbus_state_t \<Rightarrow> ep_st \<Rightarrow> ep_st" where
  "modbus_send addr n next_state s =
     (let s1 = uart_dma_send ([8, 0, 0, 0] @
            modbus_build_request EP_MODBUS_SLAVE_ID EP_MODBUS_FUNC_READ addr (of_nat n)) s in
      s1\<lparr>s_ep_state := next_state, s_req_time := now s1\<rparr>)"

definition epever_rated_request_send :: "ep_st \<Rightarrow> ep_st" where
  "epever_rated_request_send s = modbus_send EP_RATED_START_ADDR EP_RATED_COUNT EP_STATE_RATED_WAIT s"

definition epever_send_req :: "u16 \<Rightarrow> nat \<Rightarrow> ep_modbus_state_t \<Rightarrow> ep_st \<Rightarrow> ep_st" where
  "epever_send_req addr n next_state s = modbus_send addr n next_state s"

definition epever_rated_start_cb :: "ep_st \<Rightarrow> int \<times> ep_st" where
  "epever_rated_start_cb s = (-1, epever_rated_request_send s)"

definition epever_poll_timer_cb :: "ep_st \<Rightarrow> int \<times> ep_st" where
  "epever_poll_timer_cb s =
     (let s1 = (if s_ep_state s \<noteq> EP_STATE_IDLE
                then uart_recbuff_init (s\<lparr>s_ep_state := EP_STATE_IDLE, uart_rx_flag := False\<rparr>) else s);
          s2 = epever_send_req EP_READ1_ADDR EP_READ1_COUNT EP_STATE_WAIT_RSP1
                 (s1\<lparr>s_poll_data := poll_data0\<rparr>) in
      (sint (g_poll_interval_ms s2), s2))"

subsection \<open>Publishing\<close>

definition scaled :: "epever_data_t \<Rightarrow> rat list" where
  \<comment> \<open>the ten readings times 100, in the order they are stored\<close>
  "scaled d = map (\<lambda>x. f_mul x 100) [solar_volt d, solar_curr d, solar_pow d, bat_volt d, bat_curr d,
     chg_pow d, load_volt d, load_curr d, load_pow d, bat_temp d]"

definition attrs_of :: "epever_data_t \<Rightarrow> epever_attrs_t" where
  "attrs_of d =
     \<lparr>solarVoltage = cast_s16 (f_mul (solar_volt d) 100), solarCurrent = cast_s16 (f_mul (solar_curr d) 100),
      solarPower = cast_s16 (f_mul (solar_pow d) 100),
      batteryVoltage = cast_s16 (f_mul (bat_volt d) 100), batteryCurrent = cast_s16 (f_mul (bat_curr d) 100),
      batteryPower = cast_s16 (f_mul (chg_pow d) 100),
      loadVoltage = cast_s16 (f_mul (load_volt d) 100), loadCurrent = cast_s16 (f_mul (load_curr d) 100),
      loadPower = cast_s16 (f_mul (load_pow d) 100),
      tempValue = cast_s16 (f_mul (bat_temp d) 100), socValue = f_of_int (uint (bat_soc d))\<rparr>"

definition ep_reports :: "epever_attrs_t \<Rightarrow> (u8 \<times> u16 \<times> u16 \<times> u8 \<times> bytes) list" where
  "ep_reports a =
     elec_reports 1 (solarVoltage a) (solarCurrent a) (solarPower a) @
     elec_reports 2 (batteryVoltage a) (batteryCurrent a) (batteryPower a) @
     elec_reports 3 (loadVoltage a) (loadCurrent a) (loadPower a) @
     [(4, ZCL_CLUSTER_MS_TEMPERATURE_MEASUREMENT, ATTRID_TEMP_MEAS_VAL, ZCL_DATA_TYPE_INT16, u16_bytes (tempValue a)),
      (5, ZCL_CLUSTER_GEN_ANALOG_INPUT_BASIC, ATTRID_ANALOG_PRESENT_VALUE, ZCL_DATA_TYPE_SINGLE_PREC,
       f32_bytes (socValue a))]"

definition epever_attrs_update :: "zenv \<Rightarrow> epever_data_t \<Rightarrow> ep_st \<Rightarrow> ep_st" where
  "epever_attrs_update env d s =
     (if \<not> valid d then s
      else
        let s1 = s\<lparr>ep_attrs := attrs_of d, T_pub := d # T_pub s,
                   zs := (zs s)\<lparr>ub := ub (zs s) \<or> \<not> list_all s16_ok (scaled d)\<rparr>\<rparr> in
        if s_last_report_tick s1 = 0 \<or> now s1 - s_last_report_tick s1 \<ge> 10 * 1000 * CLOCK_1MS
        then s1\<lparr>s_last_report_tick := now s1, zs := fold (app_report env) (ep_reports (ep_attrs s1)) (zs s1)\<rparr>
        else s1)"

subsection \<open>The poller\<close>

text \<open>One received frame, handled from the main loop.\<close>

definition waiting :: "ep_modbus_state_t \<Rightarrow> bool" where
  "waiting st \<longleftrightarrow> st \<in> {EP_STATE_WAIT_RSP1, EP_STATE_WAIT_RSP2, EP_STATE_WAIT_RSP3}"

definition rx_rated :: "view \<Rightarrow> u16 \<Rightarrow> ep_st \<Rightarrow> ep_st" where
  "rx_rated buf len s =
     (if elapsed_ms s > EP_RSP_TIMEOUT_MS then
        uart_recbuff_init (s\<lparr>s_ep_state := EP_STATE_RATED_REQ, uart_rx_flag := False\<rparr>)
      else
        let s1 = s\<lparr>uart_rx_flag := False\<rparr> in
        if len = 5 \<and> buf 1 AND 0x80 \<noteq> 0 then
          schedule poll_cb 1000 (uart_recbuff_init (s1\<lparr>s_rated_done := True, s_ep_state := EP_STATE_IDLE\<rparr>))
        else
          let s2 = (if len > 0 \<and> unat len \<le> UART_BUF_SIZE - 4 then epever_parse_rated buf len s1 else s1);
              s3 = go_idle s2 in
          if s_rated_done s3 then schedule poll_cb 1000 s3 else s3)"

definition accept :: "view \<Rightarrow> u16 \<Rightarrow> ep_st \<Rightarrow> ep_st" where
  \<comment> \<open>the trace of the frames that passed their parser\<close>
  "accept buf len s = s\<lparr>T_ok := (s_ep_state s, buf, len) # T_ok s\<rparr>"

definition rx_live :: "zenv \<Rightarrow> view \<Rightarrow> u16 \<Rightarrow> ep_st \<Rightarrow> ep_st" where
  "rx_live env buf len s =
     (if s_ep_state s = EP_STATE_WAIT_RSP1 then
        (case epever_parse_rsp1 buf len (s_poll_data s) of
           (True, d) \<Rightarrow> epever_send_req EP_READ2_ADDR EP_READ2_COUNT EP_STATE_WAIT_RSP2
             (uart_recbuff_init ((accept buf len s)\<lparr>s_poll_data := d\<rparr>))
         | (False, d) \<Rightarrow> go_idle (s\<lparr>s_poll_data := d\<rparr>))
      else if s_ep_state s = EP_STATE_WAIT_RSP2 then
        (case epever_parse_rsp2 buf len (s_poll_data s) of
           (True, d) \<Rightarrow> epever_send_req EP_READ3_ADDR EP_READ3_COUNT EP_STATE_WAIT_RSP3
             (uart_recbuff_init ((accept buf len s)\<lparr>s_poll_data := d\<rparr>))
         | (False, d) \<Rightarrow> go_idle (s\<lparr>s_poll_data := d\<rparr>))
      else if s_ep_state s = EP_STATE_WAIT_RSP3 then
        (case epever_parse_rsp3 buf len (s_poll_data s) of
           (True, d) \<Rightarrow> go_idle (epever_attrs_update env d ((accept buf len s)\<lparr>s_poll_data := d\<rparr>))
         | (False, d) \<Rightarrow> go_idle (s\<lparr>s_poll_data := d\<rparr>))
      else s)"

definition uart_rx_poll :: "zenv \<Rightarrow> ep_st \<Rightarrow> ep_st" where
  "uart_rx_poll env s =
     (if \<not> uart_rx_flag s then s
      else
        let len = BUILD_U16 (uart_rx_buf s 0) (uart_rx_buf s 1);
            buf = vdrop 4 (uart_rx_buf s);
            done = s\<lparr>uart_rx_flag := False\<rparr> in
        if s_ep_state s = EP_STATE_RATED_WAIT then rx_rated buf len s
        else if \<not> waiting (s_ep_state s) then uart_recbuff_init done
        else if elapsed_ms s > EP_RSP_TIMEOUT_MS then go_idle done
        else if len = 0 \<or> unat len > UART_BUF_SIZE - 4 then go_idle done
        else if len \<ge> 3 \<and> buf 1 AND 0x80 \<noteq> 0 then go_idle done
        else rx_live env buf len done)"

definition uart_rx_cb :: "ep_st \<Rightarrow> ep_st" where
  "uart_rx_cb s = s\<lparr>uart_rx_flag := True\<rparr>"

definition epever_modbus_timeout_poll :: "ep_st \<Rightarrow> ep_st" where
  "epever_modbus_timeout_poll s =
     (if uart_rx_flag s then s
      else if s_req_time s = 0 then s
      else if s_ep_state s = EP_STATE_RATED_WAIT then
        (if elapsed_ms s > EP_RSP_TIMEOUT_MS
         then schedule rated_cb 1000 (uart_recbuff_init (s\<lparr>s_ep_state := EP_STATE_RATED_REQ\<rparr>)) else s)
      else if waiting (s_ep_state s) then
        (if elapsed_ms s > EP_RSP_TIMEOUT_MS then go_idle s else s)
      else s)"

definition app_task :: "zenv \<Rightarrow> ep_st \<Rightarrow> ep_st" where
  \<comment> \<open>the keys, the permit-join LED and the empty \<^verbatim>\<open>epever_report_tick\<close> do not touch this state\<close>
  "app_task env s = epever_modbus_timeout_poll (uart_rx_poll env s)"

subsection \<open>Configuration\<close>

definition epever_set_poll_interval :: "u16 \<Rightarrow> ep_st \<Rightarrow> ep_st" where
  "epever_set_poll_interval sec s = s\<lparr>g_poll_interval_ms := ucast sec * 1000\<rparr>"

definition clamp_interval :: "u16 \<Rightarrow> u16" where
  "clamp_interval sec = (let sec1 = (if sec < 5 then 5 else sec) in if sec1 > 3600 then 3600 else sec1)"

text \<open>The callback of the configuration cluster. \<open>nv_write\<close> is the flash driver.\<close>

fun cfgCb_loop :: "(u16 \<Rightarrow> ep_st \<Rightarrow> ep_st) \<Rightarrow> zclWriteRec_t list \<Rightarrow> ep_st \<Rightarrow> ep_st" where
  "cfgCb_loop nv_write [] s = s"
| "cfgCb_loop nv_write (r # rs) s =
     cfgCb_loop nv_write rs
       (if w_attrID r = 0x0001 then
          let sec = clamp_interval (BUILD_U16 (w_attrData r 0) (w_attrData r 1)) in
          nv_write sec (epever_set_poll_interval sec (s\<lparr>cfg_pollInterval := sec\<rparr>))
        else s)"

definition epever_cfgCb ::
  "(u16 \<Rightarrow> ep_st \<Rightarrow> ep_st) \<Rightarrow> u8 \<Rightarrow> zclWriteRec_t list \<Rightarrow> ep_st \<Rightarrow> u8 \<times> ep_st" where
  "epever_cfgCb nv_write cmdId attrs s =
     (ZCL_STA_SUCCESS, if cmdId = ZCL_CMD_WRITE \<or> cmdId = ZCL_CMD_WRITE_NO_RSP
                       then cfgCb_loop nv_write attrs s else s)"

text \<open>Start: the attributes are zeroed, the interval restored from flash (\<open>nv_read\<close>: the saved value, if
  any) when it is in range, and polling begins after three seconds.\<close>

definition epever_attrs_init :: "u16 option \<Rightarrow> ep_st \<Rightarrow> ep_st" where
  "epever_attrs_init nv_read s =
     (let s1 = s\<lparr>ep_attrs := \<lparr>solarVoltage = 0, solarCurrent = 0, solarPower = 0, batteryVoltage = 0,
            batteryCurrent = 0, batteryPower = 0, loadVoltage = 0, loadCurrent = 0, loadPower = 0,
            tempValue = 0, socValue = 0\<rparr>\<rparr> in
      case nv_read of
        None \<Rightarrow> s1
      | Some saved \<Rightarrow> (if saved \<ge> 5 \<and> saved \<le> 3600 then s1\<lparr>cfg_pollInterval := saved\<rparr> else s1))"

definition apply_interval :: "ep_st \<Rightarrow> ep_st" where
  \<comment> \<open>in \<^verbatim>\<open>user_app_init\<close>\<close>
  "apply_interval s = (if cfg_pollInterval s \<ge> 5 \<and> cfg_pollInterval s \<le> 3600
     then s\<lparr>g_poll_interval_ms := ucast (cfg_pollInterval s) * 1000\<rparr> else s)"

definition start_polling :: "ep_st \<Rightarrow> ep_st" where
  \<comment> \<open>the end of \<^verbatim>\<open>user_init\<close>\<close>
  "start_polling s = schedule poll_cb 3000 (s\<lparr>s_rated_done := True, s_ep_state := EP_STATE_IDLE\<rparr>)"

definition ep_state0 :: "zst \<Rightarrow> ep_st" where
  \<comment> \<open>the initial values of the variables\<close>
  "ep_state0 z = \<lparr>zs = z, s_ep_state = EP_STATE_RATED_REQ, s_req_time = 0, s_rated_done = False,
     s_poll_data = poll_data0, uart_rx_flag = False, uart_rx_buf = (\<lambda>_. 0), g_poll_interval_ms = 10000,
     cfg_pollInterval = 10,
     ep_attrs = \<lparr>solarVoltage = 0, solarCurrent = 0, solarPower = 0, batteryVoltage = 0,
        batteryCurrent = 0, batteryPower = 0, loadVoltage = 0, loadCurrent = 0, loadPower = 0,
        tempValue = 0, socValue = 0\<rparr>,
     s_last_report_tick = 0, modelId = [], swBuildId = [],
     T_uart = [], T_rxarm = 0, T_ok = [], T_pub = []\<rparr>"

definition ep_boot :: "u16 option \<Rightarrow> zst \<Rightarrow> ep_st" where
  "ep_boot nv_read z = start_polling (apply_interval (epever_attrs_init nv_read (ep_state0 z)))"

subsection \<open>What is published\<close>

text \<open>The steps: a frame arrives by DMA, the main loop runs, the poll timer or the timer of the rated
  request fires, the configuration is written through the callback or as a ZCL attribute, and anything else happens to the
  ZigBee side, the passing of time included.\<close>

inductive ep_step :: "zenv \<Rightarrow> ep_st \<Rightarrow> ep_st \<Rightarrow> bool" for env where
  ep_rx: "ep_step env s (uart_rx_cb (s\<lparr>uart_rx_buf := v\<rparr>))"
| ep_task: "ep_step env s (app_task env s)"
| ep_poll: "ep_step env s (snd (epever_poll_timer_cb s))"
| ep_rated: "ep_step env s (snd (epever_rated_start_cb s))"
| ep_cfg: "ep_step env s (snd (epever_cfgCb (\<lambda>_ s. s) c rs s))"
| ep_attr_write: "ep_step env s (s\<lparr>cfg_pollInterval := n\<rparr>)"
| ep_other: "ep_step env s (s\<lparr>zs := z\<rparr>)"

inductive ep_reach :: "zenv \<Rightarrow> ep_st \<Rightarrow> bool" for env where
  ep_boot: "ep_reach env (ep_boot nv z)"
| ep_next: "ep_reach env s \<Longrightarrow> ep_step env s s' \<Longrightarrow> ep_reach env s'"

inductive_cases ep_stepE: "ep_step env s s'"

definition read1 :: "view \<Rightarrow> u16 \<Rightarrow> epever_data_t" where
  "read1 b l = snd (epever_parse_rsp1 b l poll_data0)"
definition read2 :: "view \<Rightarrow> u16 \<Rightarrow> view \<Rightarrow> u16 \<Rightarrow> epever_data_t" where
  "read2 b l b2 l2 = snd (epever_parse_rsp2 b2 l2 (read1 b l))"
definition read3 :: "view \<Rightarrow> u16 \<Rightarrow> view \<Rightarrow> u16 \<Rightarrow> view \<Rightarrow> u16 \<Rightarrow> epever_data_t" where
  "read3 b l b2 l2 b3 l3 = snd (epever_parse_rsp3 b3 l3 (read2 b l b2 l2))"

text \<open>The readings of one cycle, from three consecutive accepted frames.\<close>

definition one_cycle :: "(ep_modbus_state_t \<times> view \<times> u16) list \<Rightarrow> epever_data_t \<Rightarrow> bool" where
  "one_cycle tr d \<longleftrightarrow> (\<exists>post pre b1 l1 b2 l2 b3 l3.
     tr = post @ [(EP_STATE_WAIT_RSP3, b3, l3), (EP_STATE_WAIT_RSP2, b2, l2), (EP_STATE_WAIT_RSP1, b1, l1)] @ pre \<and>
     rsp_ok EP_READ1_COUNT b1 l1 \<and> rsp_ok EP_READ2_COUNT b2 l2 \<and> rsp_ok EP_READ3_COUNT b3 l3 \<and>
     d = read3 b1 l1 b2 l2 b3 l3)"

lemma one_cycleI:
  assumes "rsp_ok EP_READ1_COUNT b1 l1" "rsp_ok EP_READ2_COUNT b2 l2" "rsp_ok EP_READ3_COUNT b3 l3"
  shows "one_cycle ((EP_STATE_WAIT_RSP3, b3, l3) # (EP_STATE_WAIT_RSP2, b2, l2) # (EP_STATE_WAIT_RSP1, b1, l1) # pre)
    (read3 b1 l1 b2 l2 b3 l3)"
  unfolding one_cycle_def by (rule exI [of _ "[]"], rule exI [of _ pre]) (use assms in auto)

lemma one_cycle_mono: "one_cycle tr d \<Longrightarrow> one_cycle (x # tr) d"
  unfolding one_cycle_def by (metis append_Cons)

definition ep_inv :: "ep_st \<Rightarrow> bool" where
  "ep_inv s \<longleftrightarrow>
     (s_ep_state s = EP_STATE_WAIT_RSP1 \<longrightarrow> s_poll_data s = poll_data0) \<and>
     (s_ep_state s = EP_STATE_WAIT_RSP2 \<longrightarrow> (\<exists>b1 l1 pre. T_ok s = (EP_STATE_WAIT_RSP1, b1, l1) # pre \<and>
        rsp_ok EP_READ1_COUNT b1 l1 \<and> s_poll_data s = read1 b1 l1)) \<and>
     (s_ep_state s = EP_STATE_WAIT_RSP3 \<longrightarrow> (\<exists>b1 l1 b2 l2 pre.
        T_ok s = (EP_STATE_WAIT_RSP2, b2, l2) # (EP_STATE_WAIT_RSP1, b1, l1) # pre \<and>
        rsp_ok EP_READ1_COUNT b1 l1 \<and> rsp_ok EP_READ2_COUNT b2 l2 \<and> s_poll_data s = read2 b1 l1 b2 l2)) \<and>
     (\<forall>d \<in> set (T_pub s). one_cycle (T_ok s) d)"

lemma ep_inv_idle:
  assumes "\<not> waiting (s_ep_state s)" "\<forall>d \<in> set (T_pub s). one_cycle (T_ok s) d"
  shows "ep_inv s"
  using assms by (auto simp: ep_inv_def waiting_def)

lemma ep_inv_pub: "ep_inv s \<Longrightarrow> \<forall>d \<in> set (T_pub s). one_cycle (T_ok s) d"
  by (simp add: ep_inv_def)

lemma ep_inv_cong:
  "ep_inv s \<Longrightarrow> s_ep_state s' = s_ep_state s \<Longrightarrow> s_poll_data s' = s_poll_data s \<Longrightarrow> T_ok s' = T_ok s \<Longrightarrow>
    T_pub s' = T_pub s \<Longrightarrow> ep_inv s'"
  unfolding ep_inv_def by metis

named_theorems ep_fields

lemma modbus_send_fields [ep_fields]:
  "s_ep_state (modbus_send a n st s) = st" "T_ok (modbus_send a n st s) = T_ok s"
  "T_pub (modbus_send a n st s) = T_pub s" "s_poll_data (modbus_send a n st s) = s_poll_data s"
  by (simp_all add: modbus_send_def uart_dma_send_def Let_def)

lemma small_fields [ep_fields]:
  "s_ep_state (go_idle s) = EP_STATE_IDLE" "T_ok (go_idle s) = T_ok s" "T_pub (go_idle s) = T_pub s"
  "s_ep_state (uart_recbuff_init s) = s_ep_state s" "T_ok (uart_recbuff_init s) = T_ok s"
  "T_pub (uart_recbuff_init s) = T_pub s" "s_poll_data (uart_recbuff_init s) = s_poll_data s"
  "s_ep_state (schedule f n s) = s_ep_state s" "T_ok (schedule f n s) = T_ok s"
  "T_pub (schedule f n s) = T_pub s" "s_poll_data (schedule f n s) = s_poll_data s"
  "s_ep_state (accept b l s) = s_ep_state s" "T_ok (accept b l s) = (s_ep_state s, b, l) # T_ok s"
  "T_pub (accept b l s) = T_pub s" "s_poll_data (accept b l s) = s_poll_data s"
  by (simp_all add: go_idle_def uart_recbuff_init_def schedule_def accept_def)

lemma parse_rated_fields [ep_fields]:
  "s_ep_state (epever_parse_rated b l s) = s_ep_state s" "T_ok (epever_parse_rated b l s) = T_ok s"
  "T_pub (epever_parse_rated b l s) = T_pub s"
  by (simp_all add: epever_parse_rated_def Let_def)

lemma attrs_update_fields [ep_fields]:
  "T_ok (epever_attrs_update env d s) = T_ok s"
  "T_pub (epever_attrs_update env d s) = (if valid d then d # T_pub s else T_pub s)"
  by (simp_all add: epever_attrs_update_def Let_def)

lemma rx_rated_inv: "ep_inv s \<Longrightarrow> ep_inv (rx_rated b l s)"
  by (rule ep_inv_idle; drule ep_inv_pub) (simp_all add: rx_rated_def Let_def ep_fields waiting_def)

lemma parse1_ok: "epever_parse_rsp1 b l d = (True, d') \<Longrightarrow> rsp_ok EP_READ1_COUNT b l"
  by (auto simp: epever_parse_rsp1_def split: if_splits)
lemma parse2_ok: "epever_parse_rsp2 b l d = (True, d') \<Longrightarrow> rsp_ok EP_READ2_COUNT b l"
  by (auto simp: epever_parse_rsp2_def split: if_splits)
lemma parse3_ok: "epever_parse_rsp3 b l d = (True, d') \<Longrightarrow> rsp_ok EP_READ3_COUNT b l"
  by (auto simp: epever_parse_rsp3_def split: if_splits)

lemma idle_inv:
  "\<forall>d \<in> set (T_pub s). one_cycle (T_ok s) d \<Longrightarrow> ep_inv (go_idle s)"
  by (rule ep_inv_idle) (simp_all add: ep_fields waiting_def)

lemma rx_live_inv:
  assumes "ep_inv s"
  shows "ep_inv (rx_live env b l s)"
proof -
  have p: "\<forall>d \<in> set (T_pub s). one_cycle (T_ok s) d" using assms by (simp add: ep_inv_def)
  show ?thesis
  proof (cases "s_ep_state s")
    case EP_STATE_WAIT_RSP1
    obtain r d where r: "epever_parse_rsp1 b l (s_poll_data s) = (r, d)" by fastforce
    show ?thesis
    proof (cases r)
      case True
      have "d = read1 b l" using assms r EP_STATE_WAIT_RSP1 by (simp add: ep_inv_def read1_def)
      then show ?thesis using r True EP_STATE_WAIT_RSP1 p parse1_ok [of b l]
        by (auto simp: rx_live_def ep_inv_def epever_send_req_def ep_fields intro: one_cycle_mono)
    qed (use r EP_STATE_WAIT_RSP1 p in \<open>auto simp: rx_live_def intro!: idle_inv\<close>)
  next
    case EP_STATE_WAIT_RSP2
    obtain r d where r: "epever_parse_rsp2 b l (s_poll_data s) = (r, d)" by fastforce
    show ?thesis
    proof (cases r)
      case True
      obtain b1 l1 pre where 1: "T_ok s = (EP_STATE_WAIT_RSP1, b1, l1) # pre" "rsp_ok EP_READ1_COUNT b1 l1"
        "s_poll_data s = read1 b1 l1" using assms EP_STATE_WAIT_RSP2 by (auto simp: ep_inv_def)
      then have "d = read2 b1 l1 b l" using r by (simp add: read2_def)
      then show ?thesis using r True EP_STATE_WAIT_RSP2 p parse2_ok [of b l] 1
        by (auto simp: rx_live_def ep_inv_def epever_send_req_def ep_fields intro: one_cycle_mono)
    qed (use r EP_STATE_WAIT_RSP2 p in \<open>auto simp: rx_live_def intro!: idle_inv\<close>)
  next
    case EP_STATE_WAIT_RSP3
    obtain r d where r: "epever_parse_rsp3 b l (s_poll_data s) = (r, d)" by fastforce
    show ?thesis
    proof (cases r)
      case True
      obtain b1 l1 b2 l2 pre where 1: "T_ok s = (EP_STATE_WAIT_RSP2, b2, l2) # (EP_STATE_WAIT_RSP1, b1, l1) # pre"
        "rsp_ok EP_READ1_COUNT b1 l1" "rsp_ok EP_READ2_COUNT b2 l2" "s_poll_data s = read2 b1 l1 b2 l2"
        using assms EP_STATE_WAIT_RSP3 by (auto simp: ep_inv_def)
      then have d: "d = read3 b1 l1 b2 l2 b l" using r by (simp add: read3_def)
      have "one_cycle ((EP_STATE_WAIT_RSP3, b, l) # T_ok s) d"
        unfolding d 1(1) using 1 r True parse3_ok [of b l] by (intro one_cycleI) simp_all
      moreover have "\<forall>d' \<in> set (T_pub s). one_cycle ((EP_STATE_WAIT_RSP3, b, l) # T_ok s) d'"
        using p one_cycle_mono by blast
      ultimately show ?thesis using r True EP_STATE_WAIT_RSP3
        by (auto simp: rx_live_def ep_fields split: if_splits intro!: idle_inv)
    qed (use r EP_STATE_WAIT_RSP3 p in \<open>auto simp: rx_live_def intro!: idle_inv\<close>)
  qed (use assms in \<open>auto simp: rx_live_def\<close>)
qed

lemma ep_inv_flag: "ep_inv s \<Longrightarrow> ep_inv (s\<lparr>uart_rx_flag := b\<rparr>)"
  by (erule ep_inv_cong) simp_all

lemma uart_rx_poll_inv:
  assumes "ep_inv s"
  shows "ep_inv (uart_rx_poll env s)"
proof -
  let ?done = "s\<lparr>uart_rx_flag := False\<rparr>"
  have d: "ep_inv ?done" using assms by (rule ep_inv_flag)
  have "ep_inv (go_idle ?done)" using ep_inv_pub [OF d] by (rule idle_inv)
  moreover have "ep_inv (uart_recbuff_init ?done)" using d by (rule ep_inv_cong) (simp_all add: ep_fields)
  ultimately show ?thesis
    unfolding uart_rx_poll_def Let_def using assms rx_rated_inv rx_live_inv [OF d] by auto
qed

lemma timeout_poll_inv: "ep_inv s \<Longrightarrow> ep_inv (epever_modbus_timeout_poll s)"
  using idle_inv [OF ep_inv_pub, of s] ep_inv_pub [of s]
  by (auto simp: epever_modbus_timeout_poll_def ep_fields waiting_def intro!: ep_inv_idle)

lemma poll_timer_inv: "ep_inv s \<Longrightarrow> ep_inv (snd (epever_poll_timer_cb s))"
  by (auto simp: epever_poll_timer_cb_def Let_def ep_inv_def epever_send_req_def ep_fields)

lemma cfgCb_loop_fields [ep_fields]:
  "s_ep_state (cfgCb_loop (\<lambda>_ s. s) rs s) = s_ep_state s" "s_poll_data (cfgCb_loop (\<lambda>_ s. s) rs s) = s_poll_data s"
  "T_ok (cfgCb_loop (\<lambda>_ s. s) rs s) = T_ok s" "T_pub (cfgCb_loop (\<lambda>_ s. s) rs s) = T_pub s"
  by (induction rs arbitrary: s) (auto simp: epever_set_poll_interval_def Let_def)

lemma ep_step_inv: "ep_step env s s' \<Longrightarrow> ep_inv s \<Longrightarrow> ep_inv s'"
proof (induction rule: ep_step.induct)
  case (ep_task s)
  then show ?case unfolding app_task_def by (intro timeout_poll_inv uart_rx_poll_inv)
next
  case (ep_rated s)
  show ?case using ep_inv_pub [OF ep_rated]
    by (intro ep_inv_idle) (simp_all add: epever_rated_start_cb_def epever_rated_request_send_def ep_fields waiting_def)
next
  case (ep_cfg s c rs)
  then show ?case by (rule ep_inv_cong) (simp_all add: epever_cfgCb_def ep_fields)
qed (auto simp: uart_rx_cb_def poll_timer_inv elim!: ep_inv_cong)

lemma boot_fields: "s_ep_state (ep_boot nv z) = EP_STATE_IDLE" "T_pub (ep_boot nv z) = []"
  by (auto simp: ep_boot_def start_polling_def apply_interval_def epever_attrs_init_def ep_state0_def
      ep_fields Let_def split: option.splits)

lemma ep_reach_inv: "ep_reach env s \<Longrightarrow> ep_inv s"
proof (induction rule: ep_reach.induct)
  case (ep_boot nv z)
  show ?case by (rule ep_inv_idle) (simp_all add: boot_fields waiting_def)
qed (rule ep_step_inv)

text \<open>C5. Only whole cycles are published. In every reachable state, whatever bytes the serial line
  delivers and however the timers, the main loop and the ZigBee side interleave, each
  set of readings that was published comes from three frames that were accepted one directly after
  the other, one for each range of registers, in the order of the requests; no reading
  is left over from an earlier cycle.\<close>

theorem published_whole_cycles:
  assumes "ep_reach env s" "d \<in> set (T_pub s)"
  shows "\<exists>post pre b1 l1 b2 l2 b3 l3. T_ok s = post @ [(EP_STATE_WAIT_RSP3, b3, l3), (EP_STATE_WAIT_RSP2, b2, l2),
      (EP_STATE_WAIT_RSP1, b1, l1)] @ pre \<and>
    rsp_ok EP_READ1_COUNT b1 l1 \<and> rsp_ok EP_READ2_COUNT b2 l2 \<and> rsp_ok EP_READ3_COUNT b3 l3 \<and>
    d = snd (epever_parse_rsp3 b3 l3 (snd (epever_parse_rsp2 b2 l2 (snd (epever_parse_rsp1 b1 l1 poll_data0)))))"
  using ep_inv_pub [OF ep_reach_inv [OF assms(1)]] assms(2)
  unfolding one_cycle_def read3_def read2_def read1_def by blast

subsection \<open>A cycle, and the readings\<close>

definition frame_of :: "bytes \<Rightarrow> view" where
  \<comment> \<open>the receive buffer with the length in front\<close>
  "frame_of bs = lview (u16_bytes (of_nat (length bs)) @ [0, 0] @ bs) (\<lambda>_. 0)"

definition rx_at :: "zenv \<Rightarrow> u32 \<Rightarrow> bytes \<Rightarrow> ep_st \<Rightarrow> ep_st" where
  \<comment> \<open>a frame arrives at time \<open>t\<close> and the main loop runs\<close>
  "rx_at env t bs s =
     app_task env (uart_rx_cb (s\<lparr>uart_rx_buf := frame_of bs, zs := (zs s)\<lparr>clock_time := t\<rparr>\<rparr>))"

lemma frame_of_view:
  "length bs < 65536 \<Longrightarrow> BUILD_U16 (frame_of bs 0) (frame_of bs 1) = of_nat (length bs)"
  "vdrop 4 (frame_of bs) = lview bs (\<lambda>_. 0)"
proof -
  show "BUILD_U16 (frame_of bs 0) (frame_of bs 1) = of_nat (length bs)"
    by (simp add: frame_of_def u16_bytes_def)
  have "vdrop (length (u16_bytes (of_nat (length bs)) @ [0, 0])) (lview ((u16_bytes (of_nat (length bs)) @ [0, 0]) @ bs) (\<lambda>_. 0))
    = lview bs (\<lambda>_. 0)" by (rule vdrop_lview_append)
  then show "vdrop 4 (frame_of bs) = lview bs (\<lambda>_. 0)" by (simp add: frame_of_def)
qed

lemma rsp_ok_no_error: "rsp_ok n buf len \<Longrightarrow> buf 1 AND 0x80 = 0 \<and> 5 + 2 * n \<le> unat len"
  by (simp add: rsp_ok_def Let_def EP_MODBUS_FUNC_READ_def)

lemma elapsed_simps [simp]:
  "elapsed_ms (s\<lparr>uart_rx_flag := b\<rparr>) = elapsed_ms s" "elapsed_ms (s\<lparr>uart_rx_buf := v\<rparr>) = elapsed_ms s"
  by (simp_all add: elapsed_ms_def)

lemma rx_live_task:
  assumes "rsp_ok n (lview bs (\<lambda>_. 0)) (of_nat (length bs))" "length bs \<le> 124" "waiting (s_ep_state s)"
    "(t - s_req_time s) div CLOCK_1MS \<le> 500"
  shows "uart_rx_poll env (uart_rx_cb (s\<lparr>uart_rx_buf := frame_of bs, zs := (zs s)\<lparr>clock_time := t\<rparr>\<rparr>)) =
    rx_live env (lview bs (\<lambda>_. 0)) (of_nat (length bs))
      (s\<lparr>uart_rx_buf := frame_of bs, zs := (zs s)\<lparr>clock_time := t\<rparr>, uart_rx_flag := False\<rparr>)"
proof -
  have l: "unat (of_nat (length bs) :: u16) = length bs" using assms(2) by (simp add: unat_of_nat_u16)
  note ne = rsp_ok_no_error [OF assms(1), unfolded l]
  have pos: "(of_nat (length bs) :: u16) \<noteq> 0" using l ne by auto
  have w: "s_ep_state s \<noteq> EP_STATE_RATED_WAIT" using assms(3) by (auto simp: waiting_def)
  have el: "\<not> 500 < (t - s_req_time s) div CLOCK_1MS" using assms(4) by simp
  show ?thesis
    unfolding uart_rx_poll_def uart_rx_cb_def
    using assms(2,3) ne pos w el l frame_of_view [of bs]
    by (simp add: Let_def elapsed_ms_def EP_RSP_TIMEOUT_MS_def UART_BUF_SIZE_def)
qed

lemma timeout_poll_frame:
  "ep_attrs (epever_modbus_timeout_poll s) = ep_attrs s" "T_pub (epever_modbus_timeout_poll s) = T_pub s"
  by (simp_all add: epever_modbus_timeout_poll_def schedule_def go_idle_def uart_recbuff_init_def)

lemma timeout_poll_fresh:
  "s_req_time s = clock_time (zs s) \<or> s_ep_state s = EP_STATE_IDLE \<Longrightarrow> epever_modbus_timeout_poll s = s"
  by (auto simp: epever_modbus_timeout_poll_def elapsed_ms_def waiting_def EP_RSP_TIMEOUT_MS_def)

lemma rx_at_1:
  assumes "s_ep_state s = EP_STATE_WAIT_RSP1" "rsp_ok EP_READ1_COUNT (lview bs (\<lambda>_. 0)) (of_nat (length bs))"
    "length bs \<le> 124" "(t - s_req_time s) div CLOCK_1MS \<le> 500"
  shows "s_ep_state (rx_at env t bs s) = EP_STATE_WAIT_RSP2 \<and> s_req_time (rx_at env t bs s) = t \<and>
    s_poll_data (rx_at env t bs s) = snd (epever_parse_rsp1 (lview bs (\<lambda>_. 0)) (of_nat (length bs)) (s_poll_data s)) \<and>
    T_uart (rx_at env t bs s) = ([8, 0, 0, 0] @
       modbus_build_request EP_MODBUS_SLAVE_ID EP_MODBUS_FUNC_READ EP_READ2_ADDR (of_nat EP_READ2_COUNT)) # T_uart s"
proof -
  let ?x = "rx_live env (lview bs (\<lambda>_. 0)) (of_nat (length bs))
      (s\<lparr>uart_rx_buf := frame_of bs, zs := (zs s)\<lparr>clock_time := t\<rparr>, uart_rx_flag := False\<rparr>)"
  have x: "s_ep_state ?x = EP_STATE_WAIT_RSP2 \<and> s_req_time ?x = t \<and> clock_time (zs ?x) = t \<and>
    s_poll_data ?x = snd (epever_parse_rsp1 (lview bs (\<lambda>_. 0)) (of_nat (length bs)) (s_poll_data s)) \<and>
    T_uart ?x = ([8, 0, 0, 0] @
       modbus_build_request EP_MODBUS_SLAVE_ID EP_MODBUS_FUNC_READ EP_READ2_ADDR (of_nat EP_READ2_COUNT)) # T_uart s"
    using assms(1,2) by (simp add: rx_live_def epever_parse_rsp1_def Let_def epever_send_req_def modbus_send_def
        uart_dma_send_def uart_recbuff_init_def accept_def)
  have "rx_at env t bs s = ?x"
    unfolding rx_at_def app_task_def
    using rx_live_task [OF assms(2,3) _ assms(4)] assms(1) timeout_poll_fresh [of ?x] x by (simp add: waiting_def)
  with x show ?thesis by simp
qed

lemma rx_at_2:
  assumes "s_ep_state s = EP_STATE_WAIT_RSP2" "rsp_ok EP_READ2_COUNT (lview bs (\<lambda>_. 0)) (of_nat (length bs))"
    "length bs \<le> 124" "(t - s_req_time s) div CLOCK_1MS \<le> 500"
  shows "s_ep_state (rx_at env t bs s) = EP_STATE_WAIT_RSP3 \<and> s_req_time (rx_at env t bs s) = t \<and>
    s_poll_data (rx_at env t bs s) = snd (epever_parse_rsp2 (lview bs (\<lambda>_. 0)) (of_nat (length bs)) (s_poll_data s)) \<and>
    T_uart (rx_at env t bs s) = ([8, 0, 0, 0] @
       modbus_build_request EP_MODBUS_SLAVE_ID EP_MODBUS_FUNC_READ EP_READ3_ADDR (of_nat EP_READ3_COUNT)) # T_uart s"
proof -
  let ?x = "rx_live env (lview bs (\<lambda>_. 0)) (of_nat (length bs))
      (s\<lparr>uart_rx_buf := frame_of bs, zs := (zs s)\<lparr>clock_time := t\<rparr>, uart_rx_flag := False\<rparr>)"
  have x: "s_ep_state ?x = EP_STATE_WAIT_RSP3 \<and> s_req_time ?x = t \<and> clock_time (zs ?x) = t \<and>
    s_poll_data ?x = snd (epever_parse_rsp2 (lview bs (\<lambda>_. 0)) (of_nat (length bs)) (s_poll_data s)) \<and>
    T_uart ?x = ([8, 0, 0, 0] @
       modbus_build_request EP_MODBUS_SLAVE_ID EP_MODBUS_FUNC_READ EP_READ3_ADDR (of_nat EP_READ3_COUNT)) # T_uart s"
    using assms(1,2) by (simp add: rx_live_def epever_parse_rsp2_def Let_def epever_send_req_def modbus_send_def
        uart_dma_send_def uart_recbuff_init_def accept_def)
  have "rx_at env t bs s = ?x"
    unfolding rx_at_def app_task_def
    using rx_live_task [OF assms(2,3) _ assms(4)] assms(1) timeout_poll_fresh [of ?x] x by (simp add: waiting_def)
  with x show ?thesis by simp
qed

lemma rx_at_3:
  assumes "s_ep_state s = EP_STATE_WAIT_RSP3" "rsp_ok EP_READ3_COUNT (lview bs (\<lambda>_. 0)) (of_nat (length bs))"
    "length bs \<le> 124" "(t - s_req_time s) div CLOCK_1MS \<le> 500"
  shows "s_ep_state (rx_at env t bs s) = EP_STATE_IDLE \<and> T_uart (rx_at env t bs s) = T_uart s \<and>
    ep_attrs (rx_at env t bs s) = attrs_of (snd (epever_parse_rsp3 (lview bs (\<lambda>_. 0)) (of_nat (length bs)) (s_poll_data s)))"
proof -
  let ?x = "rx_live env (lview bs (\<lambda>_. 0)) (of_nat (length bs))
      (s\<lparr>uart_rx_buf := frame_of bs, zs := (zs s)\<lparr>clock_time := t\<rparr>, uart_rx_flag := False\<rparr>)"
  have x: "s_ep_state ?x = EP_STATE_IDLE \<and> T_uart ?x = T_uart s \<and>
    ep_attrs ?x = attrs_of (snd (epever_parse_rsp3 (lview bs (\<lambda>_. 0)) (of_nat (length bs)) (s_poll_data s)))"
    using assms(1,2) by (simp add: rx_live_def epever_parse_rsp3_def Let_def epever_attrs_update_def
        go_idle_def uart_recbuff_init_def accept_def)
  have "rx_at env t bs s = ?x"
    unfolding rx_at_def app_task_def
    using rx_live_task [OF assms(2,3) _ assms(4)] assms(1) timeout_poll_fresh [of ?x] x by (simp add: waiting_def)
  with x show ?thesis by simp
qed

text \<open>C20. A cycle of good responses updates the attributes. When the poll timer fires and each of
  the three requests is answered within half a second by a frame that passes the checks, the poller
  sends the three requests in order, ends idle, and the attributes are those of the three
  frames, whatever was going on before.\<close>

theorem cycle_publishes:
  fixes env :: zenv
  assumes "s0 = snd (epever_poll_timer_cb s)"
    "rsp_ok EP_READ1_COUNT (lview b1 (\<lambda>_. 0)) (of_nat (length b1))" "length b1 \<le> 124"
    "rsp_ok EP_READ2_COUNT (lview b2 (\<lambda>_. 0)) (of_nat (length b2))" "length b2 \<le> 124"
    "rsp_ok EP_READ3_COUNT (lview b3 (\<lambda>_. 0)) (of_nat (length b3))" "length b3 \<le> 124"
    "(t1 - now s) div CLOCK_1MS \<le> 500" "(t2 - t1) div CLOCK_1MS \<le> 500" "(t3 - t2) div CLOCK_1MS \<le> 500"
  defines "s3 \<equiv> rx_at env t3 b3 (rx_at env t2 b2 (rx_at env t1 b1 s0))"
    and "req \<equiv> \<lambda>addr n. [8, 0, 0, 0] @ modbus_build_request EP_MODBUS_SLAVE_ID EP_MODBUS_FUNC_READ addr (of_nat n)"
    and "d \<equiv> snd (epever_parse_rsp3 (lview b3 (\<lambda>_. 0)) (of_nat (length b3))
      (snd (epever_parse_rsp2 (lview b2 (\<lambda>_. 0)) (of_nat (length b2))
      (snd (epever_parse_rsp1 (lview b1 (\<lambda>_. 0)) (of_nat (length b1)) poll_data0)))))"
  shows "s_ep_state s3 = EP_STATE_IDLE \<and> ep_attrs s3 = attrs_of d \<and>
    T_uart s3 = [req EP_READ3_ADDR EP_READ3_COUNT, req EP_READ2_ADDR EP_READ2_COUNT,
                 req EP_READ1_ADDR EP_READ1_COUNT] @ T_uart s"
proof -
  have s0: "s_ep_state s0 = EP_STATE_WAIT_RSP1" "s_req_time s0 = now s" "s_poll_data s0 = poll_data0"
    "T_uart s0 = req EP_READ1_ADDR EP_READ1_COUNT # T_uart s"
    unfolding assms(1) by (simp_all add: epever_poll_timer_cb_def Let_def epever_send_req_def modbus_send_def
        uart_dma_send_def uart_recbuff_init_def req_def)
  note 1 = rx_at_1 [OF s0(1) assms(2,3) assms(8) [folded s0(2)], of env]
  have "(t2 - s_req_time (rx_at env t1 b1 s0)) div CLOCK_1MS \<le> 500" using 1 assms(9) by simp
  note 2 = rx_at_2 [OF conjunct1 [OF 1] assms(4,5) this, of env]
  have "(t3 - s_req_time (rx_at env t2 b2 (rx_at env t1 b1 s0))) div CLOCK_1MS \<le> 500" using 2 assms(10) by simp
  note 3 = rx_at_3 [OF conjunct1 [OF 2] assms(6,7) this, of env]
  show ?thesis using 1 2 3 s0 unfolding s3_def d_def req_def by simp
qed


definition close :: "u16 \<Rightarrow> int \<Rightarrow> bool" where
  \<comment> \<open>the attribute is the register, or one less, as a 16-bit number\<close>
  "close v n \<longleftrightarrow>
     (if n < 32768 then sint v = n \<or> sint v = n - 1
      else if n < 4000000 then v = of_int n \<or> v = of_int (n - 1)
      else \<exists>k. v = of_int k \<and> \<bar>k - n\<bar> \<le> 800)"





text \<open>The loss is real, and large powers overflow. 0.53 is published as 0.52. A power of
  327.69 W up to 655.35 W does not fit the 16-bit attribute: the cast is undefined in C, and
  with the wrap-around of the compiler the attribute is negative.\<close>

theorem readings_lossy:
  "(uint w = 53 \<longrightarrow> cast_s16 (f_mul (reg_f w) 100) = 52) \<and>
   (32769 \<le> uint w \<and> uint w \<le> 65535 \<and> valid d \<and> solar_pow d = reg_f w \<longrightarrow>
      \<not> list_all s16_ok (scaled d) \<and> sint (solarPower (attrs_of d)) < 0)"
proof (intro conjI impI)
  assume "uint w = 53"
  then show "cast_s16 (f_mul (reg_f w) 100) = 52" by (simp add: reg_f_def cast_s16_def scale_53)
next
  assume h: "32769 \<le> uint w \<and> uint w \<le> 65535 \<and> valid d \<and> solar_pow d = reg_f w"
  then obtain k where k: "f_trunc (f_mul (solar_pow d) 100) = k" "k = uint w \<or> k = uint w - 1"
    using scale_100 [of "uint w"] by (auto simp: reg_f_def)
  then have b: "32768 \<le> k" "k < 65536" using h by auto
  have "\<not> s16_ok (f_mul (solar_pow d) 100)" using k(1) b by (simp add: s16_ok_def in_width_def)
  then show "\<not> list_all s16_ok (scaled d)" by (simp add: scaled_def)
  have "(of_int k :: u16) = of_int (k - 65536)" unfolding word_of_int_eq_iff by (simp add: take_bit_eq_mod)
  then have "sint (of_int k :: u16) = sint (of_int (k - 65536) :: u16)" by (simp only:)
  also have "\<dots> = k - 65536" by (rule sint_of_int_u16) (use b in auto)
  finally show "sint (solarPower (attrs_of d)) < 0" using b k by (simp add: attrs_of_def cast_s16_def)
qed

text \<open>Every wait ends. If half a second has gone by since the request, one turn of the main
  loop leaves the waiting states, with or without a frame in the buffer, and gives the buffer
  back to the receiver; the only exception is a request sent at the tick 0, which counts
  as no request.\<close>

theorem waits_end:
  assumes "waiting (s_ep_state s) \<or> s_ep_state s = EP_STATE_RATED_WAIT" "elapsed_ms s > EP_RSP_TIMEOUT_MS"
    "uart_rx_flag s \<or> s_req_time s \<noteq> 0"
  shows "(s_ep_state (app_task env s) = (if waiting (s_ep_state s) then EP_STATE_IDLE else EP_STATE_RATED_REQ)) \<and>
    T_rxarm (app_task env s) = T_rxarm s + 1 \<and> \<not> uart_rx_flag (app_task env s) \<and>
    ep_attrs (app_task env s) = ep_attrs s"
  using assms
  by (auto simp: app_task_def uart_rx_poll_def epever_modbus_timeout_poll_def rx_rated_def go_idle_def
      uart_recbuff_init_def schedule_def waiting_def Let_def elapsed_ms_def)

definition interval_ok :: "ep_st \<Rightarrow> bool" where
  "interval_ok s \<longleftrightarrow> (\<exists>n::u16. 5 \<le> n \<and> n \<le> 3600 \<and> g_poll_interval_ms s = ucast n * 1000)"

lemma clamp_bounds: "5 \<le> clamp_interval n \<and> clamp_interval n \<le> 3600"
  by (auto simp: clamp_interval_def Let_def word_le_nat_alt word_less_nat_alt)

lemma cfgCb_loop_interval: "interval_ok s \<Longrightarrow> interval_ok (cfgCb_loop (\<lambda>_ s. s) rs s)"
proof (induction rs arbitrary: s)
  case (Cons r rs)
  show ?case
    by (simp add: Let_def, intro conjI impI Cons.IH)
      (use Cons.prems clamp_bounds in \<open>auto simp: interval_ok_def epever_set_poll_interval_def\<close>)
qed simp

lemma poll_interval_keep [simp]:
  "g_poll_interval_ms (modbus_send a n st s) = g_poll_interval_ms s"
  "g_poll_interval_ms (go_idle s) = g_poll_interval_ms s"
  "g_poll_interval_ms (uart_recbuff_init s) = g_poll_interval_ms s"
  "g_poll_interval_ms (schedule f m s) = g_poll_interval_ms s"
  "g_poll_interval_ms (accept b l s) = g_poll_interval_ms s"
  "g_poll_interval_ms (epever_parse_rated b l s) = g_poll_interval_ms s"
  "g_poll_interval_ms (epever_attrs_update env d s) = g_poll_interval_ms s"
  by (simp_all add: modbus_send_def uart_dma_send_def go_idle_def uart_recbuff_init_def schedule_def accept_def
      epever_parse_rated_def epever_attrs_update_def Let_def)

lemma rx_interval [simp]:
  "g_poll_interval_ms (rx_rated b l s) = g_poll_interval_ms s"
  "g_poll_interval_ms (rx_live env b l s) = g_poll_interval_ms s"
  by (simp_all add: rx_rated_def Let_def rx_live_def epever_send_req_def split: prod.splits bool.splits)

lemma rx_poll_interval [simp]: "g_poll_interval_ms (uart_rx_poll env s) = g_poll_interval_ms s"
  by (simp add: uart_rx_poll_def Let_def)

lemma app_task_interval: "g_poll_interval_ms (app_task env s) = g_poll_interval_ms s"
  unfolding app_task_def epever_modbus_timeout_poll_def by simp

lemma ep_reach_interval: "ep_reach env s \<Longrightarrow> interval_ok s"
proof (induction rule: ep_reach.induct)
  case (ep_boot nv z)
  have "interval_ok (apply_interval s)" if "g_poll_interval_ms s = 10000" for s
    using that by (cases "5 \<le> cfg_pollInterval s \<and> cfg_pollInterval s \<le> 3600")
      (auto simp: apply_interval_def interval_ok_def intro: exI [of _ 10])
  then have "interval_ok (apply_interval (epever_attrs_init nv (ep_state0 z)))"
    by (auto simp: epever_attrs_init_def ep_state0_def Let_def split: option.splits)
  then show ?case by (simp add: ep_boot_def start_polling_def interval_ok_def)
next
  case (ep_next s s')
  from ep_next(2,3) show ?case
  proof (induction rule: ep_step.induct)
    case (ep_cfg s c rs)
    then show ?case by (simp add: epever_cfgCb_def cfgCb_loop_interval)
  qed (auto simp: interval_ok_def uart_rx_cb_def app_task_interval epever_poll_timer_cb_def Let_def
      epever_send_req_def epever_rated_start_cb_def epever_rated_request_send_def)
qed

text \<open>C23. Polling never stops. In every reachable state the interval is between 5 seconds and
  one hour, so the callback of the poll timer, which returns it, always restarts the timer, and
  a new request is sent.\<close>

theorem polling_goes_on:
  assumes "ep_reach env s"
  shows "5000 \<le> fst (epever_poll_timer_cb s) \<and> fst (epever_poll_timer_cb s) \<le> 3600000 \<and>
    s_ep_state (snd (epever_poll_timer_cb s)) = EP_STATE_WAIT_RSP1 \<and>
    (\<exists>r. T_uart (snd (epever_poll_timer_cb s)) = r # T_uart s)"
proof -
  obtain n :: u16 where n: "5 \<le> n" "n \<le> 3600" "g_poll_interval_ms s = ucast n * 1000"
    using ep_reach_interval [OF assms] by (auto simp: interval_ok_def)
  then have b: "5 \<le> uint n" "uint n \<le> 3600" by (simp_all add: word_le_def)
  have "ucast n * 1000 = (of_int (uint n * 1000) :: u32)" by simp
  then have "sint (ucast n * 1000 :: u32) = uint n * 1000"
    using b by (simp only: signed_of_int) (simp add: signed_take_bit_int_eq_self)
  then have "fst (epever_poll_timer_cb s) = uint n * 1000"
    using n by (simp add: epever_poll_timer_cb_def Let_def epever_send_req_def)
  moreover have "s_ep_state (snd (epever_poll_timer_cb s)) = EP_STATE_WAIT_RSP1 \<and>
    (\<exists>r. T_uart (snd (epever_poll_timer_cb s)) = r # T_uart s)"
    by (simp add: epever_poll_timer_cb_def Let_def epever_send_req_def modbus_send_def uart_dma_send_def
        uart_recbuff_init_def)
  ultimately show ?thesis using b by simp
qed

subsection \<open>Examples\<close>

definition mk_frame :: "bytes \<Rightarrow> bytes" where
  \<comment> \<open>what a slave answers with these register bytes\<close>
  "mk_frame d = (let h = [EP_MODBUS_SLAVE_ID, EP_MODBUS_FUNC_READ, of_nat (length d)] @ d in
     h @ u16_bytes (foldl crc_byte 0xFFFF h))"

lemma mk_frame_ok:
  assumes "length d = 2 * n" "n < 60"
  shows "rsp_ok n (lview (mk_frame d) rest) (of_nat (length (mk_frame d)))" "length (mk_frame d) = 2 * n + 5"
proof -
  let ?h = "[EP_MODBUS_SLAVE_ID, EP_MODBUS_FUNC_READ, of_nat (length d)] @ d"
  let ?c = "foldl crc_byte 0xFFFF ?h"
  have m: "mk_frame d = ?h @ u16_bytes ?c" by (simp add: mk_frame_def Let_def)
  then show l: "length (mk_frame d) = 2 * n + 5" using assms(1) by simp
  have lh: "length ?h = 3 + n * 2" using assms(1) by simp
  have "vtake (length ?h) (lview (?h @ u16_bytes ?c) rest) = ?h" by (rule vtake_lview_append)
  then have c: "modbus_crc16 (lview (mk_frame d) rest) (3 + n * 2) = ?c"
    unfolding modbus_crc16_def m lh by (simp only:)
  have "lview (mk_frame d) rest (3 + n * 2) = LO_UINT16 ?c" "lview (mk_frame d) rest (3 + n * 2 + 1) = HI_UINT16 ?c"
    unfolding m lh [symmetric] by (simp_all only: lview_append) (simp_all add: lview_def u16_bytes_def)
  moreover have "lview (mk_frame d) rest 0 = EP_MODBUS_SLAVE_ID" "lview (mk_frame d) rest 1 = EP_MODBUS_FUNC_READ"
    "lview (mk_frame d) rest 2 = of_nat (n * 2)"
    using assms(1) by (simp_all add: m lview_def mult.commute)
  moreover have "unat (of_nat (length (mk_frame d)) :: u16) = 2 * n + 5"
    unfolding l using assms(2) by (intro unat_of_nat_u16) simp
  ultimately show "rsp_ok n (lview (mk_frame d) rest) (of_nat (length (mk_frame d)))"
    using c by (simp add: rsp_ok_def Let_def add.assoc)
qed

definition ex_f1 :: bytes where "ex_f1 = mk_frame ([0x17, 0x70] @ replicate 14 0)"
definition ex_f2 :: bytes where "ex_f2 = mk_frame (replicate 12 0)"
definition ex_f3 :: bytes where "ex_f3 = mk_frame [0, 80]"

lemmas ex_frames =
  mk_frame_ok(1) [of "[0x17, 0x70] @ replicate 14 0" EP_READ1_COUNT "\<lambda>_. 0", folded ex_f1_def]
  mk_frame_ok(2) [of "[0x17, 0x70] @ replicate 14 0" EP_READ1_COUNT, folded ex_f1_def]
  mk_frame_ok(1) [of "replicate 12 0" EP_READ2_COUNT "\<lambda>_. 0", folded ex_f2_def]
  mk_frame_ok(2) [of "replicate 12 0" EP_READ2_COUNT, folded ex_f2_def]
  mk_frame_ok(1) [of "[0, 80]" EP_READ3_COUNT "\<lambda>_. 0", folded ex_f3_def]
  mk_frame_ok(2) [of "[0, 80]" EP_READ3_COUNT, folded ex_f3_def]

lemma ex_frames_ok:
  "rsp_ok EP_READ1_COUNT (lview ex_f1 (\<lambda>_. 0)) (of_nat (length ex_f1))" "length ex_f1 \<le> 124"
  "rsp_ok EP_READ2_COUNT (lview ex_f2 (\<lambda>_. 0)) (of_nat (length ex_f2))" "length ex_f2 \<le> 124"
  "rsp_ok EP_READ3_COUNT (lview ex_f3 (\<lambda>_. 0)) (of_nat (length ex_f3))" "length ex_f3 \<le> 124"
  using ex_frames by (simp_all add: EP_READ1_COUNT_def EP_READ2_COUNT_def EP_READ3_COUNT_def)

lemma modbus_detects_errors_witness:
  "\<not> rsp_ok EP_READ3_COUNT ((lview ex_f3 (\<lambda>_. 0)) (4 := 81)) (of_nat (length ex_f3))"
proof -
  let ?v = "lview ex_f3 (\<lambda>_. 0)"
  have "?v 4 = 80" by (simp add: ex_f3_def mk_frame_def Let_def lview_def)
  then show ?thesis
    using modbus_detects_errors [of EP_READ3_COUNT ?v "of_nat (length ex_f3)" 4 "?v(4 := 81)"] ex_frames_ok(5)
    by (simp add: EP_READ3_COUNT_def)
qed

definition ex_boot :: ep_st where "ex_boot = ep_boot None ex_state"

lemma ex_boot_now: "now ex_boot = clock_time ex_state"
  by (simp add: ex_boot_def ep_boot_def start_polling_def schedule_def apply_interval_def epever_attrs_init_def
      ep_state0_def Let_def clock_taskPost)

definition ex_polled :: ep_st where "ex_polled = snd (epever_poll_timer_cb ex_boot)"

definition ex_run :: ep_st where
  "ex_run = rx_at ex_env 48000 ex_f3 (rx_at ex_env 32000 ex_f2 (rx_at ex_env 16000 ex_f1 ex_polled))"

lemma cycle_publishes_witness:
  "s_ep_state ex_run = EP_STATE_IDLE \<and> length (T_uart ex_run) = length (T_uart ex_boot) + 3"
proof -
  have "(16000 - now ex_boot) div CLOCK_1MS \<le> 500" unfolding ex_boot_now by (simp add: ex_state_def CLOCK_1MS_def)
  from cycle_publishes [OF refl ex_frames_ok this, of 32000 48000 ex_env]
  show ?thesis by (simp add: CLOCK_1MS_def ex_run_def ex_polled_def)
qed


lemma ex_run_reach: "ep_reach ex_env ex_run"
proof -
  have b: "ep_reach ex_env ex_boot" unfolding ex_boot_def by (rule ep_boot)
  have rx: "ep_reach ex_env (rx_at ex_env t bs s)" if "ep_reach ex_env s" for t bs s
  proof -
    have "ep_reach ex_env (s\<lparr>zs := (zs s)\<lparr>clock_time := t\<rparr>\<rparr>)" using that by (rule ep_next) (rule ep_other)
    from ep_next [OF this ep_rx [of ex_env _ "frame_of bs"]]
    moreover have "s\<lparr>zs := (zs s)\<lparr>clock_time := t\<rparr>, uart_rx_buf := frame_of bs\<rparr> =
        s\<lparr>uart_rx_buf := frame_of bs, zs := (zs s)\<lparr>clock_time := t\<rparr>\<rparr>" by simp
    ultimately have "ep_reach ex_env (uart_rx_cb (s\<lparr>uart_rx_buf := frame_of bs, zs := (zs s)\<lparr>clock_time := t\<rparr>\<rparr>))"
      by (simp only:)
    then show ?thesis unfolding rx_at_def by (rule ep_next) (rule ep_task)
  qed
  show ?thesis unfolding ex_run_def ex_polled_def using b by (intro rx ep_next [OF b ep_poll])
qed

lemma rx_at_3_pub:
  assumes "s_ep_state s = EP_STATE_WAIT_RSP3" "rsp_ok EP_READ3_COUNT (lview bs (\<lambda>_. 0)) (of_nat (length bs))"
    "length bs \<le> 124" "(t - s_req_time s) div CLOCK_1MS \<le> 500"
  shows "T_pub (rx_at env t bs s) \<noteq> []"
proof -
  let ?s = "s\<lparr>uart_rx_buf := frame_of bs, zs := (zs s)\<lparr>clock_time := t\<rparr>, uart_rx_flag := False\<rparr>"
  have "T_pub (rx_live env (lview bs (\<lambda>_. 0)) (of_nat (length bs)) ?s) \<noteq> []"
    using assms(1,2) by (simp add: rx_live_def epever_parse_rsp3_def Let_def ep_fields)
  then show ?thesis
    unfolding rx_at_def app_task_def
    using rx_live_task [OF assms(2,3) _ assms(4)] assms(1) by (simp add: waiting_def timeout_poll_frame)
qed

lemma ex_run_pub: "T_pub ex_run \<noteq> []"
proof -
  have 0: "s_ep_state ex_polled = EP_STATE_WAIT_RSP1" "s_req_time ex_polled = 0"
    using ex_boot_now by (simp_all add: ex_polled_def epever_poll_timer_cb_def Let_def epever_send_req_def modbus_send_def
        uart_dma_send_def uart_recbuff_init_def ex_state_def)
  have "(16000 - s_req_time ex_polled) div CLOCK_1MS \<le> 500" by (simp add: 0 CLOCK_1MS_def)
  note 1 = rx_at_1 [OF 0(1) ex_frames_ok(1,2) this, of ex_env]
  have "(32000 - s_req_time (rx_at ex_env 16000 ex_f1 ex_polled)) div CLOCK_1MS \<le> 500" by (simp add: 1 CLOCK_1MS_def)
  note 2 = rx_at_2 [OF conjunct1 [OF 1] ex_frames_ok(3,4) this, of ex_env]
  have "(48000 - s_req_time (rx_at ex_env 32000 ex_f2 (rx_at ex_env 16000 ex_f1 ex_polled))) div CLOCK_1MS \<le> 500"
    by (simp add: 2 CLOCK_1MS_def)
  from rx_at_3_pub [OF conjunct1 [OF 2] ex_frames_ok(5,6) this, of ex_env] show ?thesis by (simp add: ex_run_def)
qed

lemma published_whole_cycles_witness:
  "\<exists>d \<in> set (T_pub ex_run). \<exists>post pre b1 l1 b2 l2 b3 l3. T_ok ex_run = post @ [(EP_STATE_WAIT_RSP3, b3, l3),
     (EP_STATE_WAIT_RSP2, b2, l2), (EP_STATE_WAIT_RSP1, b1, l1)] @ pre \<and> rsp_ok EP_READ1_COUNT b1 l1"
proof -
  obtain d where d: "d \<in> set (T_pub ex_run)" using ex_run_pub by (cases "T_pub ex_run") auto
  from published_whole_cycles [OF ex_run_reach d] d show ?thesis by blast
qed

lemma polling_goes_on_witness: "5000 \<le> fst (epever_poll_timer_cb ex_run)"
  using polling_goes_on [OF ex_run_reach] by blast


lemma readings_lossy_witness:
  "cast_s16 (f_mul (reg_f (53 :: u16)) 100) = 52 \<and>
   sint (solarPower (attrs_of (poll_data0\<lparr>valid := True, solar_pow := reg_f (40000 :: u32)\<rparr>))) < 0"
  using readings_lossy [of "53 :: u16" poll_data0]
    readings_lossy [of "40000 :: u32" "poll_data0\<lparr>valid := True, solar_pow := reg_f (40000 :: u32)\<rparr>"]
  by simp

lemma waits_end_witness:
  "s_ep_state (app_task ex_env (ex_boot\<lparr>s_ep_state := EP_STATE_WAIT_RSP2, s_req_time := 0xFF000000\<rparr>)) = EP_STATE_IDLE"
proof -
  let ?s = "ex_boot\<lparr>s_ep_state := EP_STATE_WAIT_RSP2, s_req_time := 0xFF000000\<rparr>"
  have "elapsed_ms ?s > EP_RSP_TIMEOUT_MS"
    using ex_boot_now by (simp add: elapsed_ms_def EP_RSP_TIMEOUT_MS_def CLOCK_1MS_def ex_state_def)
  from waits_end [OF _ this, of ex_env] show ?thesis by (simp add: waiting_def)
qed

end
