(* ===== verification/Juntek.thy ===== *)
theory Juntek
  imports App_Report
begin

text \<open>
  The monitor of the Juntek battery shunt, \<^verbatim>\<open>apps/juntekBMS\<close>: the line assembler, the parser of the
  \<^verbatim>\<open>:r50\<close> lines and its number conversion, the three stages of the filter
  (\<^verbatim>\<open>juntekMonitor.c\<close>), and the attributes it publishes (\<^verbatim>\<open>juntekEpCfg.c\<close>).

  A C string is the list of its bytes before the NUL. \<^verbatim>\<open>int\<close> has 32 bits; the width of
  \<^verbatim>\<open>long\<close> is a parameter of the conversion, 32 on the chip. Signed overflow is a flag, which ends up
  in the \<open>ub\<close> flag of the state. The configuration of the filter is a value of the state:
  it can be written through its attributes.
\<close>

subsection \<open>Numbers\<close>

definition wrap :: "nat \<Rightarrow> int \<Rightarrow> int" where
  \<comment> \<open>a signed integer of \<open>w\<close> bits\<close>
  "wrap w n = (n + 2 ^ (w - 1)) mod 2 ^ w - 2 ^ (w - 1)"

definition is_digit :: "u8 \<Rightarrow> bool" where
  "is_digit c \<longleftrightarrow> 48 \<le> c \<and> c \<le> 57"

text \<open>The loop over the digits. The accumulator is a \<^verbatim>\<open>long\<close> of \<open>lw\<close> bits; the flag says that a
  signed operation overflowed. The comparison with \<^verbatim>\<open>2147483648L\<close> is one of wider
  integers when \<^verbatim>\<open>long\<close> has 32 bits.\<close>

fun atoi_loop :: "nat \<Rightarrow> bool \<Rightarrow> bytes \<Rightarrow> int \<Rightarrow> bool \<Rightarrow> int \<times> bool" where
  "atoi_loop lw neg [] res ovf =
     (let r = (if neg then - res else res) in (wrap 32 r, ovf \<or> \<not> in_width lw r))"
| "atoi_loop lw neg (c # cs) res ovf =
     (if \<not> is_digit c then
        let r = (if neg then - res else res) in (wrap 32 r, ovf \<or> \<not> in_width lw r)
      else
        let x = res * 10 + (uint c - 48); res' = wrap lw x; ovf' = ovf \<or> \<not> in_width lw x in
        if \<not> neg \<and> res' > 2147483647 then (2147483647, ovf')
        else if neg \<and> res' > 2147483648 then (-2147483648, ovf')
        else atoi_loop lw neg cs res' ovf')"

definition juntek_atoi :: "nat \<Rightarrow> bytes \<Rightarrow> int \<times> bool" where
  \<comment> \<open>a string is the list of the bytes before its NUL\<close>
  "juntek_atoi lw str =
     (let p = dropWhile (\<lambda>c. c = 32 \<or> c = 9) str in
      case p of
        [] \<Rightarrow> atoi_loop lw False [] 0 False
      | c # cs \<Rightarrow> (if c = 45 then atoi_loop lw True cs 0 False
                  else if c = 43 then atoi_loop lw False cs 0 False
                  else atoi_loop lw False p 0 False))"

definition LONG_BITS :: nat where "LONG_BITS = 32"

subsection \<open>Lines\<close>

record juntek_data_t =
  voltage :: rat
  current :: rat
  power :: rat
  remain_ah :: rat
  temperature :: rat
  elapsed_min :: int
  relay :: int
  j_valid :: bool

definition juntek_data0 :: juntek_data_t where
  "juntek_data0 = \<lparr>voltage = 0, current = 0, power = 0, remain_ah = 0, temperature = 0, elapsed_min = 0,
     relay = 0, j_valid = False\<rparr>"

fun cmd_scan :: "bytes \<Rightarrow> bytes \<Rightarrow> bytes" where
  \<comment> \<open>the characters before the equals sign, without slashes, at most seven\<close>
  "cmd_scan [] cmd = cmd"
| "cmd_scan (c # cs) cmd = (if c = 61 \<or> length cmd \<ge> 7 then cmd
     else cmd_scan cs (if c \<noteq> 47 then cmd @ [c] else cmd))"

text \<open>The fields: at most 17 of them, each cut to 19 characters. The field in work is the second
  result.\<close>

fun tok_scan :: "bytes \<Rightarrow> bytes \<Rightarrow> bytes list \<Rightarrow> bytes list \<times> bytes" where
  "tok_scan [] tok toks = (toks, tok)"
| "tok_scan (c # cs) tok toks =
     (if length toks \<ge> 17 then (toks, tok)
      else if c = 44 \<or> c = 13 \<or> c = 10 then
        (if c = 13 \<or> c = 10 then (toks @ [tok], []) else tok_scan cs [] (toks @ [tok]))
      else tok_scan cs (if length tok < 19 then tok @ [c] else tok) toks)"

definition r50_tokens :: "bytes \<Rightarrow> bytes list" where
  "r50_tokens s = (let (toks, tok) = tok_scan s [] [] in
     if tok \<noteq> [] \<and> length toks < 17 then toks @ [tok] else toks)"

text \<open>The values of the fields; the flag says that a conversion overflowed.\<close>

definition r50_values :: "nat \<Rightarrow> bytes list \<Rightarrow> juntek_data_t \<times> bool" where
  "r50_values lw toks =
     (let a = (\<lambda>i. fst (juntek_atoi lw (toks ! i)));
          v = f_div (f_of_int (a 2)) 100;
          c0 = f_div (f_of_int (a 3)) 100;
          c = (if a 11 < 1 then - c0 else c0) in
      (\<lparr>voltage = v, current = c, power = f_mul v c, remain_ah = f_div (f_of_int (a 4)) 1000,
        temperature = f_sub (f_of_int (a 8)) 100, elapsed_min = a 12, relay = a 11, j_valid = True\<rparr>,
       list_ex (\<lambda>i. snd (juntek_atoi lw (toks ! i))) [2, 3, 4, 8, 11, 12]))"

definition juntek_parse_r50 :: "nat \<Rightarrow> bytes \<Rightarrow> juntek_data_t \<Rightarrow> juntek_data_t \<times> bool" where
  "juntek_parse_r50 lw line out =
     (let out0 = out\<lparr>j_valid := False\<rparr>;
          p = dropWhile (\<lambda>c. c \<noteq> 58) line;
          eq = dropWhile (\<lambda>c. c \<noteq> 61) p;
          cmd = cmd_scan p [] in
      if p = [] \<or> eq = [] then (out0, False)
      else if length cmd < 3 \<or> take 4 cmd \<noteq> [58, 114, 53, 48] then (out0, False)
      else
        let toks = r50_tokens (tl eq) in
        if length toks < 13 then (out0, False) else r50_values lw toks)"

subsection \<open>The filter\<close>

record bms_filter_t =
  f_buf :: "rat list"
  f_idx :: nat
  f_filled :: bool
  f_last :: rat
  f_initialized :: bool

definition BMS_FILTER_N :: nat where "BMS_FILTER_N = 4"

definition filter0 :: bms_filter_t where
  "filter0 = \<lparr>f_buf = [0, 0, 0, 0], f_idx = 0, f_filled = False, f_last = 0, f_initialized = False\<rparr>"

definition filter_avg :: "bms_filter_t \<Rightarrow> rat \<Rightarrow> rat \<times> bms_filter_t" where
  "filter_avg f v =
     (let f1 = f\<lparr>f_buf := (f_buf f)[f_idx f := v], f_idx := (f_idx f + 1) mod BMS_FILTER_N\<rparr>;
          f2 = (if f_idx f1 = 0 then f1\<lparr>f_filled := True\<rparr> else f1);
          n = (if f_filled f2 then BMS_FILTER_N else if f_idx f2 \<noteq> 0 then f_idx f2 else 1);
          sum = foldl f_add 0 (take n (f_buf f2)) in
      (f_div sum (f_of_int (int n)), f2))"

record juntek_filter_cfg_t =
  volt_min :: rat
  volt_max :: rat
  curr_min :: rat
  curr_max :: rat
  temp_min :: rat
  temp_max :: rat
  ah_max :: rat
  volt_rate :: rat
  curr_rate :: rat
  temp_rate :: rat

definition filter_cfg_dft :: juntek_filter_cfg_t where
  "filter_cfg_dft = \<lparr>volt_min = 9, volt_max = f32 (156 / 10), curr_min = -210, curr_max = 130,
     temp_min = -20, temp_max = 60, ah_max = 265, volt_rate = 1 / 2, curr_rate = 80, temp_rate = 2\<rparr>"

record bms_filters =
  f_voltage :: bms_filter_t
  f_current :: bms_filter_t
  f_temperature :: bms_filter_t
  f_remain_ah :: bms_filter_t

definition in_range :: "juntek_filter_cfg_t \<Rightarrow> juntek_data_t \<Rightarrow> bool" where
  "in_range c d \<longleftrightarrow>
     \<not> (voltage d < volt_min c \<or> voltage d > volt_max c) \<and>
     \<not> (current d < curr_min c \<or> current d > curr_max c) \<and>
     \<not> (temperature d < temp_min c \<or> temperature d > temp_max c) \<and>
     \<not> (remain_ah d < 0 \<or> remain_ah d > ah_max c)"

definition bms_fabsf :: "rat \<Rightarrow> rat" where
  "bms_fabsf v = (if v < 0 then - v else v)"

definition no_spike :: "juntek_filter_cfg_t \<Rightarrow> bms_filters \<Rightarrow> juntek_data_t \<Rightarrow> bool" where
  "no_spike c f d \<longleftrightarrow> f_initialized (f_voltage f) \<longrightarrow>
     \<not> bms_fabsf (f_sub (voltage d) (f_last (f_voltage f))) > volt_rate c \<and>
     \<not> bms_fabsf (f_sub (current d) (f_last (f_current f))) > curr_rate c \<and>
     \<not> bms_fabsf (f_sub (temperature d) (f_last (f_temperature f))) > temp_rate c"

definition settle :: "rat \<Rightarrow> bms_filter_t \<Rightarrow> bms_filter_t" where
  "settle v f = f\<lparr>f_last := v, f_initialized := True\<rparr>"

definition bms_filter_apply ::
  "juntek_filter_cfg_t \<Rightarrow> bms_filters \<Rightarrow> juntek_data_t \<Rightarrow> (juntek_data_t \<times> bms_filters) option" where
  \<comment> \<open>\<open>None\<close>: the sample is rejected, nothing has changed\<close>
  "bms_filter_apply c f d =
     (if \<not> in_range c d then None
      else if \<not> no_spike c f d then None
      else
        let (v, fv) = filter_avg (f_voltage f) (voltage d);
            (a, fa) = filter_avg (f_current f) (current d);
            (t, ft) = filter_avg (f_temperature f) (temperature d);
            (r, fr) = filter_avg (f_remain_ah f) (remain_ah d) in
        Some (d\<lparr>voltage := v, current := a, temperature := t, remain_ah := r, power := f_mul v a\<rparr>,
              \<lparr>f_voltage = settle v fv, f_current = settle a fa, f_temperature = settle t ft,
               f_remain_ah = settle r fr\<rparr>))"

subsection \<open>Publishing\<close>

record juntek_attrs_t =
  jVoltage :: u16
  jCurrent :: u16
  jPower :: u16
  jTemp :: u16
  jRelay :: bool
  jSummation :: bytes
  jAnalog :: rat

definition ZCL_CLUSTER_GEN_BINARY_INPUT_BASIC :: u16 where "ZCL_CLUSTER_GEN_BINARY_INPUT_BASIC = 0x000F"
definition ZCL_CLUSTER_SE_METERING :: u16 where "ZCL_CLUSTER_SE_METERING = 0x0702"

definition cast_word :: "rat \<Rightarrow> 'a::len word" where
  \<comment> \<open>a cast to an unsigned type\<close>
  "cast_word x = of_int (f_trunc x)"

definition unsigned_ok :: "nat \<Rightarrow> rat \<Rightarrow> bool" where
  "unsigned_ok w x \<longleftrightarrow> 0 \<le> f_trunc x \<and> f_trunc x < 2 ^ w"

definition cur_abs :: "juntek_data_t \<Rightarrow> rat" where
  "cur_abs d = (if current d < 0 then - current d else current d)"

definition juntek_attrs_of :: "juntek_data_t \<Rightarrow> juntek_attrs_t" where
  "juntek_attrs_of d =
     (let mAh = cast_word (f_mul (remain_ah d) 1000) :: u32 in
      \<lparr>jVoltage = cast_word (f_mul (voltage d) 100), jCurrent = cast_word (f_mul (cur_abs d) 100),
       jPower = cast_s16 (power d), jTemp = cast_s16 (f_mul (temperature d) 100),
       jRelay = (relay d = 1),
       jSummation = map (\<lambda>i. ucast (drop_bit (8 * i) mAh)) [0..<4] @ [0, 0],
       jAnalog = f_of_int (elapsed_min d)\<rparr>)"

definition casts_ok :: "juntek_data_t \<Rightarrow> bool" where
  "casts_ok d \<longleftrightarrow> unsigned_ok 16 (f_mul (voltage d) 100) \<and> unsigned_ok 16 (f_mul (cur_abs d) 100) \<and>
     s16_ok (power d) \<and> s16_ok (f_mul (temperature d) 100) \<and> unsigned_ok 32 (f_mul (remain_ah d) 1000)"

definition juntek_reports :: "juntek_attrs_t \<Rightarrow> (u8 \<times> u16 \<times> u16 \<times> u8 \<times> bytes) list" where
  "juntek_reports a =
     elec_reports 1 (jVoltage a) (jCurrent a) (jPower a) @
     [(2, ZCL_CLUSTER_MS_TEMPERATURE_MEASUREMENT, ATTRID_TEMP_MEAS_VAL, ZCL_DATA_TYPE_INT16, u16_bytes (jTemp a)),
      (3, ZCL_CLUSTER_GEN_BINARY_INPUT_BASIC, 0x0055, ZCL_DATA_TYPE_BOOLEAN, [if jRelay a then 1 else 0]),
      (4, ZCL_CLUSTER_SE_METERING, 0x0000, ZCL_DATA_TYPE_UINT48, jSummation a),
      (5, ZCL_CLUSTER_GEN_ANALOG_INPUT_BASIC, ATTRID_ANALOG_PRESENT_VALUE, ZCL_DATA_TYPE_SINGLE_PREC,
       f32_bytes (jAnalog a))]"

record j_st =
  j_zs :: zst
  j_rx_flag :: bool
  j_rx_buf :: view
  s_line :: bytes
  filters :: bms_filters
  g_juntek_filterCfg :: juntek_filter_cfg_t
  j_attrs :: juntek_attrs_t
  j_last_report_tick :: u32
  T_rxinit :: nat
  T_shown :: "juntek_data_t list"

definition juntek_attrs_update :: "zenv \<Rightarrow> juntek_data_t \<Rightarrow> j_st \<Rightarrow> j_st" where
  "juntek_attrs_update env d s =
     (if \<not> j_valid d then s
      else
        let s1 = s\<lparr>j_attrs := juntek_attrs_of d, T_shown := d # T_shown s,
                   j_zs := (j_zs s)\<lparr>ub := ub (j_zs s) \<or> \<not> casts_ok d\<rparr>\<rparr>;
            t = clock_time (j_zs s1) in
        if j_last_report_tick s1 = 0 \<or> t - j_last_report_tick s1 \<ge> 5 * 1000 * CLOCK_1MS
        then s1\<lparr>j_last_report_tick := t, j_zs := fold (app_report env) (juntek_reports (j_attrs s1)) (j_zs s1)\<rparr>
        else s1)"

definition juntek_r50_process :: "zenv \<Rightarrow> juntek_data_t \<Rightarrow> j_st \<Rightarrow> j_st" where
  "juntek_r50_process env d s =
     (case bms_filter_apply (g_juntek_filterCfg s) (filters s) d of
        None \<Rightarrow> s
      | Some (d', f) \<Rightarrow> juntek_attrs_update env d' (s\<lparr>filters := f\<rparr>))"

subsection \<open>Lines from bytes\<close>

definition LINE_BUF_SIZE :: nat where "LINE_BUF_SIZE = 200"

definition end_of_line :: "zenv \<Rightarrow> j_st \<Rightarrow> j_st" where
  "end_of_line env s =
     (if s_line s \<noteq> [] then
        let (d, ovf) = juntek_parse_r50 LONG_BITS (takeWhile (\<lambda>c. c \<noteq> 0) (s_line s)) juntek_data0;
            s1 = s\<lparr>j_zs := (j_zs s)\<lparr>ub := ub (j_zs s) \<or> ovf\<rparr>\<rparr>;
            s2 = (if j_valid d then juntek_r50_process env d s1 else s1) in
        s2\<lparr>s_line := []\<rparr>
      else s)"

definition rx_byte :: "zenv \<Rightarrow> u8 \<Rightarrow> j_st \<Rightarrow> j_st" where
  "rx_byte env c s =
     (if c = 10 \<or> c = 13 then end_of_line env s
      else if length (s_line s) < LINE_BUF_SIZE - 1 then s\<lparr>s_line := s_line s @ [c]\<rparr>
      else s\<lparr>s_line := []\<rparr>)"

definition j_rx_poll :: "zenv \<Rightarrow> j_st \<Rightarrow> j_st" where
  "j_rx_poll env s =
     (if \<not> j_rx_flag s then s
      else
        let s1 = s\<lparr>j_rx_flag := False\<rparr>;
            len = BUILD_U16 (j_rx_buf s 0) (j_rx_buf s 1);
            s2 = (if len = 0 \<or> unat len > 128 - 4 then s1
                  else fold (rx_byte env) (vtake (unat len) (vdrop 4 (j_rx_buf s))) s1) in
        s2\<lparr>T_rxinit := T_rxinit s2 + 1\<rparr>)"

subsection \<open>Decimal numbers\<close>

text \<open>The specification: how the battery monitor prints a number.\<close>

fun dec :: "nat \<Rightarrow> bytes" where
  "dec n = (if n < 10 then [of_nat (48 + n)] else dec (n div 10) @ [of_nat (48 + n mod 10)])"

declare dec.simps [simp del]

definition dec_int :: "int \<Rightarrow> bytes" where
  "dec_int x = (if x < 0 then 45 # dec (nat (- x)) else dec (nat x))"

definition digits_val :: "bytes \<Rightarrow> int" where
  "digits_val ds = foldl (\<lambda>r c. r * 10 + (uint c - 48)) 0 ds"

lemma digit_byte: "n < 10 \<Longrightarrow> uint (of_nat (48 + n) :: u8) = 48 + int n \<and> is_digit (of_nat (48 + n))"
proof -
  assume n: "n < 10"
  have "uint (of_nat (48 + n) :: u8) = 48 + int n"
    unfolding uint_nat [symmetric] using n by (simp add: unsigned_of_nat take_bit_nat_eq_self del: of_nat_add)
  then show ?thesis using n by (simp add: is_digit_def word_le_def)
qed

lemma dec_digits: "\<forall>c \<in> set (dec n). is_digit c" "dec n \<noteq> []"
proof (induction n rule: dec.induct)
  case (1 n)
  have r: "dec n = (if n < 10 then [of_nat (48 + n)] else dec (n div 10) @ [of_nat (48 + n mod 10)])"
    by (subst dec.simps) simp
  { case 1 show ?case using "1.IH"(1) digit_byte [of n] digit_byte [of "n mod 10"] unfolding r by auto }
  { case 2 show ?case unfolding r by simp }
qed

lemma dec_val: "digits_val (dec n) = int n"
proof (induction n rule: dec.induct)
  case (1 n)
  have r: "dec n = (if n < 10 then [of_nat (48 + n)] else dec (n div 10) @ [of_nat (48 + n mod 10)])"
    by (subst dec.simps) simp
  show ?case
    using 1 digit_byte [of n] digit_byte [of "n mod 10"] unfolding r
    by (auto simp: digits_val_def zdiv_int zmod_int simp del: of_nat_add)
qed

lemma digits_val_snoc_mono:
  "\<forall>c \<in> set cs. is_digit c \<Longrightarrow> 0 \<le> r \<Longrightarrow> r \<le> foldl (\<lambda>r c. r * 10 + (uint c - 48)) r cs"
proof (induction cs arbitrary: r)
  case (Cons c cs)
  then have "48 \<le> uint c" by (simp add: is_digit_def word_le_def)
  then show ?case using Cons.IH [of "r * 10 + (uint c - 48)"] Cons.prems by simp
qed simp

lemma wrap_id: "in_width w n \<Longrightarrow> 0 < w \<Longrightarrow> wrap w n = n"
proof -
  assume h: "in_width w n" "0 < w"
  then have "2 ^ w = 2 * (2 :: int) ^ (w - 1)" by (cases w) simp_all
  then show ?thesis using h by (simp add: wrap_def in_width_def mod_pos_pos_trivial)
qed

lemma in_width_mono: "in_width 32 n \<Longrightarrow> 32 \<le> w \<Longrightarrow> in_width w n"
proof -
  assume "in_width 32 n" "32 \<le> w"
  moreover from this have "(2 :: int) ^ 31 \<le> 2 ^ (w - 1)" by (intro power_increasing) auto
  ultimately show ?thesis by (simp add: in_width_def)
qed

lemma atoi_loop_exact:
  assumes "\<forall>c \<in> set ds. is_digit c" "0 \<le> res" "foldl (\<lambda>r c. r * 10 + (uint c - 48)) res ds < 2147483648"
    "32 \<le> lw" "cs = [] \<or> \<not> is_digit (hd cs)"
  shows "atoi_loop lw neg (ds @ cs) res ovf =
    (let r = foldl (\<lambda>r c. r * 10 + (uint c - 48)) res ds in (if neg then - r else r, ovf))"
  using assms(1-3)
proof (induction ds arbitrary: res)
  case Nil
  have "in_width 32 res" "in_width 32 (- res)" using Nil by (simp_all add: in_width_def)
  note w = in_width_mono [OF this(1) assms(4)] in_width_mono [OF this(2) assms(4)]
    wrap_id [OF this(1) zero_less_numeral] wrap_id [OF this(2) zero_less_numeral]
  have "in_width lw (if neg then - res else res)" "wrap 32 (if neg then - res else res) = (if neg then - res else res)"
    using w by (cases neg; simp only: if_True if_False)+
  then show ?case using assms(5)
    by (cases cs) (simp_all only: append_Nil atoi_loop.simps Let_def list.sel list.distinct simp_thms if_True foldl_Nil)
next
  case (Cons d ds)
  let ?x = "res * 10 + (uint d - 48)"
  have d: "is_digit d" "48 \<le> uint d" using Cons.prems by (simp_all add: is_digit_def word_le_def)
  have x: "0 \<le> ?x" "?x < 2147483648"
    using d Cons.prems digits_val_snoc_mono [of ds ?x] by simp_all
  then have "in_width 32 ?x" by (simp add: in_width_def)
  then have w: "in_width lw ?x" using assms(4) by (rule in_width_mono)
  have "wrap lw ?x = ?x" using wrap_id [OF w] assms(4) by simp
  then show ?case using Cons.IH [of ?x] Cons.prems d x w by (simp add: Let_def)
qed

lemma juntek_atoi_dec:
  assumes "\<bar>x\<bar> < 2147483648" "32 \<le> lw" "cs = [] \<or> \<not> is_digit (hd cs)"
  shows "juntek_atoi lw (dec_int x @ cs) = (x, False)"
proof -
  have nsp: "\<not> is_digit 32" "\<not> is_digit 9" "\<not> is_digit 45" "\<not> is_digit 43" by (simp_all add: is_digit_def)
  have val: "foldl (\<lambda>r c. r * 10 + (uint c - 48)) 0 (dec n) = int n" for n
    using dec_val [of n] by (simp add: digits_val_def)
  have loop: "atoi_loop lw neg (dec n @ cs) 0 False = (if neg then - int n else int n, False)"
    if "n < 2147483648" for neg n
    using atoi_loop_exact [OF dec_digits(1) order.refl _ assms(2,3), of n neg False] that
    by (simp add: val Let_def)
  obtain c ds where h: "dec (nat x) = c # ds" using dec_digits(2) by (cases "dec (nat x)") auto
  have c: "c \<noteq> 32" "c \<noteq> 9" "c \<noteq> 45" "c \<noteq> 43" using dec_digits(1) [of "nat x"] h nsp by auto
  show ?thesis
  proof (cases "x < 0")
    case True
    then show ?thesis using loop [of "nat (- x)" True] assms(1) by (simp add: juntek_atoi_def dec_int_def)
  next
    case False
    then show ?thesis using loop [of "nat x" False] assms(1) c h
      by (simp add: juntek_atoi_def dec_int_def)
  qed
qed

subsection \<open>Lines, printed and parsed\<close>

definition join :: "bytes list \<Rightarrow> bytes" where
  "join toks = concat (map (\<lambda>t. t @ [44]) toks)"

definition r50_line :: "int list \<Rightarrow> bytes" where
  \<comment> \<open>what the battery monitor sends, each field followed by a comma\<close>
  "r50_line xs = [58, 114, 53, 48, 61] @ join (map dec_int xs)"

definition plain :: "u8 \<Rightarrow> bool" where
  "plain c \<longleftrightarrow> c \<noteq> 44 \<and> c \<noteq> 13 \<and> c \<noteq> 10"

lemma tok_scan_plain:
  "\<forall>c \<in> set t. plain c \<Longrightarrow> length tok + length t \<le> 19 \<Longrightarrow> length toks < 17 \<Longrightarrow>
   tok_scan (t @ rest) tok toks = tok_scan rest (tok @ t) toks"
  by (induction t arbitrary: tok) (auto simp: plain_def)

lemma tok_scan_join:
  assumes "\<forall>t \<in> set ts. (\<forall>c \<in> set t. plain c) \<and> length t \<le> 19" "length toks + length ts \<le> 17"
  shows "tok_scan (join ts) [] toks = (toks @ ts, [])"
  using assms
proof (induction ts arbitrary: toks)
  case (Cons t ts)
  have "tok_scan (join (t # ts)) [] toks = tok_scan (t @ (44 # join ts)) [] toks" by (simp add: join_def)
  also have "\<dots> = tok_scan (44 # join ts) ([] @ t) toks" by (rule tok_scan_plain) (use Cons.prems in auto)
  also have "\<dots> = tok_scan (join ts) [] (toks @ [t])" using Cons.prems by simp
  finally show ?case using Cons.IH [of "toks @ [t]"] Cons.prems by simp
qed (simp add: join_def)

lemma dec_length: "n < 10 ^ k \<Longrightarrow> 0 < k \<Longrightarrow> length (dec n) \<le> k"
proof (induction n arbitrary: k rule: dec.induct)
  case (1 n)
  show ?case
  proof (cases "n < 10")
    case False
    then obtain j where j: "k = Suc j" "0 < j" using 1(2,3) by (cases k; cases "k - 1") auto
    then have "n div 10 < 10 ^ j" using 1(2) by (simp add: less_mult_imp_div_less mult.commute)
    then show ?thesis using 1(1) [OF False] j by (subst dec.simps) (simp add: False)
  qed (use 1 in \<open>subst dec.simps; simp\<close>)
qed

lemma dec_int_token:
  assumes "\<bar>x\<bar> < 2147483648"
  shows "\<forall>c \<in> set (dec_int x). plain c" "length (dec_int x) \<le> 19"
proof -
  have "plain c" if "is_digit c" for c using that by (auto simp: is_digit_def plain_def word_le_nat_alt)
  then show "\<forall>c \<in> set (dec_int x). plain c" using dec_digits(1) by (auto simp: dec_int_def plain_def)
  have "length (dec n) \<le> 10" if "n < 2147483648" for n using that by (intro dec_length) simp_all
  moreover have "nat (- x) < 2147483648" "nat x < 2147483648" using assms by linarith+
  ultimately have "length (dec (nat (- x))) \<le> 10" "length (dec (nat x)) \<le> 10" by blast+
  then show "length (dec_int x) \<le> 19"
    by (simp add: dec_int_def)
qed

lemma r50_tokens_line:
  assumes "\<forall>x \<in> set xs. \<bar>x\<bar> < 2147483648" "length xs \<le> 17"
  shows "r50_tokens (join (map dec_int xs)) = map dec_int xs"
proof -
  have "tok_scan (join (map dec_int xs)) [] [] = ([] @ map dec_int xs, [])"
    by (rule tok_scan_join) (use assms dec_int_token in auto)
  then show ?thesis by (simp add: r50_tokens_def)
qed

text \<open>C24. A line of the battery monitor is read back exactly. From a line with 13 to 17 decimal
  fields the parser takes the six values it needs, whatever their sign, the discharge current
  negative; no conversion overflows.\<close>

theorem juntek_line_roundtrip:
  assumes "\<forall>x \<in> set xs. \<bar>x\<bar> < 2147483648" "13 \<le> length xs" "length xs \<le> 17" "32 \<le> lw"
  shows "\<exists>d. juntek_parse_r50 lw (r50_line xs) out = (d, False) \<and> j_valid d \<and>
    voltage d = f_div (f_of_int (xs ! 2)) 100 \<and>
    current d = (if xs ! 11 < 1 then - f_div (f_of_int (xs ! 3)) 100 else f_div (f_of_int (xs ! 3)) 100) \<and>
    remain_ah d = f_div (f_of_int (xs ! 4)) 1000 \<and> temperature d = f_sub (f_of_int (xs ! 8)) 100 \<and>
    relay d = xs ! 11 \<and> elapsed_min d = xs ! 12 \<and> power d = f_mul (voltage d) (current d)"
proof -
  have a: "juntek_atoi lw (map dec_int xs ! i) = (xs ! i, False)" if "i < 13" for i
    using juntek_atoi_dec [of "xs ! i" lw "[]"] assms that by simp
  have p: "dropWhile (\<lambda>c. c \<noteq> 58) (r50_line xs) = r50_line xs" "r50_line xs \<noteq> []"
    by (simp_all add: r50_line_def)
  have e: "dropWhile (\<lambda>c. c \<noteq> 61) (r50_line xs) = 61 # join (map dec_int xs)"
    by (simp add: r50_line_def)
  have c: "cmd_scan (r50_line xs) [] = [58, 114, 53, 48]" by (simp add: r50_line_def)
  have "juntek_parse_r50 lw (r50_line xs) out = r50_values lw (map dec_int xs)"
    using r50_tokens_line [OF assms(1,3)] p assms(2)
    unfolding juntek_parse_r50_def p(1) e c Let_def by simp
  then show ?thesis by (simp add: r50_values_def a Let_def)
qed

subsection \<open>Overflow\<close>

lemma atoi_loop_ovf: "snd (atoi_loop lw neg cs res True)"
  by (induction cs arbitrary: res neg) (simp_all add: Let_def)

lemma wrap32_less: "wrap 32 n \<le> 2147483647"
  using pos_mod_bound [of "2 ^ 32" "n + 2 ^ 31"] by (simp add: wrap_def)

lemma atoi_loop_32:
  assumes "\<forall>c \<in> set ds. is_digit c" "0 \<le> res" "res < 2147483648"
    "2147483648 \<le> foldl (\<lambda>r c. r * 10 + (uint c - 48)) res ds"
  shows "snd (atoi_loop 32 neg ds res ovf)"
  using assms
proof (induction ds arbitrary: res ovf)
  case (Cons d ds)
  let ?x = "res * 10 + (uint d - 48)"
  have d: "is_digit d" "48 \<le> uint d" using Cons.prems by (simp_all add: is_digit_def word_le_def)
  have x: "0 \<le> ?x" using d Cons.prems by simp
  have r: "atoi_loop 32 neg (d # ds) res ovf =
      atoi_loop 32 neg ds (wrap 32 ?x) (ovf \<or> \<not> in_width 32 ?x)"
    using d wrap32_less [of ?x] by (simp add: Let_def not_less)
  show ?case
  proof (cases "?x < 2147483648")
    case True
    then have "in_width 32 ?x" using x by (simp add: in_width_def)
    then show ?thesis using r wrap_id [of 32 ?x] Cons.IH [OF _ x True] Cons.prems by simp
  next
    case False
    then have "\<not> in_width 32 ?x" by (simp add: in_width_def)
    then show ?thesis using r atoi_loop_ovf by simp
  qed
qed simp

lemma atoi_loop_64:
  assumes "\<forall>c \<in> set ds. is_digit c" "0 \<le> res" "res < 2147483648"
    "2147483648 \<le> foldl (\<lambda>r c. r * 10 + (uint c - 48)) res ds"
  shows "atoi_loop 64 False ds res False = (2147483647, False)"
  using assms
proof (induction ds arbitrary: res)
  case (Cons d ds)
  let ?x = "res * 10 + (uint d - 48)"
  have d: "is_digit d" "48 \<le> uint d" "uint d \<le> 57" using Cons.prems by (simp_all add: is_digit_def word_le_def)
  have x: "0 \<le> ?x" using d Cons.prems by simp
  have iw: "in_width 64 ?x" using x d Cons.prems by (simp add: in_width_def)
  then have w: "wrap 64 ?x = ?x" using wrap_id by simp
  show ?case
  proof (cases "?x < 2147483648")
    case True
    then show ?thesis using w iw d Cons.IH [OF _ x True] Cons.prems by (simp add: Let_def)
  next
    case False
    then show ?thesis using w iw d by (simp add: Let_def)
  qed
qed simp

text \<open>Large fields overflow instead of saturating. A field of at least \<open>2\<^sup>3\<^sup>1\<close>, which the
  comment of \<^verbatim>\<open>juntek_atoi\<close> says is cut to \<^verbatim>\<open>INT_MAX\<close>, overflows the 32-bit \<^verbatim>\<open>long\<close> of the
  chip, because the comparison that should stop it is never true; with a 64-bit \<^verbatim>\<open>long\<close> the
  function does what the comment says.\<close>

theorem juntek_atoi_overflows:
  assumes "2147483648 \<le> n"
  shows "snd (juntek_atoi LONG_BITS (dec n)) \<and> juntek_atoi 64 (dec n) = (2147483647, False)"
proof -
  have val: "foldl (\<lambda>r c. r * 10 + (uint c - 48)) 0 (dec n) = int n"
    using dec_val [of n] by (simp add: digits_val_def)
  have nsp: "\<not> is_digit 32" "\<not> is_digit 9" "\<not> is_digit 45" "\<not> is_digit 43" by (simp_all add: is_digit_def)
  obtain c ds where h: "dec n = c # ds" using dec_digits(2) by (cases "dec n") auto
  have c: "c \<noteq> 32" "c \<noteq> 9" "c \<noteq> 45" "c \<noteq> 43" using dec_digits(1) [of n] h nsp by auto
  have "juntek_atoi lw (dec n) = atoi_loop lw False (dec n) 0 False" for lw
    using c by (simp add: juntek_atoi_def h)
  then show ?thesis
    using atoi_loop_32 [OF dec_digits(1), of 0 n False False] atoi_loop_64 [OF dec_digits(1), of 0 n] assms val
    by (simp add: LONG_BITS_def)
qed

lemma juntek_atoi_overflows_witness: "snd (juntek_atoi LONG_BITS (dec 4294967297))"
  using juntek_atoi_overflows [of 4294967297] by simp

definition ex_fields :: "int list" where
  "ex_fields = [1, 220, 1331, 250, 200000, 0, 0, 504102, 125, 0, 0, 0, 90, 100]"

lemma juntek_line_roundtrip_witness:
  "\<exists>d. juntek_parse_r50 32 (r50_line ex_fields) juntek_data0 = (d, False) \<and>
     voltage d = f_div (f_of_int 1331) 100 \<and> current d = - f_div (f_of_int 250) 100"
  using juntek_line_roundtrip [of ex_fields 32 juntek_data0] by (auto simp: ex_fields_def)

subsection \<open>The moving average\<close>

definition filter_run :: "rat list \<Rightarrow> bms_filter_t" where
  "filter_run vs = fold (\<lambda>v f. snd (filter_avg f v)) vs filter0"

definition window_inv :: "rat list \<Rightarrow> bms_filter_t \<Rightarrow> bool" where
  "window_inv vs f \<longleftrightarrow> length (f_buf f) = 4 \<and> f_idx f = length vs mod 4 \<and> f_filled f = (4 \<le> length vs) \<and>
     (\<forall>m. m < length vs \<and> length vs \<le> m + 4 \<longrightarrow> f_buf f ! (m mod 4) = vs ! m)"

lemma filter_avg_state:
  "snd (filter_avg f v) = f\<lparr>f_buf := (f_buf f)[f_idx f := v], f_idx := (f_idx f + 1) mod 4,
     f_filled := (f_filled f \<or> (f_idx f + 1) mod 4 = 0)\<rparr>"
  by (auto simp: filter_avg_def Let_def BMS_FILTER_N_def)

lemma mod4_facts:
  "(4 \<le> k \<or> Suc k mod 4 = 0) = (4 \<le> Suc (k :: nat))"
  "0 < k \<Longrightarrow> (if 4 \<le> k then 4 else if k mod 4 \<noteq> 0 then k mod 4 else 1) = min 4 (k :: nat)"
  by presburger+

lemma mod4_slot:
  assumes "4 \<le> k" "i < 4"
  shows "(k - 4 + ((4 - k mod 4) mod 4 + i) mod 4) mod 4 = (i :: nat)"
proof -
  have slot: "(r + ((4 - r) mod 4 + i) mod 4) mod 4 = i" if "r < 4" for r :: nat
  proof -
    have "(r + ((4 - r) mod 4 + i) mod 4) mod 4 = (r + (4 - r) + i) mod 4"
      by (simp add: mod_add_right_eq mod_add_left_eq add.assoc)
    then show ?thesis using that assms(2) by simp
  qed
  have "(k - 4) mod 4 = k mod 4" using assms(1) by (simp add: le_mod_geq)
  then show ?thesis using slot [of "k mod 4"] by (metis mod_add_left_eq mod_less_divisor zero_less_numeral)
qed

lemma window_step:
  assumes "window_inv vs f"
  shows "window_inv (vs @ [v]) (snd (filter_avg f v))"
proof -
  let ?k = "length vs"
  have i: "f_idx f = ?k mod 4" "length (f_buf f) = 4" "f_filled f = (4 \<le> ?k)" using assms by (simp_all add: window_inv_def)
  have "(f_buf f)[?k mod 4 := v] ! (m mod 4) = (vs @ [v]) ! m" if "m < Suc ?k" "Suc ?k \<le> m + 4" for m
  proof (cases "m = ?k")
    case False
    then have m: "m < ?k" "?k \<le> m + 4" using that by simp_all
    have "m mod 4 \<noteq> ?k mod 4"
    proof
      assume "m mod 4 = ?k mod 4"
      then have "4 dvd ?k - m" using mod_eq_dvd_iff_nat [of m ?k 4] m(1) by simp
      then show False using m(1) that(2) by (auto dest: dvd_imp_le)
    qed
    moreover have "f_buf f ! (m mod 4) = vs ! m" using assms m by (simp add: window_inv_def)
    ultimately show ?thesis using m(1) by (simp add: nth_append)
  qed (simp add: i)
  moreover have "(?k mod 4 + 1) mod 4 = Suc ?k mod 4" by (simp add: mod_Suc_eq)
  moreover have "(4 \<le> ?k \<or> Suc ?k mod 4 = 0) = (4 \<le> Suc ?k)"
    by (rule mod4_facts(1))
  ultimately show ?thesis unfolding window_inv_def filter_avg_state i(1,3) by (simp add: i(2))
qed

lemma window_run: "window_inv vs (filter_run vs)"
proof (induction vs rule: rev_induct)
  case Nil
  show ?case by (simp add: window_inv_def filter_run_def filter0_def)
next
  case (snoc v vs)
  then show ?case using window_step by (simp add: filter_run_def)
qed

lemma window_buf:
  assumes "window_inv vs f" "vs \<noteq> []"
  shows "\<exists>r. take (min 4 (length vs)) (f_buf f) = rotate r (drop (length vs - min 4 (length vs)) vs)"
proof (cases "length vs < 4")
  case True
  have "take (length vs) (f_buf f) = vs"
    by (rule nth_equalityI) (use assms True in \<open>auto simp: window_inv_def\<close>)
  then have "take (min 4 (length vs)) (f_buf f) = rotate 0 (drop (length vs - min 4 (length vs)) vs)" using True by simp
  then show ?thesis ..
next
  case False
  let ?k = "length vs" let ?w = "drop (?k - 4) vs" let ?r = "(4 - ?k mod 4) mod 4"
  have "f_buf f = rotate ?r ?w"
  proof (rule nth_equalityI)
    show "length (f_buf f) = length (rotate ?r ?w)" using assms False by (simp add: window_inv_def)
    fix i assume "i < length (f_buf f)"
    then have i: "i < 4" using assms by (simp add: window_inv_def)
    define j where "j = (?r + i) mod 4"
    have j: "j < 4" by (simp add: j_def)
    have m: "(?k - 4 + j) mod 4 = i" unfolding j_def using mod4_slot [of ?k i] False i by simp
    have "f_buf f ! ((?k - 4 + j) mod 4) = vs ! (?k - 4 + j)"
      using assms(1) j False by (simp add: window_inv_def)
    moreover have "rotate ?r ?w ! i = ?w ! j" using False i by (simp add: nth_rotate j_def)
    ultimately show "f_buf f ! i = rotate ?r ?w ! i" using m False by simp
  qed
  moreover have "length (f_buf f) = 4" using assms by (simp add: window_inv_def)
  ultimately show ?thesis using False by (auto intro: exI [of _ ?r])
qed

text \<open>C25. The filter is the moving average of the last four values. After any sequence of values, the
  next result is the sum of the last four of them, or of all when there are fewer, divided by
  their number; the ring buffer sums them in a rotated order.\<close>

theorem filter_is_moving_average:
  "\<exists>r. fst (filter_avg (filter_run vs) v) =
     (let all = vs @ [v]; n = min 4 (length all) in
      f_div (foldl f_add 0 (rotate r (drop (length all - n) all))) (of_nat n))"
proof -
  let ?f = "snd (filter_avg (filter_run vs) v)"
  let ?n = "min 4 (length (vs @ [v]))"
  note w = window_step [OF window_run, of vs v]
  obtain r where r: "take ?n (f_buf ?f) = rotate r (drop (length (vs @ [v]) - ?n) (vs @ [v]))"
    using window_buf [OF w] by auto
  have n: "(if f_filled ?f then BMS_FILTER_N else if f_idx ?f \<noteq> 0 then f_idx ?f else 1) = ?n"
    using w mod4_facts(2) [of "length (vs @ [v])"] unfolding window_inv_def BMS_FILTER_N_def by (simp only:) simp
  have "fst (filter_avg (filter_run vs) v) = f_div (foldl f_add 0 (take ?n (f_buf ?f))) (f_of_int (int ?n))"
    unfolding n [symmetric] by (simp add: filter_avg_def Let_def)
  also have "f_of_int (int ?n) = of_nat ?n" by (subst f_of_int_exact) simp_all
  finally show ?thesis unfolding r Let_def by blast
qed

subsection \<open>The rate limit\<close>

text \<open>After a real jump the filter never recovers. Once the filter is running, every sample that
  differs from the last published average by more than the rate limit is dropped, and the
  comparison value stays what it is, so a battery voltage that has moved for good is never
  published again, however many samples confirm it.\<close>

theorem filter_locks_out:
  assumes "f_initialized (f_voltage (filters s))"
    "\<forall>d \<in> set ds. volt_rate (g_juntek_filterCfg s) <
       bms_fabsf (f_sub (voltage d) (f_last (f_voltage (filters s))))"
  shows "fold (juntek_r50_process env) ds s = s"
  using assms(2)
proof (induction ds)
  case (Cons d ds)
  then have "bms_filter_apply (g_juntek_filterCfg s) (filters s) d = None"
    using assms(1) by (simp add: bms_filter_apply_def no_spike_def)
  then show ?case using Cons by (simp add: juntek_r50_process_def)
qed simp

definition ex_j :: j_st where
  "ex_j = \<lparr>j_zs = ex_state, j_rx_flag = False, j_rx_buf = (\<lambda>_. 0), s_line = [],
     filters = \<lparr>f_voltage = settle 13 filter0, f_current = settle 0 filter0, f_temperature = settle 25 filter0,
       f_remain_ah = settle 100 filter0\<rparr>,
     g_juntek_filterCfg = filter_cfg_dft, j_attrs = juntek_attrs_of juntek_data0, j_last_report_tick = 0,
     T_rxinit = 0, T_shown = []\<rparr>"

lemma filter_locks_out_witness:
  "T_shown (fold (juntek_r50_process ex_env) (replicate 100 (juntek_data0\<lparr>voltage := 12, temperature := 25\<rparr>)) ex_j) = []"
proof -
  have "f32 (- 1) = - 1" using f_of_int_exact [of "-1"] by (simp add: f_of_int_def)
  then have "\<forall>d \<in> set (replicate 100 (juntek_data0\<lparr>voltage := 12, temperature := 25\<rparr>)).
      volt_rate (g_juntek_filterCfg ex_j) < bms_fabsf (f_sub (voltage d) (f_last (f_voltage (filters ex_j))))"
    by (simp add: ex_j_def settle_def filter_cfg_dft_def f_sub_def bms_fabsf_def)
  from filter_locks_out [OF _ this, of ex_env] show ?thesis by (simp add: ex_j_def settle_def)
qed

subsection \<open>The line buffer\<close>

lemma line_bounded: "length (s_line s) < LINE_BUF_SIZE \<Longrightarrow> length (s_line (fold (rx_byte env) cs s)) < LINE_BUF_SIZE"
proof (induction cs arbitrary: s)
  case (Cons c cs)
  have "length (s_line (rx_byte env c s)) < LINE_BUF_SIZE"
    using Cons.prems by (auto simp: rx_byte_def end_of_line_def LINE_BUF_SIZE_def Let_def split: prod.splits)
  then show ?case using Cons.IH by simp
qed simp

end
