(* ===== verification/Zb_Refine.thy ===== *)
theory Zb_Refine
  imports Main
begin

text \<open>
  What it means that a component implements an abstract data type. The operations of the code
  are a step function that may fail; the abstract type has a total step function and a
  condition on its users. A step of the code started in a state that represents an abstract
  value does not fail, answers what the abstract step answers and ends in a state that
  represents its result. The locale lifts that to whole sessions of operations; the queues and
  the ring buffer are interpreted in it.
\<close>

fun run_ops :: "('op \<Rightarrow> 's \<Rightarrow> ('o \<times> 's) option) \<Rightarrow> 'op list \<Rightarrow> 's \<Rightarrow> ('o list \<times> 's) option" where
  "run_ops step [] s = Some ([], s)"
| "run_ops step (a # ops) s = (case step a s of
     None \<Rightarrow> None
   | Some (r, s') \<Rightarrow> map_option (\<lambda>(rs, t). (r # rs, t)) (run_ops step ops s'))"

fun spec_run :: "('op \<Rightarrow> 'a \<Rightarrow> 'o \<times> 'a) \<Rightarrow> 'op list \<Rightarrow> 'a \<Rightarrow> 'o list \<times> 'a" where
  "spec_run astep [] a = ([], a)"
| "spec_run astep (x # ops) a =
     (let (r, a') = astep x a; (rs, b) = spec_run astep ops a' in (r # rs, b))"

fun spec_ok :: "('op \<Rightarrow> 'a \<Rightarrow> 'o \<times> 'a) \<Rightarrow> ('op \<Rightarrow> 'a \<Rightarrow> bool) \<Rightarrow> 'op list \<Rightarrow> 'a \<Rightarrow> bool" where
  "spec_ok astep allowed [] a \<longleftrightarrow> True"
| "spec_ok astep allowed (x # ops) a \<longleftrightarrow> allowed x a \<and> spec_ok astep allowed ops (snd (astep x a))"

lemma spec_run_append:
  "spec_run astep (xs @ ys) a =
     (let (rs, b) = spec_run astep xs a; (ts, c) = spec_run astep ys b in (rs @ ts, c))"
  by (induction xs arbitrary: a) (auto simp: Let_def split: prod.splits)

lemma spec_ok_append:
  "spec_ok astep allowed (xs @ ys) a \<longleftrightarrow>
     spec_ok astep allowed xs a \<and> spec_ok astep allowed ys (snd (spec_run astep xs a))"
  by (induction xs arbitrary: a) (auto simp: Let_def split: prod.splits)

locale forward_sim =
  fixes step :: "'op \<Rightarrow> 's \<Rightarrow> ('o \<times> 's) option"
    and astep :: "'op \<Rightarrow> 'a \<Rightarrow> 'o \<times> 'a"
    and allowed :: "'op \<Rightarrow> 'a \<Rightarrow> bool"
    and rel :: "'s \<Rightarrow> 'a \<Rightarrow> bool"
  assumes sim: "rel s a \<Longrightarrow> allowed x a \<Longrightarrow>
    \<exists>s'. step x s = Some (fst (astep x a), s') \<and> rel s' (snd (astep x a))"
begin

lemma run_sim:
  "rel s a \<Longrightarrow> spec_ok astep allowed ops a \<Longrightarrow>
     \<exists>s'. run_ops step ops s = Some (fst (spec_run astep ops a), s')
        \<and> rel s' (snd (spec_run astep ops a))"
proof (induction ops arbitrary: s a)
  case (Cons x ops)
  from sim [OF Cons.prems(1), of x] Cons.prems(2) obtain s1
    where s1: "step x s = Some (fst (astep x a), s1)" "rel s1 (snd (astep x a))" by auto
  from Cons.IH [OF s1(2)] Cons.prems(2) s1(1) show ?case
    by (auto simp: Let_def split: prod.splits)
qed simp

text \<open>No session gets stuck, and two states that represent the same value cannot be told
  apart.\<close>

lemma run_total: "rel s a \<Longrightarrow> spec_ok astep allowed ops a \<Longrightarrow> run_ops step ops s \<noteq> None"
  using run_sim by fastforce

lemma run_abstract:
  assumes "rel s a" "rel t a" "spec_ok astep allowed ops a"
  shows "map_option fst (run_ops step ops s) = map_option fst (run_ops step ops t)"
  using run_sim [OF assms(1,3)] run_sim [OF assms(2,3)] by auto

end

end
