(* ===== verification/Zb_List.thy ===== *)
theory Zb_List
  imports Zb_Prelude Zb_Refine
begin

text \<open>
  Linked lists in memory: \<^verbatim>\<open>proj/common/list.c\<close>, and the facts about chains of \<^verbatim>\<open>next\<close> pointers
  that it shares with the event queue.

  A pointer is \<open>'a option\<close> with \<open>None\<close> for \<^verbatim>\<open>NULL\<close>; the \<^verbatim>\<open>next\<close> fields of all nodes are one map
  \<open>'a links\<close>, so nodes may be shared between lists and a list may be cyclic, as in C. The
  variable a \<^verbatim>\<open>list_t\<close> points at is its head pointer: an operation takes it and returns its new
  value. A result is \<open>None\<close> when the code follows a null pointer or does not come back from a
  loop over a cycle.
\<close>

type_synonym 'a links = "'a \<Rightarrow> 'a option"

subsection \<open>Chains\<close>

fun path :: "'a links \<Rightarrow> 'a option \<Rightarrow> 'a list \<Rightarrow> 'a option \<Rightarrow> bool" where
  "path nx p [] q \<longleftrightarrow> p = q"
| "path nx p (x # xs) q \<longleftrightarrow> p = Some x \<and> path nx (nx x) xs q"

lemma path_append [simp]:
  "path nx p (xs @ ys) q \<longleftrightarrow> (\<exists>r. path nx p xs r \<and> path nx r ys q)"
  by (induction xs arbitrary: p) auto

lemma path_upd [simp]: "x \<notin> set xs \<Longrightarrow> path (nx(x := v)) p xs q = path nx p xs q"
  by (induction xs arbitrary: p) auto

lemma path_None [simp]: "path nx None xs q \<longleftrightarrow> xs = [] \<and> q = None"
  by (cases xs) auto

lemma path_unique: "path nx p xs None \<Longrightarrow> path nx p ys None \<Longrightarrow> xs = ys"
proof (induction xs arbitrary: p ys)
  case (Cons x xs)
  then show ?case by (cases ys) auto
qed auto

lemma path_head_notin: "path nx (nx x) xs None \<Longrightarrow> x \<notin> set xs"
proof
  assume p: "path nx (nx x) xs None" and "x \<in> set xs"
  then obtain ys zs where xs: "xs = ys @ x # zs" by (auto simp: in_set_conv_decomp)
  with p have "path nx (nx x) zs None" by auto
  from path_unique [OF p this] xs show False by simp
qed

lemma path_distinct: "path nx p xs None \<Longrightarrow> distinct xs"
  by (induction xs arbitrary: p) (auto simp: path_head_notin)

lemma path_last: "path nx p xs None \<Longrightarrow> xs \<noteq> [] \<Longrightarrow> nx (last xs) = None"
  by (induction xs arbitrary: p) auto

lemma path_upd_last:
  assumes "path nx p xs None" "xs \<noteq> []"
  shows "path (nx(last xs := v)) p xs v"
proof -
  obtain ys y where xs: "xs = ys @ [y]" using assms(2) by (metis append_butlast_last_id)
  with path_distinct [OF assms(1)] assms(1) show ?thesis by auto
qed

lemma path_nonempty: "path nx (Some x) xs None \<Longrightarrow> \<exists>ys. xs = x # ys"
  by (cases xs) auto

subsection \<open>The operations of \<^verbatim>\<open>list.c\<close>\<close>

definition listInit :: "'a option" where
  "listInit = None"

definition listHead :: "'a option \<Rightarrow> 'a option" where
  "listHead lst = lst"

definition listCopy :: "'a option \<Rightarrow> 'a option" where
  \<comment> \<open>the new head of the destination, from the head of the source\<close>
  "listCopy src = src"

partial_function (option) tail_loop :: "'a links \<Rightarrow> 'a \<Rightarrow> 'a option" where
  "tail_loop nx l = (case nx l of None \<Rightarrow> Some l | Some m \<Rightarrow> tail_loop nx m)"

definition listTail :: "'a links \<Rightarrow> 'a option \<Rightarrow> 'a option option" where
  "listTail nx lst = (case lst of None \<Rightarrow> Some None | Some l \<Rightarrow> map_option Some (tail_loop nx l))"

definition listAdd :: "'a links \<Rightarrow> 'a option \<Rightarrow> 'a \<Rightarrow> ('a links \<times> 'a option) option" where
  "listAdd nx0 lst item =
     (let nx = nx0(item := None) in
      Option.bind (listTail nx lst) (\<lambda>l. case l of
        None \<Rightarrow> Some (nx, Some item)
      | Some l \<Rightarrow> Some (nx(l := Some item), lst)))"

definition listPush :: "'a links \<Rightarrow> 'a option \<Rightarrow> 'a \<Rightarrow> 'a links \<times> 'a option" where
  "listPush nx lst item = (nx(item := lst), Some item)"

partial_function (option) chop_loop :: "'a links \<Rightarrow> 'a \<Rightarrow> ('a \<times> 'a) option" where
  "chop_loop nx l = (case nx l of
     None \<Rightarrow> None
   | Some m \<Rightarrow> (case nx m of None \<Rightarrow> Some (l, m) | Some _ \<Rightarrow> chop_loop nx m))"

definition listChop :: "'a links \<Rightarrow> 'a option \<Rightarrow> ('a option \<times> 'a links \<times> 'a option) option" where
  "listChop nx lst = (case lst of
     None \<Rightarrow> Some (None, nx, None)
   | Some h \<Rightarrow>
      (case nx h of
         None \<Rightarrow> Some (Some h, nx, None)
       | Some _ \<Rightarrow> map_option (\<lambda>(l, p). (Some p, nx(l := None), Some h)) (chop_loop nx h)))"

text \<open>\<^verbatim>\<open>listPop\<close> returns the head after it has moved it.\<close>

definition listPop :: "'a links \<Rightarrow> 'a option \<Rightarrow> 'a option \<times> 'a option" where
  "listPop nx lst = (let lst' = (case lst of None \<Rightarrow> lst | Some h \<Rightarrow> nx h) in (lst', lst'))"

partial_function (option) remove_loop ::
  "'a links \<Rightarrow> 'a \<Rightarrow> 'a option \<Rightarrow> 'a option \<Rightarrow> 'a option option option" where
  \<comment> \<open>\<open>Some (Some p)\<close> when the item is found behind \<open>p\<close>, \<open>Some None\<close> when the list ends\<close>
  "remove_loop nx item p l = (case l of
     None \<Rightarrow> Some None
   | Some c \<Rightarrow> if c = item then Some (Some p) else remove_loop nx item (Some c) (nx c))"

definition listRemove :: "'a links \<Rightarrow> 'a option \<Rightarrow> 'a \<Rightarrow> ('a links \<times> 'a option) option" where
  "listRemove nx lst item =
     Option.bind (remove_loop nx item None lst) (\<lambda>r. case r of
       None \<Rightarrow> Some (nx, lst)
     | Some None \<Rightarrow> Some (nx(item := None), nx item)
     | Some (Some p) \<Rightarrow> Some (nx(p := nx item, item := None), lst))"

partial_function (option) length_loop :: "'a links \<Rightarrow> int \<Rightarrow> 'a option \<Rightarrow> int option" where
  "length_loop nx num l = (case l of None \<Rightarrow> Some num | Some c \<Rightarrow> length_loop nx (num + 1) (nx c))"

definition listLength :: "'a links \<Rightarrow> 'a option \<Rightarrow> int option" where
  "listLength nx lst = length_loop nx 0 lst"

definition listInsert ::
  "'a links \<Rightarrow> 'a option \<Rightarrow> 'a option \<Rightarrow> 'a \<Rightarrow> 'a links \<times> 'a option" where
  "listInsert nx lst prev new = (case prev of
     None \<Rightarrow> listPush nx lst new
   | Some p \<Rightarrow> (nx(new := nx p, p := Some new), lst))"

subsection \<open>What they do to the list\<close>

lemma tail_loop_path: "path nx (Some l) (l # xs) None \<Longrightarrow> tail_loop nx l = Some (last (l # xs))"
proof (induction xs arbitrary: l)
  case Nil
  then show ?case by (simp add: tail_loop.simps)
next
  case (Cons x xs)
  then show ?case by (subst tail_loop.simps) auto
qed

lemma listTail_path:
  "path nx lst xs None \<Longrightarrow> listTail nx lst = Some (if xs = [] then None else Some (last xs))"
proof (cases xs)
  case (Cons x ys)
  assume "path nx lst xs None"
  with Cons show ?thesis using tail_loop_path [of nx x ys] by (auto simp: listTail_def)
qed (auto simp: listTail_def)

lemma listAdd_path:
  assumes p: "path nx lst xs None" and x: "x \<notin> set xs"
  shows "\<exists>nx' lst'. listAdd nx lst x = Some (nx', lst') \<and> path nx' lst' (xs @ [x]) None"
proof (cases "xs = []")
  case True
  with p show ?thesis by (auto simp: listAdd_def listTail_def)
next
  case False
  let ?nx = "nx(x := None)"
  have p': "path ?nx lst xs None" using p x by simp
  from False have "last xs \<noteq> x" using x by (metis last_in_set)
  with False show ?thesis
    using path_upd_last [OF p' False] listTail_path [OF p']
    by (auto simp: listAdd_def Let_def fun_upd_twist)
qed

lemma listPush_path:
  "path nx lst xs None \<Longrightarrow> x \<notin> set xs \<Longrightarrow> listPush nx lst x = (nx', lst') \<Longrightarrow> path nx' lst' (x # xs) None"
  by (auto simp: listPush_def)

lemma chop_loop_path:
  "path nx (Some l) (l # ys @ [p]) None \<Longrightarrow>
     chop_loop nx l = Some (last (l # ys), p)"
proof (induction ys arbitrary: l)
  case Nil
  then show ?case by (subst chop_loop.simps) auto
next
  case (Cons y ys)
  have "nx l = Some y" "nx y \<noteq> None" using Cons.prems by (cases ys; auto)+
  then show ?case using Cons by (subst chop_loop.simps) auto
qed

lemma listChop_path:
  assumes "path nx lst (xs @ [p]) None"
  shows "\<exists>nx' lst'. listChop nx lst = Some (Some p, nx', lst') \<and> path nx' lst' xs None"
proof (cases xs)
  case Nil
  with assms show ?thesis by (auto simp: listChop_def)
next
  case (Cons l ys)
  with assms have "nx l \<noteq> None" by (cases ys) auto
  moreover have "path nx lst xs (Some p)" using assms by auto
  moreover have "path (nx(last xs := None)) lst xs None"
  proof -
    obtain zs z where xs: "xs = zs @ [z]" using Cons by (metis append_butlast_last_id list.distinct(1))
    then show ?thesis using assms path_distinct [OF assms] by auto
  qed
  ultimately show ?thesis
    using Cons assms chop_loop_path [of nx l ys p] by (auto simp: listChop_def)
qed

lemma listPop_path:
  "path nx lst xs None \<Longrightarrow>
     (\<exists>lst'. listPop nx lst = (lst', lst') \<and> path nx lst' (tl xs) None)"
  by (cases xs) (auto simp: listPop_def Let_def)

lemma remove_loop_path:
  "path nx l xs None \<Longrightarrow>
     remove_loop nx item p l =
       Some (if item \<in> set xs
             then Some (case takeWhile (\<lambda>x. x \<noteq> item) xs of [] \<Rightarrow> p | y # ys \<Rightarrow> Some (last (y # ys)))
             else None)"
proof (induction xs arbitrary: l p)
  case Nil
  then show ?case by (simp add: remove_loop.simps)
next
  case (Cons x xs)
  then show ?case by (subst remove_loop.simps) (auto split: list.splits)
qed

lemma takeWhile_to_item: "x \<notin> set ys \<Longrightarrow> takeWhile (\<lambda>y. y \<noteq> x) (ys @ x # zs) = ys"
  by (induction ys) auto

lemma split_at_item: "x \<in> set xs \<Longrightarrow> distinct xs \<Longrightarrow>
  \<exists>ys zs. xs = ys @ x # zs \<and> x \<notin> set ys \<and> x \<notin> set zs \<and> takeWhile (\<lambda>y. y \<noteq> x) xs = ys \<and> remove1 x xs = ys @ zs"
proof -
  assume "x \<in> set xs" "distinct xs"
  then obtain ys zs where "xs = ys @ x # zs" "x \<notin> set ys" "x \<notin> set zs"
    by (metis distinct.simps(2) distinct_append split_list_first)
  moreover from this have "takeWhile (\<lambda>y. y \<noteq> x) xs = ys" "remove1 x xs = ys @ zs"
    by (auto simp: remove1_append takeWhile_to_item)
  ultimately show ?thesis by blast
qed

text \<open>Unlinking the node between two parts of a chain.\<close>

lemma path_unlink_head: "path nx p (x # zs) None \<Longrightarrow> path nx (nx x) zs None"
  by simp

lemma path_unlink:
  assumes "path nx p (ys @ x # zs) None" "ys \<noteq> []"
  shows "path (nx(last ys := nx x)) p (ys @ zs) None"
proof -
  obtain us u where ys: "ys = us @ [u]" using assms(2) by (metis append_butlast_last_id)
  with assms(1) path_distinct [OF assms(1)] show ?thesis by auto
qed

lemma listRemove_path:
  assumes p: "path nx lst xs None"
  shows "\<exists>nx' lst'. listRemove nx lst x = Some (nx', lst') \<and> path nx' lst' (remove1 x xs) None"
proof (cases "x \<in> set xs")
  case False
  with p remove_loop_path [OF p, of x None] show ?thesis
    by (auto simp: listRemove_def remove1_idem)
next
  case True
  with path_distinct [OF p] obtain ys zs where s: "xs = ys @ x # zs" "x \<notin> set ys" "x \<notin> set zs"
    "takeWhile (\<lambda>y. y \<noteq> x) xs = ys" "remove1 x xs = ys @ zs"
    using split_at_item by metis
  have l: "remove_loop nx x None lst = Some (Some (case ys of [] \<Rightarrow> None | y # ys' \<Rightarrow> Some (last (y # ys'))))"
    using remove_loop_path [OF p, of x None] True s(4) by simp
  show ?thesis
  proof (cases "ys = []")
    case True
    with l p s show ?thesis by (auto simp: listRemove_def)
  next
    case False
    then have "listRemove nx lst x = Some (nx(last ys := nx x, x := None), lst)"
      using l by (auto simp: listRemove_def split: list.splits)
    moreover have "path (nx(last ys := nx x, x := None)) lst (ys @ zs) None"
      using path_unlink [of nx lst ys x zs] p s False by (subst path_upd) auto
    ultimately show ?thesis using s by auto
  qed
qed

lemma listLength_path: "path nx lst xs None \<Longrightarrow> listLength nx lst = Some (int (length xs))"
proof -
  have "length_loop nx n l = Some (n + int (length xs))" if "path nx l xs None" for n l
    using that
  proof (induction xs arbitrary: n l)
    case Nil
    then show ?case by (simp add: length_loop.simps)
  next
    case (Cons x xs)
    then show ?case by (subst length_loop.simps) auto
  qed
  then show "path nx lst xs None \<Longrightarrow> listLength nx lst = Some (int (length xs))"
    by (simp add: listLength_def)
qed

lemma listInsert_path:
  assumes "path nx lst (ys @ p # zs) None" "x \<notin> set (ys @ p # zs)"
    "listInsert nx lst (Some p) x = (nx', lst')"
  shows "path nx' lst' (ys @ p # x # zs) None"
  using assms path_distinct [OF assms(1)] by (auto simp: listInsert_def)

subsection \<open>Sessions of operations\<close>

datatype 'a list_op =
  LAdd 'a | LPush 'a | LChop | LPop | LRemove 'a | LInsert "'a option" 'a | LHead | LTail | LLength

datatype 'a list_out = Done | Ptr "'a option" | Len int

fun list_step ::
  "'a list_op \<Rightarrow> 'a links \<times> 'a option \<Rightarrow> ('a list_out \<times> 'a links \<times> 'a option) option" where
  "list_step (LAdd x) (nx, lst) = map_option (Pair Done) (listAdd nx lst x)"
| "list_step (LPush x) (nx, lst) = Some (Done, listPush nx lst x)"
| "list_step LChop (nx, lst) = map_option (\<lambda>(p, s). (Ptr p, s)) (listChop nx lst)"
| "list_step LPop (nx, lst) = (let (p, lst') = listPop nx lst in Some (Ptr p, nx, lst'))"
| "list_step (LRemove x) (nx, lst) = map_option (Pair Done) (listRemove nx lst x)"
| "list_step (LInsert p x) (nx, lst) = Some (Done, listInsert nx lst p x)"
| "list_step LHead (nx, lst) = Some (Ptr (listHead lst), nx, lst)"
| "list_step LTail (nx, lst) = map_option (\<lambda>p. (Ptr p, nx, lst)) (listTail nx lst)"
| "list_step LLength (nx, lst) = map_option (\<lambda>n. (Len n, nx, lst)) (listLength nx lst)"

fun insert_behind :: "'a \<Rightarrow> 'a \<Rightarrow> 'a list \<Rightarrow> 'a list" where
  "insert_behind p x [] = []"
| "insert_behind p x (y # ys) = (if y = p then y # x # ys else y # insert_behind p x ys)"

definition first_of :: "'a list \<Rightarrow> 'a option" where
  "first_of xs = (case xs of [] \<Rightarrow> None | x # _ \<Rightarrow> Some x)"

definition last_of :: "'a list \<Rightarrow> 'a option" where
  "last_of xs = (if xs = [] then None else Some (last xs))"

text \<open>What \<^verbatim>\<open>listPop\<close> hands out is the element behind the one it removes.\<close>

fun list_spec :: "'a list_op \<Rightarrow> 'a list \<Rightarrow> 'a list_out \<times> 'a list" where
  "list_spec (LAdd x) xs = (Done, xs @ [x])"
| "list_spec (LPush x) xs = (Done, x # xs)"
| "list_spec LChop xs = (Ptr (last_of xs), butlast xs)"
| "list_spec LPop xs = (Ptr (first_of (tl xs)), tl xs)"
| "list_spec (LRemove x) xs = (Done, remove1 x xs)"
| "list_spec (LInsert None x) xs = (Done, x # xs)"
| "list_spec (LInsert (Some p) x) xs = (Done, insert_behind p x xs)"
| "list_spec LHead xs = (Ptr (first_of xs), xs)"
| "list_spec LTail xs = (Ptr (last_of xs), xs)"
| "list_spec LLength xs = (Len (int (length xs)), xs)"

fun list_allowed :: "'a list_op \<Rightarrow> 'a list \<Rightarrow> bool" where
  "list_allowed (LAdd x) xs \<longleftrightarrow> x \<notin> set xs"
| "list_allowed (LPush x) xs \<longleftrightarrow> x \<notin> set xs"
| "list_allowed (LInsert None x) xs \<longleftrightarrow> x \<notin> set xs"
| "list_allowed (LInsert (Some p) x) xs \<longleftrightarrow> x \<notin> set xs \<and> p \<in> set xs"
| "list_allowed _ xs \<longleftrightarrow> True"

definition list_rep :: "'a links \<times> 'a option \<Rightarrow> 'a list \<Rightarrow> bool" where
  "list_rep = (\<lambda>(nx, lst) xs. path nx lst xs None)"

lemma path_first: "path nx lst xs None \<Longrightarrow> lst = first_of xs"
  by (cases xs) (auto simp: first_of_def)

lemma insert_behind_split: "p \<notin> set ys \<Longrightarrow> insert_behind p x (ys @ p # zs) = ys @ p # x # zs"
  by (induction ys) auto

lemma list_sim:
  assumes rep: "list_rep s xs" and ok: "list_allowed op xs"
  shows "\<exists>s'. list_step op s = Some (fst (list_spec op xs), s') \<and> list_rep s' (snd (list_spec op xs))"
proof -
  obtain nx lst where s: "s = (nx, lst)" by (cases s)
  with rep have p: "path nx lst xs None" by (simp add: list_rep_def)
  show ?thesis
  proof (cases op)
    case (LAdd x)
    with listAdd_path [OF p, of x] ok show ?thesis by (auto simp: s list_rep_def)
  next
    case (LPush x)
    with ok p show ?thesis by (auto simp: s list_rep_def listPush_def)
  next
    case LChop
    show ?thesis
    proof (cases xs rule: rev_cases)
      case Nil
      with LChop p show ?thesis by (auto simp: s list_rep_def listChop_def last_of_def)
    next
      case (snoc ys y)
      with listChop_path [OF p [unfolded snoc]] LChop show ?thesis
        by (auto simp: s list_rep_def last_of_def)
    qed
  next
    case LPop
    obtain q where q: "listPop nx lst = (q, q)" "path nx q (tl xs) None"
      using listPop_path [OF p] by blast
    with path_first [OF q(2)] LPop show ?thesis by (auto simp: s list_rep_def)
  next
    case (LRemove x)
    with listRemove_path [OF p, of x] show ?thesis by (auto simp: s list_rep_def)
  next
    case (LInsert prev x)
    show ?thesis
    proof (cases prev)
      case None
      with LInsert ok p show ?thesis by (auto simp: s list_rep_def listPush_def listInsert_def)
    next
      case (Some y)
      with LInsert ok obtain ys zs where xs: "xs = ys @ y # zs" "y \<notin> set ys" and x: "x \<notin> set xs"
        by (auto dest: split_list_first)
      obtain nx' lst' where i: "listInsert nx lst (Some y) x = (nx', lst')" by (cases "listInsert nx lst (Some y) x")
      from listInsert_path [OF p [unfolded xs(1)] x [unfolded xs(1)] i] LInsert Some xs i show ?thesis
        by (auto simp: s list_rep_def insert_behind_split)
    qed
  next
    case LHead
    with path_first [OF p] rep show ?thesis by (auto simp: s listHead_def)
  next
    case LTail
    with listTail_path [OF p] rep show ?thesis by (auto simp: s last_of_def)
  next
    case LLength
    with listLength_path [OF p] rep show ?thesis by (auto simp: s)
  qed
qed

interpretation lst: forward_sim list_step list_spec list_allowed list_rep
  by unfold_locales (rule list_sim)

subsection \<open>Properties\<close>

definition ex_ops :: "nat list_op list" where
  "ex_ops = [LAdd 4, LPush 3, LAdd 5, LInsert (Some 4) 9, LRemove 3, LLength, LChop, LPop]"

lemma ex_ops_spec:
  "spec_ok list_spec list_allowed ex_ops []"
  "spec_run list_spec ex_ops [] =
    ([Done, Done, Done, Done, Done, Len 3, Ptr (Some 5), Ptr (Some 9)], [9])"
  by code_simp+

text \<open>The linked lists of \<^verbatim>\<open>list.c\<close> implement a list: from a head whose chain holds \<open>xs\<close>,
  any session of its operations that inserts only new nodes comes back from every loop, follows
  no null pointer, and hands out and leaves what the list specification says. The specification
  of \<^verbatim>\<open>listPop\<close> is what the code does: it removes the first element and returns the second.\<close>

theorem list_c_refines:
  assumes "path nx lst xs None" "spec_ok list_spec list_allowed ops xs"
  shows "\<exists>nx' lst'. run_ops list_step ops (nx, lst) = Some (fst (spec_run list_spec ops xs), nx', lst') \<and>
    path nx' lst' (snd (spec_run list_spec ops xs)) None"
  using lst.run_sim [of "(nx, lst)" xs ops] assms by (auto simp: list_rep_def)

lemma list_c_refines_witness:
  "\<exists>nx' lst'. run_ops list_step ex_ops (\<lambda>_. None, listInit) =
      Some ([Done, Done, Done, Done, Done, Len 3, Ptr (Some 5), Ptr (Some 9)], nx', lst')
    \<and> path nx' lst' [9] None"
  using list_c_refines [of "\<lambda>_. None" listInit "[]" ex_ops] ex_ops_spec by (simp add: listInit_def)

end
