(* ===== verification/Ev_Queue.thy ===== *)
theory Ev_Queue
  imports Zb_List Zb_Refine Ev_Buffer "HOL-Library.Multiset"
begin

text \<open>
  The event queue: \<^verbatim>\<open>proj/os/ev_queue.c\<close>.

  A queue is its record of head, tail, priority function and count, and the \<^verbatim>\<open>next\<close> fields of
  the elements in memory (\<open>'a links\<close>, see \<open>Zb_List\<close>). The priority function is a parameter of
  the queue, as in C; a smaller value is served first. A result is \<open>None\<close> when the code
  follows a null pointer or loops over a cyclic chain. A buffer in a queue is named by its
  block, so \<^verbatim>\<open>ev_buf_getHead\<close>, which steps back over the header of the block, is the identity.

  The specification is a list of elements: a push inserts behind every element that is not
  worse, which is the end of the list when the queue has no priorities.
\<close>

record 'a ev_queue_t =
  head :: "'a option"
  tail :: "'a option"
  priFunc :: "('a \<Rightarrow> u32) option"
  curNum :: u32

datatype ev_queue_sts_t =
  QUEUE_SUCC | QUEUE_INVALID_PARAMETER | QUEUE_EMPTY | QUEUE_NOT_FOUND | QUEUE_OVERFLOW

subsection \<open>Operations\<close>

definition ev_queue_init ::
  "'a ev_queue_t option \<Rightarrow> ('a \<Rightarrow> u32) option \<Rightarrow> ev_queue_sts_t \<times> 'a ev_queue_t option" where
  "ev_queue_init qo pf = (case qo of
     None \<Rightarrow> (QUEUE_INVALID_PARAMETER, None)
   | Some q \<Rightarrow> (QUEUE_SUCC, Some \<lparr>head = None, tail = None, priFunc = pf, curNum = 0\<rparr>))"

partial_function (option) find_place ::
  "('a \<Rightarrow> u32) \<Rightarrow> 'a \<Rightarrow> 'a links \<Rightarrow> 'a option \<Rightarrow> 'a option \<Rightarrow> ('a option \<times> 'a option) option" where
  "find_place pf new nx previous current = (case current of
     None \<Rightarrow> Some (previous, None)
   | Some c \<Rightarrow>
      if pf new < pf c then Some (previous, Some c)
      else find_place pf new nx (Some c) (nx c))"

definition push_body ::
  "'a ev_queue_t \<Rightarrow> 'a \<Rightarrow> 'a links \<Rightarrow> ('a ev_queue_t \<times> 'a links) option" where
  "push_body q new nx = (case head q of
     None \<Rightarrow> Some (q\<lparr>head := Some new, tail := Some new, curNum := curNum q + 1\<rparr>, nx(new := None))
   | Some h \<Rightarrow>
      (case priFunc q of
         None \<Rightarrow>
          (case tail q of
             None \<Rightarrow> None
           | Some t \<Rightarrow> Some (q\<lparr>tail := Some new, curNum := curNum q + 1\<rparr>, nx(t := Some new, new := None)))
       | Some pf \<Rightarrow>
          map_option (\<lambda>(previous, current).
            let (q1, nx1) = (case previous of
                   None \<Rightarrow> (q\<lparr>head := Some new\<rparr>, nx)
                 | Some p \<Rightarrow> (q, nx(p := Some new)));
                nx2 = nx1(new := current);
                q2 = (if current = None then q1\<lparr>tail := Some new\<rparr> else q1) in
            (q2\<lparr>curNum := curNum q2 + 1\<rparr>, nx2))
          (find_place pf new nx None (Some h))))"

definition ev_queue_rawPush ::
  "'a ev_queue_t option \<Rightarrow> 'a option \<Rightarrow> 'a links \<Rightarrow>
     (ev_queue_sts_t \<times> 'a ev_queue_t option \<times> 'a links) option" where
  "ev_queue_rawPush qo newElement nx = (case (qo, newElement) of
     (Some q, Some new) \<Rightarrow> map_option (\<lambda>(q', nx'). (QUEUE_SUCC, Some q', nx')) (push_body q new nx)
   | _ \<Rightarrow> Some (QUEUE_INVALID_PARAMETER, qo, nx))"

definition ev_queue_rawPop :: "'a ev_queue_t \<Rightarrow> 'a links \<Rightarrow> 'a option \<times> 'a ev_queue_t" where
  "ev_queue_rawPop q nx =
     (let q1 = (case head q of
            None \<Rightarrow> q
          | Some h \<Rightarrow> q\<lparr>tail := (if head q = tail q then None else tail q),
                        head := nx h, curNum := curNum q - 1\<rparr>);
          q2 = (if curNum q1 = 0 then q1\<lparr>head := None, tail := None\<rparr> else q1) in
      (head q, q2))"

partial_function (option) find_elem ::
  "'a \<Rightarrow> 'a links \<Rightarrow> 'a option \<Rightarrow> 'a option \<Rightarrow> ('a option \<times> 'a option) option" where
  "find_elem del nx previous current = (case current of
     None \<Rightarrow> Some (previous, None)
   | Some c \<Rightarrow>
      if c = del then Some (previous, Some c)
      else find_elem del nx (Some c) (nx c))"

definition delete_body ::
  "'a ev_queue_t \<Rightarrow> 'a \<Rightarrow> 'a links \<Rightarrow> (ev_queue_sts_t \<times> 'a ev_queue_t \<times> 'a links) option" where
  "delete_body q del nx = (case head q of
     None \<Rightarrow> Some (QUEUE_EMPTY, q, nx)
   | Some h \<Rightarrow>
      (if h = del then
         let q1 = q\<lparr>head := nx h\<rparr>;
             q2 = (if head q1 = None then q1\<lparr>tail := None\<rparr> else q1) in
         Some (QUEUE_SUCC, q2\<lparr>curNum := curNum q2 - 1\<rparr>, nx)
       else
         Option.bind (find_elem del nx None (Some h)) (\<lambda>(previous, current).
           case current of
             None \<Rightarrow> Some (QUEUE_NOT_FOUND, q, nx)
           | Some c \<Rightarrow>
              (case previous of
                 None \<Rightarrow> None
               | Some p \<Rightarrow>
                  let nx1 = nx(p := nx c);
                      q1 = (if nx1 c = None then q\<lparr>tail := previous\<rparr> else q) in
                  Some (QUEUE_SUCC, q1\<lparr>curNum := curNum q1 - 1\<rparr>, nx1)))))"

definition ev_queue_rawDelete ::
  "'a ev_queue_t option \<Rightarrow> 'a option \<Rightarrow> 'a links \<Rightarrow>
     (ev_queue_sts_t \<times> 'a ev_queue_t option \<times> 'a links) option" where
  "ev_queue_rawDelete qo delElement nx = (case (qo, delElement) of
     (Some q, Some del) \<Rightarrow>
       map_option (\<lambda>(st, q', nx'). (st, Some q', nx')) (delete_body q del nx)
   | _ \<Rightarrow> Some (QUEUE_INVALID_PARAMETER, qo, nx))"

text \<open>The same operations on the payload of a buffer.\<close>

definition ev_queue_push ::
  "ptr ev_queue_t option \<Rightarrow> ptr \<Rightarrow> ptr links \<Rightarrow>
     (ev_queue_sts_t \<times> ptr ev_queue_t option \<times> ptr links) option" where
  "ev_queue_push qo payload nx = ev_queue_rawPush qo (Some payload) nx"

definition ev_queue_pop :: "ptr ev_queue_t \<Rightarrow> ptr links \<Rightarrow> ptr option \<times> ptr ev_queue_t" where
  "ev_queue_pop q nx = ev_queue_rawPop q nx"

definition ev_queue_delete ::
  "ptr ev_queue_t option \<Rightarrow> ptr \<Rightarrow> ptr links \<Rightarrow>
     (ev_queue_sts_t \<times> ptr ev_queue_t option \<times> ptr links) option" where
  "ev_queue_delete qo payload nx = ev_queue_rawDelete qo (Some payload) nx"

text \<open>The free list of a pool uses the same word of a block as the queue does. A block is
  popped before it is freed, and the loop never reads its link again, so the links stay.\<close>

partial_function (option) freeQ_loop ::
  "ptr links \<Rightarrow> ptr ev_queue_t \<Rightarrow> ev_buf_vars_t \<Rightarrow> (ptr ev_queue_t \<times> ev_buf_vars_t) option" where
  "freeQ_loop nx q v = (case ev_queue_pop q nx of
     (None, q') \<Rightarrow> Some (q', v)
   | (Some b, q') \<Rightarrow> Option.bind (ev_buf_free b v) (\<lambda>r. freeQ_loop nx q' (snd r)))"

definition ev_queue_freeQ ::
  "ptr ev_queue_t option \<Rightarrow> ptr links \<Rightarrow> ev_buf_vars_t \<Rightarrow>
     (ev_queue_sts_t \<times> ptr ev_queue_t option \<times> ev_buf_vars_t) option" where
  "ev_queue_freeQ qo nx v = (case qo of
     None \<Rightarrow> Some (QUEUE_INVALID_PARAMETER, qo, v)
   | Some q \<Rightarrow> map_option (\<lambda>(q', v'). (QUEUE_SUCC, Some q', v')) (freeQ_loop nx q v))"

subsection \<open>Specification\<close>

definition place :: "('a \<Rightarrow> u32) option \<Rightarrow> 'a \<Rightarrow> 'a list \<Rightarrow> 'a list" where
  "place pf x xs = (case pf of
     None \<Rightarrow> xs @ [x]
   | Some f \<Rightarrow> takeWhile (\<lambda>y. f y \<le> f x) xs @ x # dropWhile (\<lambda>y. f y \<le> f x) xs)"

datatype 'a evq_op = QPush "'a option" | QPop | QDelete "'a option"

datatype 'a evq_out = Sts ev_queue_sts_t | Item "'a option"

fun evq_spec :: "('a \<Rightarrow> u32) option \<Rightarrow> 'a evq_op \<Rightarrow> 'a list \<Rightarrow> 'a evq_out \<times> 'a list" where
  "evq_spec pf (QPush None) xs = (Sts QUEUE_INVALID_PARAMETER, xs)"
| "evq_spec pf (QPush (Some x)) xs = (Sts QUEUE_SUCC, place pf x xs)"
| "evq_spec pf QPop [] = (Item None, [])"
| "evq_spec pf QPop (x # xs) = (Item (Some x), xs)"
| "evq_spec pf (QDelete None) xs = (Sts QUEUE_INVALID_PARAMETER, xs)"
| "evq_spec pf (QDelete (Some x)) xs =
     (if xs = [] then (Sts QUEUE_EMPTY, xs)
      else if x \<in> set xs then (Sts QUEUE_SUCC, remove1 x xs)
      else (Sts QUEUE_NOT_FOUND, xs))"

text \<open>Users must not push an element that is in the queue, and the count is a 32-bit word.\<close>

fun evq_allowed :: "'a evq_op \<Rightarrow> 'a list \<Rightarrow> bool" where
  "evq_allowed (QPush (Some x)) xs \<longleftrightarrow> x \<notin> set xs \<and> length xs < 2 ^ 32 - 1"
| "evq_allowed _ xs \<longleftrightarrow> True"

fun evq_step ::
  "'a evq_op \<Rightarrow> 'a ev_queue_t \<times> 'a links \<Rightarrow> ('a evq_out \<times> 'a ev_queue_t \<times> 'a links) option" where
  "evq_step (QPush e) (q, nx) =
     map_option (\<lambda>(st, q', nx'). (Sts st, the q', nx')) (ev_queue_rawPush (Some q) e nx)"
| "evq_step QPop (q, nx) = (let (e, q') = ev_queue_rawPop q nx in Some (Item e, q', nx))"
| "evq_step (QDelete e) (q, nx) =
     map_option (\<lambda>(st, q', nx'). (Sts st, the q', nx')) (ev_queue_rawDelete (Some q) e nx)"

definition evq_rep :: "('a \<Rightarrow> u32) option \<Rightarrow> 'a ev_queue_t \<times> 'a links \<Rightarrow> 'a list \<Rightarrow> bool" where
  "evq_rep pf = (\<lambda>(q, nx) xs. path nx (head q) xs None \<and>
     tail q = (if xs = [] then None else Some (last xs)) \<and> priFunc q = pf \<and>
     curNum q = of_nat (length xs) \<and> length xs < 2 ^ 32)"

subsection \<open>The operations implement the specification\<close>

lemma evq_rep_init: "evq_rep pf (the (snd (ev_queue_init (Some q) pf)), nx) []"
  by (simp add: ev_queue_init_def evq_rep_def)

lemma count_zero_iff: "n < 2 ^ 32 \<Longrightarrow> (of_nat n :: u32) = 0 \<longleftrightarrow> n = 0"
  by (auto simp: word_of_nat_eq_0_iff dest: nat_dvd_not_less)

lemma find_place_path:
  "path nx cur xs None \<Longrightarrow>
     find_place pf new nx prev cur =
       (let ys = takeWhile (\<lambda>y. pf y \<le> pf new) xs; zs = dropWhile (\<lambda>y. pf y \<le> pf new) xs in
        Some (if ys = [] then prev else Some (last ys), if zs = [] then None else Some (List.hd zs)))"
proof (induction xs arbitrary: cur prev)
  case Nil
  then show ?case by (simp add: find_place.simps)
next
  case (Cons x xs)
  then show ?case by (subst find_place.simps) (auto simp: not_less not_le Let_def)
qed

lemma find_elem_path:
  "path nx cur xs None \<Longrightarrow>
     find_elem del nx prev cur =
       (let ys = takeWhile (\<lambda>y. y \<noteq> del) xs in
        Some (if ys = [] then prev else Some (last ys), if del \<in> set xs then Some del else None))"
proof (induction xs arbitrary: cur prev)
  case Nil
  then show ?case by (simp add: find_elem.simps)
next
  case (Cons x xs)
  then show ?case by (subst find_elem.simps) (auto simp: Let_def)
qed

text \<open>Linking a new node between the two parts of a chain.\<close>

lemma path_link:
  assumes "path nx p (ys @ zs) None" "x \<notin> set (ys @ zs)"
  defines "r \<equiv> if zs = [] then None else Some (List.hd zs)"
  shows "ys = [] \<Longrightarrow> path (nx(x := r)) (Some x) (ys @ x # zs) None"
    and "ys \<noteq> [] \<Longrightarrow> path (nx(last ys := Some x, x := r)) p (ys @ x # zs) None"
proof -
  have r: "path nx q ws None \<Longrightarrow> q = (if ws = [] then None else Some (List.hd ws))" for q ws
    by (cases ws) auto
  show "ys = [] \<Longrightarrow> path (nx(x := r)) (Some x) (ys @ x # zs) None"
    using assms r [of p zs] by auto
  assume "ys \<noteq> []"
  then obtain us u where ys: "ys = us @ [u]" by (metis append_butlast_last_id)
  with assms path_distinct [OF assms(1)] r [of "nx u" zs]
  show "path (nx(last ys := Some x, x := r)) p (ys @ x # zs) None" by auto
qed

lemma push_sim:
  assumes rep: "evq_rep pf (q, nx) xs" and x: "x \<notin> set xs" "length xs < 2 ^ 32 - 1"
  shows "\<exists>q' nx'. push_body q x nx = Some (q', nx') \<and> evq_rep pf (q', nx') (place pf x xs)"
proof -
  have p: "path nx (head q) xs None" and t: "tail q = (if xs = [] then None else Some (last xs))"
    and f: "priFunc q = pf" and c: "curNum q = of_nat (length xs)"
    using rep by (auto simp: evq_rep_def)
  show ?thesis
  proof (cases "xs = []")
    case True
    with p f c show ?thesis
      by (auto simp: push_body_def evq_rep_def place_def split: option.splits)
  next
    case False
    then obtain h where h: "head q = Some h" using p by (cases xs) auto
    show ?thesis
    proof (cases pf)
      case None
      have "last xs \<noteq> x" using x False by (metis last_in_set)
      moreover have "path (nx(last xs := Some x)) (head q) xs (Some x)"
        by (rule path_upd_last [OF p False])
      ultimately show ?thesis
        using None False h t f c x
        by (auto simp: push_body_def evq_rep_def place_def)
    next
      case (Some g)
      obtain ys zs where yz: "takeWhile (\<lambda>y. g y \<le> g x) xs = ys" "dropWhile (\<lambda>y. g y \<le> g x) xs = zs"
        by blast
      then have xs: "xs = ys @ zs" by (metis takeWhile_dropWhile_id)
      define r where "r = (if zs = [] then None else Some (List.hd zs))"
      have fp: "find_place g x nx None (Some h) = Some (if ys = [] then None else Some (last ys), r)"
        using find_place_path [of nx "Some h" xs g x None] p h by (simp add: Let_def yz r_def)
      have pl: "place pf x xs = ys @ x # zs" by (simp add: place_def Some yz)
      have tl: "zs \<noteq> [] \<Longrightarrow> tail q = Some (last zs)" using t xs by simp
      have rz: "r = None \<longleftrightarrow> zs = []" by (simp add: r_def)
      note l = p [unfolded xs] x(1) [unfolded xs]
      have c': "curNum q + 1 = word_of_nat (length (ys @ x # zs))" by (simp add: c xs)
      have n: "length (ys @ x # zs) < 2 ^ 32" using x(2) xs by simp
      have t': "(if r = None then Some x else tail q) = Some (last (ys @ x # zs))"
        using rz tl by auto
      show ?thesis
      proof (cases "ys = []")
        case True
        have "push_body q x nx = Some (q\<lparr>head := Some x, tail := (if r = None then Some x else tail q),
            curNum := curNum q + 1\<rparr>, nx(x := r))"
          using True by (simp add: push_body_def h f Some fp Let_def)
        moreover have "path (nx(x := r)) (Some x) (ys @ x # zs) None"
          unfolding r_def by (rule path_link(1) [OF l True])
        ultimately show ?thesis
          using f c' n t' by (simp add: evq_rep_def pl)
      next
        case ne: False
        have "push_body q x nx = Some (q\<lparr>tail := (if r = None then Some x else tail q),
            curNum := curNum q + 1\<rparr>, nx(last ys := Some x, x := r))"
          using ne by (simp add: push_body_def h f Some fp Let_def)
        moreover have "path (nx(last ys := Some x, x := r)) (head q) (ys @ x # zs) None"
          unfolding r_def by (rule path_link(2) [OF l ne])
        ultimately show ?thesis
          using f c' n t' by (simp add: evq_rep_def pl)
      qed
    qed
  qed
qed

lemma pop_sim:
  assumes rep: "evq_rep pf (q, nx) xs"
  shows "\<exists>q'. ev_queue_rawPop q nx = (case xs of [] \<Rightarrow> None | x # _ \<Rightarrow> Some x, q') \<and>
    evq_rep pf (q', nx) (tl xs)"
proof (cases xs)
  case Nil
  with rep show ?thesis by (auto simp: ev_queue_rawPop_def evq_rep_def Let_def)
next
  case (Cons x ys)
  with rep path_distinct [of nx "head q" xs] have d: "distinct (x # ys)" by (simp add: evq_rep_def)
  have "(of_nat (length ys) :: u32) = 0 \<longleftrightarrow> ys = []"
    using rep Cons count_zero_iff [of "length ys"] by (auto simp: evq_rep_def)
  moreover have "ys \<noteq> [] \<Longrightarrow> last ys \<noteq> x" using d by (metis distinct.simps(2) last_in_set)
  ultimately show ?thesis
    using rep Cons by (auto simp: ev_queue_rawPop_def evq_rep_def Let_def)
qed

lemma delete_sim:
  assumes rep: "evq_rep pf (q, nx) xs" and ne: "xs \<noteq> []"
  shows "\<exists>q' nx'. delete_body q x nx =
      Some (if x \<in> set xs then QUEUE_SUCC else QUEUE_NOT_FOUND, q', nx') \<and>
    evq_rep pf (q', nx') (remove1 x xs)"
proof -
  have p: "path nx (head q) xs None" and t: "tail q = Some (last xs)"
    and f: "priFunc q = pf" and c: "curNum q = of_nat (length xs)" and n: "length xs < 2 ^ 32"
    using rep ne by (auto simp: evq_rep_def)
  note d = path_distinct [OF p]
  obtain h ws where xs: "xs = h # ws" and h: "head q = Some h" using p ne by (cases xs) auto
  have fe: "find_elem x nx None (Some h) =
      Some (if h = x then None else Some (last (takeWhile (\<lambda>y. y \<noteq> x) xs)),
            if x \<in> set xs then Some x else None)"
    using find_elem_path [of nx "Some h" xs x None] p h xs by (auto simp: Let_def)
  show ?thesis
  proof (cases "h = x")
    case True
    then show ?thesis
      using xs h p t f c n d by (cases ws) (auto simp: delete_body_def evq_rep_def Let_def)
  next
    case hx: False
    show ?thesis
    proof (cases "x \<in> set xs")
      case False
      then show ?thesis
        using fe h hx rep by (auto simp: delete_body_def remove1_idem)
    next
      case True
      from split_at_item [OF True d] obtain ys zs where s: "xs = ys @ x # zs" "x \<notin> set ys" "x \<notin> set zs"
        "takeWhile (\<lambda>y. y \<noteq> x) xs = ys" "remove1 x xs = ys @ zs" by metis
      have ys: "ys \<noteq> []" using s(1) xs hx by (cases ys) auto
      have u: "last ys \<noteq> x" using s(2) ys by (metis last_in_set)
      have pu: "path (nx(last ys := nx x)) (head q) (ys @ zs) None"
        using path_unlink [OF p [unfolded s(1)] ys] .
      have "nx x = None \<longleftrightarrow> zs = []" using p s(1) by (cases zs) auto
      then show ?thesis
        using fe h hx True s ys u pu t f c n
        by (auto simp: delete_body_def evq_rep_def Let_def)
    qed
  qed
qed

lemma evq_sim:
  assumes rep: "evq_rep pf s xs" and ok: "evq_allowed op xs"
  shows "\<exists>s'. evq_step op s = Some (fst (evq_spec pf op xs), s') \<and> evq_rep pf s' (snd (evq_spec pf op xs))"
proof -
  obtain q nx where s: "s = (q, nx)" by (cases s)
  show ?thesis
  proof (cases op)
    case (QPush e)
    show ?thesis
    proof (cases e)
      case (Some x)
      with ok QPush obtain q' nx' where "push_body q x nx = Some (q', nx')"
        "evq_rep pf (q', nx') (place pf x xs)"
        using push_sim [OF rep [unfolded s], of x] by auto
      with QPush Some show ?thesis by (simp add: s ev_queue_rawPush_def)
    qed (use rep s QPush in \<open>auto simp: ev_queue_rawPush_def\<close>)
  next
    case QPop
    with pop_sim [OF rep [unfolded s]] show ?thesis
      by (cases xs) (auto simp: s)
  next
    case (QDelete e)
    show ?thesis
    proof (cases e)
      case (Some x)
      show ?thesis
      proof (cases "xs = []")
        case True
        with rep s QDelete Some show ?thesis
          by (auto simp: evq_rep_def ev_queue_rawDelete_def delete_body_def)
      next
        case False
        with delete_sim [OF rep [unfolded s] False, of x] QDelete Some show ?thesis
          by (auto simp: s ev_queue_rawDelete_def remove1_idem)
      qed
    qed (use rep s QDelete in \<open>auto simp: ev_queue_rawDelete_def\<close>)
  qed
qed

interpretation evq: forward_sim evq_step "evq_spec pf" evq_allowed "evq_rep pf" for pf
  by unfold_locales (rule evq_sim)

subsection \<open>Order of service\<close>

text \<open>Pushing everything and popping as often, in the specification.\<close>

lemma place_split: "\<exists>ys zs. xs = ys @ zs \<and> place pf x xs = ys @ x # zs"
proof (cases pf)
  case (Some f)
  have "xs = takeWhile (\<lambda>y. f y \<le> f x) xs @ dropWhile (\<lambda>y. f y \<le> f x) xs" by simp
  moreover have "place pf x xs = takeWhile (\<lambda>y. f y \<le> f x) xs @ x # dropWhile (\<lambda>y. f y \<le> f x) xs"
    by (simp add: place_def Some)
  ultimately show ?thesis by blast
next
  case None
  then have "xs = xs @ []" "place pf x xs = xs @ x # []" by (simp_all add: place_def)
  then show ?thesis by blast
qed

lemma place_facts [simp]:
  shows length_place: "length (place pf x xs) = Suc (length xs)"
    and set_place: "set (place pf x xs) = insert x (set xs)"
    and mset_place: "mset (place pf x xs) = add_mset x (mset xs)"
    and distinct_place: "distinct (place pf x xs) \<longleftrightarrow> x \<notin> set xs \<and> distinct xs"
proof -
  obtain ys zs where "xs = ys @ zs" "place pf x xs = ys @ x # zs"
    using place_split [of xs pf x] by blast
  then show "length (place pf x xs) = Suc (length xs)" "set (place pf x xs) = insert x (set xs)"
    "mset (place pf x xs) = add_mset x (mset xs)" "distinct (place pf x xs) \<longleftrightarrow> x \<notin> set xs \<and> distinct xs"
    by simp_all blast
qed

lemma spec_pushes:
  "spec_run (evq_spec pf) (map (\<lambda>x. QPush (Some x)) xs) ys =
     (replicate (length xs) (Sts QUEUE_SUCC), fold (place pf) xs ys)"
  by (induction xs arbitrary: ys) (auto simp: Let_def)

lemma spec_pops:
  "spec_run (evq_spec pf) (replicate (length xs) QPop) xs = (map (\<lambda>x. Item (Some x)) xs, [])"
  by (induction xs) auto

lemma pushes_allowed:
  "distinct (ys @ xs) \<Longrightarrow> length xs + length ys < 2 ^ 32 \<Longrightarrow>
     spec_ok (evq_spec pf) evq_allowed (map (\<lambda>x. QPush (Some x)) xs) ys"
proof (induction xs arbitrary: ys)
  case (Cons x xs)
  then show ?case
    using Cons.IH [of "place pf x ys"] by auto
qed simp

lemma pops_allowed: "spec_ok (evq_spec pf) evq_allowed (replicate n QPop) xs"
  by (induction n arbitrary: xs) auto

lemma length_fold_place [simp]: "length (fold (place pf) xs ys) = length xs + length ys"
  by (induction xs arbitrary: ys) auto

lemma fold_place_fifo: "fold (place None) xs ys = ys @ xs"
  by (induction xs arbitrary: ys) (auto simp: place_def)

lemma sorted_place:
  assumes "sorted (map f xs)"
  shows "sorted (map f (place (Some f) x xs))"
proof -
  let ?P = "\<lambda>y. f y \<le> f x"
  have "\<forall>y \<in> set (dropWhile ?P xs). f x \<le> f y"
    using assms by (induction xs) (auto split: if_splits)
  moreover have "\<forall>y \<in> set (takeWhile ?P xs). f y \<le> f x" by (auto dest: set_takeWhileD)
  moreover have "sorted (map f (takeWhile ?P xs))" "sorted (map f (dropWhile ?P xs))"
    using assms by (metis map_append sorted_append takeWhile_dropWhile_id)+
  ultimately show ?thesis
    by (auto simp: place_def sorted_append) (meson order_trans)+
qed

lemma filter_place:
  assumes "sorted (map f xs)"
  shows "filter (\<lambda>y. k = f y) (place (Some f) x xs)
    = filter (\<lambda>y. k = f y) xs @ (if k = f x then [x] else [])"
proof -
  let ?P = "\<lambda>y. f y \<le> f x"
  have e: "filter (\<lambda>y. k = f y) xs = filter (\<lambda>y. k = f y) (takeWhile ?P xs) @ filter (\<lambda>y. k = f y) (dropWhile ?P xs)"
    by (simp flip: filter_append)
  have "f x < f y" if "y \<in> set (dropWhile ?P xs)" for y
    using assms that by (induction xs) (auto split: if_splits)
  then have "k = f x \<Longrightarrow> filter (\<lambda>y. k = f y) (dropWhile ?P xs) = []"
    by (auto simp: filter_empty_conv dest!: less_imp_neq)
  then show ?thesis by (auto simp: place_def e)
qed

lemma fold_place_sorts: "fold (place (Some f)) xs [] = sort_key f xs"
proof -
  have s: "sorted (map f ys) \<Longrightarrow> sorted (map f (fold (place (Some f)) xs ys))" for ys
    by (induction xs arbitrary: ys) (auto simp: sorted_place)
  have m: "mset (fold (place (Some f)) xs ys) = mset xs + mset ys" for ys
    by (induction xs arbitrary: ys) auto
  have flt: "sorted (map f ys) \<Longrightarrow> filter (\<lambda>y. k = f y) (fold (place (Some f)) xs ys)
      = filter (\<lambda>y. k = f y) ys @ filter (\<lambda>y. k = f y) xs" for ys k
    by (induction xs arbitrary: ys) (auto simp: sorted_place filter_place)
  show ?thesis
    by (rule properties_for_sort_key [symmetric]) (use s [of "[]"] m [of "[]"] flt [of "[]"] in simp_all)
qed

definition served :: "('a \<Rightarrow> u32) option \<Rightarrow> 'a list \<Rightarrow> 'a list" where
  \<comment> \<open>the order elements leave the queue in when they are all pushed first\<close>
  "served pf xs = (case pf of None \<Rightarrow> xs | Some f \<Rightarrow> sort_key f xs)"

lemma fold_place: "fold (place pf) xs [] = served pf xs"
  by (cases pf) (simp_all add: served_def fold_place_fifo fold_place_sorts)

lemma length_served [simp]: "length (served pf xs) = length xs"
  by (simp add: served_def split: option.split)

subsection \<open>Freeing a queue\<close>

lemma freeQ_loop_frees:
  assumes "evq_rep pf (q, nx) bs" "pool_ok v" "set bs \<subseteq> live v"
  shows "\<exists>q' v'. freeQ_loop nx q v = Some (q', v') \<and> evq_rep pf (q', nx) [] \<and>
    pool_ok v' \<and> live v' = live v - set bs"
  using assms
proof (induction bs arbitrary: q v)
  case Nil
  with pop_sim [OF Nil(1)] show ?case
    by (subst freeQ_loop.simps) (auto simp: ev_queue_pop_def)
next
  case (Cons b bs)
  from pop_sim [OF Cons.prems(1)] obtain q1
    where q1: "ev_queue_rawPop q nx = (Some b, q1)" "evq_rep pf (q1, nx) bs" by auto
  have b: "b \<in> live v" "b \<notin> set bs"
    using Cons.prems path_distinct [of nx "head q" "b # bs"] by (auto simp: evq_rep_def)
  from free_live(3) [OF Cons.prems(2) b(1)] obtain v1
    where v1: "ev_buf_free b v = Some (BUFFER_SUCC, v1)" by blast
  then have "v1 = buf_free b v" by (simp add: buf_free_def)
  with free_live [OF Cons.prems(2) b(1)] have "pool_ok v1" "live v1 = live v - {b}" by auto
  with Cons.IH [OF q1(2), of v1] b(2) Cons.prems(3) obtain q' v' where
    "freeQ_loop nx q1 v1 = Some (q', v')" "evq_rep pf (q', nx) []" "pool_ok v'"
    "live v' = live v - {b} - set bs" by auto
  moreover from this have "freeQ_loop nx q v = Some (q', v')"
    by (subst freeQ_loop.simps) (simp add: ev_queue_pop_def q1(1) v1)
  ultimately show ?case by auto
qed

subsection \<open>Properties\<close>

definition ex_pri :: "nat \<Rightarrow> u32" where
  "ex_pri n = of_nat (n div 10)"

definition ex_queue :: "nat ev_queue_t" where
  "ex_queue = \<lparr>head = None, tail = None, priFunc = Some ex_pri, curNum = 0\<rparr>"

lemma ex_queue_rep: "evq_rep (Some ex_pri) (ex_queue, \<lambda>_. None) []"
  by (simp add: ex_queue_def evq_rep_def)

lemma ex_session:
  defines "ops \<equiv> [QPush (Some 25), QPush (Some 11), QPush (Some 27), QDelete (Some 25),
       QDelete (Some 3), QPop]"
  shows "spec_ok (evq_spec (Some ex_pri)) evq_allowed ops []"
    and "spec_run (evq_spec (Some ex_pri)) ops [] =
      ([Sts QUEUE_SUCC, Sts QUEUE_SUCC, Sts QUEUE_SUCC, Sts QUEUE_SUCC, Sts QUEUE_NOT_FOUND,
         Item (Some 11)], [27])"
  unfolding ops_def by (simp_all add: place_def ex_pri_def)

text \<open>C6. The event queue implements a list. From any state that represents a list, with or
  without priorities, any session of pushes, pops and deletes (null arguments and elements that
  are not in the queue included) runs without following a null pointer, answers every call with
  the status or element the specification gives, and ends in a state that represents the
  specification's list; no element is pushed while it is in the queue.\<close>

theorem evq_refines:
  assumes "evq_rep pf (q, nx) xs" "spec_ok (evq_spec pf) evq_allowed ops xs"
  shows "\<exists>q' nx'. run_ops evq_step ops (q, nx) = Some (fst (spec_run (evq_spec pf) ops xs), q', nx') \<and>
    evq_rep pf (q', nx') (snd (spec_run (evq_spec pf) ops xs))"
  using evq.run_sim [OF assms] by auto

lemma evq_refines_witness:
  "\<exists>q' nx'. run_ops evq_step [QPush (Some 25), QPush (Some 11), QPush (Some 27), QDelete (Some 25),
       QDelete (Some 3), QPop] (ex_queue, \<lambda>_. None)
     = Some ([Sts QUEUE_SUCC, Sts QUEUE_SUCC, Sts QUEUE_SUCC, Sts QUEUE_SUCC, Sts QUEUE_NOT_FOUND,
         Item (Some 11)], q', nx')
     \<and> evq_rep (Some ex_pri) (q', nx') [27]"
  using evq_refines [OF ex_queue_rep ex_session(1)] unfolding ex_session(2) by simp

text \<open>The order of service: elements pushed into an empty queue come out in the order of
  their priority values, equal ones in the order they were pushed, and in the order of the
  pushes when the queue has no priority function; the queue is then empty again.\<close>

theorem evq_serves_by_priority:
  assumes "evq_rep pf (q, nx) []" "distinct xs" "length xs < 2 ^ 32"
  shows "\<exists>q' nx'. run_ops evq_step (map (\<lambda>x. QPush (Some x)) xs @ replicate (length xs) QPop) (q, nx)
      = Some (replicate (length xs) (Sts QUEUE_SUCC) @ map (\<lambda>x. Item (Some x))
          (case pf of None \<Rightarrow> xs | Some f \<Rightarrow> sort_key f xs), q', nx')
    \<and> evq_rep pf (q', nx') []"
proof -
  let ?ops = "map (\<lambda>x. QPush (Some x)) xs @ replicate (length xs) QPop"
  have "spec_ok (evq_spec pf) evq_allowed ?ops []"
    using pushes_allowed [of "[]" xs] assms by (simp add: spec_ok_append pops_allowed)
  moreover have "spec_run (evq_spec pf) ?ops []
      = (replicate (length xs) (Sts QUEUE_SUCC) @ map (\<lambda>x. Item (Some x)) (served pf xs), [])"
    using spec_pops [of pf "served pf xs"]
    by (simp add: spec_run_append spec_pushes fold_place)
  ultimately show ?thesis
    using evq.run_sim [OF assms(1), of ?ops] by (auto simp: served_def)
qed

lemma evq_serves_by_priority_witness:
  "\<exists>q' nx'. run_ops evq_step (map (\<lambda>x. QPush (Some x)) [31, 12, 35, 19] @ replicate 4 QPop)
      (ex_queue, \<lambda>_. None)
    = Some (replicate 4 (Sts QUEUE_SUCC) @ map (\<lambda>x. Item (Some x)) [12, 19, 31, 35], q', nx')"
proof -
  let ?xs = "[31, 12, 35, 19 :: nat]"
  have s: "sort_key ex_pri ?xs = [12, 19, 31, 35]" by code_simp
  have n: "length ?xs = 4" by simp
  have "distinct ?xs" "length ?xs < 2 ^ 32" by simp_all
  from evq_serves_by_priority [OF ex_queue_rep this] show ?thesis
    unfolding option.case s n by blast
qed

text \<open>\<^verbatim>\<open>ev_queue_freeQ\<close> returns, empties the queue, and gives every buffer that was in it
  back to its pool: exactly these leave the set of buffers in use, none is freed twice, and the
  pools stay well-formed.\<close>

theorem freeQ_releases_all:
  assumes "evq_rep pf (q, nx) bs" "pool_ok v" "set bs \<subseteq> live v"
  shows "\<exists>q' v'. ev_queue_freeQ (Some q) nx v = Some (QUEUE_SUCC, Some q', v') \<and>
    evq_rep pf (q', nx) [] \<and> pool_ok v' \<and> live v' = live v - set bs"
  using freeQ_loop_frees [OF assms] by (auto simp: ev_queue_freeQ_def)

lemma freeQ_releases_all_witness:
  "\<exists>v q q' nx v'. live v \<noteq> {} \<and> evq_rep None (q, nx) [EvBuf 1 0] \<and>
     ev_queue_freeQ (Some q) nx v = Some (QUEUE_SUCC, Some q', v') \<and> live v' = {}"
proof -
  obtain v where a: "ev_buf_allocate 20 ex_pool = (Some (EvBuf 1 0), v)"
    using ex_pool_alloc by (metis prod.collapse)
  have v: "pool_ok v" "live v = {EvBuf 1 0}"
    using alloc_pool_ok [OF ex_pool_ok a] alloc_live [OF ex_pool_ok a]
    by (simp_all add: ex_pool_def live_reset)
  let ?q = "\<lparr>head = Some (EvBuf 1 0), tail = Some (EvBuf 1 0), priFunc = None, curNum = 1\<rparr>"
  have r: "evq_rep None (?q, \<lambda>_. None) [EvBuf 1 0]" by (simp add: evq_rep_def)
  from freeQ_releases_all [OF r v(1)] v(2) obtain q' v' where
    "ev_queue_freeQ (Some ?q) (\<lambda>_. None) v = Some (QUEUE_SUCC, Some q', v')" "live v' = {}" by auto
  with r v(2) show ?thesis by blast
qed

end
