(* ===== verification/Ring_Buffer.thy ===== *)
theory Ring_Buffer
  imports Zb_Prelude Zb_Refine
begin

text \<open>
  The ring buffer: \<^verbatim>\<open>proj/common/ringbuffer.c\<close>, a byte queue in a fixed array with mirror bits
  that tell a full buffer from an empty one.

  The indices are 31-bit fields and the mirrors 1-bit fields, as the bit fields of
  \<^verbatim>\<open>ringbuffer_t\<close>; the arithmetic is done in \<^verbatim>\<open>unsigned int\<close>, 32 bits here, and an index is
  cut back to 31 bits when it is stored. The array is a list of bytes, and \<^verbatim>\<open>memcpy\<close> into or
  out of it is \<open>copy_in\<close> and \<open>vtake\<close>; the caller's data is a view.
\<close>

record ringbuffer_t =
  buf :: bytes
  buf_size :: u32
  read_mirror :: "1 word"
  read_idx :: "31 word"
  write_mirror :: "1 word"
  write_idx :: "31 word"

definition copy_in :: "bytes \<Rightarrow> nat \<Rightarrow> bytes \<Rightarrow> bytes" where
  "copy_in b i xs = take i b @ xs @ drop (i + length xs) b"

definition ringbuffer_init ::
  "ringbuffer_t option \<Rightarrow> bytes option \<Rightarrow> u32 \<Rightarrow> ringbuffer_t option" where
  "ringbuffer_init ringbuf b sz = (case (ringbuf, b) of
     (Some r, Some b) \<Rightarrow> Some (r\<lparr>buf := b, buf_size := sz, read_idx := 0, read_mirror := 0,
        write_idx := 0, write_mirror := 0\<rparr>)
   | _ \<Rightarrow> None)"

definition ringbuffer_data_len :: "ringbuffer_t \<Rightarrow> u32" where
  "ringbuffer_data_len r =
     (let ri = ucast (read_idx r); wi = ucast (write_idx r) :: u32 in
      if ri = wi then (if read_mirror r = write_mirror r then 0 else buf_size r)
      else if wi > ri then wi - ri
      else buf_size r - (ri - wi))"

definition ringbuffer_put :: "ringbuffer_t \<Rightarrow> view \<Rightarrow> u32 \<Rightarrow> u32 \<times> ringbuffer_t" where
  "ringbuffer_put r data len0 =
     (let space_len = buf_size r - ringbuffer_data_len r;
          wi = ucast (write_idx r) :: u32 in
      if space_len = 0 then (0, r)
      else
        let len = (if space_len < len0 then space_len else len0);
            till_end = buf_size r - wi in
        if till_end > len then
          (len, r\<lparr>buf := copy_in (buf r) (unat wi) (vtake (unat len) data),
                  write_idx := ucast (wi + len)\<rparr>)
        else
          (len, r\<lparr>buf := copy_in (copy_in (buf r) (unat wi) (vtake (unat till_end) data)) 0
                     (vtake (unat (len - till_end)) (vdrop (unat till_end) data)),
                  write_idx := ucast (len - till_end),
                  write_mirror := NOT (write_mirror r)\<rparr>))"

definition ringbuffer_get :: "ringbuffer_t \<Rightarrow> u32 \<Rightarrow> u32 \<times> bytes \<times> ringbuffer_t" where
  \<comment> \<open>the length, what is copied to the caller's buffer, and the ring\<close>
  "ringbuffer_get r len0 =
     (let data_len = ringbuffer_data_len r;
          ri = ucast (read_idx r) :: u32 in
      if data_len = 0 then (0, [], r)
      else
        let len = (if data_len < len0 then data_len else len0);
            till_end = buf_size r - ri in
        if till_end > len then
          (len, take (unat len) (drop (unat ri) (buf r)), r\<lparr>read_idx := ucast (ri + len)\<rparr>)
        else
          (len, take (unat till_end) (drop (unat ri) (buf r)) @ take (unat (len - till_end)) (buf r),
           r\<lparr>read_idx := ucast (len - till_end), read_mirror := NOT (read_mirror r)\<rparr>))"

subsection \<open>Specification\<close>

text \<open>A byte queue with room for \<open>n\<close> bytes: a put takes what fits, a get what is there.\<close>

datatype rb_op = RPut view u32 | RGet u32 | RLen

datatype rb_out = Count u32 | Bytes u32 bytes

fun rb_spec :: "nat \<Rightarrow> rb_op \<Rightarrow> bytes \<Rightarrow> rb_out \<times> bytes" where
  "rb_spec n (RPut data l) xs =
     (let k = min (unat l) (n - length xs) in (Count (of_nat k), xs @ vtake k data))"
| "rb_spec n (RGet l) xs =
     (let k = min (unat l) (length xs) in (Bytes (of_nat k) (take k xs), drop k xs))"
| "rb_spec n RLen xs = (Count (of_nat (length xs)), xs)"

fun rb_step :: "rb_op \<Rightarrow> ringbuffer_t \<Rightarrow> (rb_out \<times> ringbuffer_t) option" where
  "rb_step (RPut data l) r = (let (k, r') = ringbuffer_put r data l in Some (Count k, r'))"
| "rb_step (RGet l) r = (let (k, xs, r') = ringbuffer_get r l in Some (Bytes k xs, r'))"
| "rb_step RLen r = Some (Count (ringbuffer_data_len r), r)"

text \<open>The bytes in the ring, oldest first, starting at \<open>i\<close>.\<close>

definition ring_at :: "bytes \<Rightarrow> nat \<Rightarrow> nat \<Rightarrow> bytes" where
  "ring_at b i k = map (\<lambda>j. b ! ((i + j) mod length b)) [0..<k]"

definition rb_rep :: "nat \<Rightarrow> ringbuffer_t \<Rightarrow> bytes \<Rightarrow> bool" where
  "rb_rep n r xs \<longleftrightarrow> 0 < n \<and> n \<le> 2 ^ 31 \<and> length (buf r) = n \<and> buf_size r = of_nat n \<and>
     unat (read_idx r) < n \<and> length xs \<le> n \<and>
     unat (write_idx r) = (unat (read_idx r) + length xs) mod n \<and>
     (read_mirror r = write_mirror r \<longleftrightarrow> unat (read_idx r) + length xs < n) \<and>
     xs = ring_at (buf r) (unat (read_idx r)) (length xs)"

subsection \<open>The code implements it\<close>

lemma mod_once: "a < 2 * n \<Longrightarrow> a mod n = (if a < n then a else a - (n::nat))"
  by (simp add: mod_if)

lemma copy_in_length [simp]: "i + length xs \<le> length b \<Longrightarrow> length (copy_in b i xs) = length b"
  by (simp add: copy_in_def)

lemma copy_in_nth:
  "i + length xs \<le> length b \<Longrightarrow> p < length b \<Longrightarrow>
     copy_in b i xs ! p = (if i \<le> p \<and> p < i + length xs then xs ! (p - i) else b ! p)"
  by (auto simp: copy_in_def nth_append)

lemma length_ring_at [simp]: "length (ring_at b i k) = k"
  by (simp add: ring_at_def)

lemma ring_at_nth [simp]: "j < k \<Longrightarrow> ring_at b i k ! j = b ! ((i + j) mod length b)"
  by (simp add: ring_at_def)

lemma unat_idx32 [simp]: "unat (ucast (i :: 31 word) :: u32) = unat i"
  using unsigned_less [of i, where ?'a = nat] by (simp add: unsigned_ucast_eq take_bit_nat_eq_self)

lemma rb_words:
  assumes "rb_rep n r xs"
  shows "unat (buf_size r) = n" "n \<le> 2 ^ 31" "0 < n" "length (buf r) = n"
    "unat (read_idx r) < n" "unat (write_idx r) < n" "length xs \<le> n"
proof -
  from assms have n: "0 < n" "n \<le> 2 ^ 31" "buf_size r = of_nat n" by (auto simp: rb_rep_def)
  then show "unat (buf_size r) = n" by (simp add: unsigned_of_nat take_bit_nat_eq_self)
  show "unat (write_idx r) < n" using assms n by (simp add: rb_rep_def)
qed (use assms in \<open>auto simp: rb_rep_def\<close>)

lemma rb_write_idx:
  assumes "rb_rep n r xs"
  shows "unat (write_idx r) =
    (if unat (read_idx r) + length xs < n then unat (read_idx r) + length xs
     else unat (read_idx r) + length xs - n)"
  using assms mod_once [of "unat (read_idx r) + length xs" n] by (auto simp: rb_rep_def)

lemma data_len_exact:
  assumes rep: "rb_rep n r xs"
  shows "unat (ringbuffer_data_len r) = length xs"
proof -
  note w = rb_words [OF rep] and i = rb_write_idx [OF rep]
  have m: "read_mirror r = write_mirror r \<longleftrightarrow> unat (read_idx r) + length xs < n"
    using rep by (simp add: rb_rep_def)
  let ?ri = "ucast (read_idx r) :: u32" and ?wi = "ucast (write_idx r) :: u32"
  have eq: "?ri = ?wi \<longleftrightarrow> unat (read_idx r) = unat (write_idx r)"
    unfolding word_unat_eq_iff unat_idx32 ..
  have lt: "?wi > ?ri \<longleftrightarrow> unat (write_idx r) > unat (read_idx r)"
    by (simp add: word_less_nat_alt)
  consider "?ri = ?wi" | "?wi > ?ri" | "?wi < ?ri" by (metis linorder_less_linear)
  then show ?thesis
  proof cases
    case 1
    then have "length xs = 0 \<or> length xs = n" using i w eq by (auto split: if_splits)
    with 1 m w show ?thesis by (auto simp: ringbuffer_data_len_def)
  next
    case 2
    then have "unat (?wi - ?ri) = unat (write_idx r) - unat (read_idx r)"
      by (simp add: unat_sub_if_size word_less_nat_alt)
    with 2 i lt w show ?thesis by (auto simp: ringbuffer_data_len_def Let_def split: if_splits)
  next
    case 3
    then have a: "unat (?ri - ?wi) = unat (read_idx r) - unat (write_idx r)"
      by (simp add: unat_sub_if_size word_less_nat_alt)
    with w have "unat (buf_size r - (?ri - ?wi)) = n - (unat (read_idx r) - unat (write_idx r))"
      by (simp add: unat_sub_if_size)
    moreover have "ringbuffer_data_len r = buf_size r - (?ri - ?wi)"
      using 3 by (auto simp: ringbuffer_data_len_def Let_def)
    moreover have "unat (write_idx r) < unat (read_idx r)" using 3 by (simp add: word_less_nat_alt)
    ultimately show ?thesis using i w by (auto split: if_splits)
  qed
qed

lemma unat_idx_store: "unat (x :: u32) < 2 ^ 31 \<Longrightarrow> unat (ucast x :: 31 word) = unat x"
  by (simp add: unsigned_ucast_eq take_bit_nat_eq_self)

lemma unat_min: "unat (if (a::u32) < b then a else b) = min (unat b) (unat a)"
  by (auto simp: word_less_nat_alt)

lemma bit1_eq: "(a :: 1 word) = b \<longleftrightarrow> bit a 0 = bit b 0"
  by (auto intro!: bit_word_eqI)

lemma NOT_bit_eq [simp]: "(NOT (a :: 1 word) = b) \<longleftrightarrow> a \<noteq> b" "(b = NOT a) \<longleftrightarrow> a \<noteq> b"
  by (auto simp: bit1_eq bit_not_iff)

text \<open>The bytes after a put: the new ones follow the old ones from \<open>i + k\<close> on.\<close>

lemma ring_at_extend:
  assumes len: "length b = n" "length b' = n" and k: "k + l \<le> n" and i: "i < n"
    and new: "\<And>j. j < l \<Longrightarrow> b' ! ((i + k + j) mod n) = data j"
    and old: "\<And>j. j < k \<Longrightarrow> b' ! ((i + j) mod n) = b ! ((i + j) mod n)"
  shows "ring_at b' i (k + l) = ring_at b i k @ vtake l data"
proof (rule nth_equalityI)
  fix j assume "j < length (ring_at b' i (k + l))"
  then have "j < k + l" by simp
  then show "ring_at b' i (k + l) ! j = (ring_at b i k @ vtake l data) ! j"
    using new [of "j - k"] old [of j] len by (auto simp: nth_append)
qed simp

lemma ring_at_take: "l \<le> k \<Longrightarrow> take l (ring_at b i k) = ring_at b i l"
  by (rule nth_equalityI) auto

lemma ring_at_drop:
  "length b = n \<Longrightarrow> 0 < n \<Longrightarrow> l \<le> k \<Longrightarrow> drop l (ring_at b i k) = ring_at b ((i + l) mod n) (k - l)"
  by (rule nth_equalityI) (auto simp: add.assoc mod_add_left_eq)

lemma ring_at_straight: "i + l \<le> length b \<Longrightarrow> ring_at b i l = take l (drop i b)"
  by (rule nth_equalityI) auto

lemma ring_at_wrapped:
  "length b = n \<Longrightarrow> i < n \<Longrightarrow> n - i \<le> l \<Longrightarrow> l \<le> n \<Longrightarrow>
     ring_at b i l = take (n - i) (drop i b) @ take (l - (n - i)) b"
  by (rule nth_equalityI) (auto simp: nth_append mod_once add.commute)

lemma put_sim:
  fixes len :: u32
  assumes rep: "rb_rep n r xs"
  defines "l \<equiv> min (unat len) (n - length xs)"
  shows "\<exists>k r'. ringbuffer_put r data len = (k, r') \<and> unat k = l \<and> rb_rep n r' (xs @ vtake l data)"
proof -
  note w = rb_words [OF rep] and wi = rb_write_idx [OF rep]
  have xs: "xs = ring_at (buf r) (unat (read_idx r)) (length xs)"
    and m: "read_mirror r = write_mirror r \<longleftrightarrow> unat (read_idx r) + length xs < n"
    and bs: "buf_size r = of_nat n"
    using rep by (auto simp: rb_rep_def)
  let ?ri = "unat (read_idx r)" and ?wi = "unat (write_idx r)" and ?k = "length xs"
  let ?w32 = "ucast (write_idx r) :: u32"
  have dl: "unat (ringbuffer_data_len r) = ?k" by (rule data_len_exact [OF rep])
  have sp: "unat (buf_size r - ringbuffer_data_len r) = n - ?k"
    using w dl by (simp add: unat_sub_if_size)
  show ?thesis
  proof (cases "buf_size r - ringbuffer_data_len r = 0")
    case True
    then have "l = 0" using sp by (simp add: l_def)
    with True rep show ?thesis by (auto simp: ringbuffer_put_def Let_def)
  next
    case False
    define L where "L = (if buf_size r - ringbuffer_data_len r < len
      then buf_size r - ringbuffer_data_len r else len)"
    have L: "unat L = l" unfolding L_def l_def by (simp only: unat_min sp)
    have l: "l \<le> n - ?k" by (simp add: l_def)
    have te: "unat (buf_size r - ?w32) = n - ?wi" using w by (simp add: unat_sub_if_size)
    show ?thesis
    proof (cases "buf_size r - ?w32 > L")
      case fits: True
      then have f: "?wi + l < n" using te L w by (simp add: word_less_nat_alt)
      let ?b = "copy_in (buf r) ?wi (vtake l data)"
      let ?r = "r\<lparr>buf := ?b, write_idx := ucast (?w32 + L)\<rparr>"
      have put: "ringbuffer_put r data len = (L, ?r)"
        using False fits by (simp add: ringbuffer_put_def Let_def L flip: L_def)
      have s: "unat (?w32 + L) = ?wi + l"
        using f w L by (simp add: unat_word_ariths)
      then have wi': "unat (ucast (?w32 + L) :: 31 word) = ?wi + l"
        using f w by (simp add: unat_idx_store)
      have b: "ring_at ?b ?ri (?k + l) = xs @ vtake l data"
      proof (subst xs, rule ring_at_extend [where n = n])
        show "?b ! ((?ri + ?k + j) mod n) = data j" if "j < l" for j
          using that f w wi l by (auto simp: copy_in_nth mod_once split: if_splits)
        show "?b ! ((?ri + j) mod n) = buf r ! ((?ri + j) mod n)" if "j < ?k" for j
          using that f w wi l by (auto simp: copy_in_nth mod_once split: if_splits)
      qed (use w l f in auto)
      have "rb_rep n ?r (xs @ vtake l data)"
        using w wi wi' m bs b l f by (auto simp: rb_rep_def mod_once)
      with put L show ?thesis by blast
    next
      case wraps: False
      then have f: "n \<le> ?wi + l" using te L w by (simp add: word_less_nat_alt)
      have D: "unat (L - (buf_size r - ?w32)) = l - (n - ?wi)"
        using wraps te L by (simp add: unat_sub_if_size word_less_nat_alt)
      let ?b0 = "copy_in (buf r) ?wi (vtake (n - ?wi) data)"
      let ?b = "copy_in ?b0 0 (vtake (l - (n - ?wi)) (vdrop (n - ?wi) data))"
      let ?r = "r\<lparr>buf := ?b, write_idx := ucast (L - (buf_size r - ?w32)),
        write_mirror := NOT (write_mirror r)\<rparr>"
      have put: "ringbuffer_put r data len = (L, ?r)"
        using False wraps by (simp add: ringbuffer_put_def Let_def L te D flip: L_def)
      have wi': "unat (ucast (L - (buf_size r - ?w32)) :: 31 word) = l - (n - ?wi)"
        using D w l by (simp add: unat_idx_store)
      have same: "read_mirror r = write_mirror r" "?ri + ?k < n"
        using m wi f w l by (auto split: if_splits)
      have b: "ring_at ?b ?ri (?k + l) = xs @ vtake l data"
      proof (subst xs, rule ring_at_extend [where n = n])
        show "?b ! ((?ri + ?k + j) mod n) = data j" if "j < l" for j
          using that f w wi l same by (auto simp: copy_in_nth mod_once split: if_splits)
        show "?b ! ((?ri + j) mod n) = buf r ! ((?ri + j) mod n)" if "j < ?k" for j
          using that f w wi l same by (auto simp: copy_in_nth mod_once split: if_splits)
      qed (use w l f in auto)
      have "rb_rep n ?r (xs @ vtake l data)"
        using w wi wi' same bs b l f by (auto simp: rb_rep_def mod_once)
      with put L show ?thesis by blast
    qed
  qed
qed

lemma get_sim:
  fixes len :: u32
  assumes rep: "rb_rep n r xs"
  defines "l \<equiv> min (unat len) (length xs)"
  shows "\<exists>k r'. ringbuffer_get r len = (k, take l xs, r') \<and> unat k = l \<and> rb_rep n r' (drop l xs)"
proof -
  note w = rb_words [OF rep]
  have xs: "xs = ring_at (buf r) (unat (read_idx r)) (length xs)"
    and m: "read_mirror r = write_mirror r \<longleftrightarrow> unat (read_idx r) + length xs < n"
    and wi: "unat (write_idx r) = (unat (read_idx r) + length xs) mod n"
    and bs: "buf_size r = of_nat n"
    using rep by (auto simp: rb_rep_def)
  let ?ri = "unat (read_idx r)" and ?k = "length xs" and ?r32 = "ucast (read_idx r) :: u32"
  have dl: "unat (ringbuffer_data_len r) = ?k" by (rule data_len_exact [OF rep])
  show ?thesis
  proof (cases "ringbuffer_data_len r = 0")
    case True
    then have "?k = 0" using dl by simp
    with True rep show ?thesis by (auto simp: ringbuffer_get_def Let_def l_def)
  next
    case False
    define L where "L = (if ringbuffer_data_len r < len then ringbuffer_data_len r else len)"
    have L: "unat L = l" unfolding L_def l_def by (simp only: unat_min dl)
    have l: "l \<le> ?k" by (simp add: l_def)
    have te: "unat (buf_size r - ?r32) = n - ?ri" using w by (simp add: unat_sub_if_size)
    have rest: "drop l xs = ring_at (buf r) ((?ri + l) mod n) (?k - l)"
      by (subst xs, rule ring_at_drop) (use w l in auto)
    have got: "take l xs = ring_at (buf r) ?ri l"
      by (subst xs, rule ring_at_take [OF l])
    have wrap: "((?ri + l) mod n + (?k - l)) mod n = (?ri + ?k) mod n"
      using l mod_add_left_eq [of "?ri + l" n "?k - l"] by simp
    show ?thesis
    proof (cases "buf_size r - ?r32 > L")
      case fits: True
      then have f: "?ri + l < n" using te L w by (simp add: word_less_nat_alt)
      let ?r = "r\<lparr>read_idx := ucast (?r32 + L)\<rparr>"
      have "ringbuffer_get r len = (L, take l xs, ?r)"
        using False fits f w unfolding got
        by (simp add: ringbuffer_get_def Let_def L ring_at_straight flip: L_def)
      moreover have "unat (?r32 + L) = ?ri + l"
        using f w L by (simp add: unat_word_ariths)
      then have "unat (ucast (?r32 + L) :: 31 word) = ?ri + l"
        using f w by (simp add: unat_idx_store)
      then have "rb_rep n ?r (drop l xs)"
        using w wi m bs rest l f wrap by (auto simp: rb_rep_def)
      ultimately show ?thesis using L by blast
    next
      case wraps: False
      then have f: "n \<le> ?ri + l" using te L w by (simp add: word_less_nat_alt)
      have D: "unat (L - (buf_size r - ?r32)) = l - (n - ?ri)"
        using wraps te L by (simp add: unat_sub_if_size word_less_nat_alt)
      have i: "(?ri + l) mod n = l - (n - ?ri)" using f w l by (simp add: mod_once)
      let ?r = "r\<lparr>read_idx := ucast (L - (buf_size r - ?r32)), read_mirror := NOT (read_mirror r)\<rparr>"
      have "ringbuffer_get r len = (L, take l xs, ?r)"
        using False wraps f w l unfolding got
        by (simp add: ringbuffer_get_def Let_def L te D ring_at_wrapped flip: L_def)
      moreover have "unat (ucast (L - (buf_size r - ?r32)) :: 31 word) = l - (n - ?ri)"
        using D w l by (simp add: unat_idx_store)
      then have "rb_rep n ?r (drop l xs)"
        using w wi m bs rest l f wrap by (auto simp: rb_rep_def i)
      ultimately show ?thesis using L by blast
    qed
  qed
qed

lemma rb_rep_init:
  "0 < length b \<Longrightarrow> length b \<le> 2 ^ 31 \<Longrightarrow>
     ringbuffer_init (Some r0) (Some b) (of_nat (length b)) = Some r \<Longrightarrow> rb_rep (length b) r []"
  by (auto simp: ringbuffer_init_def rb_rep_def ring_at_def)

lemma rb_sim:
  assumes rep: "rb_rep n r xs"
  shows "\<exists>r'. rb_step op r = Some (fst (rb_spec n op xs), r') \<and> rb_rep n r' (snd (rb_spec n op xs))"
proof -
  have word: "k = of_nat (unat k)" for k :: u32 by simp
  show ?thesis
  proof (cases op)
    case (RPut data len)
    obtain k r' where "ringbuffer_put r data len = (k, r')" "unat k = min (unat len) (n - length xs)"
      "rb_rep n r' (xs @ vtake (min (unat len) (n - length xs)) data)"
      using put_sim [OF rep, where len = len and data = data] by blast
    with RPut word [of k] show ?thesis by (simp add: Let_def)
  next
    case (RGet len)
    obtain k r' where "ringbuffer_get r len = (k, take (min (unat len) (length xs)) xs, r')"
      "unat k = min (unat len) (length xs)" "rb_rep n r' (drop (min (unat len) (length xs)) xs)"
      using get_sim [OF rep, where len = len] by blast
    with RGet word [of k] show ?thesis by (simp add: Let_def)
  next
    case RLen
    have "ringbuffer_data_len r = of_nat (length xs)"
      using word [of "ringbuffer_data_len r"] unfolding data_len_exact [OF rep] .
    with RLen rep show ?thesis by simp
  qed
qed

interpretation rb: forward_sim rb_step "rb_spec n" "\<lambda>_ _. True" "rb_rep n" for n
  by unfold_locales (rule rb_sim)

lemma all_allowed: "spec_ok astep (\<lambda>_ _. True) ops a"
  by (induction ops arbitrary: a) auto

subsection \<open>Properties\<close>

text \<open>C28. The ring buffer implements a byte queue of bounded size: started by
  \<^verbatim>\<open>ringbuffer_init\<close> on an array of at most \<open>2 ^ 31\<close> bytes, any session of puts and gets of any
  lengths stores what fits behind the bytes already there, hands the oldest bytes out in order,
  and returns the counts the specification gives, of a put, of a get and of the length query, through any number of turns of the ring.\<close>

theorem ring_buffer_refines:
  assumes "0 < length b" "length b \<le> 2 ^ 31"
    "ringbuffer_init (Some r0) (Some b) (of_nat (length b)) = Some r"
  shows "\<exists>r'. run_ops rb_step ops r = Some (fst (spec_run (rb_spec (length b)) ops []), r') \<and>
    rb_rep (length b) r' (snd (spec_run (rb_spec (length b)) ops []))"
  by (rule rb.run_sim [OF rb_rep_init [OF assms] all_allowed])

definition ex_data :: view where "ex_data i = of_nat i + 7"

lemma ring_buffer_refines_witness:
  "\<exists>r r'. ringbuffer_init (Some \<lparr>buf = [], buf_size = 0, read_mirror = 0, read_idx = 0,
        write_mirror = 0, write_idx = 0\<rparr>) (Some [0, 0, 0]) 3 = Some r \<and>
     run_ops rb_step [RPut ex_data 2, RGet 1, RPut ex_data 9, RLen, RGet 9] r
       = Some ([Count 2, Bytes 1 [7], Count 2, Count 3, Bytes 3 [8, 7, 8]], r')"
proof -
  let ?r0 = "\<lparr>buf = [], buf_size = 0, read_mirror = 0, read_idx = 0, write_mirror = 0, write_idx = 0\<rparr>"
  let ?ops = "[RPut ex_data 2, RGet 1, RPut ex_data 9, RLen, RGet 9]"
  obtain r where r: "ringbuffer_init (Some ?r0) (Some [0, 0, 0]) 3 = Some r"
    by (simp add: ringbuffer_init_def)
  have n: "length [0, 0, 0 :: u8] = 3" by simp
  have "0 < length [0, 0, 0 :: u8]" "length [0, 0, 0 :: u8] \<le> 2 ^ 31"
    "ringbuffer_init (Some ?r0) (Some [0, 0, 0]) (of_nat (length [0, 0, 0 :: u8])) = Some r"
    using r by simp_all
  from ring_buffer_refines [OF this, of ?ops, unfolded n]
  obtain r' where "run_ops rb_step ?ops r = Some (fst (spec_run (rb_spec 3) ?ops []), r')" by blast
  moreover have "fst (spec_run (rb_spec 3) ?ops [])
      = [Count 2, Bytes 1 [7], Count 2, Count 3, Bytes 3 [8, 7, 8]]"
    by code_simp
  ultimately show ?thesis using r by (metis (no_types))
qed

end
