(* ===== verification/Drv_Flash.thy ===== *)
theory Drv_Flash
  imports Zb_Prelude
begin

text \<open>
  The flash driver: \<^verbatim>\<open>proj/drivers/drv_flash.c\<close>, in the configuration of the monitor
  applications (no watchdog, no voltage check, no flash protection).

  The chip behind \<^verbatim>\<open>flash_read_page\<close>, \<^verbatim>\<open>flash_write_page\<close> and \<^verbatim>\<open>flash_erase_sector\<close> is a NOR
  flash: a byte per address, a write can only clear bits, and an erase sets all bits of the
  sector of 4096 bytes that holds the address. A write that meets a byte that was not erased
  leaves the conjunction there, which is what \<^verbatim>\<open>flash_writeWithCheck\<close> is for.
\<close>

type_synonym flash = "nat \<Rightarrow> u8"

definition FLASH_PAGE_SIZE :: nat where "FLASH_PAGE_SIZE = 256"
definition FLASH_SECTOR_SIZE :: nat where "FLASH_SECTOR_SIZE = 4096"

subsection \<open>The chip\<close>

definition flash_read_page :: "nat \<Rightarrow> nat \<Rightarrow> flash \<Rightarrow> bytes" where
  "flash_read_page a n f = map (\<lambda>i. f (a + i)) [0..<n]"

definition flash_write_page :: "nat \<Rightarrow> bytes \<Rightarrow> flash \<Rightarrow> flash" where
  "flash_write_page a xs f = (\<lambda>i. if a \<le> i \<and> i < a + length xs then f i AND xs ! (i - a) else f i)"

definition flash_erase_sector :: "nat \<Rightarrow> flash \<Rightarrow> flash" where
  "flash_erase_sector a f = (\<lambda>i. if i div FLASH_SECTOR_SIZE = a div FLASH_SECTOR_SIZE then 0xFF else f i)"

subsection \<open>The driver\<close>

definition flash_read :: "nat \<Rightarrow> nat \<Rightarrow> flash \<Rightarrow> bytes" where
  "flash_read a n f = flash_read_page a n f"

definition flash_write :: "nat \<Rightarrow> bytes \<Rightarrow> flash \<Rightarrow> flash" where
  "flash_write a xs f = flash_write_page a xs f"

definition flash_erase :: "nat \<Rightarrow> flash \<Rightarrow> flash" where
  "flash_erase a f = flash_erase_sector a f"

function check_loop :: "nat \<Rightarrow> bytes \<Rightarrow> flash \<Rightarrow> bool" where
  "check_loop a xs f =
     (if xs = [] then True
      else let wLen = min 48 (length xs) in
        if flash_read a wLen f \<noteq> take wLen xs then False
        else check_loop (a + wLen) (drop wLen xs) f)"
  by auto
termination by (relation "measure (\<lambda>(_, xs, _). length xs)") auto

declare check_loop.simps [simp del]

definition flash_writeWithCheck :: "nat \<Rightarrow> bytes \<Rightarrow> flash \<Rightarrow> bool \<times> flash" where
  "flash_writeWithCheck a xs f = (let f' = flash_write_page a xs f in (check_loop a xs f', f'))"

subsection \<open>Facts\<close>

lemma length_flash_read [simp]: "length (flash_read a n f) = n"
  by (simp add: flash_read_def flash_read_page_def)

lemma flash_read_nth [simp]: "i < n \<Longrightarrow> flash_read a n f ! i = f (a + i)"
  by (simp add: flash_read_def flash_read_page_def)

lemma flash_read_0 [simp]: "flash_read a 0 f = []"
  by (simp add: flash_read_def flash_read_page_def)

lemma flash_read_append: "flash_read a (m + n) f = flash_read a m f @ flash_read (a + m) n f"
  by (rule nth_equalityI) (auto simp: nth_append)

lemma take_flash_read: "k \<le> n \<Longrightarrow> take k (flash_read a n f) = flash_read a k f"
  by (rule nth_equalityI) auto

lemma drop_flash_read: "k \<le> n \<Longrightarrow> drop k (flash_read a n f) = flash_read (a + k) (n - k) f"
  by (rule nth_equalityI) (auto simp: add.assoc)

lemma flash_read_cong:
  "(\<And>i. a \<le> i \<Longrightarrow> i < a + n \<Longrightarrow> f i = g i) \<Longrightarrow> flash_read a n f = flash_read a n g"
  by (rule nth_equalityI) auto

lemma flash_write_outside: "i < a \<or> a + length xs \<le> i \<Longrightarrow> flash_write_page a xs f i = f i"
  by (auto simp: flash_write_page_def)

lemma flash_read_write_other:
  "b + n \<le> a \<or> a + length xs \<le> b \<Longrightarrow> flash_read b n (flash_write_page a xs f) = flash_read b n f"
  by (rule flash_read_cong) (auto simp: flash_write_page_def)

definition erased :: "nat \<Rightarrow> nat \<Rightarrow> flash \<Rightarrow> bool" where
  "erased a n f \<longleftrightarrow> (\<forall>i. a \<le> i \<longrightarrow> i < a + n \<longrightarrow> f i = 0xFF)"

lemma and_FF [simp]: "(0xFF :: u8) AND x = x"
proof -
  have "(0xFF :: u8) = - 1" by simp
  then show ?thesis by (metis and.left_neutral)
qed

lemma flash_read_write_erased:
  "erased a (length xs) f \<Longrightarrow> flash_read a (length xs) (flash_write_page a xs f) = xs"
  by (rule nth_equalityI) (auto simp: flash_write_page_def erased_def)

lemma erased_write_other:
  assumes "b + n \<le> a \<or> a + length xs \<le> b"
  shows "erased b n (flash_write_page a xs f) = erased b n f"
proof -
  have "flash_write_page a xs f i = f i" if "b \<le> i" "i < b + n" for i
    using that assms by (intro flash_write_outside) linarith
  then show ?thesis by (simp add: erased_def)
qed

lemma erased_mono: "erased a n f \<Longrightarrow> a \<le> b \<Longrightarrow> b + m \<le> a + n \<Longrightarrow> erased b m f"
  by (simp add: erased_def)

lemma check_loop_iff: "check_loop a xs f \<longleftrightarrow> flash_read a (length xs) f = xs"
proof (induction a xs f rule: check_loop.induct)
  case (1 a xs f)
  let ?w = "min 48 (length xs)"
  show ?case
  proof (cases "xs = []")
    case False
    have "flash_read a (length xs) f = flash_read a ?w f @ flash_read (a + ?w) (length xs - ?w) f"
      using flash_read_append [of a ?w "length xs - ?w" f] by simp
    moreover have "flash_read a ?w f @ flash_read (a + ?w) (length xs - ?w) f = take ?w xs @ drop ?w xs \<longleftrightarrow>
        flash_read a ?w f = take ?w xs \<and> flash_read (a + ?w) (length xs - ?w) f = drop ?w xs"
      by (rule append_eq_append_conv) simp
    ultimately have "flash_read a (length xs) f = xs \<longleftrightarrow>
        flash_read a ?w f = take ?w xs \<and> flash_read (a + ?w) (length xs - ?w) f = drop ?w xs"
      unfolding append_take_drop_id by (rule ssubst)
    with False 1 show ?thesis by (subst check_loop.simps) (auto simp: Let_def)
  qed (simp add: check_loop.simps)
qed

lemma writeWithCheck_iff:
  "flash_writeWithCheck a xs f =
     (flash_read a (length xs) (flash_write_page a xs f) = xs, flash_write_page a xs f)"
  by (simp add: flash_writeWithCheck_def check_loop_iff Let_def)

lemma writeWithCheck_erased:
  "erased a (length xs) f \<Longrightarrow> flash_writeWithCheck a xs f = (True, flash_write_page a xs f)"
  by (simp add: writeWithCheck_iff flash_read_write_erased)

text \<open>A byte whose bits are only cleared is written exactly.\<close>

lemma flash_write_byte: "f a AND x = x \<Longrightarrow> flash_writeWithCheck a [x] f = (True, f(a := x))"
proof -
  assume h: "f a AND x = x"
  then have "flash_write_page a [x] f = f(a := x)"
    by (auto simp: flash_write_page_def fun_eq_iff)
  moreover have "flash_read a 1 (f(a := x)) = [x]"
    by (simp add: flash_read_def flash_read_page_def)
  ultimately show ?thesis by (simp add: writeWithCheck_iff)
qed

lemma erased_erase:
  "a mod FLASH_SECTOR_SIZE = 0 \<Longrightarrow> erased a FLASH_SECTOR_SIZE (flash_erase a f)"
  unfolding erased_def flash_erase_def flash_erase_sector_def
proof (intro allI impI, simp, intro impI)
  fix i assume "a mod FLASH_SECTOR_SIZE = 0" "a \<le> i" "i < a + FLASH_SECTOR_SIZE"
    "i div FLASH_SECTOR_SIZE \<noteq> a div FLASH_SECTOR_SIZE"
  then show "f i = 255" by (auto simp: FLASH_SECTOR_SIZE_def)
qed

lemma flash_erase_other:
  "a mod FLASH_SECTOR_SIZE = 0 \<Longrightarrow> i < a \<or> a + FLASH_SECTOR_SIZE \<le> i \<Longrightarrow> flash_erase a f i = f i"
  by (auto simp: flash_erase_def flash_erase_sector_def FLASH_SECTOR_SIZE_def)

end
