(* ===== verification/Crc32.thy ===== *)
theory Crc32
  imports Zb_Prelude
begin

text \<open>
  The table-driven checksum \<^verbatim>\<open>xcrc32\<close> of \<^verbatim>\<open>proj/common/utility.c\<close>, which the flash driver and the
  OTA client use, and what it computes: one step of its table is eight steps of the division
  by the reflected CRC-32 polynomial.
\<close>

definition crc32_table :: "u32 list" where
  "crc32_table = [
     0x00000000, 0x77073096, 0xEE0E612C, 0x990951BA, 0x076DC419, 0x706AF48F, 0xE963A535, 0x9E6495A3,
     0x0EDB8832, 0x79DCB8A4, 0xE0D5E91E, 0x97D2D988, 0x09B64C2B, 0x7EB17CBD, 0xE7B82D07, 0x90BF1D91,
     0x1DB71064, 0x6AB020F2, 0xF3B97148, 0x84BE41DE, 0x1ADAD47D, 0x6DDDE4EB, 0xF4D4B551, 0x83D385C7,
     0x136C9856, 0x646BA8C0, 0xFD62F97A, 0x8A65C9EC, 0x14015C4F, 0x63066CD9, 0xFA0F3D63, 0x8D080DF5,
     0x3B6E20C8, 0x4C69105E, 0xD56041E4, 0xA2677172, 0x3C03E4D1, 0x4B04D447, 0xD20D85FD, 0xA50AB56B,
     0x35B5A8FA, 0x42B2986C, 0xDBBBC9D6, 0xACBCF940, 0x32D86CE3, 0x45DF5C75, 0xDCD60DCF, 0xABD13D59,
     0x26D930AC, 0x51DE003A, 0xC8D75180, 0xBFD06116, 0x21B4F4B5, 0x56B3C423, 0xCFBA9599, 0xB8BDA50F,
     0x2802B89E, 0x5F058808, 0xC60CD9B2, 0xB10BE924, 0x2F6F7C87, 0x58684C11, 0xC1611DAB, 0xB6662D3D,
     0x76DC4190, 0x01DB7106, 0x98D220BC, 0xEFD5102A, 0x71B18589, 0x06B6B51F, 0x9FBFE4A5, 0xE8B8D433,
     0x7807C9A2, 0x0F00F934, 0x9609A88E, 0xE10E9818, 0x7F6A0DBB, 0x086D3D2D, 0x91646C97, 0xE6635C01,
     0x6B6B51F4, 0x1C6C6162, 0x856530D8, 0xF262004E, 0x6C0695ED, 0x1B01A57B, 0x8208F4C1, 0xF50FC457,
     0x65B0D9C6, 0x12B7E950, 0x8BBEB8EA, 0xFCB9887C, 0x62DD1DDF, 0x15DA2D49, 0x8CD37CF3, 0xFBD44C65,
     0x4DB26158, 0x3AB551CE, 0xA3BC0074, 0xD4BB30E2, 0x4ADFA541, 0x3DD895D7, 0xA4D1C46D, 0xD3D6F4FB,
     0x4369E96A, 0x346ED9FC, 0xAD678846, 0xDA60B8D0, 0x44042D73, 0x33031DE5, 0xAA0A4C5F, 0xDD0D7CC9,
     0x5005713C, 0x270241AA, 0xBE0B1010, 0xC90C2086, 0x5768B525, 0x206F85B3, 0xB966D409, 0xCE61E49F,
     0x5EDEF90E, 0x29D9C998, 0xB0D09822, 0xC7D7A8B4, 0x59B33D17, 0x2EB40D81, 0xB7BD5C3B, 0xC0BA6CAD,
     0xEDB88320, 0x9ABFB3B6, 0x03B6E20C, 0x74B1D29A, 0xEAD54739, 0x9DD277AF, 0x04DB2615, 0x73DC1683,
     0xE3630B12, 0x94643B84, 0x0D6D6A3E, 0x7A6A5AA8, 0xE40ECF0B, 0x9309FF9D, 0x0A00AE27, 0x7D079EB1,
     0xF00F9344, 0x8708A3D2, 0x1E01F268, 0x6906C2FE, 0xF762575D, 0x806567CB, 0x196C3671, 0x6E6B06E7,
     0xFED41B76, 0x89D32BE0, 0x10DA7A5A, 0x67DD4ACC, 0xF9B9DF6F, 0x8EBEEFF9, 0x17B7BE43, 0x60B08ED5,
     0xD6D6A3E8, 0xA1D1937E, 0x38D8C2C4, 0x4FDFF252, 0xD1BB67F1, 0xA6BC5767, 0x3FB506DD, 0x48B2364B,
     0xD80D2BDA, 0xAF0A1B4C, 0x36034AF6, 0x41047A60, 0xDF60EFC3, 0xA867DF55, 0x316E8EEF, 0x4669BE79,
     0xCB61B38C, 0xBC66831A, 0x256FD2A0, 0x5268E236, 0xCC0C7795, 0xBB0B4703, 0x220216B9, 0x5505262F,
     0xC5BA3BBE, 0xB2BD0B28, 0x2BB45A92, 0x5CB36A04, 0xC2D7FFA7, 0xB5D0CF31, 0x2CD99E8B, 0x5BDEAE1D,
     0x9B64C2B0, 0xEC63F226, 0x756AA39C, 0x026D930A, 0x9C0906A9, 0xEB0E363F, 0x72076785, 0x05005713,
     0x95BF4A82, 0xE2B87A14, 0x7BB12BAE, 0x0CB61B38, 0x92D28E9B, 0xE5D5BE0D, 0x7CDCEFB7, 0x0BDBDF21,
     0x86D3D2D4, 0xF1D4E242, 0x68DDB3F8, 0x1FDA836E, 0x81BE16CD, 0xF6B9265B, 0x6FB077E1, 0x18B74777,
     0x88085AE6, 0xFF0F6A70, 0x66063BCA, 0x11010B5C, 0x8F659EFF, 0xF862AE69, 0x616BFFD3, 0x166CCF45,
     0xA00AE278, 0xD70DD2EE, 0x4E048354, 0x3903B3C2, 0xA7672661, 0xD06016F7, 0x4969474D, 0x3E6E77DB,
     0xAED16A4A, 0xD9D65ADC, 0x40DF0B66, 0x37D83BF0, 0xA9BCAE53, 0xDEBB9EC5, 0x47B2CF7F, 0x30B5FFE9,
     0xBDBDF21C, 0xCABAC28A, 0x53B39330, 0x24B4A3A6, 0xBAD03605, 0xCDD70693, 0x54DE5729, 0x23D967BF,
     0xB3667A2E, 0xC4614AB8, 0x5D681B02, 0x2A6F2B94, 0xB40BBE37, 0xC30C8EA1, 0x5A05DF1B, 0x2D02EF8D]"

definition xcrc32_step :: "u8 \<Rightarrow> u32 \<Rightarrow> u32" where
  "xcrc32_step b crc = drop_bit 8 crc XOR crc32_table ! unat ((crc XOR ucast b) AND 0xff)"

fun xcrc32 :: "bytes \<Rightarrow> u32 \<Rightarrow> u32" where
  "xcrc32 [] crc = crc"
| "xcrc32 (b # bs) crc = xcrc32 bs (xcrc32_step b crc)"

lemma xcrc32_append [simp]: "xcrc32 (xs @ ys) c = xcrc32 ys (xcrc32 xs c)"
  by (induction xs arbitrary: c) auto

subsection \<open>The reference\<close>

definition crc_bit :: "u32 \<Rightarrow> u32" where
  "crc_bit c = (if bit c 0 then drop_bit 1 c XOR 0xEDB88320 else drop_bit 1 c)"

definition crc_byte :: "u8 \<Rightarrow> u32 \<Rightarrow> u32" where
  "crc_byte b c = (crc_bit ^^ 8) (c XOR ucast b)"

definition crc32_ref :: "bytes \<Rightarrow> u32 \<Rightarrow> u32" where
  "crc32_ref bs c = fold crc_byte bs c"

lemma crc_bit_numeral:
  "crc_bit (numeral (num.Bit0 n)) = drop_bit 1 (numeral (num.Bit0 n))"
  "crc_bit (numeral (num.Bit1 n)) = drop_bit 1 (numeral (num.Bit1 n)) XOR 0xEDB88320"
  "crc_bit 1 = 0xEDB88320" "crc_bit 0 = 0"
  by (simp_all add: crc_bit_def bit_simps)

lemma crc8_unfold:
  "(crc_bit ^^ 8) c = crc_bit (crc_bit (crc_bit (crc_bit (crc_bit (crc_bit (crc_bit (crc_bit c)))))))"
  by (simp add: eval_nat_numeral)

lemma crc_bit_xor: "crc_bit (a XOR b) = crc_bit a XOR crc_bit b"
  by (rule bit_word_eqI) (auto simp: crc_bit_def bit_simps)

lemma crc_bits_xor: "(crc_bit ^^ n) (a XOR b) = (crc_bit ^^ n) a XOR (crc_bit ^^ n) b"
  by (induction n) (auto simp: crc_bit_xor)

lemma crc_bits_high: "(\<And>i. i < n \<Longrightarrow> \<not> bit y i) \<Longrightarrow> (crc_bit ^^ n) y = drop_bit n y"
proof (induction n)
  case (Suc n)
  then have "(crc_bit ^^ n) y = drop_bit n y" "\<not> bit (drop_bit n y) 0" by (auto simp: bit_simps)
  then have "crc_bit (drop_bit n y) = drop_bit (Suc n) y" by (simp add: crc_bit_def)
  with \<open>(crc_bit ^^ n) y = drop_bit n y\<close> show ?case by simp
qed simp

text \<open>The table is the span of its entries at the powers of two.\<close>

definition span_xor :: "u32 \<Rightarrow> u32 list \<Rightarrow> u32 list" where
  "span_xor t xs = xs @ map (\<lambda>x. x XOR t) xs"

definition crc_rounds :: "nat \<Rightarrow> u32 list" where
  "crc_rounds k = map (\<lambda>n. (crc_bit ^^ 8) (of_nat n)) [0..<2 ^ k]"

lemma crc_rounds_Suc:
  assumes "k < 32"
  shows "crc_rounds (Suc k) = span_xor ((crc_bit ^^ 8) (2 ^ k)) (crc_rounds k)"
proof -
  have "(crc_bit ^^ 8) (of_nat (n + 2 ^ k)) = (crc_bit ^^ 8) (of_nat n) XOR (crc_bit ^^ 8) (2 ^ k)"
    if "n < 2 ^ k" for n
  proof -
    have "\<not> bit n i" if "i \<ge> k" for i
    proof -
      have "n < 2 ^ i" using \<open>n < 2 ^ k\<close> that by (meson order_less_le_trans one_le_numeral power_increasing)
      then show ?thesis by (simp add: bit_iff_odd)
    qed
    then have "(of_nat n :: u32) AND 2 ^ k = 0"
      by (intro bit_word_eqI) (auto simp: bit_simps)
    then have "(of_nat n + 2 ^ k :: u32) = of_nat n XOR 2 ^ k"
      by (simp add: disjunctive_add_eq_xor)
    then show ?thesis by (simp add: crc_bits_xor)
  qed
  moreover have "[0..<2 ^ Suc k] = [0..<2 ^ k] @ map (\<lambda>n. n + 2 ^ k) [0..<2 ^ k]"
    unfolding map_add_upt power_Suc mult_2 by (rule upt_add_eq_append) simp
  ultimately show ?thesis by (simp add: crc_rounds_def span_xor_def del: of_nat_add power_Suc)
qed

lemma crc32_table_rounds: "crc32_table = crc_rounds 8"
proof -
  have r: "crc_rounds 8 = fold span_xor (map (\<lambda>k. (crc_bit ^^ 8) (2 ^ k)) [0, 1, 2, 3, 4, 5, 6, 7]) [0]"
  proof -
    have "crc_rounds 0 = [0]" by (simp add: crc_rounds_def crc8_unfold crc_bit_numeral)
    then show ?thesis by (simp add: eval_nat_numeral crc_rounds_Suc)
  qed
  have p: "(crc_bit ^^ 8) (2 ^ 0) = 0x77073096" "(crc_bit ^^ 8) (2 ^ 1) = 0xEE0E612C"
    "(crc_bit ^^ 8) (2 ^ 2) = 0x076DC419" "(crc_bit ^^ 8) (2 ^ 3) = 0x0EDB8832"
    "(crc_bit ^^ 8) (2 ^ 4) = 0x1DB71064" "(crc_bit ^^ 8) (2 ^ 5) = 0x3B6E20C8"
    "(crc_bit ^^ 8) (2 ^ 6) = 0x76DC4190" "(crc_bit ^^ 8) (2 ^ 7) = 0xEDB88320"
    unfolding crc8_unfold by (simp_all add: crc_bit_numeral)
  show ?thesis
    unfolding r list.map p by (simp add: crc32_table_def span_xor_def)
qed

lemma xcrc32_step_ref: "xcrc32_step b c = crc_byte b c"
proof -
  let ?x = "c XOR ucast b :: u32"
  let ?lo = "?x AND 0xff" and ?hi = "?x AND NOT 0xff"
  have m: "(0xff :: u32) = mask 8" by (simp add: mask_eq_exp_minus_1)
  have "?x = ?hi XOR ?lo"
    by (rule bit_word_eqI) (auto simp: bit_simps)
  then have "(crc_bit ^^ 8) ?x = (crc_bit ^^ 8) ?hi XOR (crc_bit ^^ 8) ?lo"
    by (metis crc_bits_xor)
  moreover have "(crc_bit ^^ 8) ?hi = drop_bit 8 ?hi"
    unfolding m by (rule crc_bits_high) (auto simp: bit_simps)
  moreover have "drop_bit 8 ?hi = drop_bit 8 c"
    unfolding m by (rule bit_word_eqI) (auto simp: bit_simps dest: bit_imp_le_length)
  moreover have "unat ?lo < 256"
    unfolding m take_bit_eq_mask [symmetric] unsigned_take_bit_eq
    using take_bit_nat_less_exp [of 8 "unat ?x"] by simp
  then have "crc32_table ! unat ?lo = (crc_bit ^^ 8) ?lo"
    by (simp add: crc32_table_rounds crc_rounds_def)
  ultimately show ?thesis by (simp add: xcrc32_step_def crc_byte_def)
qed

subsection \<open>Property\<close>

text \<open>C29. The checksum that protects the flash is CRC-32: on any bytes and any start value the
  table of 256 words computes what the division by the reflected polynomial 0xEDB88320 computes
  bit by bit.\<close>

theorem xcrc32_is_crc32: "xcrc32 bs c = crc32_ref bs c"
  by (induction bs arbitrary: c) (simp_all add: crc32_ref_def xcrc32_step_ref)

end
