(* ===== verification/Drv_Nv.thy ===== *)
theory Drv_Nv
  imports Drv_Flash Crc32 Ev_Buffer
begin

text \<open>
  The store of non-volatile items: \<^verbatim>\<open>proj/drivers/drv_nv.c\<close> with the layout of
  \<^verbatim>\<open>proj/drivers/drv_nv.h\<close>, for a chip with 1 MB of flash and an index entry of eight bytes.

  A module has two sectors. The sector in use holds a header, an index that grows upwards, and
  a context area with one item per index entry: an item header and its payload, at an offset
  that is a multiple of four. A write appends an item and an index entry; the entry passes
  through \<open>ITEM_FIELD_OPERATION\<close> to valid, and an older entry of the same item becomes invalid,
  all by clearing bits. A full sector is copied, without the items that are superseded, to the
  other one.

  Addresses, module ids and indices are natural numbers; where the code adds in 32 bits to a
  value it read from the flash, the wrap-around is written out. What the chip holds is the
  state of every operation; the buffer pool is threaded through the one that allocates.
\<close>

subsection \<open>Layout\<close>

definition NV_BASE_ADDRESS :: nat where "NV_BASE_ADDRESS = 0x80000"
definition CFG_FACTORY_RST_CNT :: nat where "CFG_FACTORY_RST_CNT = 0xFC000"

definition NV_MODULE_ADDRESS_TABLE :: nat where "NV_MODULE_ADDRESS_TABLE = 1"
definition NV_MODULE_NWK_FRAME_COUNT :: nat where "NV_MODULE_NWK_FRAME_COUNT = 4"
definition NV_MODULE_OTA :: nat where "NV_MODULE_OTA = 5"
definition NV_MODULE_APP :: nat where "NV_MODULE_APP = 6"
definition NV_MODULE_KEYPAIR :: nat where "NV_MODULE_KEYPAIR = 7"
definition NV_MAX_MODULS :: nat where "NV_MAX_MODULS = 8"

definition MODULES_START_ADDR :: "nat \<Rightarrow> nat" where
  "MODULES_START_ADDR md = NV_BASE_ADDRESS + FLASH_SECTOR_SIZE * (2 * md)"

definition NV_SECTOR_SIZE :: "nat \<Rightarrow> nat" where
  "NV_SECTOR_SIZE md = (if md = NV_MODULE_KEYPAIR then 4 * FLASH_SECTOR_SIZE else FLASH_SECTOR_SIZE)"

definition MODULE_INFO_SIZE :: "nat \<Rightarrow> nat" where
  "MODULE_INFO_SIZE md =
     (if md = NV_MODULE_OTA \<or> md = NV_MODULE_KEYPAIR \<or> md = NV_MODULE_ADDRESS_TABLE
      then (if md = NV_MODULE_KEYPAIR then 12 * FLASH_PAGE_SIZE else 4 * FLASH_PAGE_SIZE)
      else 2 * FLASH_PAGE_SIZE)"

definition MODULE_SECTOR_NUM :: nat where "MODULE_SECTOR_NUM = 2"

definition SECT_INFO_SIZE :: nat where "SECT_INFO_SIZE = 4"   \<comment> \<open>\<^verbatim>\<open>sizeof(nv_sect_info_t)\<close>\<close>
definition IDX_SIZE :: nat where "IDX_SIZE = 8"               \<comment> \<open>\<^verbatim>\<open>sizeof(nv_info_idx_t)\<close>\<close>
definition HDR_SIZE :: nat where "HDR_SIZE = 8"               \<comment> \<open>\<^verbatim>\<open>sizeof(itemHdr_t)\<close>\<close>

definition MODULE_IDX_SIZE :: "nat \<Rightarrow> nat" where
  "MODULE_IDX_SIZE md = MODULE_INFO_SIZE md - SECT_INFO_SIZE"

definition MODULE_SECT_START :: "nat \<Rightarrow> nat \<Rightarrow> nat" where
  "MODULE_SECT_START md sectNo = MODULES_START_ADDR md + sectNo * NV_SECTOR_SIZE md"

definition MODULE_SECT_END :: "nat \<Rightarrow> nat \<Rightarrow> nat" where
  "MODULE_SECT_END md sectNo = MODULES_START_ADDR md + (sectNo + 1) * NV_SECTOR_SIZE md"

definition MODULE_IDX_START :: "nat \<Rightarrow> nat \<Rightarrow> nat" where
  "MODULE_IDX_START md sectNo = MODULE_SECT_START md sectNo + SECT_INFO_SIZE"

definition MODULE_IDX_NUM :: "nat \<Rightarrow> nat" where
  "MODULE_IDX_NUM md = MODULE_IDX_SIZE md div IDX_SIZE"

definition MODULE_CONTEXT_START :: "nat \<Rightarrow> nat \<Rightarrow> nat" where
  "MODULE_CONTEXT_START md sectNo = MODULE_SECT_START md sectNo + MODULE_INFO_SIZE md"

definition ITEM_TOTAL_LEN :: "u16 \<Rightarrow> nat" where
  "ITEM_TOTAL_LEN len = unat len + HDR_SIZE"

definition align4 :: "nat \<Rightarrow> nat" where
  \<comment> \<open>\<^verbatim>\<open>(a + 3) & (~0x03)\<close> in 32 bits\<close>
  "align4 a = ((a + 3) mod 2 ^ 32) div 4 * 4"

definition NV_SECTOR_VALID :: u16 where "NV_SECTOR_VALID = 0x5A5A"
definition NV_SECTOR_VALID_CHECKCRC :: u16 where "NV_SECTOR_VALID_CHECKCRC = 0x7A7A"
definition NV_SECTOR_VALID_READY_CHECKCRC :: u16 where "NV_SECTOR_VALID_READY_CHECKCRC = 0xFAFA"
definition NV_SECTOR_INVALID :: u16 where "NV_SECTOR_INVALID = 0x5050"

definition ITEM_FIELD_VALID :: u8 where "ITEM_FIELD_VALID = 0x5A"
definition ITEM_FIELD_VALID_SINGLE :: u8 where "ITEM_FIELD_VALID_SINGLE = 0x7A"
definition ITEM_FIELD_INVALID :: u8 where "ITEM_FIELD_INVALID = 0x50"
definition ITEM_FIELD_OPERATION :: u8 where "ITEM_FIELD_OPERATION = 0xFA"
definition ITEM_FIELD_IDLE :: u8 where "ITEM_FIELD_IDLE = 0xFF"

definition ITEM_HDR_FIELD_VALID_CHECKSUM :: u8 where "ITEM_HDR_FIELD_VALID_CHECKSUM = 0x5A"
definition ITEM_HDR_FIELD_VALID_CHECKCRC :: u8 where "ITEM_HDR_FIELD_VALID_CHECKCRC = 0x7A"

datatype nv_sts_t =
  NV_SUCC | NV_INVALID_MODULS | NV_INVALID_ID | NV_ITEM_NOT_FOUND | NV_NOT_ENOUGH_SAPCE
| NV_ITEM_LEN_NOT_MATCH | NV_CHECK_SUM_ERROR | NV_ENABLE_PROTECT_ERROR | NV_NO_MEDIA
| NV_DATA_CHECK_ERROR | NV_ITEM_CHECK_ERROR | NV_MODULE_NOT_FOUND | NV_MODULE_ERASE_NEED

subsection \<open>Records and their bytes\<close>

record nv_sect_info_t =
  si_usedFlag :: u16
  si_idName :: u8
  si_opSect :: u8

record nv_info_idx_t =
  ix_offset :: u32
  ix_size :: u16
  ix_itemId :: u8
  ix_usedState :: u8

record itemHdr_t =
  hd_checkSum :: u32
  hd_size :: u16
  hd_itemId :: u8
  hd_used :: u8

definition u32_bytes :: "u32 \<Rightarrow> bytes" where
  "u32_bytes x = [ucast x, ucast (drop_bit 8 x), ucast (drop_bit 16 x), ucast (drop_bit 24 x)]"

definition u16_of :: "bytes \<Rightarrow> u16" where
  "u16_of xs = BUILD_U16 (xs ! 0) (xs ! 1)"

definition u32_of :: "bytes \<Rightarrow> u32" where
  "u32_of xs = BUILD_U32 (xs ! 0) (xs ! 1) (xs ! 2) (xs ! 3)"

definition sect_bytes :: "nv_sect_info_t \<Rightarrow> bytes" where
  "sect_bytes s = u16_bytes (si_usedFlag s) @ [si_idName s, si_opSect s]"

definition sect_of :: "bytes \<Rightarrow> nv_sect_info_t" where
  "sect_of xs = \<lparr>si_usedFlag = u16_of xs, si_idName = xs ! 2, si_opSect = xs ! 3\<rparr>"

definition idx_bytes :: "nv_info_idx_t \<Rightarrow> bytes" where
  "idx_bytes e = u32_bytes (ix_offset e) @ u16_bytes (ix_size e) @ [ix_itemId e, ix_usedState e]"

definition idx_of :: "bytes \<Rightarrow> nv_info_idx_t" where
  "idx_of xs = \<lparr>ix_offset = u32_of xs, ix_size = u16_of (drop 4 xs), ix_itemId = xs ! 6, ix_usedState = xs ! 7\<rparr>"

definition hdr_bytes :: "itemHdr_t \<Rightarrow> bytes" where
  "hdr_bytes h = u32_bytes (hd_checkSum h) @ u16_bytes (hd_size h) @ [hd_itemId h, hd_used h]"

definition hdr_of :: "bytes \<Rightarrow> itemHdr_t" where
  "hdr_of xs = \<lparr>hd_checkSum = u32_of xs, hd_size = u16_of (drop 4 xs), hd_itemId = xs ! 6, hd_used = xs ! 7\<rparr>"

definition idx_at :: "nat \<Rightarrow> flash \<Rightarrow> nv_info_idx_t" where
  "idx_at a f = idx_of (flash_read a IDX_SIZE f)"

definition hdr_at :: "nat \<Rightarrow> flash \<Rightarrow> itemHdr_t" where
  "hdr_at a f = hdr_of (flash_read a HDR_SIZE f)"

definition sect_at :: "nat \<Rightarrow> flash \<Rightarrow> nv_sect_info_t" where
  "sect_at a f = sect_of (flash_read a SECT_INFO_SIZE f)"

definition crc_init :: u32 where "crc_init = 0xffffffff"

definition idx_crc :: "nv_info_idx_t \<Rightarrow> u32" where
  \<comment> \<open>over the entry without its state\<close>
  "idx_crc e = xcrc32 (take (IDX_SIZE - 1) (idx_bytes e)) crc_init"

definition hdr_tail :: "itemHdr_t \<Rightarrow> bytes" where
  \<comment> \<open>the four bytes at \<^verbatim>\<open>&hdr.size\<close>\<close>
  "hdr_tail h = drop 4 (hdr_bytes h)"

definition lo16 :: "u32 \<Rightarrow> u32" where "lo16 x = x AND 0xffff"
definition hi16 :: "u32 \<Rightarrow> u32" where "hi16 x = drop_bit 16 x AND 0xffff"

subsection \<open>Checks\<close>

definition SECT_VALID_CHECK :: "nv_sect_info_t \<Rightarrow> bool" where
  "SECT_VALID_CHECK s \<longleftrightarrow> si_usedFlag s = NV_SECTOR_VALID \<or> si_usedFlag s = NV_SECTOR_VALID_CHECKCRC"

definition ITEM_VALID_FLAG_CHECK :: "u8 \<Rightarrow> bool" where
  "ITEM_VALID_FLAG_CHECK v \<longleftrightarrow> v = ITEM_FIELD_VALID \<or> v = ITEM_FIELD_VALID_SINGLE"

definition ITEM_FLAG_CHECK :: "u8 \<Rightarrow> bool" where
  "ITEM_FLAG_CHECK v \<longleftrightarrow> v = ITEM_FIELD_VALID \<or> v = ITEM_FIELD_VALID_SINGLE \<or>
     v = ITEM_FIELD_INVALID \<or> v = ITEM_FIELD_OPERATION"

definition ITEM_OFT_CHECK :: "nat \<Rightarrow> nat \<Rightarrow> nat \<Rightarrow> nat \<Rightarrow> bool" where
  "ITEM_OFT_CHECK oft sz md sec \<longleftrightarrow>
     oft \<ge> MODULE_CONTEXT_START md sec \<and> oft < MODULE_SECT_END md sec \<and> MODULE_SECT_END md sec - oft \<ge> sz"

definition ITEM_HDR_VALID_CHECK :: "u8 \<Rightarrow> bool" where
  "ITEM_HDR_VALID_CHECK v \<longleftrightarrow> v = ITEM_HDR_FIELD_VALID_CHECKSUM \<or> v = ITEM_HDR_FIELD_VALID_CHECKCRC"

text \<open>A length of zero is a division by zero in C; here \<open>x mod 0 = x\<close>.\<close>

definition NV_ITEMLEN_MATCH :: "u32 \<Rightarrow> u16 \<Rightarrow> bool" where
  "NV_ITEMLEN_MATCH len unitLen \<longleftrightarrow> len mod ucast unitLen = 0"

subsection \<open>The table of item lengths\<close>

record nv_itemLenChk_t =
  lc_itemId :: u8
  lc_len :: u16

record nv_len_tbl =
  g_nvItemLengthCheckNum :: nat
  g_nvItemLenCheckTbl :: "nv_itemLenChk_t list"   \<comment> \<open>16 entries\<close>
  T_nvExcept :: nat

definition NV_ITEM_LEN_CHK_TABBLE_NUM :: nat where "NV_ITEM_LEN_CHK_TABBLE_NUM = 16"

definition nv_itemLengthCheckAdd :: "u8 \<Rightarrow> u16 \<Rightarrow> nv_len_tbl \<Rightarrow> nv_len_tbl" where
  "nv_itemLengthCheckAdd itemId len t =
     (case find_index (\<lambda>e. lc_itemId e = itemId) (take (g_nvItemLengthCheckNum t) (g_nvItemLenCheckTbl t)) of
        Some i \<Rightarrow> t\<lparr>g_nvItemLenCheckTbl := (g_nvItemLenCheckTbl t)[i := (g_nvItemLenCheckTbl t ! i)\<lparr>lc_len := len\<rparr>]\<rparr>
      | None \<Rightarrow>
         if g_nvItemLengthCheckNum t \<ge> NV_ITEM_LEN_CHK_TABBLE_NUM then t\<lparr>T_nvExcept := T_nvExcept t + 1\<rparr>
         else t\<lparr>g_nvItemLenCheckTbl := (g_nvItemLenCheckTbl t)
                  [g_nvItemLengthCheckNum t := \<lparr>lc_itemId = itemId, lc_len = len\<rparr>],
                g_nvItemLengthCheckNum := g_nvItemLengthCheckNum t + 1\<rparr>)"

definition nv_itemLengthValidCheck :: "nv_len_tbl \<Rightarrow> u8 \<Rightarrow> u16 \<Rightarrow> u16" where
  "nv_itemLengthValidCheck t itemId len =
     (case List.find (\<lambda>e. lc_itemId e = itemId) (g_nvItemLenCheckTbl t) of
        Some e \<Rightarrow> min (lc_len e) len
      | None \<Rightarrow> len)"

subsection \<open>Searching the index\<close>

datatype chunk_res = Miss | Jump nat | LenHit u16

fun chunk_scan :: "u8 \<Rightarrow> u16 \<Rightarrow> bool \<Rightarrow> nv_info_idx_t list \<Rightarrow> nat \<Rightarrow> chunk_res" where
  "chunk_scan itemId len lenCheck es 0 = Miss"
| "chunk_scan itemId len lenCheck es (Suc i) =
     (let e = es ! i in
      if itemId \<noteq> ITEM_FIELD_IDLE then
        if ITEM_VALID_FLAG_CHECK (ix_usedState e) \<and> ix_itemId e = itemId then
          if lenCheck then
            if NV_ITEMLEN_MATCH (ucast (ix_size e) - 8) len then Jump i
            else chunk_scan itemId len lenCheck es i
          else LenHit (ix_size e - 8)
        else chunk_scan itemId len lenCheck es i
      else
        if ix_usedState e \<noteq> ITEM_FIELD_IDLE \<or> ix_size e \<noteq> 0xffff \<or> ix_itemId e \<noteq> itemId then Jump i
        else chunk_scan itemId len lenCheck es i)"

text \<open>The index is read backwards, four entries at a time. In the mode without a length check
  the inner loop is left but the outer one goes on, and the position is never set.\<close>

function index_loop ::
  "u8 \<Rightarrow> u16 \<Rightarrow> bool \<Rightarrow> nat \<Rightarrow> flash \<Rightarrow> nat \<Rightarrow> nv_sts_t \<times> u16 \<Rightarrow> nv_sts_t \<times> u16 \<times> nat option" where
  "index_loop itemId len lenCheck start f idxTotalNum (ret, itemLen) =
     (if idxTotalNum = 0 then (ret, itemLen, None)
      else
        let readIdxNum = min 4 idxTotalNum;
            opItemIdx = idxTotalNum - readIdxNum;
            raw = flash_read (start + opItemIdx * IDX_SIZE) (readIdxNum * IDX_SIZE) f;
            es = map (\<lambda>j. idx_of (take IDX_SIZE (drop (j * IDX_SIZE) raw))) [0..<readIdxNum] in
        case chunk_scan itemId len lenCheck es readIdxNum of
          Jump i \<Rightarrow> (NV_SUCC, itemLen, Some (opItemIdx + i))
        | LenHit l \<Rightarrow> index_loop itemId len lenCheck start f opItemIdx (NV_SUCC, l)
        | Miss \<Rightarrow> index_loop itemId len lenCheck start f opItemIdx (ret, itemLen))"
  by auto
termination by (relation "measure (\<lambda>(_, _, _, _, _, n, _). n)") auto

declare index_loop.simps [simp del]

definition nv_index_read_op ::
  "nat \<Rightarrow> u8 \<Rightarrow> u16 \<Rightarrow> nat \<Rightarrow> nat \<Rightarrow> bool \<Rightarrow> flash \<Rightarrow> nv_sts_t \<times> u16 \<times> nat option" where
  "nv_index_read_op md itemId itemLen opSect totalItemNum lenCheck f =
     index_loop itemId itemLen lenCheck (MODULE_IDX_START md opSect) f totalItemNum
       (NV_ITEM_NOT_FOUND, itemLen)"

definition nv_index_read ::
  "nat \<Rightarrow> u8 \<Rightarrow> u16 \<Rightarrow> nat \<Rightarrow> nat \<Rightarrow> flash \<Rightarrow> nv_sts_t \<times> nat option" where
  "nv_index_read md itemId len opSect totalItemNum f =
     (let (ret, _, idxNo) = nv_index_read_op md itemId len opSect totalItemNum True f in (ret, idxNo))"

subsection \<open>Sectors\<close>

definition nv_sect_info_check :: "nat \<Rightarrow> nat \<Rightarrow> flash \<Rightarrow> nv_sts_t" where
  "nv_sect_info_check sect md f =
     (if SECT_VALID_CHECK (sect_at (MODULE_SECT_START md sect) f) then NV_SUCC else NV_MODULE_NOT_FOUND)"

definition nv_sectInfoCrcCheck :: "nv_sect_info_t \<Rightarrow> bool" where
  "nv_sectInfoCrcCheck s =
     (let crcR = drop_bit 2 (si_opSect s) AND 0x3f;
          sectCrc = xcrc32 [si_idName s, si_opSect s AND 0x3] crc_init in
      sectCrc AND 0x3f = ucast crcR)"

fun sector_loop ::
  "nat \<Rightarrow> nat \<Rightarrow> nat \<Rightarrow> flash \<Rightarrow> nv_sts_t \<times> nv_sect_info_t option \<times> flash" where
  "sector_loop md 0 moduleStartAddr f = (NV_ITEM_NOT_FOUND, None, f)"
| "sector_loop md (Suc n) moduleStartAddr f =
     (let s = sect_at moduleStartAddr f;
          sectNo = si_opSect s AND 0x3;
          rest = sector_loop md n (moduleStartAddr + NV_SECTOR_SIZE md) f in
      if si_usedFlag s = NV_SECTOR_VALID_READY_CHECKCRC then
        if nv_sectInfoCrcCheck s then
          let sectDel = (unat sectNo + 1) mod MODULE_SECTOR_NUM;
              (ok, f1) = flash_writeWithCheck (MODULE_SECT_START md sectDel) (u16_bytes NV_SECTOR_INVALID) f;
              (flag, f2) = (if ok then (NV_SECTOR_VALID_CHECKCRC,
                   snd (flash_writeWithCheck moduleStartAddr (u16_bytes NV_SECTOR_VALID_CHECKCRC) f1))
                 else (NV_SECTOR_INVALID, f1)) in
          (NV_SUCC, Some (s\<lparr>si_usedFlag := flag, si_opSect := sectNo\<rparr>), f2)
        else rest
      else if SECT_VALID_CHECK s \<and> unat (si_idName s) = md \<and>
              (si_usedFlag s = NV_SECTOR_VALID_CHECKCRC \<longrightarrow> nv_sectInfoCrcCheck s)
        then (NV_SUCC, Some (s\<lparr>si_opSect := sectNo\<rparr>), f)
      else rest)"

definition nv_sector_read ::
  "nat \<Rightarrow> nat \<Rightarrow> flash \<Rightarrow> nv_sts_t \<times> nv_sect_info_t option \<times> flash" where
  "nv_sector_read md sectTotalNum f = sector_loop md sectTotalNum (MODULES_START_ADDR md) f"

subsection \<open>Items\<close>

datatype item_src = Ram bytes | FromFlash nat

text \<open>The checksums are taken over pieces of the flash of at most \<open>k\<close> bytes.\<close>

function crc_chunks :: "nat \<Rightarrow> nat \<Rightarrow> nat \<Rightarrow> u32 \<Rightarrow> flash \<Rightarrow> u32" where
  "crc_chunks k a n crc f =
     (if n = 0 \<or> k = 0 then crc
      else let unitLen = min k n in
        crc_chunks k (a + unitLen) (n - unitLen) (xcrc32 (flash_read a unitLen f) crc) f)"
  by auto
termination by (relation "measure (\<lambda>(_, _, n, _). n)") auto

declare crc_chunks.simps [simp del]

definition byte_sum :: "bytes \<Rightarrow> u32 \<Rightarrow> u32" where
  "byte_sum xs c = foldl (\<lambda>c b. c + ucast b) c xs"

function sum_chunks :: "nat \<Rightarrow> nat \<Rightarrow> nat \<Rightarrow> u32 \<Rightarrow> flash \<Rightarrow> u32" where
  "sum_chunks k a n c f =
     (if n = 0 \<or> k = 0 then c
      else let unitLen = min k n in
        sum_chunks k (a + unitLen) (n - unitLen) (byte_sum (flash_read a unitLen f) c) f)"
  by auto
termination by (relation "measure (\<lambda>(_, _, n, _). n)") auto

declare sum_chunks.simps [simp del]

text \<open>Copying an item inside the flash, 48 bytes at a time: the byte sum and both checksums of
  what was read, and whether every write was read back.\<close>

function copy_chunks ::
  "u8 \<Rightarrow> nat \<Rightarrow> nat \<Rightarrow> nat \<Rightarrow> u32 \<times> u32 \<times> u32 \<Rightarrow> flash \<Rightarrow> bool \<times> (u32 \<times> u32 \<times> u32) \<times> flash" where
  "copy_chunks used sAddr dAddr toalLen (checkSum, crcOld, crcOri) f =
     (if toalLen = 0 then (True, (checkSum, crcOld, crcOri), f)
      else
        let wLen = min 48 toalLen;
            pTemp = flash_read sAddr wLen f;
            sums = (if used = ITEM_HDR_FIELD_VALID_CHECKSUM
                    then (byte_sum pTemp checkSum, xcrc32 pTemp crcOld, crcOri)
                    else (checkSum, crcOld, xcrc32 pTemp crcOri));
            (ok, f') = flash_writeWithCheck dAddr pTemp f in
        if \<not> ok then (False, sums, f')
        else copy_chunks used (sAddr + wLen) (dAddr + wLen) (toalLen - wLen) sums f')"
  by auto
termination by (relation "measure (\<lambda>(_, _, _, n, _). n)") auto

declare copy_chunks.simps [simp del]

text \<open>Where the item of entry \<open>opItemIdx\<close> goes: behind the item of the entry before it.\<close>

definition item_offset :: "nat \<Rightarrow> nat \<Rightarrow> nat \<Rightarrow> flash \<Rightarrow> nat option" where
  "item_offset md opSect opItemIdx f =
     (if opItemIdx = 0 then Some (MODULE_CONTEXT_START md opSect)
      else
        let e = idx_at (MODULE_IDX_START md opSect + (opItemIdx - 1) * IDX_SIZE) f;
            h = hdr_at (unat (ix_offset e)) f in
        if hd_used h = ITEM_HDR_FIELD_VALID_CHECKCRC \<and> lo16 (idx_crc e) \<noteq> hi16 (hd_checkSum h) then None
        else if ITEM_FLAG_CHECK (ix_usedState e) \<and>
                ITEM_OFT_CHECK (unat (ix_offset e)) (unat (ix_size e)) md opSect
        then Some (align4 (unat (ix_offset e) + unat (ix_size e)))
        else None)"

text \<open>Writing the payload: the header to write and the checksum of payload and header tail, or
  the error.\<close>

definition write_payload ::
  "nat \<Rightarrow> nv_info_idx_t \<Rightarrow> u16 \<Rightarrow> item_src \<Rightarrow> flash \<Rightarrow> (nv_sts_t + itemHdr_t \<times> u32) \<times> flash" where
  "write_payload payloadAddr idxInfo len src f = (case src of
     FromFlash sAddr \<Rightarrow>
       (let hdr = hdr_at sAddr f;
            (ok, (checkSum, crcOld, crcOri), f1) =
              copy_chunks (hd_used hdr) (sAddr + HDR_SIZE) payloadAddr (unat (ix_size idxInfo) - HDR_SIZE)
                (0, crc_init, crc_init) f in
        if \<not> ok then (Inl NV_CHECK_SUM_ERROR, f1)
        else if hd_used hdr = ITEM_HDR_FIELD_VALID_CHECKSUM then
          if hd_checkSum hdr \<noteq> checkSum then (Inl NV_DATA_CHECK_ERROR, f1)
          else
            let hdr1 = hdr\<lparr>hd_used := ITEM_HDR_FIELD_VALID_CHECKCRC\<rparr> in
            (Inr (hdr1, xcrc32 (hdr_tail hdr1) crcOld), f1)
        else
          let crc = xcrc32 (hdr_tail hdr) crcOri in
          if lo16 crc \<noteq> lo16 (hd_checkSum hdr) then (Inl NV_DATA_CHECK_ERROR, f1)
          else (Inr (hdr, crc), f1))
   | Ram buf \<Rightarrow>
       (let data = take (unat len) buf;
            crcOri = xcrc32 data crc_init;
            f1 = flash_write payloadAddr data f;
            crcDst = crc_chunks 16 payloadAddr (unat len) crc_init f1 in
        if crcDst = crcOri then
          let hdr = \<lparr>hd_checkSum = 0, hd_size = len, hd_itemId = ix_itemId idxInfo,
                     hd_used = ITEM_HDR_FIELD_VALID_CHECKCRC\<rparr> in
          (Inr (hdr, xcrc32 (hdr_tail hdr) crcOri), f1)
        else (Inl NV_CHECK_SUM_ERROR, f1)))"

definition nv_write_item ::
  "bool \<Rightarrow> nat \<Rightarrow> u8 \<Rightarrow> nat \<Rightarrow> nat \<Rightarrow> u16 \<Rightarrow> item_src \<Rightarrow> flash \<Rightarrow> nv_sts_t \<times> flash" where
  "nv_write_item single md itemId opSect opItemIdx len src f =
     (let idxAddr = MODULE_IDX_START md opSect + opItemIdx * IDX_SIZE in
      case item_offset md opSect opItemIdx f of
        None \<Rightarrow> (NV_ITEM_CHECK_ERROR, f)
      | Some off \<Rightarrow>
         (let idxInfo = \<lparr>ix_offset = of_nat off, ix_size = of_nat (unat len + HDR_SIZE),
                ix_itemId = itemId, ix_usedState = ITEM_FIELD_OPERATION\<rparr> in
          if \<not> ITEM_OFT_CHECK off (unat (ix_size idxInfo)) md opSect then (NV_ITEM_CHECK_ERROR, f)
          else
            let (ok, f1) = flash_writeWithCheck idxAddr (idx_bytes idxInfo) f in
            if \<not> ok then (NV_ITEM_CHECK_ERROR, f1)
            else
              (case write_payload (off + HDR_SIZE) idxInfo len src f1 of
                 (Inl err, f2) \<Rightarrow> (err, f2)
               | (Inr (hdr, crcOri), f2) \<Rightarrow>
                   let idx' = idxInfo\<lparr>ix_usedState :=
                         (if single then ITEM_FIELD_VALID_SINGLE else ITEM_FIELD_VALID)\<rparr>;
                       hdr' = hdr\<lparr>hd_checkSum := push_bit 16 (lo16 (idx_crc idx')) OR lo16 crcOri\<rparr>;
                       (ok2, f3) = flash_writeWithCheck off (hdr_bytes hdr') f2 in
                   if \<not> ok2 then (NV_CHECK_SUM_ERROR, f3)
                   else (NV_SUCC, snd (flash_writeWithCheck (idxAddr + 7) [ix_usedState idx'] f3)))))"

text \<open>Reading an item: the status, and the bytes stored in the caller's buffer. The whole item
  is read whatever length was asked for, unless the table of lengths bounds it.\<close>

definition nv_flashReadByIndex ::
  "nv_len_tbl \<Rightarrow> nat \<Rightarrow> u8 \<Rightarrow> nat \<Rightarrow> nat \<Rightarrow> u16 \<Rightarrow> flash \<Rightarrow> nv_sts_t \<times> bytes" where
  "nv_flashReadByIndex tbl md itemId opSect opIdx len f =
     (let idx = idx_at (MODULE_IDX_START md opSect + opIdx * IDX_SIZE) f in
      if \<not> ITEM_VALID_FLAG_CHECK (ix_usedState idx) then (NV_ITEM_NOT_FOUND, [])
      else
        let off = unat (ix_offset idx);
            hdr = hdr_at off f;
            lenMatch = NV_ITEMLEN_MATCH (ucast (hd_size hdr)) len;
            realLen = nv_itemLengthValidCheck tbl itemId (hd_size hdr) in
        if lenMatch \<and> ITEM_HDR_VALID_CHECK (hd_used hdr) \<and> hd_itemId hdr = itemId then
          let data = flash_read (off + HDR_SIZE) (unat realLen) f;
              readOft = off + HDR_SIZE + unat realLen;
              leftSize = unat (hd_size hdr) - unat realLen in
          if hd_used hdr = ITEM_HDR_FIELD_VALID_CHECKSUM then
            let checkSum = sum_chunks 32 readOft leftSize (byte_sum data 0) f in
            (if checkSum \<noteq> hd_checkSum hdr then NV_CHECK_SUM_ERROR else NV_SUCC, data)
          else
            let crcRead = crc_chunks 32 readOft leftSize (xcrc32 data crc_init) f;
                crc = xcrc32 (hdr_tail hdr) crcRead in
            (if lo16 crc \<noteq> lo16 (hd_checkSum hdr) then NV_CHECK_SUM_ERROR else NV_SUCC, data)
        else (NV_ITEM_NOT_FOUND, []))"

definition nv_itemDeleteByIndex :: "nat \<Rightarrow> nat \<Rightarrow> nat \<Rightarrow> flash \<Rightarrow> flash" where
  "nv_itemDeleteByIndex md opSect opIdx f =
     flash_write (MODULE_IDX_START md opSect + opIdx * IDX_SIZE + 7) [ITEM_FIELD_INVALID] f"

definition nv_flashSingleItemRemove :: "nat \<Rightarrow> u8 \<Rightarrow> u16 \<Rightarrow> flash \<Rightarrow> nv_sts_t \<times> flash" where
  "nv_flashSingleItemRemove md itemId len f =
     (case nv_sector_read md MODULE_SECTOR_NUM f of
        (NV_SUCC, Some s, f1) \<Rightarrow>
          (let opSect = unat (si_opSect s) in
           case nv_index_read md itemId len opSect (MODULE_IDX_NUM md) f1 of
             (NV_SUCC, Some opIdx) \<Rightarrow> (NV_SUCC, nv_itemDeleteByIndex md opSect opIdx f1)
           | (ret, _) \<Rightarrow> (ret, f1))
      | (ret, _, f1) \<Rightarrow> (ret, f1))"

definition nv_flashSingleItemSizeGet :: "nat \<Rightarrow> u8 \<Rightarrow> u16 \<Rightarrow> flash \<Rightarrow> nv_sts_t \<times> u16 \<times> flash" where
  "nv_flashSingleItemSizeGet md itemId len f =
     (case nv_sector_read md MODULE_SECTOR_NUM f of
        (NV_SUCC, Some s, f1) \<Rightarrow>
          (let (ret, len', _) = nv_index_read_op md itemId len (unat (si_opSect s)) (MODULE_IDX_NUM md) False f1 in
           (ret, len', f1))
      | (ret, _, f1) \<Rightarrow> (ret, len, f1))"

subsection \<open>Writing with a change of sector\<close>

text \<open>Older valid entries of an item that has a newer one are marked invalid. The flash is
  written at the entry itself.\<close>

fun exception_loop :: "bool \<Rightarrow> nat \<Rightarrow> nat \<Rightarrow> nat \<Rightarrow> u8 list \<Rightarrow> flash \<Rightarrow> flash" where
  "exception_loop single opSect md 0 idxTbl f = f"
| "exception_loop single opSect md (Suc opIdx) idxTbl f =
     (let idx = idx_at (MODULE_IDX_START md opSect + opIdx * IDX_SIZE) f in
      if \<not> ITEM_VALID_FLAG_CHECK (ix_usedState idx) then exception_loop single opSect md opIdx idxTbl f
      else if ix_usedState idx = ITEM_FIELD_VALID_SINGLE \<or> (unat (ix_itemId idx) = md \<and> single) then
        if ix_itemId idx \<in> set idxTbl
        then exception_loop single opSect md opIdx idxTbl (nv_itemDeleteByIndex md opSect opIdx f)
        else exception_loop single opSect md opIdx (idxTbl @ [ix_itemId idx]) f
      else exception_loop single opSect md opIdx idxTbl f)"

definition nv_exceptionDataHandler ::
  "bool \<Rightarrow> nat \<Rightarrow> nat \<Rightarrow> flash \<Rightarrow> ev_buf_vars_t \<Rightarrow> flash \<times> ev_buf_vars_t" where
  "nv_exceptionDataHandler single opSect md f pool =
     (let idxTotalNum = MODULE_IDX_NUM md in
      case ev_buf_allocate (of_nat idxTotalNum) pool of
        (None, pool1) \<Rightarrow> (f, pool1)
      | (Some idxTbl, pool1) \<Rightarrow>
          (exception_loop single opSect md idxTotalNum [] f, buf_free idxTbl pool1))"

fun erase_sectors :: "nat \<Rightarrow> nat \<Rightarrow> flash \<Rightarrow> flash" where
  "erase_sectors 0 a f = f"
| "erase_sectors (Suc n) a f = erase_sectors n (a + FLASH_SECTOR_SIZE) (flash_erase a f)"

record copy_st =
  cs_startChk :: bool
  cs_offsetPrev :: nat
  cs_sizePrev :: nat
  cs_wItemIdx :: nat
  cs_sizeusedAddr :: nat
  cs_flash :: flash

datatype copy_res = Go_on copy_st | Stop copy_st | Return nv_sts_t flash

definition copy_entry_bad :: "nat \<Rightarrow> nat \<Rightarrow> nv_info_idx_t \<Rightarrow> copy_st \<Rightarrow> bool" where
  "copy_entry_bad md oldSect e st \<longleftrightarrow>
     (if cs_startChk st then unat (ix_offset e) \<noteq> MODULE_CONTEXT_START md oldSect
      else unat (ix_offset e) \<noteq> align4 (cs_offsetPrev st + cs_sizePrev st)) \<or>
     unat (of_nat (MODULE_SECT_END md oldSect) - ix_offset e) < unat (ix_size e)"

fun copy_entries ::
  "bool \<Rightarrow> nat \<Rightarrow> u8 \<Rightarrow> nat \<Rightarrow> nat \<Rightarrow> nv_info_idx_t list \<Rightarrow> copy_st \<Rightarrow> copy_res" where
  "copy_entries single md itemId oldSect opSect [] st = Go_on st"
| "copy_entries single md itemId oldSect opSect (e # es) st =
     (if copy_entry_bad md oldSect e st then Stop st
      else
        let st1 = st\<lparr>cs_startChk := False, cs_offsetPrev := unat (ix_offset e),
                     cs_sizePrev := unat (ix_size e)\<rparr>;
            rest = copy_entries single md itemId oldSect opSect es in
        if ITEM_VALID_FLAG_CHECK (ix_usedState e) \<and> (ix_itemId e \<noteq> itemId \<or> \<not> single) then
          let hdr = hdr_at (unat (ix_offset e)) (cs_flash st1) in
          if hd_used hdr = ITEM_HDR_FIELD_VALID_CHECKCRC \<and> lo16 (idx_crc e) \<noteq> hi16 (hd_checkSum hdr)
          then rest st1
          else
            let (ret, f') = nv_write_item (ix_usedState e = ITEM_FIELD_VALID_SINGLE) md (ix_itemId e) opSect
                   (cs_wItemIdx st1) (ix_size e - 8) (FromFlash (unat (ix_offset e))) (cs_flash st1);
                st2 = st1\<lparr>cs_sizeusedAddr := align4 (cs_sizeusedAddr st1 + unat (ix_size e)),
                          cs_wItemIdx := cs_wItemIdx st1 + 1, cs_flash := f'\<rparr> in
            (case ret of
               NV_SUCC \<Rightarrow> rest st2
             | NV_ITEM_CHECK_ERROR \<Rightarrow> Stop st2
             | NV_NOT_ENOUGH_SAPCE \<Rightarrow> Return ret f'
             | NV_CHECK_SUM_ERROR \<Rightarrow> Return ret f'
             | _ \<Rightarrow> rest st2)
        else rest st1)"

function copy_index ::
  "bool \<Rightarrow> nat \<Rightarrow> u8 \<Rightarrow> nat \<Rightarrow> nat \<Rightarrow> nat \<Rightarrow> nat \<Rightarrow> copy_st \<Rightarrow> copy_res" where
  "copy_index single md itemId oldSect opSect idxStartAddr idxTotalNum st =
     (if idxTotalNum = 0 then Go_on st
      else
        let readIdxNum = min 4 idxTotalNum;
            raw = flash_read idxStartAddr (readIdxNum * IDX_SIZE) (cs_flash st);
            es = map (\<lambda>j. idx_of (take IDX_SIZE (drop (j * IDX_SIZE) raw))) [0..<readIdxNum] in
        case copy_entries single md itemId oldSect opSect es st of
          Go_on st' \<Rightarrow> copy_index single md itemId oldSect opSect
             (idxStartAddr + readIdxNum * IDX_SIZE) (idxTotalNum - readIdxNum) st'
        | r \<Rightarrow> r)"
  by auto
termination by (relation "measure (\<lambda>(_, _, _, _, _, _, n, _). n)") auto

declare copy_index.simps [simp del]

text \<open>The change to the other sector: the first free entry there, or an early return.\<close>

definition change_sector ::
  "bool \<Rightarrow> nat \<Rightarrow> u8 \<Rightarrow> u16 \<Rightarrow> nat \<Rightarrow> nat \<Rightarrow> flash \<Rightarrow> ev_buf_vars_t \<Rightarrow>
     (nv_sts_t + nat) \<times> flash \<times> ev_buf_vars_t" where
  "change_sector single md itemId len oldSect opSect f pool =
     (let f1 = erase_sectors (NV_SECTOR_SIZE md div FLASH_SECTOR_SIZE)
                 (MODULES_START_ADDR md + opSect * NV_SECTOR_SIZE md) f;
          (f2, pool1) = nv_exceptionDataHandler single oldSect md f1 pool;
          st = \<lparr>cs_startChk = True, cs_offsetPrev = 0, cs_sizePrev = 0, cs_wItemIdx = 0,
                cs_sizeusedAddr = MODULE_CONTEXT_START md opSect, cs_flash = f2\<rparr>;
          done = (if nv_sect_info_check oldSect md f2 = NV_SUCC
                  then copy_index single md itemId oldSect opSect (MODULE_IDX_START md oldSect)
                         (MODULE_IDX_NUM md) st
                  else Go_on st);
          finish = (\<lambda>st.
            if cs_wItemIdx st = MODULE_IDX_NUM md \<or>
               cs_sizeusedAddr st + ITEM_TOTAL_LEN len > MODULE_SECT_END md opSect
            then (Inl NV_NOT_ENOUGH_SAPCE, cs_flash st, pool1)
            else (Inr (cs_wItemIdx st), cs_flash st, pool1)) in
      case done of
        Return ret f3 \<Rightarrow> (Inl ret, f3, pool1)
      | Go_on st' \<Rightarrow> finish st'
      | Stop st' \<Rightarrow> finish st')"

text \<open>The next free entry of the sector in use, or \<open>None\<close> when the sector must be changed.\<close>

definition find_slot :: "nat \<Rightarrow> nat \<Rightarrow> u16 \<Rightarrow> flash \<Rightarrow> nat option" where
  "find_slot md opSect len f =
     (case nv_index_read md ITEM_FIELD_IDLE len opSect (MODULE_IDX_NUM md) f of
        (NV_SUCC, Some wItemIdx) \<Rightarrow>
          (let e = idx_at (MODULE_IDX_START md opSect + wItemIdx * IDX_SIZE) f in
           if wItemIdx = MODULE_IDX_NUM md - 1 \<or>
              (unat (ix_offset e) + unat (ix_size e) + ITEM_TOTAL_LEN len) mod 2 ^ 32 > MODULE_SECT_END md opSect
           then None
           else if ITEM_FLAG_CHECK (ix_usedState e) \<and>
                   ITEM_OFT_CHECK (unat (ix_offset e)) (unat (ix_size e)) md opSect
           then Some (wItemIdx + 1) else None)
      | _ \<Rightarrow> Some 0)"

definition sect_info_for :: "nat \<Rightarrow> nat \<Rightarrow> u16 \<Rightarrow> nv_sect_info_t" where
  \<comment> \<open>the check bits over module and sector number, above the sector number\<close>
  "sect_info_for md opSect flag =
     (let sectCrc = xcrc32 [of_nat md, of_nat opSect] crc_init AND 0x3f in
      \<lparr>si_usedFlag = flag, si_idName = of_nat md,
       si_opSect = ucast (push_bit 2 sectCrc OR of_nat opSect)\<rparr>)"

definition nv_flashWriteNewHandler ::
  "bool \<Rightarrow> bool \<Rightarrow> nat \<Rightarrow> u8 \<Rightarrow> u16 \<Rightarrow> bytes \<Rightarrow> flash \<Rightarrow> ev_buf_vars_t \<Rightarrow> nv_sts_t \<times> flash \<times> ev_buf_vars_t" where
  "nv_flashWriteNewHandler forceChgSec single md itemId len buf f0 pool0 =
     (if NV_SECTOR_SIZE md < ITEM_TOTAL_LEN len + MODULE_INFO_SIZE md then (NV_NOT_ENOUGH_SAPCE, f0, pool0)
      else
        let (oldSect, f1) = (case nv_sector_read md MODULE_SECTOR_NUM f0 of
               (NV_SUCC, Some s, f) \<Rightarrow> (unat (si_opSect s), f)
             | (_, _, f) \<Rightarrow>
                 (0, erase_sectors (NV_SECTOR_SIZE md div FLASH_SECTOR_SIZE) (MODULES_START_ADDR md) f));
            slot = (if forceChgSec then None else find_slot md oldSect len f1);
            opSect = (if slot = None then (oldSect + 1) mod MODULE_SECTOR_NUM else oldSect);
            (r, f2, pool1) = (case slot of
               Some i \<Rightarrow> (Inr i, f1, pool0)
             | None \<Rightarrow> change_sector single md itemId len oldSect opSect f1 pool0) in
        case r of
          Inl ret \<Rightarrow> (ret, f2, pool1)
        | Inr wItemIdx \<Rightarrow>
           (let deleteIdx = (if single
                  then (case nv_index_read md itemId len opSect (MODULE_IDX_NUM md) f2 of
                          (NV_SUCC, Some i) \<Rightarrow> Some i | _ \<Rightarrow> None)
                  else None);
                (ret, f3) = nv_write_item single md itemId opSect wItemIdx len (Ram buf) f2 in
            if ret \<noteq> NV_SUCC then (ret, f3, pool1)
            else
              let (ok, f4) = (case deleteIdx of
                     None \<Rightarrow> (True, f3)
                   | Some i \<Rightarrow> flash_writeWithCheck (MODULE_IDX_START md opSect + i * IDX_SIZE + 7)
                                 [ITEM_FIELD_INVALID] f3) in
              if \<not> ok then (NV_CHECK_SUM_ERROR, f4, pool1)
              else if slot = None then
                let (ok5, f5) = flash_writeWithCheck (MODULE_SECT_START md opSect)
                       (sect_bytes (sect_info_for md opSect NV_SECTOR_VALID_READY_CHECKCRC)) f4 in
                if \<not> ok5 then (NV_CHECK_SUM_ERROR, f5, pool1)
                else
                  let (ok6, f6) = flash_writeWithCheck (MODULE_SECT_START md oldSect)
                         (u16_bytes NV_SECTOR_INVALID) f5;
                      f7 = (if ok6 then snd (flash_writeWithCheck (MODULE_SECT_START md opSect)
                                              (u16_bytes NV_SECTOR_VALID_CHECKCRC) f6) else f6) in
                  (NV_SUCC, f7, pool1)
              else if wItemIdx = 0 then
                (NV_SUCC, snd (flash_writeWithCheck (MODULE_SECT_START md opSect)
                   (sect_bytes (sect_info_for md opSect NV_SECTOR_VALID_CHECKCRC)) f4), pool1)
              else (NV_SUCC, f4, pool1)))"

definition nv_flashWriteNew ::
  "bool \<Rightarrow> nat \<Rightarrow> u8 \<Rightarrow> u16 \<Rightarrow> bytes \<Rightarrow> flash \<Rightarrow> ev_buf_vars_t \<Rightarrow> nv_sts_t \<times> flash \<times> ev_buf_vars_t" where
  "nv_flashWriteNew single md itemId len buf f pool =
     (if md = NV_MODULE_NWK_FRAME_COUNT then (NV_INVALID_MODULS, f, pool)
      else
        let (ret, f1, pool1) = nv_flashWriteNewHandler False single md itemId len buf f pool in
        if ret = NV_ITEM_CHECK_ERROR
        then nv_flashWriteNewHandler True single md itemId len buf f1 pool1
        else (ret, f1, pool1))"

text \<open>Reading a single item gives its bytes; for the others the position is handed out.\<close>

datatype read_out = Data bytes | Pos nat nat

definition nv_flashReadNew ::
  "nv_len_tbl \<Rightarrow> bool \<Rightarrow> nat \<Rightarrow> u8 \<Rightarrow> u16 \<Rightarrow> flash \<Rightarrow> nv_sts_t \<times> read_out option \<times> flash" where
  "nv_flashReadNew tbl single md itemId len f =
     (if md = NV_MODULE_NWK_FRAME_COUNT then (NV_INVALID_MODULS, None, f)
      else case nv_sector_read md MODULE_SECTOR_NUM f of
        (NV_SUCC, Some s, f1) \<Rightarrow>
          (let opSect = unat (si_opSect s);
               (ret, idx) = nv_index_read md itemId len opSect (MODULE_IDX_NUM md) f1;
               opIdx = (case idx of Some i \<Rightarrow> i | None \<Rightarrow> 0) in
           if single then
             if ret = NV_SUCC then
               let (ret2, data) = nv_flashReadByIndex tbl md itemId opSect opIdx len f1 in
               (ret2, Some (Data data),
                if ret2 = NV_CHECK_SUM_ERROR then nv_itemDeleteByIndex md opSect opIdx f1 else f1)
             else (ret, None, f1)
           else (ret, Some (Pos opIdx opSect), f1))
      | (ret, _, f1) \<Rightarrow> (ret, None, f1))"

subsection \<open>Resets\<close>

definition nv_resetModule :: "nat \<Rightarrow> flash \<Rightarrow> flash" where
  "nv_resetModule modules f =
     erase_sectors (MODULE_SECTOR_NUM * (NV_SECTOR_SIZE modules div FLASH_SECTOR_SIZE)) (MODULES_START_ADDR modules) f"

definition nv_resetAll :: "flash \<Rightarrow> flash" where
  "nv_resetAll f = foldl (\<lambda>f i. nv_resetModule i f) f [0..<NV_MAX_MODULS]"

definition nv_init :: "bool \<Rightarrow> flash \<Rightarrow> flash" where
  "nv_init rst f = (if rst then nv_resetAll f else f)"

definition nv_facrotyNewRstFlagCheck :: "flash \<Rightarrow> bool" where
  "nv_facrotyNewRstFlagCheck f \<longleftrightarrow> flash_read CFG_FACTORY_RST_CNT 1 f \<noteq> [0xFF]"

definition nv_facrotyNewRstFlagSet :: "flash \<Rightarrow> flash" where
  "nv_facrotyNewRstFlagSet f = snd (flash_writeWithCheck CFG_FACTORY_RST_CNT [ITEM_FIELD_VALID] f)"

definition nv_facrotyNewRstFlagClear :: "flash \<Rightarrow> flash" where
  "nv_facrotyNewRstFlagClear f = flash_erase CFG_FACTORY_RST_CNT f"

definition nv_resetToFactoryNew :: "flash \<Rightarrow> flash" where
  "nv_resetToFactoryNew f =
     (let f1 = (if \<not> nv_facrotyNewRstFlagCheck f then nv_facrotyNewRstFlagSet f else f);
          f2 = foldl (\<lambda>f i. if i \<noteq> NV_MODULE_NWK_FRAME_COUNT then nv_resetModule i f else f)
                 f1 [0..<NV_MAX_MODULS] in
      nv_facrotyNewRstFlagClear f2)"

end
