(* ===== verification/Nv_Log.thy ===== *)
theory Nv_Log
  imports Drv_Nv
begin

text \<open>
  The sector in use as a log. A log lists the index entries with the bytes of their items, the
  newest first; \<open>log_rep\<close> says that the flash holds one: the entries stand in order in the
  index, the items stand in order in the context area with matching headers and check sums, and
  what follows is erased. Writing an item appends to the log, marking an entry invalid changes
  its state in the log, and the search of the index finds the newest entry that matches.
\<close>

subsection \<open>Bytes and records\<close>

lemma BUILD_U32_cat: "BUILD_U32 b0 b1 b2 b3 =
   ((push_bit 24 (ucast b3) OR push_bit 16 (ucast b2)) OR push_bit 8 (ucast b1)) OR ucast b0"
proof -
  have m: "ucast b AND 0xFF = (ucast b :: u32)" for b :: u8 by simp
  have a: "push_bit 24 (ucast b3) AND push_bit 16 (ucast b2) = (0::u32)"
    by (rule bit_word_eqI) (auto simp: bit_simps dest: bit_imp_le_length)
  have b: "(push_bit 24 (ucast b3) OR push_bit 16 (ucast b2)) AND push_bit 8 (ucast b1) = (0::u32)"
    by (rule bit_word_eqI) (auto simp: bit_simps dest: bit_imp_le_length)
  have c: "((push_bit 24 (ucast b3) OR push_bit 16 (ucast b2)) OR push_bit 8 (ucast b1)) AND ucast b0 = (0::u32)"
    by (rule bit_word_eqI) (auto simp: bit_simps dest: bit_imp_le_length)
  show ?thesis
    unfolding BUILD_U32_def m
    by (simp only: disjunctive_add_eq_or [OF a] disjunctive_add_eq_or [OF b] disjunctive_add_eq_or [OF c])
qed

lemma u32_of_bytes [simp]: "u32_of (u32_bytes x @ ys) = x"
  unfolding u32_of_def u32_bytes_def BUILD_U32_cat
proof (rule bit_word_eqI)
  fix n assume "n < LENGTH(32)"
  consider "n < 8" | "8 \<le> n \<and> n < 16" | "16 \<le> n \<and> n < 24" | "24 \<le> n" by linarith
  then show "bit (((push_bit 24 (ucast (([ucast x, ucast (drop_bit 8 x), ucast (drop_bit 16 x),
      ucast (drop_bit 24 x)] @ ys) ! 3 :: u8)) OR
     push_bit 16 (ucast (([ucast x, ucast (drop_bit 8 x), ucast (drop_bit 16 x),
      ucast (drop_bit 24 x)] @ ys) ! 2 :: u8))) OR
     push_bit 8 (ucast (([ucast x, ucast (drop_bit 8 x), ucast (drop_bit 16 x),
      ucast (drop_bit 24 x)] @ ys) ! 1 :: u8))) OR
     ucast (([ucast x, ucast (drop_bit 8 x), ucast (drop_bit 16 x),
      ucast (drop_bit 24 x)] @ ys) ! 0 :: u8) :: u32) n = bit x n"
    using \<open>n < LENGTH(32)\<close> by cases (auto simp: bit_simps)
qed

lemma len_bytes [simp]: "length (u32_bytes x) = 4" "length (sect_bytes s) = 4"
  "length (idx_bytes e) = 8" "length (hdr_bytes h) = 8"
  by (simp_all add: u32_bytes_def sect_bytes_def idx_bytes_def hdr_bytes_def)

lemma u16_of_bytes [simp]: "u16_of (u16_bytes x @ ys) = x"
  by (simp add: u16_of_def u16_bytes_def)

lemma idx_of_bytes [simp]: "idx_of (idx_bytes e) = e"
proof -
  have "drop 4 (idx_bytes e) = u16_bytes (ix_size e) @ [ix_itemId e, ix_usedState e]"
    by (simp add: idx_bytes_def)
  moreover have "idx_bytes e ! 6 = ix_itemId e" "idx_bytes e ! 7 = ix_usedState e"
    by (simp_all add: idx_bytes_def nth_append)
  ultimately show ?thesis by (simp add: idx_of_def) (simp add: idx_bytes_def)
qed

lemma hdr_of_bytes [simp]: "hdr_of (hdr_bytes h) = h"
proof -
  have "drop 4 (hdr_bytes h) = u16_bytes (hd_size h) @ [hd_itemId h, hd_used h]"
    by (simp add: hdr_bytes_def)
  moreover have "hdr_bytes h ! 6 = hd_itemId h" "hdr_bytes h ! 7 = hd_used h"
    by (simp_all add: hdr_bytes_def nth_append)
  ultimately show ?thesis by (simp add: hdr_of_def) (simp add: hdr_bytes_def)
qed

lemma sect_of_bytes [simp]: "sect_of (sect_bytes s) = s"
  by (simp add: sect_of_def sect_bytes_def u16_of_def u16_bytes_def)

lemma u32_bytes_of: "length xs \<ge> 4 \<Longrightarrow> u32_bytes (u32_of xs) = take 4 xs"
proof -
  assume "length xs \<ge> 4"
  then obtain a b c d ys where xs: "xs = a # b # c # d # ys"
    by (auto simp: Suc_le_length_iff eval_nat_numeral)
  have "ucast (BUILD_U32 a b c d) = a" "ucast (drop_bit 8 (BUILD_U32 a b c d)) = b"
    "ucast (drop_bit 16 (BUILD_U32 a b c d)) = c" "ucast (drop_bit 24 (BUILD_U32 a b c d)) = d"
    unfolding BUILD_U32_cat by (rule bit_word_eqI; auto simp: bit_simps dest: bit_imp_le_length)+
  then show ?thesis by (simp add: xs u32_of_def u32_bytes_def)
qed

lemma idx_bytes_of: "length xs = 8 \<Longrightarrow> idx_bytes (idx_of xs) = xs"
proof -
  assume l: "length xs = 8"
  then obtain a b c d e g h i where xs: "xs = [a, b, c, d, e, g, h, i]"
    by (auto simp: length_Suc_conv eval_nat_numeral)
  show ?thesis
    using u32_bytes_of [of xs] by (simp add: xs idx_bytes_def idx_of_def u16_of_def u16_bytes_def)
qed

lemma hdr_bytes_of: "length xs = 8 \<Longrightarrow> hdr_bytes (hdr_of xs) = xs"
proof -
  assume l: "length xs = 8"
  then obtain a b c d e g h i where xs: "xs = [a, b, c, d, e, g, h, i]"
    by (auto simp: length_Suc_conv eval_nat_numeral)
  show ?thesis
    using u32_bytes_of [of xs] by (simp add: xs hdr_bytes_def hdr_of_def u16_of_def u16_bytes_def)
qed

lemma idx_at_bytes: "idx_bytes (idx_at a f) = flash_read a 8 f"
  by (simp add: idx_at_def IDX_SIZE_def idx_bytes_of)

lemma idx_at_iff: "idx_at a f = e \<longleftrightarrow> flash_read a 8 f = idx_bytes e"
  using idx_at_bytes [of a f] by (auto simp: idx_at_def IDX_SIZE_def)

lemma hdr_at_iff: "hdr_at a f = h \<longleftrightarrow> flash_read a 8 f = hdr_bytes h"
  by (auto simp: hdr_at_def HDR_SIZE_def hdr_bytes_of)

lemma lo_hi_pack [simp]:
  "lo16 (push_bit 16 (lo16 a) OR lo16 b) = lo16 b" "hi16 (push_bit 16 (lo16 a) OR lo16 b) = lo16 a"
proof -
  have m: "(0xffff :: u32) = mask 16" by (simp add: mask_eq_exp_minus_1)
  show "lo16 (push_bit 16 (lo16 a) OR lo16 b) = lo16 b"
    unfolding lo16_def hi16_def m by (rule bit_word_eqI) (auto simp: bit_simps)
  show "hi16 (push_bit 16 (lo16 a) OR lo16 b) = lo16 a"
    unfolding lo16_def hi16_def m by (rule bit_word_eqI) (auto simp: bit_simps)
qed

lemma idx_crc_state [simp]: "idx_crc (e\<lparr>ix_usedState := v\<rparr>) = idx_crc e"
  by (simp add: idx_crc_def idx_bytes_def IDX_SIZE_def u32_bytes_def u16_bytes_def)

lemma hdr_tail_sum [simp]: "hdr_tail (h\<lparr>hd_checkSum := c\<rparr>) = hdr_tail h"
  by (simp add: hdr_tail_def hdr_bytes_def)

lemma crc_chunks_read: "0 < k \<Longrightarrow> crc_chunks k a n c f = xcrc32 (flash_read a n f) c"
proof (induction k a n c f rule: crc_chunks.induct)
  case (1 k a n c f)
  show ?case
  proof (cases "n = 0")
    case False
    have "flash_read a n f = flash_read a (min k n) f @ flash_read (a + min k n) (n - min k n) f"
      using flash_read_append [of a "min k n" "n - min k n" f] by simp
    with False 1 show ?thesis by (subst crc_chunks.simps) (simp add: Let_def)
  qed (simp add: crc_chunks.simps)
qed

text \<open>A copy inside the flash to an erased place away from its source.\<close>

lemma flash_write_append:
  "flash_write_page a (xs @ ys) f = flash_write_page (a + length xs) ys (flash_write_page a xs f)"
  by (rule ext) (auto simp: flash_write_page_def nth_append)

lemma copy_chunks_ok:
  assumes "used \<noteq> ITEM_HDR_FIELD_VALID_CHECKSUM" "erased dst n f"
    "src + n \<le> dst \<or> dst + n \<le> src"
  shows "copy_chunks used src dst n (s, c1, c2) f =
    (True, (s, c1, xcrc32 (flash_read src n f) c2), flash_write_page dst (flash_read src n f) f)"
  using assms
proof (induction n arbitrary: src dst f c2 rule: less_induct)
  case (less n)
  note prems = less.prems
  show ?case
  proof (cases "n = 0")
    case True
    moreover have "flash_write_page dst [] f = f" by (rule ext) (auto simp: flash_write_page_def)
    ultimately show ?thesis by (subst copy_chunks.simps) simp
  next
    case False
    let ?w = "min 48 n"
    let ?p = "flash_read src ?w f" and ?f = "flash_write_page dst (flash_read src (min 48 n) f) f"
    have w: "flash_writeWithCheck dst ?p f = (True, ?f)"
      using prems(2) by (intro writeWithCheck_erased) (auto intro: erased_mono)
    have s: "flash_read src n f = ?p @ flash_read (src + ?w) (n - ?w) f"
      using flash_read_append [of src ?w "n - ?w" f] by simp
    have r: "flash_read (src + ?w) (n - ?w) ?f = flash_read (src + ?w) (n - ?w) f"
      using prems(3) False by (intro flash_read_write_other) auto
    have e: "erased (dst + ?w) (n - ?w) ?f"
      using prems(2) by (subst erased_write_other) (auto intro: erased_mono)
    from False have "copy_chunks used src dst n (s, c1, c2) f =
      copy_chunks used (src + ?w) (dst + ?w) (n - ?w) (s, c1, xcrc32 ?p c2) ?f"
      using prems(1) w by (subst copy_chunks.simps) (simp add: Let_def)
    also have "\<dots> = (True, (s, c1, xcrc32 (flash_read (src + ?w) (n - ?w) ?f) (xcrc32 ?p c2)),
        flash_write_page (dst + ?w) (flash_read (src + ?w) (n - ?w) ?f) ?f)"
      by (rule less.IH) (use prems(1,3) e False in auto)
    finally show ?thesis unfolding r s by (simp add: flash_write_append)
  qed
qed

subsection \<open>The layout, and an item in the flash\<close>

definition lay_ok :: "nat \<Rightarrow> nat \<Rightarrow> bool" where
  "lay_ok md sec \<longleftrightarrow> md < NV_MAX_MODULS \<and> sec < MODULE_SECTOR_NUM"

lemma layout:
  assumes "lay_ok md sec"
  shows lay_idx: "MODULE_IDX_START md sec = MODULE_SECT_START md sec + 4"
    and lay_idx_end: "MODULE_IDX_START md sec + 8 * MODULE_IDX_NUM md \<le> MODULE_CONTEXT_START md sec"
    and lay_ctx: "MODULE_CONTEXT_START md sec + 512 \<le> MODULE_SECT_END md sec"
    and lay_end: "MODULE_SECT_END md sec \<le> MODULE_SECT_START md sec + 16384" "MODULE_SECT_END md sec < 0x200000"
    and lay_mod: "MODULE_CONTEXT_START md sec mod 4 = 0"
    and lay_num: "1 < MODULE_IDX_NUM md"
proof -
  have m: "md = 0 \<or> md = 1 \<or> md = 2 \<or> md = 3 \<or> md = 4 \<or> md = 5 \<or> md = 6 \<or> md = 7" "sec = 0 \<or> sec = 1"
    using assms by (auto simp: lay_ok_def NV_MAX_MODULS_def MODULE_SECTOR_NUM_def)
  note d = MODULE_IDX_START_def MODULE_SECT_START_def MODULE_SECT_END_def MODULE_IDX_NUM_def MODULE_IDX_SIZE_def
    MODULE_CONTEXT_START_def MODULE_INFO_SIZE_def NV_SECTOR_SIZE_def MODULES_START_ADDR_def SECT_INFO_SIZE_def
    IDX_SIZE_def NV_BASE_ADDRESS_def FLASH_SECTOR_SIZE_def FLASH_PAGE_SIZE_def NV_MODULE_OTA_def
    NV_MODULE_KEYPAIR_def NV_MODULE_ADDRESS_TABLE_def
  show "MODULE_IDX_START md sec = MODULE_SECT_START md sec + 4" by (simp add: d)
  show "MODULE_IDX_START md sec + 8 * MODULE_IDX_NUM md \<le> MODULE_CONTEXT_START md sec"
    using m by (elim disjE) (simp_all add: d)
  show "MODULE_CONTEXT_START md sec + 512 \<le> MODULE_SECT_END md sec"
    using m by (elim disjE) (simp_all add: d)
  show "MODULE_SECT_END md sec \<le> MODULE_SECT_START md sec + 16384" "MODULE_SECT_END md sec < 0x200000"
    using m by (elim disjE; simp add: d)+
  show "MODULE_CONTEXT_START md sec mod 4 = 0"
    using m by (elim disjE) (simp_all add: d)
  show "1 < MODULE_IDX_NUM md"
    using m by (elim disjE) (simp_all add: d)
qed

text \<open>A complete item at \<open>off\<close> with the index entry \<open>e\<close>.\<close>

definition item_ok :: "flash \<Rightarrow> nat \<Rightarrow> nv_info_idx_t \<Rightarrow> bytes \<Rightarrow> bool" where
  "item_ok f off e d \<longleftrightarrow>
     ix_offset e = of_nat off \<and> off < 2 ^ 32 \<and> unat (ix_size e) = length d + 8 \<and>
     (let h = hdr_at off f in
       hd_used h = ITEM_HDR_FIELD_VALID_CHECKCRC \<and> unat (hd_size h) = length d \<and> hd_itemId h = ix_itemId e \<and>
       hi16 (hd_checkSum h) = lo16 (idx_crc e) \<and>
       lo16 (hd_checkSum h) = lo16 (xcrc32 (hdr_tail h) (xcrc32 d crc_init))) \<and>
     flash_read (off + 8) (length d) f = d"

lemma unat_of_nat_u32 [simp]: "n < 2 ^ 32 \<Longrightarrow> unat (of_nat n :: u32) = n"
  by (simp add: unsigned_of_nat take_bit_nat_eq_self)

lemma state_bits: "ITEM_FIELD_OPERATION AND (if b then ITEM_FIELD_VALID_SINGLE else ITEM_FIELD_VALID)
   = (if b then ITEM_FIELD_VALID_SINGLE else ITEM_FIELD_VALID)"
  by (simp add: ITEM_FIELD_OPERATION_def ITEM_FIELD_VALID_SINGLE_def ITEM_FIELD_VALID_def)

lemma item_ok_cong:
  assumes "item_ok f off e d" "\<And>i. off \<le> i \<Longrightarrow> i < off + 8 + length d \<Longrightarrow> f i = g i"
    "ix_offset e' = ix_offset e" "ix_size e' = ix_size e" "ix_itemId e' = ix_itemId e"
  shows "item_ok g off e' d"
proof -
  have "flash_read off 8 f = flash_read off 8 g" "flash_read (off + 8) (length d) f = flash_read (off + 8) (length d) g"
    using assms(2) by (auto intro!: flash_read_cong)
  moreover have "e' = e\<lparr>ix_usedState := ix_usedState e'\<rparr>" using assms(3-5) by simp
  then have "idx_crc e' = idx_crc e" by (metis idx_crc_state)
  ultimately show ?thesis
    using assms(1,3-5) by (simp add: item_ok_def hdr_at_def HDR_SIZE_def Let_def)
qed

definition src_ok :: "item_src \<Rightarrow> u16 \<Rightarrow> u8 \<Rightarrow> bytes \<Rightarrow> flash \<Rightarrow> nat \<Rightarrow> nat \<Rightarrow> bool" where
  \<comment> \<open>the source gives the bytes \<open>d\<close>; a source in flash is a complete item away from the writes\<close>
  "src_ok src len itemId d f idxAddr off \<longleftrightarrow> length d = unat len \<and> (case src of
     Ram buf \<Rightarrow> take (unat len) buf = d
   | FromFlash a \<Rightarrow> (\<exists>e. item_ok f a e d \<and> ix_itemId e = itemId) \<and>
       (a + 8 + length d \<le> idxAddr \<or> idxAddr + 8 \<le> a) \<and> (a + 8 + length d \<le> off \<or> off + 8 + length d \<le> a))"

lemma write_payload_ok:
  assumes s: "src_ok src len itemId d f idxAddr off" and i: "ix_itemId e = itemId" "unat (ix_size e) = length d + 8"
    and er: "erased (off + 8) (length d) f1"
    and f1: "\<And>j. j < idxAddr \<or> idxAddr + 8 \<le> j \<Longrightarrow> f1 j = f j"
  shows "\<exists>h. write_payload (off + 8) e len src f1 =
      (Inr (h, xcrc32 (hdr_tail h) (xcrc32 d crc_init)), flash_write_page (off + 8) d f1) \<and>
    hd_used h = ITEM_HDR_FIELD_VALID_CHECKCRC \<and> hd_size h = len \<and> hd_itemId h = itemId"
proof (cases src)
  case (Ram buf)
  with s have d: "take (unat len) buf = d" "unat len = length d" by (auto simp: src_ok_def)
  have "crc_chunks 16 (off + 8) (unat len) crc_init (flash_write_page (off + 8) d f1) = xcrc32 d crc_init"
    using er by (simp add: crc_chunks_read d flash_read_write_erased)
  with Ram d i show ?thesis
    by (auto simp: write_payload_def Let_def flash_write_def hdr_tail_def)
next
  case (FromFlash a)
  with s obtain e0 where e0: "item_ok f a e0 d" "ix_itemId e0 = itemId"
    and dis: "a + 8 + length d \<le> idxAddr \<or> idxAddr + 8 \<le> a" "a + 8 + length d \<le> off \<or> off + 8 + length d \<le> a"
    and len: "length d = unat len"
    by (auto simp: src_ok_def)
  have ok: "item_ok f1 a e0 d"
    by (rule item_ok_cong [OF e0(1)]) (use f1 dis in \<open>auto\<close>)
  let ?h = "hdr_at a f1"
  from ok e0(2) have h: "hd_used ?h = ITEM_HDR_FIELD_VALID_CHECKCRC" "unat (hd_size ?h) = length d" "hd_itemId ?h = itemId"
    "lo16 (hd_checkSum ?h) = lo16 (xcrc32 (hdr_tail ?h) (xcrc32 d crc_init))" "flash_read (a + 8) (length d) f1 = d"
    by (auto simp: item_ok_def Let_def)
  have u: "hd_used ?h \<noteq> ITEM_HDR_FIELD_VALID_CHECKSUM"
    unfolding h(1) by (simp add: ITEM_HDR_FIELD_VALID_CHECKCRC_def ITEM_HDR_FIELD_VALID_CHECKSUM_def)
  have c: "copy_chunks (hd_used ?h) (a + 8) (off + 8) (length d) (0, crc_init, crc_init) f1 =
    (True, (0, crc_init, xcrc32 d crc_init), flash_write_page (off + 8) d f1)"
    using copy_chunks_ok [OF u er, of "a + 8" 0 crc_init crc_init] dis h(5) by auto
  have "hd_size ?h = len" using h(2) len by (simp add: word_unat_eq_iff)
  with FromFlash c h u i show ?thesis
    by (auto simp: write_payload_def Let_def HDR_SIZE_def)
qed

subsection \<open>Writing and reading an item\<close>

lemma idx_bytes_state: "idx_bytes (e\<lparr>ix_usedState := v\<rparr>) = (idx_bytes e)[7 := v]"
  by (simp add: idx_bytes_def u32_bytes_def u16_bytes_def)

lemma write_item_ok:
  fixes single :: bool
  assumes lay: "lay_ok md sec"
    and op: "opIdx < MODULE_IDX_NUM md"
    and off: "item_offset md sec opIdx f = Some off" "MODULE_CONTEXT_START md sec \<le> off"
      "off + 8 + length d \<le> MODULE_SECT_END md sec"
    and er: "erased (MODULE_IDX_START md sec + opIdx * 8) 8 f" "erased off (8 + length d) f"
    and src: "src_ok src len itemId d f (MODULE_IDX_START md sec + opIdx * 8) off"
  defines "e \<equiv> \<lparr>ix_offset = of_nat off, ix_size = of_nat (unat len + HDR_SIZE), ix_itemId = itemId,
      ix_usedState = (if single then ITEM_FIELD_VALID_SINGLE else ITEM_FIELD_VALID)\<rparr>"
  shows "\<exists>f'. nv_write_item single md itemId sec opIdx len src f = (NV_SUCC, f') \<and>
    idx_at (MODULE_IDX_START md sec + opIdx * 8) f' = e \<and> item_ok f' off e d \<and>
    (\<forall>i. (i < MODULE_IDX_START md sec + opIdx * 8 \<or> MODULE_IDX_START md sec + opIdx * 8 + 8 \<le> i) \<and>
         (i < off \<or> off + 8 + length d \<le> i) \<longrightarrow> f' i = f i)"
proof -
  let ?ia = "MODULE_IDX_START md sec + opIdx * 8"
  let ?st = "if single then ITEM_FIELD_VALID_SINGLE else ITEM_FIELD_VALID"
  note lo = layout [OF lay]
  have len: "unat len = length d" using src by (simp add: src_ok_def)
  have small: "unat len + 8 < 2 ^ 16" "off < 2 ^ 32" "off < MODULE_SECT_END md sec"
    using lo off len by (auto simp: MODULE_CONTEXT_START_def)
  have ia: "?ia + 8 \<le> off" using op lo off by linarith
  define e0 where "e0 = \<lparr>ix_offset = of_nat off, ix_size = of_nat (unat len + HDR_SIZE), ix_itemId = itemId,
      ix_usedState = ITEM_FIELD_OPERATION\<rparr>"
  have e: "e = e0\<lparr>ix_usedState := ?st\<rparr>" by (simp add: e_def e0_def)
  have sz: "unat (ix_size e0) = length d + 8"
    using unat_of_nat_u16 [OF small(1)] len by (simp only: e0_def HDR_SIZE_def nv_info_idx_t.simps)
  define f1 where "f1 = flash_write_page ?ia (idx_bytes e0) f"
  have w1: "flash_writeWithCheck ?ia (idx_bytes e0) f = (True, f1)"
    unfolding f1_def using er(1) by (intro writeWithCheck_erased) simp
  have f1: "f1 j = f j" if "j < ?ia \<or> ?ia + 8 \<le> j" for j
    unfolding f1_def using that by (intro flash_write_outside) simp
  have er1: "erased off (8 + length d) f1"
    unfolding f1_def using er(2) ia by (subst erased_write_other) auto
  then have erp: "erased (off + 8) (length d) f1" by (rule erased_mono) auto
  obtain h where wp: "write_payload (off + 8) e0 len src f1 =
      (Inr (h, xcrc32 (hdr_tail h) (xcrc32 d crc_init)), flash_write_page (off + 8) d f1)"
    and h: "hd_used h = ITEM_HDR_FIELD_VALID_CHECKCRC" "hd_size h = len" "hd_itemId h = itemId"
    using write_payload_ok [OF src _ sz erp f1] by (auto simp: e0_def)
  define f2 where "f2 = flash_write_page (off + 8) d f1"
  define h' where "h' = h\<lparr>hd_checkSum := push_bit 16 (lo16 (idx_crc e)) OR
    lo16 (xcrc32 (hdr_tail h) (xcrc32 d crc_init))\<rparr>"
  define f3 where "f3 = flash_write_page off (hdr_bytes h') f2"
  have er2: "erased off 8 f2"
    unfolding f2_def using er1 by (subst erased_write_other) (auto intro: erased_mono)
  have w3: "flash_writeWithCheck off (hdr_bytes h') f2 = (True, f3)"
    unfolding f3_def using er2 by (intro writeWithCheck_erased) simp
  have f23: "f2 j = f1 j" if "j < off + 8 \<or> off + 8 + length d \<le> j" for j
    unfolding f2_def using that by (intro flash_write_outside) simp
  have f32: "f3 j = f2 j" if "j < off \<or> off + 8 \<le> j" for j
    unfolding f3_def using that by (intro flash_write_outside) simp
  have r1: "flash_read ?ia 8 f1 = idx_bytes e0"
    unfolding f1_def using flash_read_write_erased [of ?ia "idx_bytes e0" f] er(1) by simp
  have r1': "flash_read ?ia 8 f3 = idx_bytes e0"
  proof -
    have "flash_read ?ia 8 f3 = flash_read ?ia 8 f1"
      using ia by (intro flash_read_cong) (simp add: f32 f23)
    with r1 show ?thesis by simp
  qed
  have st: "f3 (?ia + 7) = ITEM_FIELD_OPERATION"
  proof -
    have "flash_read ?ia 8 f3 ! 7 = f3 (?ia + 7)" by simp
    then show ?thesis unfolding r1' by (simp add: idx_bytes_def u32_bytes_def u16_bytes_def e0_def)
  qed
  define f4 where "f4 = f3(?ia + 7 := ?st)"
  have w4: "flash_writeWithCheck (?ia + 7) [?st] f3 = (True, f4)"
    unfolding f4_def by (rule flash_write_byte) (simp only: st state_bits)
  have "ix_usedState e = ?st" by (simp add: e)
  note w4e = w4 [folded this]
  have "nv_write_item single md itemId sec opIdx len src f = (NV_SUCC, f4)"
  proof -
    have chk: "ITEM_OFT_CHECK off (unat (ix_size e0)) md sec"
      using off small sz len by (auto simp: ITEM_OFT_CHECK_def)
    show ?thesis
      using chk unfolding nv_write_item_def off(1) IDX_SIZE_def HDR_SIZE_def option.case Let_def
      unfolding e0_def [symmetric, unfolded HDR_SIZE_def] w1 prod.case
      by (simp add: wp e [symmetric] h'_def [symmetric] w3 [unfolded f2_def] w4e)
  qed
  moreover have "idx_at ?ia f4 = e"
  proof -
    have "flash_read ?ia 8 f4 = (flash_read ?ia 8 f3)[7 := ?st]"
      unfolding f4_def by (rule nth_equalityI) (auto simp: nth_list_update)
    then show ?thesis by (simp add: idx_at_iff r1' e idx_bytes_state)
  qed
  moreover have f4: "f4 j = f3 j" if "off \<le> j" for j
    using that ia by (simp add: f4_def)
  have "item_ok f4 off e d"
  proof -
    have "flash_read off 8 f4 = flash_read off 8 f3" by (rule flash_read_cong) (simp add: f4)
    also have "\<dots> = hdr_bytes h'"
      unfolding f3_def using flash_read_write_erased [of off "hdr_bytes h'" f2] er2 by simp
    finally have ha: "hdr_at off f4 = h'" by (simp add: hdr_at_iff)
    have "flash_read (off + 8) (length d) f4 = flash_read (off + 8) (length d) f2"
      by (rule flash_read_cong) (simp add: f4 f32)
    also have "\<dots> = d" unfolding f2_def using erp by (rule flash_read_write_erased)
    finally show ?thesis
      using ha h small len sz by (simp add: item_ok_def Let_def h'_def e e0_def)
  qed
  moreover have "f4 i = f i" if "i < ?ia \<or> ?ia + 8 \<le> i" "i < off \<or> off + 8 + length d \<le> i" for i
    using that by (auto simp: f4_def f32 f23 f1)
  ultimately show ?thesis by blast
qed

text \<open>Reading a complete item.\<close>

lemma itemlen_match: "len \<noteq> 0 \<Longrightarrow> NV_ITEMLEN_MATCH (ucast (sz :: u16)) len \<longleftrightarrow> unat sz mod unat len = 0"
proof -
  have "unat (ucast sz mod ucast len :: u32) = unat sz mod unat len"
    using unsigned_less [of sz, where ?'a = nat] unsigned_less [of len, where ?'a = nat]
    by (simp add: unat_mod unsigned_ucast_eq take_bit_nat_eq_self)
  then show ?thesis by (metis NV_ITEMLEN_MATCH_def unat_eq_0)
qed

lemma read_item_ok:
  assumes it: "item_ok f off e d" and idx: "idx_at (MODULE_IDX_START md sec + opIdx * 8) f = e"
    and v: "ITEM_VALID_FLAG_CHECK (ix_usedState e)" and id: "ix_itemId e = itemId"
    and len: "len \<noteq> 0" "length d mod unat len = 0"
    and tbl: "nv_itemLengthValidCheck tbl itemId (of_nat (length d)) = r" "unat r \<le> length d"
  shows "nv_flashReadByIndex tbl md itemId sec opIdx len f = (NV_SUCC, take (unat r) d)"
proof -
  let ?h = "hdr_at off f"
  have h: "hd_used ?h = ITEM_HDR_FIELD_VALID_CHECKCRC" "unat (hd_size ?h) = length d" "hd_itemId ?h = itemId"
    "lo16 (hd_checkSum ?h) = lo16 (xcrc32 (hdr_tail ?h) (xcrc32 d crc_init))"
    and d: "flash_read (off + 8) (length d) f = d"
    and o: "unat (ix_offset e) = off"
    using it id by (auto simp: item_ok_def Let_def)
  have m: "NV_ITEMLEN_MATCH (ucast (hd_size ?h)) len"
    using len h(2) by (simp add: itemlen_match)
  have sz: "hd_size ?h = of_nat (length d)" unfolding h(2) [symmetric] by simp
  have r: "nv_itemLengthValidCheck tbl itemId (hd_size ?h) = r" unfolding sz by (rule tbl(1))
  have u: "hd_used ?h \<noteq> ITEM_HDR_FIELD_VALID_CHECKSUM" "ITEM_HDR_VALID_CHECK (hd_used ?h)"
    unfolding h(1) by (simp_all add: ITEM_HDR_FIELD_VALID_CHECKCRC_def ITEM_HDR_FIELD_VALID_CHECKSUM_def
        ITEM_HDR_VALID_CHECK_def)
  have split: "flash_read (off + 8) (unat r) f = take (unat r) d"
    "flash_read (off + 8 + unat r) (length d - unat r) f = drop (unat r) d"
    using take_flash_read [OF tbl(2), of "off + 8" f] drop_flash_read [OF tbl(2), of "off + 8" f] d by simp_all
  have "crc_chunks 32 (off + 8 + unat r) (length d - unat r) (xcrc32 (take (unat r) d) crc_init) f = xcrc32 d crc_init"
    using xcrc32_append [of "take (unat r) d" "drop (unat r) d" crc_init] by (simp add: crc_chunks_read split)
  then show ?thesis
    using m u h v idx split r
    by (simp add: nv_flashReadByIndex_def Let_def IDX_SIZE_def HDR_SIZE_def o)
qed

subsection \<open>The search of the index\<close>

subsection \<open>The search is a search for the newest entry\<close>

fun last_hit :: "(nat \<Rightarrow> bool) \<Rightarrow> nat \<Rightarrow> nat option" where
  "last_hit P 0 = None"
| "last_hit P (Suc n) = (if P n then Some n else last_hit P n)"

definition entry_hit :: "u8 \<Rightarrow> u16 \<Rightarrow> nv_info_idx_t \<Rightarrow> bool" where
  "entry_hit itemId len e \<longleftrightarrow>
     (if itemId \<noteq> ITEM_FIELD_IDLE
      then ITEM_VALID_FLAG_CHECK (ix_usedState e) \<and> ix_itemId e = itemId \<and> NV_ITEMLEN_MATCH (ucast (ix_size e) - 8) len
      else ix_usedState e \<noteq> ITEM_FIELD_IDLE \<or> ix_size e \<noteq> 0xffff \<or> ix_itemId e \<noteq> itemId)"

lemma last_hit_add:
  "last_hit P (m + k) = (case last_hit (\<lambda>i. P (m + i)) k of Some i \<Rightarrow> Some (m + i) | None \<Rightarrow> last_hit P m)"
  by (induction k) auto

lemma last_hit_cong: "(\<And>i. i < n \<Longrightarrow> P i = Q i) \<Longrightarrow> last_hit P n = last_hit Q n"
  by (induction n) auto

lemma chunk_scan_hit:
  "chunk_scan itemId len True es k =
     (case last_hit (\<lambda>i. entry_hit itemId len (es ! i)) k of Some i \<Rightarrow> Jump i | None \<Rightarrow> Miss)"
  by (induction k) (auto simp: entry_hit_def Let_def)

lemma index_loop_hit:
  "index_loop itemId len True start f n (ret, l) =
     (case last_hit (\<lambda>i. entry_hit itemId len (idx_at (start + i * 8) f)) n of
        Some i \<Rightarrow> (NV_SUCC, l, Some i) | None \<Rightarrow> (ret, l, None))"
proof (induction n rule: less_induct)
  case (less n)
  show ?case
  proof (cases "n = 0")
    case True
    then show ?thesis by (simp add: index_loop.simps)
  next
    case False
    let ?k = "min 4 n" and ?m = "n - min 4 n"
    let ?raw = "flash_read (start + ?m * IDX_SIZE) (?k * IDX_SIZE) f"
    let ?es = "map (\<lambda>j. idx_of (take IDX_SIZE (drop (j * IDX_SIZE) ?raw))) [0..<?k]"
    let ?P = "\<lambda>i. entry_hit itemId len (idx_at (start + i * 8) f)"
    have es: "?es ! i = idx_at (start + (?m + i) * 8) f" if "i < ?k" for i
    proof -
      have "i * 8 \<le> ?k * 8" "8 \<le> ?k * 8 - i * 8" using that by linarith+
      then have "take 8 (drop (i * 8) (flash_read (start + ?m * 8) (?k * 8) f)) = flash_read (start + ?m * 8 + i * 8) 8 f"
        by (simp only: drop_flash_read take_flash_read)
      with that show ?thesis by (simp add: idx_at_def IDX_SIZE_def algebra_simps)
    qed
    have c: "chunk_scan itemId len True ?es ?k =
        (case last_hit (\<lambda>i. ?P (?m + i)) ?k of Some i \<Rightarrow> Jump i | None \<Rightarrow> Miss)"
    proof -
      have "last_hit (\<lambda>i. entry_hit itemId len (?es ! i)) ?k = last_hit (\<lambda>i. ?P (?m + i)) ?k"
        by (rule last_hit_cong) (simp only: es)
      then show ?thesis unfolding chunk_scan_hit by (simp only:)
    qed
    have n: "n = ?m + ?k" by simp
    have h: "last_hit ?P n = (case last_hit (\<lambda>i. ?P (?m + i)) ?k of Some i \<Rightarrow> Some (?m + i) | None \<Rightarrow> last_hit ?P ?m)"
      by (subst n, rule last_hit_add)
    show ?thesis
      using False less.IH [of ?m] unfolding h
      by (subst index_loop.simps) (simp add: Let_def c split: option.split)
  qed
qed

lemma nv_index_read_hit:
  "nv_index_read md itemId len sec n f =
     (case last_hit (\<lambda>i. entry_hit itemId len (idx_at (MODULE_IDX_START md sec + i * 8) f)) n of
        Some i \<Rightarrow> (NV_SUCC, Some i) | None \<Rightarrow> (NV_ITEM_NOT_FOUND, None))"
  by (simp add: nv_index_read_def nv_index_read_op_def index_loop_hit split: option.split)

subsection \<open>The log of a sector\<close>

type_synonym nv_log = "(nv_info_idx_t \<times> bytes) list"   \<comment> \<open>newest first\<close>

fun next_off :: "nat \<Rightarrow> nat \<Rightarrow> nv_log \<Rightarrow> nat" where
  "next_off md sec [] = MODULE_CONTEXT_START md sec"
| "next_off md sec ((e, d) # l) = align4 (next_off md sec l + (8 + length d))"

definition closed_state :: "u8 \<Rightarrow> bool" where
  "closed_state v \<longleftrightarrow> v = ITEM_FIELD_VALID \<or> v = ITEM_FIELD_VALID_SINGLE \<or> v = ITEM_FIELD_INVALID"

fun log_ok :: "nat \<Rightarrow> nat \<Rightarrow> flash \<Rightarrow> nv_log \<Rightarrow> bool" where
  "log_ok md sec f [] \<longleftrightarrow> True"
| "log_ok md sec f ((e, d) # l) \<longleftrightarrow>
     idx_at (MODULE_IDX_START md sec + length l * 8) f = e \<and> item_ok f (next_off md sec l) e d \<and>
     next_off md sec l + (8 + length d) \<le> MODULE_SECT_END md sec \<and> closed_state (ix_usedState e) \<and>
     log_ok md sec f l"

definition log_rep :: "nat \<Rightarrow> nat \<Rightarrow> flash \<Rightarrow> nv_log \<Rightarrow> bool" where
  "log_rep md sec f l \<longleftrightarrow> lay_ok md sec \<and> length l \<le> MODULE_IDX_NUM md \<and> log_ok md sec f l \<and>
     erased (MODULE_IDX_START md sec + length l * 8) ((MODULE_IDX_NUM md - length l) * 8) f \<and>
     erased (next_off md sec l) (MODULE_SECT_END md sec - next_off md sec l) f"

lemma align4_bounds:
  assumes "a < 0x80000000"
  shows "a \<le> align4 a" "align4 a \<le> a + 3" "align4 a mod 4 = 0"
    "a \<le> b \<Longrightarrow> b mod 4 = 0 \<Longrightarrow> align4 a \<le> b"
proof -
  have m: "align4 a = (a + 3) div 4 * 4" using assms by (simp add: align4_def)
  show "a \<le> align4 a" "align4 a \<le> a + 3" unfolding m by linarith+
  show "align4 a mod 4 = 0" unfolding m by simp
  show "align4 a \<le> b" if h: "a \<le> b" "b mod 4 = 0"
  proof -
    from h(2) obtain c where "b = 4 * c" by (auto simp: mod_eq_0_iff_dvd)
    with h(1) have "(a + 3) div 4 \<le> c" by linarith
    with \<open>b = 4 * c\<close> show ?thesis unfolding m by simp
  qed
qed

lemma lay_end_mod: "lay_ok md sec \<Longrightarrow> MODULE_SECT_END md sec mod 4 = 0"
  by (auto simp: MODULE_SECT_END_def MODULES_START_ADDR_def NV_SECTOR_SIZE_def NV_BASE_ADDRESS_def
      FLASH_SECTOR_SIZE_def mod_eq_0_iff_dvd)

lemma next_off_bounds:
  assumes "lay_ok md sec" "log_ok md sec f l"
  shows "MODULE_CONTEXT_START md sec \<le> next_off md sec l \<and> next_off md sec l \<le> MODULE_SECT_END md sec \<and>
    next_off md sec l mod 4 = 0"
  using assms(2)
proof (induction l)
  case Nil
  then show ?case using layout [OF assms(1)] by simp
next
  case (Cons x l)
  obtain e d where x: "x = (e, d)" by (cases x)
  let ?a = "next_off md sec l + (8 + length d)"
  have "?a \<le> MODULE_SECT_END md sec" "MODULE_CONTEXT_START md sec \<le> ?a" using Cons x by auto
  moreover have "?a < 0x80000000" using calculation layout [OF assms(1)] by linarith
  ultimately show ?case
    using align4_bounds [of ?a] lay_end_mod [OF assms(1)] x by (auto intro: order_trans)
qed

lemma next_off_Cons:
  assumes "lay_ok md sec" "log_ok md sec f ((e, d) # l)"
  shows "next_off md sec l + (8 + length d) \<le> next_off md sec ((e, d) # l)"
proof -
  have "next_off md sec l + (8 + length d) < 0x80000000"
    using assms layout [OF assms(1)] by simp
  then show ?thesis by (simp add: align4_bounds)
qed

lemma log_ok_cong:
  assumes "lay_ok md sec" "log_ok md sec f l"
    "\<And>i. MODULE_IDX_START md sec \<le> i \<Longrightarrow> i < MODULE_IDX_START md sec + length l * 8 \<Longrightarrow> f i = g i"
    "\<And>i. MODULE_CONTEXT_START md sec \<le> i \<Longrightarrow> i < next_off md sec l \<Longrightarrow> f i = g i"
  shows "log_ok md sec g l"
  using assms(2-)
proof (induction l)
  case (Cons x l)
  obtain e d where x: "x = (e, d)" by (cases x)
  note lc = Cons.prems(1) [unfolded x]
  have nb: "MODULE_CONTEXT_START md sec \<le> next_off md sec l"
    using next_off_bounds [OF assms(1), of f l] lc by simp
  note nc = next_off_Cons [OF assms(1) lc]
  have "log_ok md sec g l"
    by (rule Cons.IH) (use lc Cons.prems(2,3) nc x in auto)
  moreover have "idx_at (MODULE_IDX_START md sec + length l * 8) g = e"
  proof -
    have "flash_read (MODULE_IDX_START md sec + length l * 8) 8 g = flash_read (MODULE_IDX_START md sec + length l * 8) 8 f"
      by (rule flash_read_cong) (use Cons.prems(2) x in auto)
    with lc show ?thesis by (simp add: idx_at_iff)
  qed
  moreover have "item_ok g (next_off md sec l) e d"
    by (rule item_ok_cong [where f = f and e = e]) (use lc Cons.prems(3) nb nc x in auto)
  ultimately show ?case using lc x by simp
qed simp

lemma log_item_offset:
  assumes "lay_ok md sec" "log_ok md sec f l"
  shows "item_offset md sec (length l) f = Some (next_off md sec l)"
proof (cases l)
  case Nil
  then show ?thesis by (simp add: item_offset_def)
next
  case (Cons x l')
  obtain e d where x: "x = (e, d)" by (cases x)
  with Cons assms have it: "item_ok f (next_off md sec l') e d" and i: "idx_at (MODULE_IDX_START md sec + length l' * 8) f = e"
    and fit: "next_off md sec l' + (8 + length d) \<le> MODULE_SECT_END md sec" and st: "closed_state (ix_usedState e)"
    and l': "log_ok md sec f l'" by auto
  from it have o: "unat (ix_offset e) = next_off md sec l'" "unat (ix_size e) = 8 + length d"
    and crc: "hi16 (hd_checkSum (hdr_at (next_off md sec l') f)) = lo16 (idx_crc e)"
    by (auto simp: item_ok_def Let_def)
  have "ITEM_OFT_CHECK (next_off md sec l') (8 + length d) md sec"
    using fit next_off_bounds [OF assms(1) l'] by (auto simp: ITEM_OFT_CHECK_def)
  moreover have "ITEM_FLAG_CHECK (ix_usedState e)" using st by (auto simp: closed_state_def ITEM_FLAG_CHECK_def)
  ultimately show ?thesis
    using Cons x i o crc by (simp add: item_offset_def IDX_SIZE_def Let_def)
qed

subsection \<open>Appending\<close>

lemma log_append:
  fixes single :: bool
  assumes rep: "log_rep md sec f l" and n: "length l < MODULE_IDX_NUM md"
    and fit: "next_off md sec l + (8 + length d) \<le> MODULE_SECT_END md sec"
    and src: "src_ok src len itemId d f (MODULE_IDX_START md sec + length l * 8) (next_off md sec l)"
  defines "e \<equiv> \<lparr>ix_offset = of_nat (next_off md sec l), ix_size = of_nat (unat len + HDR_SIZE), ix_itemId = itemId,
      ix_usedState = (if single then ITEM_FIELD_VALID_SINGLE else ITEM_FIELD_VALID)\<rparr>"
  shows "\<exists>f'. nv_write_item single md itemId sec (length l) len src f = (NV_SUCC, f') \<and>
    log_rep md sec f' ((e, d) # l) \<and>
    (\<forall>i. i < MODULE_IDX_START md sec \<or> MODULE_SECT_END md sec \<le> i \<longrightarrow> f' i = f i)"
proof -
  let ?I = "MODULE_IDX_START md sec" and ?n = "next_off md sec l"
  have lay: "lay_ok md sec" and lo: "log_ok md sec f l"
    and er: "erased (?I + length l * 8) ((MODULE_IDX_NUM md - length l) * 8) f"
      "erased ?n (MODULE_SECT_END md sec - ?n) f"
    using rep by (auto simp: log_rep_def)
  note ly = layout [OF lay] and nb = next_off_bounds [OF lay lo]
  have e1: "erased (?I + length l * 8) 8 f" using er(1) by (rule erased_mono) (use n in auto)
  have e2: "erased ?n (8 + length d) f" using er(2) by (rule erased_mono) (use fit in auto)
  obtain f' where w: "nv_write_item single md itemId sec (length l) len src f = (NV_SUCC, f')"
    and i: "idx_at (?I + length l * 8) f' = e" and it: "item_ok f' ?n e d"
    and fr: "\<And>i. i < ?I + length l * 8 \<or> ?I + length l * 8 + 8 \<le> i \<Longrightarrow> i < ?n \<or> ?n + 8 + length d \<le> i \<Longrightarrow> f' i = f i"
    using write_item_ok [OF lay n log_item_offset [OF lay lo] _ _ e1 e2 src, of single, folded e_def] nb fit
    by (auto simp: add.assoc)
  have idx_end: "?I + length l * 8 + 8 \<le> MODULE_CONTEXT_START md sec" using n ly(2) by linarith
  have lo': "log_ok md sec f' ((e, d) # l)"
  proof -
    have "log_ok md sec f' l"
      by (rule log_ok_cong [OF lay lo]; rule sym, rule fr) (use idx_end nb in linarith)+
    moreover have "closed_state (ix_usedState e)" by (simp add: e_def closed_state_def)
    ultimately show ?thesis using i it fit by simp
  qed
  note nc = next_off_Cons [OF lay lo']
  have "erased (?I + length ((e, d) # l) * 8) ((MODULE_IDX_NUM md - length ((e, d) # l)) * 8) f'"
    unfolding erased_def
  proof (intro allI impI)
    fix j assume j: "?I + length ((e, d) # l) * 8 \<le> j"
      "j < ?I + length ((e, d) # l) * 8 + (MODULE_IDX_NUM md - length ((e, d) # l)) * 8"
    then have "j < ?I + 8 * MODULE_IDX_NUM md" using n by auto
    then have "f' j = f j" using j ly(2) nb by (intro fr) auto
    then show "f' j = 0xFF" using er(1) j n by (auto simp: erased_def)
  qed
  moreover have "erased (next_off md sec ((e, d) # l)) (MODULE_SECT_END md sec - next_off md sec ((e, d) # l)) f'"
    unfolding erased_def
  proof (intro allI impI)
    fix j assume j: "next_off md sec ((e, d) # l) \<le> j"
      "j < next_off md sec ((e, d) # l) + (MODULE_SECT_END md sec - next_off md sec ((e, d) # l))"
    then have "f' j = f j" using nc nb idx_end by (intro fr) linarith+
    then show "f' j = 0xFF" using er(2) j nc by (auto simp: erased_def)
  qed
  ultimately have "log_rep md sec f' ((e, d) # l)"
    using lay lo' n by (simp add: log_rep_def)
  moreover have "f' i = f i" if "i < ?I \<or> MODULE_SECT_END md sec \<le> i" for i
    using that idx_end nb fit ly by (intro fr) linarith+
  ultimately show ?thesis using w by blast
qed

subsection \<open>Searching the log\<close>

fun log_find :: "(nv_info_idx_t \<Rightarrow> bool) \<Rightarrow> nv_log \<Rightarrow> nat option" where
  "log_find P [] = None"
| "log_find P ((e, d) # l) = (if P e then Some (length l) else log_find P l)"

lemma log_find_last_hit:
  "log_ok md sec f l \<Longrightarrow>
     last_hit (\<lambda>i. P (idx_at (MODULE_IDX_START md sec + i * 8) f)) (length l) = log_find P l"
  by (induction l) auto

lemma idle_entry: "erased a 8 f \<Longrightarrow>
  idx_at a f = \<lparr>ix_offset = 0xFFFFFFFF, ix_size = 0xFFFF, ix_itemId = 0xFF, ix_usedState = 0xFF\<rparr>"
proof -
  assume "erased a 8 f"
  then have "flash_read a 8 f = replicate 8 0xFF" by (intro nth_equalityI) (auto simp: erased_def)
  then have "idx_at a f = idx_of (replicate 8 0xFF)" by (simp add: idx_at_def IDX_SIZE_def)
  also have "\<dots> = \<lparr>ix_offset = 0xFFFFFFFF, ix_size = 0xFFFF, ix_itemId = 0xFF, ix_usedState = 0xFF\<rparr>"
    by code_simp
  finally show ?thesis .
qed

lemma idle_no_hit: "erased a 8 f \<Longrightarrow> \<not> entry_hit itemId len (idx_at a f)"
  by (simp add: idle_entry entry_hit_def ITEM_VALID_FLAG_CHECK_def ITEM_FIELD_VALID_def
      ITEM_FIELD_VALID_SINGLE_def ITEM_FIELD_IDLE_def)

lemma last_hit_none: "(\<And>i. i < k \<Longrightarrow> \<not> P i) \<Longrightarrow> last_hit P k = None"
  by (induction k) auto

lemma index_read_log:
  assumes rep: "log_rep md sec f l"
  shows "nv_index_read md itemId len sec (MODULE_IDX_NUM md) f =
    (case log_find (entry_hit itemId len) l of Some i \<Rightarrow> (NV_SUCC, Some i) | None \<Rightarrow> (NV_ITEM_NOT_FOUND, None))"
proof -
  let ?P = "\<lambda>i. entry_hit itemId len (idx_at (MODULE_IDX_START md sec + i * 8) f)"
  let ?k = "MODULE_IDX_NUM md - length l"
  have lo: "log_ok md sec f l" and n: "length l \<le> MODULE_IDX_NUM md"
    and er: "erased (MODULE_IDX_START md sec + length l * 8) (?k * 8) f"
    using rep by (auto simp: log_rep_def)
  have "last_hit (\<lambda>i. ?P (length l + i)) ?k = None"
  proof (rule last_hit_none)
    fix i assume "i < ?k"
    then have "erased (MODULE_IDX_START md sec + (length l + i) * 8) 8 f"
      using er by (elim erased_mono) auto
    then show "\<not> ?P (length l + i)" by (rule idle_no_hit)
  qed
  then have "last_hit ?P (MODULE_IDX_NUM md) = last_hit ?P (length l)"
    using last_hit_add [of ?P "length l" ?k] n by simp
  then show ?thesis
    using log_find_last_hit [OF lo, of "entry_hit itemId len"] by (simp add: nv_index_read_hit)
qed

lemma closed_not_idle: "closed_state v \<Longrightarrow> v \<noteq> ITEM_FIELD_IDLE"
  by (auto simp: closed_state_def ITEM_FIELD_VALID_def ITEM_FIELD_VALID_SINGLE_def ITEM_FIELD_INVALID_def
      ITEM_FIELD_IDLE_def)

lemma index_read_idle:
  assumes rep: "log_rep md sec f l"
  shows "nv_index_read md ITEM_FIELD_IDLE len sec (MODULE_IDX_NUM md) f =
    (if l = [] then (NV_ITEM_NOT_FOUND, None) else (NV_SUCC, Some (length l - 1)))"
proof -
  have "log_find (entry_hit ITEM_FIELD_IDLE len) l = (if l = [] then None else Some (length l - 1))"
    using rep by (cases l) (auto simp: log_rep_def entry_hit_def closed_not_idle)
  then show ?thesis by (simp add: index_read_log [OF rep])
qed

subsection \<open>Marking an entry invalid\<close>

fun log_inval :: "nat \<Rightarrow> nv_log \<Rightarrow> nv_log" where
  "log_inval i [] = []"
| "log_inval i ((e, d) # l) =
     (if length l = i then (e\<lparr>ix_usedState := ITEM_FIELD_INVALID\<rparr>, d) # l else (e, d) # log_inval i l)"

lemma length_log_inval [simp]: "length (log_inval i l) = length l"
  by (induction i l rule: log_inval.induct) auto

lemma next_off_inval [simp]: "next_off md sec (log_inval i l) = next_off md sec l"
  by (induction i l rule: log_inval.induct) auto

lemma log_state_byte: "log_ok md sec f l \<Longrightarrow> i < length l \<Longrightarrow>
  closed_state (f (MODULE_IDX_START md sec + i * 8 + 7))"
proof (induction l)
  case (Cons x l)
  obtain e d where x: "x = (e, d)" by (cases x)
  show ?case
  proof (cases "i = length l")
    case True
    have "idx_at (MODULE_IDX_START md sec + i * 8) f = e" "closed_state (ix_usedState e)"
      using Cons.prems x True by auto
    then show ?thesis by (auto simp: idx_at_def idx_of_def IDX_SIZE_def)
  next
    case False
    with Cons x show ?thesis by simp
  qed
qed simp

lemma log_ok_inval:
  assumes lay: "lay_ok md sec" and n: "length l \<le> MODULE_IDX_NUM md"
  shows "log_ok md sec f l \<Longrightarrow> i < length l \<Longrightarrow>
    log_ok md sec (f(MODULE_IDX_START md sec + i * 8 + 7 := ITEM_FIELD_INVALID)) (log_inval i l)"
  using n
proof (induction l)
  case (Cons x l)
  obtain e d where x: "x = (e, d)" by (cases x)
  let ?a = "MODULE_IDX_START md sec + i * 8 + 7"
  let ?f = "f(?a := ITEM_FIELD_INVALID)"
  note ly = layout [OF lay]
  have lo: "log_ok md sec f l" and it: "item_ok f (next_off md sec l) e d"
    and i: "idx_at (MODULE_IDX_START md sec + length l * 8) f = e"
    and fit: "next_off md sec l + (8 + length d) \<le> MODULE_SECT_END md sec"
    and st: "closed_state (ix_usedState e)"
    using Cons.prems x by auto
  note nb = next_off_bounds [OF lay lo]
  have a: "?a < MODULE_CONTEXT_START md sec" using Cons.prems ly(2) by simp
  have it': "item_ok ?f (next_off md sec l) (e\<lparr>ix_usedState := v\<rparr>) d" for v
    by (rule item_ok_cong [OF it]) (use a nb in auto)
  show ?case
  proof (cases "i = length l")
    case True
    have "log_ok md sec ?f l"
      by (rule log_ok_cong [OF lay lo]) (use a True in auto)
    moreover have "idx_at (MODULE_IDX_START md sec + length l * 8) ?f = e\<lparr>ix_usedState := ITEM_FIELD_INVALID\<rparr>"
    proof -
      have "flash_read (MODULE_IDX_START md sec + length l * 8) 8 ?f
          = (flash_read (MODULE_IDX_START md sec + length l * 8) 8 f)[7 := ITEM_FIELD_INVALID]"
        by (rule nth_equalityI) (auto simp: nth_list_update True)
      with i show ?thesis by (simp add: idx_at_iff idx_bytes_state)
    qed
    ultimately show ?thesis
      using x True fit it' [of ITEM_FIELD_INVALID] by (simp add: closed_state_def del: fun_upd_apply)
  next
    case False
    have "idx_at (MODULE_IDX_START md sec + length l * 8) ?f = e"
    proof -
      have "flash_read (MODULE_IDX_START md sec + length l * 8) 8 ?f = flash_read (MODULE_IDX_START md sec + length l * 8) 8 f"
        by (rule flash_read_cong) (use False Cons.prems in auto)
      with i show ?thesis by (simp add: idx_at_iff)
    qed
    moreover have "log_ok md sec ?f (log_inval i l)" using Cons.IH lo False Cons.prems by (simp del: fun_upd_apply)
    ultimately show ?thesis
      using x False fit st it' [of "ix_usedState e"] by (simp del: fun_upd_apply)
  qed
qed simp

lemma inval_bits: "closed_state v \<Longrightarrow> v AND ITEM_FIELD_INVALID = ITEM_FIELD_INVALID"
  by (auto simp: closed_state_def ITEM_FIELD_VALID_def ITEM_FIELD_VALID_SINGLE_def ITEM_FIELD_INVALID_def)

lemma log_inval_rep:
  assumes rep: "log_rep md sec f l" and i: "i < length l"
  defines "a \<equiv> MODULE_IDX_START md sec + i * 8 + 7"
  shows "flash_writeWithCheck a [ITEM_FIELD_INVALID] f = (True, f(a := ITEM_FIELD_INVALID))"
    "log_rep md sec (f(a := ITEM_FIELD_INVALID)) (log_inval i l)"
    "MODULE_IDX_START md sec \<le> a" "a < MODULE_SECT_END md sec"
proof -
  have lay: "lay_ok md sec" and lo: "log_ok md sec f l" and n: "length l \<le> MODULE_IDX_NUM md"
    and er: "erased (MODULE_IDX_START md sec + length l * 8) ((MODULE_IDX_NUM md - length l) * 8) f"
      "erased (next_off md sec l) (MODULE_SECT_END md sec - next_off md sec l) f"
    using rep by (auto simp: log_rep_def)
  note ly = layout [OF lay] and nb = next_off_bounds [OF lay lo]
  have a: "a < MODULE_IDX_START md sec + length l * 8" using i by (simp add: a_def)
  show "MODULE_IDX_START md sec \<le> a" by (simp add: a_def)
  show "a < MODULE_SECT_END md sec" using a ly(2,3) n by linarith
  show "flash_writeWithCheck a [ITEM_FIELD_INVALID] f = (True, f(a := ITEM_FIELD_INVALID))"
    unfolding a_def by (rule flash_write_byte) (rule inval_bits [OF log_state_byte [OF lo i]])
  have "erased (next_off md sec l) (MODULE_SECT_END md sec - next_off md sec l) (f(a := ITEM_FIELD_INVALID))"
    using er(2) a nb ly(2) n by (auto simp: erased_def)
  moreover have "erased (MODULE_IDX_START md sec + length l * 8) ((MODULE_IDX_NUM md - length l) * 8) (f(a := ITEM_FIELD_INVALID))"
    using er(1) a by (auto simp: erased_def)
  ultimately show "log_rep md sec (f(a := ITEM_FIELD_INVALID)) (log_inval i l)"
    using lay n log_ok_inval [OF lay n lo i] by (simp add: log_rep_def a_def)
qed

end
