(* ===== verification/Nv_Change.thy ===== *)
theory Nv_Change
  imports Nv_Log
begin

text \<open>
  The handler of a write: the header that names the sector in use, the items a log stores
  (\<open>nv_get\<close>), the write in place, and the change to the other sector: the copy of the live items,
  the new item and the three header writes, which leave a log with the same items.
\<close>

subsection \<open>The header of a sector\<close>

lemma sect_info_ok:
  assumes "sec < MODULE_SECTOR_NUM"
  shows "nv_sectInfoCrcCheck (sect_info_for md sec flag)" "si_opSect (sect_info_for md sec flag) AND 3 = of_nat sec"
proof -
  let ?c = "xcrc32 [of_nat md, of_nat sec] crc_init AND 0x3f"
  let ?o = "ucast (push_bit 2 ?c OR of_nat sec) :: u8"
  have m: "(3 :: u8) = mask 2" "(0x3f :: u8) = mask 6" "(0x3f :: u32) = mask 6"
    by (simp_all add: mask_eq_exp_minus_1)
  have s: "sec = 0 \<or> sec = 1" using assms by (auto simp: MODULE_SECTOR_NUM_def)
  have o: "?o AND 3 = of_nat sec"
    unfolding m using s by (auto intro!: bit_word_eqI simp: bit_simps)
  have d: "(ucast (drop_bit 2 ?o AND 0x3f) :: u32) = ?c"
    unfolding m using s by (auto intro!: bit_word_eqI simp: bit_simps)
  show "si_opSect (sect_info_for md sec flag) AND 3 = of_nat sec"
    using o by (simp add: sect_info_for_def Let_def)
  show "nv_sectInfoCrcCheck (sect_info_for md sec flag)"
    using o d by (simp add: nv_sectInfoCrcCheck_def sect_info_for_def Let_def)
qed

text \<open>The header of the sector in use. The other one is invalid, or erased when a change of sector
  was given up; that matters for sector 0, which the search looks at first.\<close>

definition NV_SECTOR_IDLE :: u16 where "NV_SECTOR_IDLE = 0xFFFF"

definition hdr_ok :: "nat \<Rightarrow> nat \<Rightarrow> flash \<Rightarrow> bool" where
  "hdr_ok md sec f \<longleftrightarrow>
     sect_at (MODULE_SECT_START md sec) f = sect_info_for md sec NV_SECTOR_VALID_CHECKCRC \<and>
     (sec \<noteq> 0 \<longrightarrow> si_usedFlag (sect_at (MODULE_SECT_START md 0) f) \<in> {NV_SECTOR_INVALID, NV_SECTOR_IDLE})"

lemma flag_distinct [simp]:
  "NV_SECTOR_VALID_CHECKCRC \<noteq> NV_SECTOR_VALID_READY_CHECKCRC" "NV_SECTOR_INVALID \<noteq> NV_SECTOR_VALID_READY_CHECKCRC"
  "NV_SECTOR_INVALID \<noteq> NV_SECTOR_VALID" "NV_SECTOR_INVALID \<noteq> NV_SECTOR_VALID_CHECKCRC"
  "NV_SECTOR_IDLE \<noteq> NV_SECTOR_VALID_READY_CHECKCRC" "NV_SECTOR_IDLE \<noteq> NV_SECTOR_VALID"
  "NV_SECTOR_IDLE \<noteq> NV_SECTOR_VALID_CHECKCRC"
  by (simp_all add: NV_SECTOR_IDLE_def NV_SECTOR_VALID_CHECKCRC_def NV_SECTOR_VALID_READY_CHECKCRC_def NV_SECTOR_INVALID_def NV_SECTOR_VALID_def)

lemma sect_start_next: "MODULE_SECT_START md (Suc sec) = MODULE_SECT_START md sec + NV_SECTOR_SIZE md"
  "MODULES_START_ADDR md = MODULE_SECT_START md 0" "MODULE_SECT_END md sec = MODULE_SECT_START md sec + NV_SECTOR_SIZE md"
  by (simp_all add: MODULE_SECT_START_def MODULE_SECT_END_def)

lemma sector_read_ok:
  assumes lay: "lay_ok md sec" and h: "hdr_ok md sec f"
  shows "\<exists>s. nv_sector_read md MODULE_SECTOR_NUM f = (NV_SUCC, Some s, f) \<and> unat (si_opSect s) = sec"
proof -
  have sec: "sec = 0 \<or> sec = 1" "sec < MODULE_SECTOR_NUM" and md: "md < 8"
    using lay by (auto simp: lay_ok_def MODULE_SECTOR_NUM_def NV_MAX_MODULS_def)
  have n2: "MODULE_SECTOR_NUM = Suc (Suc 0)" by (simp add: MODULE_SECTOR_NUM_def)
  let ?s = "sect_info_for md sec NV_SECTOR_VALID_CHECKCRC"
  have s: "si_usedFlag ?s = NV_SECTOR_VALID_CHECKCRC" "unat (si_idName ?s) = md" "SECT_VALID_CHECK ?s"
    using md by (simp_all add: sect_info_for_def Let_def SECT_VALID_CHECK_def unsigned_of_nat take_bit_nat_eq_self)
  have at: "sect_at (MODULE_SECT_START md sec) f = ?s" using h by (simp add: hdr_ok_def)
  have u: "unat (of_nat sec :: u8) = sec" using sec by auto
  show ?thesis
  proof (cases "sec = 0")
    case True
    with at s sect_info_ok [OF sec(2), of md] show ?thesis
      by (simp add: nv_sector_read_def n2 sect_start_next Let_def)
  next
    case False
    with sec have sec1: "sec = Suc 0" by simp
    have "si_usedFlag (sect_at (MODULE_SECT_START md 0) f) \<notin>
        {NV_SECTOR_VALID_READY_CHECKCRC, NV_SECTOR_VALID, NV_SECTOR_VALID_CHECKCRC}"
      using h False by (fastforce simp: hdr_ok_def flag_distinct [symmetric])
    with at s sect_info_ok [OF sec(2), of md] sec1 show ?thesis
      by (simp add: nv_sector_read_def n2 sect_start_next Let_def SECT_VALID_CHECK_def)
  qed
qed

lemma hdr_ok_cong:
  assumes "lay_ok md sec" "hdr_ok md sec f"
    "\<And>i. i < MODULE_IDX_START md sec \<or> MODULE_SECT_END md sec \<le> i \<Longrightarrow> g i = f i"
  shows "hdr_ok md sec g"
proof -
  have i: "MODULE_IDX_START md sec = MODULE_SECT_START md sec + 4" using layout [OF assms(1)] by simp
  have "flash_read (MODULE_SECT_START md sec) 4 g = flash_read (MODULE_SECT_START md sec) 4 f"
    using i by (intro flash_read_cong assms(3)) auto
  moreover have "flash_read (MODULE_SECT_START md 0) 4 g = flash_read (MODULE_SECT_START md 0) 4 f"
  proof (rule flash_read_cong, rule assms(3))
    fix j assume "MODULE_SECT_START md 0 \<le> j" "j < MODULE_SECT_START md 0 + 4"
    then show "j < MODULE_IDX_START md sec \<or> MODULE_SECT_END md sec \<le> j"
      unfolding i by (simp add: MODULE_SECT_START_def)
  qed
  ultimately show ?thesis
    using assms(2) by (simp add: hdr_ok_def sect_at_def SECT_INFO_SIZE_def)
qed

subsection \<open>What the log stores\<close>

fun nv_get :: "nv_log \<Rightarrow> u8 \<Rightarrow> bytes option" where
  "nv_get [] k = None"
| "nv_get ((e, d) # l) k = (if ITEM_VALID_FLAG_CHECK (ix_usedState e) \<and> ix_itemId e = k then Some d else nv_get l k)"

text \<open>At most one valid entry for every item, and single items only.\<close>

fun uniq :: "nv_log \<Rightarrow> bool" where
  "uniq [] \<longleftrightarrow> True"
| "uniq ((e, d) # l) \<longleftrightarrow> ix_usedState e \<noteq> ITEM_FIELD_VALID \<and> ix_itemId e \<noteq> ITEM_FIELD_IDLE \<and>
     (ITEM_VALID_FLAG_CHECK (ix_usedState e) \<longrightarrow> nv_get l (ix_itemId e) = None) \<and> uniq l"

lemma nv_get_size: "log_ok md sec f l \<Longrightarrow> nv_get l k = Some d \<Longrightarrow> length d + 8 < 2 ^ 16"
proof (induction l)
  case (Cons x l)
  obtain e d' where x: "x = (e, d')" by (cases x)
  with Cons.prems have "unat (ix_size e) = length d' + 8" by (auto simp: item_ok_def)
  then have "length d' + 8 < 2 ^ 16" using unsigned_less [of "ix_size e", where ?'a = nat] by simp
  with Cons x show ?case by (auto split: if_splits)
qed simp

lemma find_get:
  assumes "log_ok md sec f l" "k \<noteq> ITEM_FIELD_IDLE" "len \<noteq> 0"
    "\<And>d. nv_get l k = Some d \<Longrightarrow> length d mod unat len = 0" "uniq l"
  shows "log_find (entry_hit k len) l = log_find (\<lambda>e. ITEM_VALID_FLAG_CHECK (ix_usedState e) \<and> ix_itemId e = k) l"
  using assms
proof (induction l)
  case (Cons x l)
  obtain e d where x: "x = (e, d)" by (cases x)
  show ?case
  proof (cases "ITEM_VALID_FLAG_CHECK (ix_usedState e) \<and> ix_itemId e = k")
    case True
    then have "nv_get (x # l) k = Some d" using x by simp
    with Cons.prems(4) have m: "length d mod unat len = 0" by simp
    from Cons.prems(1) x have sz: "unat (ix_size e) = length d + 8" by (auto simp: item_ok_def)
    have "(ucast (ix_size e) - 8 :: u32) = ucast (of_nat (length d) :: u16)"
    proof -
      have b: "length d + 8 < 2 ^ 16" using sz unsigned_less [of "ix_size e", where ?'a = nat] by simp
      have "unat (ucast (ix_size e) :: u32) = length d + 8"
        using sz b by (simp add: unsigned_ucast_eq take_bit_nat_eq_self)
      then have "unat (ucast (ix_size e) - 8 :: u32) = length d"
        by (simp add: unat_sub_if_size)
      moreover have "unat (ucast (of_nat (length d) :: u16) :: u32) = length d"
        using b by (simp add: unsigned_ucast_eq unsigned_of_nat take_bit_nat_eq_self)
      ultimately show ?thesis by (simp only: word_unat_eq_iff)
    qed
    moreover have "unat (of_nat (length d) :: u16) = length d"
      using sz unsigned_less [of "ix_size e", where ?'a = nat] by (intro unat_of_nat_u16) simp
    ultimately have "NV_ITEMLEN_MATCH (ucast (ix_size e) - 8) len"
      using itemlen_match [OF Cons.prems(3), of "of_nat (length d)"] m by simp
    with True Cons.prems(2) x show ?thesis by (simp add: entry_hit_def)
  next
    case False
    then have "\<not> entry_hit k len e" using Cons.prems(2) by (auto simp: entry_hit_def)
    moreover have "log_find (entry_hit k len) l = log_find (\<lambda>e. ITEM_VALID_FLAG_CHECK (ix_usedState e) \<and> ix_itemId e = k) l"
      using Cons.prems x False by (intro Cons.IH) auto
    ultimately show ?thesis using x False by auto
  qed
qed simp

lemma log_find_None: "log_find (\<lambda>e. ITEM_VALID_FLAG_CHECK (ix_usedState e) \<and> ix_itemId e = k) l = None \<longleftrightarrow> nv_get l k = None"
  by (induction l k rule: nv_get.induct) auto

lemma log_find_bound: "log_find P l = Some i \<Longrightarrow> i < length l"
  by (induction l) (auto split: if_splits)

lemma state_distinct [simp]:
  "\<not> ITEM_VALID_FLAG_CHECK ITEM_FIELD_INVALID" "ITEM_VALID_FLAG_CHECK ITEM_FIELD_VALID_SINGLE"
  "ITEM_FIELD_VALID_SINGLE \<noteq> ITEM_FIELD_VALID" "ITEM_FIELD_INVALID \<noteq> ITEM_FIELD_VALID"
  "ITEM_FIELD_INVALID \<noteq> ITEM_FIELD_IDLE"
  by (simp_all add: ITEM_VALID_FLAG_CHECK_def ITEM_FIELD_INVALID_def ITEM_FIELD_VALID_SINGLE_def ITEM_FIELD_VALID_def
      ITEM_FIELD_IDLE_def)

lemma inval_get:
  assumes "uniq l" "log_find (\<lambda>e. ITEM_VALID_FLAG_CHECK (ix_usedState e) \<and> ix_itemId e = k) l = Some i"
  shows "nv_get (log_inval i l) = (nv_get l)(k := None)" "uniq (log_inval i l)"
proof -
  have "nv_get (log_inval i l) = (nv_get l)(k := None) \<and> uniq (log_inval i l)"
    using assms
  proof (induction l)
    case (Cons x l)
    obtain e d where x: "x = (e, d)" by (cases x)
    show ?case
    proof (cases "ITEM_VALID_FLAG_CHECK (ix_usedState e) \<and> ix_itemId e = k")
      case True
      with Cons.prems x have "i = length l" "nv_get l k = None" "uniq l" by auto
      with x True Cons.prems show ?thesis by (auto simp: fun_eq_iff)
    next
      case False
      with Cons.prems x have f: "log_find (\<lambda>e. ITEM_VALID_FLAG_CHECK (ix_usedState e) \<and> ix_itemId e = k) l = Some i" by auto
      then have "i < length l" by (rule log_find_bound)
      with f Cons x False show ?thesis by (auto simp: fun_eq_iff)
    qed
  qed simp
  then show "nv_get (log_inval i l) = (nv_get l)(k := None)" "uniq (log_inval i l)" by auto
qed

definition nv_rep :: "nat \<Rightarrow> nat \<Rightarrow> flash \<Rightarrow> nv_log \<Rightarrow> bool" where
  "nv_rep md sec f l \<longleftrightarrow> log_rep md sec f l \<and> hdr_ok md sec f \<and> uniq l \<and> l \<noteq> []"

subsection \<open>A write in place\<close>

definition write_phase ::
  "nat \<Rightarrow> u8 \<Rightarrow> u16 \<Rightarrow> bytes \<Rightarrow> nat \<Rightarrow> nat \<Rightarrow> flash \<Rightarrow> flash \<Rightarrow> bool" where
  "write_phase md k len buf sec n f f4 \<longleftrightarrow>
     (let deleteIdx = (case nv_index_read md k len sec (MODULE_IDX_NUM md) f of
                         (NV_SUCC, Some i) \<Rightarrow> Some i | _ \<Rightarrow> None) in
      \<exists>f3. nv_write_item True md k sec n len (Ram buf) f = (NV_SUCC, f3) \<and>
        (case deleteIdx of None \<Rightarrow> (True, f3)
         | Some i \<Rightarrow> flash_writeWithCheck (MODULE_IDX_START md sec + i * IDX_SIZE + 7) [ITEM_FIELD_INVALID] f3) = (True, f4))"

definition getter_ok :: "nv_log \<Rightarrow> u8 \<Rightarrow> u16 \<Rightarrow> bool" where
  "getter_ok l k len \<longleftrightarrow> k \<noteq> ITEM_FIELD_IDLE \<and> len \<noteq> 0 \<and> (\<forall>d. nv_get l k = Some d \<longrightarrow> length d mod unat len = 0)"

lemma index_read_get:
  assumes rep: "log_rep md sec f l" and u: "uniq l" and g: "getter_ok l k len"
  shows "nv_index_read md k len sec (MODULE_IDX_NUM md) f =
    (case log_find (\<lambda>e. ITEM_VALID_FLAG_CHECK (ix_usedState e) \<and> ix_itemId e = k) l of
       Some i \<Rightarrow> (NV_SUCC, Some i) | None \<Rightarrow> (NV_ITEM_NOT_FOUND, None))"
proof -
  have "log_ok md sec f l" using rep by (simp add: log_rep_def)
  from find_get [OF this _ _ _ u, of k len] g show ?thesis
    by (auto simp: index_read_log [OF rep] getter_ok_def)
qed

lemma write_phase_ok:
  assumes rep: "log_rep md sec f l" and u: "uniq l" and n: "length l < MODULE_IDX_NUM md"
    and g: "getter_ok l k len" and buf: "length buf = unat len"
    and fit: "next_off md sec l + (8 + unat len) \<le> MODULE_SECT_END md sec"
  shows "\<exists>f4 l'. write_phase md k len buf sec (length l) f f4 \<and> log_rep md sec f4 l' \<and> uniq l' \<and> l' \<noteq> [] \<and>
    nv_get l' = (nv_get l)(k \<mapsto> buf) \<and>
    (\<forall>i. i < MODULE_IDX_START md sec \<or> MODULE_SECT_END md sec \<le> i \<longrightarrow> f4 i = f i)"
proof -
  have src: "src_ok (Ram buf) len k buf f (MODULE_IDX_START md sec + length l * 8) (next_off md sec l)"
    using buf by (simp add: src_ok_def)
  define e where "e = \<lparr>ix_offset = of_nat (next_off md sec l), ix_size = of_nat (unat len + HDR_SIZE), ix_itemId = k,
      ix_usedState = (if True then ITEM_FIELD_VALID_SINGLE else ITEM_FIELD_VALID)\<rparr>"
  have e: "ix_usedState e = ITEM_FIELD_VALID_SINGLE" "ix_itemId e = k" by (simp_all add: e_def)
  have fit': "next_off md sec l + (8 + length buf) \<le> MODULE_SECT_END md sec" using fit buf by simp
  obtain f3 where w: "nv_write_item True md k sec (length l) len (Ram buf) f = (NV_SUCC, f3)"
    and r3: "log_rep md sec f3 ((e, buf) # l)"
    and fr: "\<And>i. i < MODULE_IDX_START md sec \<or> MODULE_SECT_END md sec \<le> i \<Longrightarrow> f3 i = f i"
    using log_append [OF rep n fit' src, of True, folded e_def] by blast
  let ?P = "\<lambda>e. ITEM_VALID_FLAG_CHECK (ix_usedState e) \<and> ix_itemId e = k"
  note ir = index_read_get [OF rep u g]
  show ?thesis
  proof (cases "log_find ?P l")
    case None
    then have "nv_get l k = None" by (simp add: log_find_None)
    then have "uniq ((e, buf) # l)" using u e g by (simp add: getter_ok_def)
    moreover have "nv_get ((e, buf) # l) = (nv_get l)(k \<mapsto> buf)" using e by (auto simp: fun_eq_iff)
    moreover have "write_phase md k len buf sec (length l) f f3"
      using w None by (simp add: write_phase_def ir)
    ultimately show ?thesis using r3 fr by blast
  next
    case (Some i)
    then have i: "i < length l" by (rule log_find_bound)
    let ?a = "MODULE_IDX_START md sec + i * 8 + 7"
    let ?l = "(e, buf) # log_inval i l"
    have i': "i < length ((e, buf) # l)" using i by simp
    note iv = log_inval_rep [OF r3 i']
    have li: "log_inval i ((e, buf) # l) = ?l" using i by simp
    note ig = inval_get [OF u Some]
    have "uniq ?l" using ig e g by (simp add: getter_ok_def)
    moreover have "nv_get ?l = (nv_get l)(k \<mapsto> buf)" using e ig(1) by (auto simp: fun_eq_iff)
    moreover have "write_phase md k len buf sec (length l) f (f3(?a := ITEM_FIELD_INVALID))"
      using w Some iv(1) by (simp add: write_phase_def ir IDX_SIZE_def)
    moreover have "(f3(?a := ITEM_FIELD_INVALID)) j = f j"
      if "j < MODULE_IDX_START md sec \<or> MODULE_SECT_END md sec \<le> j" for j
      using that iv(3,4) fr by auto
    ultimately show ?thesis using iv(2) unfolding li by blast
  qed
qed

fun plain_end :: "nat \<Rightarrow> nat \<Rightarrow> nv_log \<Rightarrow> nat" where
  "plain_end md sec [] = MODULE_CONTEXT_START md sec"
| "plain_end md sec ((e, d) # l) = next_off md sec l + (8 + length d)"

lemma plain_end_le:
  assumes "lay_ok md sec" "log_ok md sec f l"
  shows "plain_end md sec l \<le> next_off md sec l \<and> plain_end md sec l \<le> MODULE_SECT_END md sec"
  using assms next_off_Cons [OF assms(1)] layout [OF assms(1)] by (cases l) auto

lemma find_slot_log:
  assumes rep: "log_rep md sec f l" and ne: "l \<noteq> []"
  shows "find_slot md sec len f =
    (if length l = MODULE_IDX_NUM md \<or> plain_end md sec l + (8 + unat len) > MODULE_SECT_END md sec
     then None else Some (length l))"
proof -
  obtain e d l' where l: "l = (e, d) # l'" using ne by (cases l) auto
  have lay: "lay_ok md sec" and lo: "log_ok md sec f l" and n: "length l \<le> MODULE_IDX_NUM md"
    using rep by (auto simp: log_rep_def)
  note ly = layout [OF lay]
  have i: "idx_at (MODULE_IDX_START md sec + length l' * 8) f = e" and it: "item_ok f (next_off md sec l') e d"
    and fit: "next_off md sec l' + (8 + length d) \<le> MODULE_SECT_END md sec" and st: "closed_state (ix_usedState e)"
    and lo': "log_ok md sec f l'"
    using lo l by auto
  have o: "unat (ix_offset e) = next_off md sec l'" "unat (ix_size e) = 8 + length d"
    using it by (auto simp: item_ok_def)
  have "ITEM_OFT_CHECK (next_off md sec l') (8 + length d) md sec"
    using fit next_off_bounds [OF lay lo'] by (auto simp: ITEM_OFT_CHECK_def)
  moreover have "ITEM_FLAG_CHECK (ix_usedState e)" using st by (auto simp: closed_state_def ITEM_FLAG_CHECK_def)
  moreover have "(next_off md sec l' + (8 + length d) + ITEM_TOTAL_LEN len) mod 2 ^ 32
      = next_off md sec l' + (8 + length d) + (8 + unat len)"
  proof -
    have "next_off md sec l' + (8 + length d) + ITEM_TOTAL_LEN len < 2 ^ 32"
      using fit ly(5) unsigned_less [of len, where ?'a = nat] by (simp add: ITEM_TOTAL_LEN_def HDR_SIZE_def)
    then show ?thesis by (simp add: ITEM_TOTAL_LEN_def HDR_SIZE_def)
  qed
  moreover have "length l' = MODULE_IDX_NUM md - 1 \<longleftrightarrow> length l = MODULE_IDX_NUM md" using l ly(7) by auto
  ultimately show ?thesis
    using l o i by (simp add: find_slot_def index_read_idle [OF rep] IDX_SIZE_def Let_def add.assoc)
qed

lemma mod_size: "lay_ok md sec \<Longrightarrow> next_off md sec l + (8 + unat len) \<le> MODULE_SECT_END md sec \<Longrightarrow>
  log_ok md sec f l \<Longrightarrow> \<not> NV_SECTOR_SIZE md < ITEM_TOTAL_LEN len + MODULE_INFO_SIZE md"
  using next_off_bounds [of md sec f l]
  by (auto simp: MODULE_CONTEXT_START_def sect_start_next ITEM_TOTAL_LEN_def HDR_SIZE_def)

lemma handler_in_place:
  assumes rep: "nv_rep md sec f l" and n: "length l < MODULE_IDX_NUM md"
    and g: "getter_ok l k len" and buf: "length buf = unat len"
    and fit: "next_off md sec l + (8 + unat len) \<le> MODULE_SECT_END md sec"
  shows "\<exists>f' l'. nv_flashWriteNewHandler False True md k len buf f pool = (NV_SUCC, f', pool) \<and>
    nv_rep md sec f' l' \<and> nv_get l' = (nv_get l)(k \<mapsto> buf) \<and>
    (\<forall>i. i < MODULE_IDX_START md sec \<or> MODULE_SECT_END md sec \<le> i \<longrightarrow> f' i = f i)"
proof -
  have lr: "log_rep md sec f l" and h: "hdr_ok md sec f" and u: "uniq l" and ne: "l \<noteq> []"
    using rep by (auto simp: nv_rep_def)
  then have lay: "lay_ok md sec" and lo: "log_ok md sec f l" by (auto simp: log_rep_def)
  obtain s where s: "nv_sector_read md MODULE_SECTOR_NUM f = (NV_SUCC, Some s, f)" "unat (si_opSect s) = sec"
    using sector_read_ok [OF lay h] by blast
  obtain f4 l' where w: "write_phase md k len buf sec (length l) f f4" "log_rep md sec f4 l'" "uniq l'" "l' \<noteq> []"
    "nv_get l' = (nv_get l)(k \<mapsto> buf)"
    and fr: "\<And>i. i < MODULE_IDX_START md sec \<or> MODULE_SECT_END md sec \<le> i \<Longrightarrow> f4 i = f i"
    using write_phase_ok [OF lr u n g buf fit] by blast
  have slot: "find_slot md sec len f = Some (length l)"
    using n fit plain_end_le [OF lay lo] by (auto simp: find_slot_log [OF lr ne])
  have "nv_rep md sec f4 l'"
    using w hdr_ok_cong [OF lay h fr] by (simp add: nv_rep_def)
  moreover have "nv_flashWriteNewHandler False True md k len buf f pool = (NV_SUCC, f4, pool)"
    using w(1) slot ne mod_size [OF lay fit lo]
    by (auto simp: nv_flashWriteNewHandler_def s Let_def write_phase_def split: prod.splits)
  ultimately show ?thesis using w(5) fr by blast
qed

lemma log_rep_cong:
  assumes "log_rep md sec f l" "\<And>i. MODULE_IDX_START md sec \<le> i \<Longrightarrow> i < MODULE_SECT_END md sec \<Longrightarrow> g i = f i"
  shows "log_rep md sec g l"
proof -
  have lay: "lay_ok md sec" and lo: "log_ok md sec f l" and n: "length l \<le> MODULE_IDX_NUM md"
    and er: "erased (MODULE_IDX_START md sec + length l * 8) ((MODULE_IDX_NUM md - length l) * 8) f"
      "erased (next_off md sec l) (MODULE_SECT_END md sec - next_off md sec l) f"
    using assms(1) by (auto simp: log_rep_def)
  note ly = layout [OF lay] and nb = next_off_bounds [OF lay lo]
  have "log_ok md sec g l"
    by (rule log_ok_cong [OF lay lo]; rule sym, rule assms(2)) (use ly nb n in linarith)+
  moreover have "erased (MODULE_IDX_START md sec + length l * 8) ((MODULE_IDX_NUM md - length l) * 8) g"
    unfolding erased_def
  proof (intro allI impI)
    fix j assume j: "MODULE_IDX_START md sec + length l * 8 \<le> j"
      "j < MODULE_IDX_START md sec + length l * 8 + (MODULE_IDX_NUM md - length l) * 8"
    then have "g j = f j" using ly n by (intro assms(2)) auto
    with j er(1) show "g j = 0xFF" by (simp add: erased_def)
  qed
  moreover have "erased (next_off md sec l) (MODULE_SECT_END md sec - next_off md sec l) g"
    unfolding erased_def
  proof (intro allI impI)
    fix j assume j: "next_off md sec l \<le> j" "j < next_off md sec l + (MODULE_SECT_END md sec - next_off md sec l)"
    then have "g j = f j" using ly nb by (intro assms(2)) auto
    with j er(2) show "g j = 0xFF" by (simp add: erased_def)
  qed
  ultimately show ?thesis using lay n by (simp add: log_rep_def)
qed

lemma erase_sectors_ok:
  "a mod FLASH_SECTOR_SIZE = 0 \<Longrightarrow>
     (\<forall>i. erase_sectors n a f i = (if a \<le> i \<and> i < a + n * FLASH_SECTOR_SIZE then 0xFF else f i))"
proof (induction n arbitrary: a f)
  case (Suc n)
  have "(a + FLASH_SECTOR_SIZE) mod FLASH_SECTOR_SIZE = 0" using Suc.prems by simp
  note IH = Suc.IH [OF this, of "flash_erase a f"]
  have e: "flash_erase a f i = (if a \<le> i \<and> i < a + FLASH_SECTOR_SIZE then 0xFF else f i)" for i
    using erased_erase [OF Suc.prems, of f] flash_erase_other [OF Suc.prems, of i f]
    by (auto simp: erased_def)
  show ?case
  proof
    fix i
    show "erase_sectors (Suc n) a f i = (if a \<le> i \<and> i < a + Suc n * FLASH_SECTOR_SIZE then 0xFF else f i)"
      unfolding erase_sectors.simps IH [rule_format, of i] e [of i] by auto
  qed
qed auto

lemma erase_new:
  fixes f :: flash
  assumes lay: "lay_ok md sec"
  defines "f1 \<equiv> erase_sectors (NV_SECTOR_SIZE md div FLASH_SECTOR_SIZE) (MODULES_START_ADDR md + sec * NV_SECTOR_SIZE md) f"
  shows "erased (MODULE_SECT_START md sec) (NV_SECTOR_SIZE md) f1"
    "\<And>i. i < MODULE_SECT_START md sec \<or> MODULE_SECT_END md sec \<le> i \<Longrightarrow> f1 i = f i"
proof -
  have s: "MODULES_START_ADDR md + sec * NV_SECTOR_SIZE md = MODULE_SECT_START md sec"
    by (simp add: MODULE_SECT_START_def)
  have m: "MODULE_SECT_START md sec mod FLASH_SECTOR_SIZE = 0"
    by (auto simp: MODULE_SECT_START_def MODULES_START_ADDR_def NV_SECTOR_SIZE_def NV_BASE_ADDRESS_def FLASH_SECTOR_SIZE_def
        mod_eq_0_iff_dvd)
  have n: "NV_SECTOR_SIZE md div FLASH_SECTOR_SIZE * FLASH_SECTOR_SIZE = NV_SECTOR_SIZE md"
    by (simp add: NV_SECTOR_SIZE_def FLASH_SECTOR_SIZE_def)
  note e = erase_sectors_ok [OF m, of "NV_SECTOR_SIZE md div FLASH_SECTOR_SIZE" f, unfolded n]
  show "erased (MODULE_SECT_START md sec) (NV_SECTOR_SIZE md) f1"
    using e by (simp add: f1_def s erased_def)
  show "f1 i = f i" if "i < MODULE_SECT_START md sec \<or> MODULE_SECT_END md sec \<le> i" for i
    unfolding f1_def s e [rule_format, of i] using that by (auto simp: sect_start_next(3))
qed

lemma log_rep_empty:
  assumes lay: "lay_ok md sec" and er: "erased (MODULE_SECT_START md sec) (NV_SECTOR_SIZE md) f"
  shows "log_rep md sec f []"
proof -
  note ly = layout [OF lay]
  have E: "MODULE_SECT_END md sec = MODULE_SECT_START md sec + NV_SECTOR_SIZE md" by (simp add: sect_start_next)
  have "erased (MODULE_IDX_START md sec) (MODULE_IDX_NUM md * 8) f"
    by (rule erased_mono [OF er]) (use ly E in linarith)+
  moreover have "erased (MODULE_CONTEXT_START md sec) (MODULE_SECT_END md sec - MODULE_CONTEXT_START md sec) f"
    by (rule erased_mono [OF er]) (use ly E in linarith)+
  ultimately show ?thesis using lay by (simp add: log_rep_def)
qed

subsection \<open>No entry is superseded\<close>

lemma exception_loop_log:
  "log_ok md sec f l \<Longrightarrow> uniq l \<Longrightarrow> \<forall>k \<in> set seen. nv_get l k = None \<Longrightarrow>
     exception_loop True sec md (length l) seen f = f"
proof (induction l arbitrary: seen)
  case (Cons x l)
  obtain e d where x: "x = (e, d)" by (cases x)
  have e: "idx_at (MODULE_IDX_START md sec + length l * IDX_SIZE) f = e" "closed_state (ix_usedState e)"
    and lo: "log_ok md sec f l" and u: "uniq l" "ix_usedState e \<noteq> ITEM_FIELD_VALID"
    using Cons.prems x by (auto simp: IDX_SIZE_def)
  show ?case
  proof (cases "ITEM_VALID_FLAG_CHECK (ix_usedState e)")
    case True
    then have s: "ix_usedState e = ITEM_FIELD_VALID_SINGLE" using u by (auto simp: ITEM_VALID_FLAG_CHECK_def)
    from True Cons.prems x have "ix_itemId e \<notin> set seen" "nv_get l (ix_itemId e) = None" by auto
    moreover have "\<forall>k \<in> set seen. nv_get l k = None"
      using Cons.prems(3) True x by (auto split: if_splits)
    ultimately show ?thesis
      using Cons.IH [OF lo u(1), of "seen @ [ix_itemId e]"] e True s x by simp
  next
    case False
    with Cons.prems x have "\<forall>k \<in> set seen. nv_get l k = None" by auto
    with Cons.IH [OF lo u(1)] e False x show ?thesis by simp
  qed
qed simp

lemma exception_loop_idle:
  assumes rep: "log_rep md sec f l" and u: "uniq l"
  shows "exception_loop True sec md (MODULE_IDX_NUM md) [] f = f"
proof -
  have lo: "log_ok md sec f l" and n: "length l \<le> MODULE_IDX_NUM md"
    and er: "erased (MODULE_IDX_START md sec + length l * 8) ((MODULE_IDX_NUM md - length l) * 8) f"
    using rep by (auto simp: log_rep_def)
  have "k \<le> MODULE_IDX_NUM md - length l \<Longrightarrow> exception_loop True sec md (length l + k) [] f = f" for k
  proof (induction k)
    case 0
    show ?case using exception_loop_log [OF lo u, of "[]"] by simp
  next
    case (Suc k)
    then have "erased (MODULE_IDX_START md sec + (length l + k) * 8) 8 f"
      using er by (elim erased_mono) auto
    then have "\<not> ITEM_VALID_FLAG_CHECK (ix_usedState (idx_at (MODULE_IDX_START md sec + (length l + k) * 8) f))"
      by (simp add: idle_entry ITEM_VALID_FLAG_CHECK_def ITEM_FIELD_VALID_def ITEM_FIELD_VALID_SINGLE_def)
    with Suc show ?case by (simp add: IDX_SIZE_def)
  qed
  from this [of "MODULE_IDX_NUM md - length l"] n show ?thesis by simp
qed

subsection \<open>Copying the live items\<close>

definition al4 :: "nat \<Rightarrow> nat" where "al4 n = (n + 3) div 4 * 4"

fun live_sz :: "u8 \<Rightarrow> nv_log \<Rightarrow> nat" where
  "live_sz k [] = 0"
| "live_sz k ((e, d) # l) = live_sz k l +
     (if ITEM_VALID_FLAG_CHECK (ix_usedState e) \<and> ix_itemId e \<noteq> k then al4 (8 + length d) else 0)"

fun live_cnt :: "u8 \<Rightarrow> nv_log \<Rightarrow> nat" where
  "live_cnt k [] = 0"
| "live_cnt k ((e, d) # l) = live_cnt k l +
     (if ITEM_VALID_FLAG_CHECK (ix_usedState e) \<and> ix_itemId e \<noteq> k then 1 else 0)"

lemma align4_add:
  assumes "a mod 4 = 0" "a + n < 0x80000000" shows "align4 (a + n) = a + al4 n"
proof -
  obtain b where "a = 4 * b" using assms(1) by (auto simp: mod_eq_0_iff_dvd)
  then have "(a + n + 3) div 4 = b + (n + 3) div 4"
    using div_mult_self2 [of 4 "n + 3" b] by (simp add: add.assoc add.commute)
  then show ?thesis using \<open>a = 4 * b\<close> assms(2) by (simp add: align4_def al4_def)
qed

lemma next_off_step:
  assumes "lay_ok md sec" "log_ok md sec f l" "next_off md sec l + (8 + length d) \<le> MODULE_SECT_END md sec"
  shows "next_off md sec ((e, d) # l) = next_off md sec l + al4 (8 + length d)"
  using next_off_bounds [OF assms(1,2)] assms(3) layout [OF assms(1)]
  by (simp add: align4_add)

definition other_sect :: "nat \<Rightarrow> nat" where
  "other_sect sec = (sec + 1) mod MODULE_SECTOR_NUM"

lemma sect_disjoint:
  assumes "lay_ok md sec"
  shows "lay_ok md (other_sect sec)" "other_sect sec \<noteq> sec"
    "MODULE_SECT_END md sec \<le> MODULE_SECT_START md (other_sect sec) \<or>
     MODULE_SECT_END md (other_sect sec) \<le> MODULE_SECT_START md sec"
  using assms by (auto simp: lay_ok_def other_sect_def MODULE_SECTOR_NUM_def less_Suc_eq numeral_2_eq_2
      MODULE_SECT_END_def MODULE_SECT_START_def)

lemma sect_offset: "MODULE_CONTEXT_START md sec - MODULE_SECT_START md sec = MODULE_INFO_SIZE md"
  "MODULE_SECT_END md sec - MODULE_CONTEXT_START md sec = NV_SECTOR_SIZE md - MODULE_INFO_SIZE md"
  by (simp_all add: MODULE_CONTEXT_START_def sect_start_next)

text \<open>The state of the copy after the entries \<open>p\<close> of the old log, of which \<open>nl\<close> were copied.\<close>

definition copy_rel ::
  "nat \<Rightarrow> nat \<Rightarrow> u8 \<Rightarrow> flash \<Rightarrow> nv_log \<Rightarrow> nv_log \<Rightarrow> copy_st \<Rightarrow> nv_log \<Rightarrow> bool" where
  "copy_rel md sec k f1 l p st nl \<longleftrightarrow>
     (let new = other_sect sec; g = cs_flash st in
      log_rep md new g nl \<and> uniq nl \<and> nv_get nl = (nv_get p)(k := None) \<and>
      next_off md new nl = MODULE_CONTEXT_START md new + live_sz k p \<and> length nl = live_cnt k p \<and>
      cs_wItemIdx st = length nl \<and> cs_sizeusedAddr st = next_off md new nl \<and>
      (if p = [] then cs_startChk st
       else \<not> cs_startChk st \<and> align4 (cs_offsetPrev st + cs_sizePrev st) = next_off md sec p) \<and>
      (\<forall>i. i < MODULE_IDX_START md new \<or> MODULE_SECT_END md new \<le> i \<longrightarrow> g i = f1 i))"

lemma live_le_total:
  assumes "lay_ok md sec"
  shows "log_ok md sec f p \<Longrightarrow> MODULE_CONTEXT_START md sec + live_sz k p \<le> next_off md sec p \<and> live_cnt k p \<le> length p"
proof (induction p)
  case (Cons x p)
  obtain e d where x: "x = (e, d)" by (cases x)
  with Cons have lo: "log_ok md sec f p" and fit: "next_off md sec p + (8 + length d) \<le> MODULE_SECT_END md sec" by auto
  have "MODULE_CONTEXT_START md sec + live_sz k p \<le> next_off md sec p \<and> live_cnt k p \<le> length p"
    by (rule Cons.IH [OF lo])
  then show ?case using next_off_step [OF assms lo fit, of e] x by simp
qed simp

lemma copy_entry_fine:
  assumes rel: "copy_rel md sec k f1 l p st nl" and lay: "lay_ok md sec"
    and lo: "log_ok md sec f1 ((e, d) # p)"
  shows "\<not> copy_entry_bad md sec e st"
proof -
  note ly = layout [OF lay]
  have it: "item_ok f1 (next_off md sec p) e d" and fit: "next_off md sec p + (8 + length d) \<le> MODULE_SECT_END md sec"
    and lo': "log_ok md sec f1 p"
    using lo by auto
  have o: "unat (ix_offset e) = next_off md sec p" "unat (ix_size e) = 8 + length d" using it by (auto simp: item_ok_def)
  have "unat (of_nat (MODULE_SECT_END md sec) :: u32) = MODULE_SECT_END md sec" using ly(5) by simp
  then have "unat (of_nat (MODULE_SECT_END md sec) - ix_offset e) = MODULE_SECT_END md sec - next_off md sec p"
    using o fit by (simp add: unat_sub_if_size)
  moreover have "if cs_startChk st then unat (ix_offset e) = MODULE_CONTEXT_START md sec
      else unat (ix_offset e) = align4 (cs_offsetPrev st + cs_sizePrev st)"
    using rel o by (cases "p = []") (auto simp: copy_rel_def Let_def)
  ultimately show ?thesis using o fit by (auto simp: copy_entry_bad_def split: if_splits)
qed

lemma copy_step:
  assumes rel: "copy_rel md sec k f1 l p st nl" and lay: "lay_ok md sec"
    and lo: "log_ok md sec f1 ((e, d) # p)" and n: "length p < MODULE_IDX_NUM md"
    and u: "uniq ((e, d) # p)"
    and cnt: "live_cnt k ((e, d) # p) \<le> MODULE_IDX_NUM md"
  shows "\<exists>st' nl'. copy_entries True md k sec (other_sect sec) (e # es) st
      = copy_entries True md k sec (other_sect sec) es st' \<and> copy_rel md sec k f1 l ((e, d) # p) st' nl'"
proof -
  let ?new = "other_sect sec" and ?g = "cs_flash st"
  note ly = layout [OF lay] and dis = sect_disjoint [OF lay]
  note ln = layout [OF dis(1)]
  have it: "item_ok f1 (next_off md sec p) e d" and fit: "next_off md sec p + (8 + length d) \<le> MODULE_SECT_END md sec"
    and lo': "log_ok md sec f1 p" and st: "closed_state (ix_usedState e)"
    using lo by auto
  note nb = next_off_bounds [OF lay lo']
  have o: "unat (ix_offset e) = next_off md sec p" "unat (ix_size e) = 8 + length d" using it by (auto simp: item_ok_def)
  have lr: "log_rep md ?new ?g nl" and un: "uniq nl" and get: "nv_get nl = (nv_get p)(k := None)"
    and off: "next_off md ?new nl = MODULE_CONTEXT_START md ?new + live_sz k p"
    and len: "length nl = live_cnt k p" and wi: "cs_wItemIdx st = length nl"
    and su: "cs_sizeusedAddr st = next_off md ?new nl"
    and fr: "\<And>i. i < MODULE_IDX_START md ?new \<or> MODULE_SECT_END md ?new \<le> i \<Longrightarrow> ?g i = f1 i"
    using rel by (auto simp: copy_rel_def Let_def)
  let ?st1 = "st\<lparr>cs_startChk := False, cs_offsetPrev := unat (ix_offset e), cs_sizePrev := unat (ix_size e)\<rparr>"
  have prev: "align4 (next_off md sec p + (8 + length d)) = next_off md sec ((e, d) # p)" by simp
  note bad = copy_entry_fine [OF rel lay lo]
  show ?thesis
  proof (cases "ITEM_VALID_FLAG_CHECK (ix_usedState e) \<and> ix_itemId e \<noteq> k")
    case False
    then have "copy_entries True md k sec ?new (e # es) st = copy_entries True md k sec ?new es ?st1"
      using bad by (auto simp: Let_def)
    moreover have "(nv_get ((e, d) # p))(k := None) = (nv_get p)(k := None)" using False by (auto simp: fun_eq_iff)
    then have "copy_rel md sec k f1 l ((e, d) # p) ?st1 nl"
      using False lr un get off len wi su fr o prev by (auto simp: copy_rel_def Let_def)
    ultimately show ?thesis by blast
  next
    case True
    have og: "item_ok ?g (next_off md sec p) e d"
      by (rule item_ok_cong [OF it]) (use fr dis(3) nb fit ly ln in \<open>auto\<close>)
    then have crc: "hi16 (hd_checkSum (hdr_at (next_off md sec p) ?g)) = lo16 (idx_crc e)"
      by (auto simp: item_ok_def Let_def)
    have sz: "unat (ix_size e - 8) = length d"
      using o(2) by (simp add: unat_sub_if_size)
    have tot: "MODULE_CONTEXT_START md sec + live_sz k p \<le> next_off md sec p"
      using live_le_total [OF lay lo'] by blast
    have fit': "next_off md ?new nl + (8 + length d) \<le> MODULE_SECT_END md ?new"
    proof -
      have "live_sz k p + (8 + length d) \<le> MODULE_SECT_END md sec - MODULE_CONTEXT_START md sec"
        using tot fit by linarith
      also have "\<dots> = MODULE_SECT_END md ?new - MODULE_CONTEXT_START md ?new" by (simp add: sect_offset)
      finally show ?thesis using off ln by linarith
    qed
    have n': "length nl < MODULE_IDX_NUM md" using cnt True len by simp
    have src: "src_ok (FromFlash (next_off md sec p)) (ix_size e - 8) (ix_itemId e) d ?g
        (MODULE_IDX_START md ?new + length nl * 8) (next_off md ?new nl)"
    proof -
      have lon: "log_ok md ?new ?g nl" using lr by (simp add: log_rep_def)
      note nbn = next_off_bounds [OF dis(1) lon]
      have a: "next_off md sec p + 8 + length d \<le> MODULE_IDX_START md ?new + length nl * 8 \<or>
          MODULE_IDX_START md ?new + length nl * 8 + 8 \<le> next_off md sec p"
        using dis(3) nb fit ly ln n' by linarith
      have b: "next_off md sec p + 8 + length d \<le> next_off md ?new nl \<or> next_off md ?new nl + 8 + length d \<le> next_off md sec p"
        using dis(3) nb fit ly ln nbn fit' by linarith
      show ?thesis using og sz a b by (auto simp: src_ok_def)
    qed
    have single: "(ix_usedState e = ITEM_FIELD_VALID_SINGLE) = True"
      using True u by (auto simp: ITEM_VALID_FLAG_CHECK_def)
    define e' where "e' = \<lparr>ix_offset = of_nat (next_off md ?new nl), ix_size = of_nat (unat (ix_size e - 8) + HDR_SIZE),
      ix_itemId = ix_itemId e, ix_usedState = (if True then ITEM_FIELD_VALID_SINGLE else ITEM_FIELD_VALID)\<rparr>"
    obtain f' where w: "nv_write_item True md (ix_itemId e) ?new (length nl) (ix_size e - 8)
        (FromFlash (next_off md sec p)) ?g = (NV_SUCC, f')"
      and lr': "log_rep md ?new f' ((e', d) # nl)"
      and fr': "\<And>i. i < MODULE_IDX_START md ?new \<or> MODULE_SECT_END md ?new \<le> i \<Longrightarrow> f' i = ?g i"
      using log_append [OF lr n' fit' src, of True, folded e'_def] by blast
    let ?st2 = "?st1\<lparr>cs_sizeusedAddr := align4 (cs_sizeusedAddr st + unat (ix_size e)),
       cs_wItemIdx := cs_wItemIdx st + 1, cs_flash := f'\<rparr>"
    have "copy_entries True md k sec ?new (e # es) st = copy_entries True md k sec ?new es ?st2"
      using bad True crc w by (simp add: Let_def o wi single)
    moreover have "copy_rel md sec k f1 l ((e, d) # p) ?st2 ((e', d) # nl)"
    proof -
      have e': "ix_usedState e' = ITEM_FIELD_VALID_SINGLE" "ix_itemId e' = ix_itemId e" by (simp_all add: e'_def)
      have "nv_get p (ix_itemId e) = None" using u True by simp
      then have "uniq ((e', d) # nl)" using un e' get u True by simp
      moreover have "nv_get ((e', d) # nl) = (nv_get ((e, d) # p))(k := None)"
        using get e' True by (auto simp: fun_eq_iff)
      moreover have "next_off md ?new ((e', d) # nl) = MODULE_CONTEXT_START md ?new + live_sz k ((e, d) # p)"
        using next_off_step [OF dis(1) _ fit', of ?g e'] lr off True by (simp add: log_rep_def)
      moreover have "align4 (cs_sizeusedAddr st + unat (ix_size e)) = next_off md ?new ((e', d) # nl)"
        by (simp add: su o)
      ultimately show ?thesis
        using lr' len wi fr fr' o prev True by (simp add: copy_rel_def Let_def)
    qed
    ultimately show ?thesis by blast
  qed
qed

text \<open>A run of entries of the old log, oldest first.\<close>

lemma copy_run:
  assumes lay: "lay_ok md sec" and lo: "log_ok md sec f1 (rev q @ p)" and n: "length q + length p \<le> MODULE_IDX_NUM md"
    and u: "uniq (rev q @ p)" and rel: "copy_rel md sec k f1 l p st nl"
  shows "\<exists>st' nl'. copy_entries True md k sec (other_sect sec) (map fst q @ es) st
      = copy_entries True md k sec (other_sect sec) es st' \<and> copy_rel md sec k f1 l (rev q @ p) st' nl'"
  using lo n u rel
proof (induction q arbitrary: p st nl)
  case (Cons x q)
  obtain e d where x: "x = (e, d)" by (cases x)
  have suffix: "log_ok md sec f1 (a @ b) \<Longrightarrow> log_ok md sec f1 b" "uniq (a @ b) \<Longrightarrow> uniq b" for a b
    by (induction a) auto
  have lo: "log_ok md sec f1 ((e, d) # p)" and u: "uniq ((e, d) # p)"
    using Cons.prems(1,3) suffix [of "rev q" "(e, d) # p"] x by simp_all
  have c: "live_cnt k ((e, d) # p) \<le> MODULE_IDX_NUM md" "length p < MODULE_IDX_NUM md"
    using live_le_total [OF lay lo, of k] Cons.prems(2) by auto
  obtain st1 nl1 where s1: "copy_entries True md k sec (other_sect sec) (e # (map fst q @ es)) st
      = copy_entries True md k sec (other_sect sec) (map fst q @ es) st1" "copy_rel md sec k f1 l ((e, d) # p) st1 nl1"
    using copy_step [OF Cons.prems(4) lay lo c(2) u c(1), of "map fst q @ es"] by blast
  obtain st' nl' where s2: "copy_entries True md k sec (other_sect sec) (map fst q @ es) st1
      = copy_entries True md k sec (other_sect sec) es st'" "copy_rel md sec k f1 l (rev q @ (e, d) # p) st' nl'"
    using Cons.IH [OF _ _ _ s1(2)] Cons.prems x by auto
  show ?case using s1 s2 x by auto
qed (auto)

lemma copy_stop_idle:
  assumes rel: "copy_rel md sec k f1 l p st nl" and lay: "lay_ok md sec" and lo: "log_ok md sec f1 p"
    and e: "unat (ix_offset e) = 0xFFFFFFFF"
  shows "copy_entries True md k sec (other_sect sec) (e # es) st = Stop st"
proof -
  have "next_off md sec p < 0x200000" "MODULE_CONTEXT_START md sec < 0x200000"
    using next_off_bounds [OF lay lo] layout [OF lay] by linarith+
  then have "copy_entry_bad md sec e st"
    using rel e by (cases "p = []") (auto simp: copy_entry_bad_def copy_rel_def Let_def)
  then show ?thesis by simp
qed

lemma log_idx_nth:
  "log_ok md sec f l \<Longrightarrow> j < length l \<Longrightarrow> idx_at (MODULE_IDX_START md sec + j * 8) f = fst (rev l ! j)"
proof (induction l)
  case (Cons x l)
  obtain e d where x: "x = (e, d)" by (cases x)
  show ?case
  proof (cases "j = length l")
    case True
    with Cons.prems x show ?thesis by (simp add: nth_append)
  next
    case False
    with Cons x show ?thesis by (simp add: nth_append)
  qed
qed simp

lemma idx_at_cong: "(\<And>i. a \<le> i \<Longrightarrow> i < a + 8 \<Longrightarrow> g i = f i) \<Longrightarrow> idx_at a g = idx_at a f"
  using flash_read_cong [of a 8 g f] by (simp add: idx_at_def IDX_SIZE_def)

lemma copy_index_ok:
  assumes rep: "log_rep md sec f1 l" and u: "uniq l"
  shows "copy_rel md sec k f1 l p st nl \<Longrightarrow> l = rev q @ p \<Longrightarrow>
    \<exists>st' nl'. (copy_index True md k sec (other_sect sec) (MODULE_IDX_START md sec + length p * 8)
        (MODULE_IDX_NUM md - length p) st \<in> {Go_on st', Stop st'}) \<and> copy_rel md sec k f1 l l st' nl'"
proof (induction "length q" arbitrary: q p st nl rule: less_induct)
  case less
  have lay: "lay_ok md sec" and lo: "log_ok md sec f1 l" and n: "length l \<le> MODULE_IDX_NUM md"
    and er: "erased (MODULE_IDX_START md sec + length l * 8) ((MODULE_IDX_NUM md - length l) * 8) f1"
    using rep by (auto simp: log_rep_def)
  let ?I = "MODULE_IDX_START md sec" and ?N = "MODULE_IDX_NUM md - length p"
  note rel = less.prems(1) and l = less.prems(2)
  note ly = layout [OF lay] and dis = sect_disjoint [OF lay]
  note ln = layout [OF dis(1)]
  show ?case
  proof (cases "?N = 0")
    case True
    have "length l = length q + length p" by (simp add: l)
    with True n have "\<not> 0 < length q" by linarith
    then have "q = []" by blast
    with True l rel show ?thesis by (auto simp: copy_index.simps)
  next
    case False
    let ?k = "min 4 ?N"
    define es where "es = map (\<lambda>j. idx_of (take IDX_SIZE (drop (j * IDX_SIZE)
        (flash_read (?I + length p * 8) (?k * IDX_SIZE) (cs_flash st))))) [0..<?k]"
    have es_nth: "es ! j = idx_at (?I + (length p + j) * 8) f1" if j: "j < ?k" for j
    proof -
      have "j * 8 \<le> ?k * 8" "8 \<le> ?k * 8 - j * 8" using j by linarith+
      then have "es ! j = idx_at (?I + length p * 8 + j * 8) (cs_flash st)"
        using j by (simp add: es_def idx_at_def IDX_SIZE_def drop_flash_read take_flash_read)
      also have "\<dots> = idx_at (?I + length p * 8 + j * 8) f1"
      proof (rule idx_at_cong)
        fix i assume i: "?I + length p * 8 + j * 8 \<le> i" "i < ?I + length p * 8 + j * 8 + 8"
        have "?I + length p * 8 + j * 8 + 8 \<le> MODULE_SECT_END md sec" using j ly n by auto
        then have "i < MODULE_IDX_START md (other_sect sec) \<or> MODULE_SECT_END md (other_sect sec) \<le> i"
          using i dis(3) ly ln by linarith
        then show "cs_flash st i = f1 i" using rel by (auto simp: copy_rel_def Let_def)
      qed
      finally show ?thesis by (simp add: algebra_simps)
    qed
    have es_len: "length es = ?k" by (simp add: es_def)
    have es_log: "es ! j = fst (q ! j)" if "j < ?k" "j < length q" for j
      using es_nth [OF that(1)] log_idx_nth [OF lo, of "length p + j"] that(2) l by (simp add: nth_append)
    have step: "copy_index True md k sec (other_sect sec) (?I + length p * 8) ?N st =
      (case copy_entries True md k sec (other_sect sec) es st of
          Go_on st' \<Rightarrow> copy_index True md k sec (other_sect sec) (?I + length p * 8 + ?k * IDX_SIZE) (?N - ?k) st'
        | r \<Rightarrow> r)"
      using False by (subst copy_index.simps) (simp add: Let_def es_def)
    show ?thesis
    proof (cases "?k \<le> length q")
      case True
      let ?q = "take ?k q"
      have es: "es = map fst ?q @ []"
        by (rule nth_equalityI) (use es_len True es_log in auto)
      have q: "rev q @ p = rev (drop ?k q) @ (rev ?q @ p)"
        by (metis append_assoc append_take_drop_id rev_append)
      have suffix: "log_ok md sec f1 (a @ b) \<Longrightarrow> log_ok md sec f1 b" "uniq (a @ b) \<Longrightarrow> uniq b" for a b
        by (induction a) auto
      have c: "log_ok md sec f1 (rev ?q @ p)" "uniq (rev ?q @ p)"
        using suffix lo u l q by metis+
      have ln: "length ?q + length p \<le> MODULE_IDX_NUM md" using n l by simp
      obtain st1 nl1 where s1: "copy_entries True md k sec (other_sect sec) es st = Go_on st1"
        "copy_rel md sec k f1 l (rev ?q @ p) st1 nl1"
        using copy_run [OF lay c(1) ln c(2) rel, of "[]"] unfolding es by auto
      have "length (drop ?k q) < length q" using True False by simp
      from less.hyps [OF this s1(2)] q l obtain st' nl' where A:
        "copy_index True md k sec (other_sect sec) (?I + length (rev ?q @ p) * 8)
           (MODULE_IDX_NUM md - length (rev ?q @ p)) st1 \<in> {Go_on st', Stop st'}"
        "copy_rel md sec k f1 l l st' nl'" by auto
      have B: "?I + length (rev ?q @ p) * 8 = ?I + length p * 8 + ?k * IDX_SIZE"
        "MODULE_IDX_NUM md - length (rev ?q @ p) = ?N - ?k"
        using True by (simp_all add: IDX_SIZE_def algebra_simps)
      show ?thesis
        using A(2) A(1) [unfolded B] unfolding step s1(1) copy_res.case by blast
    next
      case short: False
      define e where "e = es ! length q"
      have es: "es = map fst q @ e # drop (Suc (length q)) es"
      proof (rule nth_equalityI)
        show "length es = length (map fst q @ e # drop (Suc (length q)) es)" using short es_len by simp
        fix j assume "j < length es"
        then show "es ! j = (map fst q @ e # drop (Suc (length q)) es) ! j"
          using short es_len es_log by (auto simp: nth_append nth_Cons' e_def)
      qed
      have ln: "length q + length p \<le> MODULE_IDX_NUM md" using n l by simp
      obtain st1 nl1 where s1: "copy_entries True md k sec (other_sect sec) es st
          = copy_entries True md k sec (other_sect sec) (e # drop (Suc (length q)) es) st1"
        "copy_rel md sec k f1 l l st1 nl1"
        using copy_run [OF lay lo [unfolded l] ln u [unfolded l] rel, of "e # drop (Suc (length q)) es"] l es by auto
      have qlt: "length q < min 4 (MODULE_IDX_NUM md - length p)" using short es_len by linarith
      have "erased (?I + (length p + length q) * 8) 8 f1"
        using er by (rule erased_mono) (use short l n in auto)
      then have "unat (ix_offset e) = 0xFFFFFFFF"
        using es_nth [OF qlt] by (simp add: e_def idle_entry)
      from copy_stop_idle [OF s1(2) lay lo this] s1 step show ?thesis by auto
    qed
  qed
qed

text \<open>The room a write of item \<open>k\<close> finds in a fresh sector, beside the items that are copied.\<close>

definition log_room :: "nat \<Rightarrow> u8 \<Rightarrow> u16 \<Rightarrow> nv_log \<Rightarrow> bool" where
  "log_room md k len l \<longleftrightarrow> MODULE_INFO_SIZE md + live_sz k l + (8 + unat len) \<le> NV_SECTOR_SIZE md \<and>
     live_cnt k l < MODULE_IDX_NUM md"

lemma change_sector_ok:
  assumes rep: "nv_rep md sec f l"
  shows "\<exists>f3 pool' nl. change_sector True md k len sec (other_sect sec) f pool =
      (if log_room md k len l then Inr (length nl) else Inl NV_NOT_ENOUGH_SAPCE, f3, pool') \<and>
    log_rep md (other_sect sec) f3 nl \<and> uniq nl \<and> nv_get nl = (nv_get l)(k := None) \<and>
    length nl = live_cnt k l \<and>
    next_off md (other_sect sec) nl = MODULE_CONTEXT_START md (other_sect sec) + live_sz k l \<and>
    erased (MODULE_SECT_START md (other_sect sec)) 4 f3 \<and>
    (\<forall>i. i < MODULE_SECT_START md (other_sect sec) \<or> MODULE_SECT_END md (other_sect sec) \<le> i \<longrightarrow> f3 i = f i)"
proof -
  let ?new = "other_sect sec"
  have lr: "log_rep md sec f l" and h: "hdr_ok md sec f" and u: "uniq l" and ne: "l \<noteq> []"
    using rep by (auto simp: nv_rep_def)
  then have lay: "lay_ok md sec" and lo: "log_ok md sec f l" by (auto simp: log_rep_def)
  note ly = layout [OF lay] and dis = sect_disjoint [OF lay]
  note ln = layout [OF dis(1)]
  define f1 where "f1 = erase_sectors (NV_SECTOR_SIZE md div FLASH_SECTOR_SIZE)
      (MODULES_START_ADDR md + ?new * NV_SECTOR_SIZE md) f"
  note er = erase_new [OF dis(1), where f = f, folded f1_def]
  have keep: "f1 i = f i" if "MODULE_SECT_START md sec \<le> i" "i < MODULE_SECT_END md sec" for i
    using er(2) [of i] dis(3) that by linarith
  have lr1: "log_rep md sec f1 l"
    by (rule log_rep_cong [OF lr]) (use keep ly in auto)
  have hs: "sect_at (MODULE_SECT_START md sec) f1 = sect_info_for md sec NV_SECTOR_VALID_CHECKCRC"
  proof -
    have "flash_read (MODULE_SECT_START md sec) 4 f1 = flash_read (MODULE_SECT_START md sec) 4 f"
      by (rule flash_read_cong) (use keep ly in auto)
    with h show ?thesis by (simp add: hdr_ok_def sect_at_def SECT_INFO_SIZE_def)
  qed
  then have chk: "nv_sect_info_check sec md f1 = NV_SUCC"
    by (simp add: nv_sect_info_check_def SECT_VALID_CHECK_def sect_info_for_def Let_def)
  obtain f2 pool1 where ex: "nv_exceptionDataHandler True sec md f1 pool = (f2, pool1)"
    by (cases "nv_exceptionDataHandler True sec md f1 pool")
  then have f2: "f2 = f1"
    by (auto simp: nv_exceptionDataHandler_def exception_loop_idle [OF lr1 u] Let_def split: prod.splits option.splits)
  define st where "st = \<lparr>cs_startChk = True, cs_offsetPrev = 0, cs_sizePrev = 0, cs_wItemIdx = 0,
                cs_sizeusedAddr = MODULE_CONTEXT_START md ?new, cs_flash = f1\<rparr>"
  have rel0: "copy_rel md sec k f1 l [] st []"
    using log_rep_empty [OF dis(1) er(1)] by (simp add: copy_rel_def st_def fun_eq_iff)
  obtain st' nl where c: "copy_index True md k sec ?new (MODULE_IDX_START md sec) (MODULE_IDX_NUM md) st \<in> {Go_on st', Stop st'}"
    and rel: "copy_rel md sec k f1 l l st' nl"
    using copy_index_ok [OF lr1 u rel0, of "rev l"] by auto
  have r: "log_rep md ?new (cs_flash st') nl" "uniq nl" "nv_get nl = (nv_get l)(k := None)"
    "next_off md ?new nl = MODULE_CONTEXT_START md ?new + live_sz k l" "length nl = live_cnt k l"
    "cs_wItemIdx st' = length nl" "cs_sizeusedAddr st' = next_off md ?new nl"
    and fr: "\<And>i. i < MODULE_IDX_START md ?new \<or> MODULE_SECT_END md ?new \<le> i \<Longrightarrow> cs_flash st' i = f1 i"
    using rel by (auto simp: copy_rel_def Let_def)
  have fit: "log_room md k len l \<longleftrightarrow>
      \<not> (length nl = MODULE_IDX_NUM md \<or> next_off md ?new nl + (8 + unat len) > MODULE_SECT_END md ?new)"
    using r(1,4,5) by (auto simp: log_room_def MODULE_CONTEXT_START_def sect_start_next log_rep_def)
  have ch: "change_sector True md k len sec ?new f pool =
      (if log_room md k len l then Inr (length nl) else Inl NV_NOT_ENOUGH_SAPCE, cs_flash st', pool1)"
    using c r(6,7) ex chk unfolding f2 fit
    by (auto simp: change_sector_def f1_def [symmetric] Let_def st_def [symmetric] ITEM_TOTAL_LEN_def HDR_SIZE_def)
  have "erased (MODULE_SECT_START md ?new) 4 (cs_flash st')"
    using er(1) fr ln by (auto simp: erased_def sect_start_next)
  moreover have "cs_flash st' i = f i" if "i < MODULE_SECT_START md ?new \<or> MODULE_SECT_END md ?new \<le> i" for i
    using fr [of i] er(2) [of i] that ln by auto
  ultimately show ?thesis using ch r(1-5) by blast
qed

subsection \<open>The headers at a change of sector\<close>

lemma flag_bits:
  "map2 (AND) (u16_bytes NV_SECTOR_VALID_READY_CHECKCRC) (u16_bytes NV_SECTOR_VALID_CHECKCRC) = u16_bytes NV_SECTOR_VALID_CHECKCRC"
  "map2 (AND) (u16_bytes NV_SECTOR_VALID_CHECKCRC) (u16_bytes NV_SECTOR_INVALID) = u16_bytes NV_SECTOR_INVALID"
  by code_simp+

lemma flash_write_flag:
  assumes "flash_read a 2 f = xs" "length xs = 2" "length ys = 2" "map2 (AND) xs ys = ys"
  shows "flash_writeWithCheck a ys f = (True, flash_write_page a ys f)" "flash_read a 2 (flash_write_page a ys f) = ys"
proof -
  have "flash_read a 2 (flash_write_page a ys f) = map2 (AND) (flash_read a 2 f) ys"
    using assms(3) by (intro nth_equalityI) (auto simp: flash_write_page_def)
  then show r: "flash_read a 2 (flash_write_page a ys f) = ys" using assms by simp
  then show "flash_writeWithCheck a ys f = (True, flash_write_page a ys f)"
    using assms(3) by (simp add: writeWithCheck_iff)
qed

lemma sect_read_split: "flash_read a 4 f = flash_read a 2 f @ flash_read (a + 2) 2 f"
  using flash_read_append [of a 2 2 f] by simp

lemma sect_bytes_split: "sect_bytes (sect_info_for md sec flag) =
  u16_bytes flag @ [of_nat md, si_opSect (sect_info_for md sec 0)]"
  by (simp add: sect_bytes_def sect_info_for_def Let_def)

lemma sect_at_iff: "sect_at a f = s \<longleftrightarrow> flash_read a 4 f = sect_bytes s"
proof
  assume "sect_at a f = s"
  then have "sect_bytes (sect_of (flash_read a 4 f)) = sect_bytes s" by (simp add: sect_at_def SECT_INFO_SIZE_def)
  moreover have "sect_bytes (sect_of xs) = xs" if l: "length xs = 4" for xs
  proof -
    from l obtain b c d e where "xs = [b, c, d, e]" by (auto simp: length_Suc_conv eval_nat_numeral)
    then show ?thesis by (simp add: sect_of_def sect_bytes_def u16_of_def u16_bytes_def)
  qed
  ultimately show "flash_read a 4 f = sect_bytes s" by simp
qed (simp add: sect_at_def SECT_INFO_SIZE_def)

lemma used_flag_at: "si_usedFlag (sect_at a f) = v \<longleftrightarrow> flash_read a 2 f = u16_bytes v"
proof -
  have "si_usedFlag (sect_at a f) = u16_of (flash_read a 2 f)"
    by (simp add: sect_at_def sect_of_def u16_of_def SECT_INFO_SIZE_def)
  moreover have "u16_bytes (u16_of (flash_read a 2 f)) = flash_read a 2 f"
    by (rule nth_equalityI) (auto simp: u16_of_def u16_bytes_def less_Suc_eq numeral_2_eq_2)
  moreover have "u16_of (u16_bytes v) = v" by (simp add: u16_of_def u16_bytes_def)
  ultimately show ?thesis by metis
qed

lemma headers_ok:
  assumes lay: "lay_ok md sec" and er: "erased (MODULE_SECT_START md (other_sect sec)) 4 f4"
    and old: "sect_at (MODULE_SECT_START md sec) f4 = sect_info_for md sec NV_SECTOR_VALID_CHECKCRC"
  defines "new \<equiv> other_sect sec"
  shows "\<exists>f5 f6 f7. flash_writeWithCheck (MODULE_SECT_START md new) (sect_bytes (sect_info_for md new NV_SECTOR_VALID_READY_CHECKCRC)) f4 = (True, f5) \<and>
    flash_writeWithCheck (MODULE_SECT_START md sec) (u16_bytes NV_SECTOR_INVALID) f5 = (True, f6) \<and>
    flash_writeWithCheck (MODULE_SECT_START md new) (u16_bytes NV_SECTOR_VALID_CHECKCRC) f6 = (True, f7) \<and>
    hdr_ok md new f7 \<and>
    (\<forall>i. (i < MODULE_SECT_START md new \<or> MODULE_SECT_START md new + 4 \<le> i) \<and>
         (i < MODULE_SECT_START md sec \<or> MODULE_SECT_START md sec + 2 \<le> i) \<longrightarrow> f7 i = f4 i)"
proof -
  let ?n = "MODULE_SECT_START md new" and ?o = "MODULE_SECT_START md sec"
  note dis = sect_disjoint [OF lay, folded new_def]
  note ly = layout [OF lay] and ln = layout [OF dis(1)]
  have apart: "?o + 4 \<le> ?n \<or> ?n + 4 \<le> ?o" using dis(3) ly ln by linarith
  let ?b5 = "sect_bytes (sect_info_for md new NV_SECTOR_VALID_READY_CHECKCRC)"
  define f5 where "f5 = flash_write_page ?n ?b5 f4"
  have w5: "flash_writeWithCheck ?n ?b5 f4 = (True, f5)"
    unfolding f5_def using er [folded new_def] by (intro writeWithCheck_erased) simp
  have r5: "flash_read ?n 4 f5 = ?b5"
    unfolding f5_def using flash_read_write_erased [of ?n ?b5 f4] er [folded new_def] by simp
  have o5: "flash_read ?o 2 f5 = u16_bytes NV_SECTOR_VALID_CHECKCRC"
  proof -
    have "flash_read ?o 4 f4 = sect_bytes (sect_info_for md sec NV_SECTOR_VALID_CHECKCRC)"
      using old by (simp add: sect_at_iff)
    then have "flash_read ?o 2 f4 = u16_bytes NV_SECTOR_VALID_CHECKCRC"
      unfolding sect_read_split sect_bytes_split by (simp add: append_eq_append_conv)
    moreover have "flash_read ?o 2 f5 = flash_read ?o 2 f4"
      unfolding f5_def using apart by (intro flash_read_write_other) auto
    ultimately show ?thesis by simp
  qed
  define f6 where "f6 = flash_write_page ?o (u16_bytes NV_SECTOR_INVALID) f5"
  note w6 = flash_write_flag [OF o5 _ _ flag_bits(2), simplified, folded f6_def]
  have r6: "flash_read ?n 4 f6 = ?b5"
    unfolding f6_def using apart r5 by (subst flash_read_write_other) auto
  then have n6: "flash_read ?n 2 f6 = u16_bytes NV_SECTOR_VALID_READY_CHECKCRC"
    "flash_read (?n + 2) 2 f6 = [of_nat md, si_opSect (sect_info_for md new 0)]"
    unfolding sect_read_split sect_bytes_split by (simp_all add: append_eq_append_conv)
  define f7 where "f7 = flash_write_page ?n (u16_bytes NV_SECTOR_VALID_CHECKCRC) f6"
  note w7 = flash_write_flag [OF n6(1) _ _ flag_bits(1), simplified, folded f7_def]
  have "flash_read (?n + 2) 2 f7 = [of_nat md, si_opSect (sect_info_for md new 0)]"
    unfolding f7_def by (subst flash_read_write_other) (simp, rule n6(2))
  then have "flash_read ?n 4 f7 = sect_bytes (sect_info_for md new NV_SECTOR_VALID_CHECKCRC)"
    unfolding sect_read_split [of ?n] sect_bytes_split using w7(2) by simp
  moreover have "flash_read ?o 2 f7 = u16_bytes NV_SECTOR_INVALID"
    unfolding f7_def using apart w6(2) by (subst flash_read_write_other) auto
  moreover have "new \<noteq> 0 \<Longrightarrow> sec = 0"
    using lay by (auto simp: lay_ok_def new_def other_sect_def MODULE_SECTOR_NUM_def less_Suc_eq numeral_2_eq_2)
  ultimately have "hdr_ok md new f7" by (auto simp: hdr_ok_def sect_at_iff used_flag_at)
  moreover have "f7 i = f4 i" if "i < ?n \<or> ?n + 4 \<le> i" "i < ?o \<or> ?o + 2 \<le> i" for i
    using that by (simp add: f7_def f6_def f5_def flash_write_page_def) linarith
  ultimately show ?thesis using w5 w6(1) w7(1) by blast
qed

lemma handler_change:
  assumes rep: "nv_rep md sec f l" and force: "force \<or> find_slot md sec len f = None"
    and g: "getter_ok l k len" and buf: "length buf = unat len"
    and room: "log_room md k len l"
  shows "\<exists>f' l' pool'. nv_flashWriteNewHandler force True md k len buf f pool = (NV_SUCC, f', pool') \<and>
    nv_rep md (other_sect sec) f' l' \<and> nv_get l' = (nv_get l)(k \<mapsto> buf) \<and>
    (\<forall>i. i < MODULE_SECT_START md 0 \<or> MODULE_SECT_END md 1 \<le> i \<longrightarrow> f' i = f i)"
proof -
  let ?new = "other_sect sec"
  have lr: "log_rep md sec f l" and h: "hdr_ok md sec f" and u: "uniq l" and ne: "l \<noteq> []"
    using rep by (auto simp: nv_rep_def)
  then have lay: "lay_ok md sec" and lo: "log_ok md sec f l" by (auto simp: log_rep_def)
  note dis = sect_disjoint [OF lay]
  note ly = layout [OF lay] and ln = layout [OF dis(1)]
  obtain s where s: "nv_sector_read md MODULE_SECTOR_NUM f = (NV_SUCC, Some s, f)" "unat (si_opSect s) = sec"
    using sector_read_ok [OF lay h] by blast
  obtain f3 pool1 nl where c0: "change_sector True md k len sec ?new f pool =
      (if log_room md k len l then Inr (length nl) else Inl NV_NOT_ENOUGH_SAPCE, f3, pool1)"
    "log_rep md ?new f3 nl" "uniq nl" "nv_get nl = (nv_get l)(k := None)" "length nl = live_cnt k l"
    "next_off md ?new nl = MODULE_CONTEXT_START md ?new + live_sz k l" "erased (MODULE_SECT_START md ?new) 4 f3"
    and fr3: "\<And>i. i < MODULE_SECT_START md ?new \<or> MODULE_SECT_END md ?new \<le> i \<Longrightarrow> f3 i = f i"
    using change_sector_ok [OF rep] by blast
  have c: "change_sector True md k len sec ?new f pool = (Inr (length nl), f3, pool1)"
    "log_rep md ?new f3 nl" "uniq nl" "nv_get nl = (nv_get l)(k := None)" "length nl < MODULE_IDX_NUM md"
    "next_off md ?new nl + (8 + unat len) \<le> MODULE_SECT_END md ?new" "erased (MODULE_SECT_START md ?new) 4 f3"
    using c0 room by (simp_all add: log_room_def MODULE_CONTEXT_START_def sect_start_next)
  have gn: "getter_ok nl k len" using g c(4) by (simp add: getter_ok_def)
  obtain f4 l' where w: "write_phase md k len buf ?new (length nl) f3 f4" "log_rep md ?new f4 l'" "uniq l'" "l' \<noteq> []"
    "nv_get l' = (nv_get nl)(k \<mapsto> buf)"
    and fr4: "\<And>i. i < MODULE_IDX_START md ?new \<or> MODULE_SECT_END md ?new \<le> i \<Longrightarrow> f4 i = f3 i"
    using write_phase_ok [OF c(2,3,5) gn buf c(6)] by blast
  have er4: "erased (MODULE_SECT_START md ?new) 4 f4"
    using c(7) fr4 ln by (auto simp: erased_def)
  have old4: "sect_at (MODULE_SECT_START md sec) f4 = sect_info_for md sec NV_SECTOR_VALID_CHECKCRC"
  proof -
    have "flash_read (MODULE_SECT_START md sec) 4 f4 = flash_read (MODULE_SECT_START md sec) 4 f"
    proof (rule flash_read_cong)
      fix i assume "MODULE_SECT_START md sec \<le> i" "i < MODULE_SECT_START md sec + 4"
      then have "i < MODULE_SECT_START md ?new \<or> MODULE_SECT_END md ?new \<le> i" using dis(3) ly by linarith
      then show "f4 i = f i" using fr4 [of i] fr3 [of i] ln by auto
    qed
    with h show ?thesis by (simp add: hdr_ok_def sect_at_def SECT_INFO_SIZE_def)
  qed
  obtain f5 f6 f7 where hd: "flash_writeWithCheck (MODULE_SECT_START md ?new) (sect_bytes (sect_info_for md ?new NV_SECTOR_VALID_READY_CHECKCRC)) f4 = (True, f5)"
    "flash_writeWithCheck (MODULE_SECT_START md sec) (u16_bytes NV_SECTOR_INVALID) f5 = (True, f6)"
    "flash_writeWithCheck (MODULE_SECT_START md ?new) (u16_bytes NV_SECTOR_VALID_CHECKCRC) f6 = (True, f7)"
    "hdr_ok md ?new f7"
    and fr7: "\<And>i. (i < MODULE_SECT_START md ?new \<or> MODULE_SECT_START md ?new + 4 \<le> i) \<Longrightarrow>
         (i < MODULE_SECT_START md sec \<or> MODULE_SECT_START md sec + 2 \<le> i) \<Longrightarrow> f7 i = f4 i"
    using headers_ok [OF lay er4 old4] by blast
  have "log_rep md ?new f7 l'"
    by (rule log_rep_cong [OF w(2)], rule fr7) (use dis(3) ly ln in linarith)+
  then have "nv_rep md ?new f7 l'" using hd(4) w by (simp add: nv_rep_def)
  moreover have slot: "(if force then None else find_slot md sec len f) = None" using force by auto
  have "nv_flashWriteNewHandler force True md k len buf f pool = (NV_SUCC, f7, pool1)"
  proof -
    have sz: "\<not> NV_SECTOR_SIZE md < ITEM_TOTAL_LEN len + MODULE_INFO_SIZE md"
      using room by (simp add: log_room_def ITEM_TOTAL_LEN_def HDR_SIZE_def)
    obtain f3' where f3': "nv_write_item True md k ?new (length nl) len (Ram buf) f3 = (NV_SUCC, f3')"
      "(case (case nv_index_read md k len ?new (MODULE_IDX_NUM md) f3 of (NV_SUCC, Some i) \<Rightarrow> Some i | _ \<Rightarrow> None) of
          None \<Rightarrow> (True, f3')
        | Some i \<Rightarrow> flash_writeWithCheck (MODULE_IDX_START md ?new + i * IDX_SIZE + 7) [ITEM_FIELD_INVALID] f3') = (True, f4)"
      using w(1) by (auto simp: write_phase_def Let_def)
    show ?thesis
      using sz f3' hd unfolding nv_flashWriteNewHandler_def s(1) prod.case nv_sts_t.case option.case Let_def slot s(2)
        other_sect_def [symmetric]
      by (simp add: c(1))
  qed
  moreover have "nv_get l' = (nv_get l)(k \<mapsto> buf)" using w(5) c(4) by simp
  moreover have "f7 i = f i" if "i < MODULE_SECT_START md 0 \<or> MODULE_SECT_END md 1 \<le> i" for i
  proof -
    have b: "MODULE_SECT_START md 0 \<le> MODULE_SECT_START md q \<and> MODULE_SECT_END md q \<le> MODULE_SECT_END md 1"
      if "lay_ok md q" for q
      using that by (auto simp: lay_ok_def MODULE_SECTOR_NUM_def MODULE_SECT_START_def MODULE_SECT_END_def
          less_Suc_eq numeral_2_eq_2)
    have "f7 i = f4 i" using that b [OF lay] b [OF dis(1)] ly ln by (intro fr7) linarith+
    also have "\<dots> = f3 i" using that b [OF dis(1)] ln by (intro fr4) linarith
    also have "\<dots> = f i" using that b [OF dis(1)] ln by (intro fr3) linarith
    finally show ?thesis .
  qed
  ultimately show ?thesis by blast
qed

text \<open>Without room the handler gives up after the copy. The old sector is still the one in use.\<close>

lemma handler_no_room:
  assumes rep: "nv_rep md sec f l" and force: "force \<or> find_slot md sec len f = None"
    and room: "\<not> log_room md k len l"
  shows "\<exists>f' pool'. nv_flashWriteNewHandler force True md k len buf f pool = (NV_NOT_ENOUGH_SAPCE, f', pool') \<and>
    nv_rep md sec f' l \<and> (\<forall>i. i < MODULE_SECT_START md 0 \<or> MODULE_SECT_END md 1 \<le> i \<longrightarrow> f' i = f i)"
proof (cases "NV_SECTOR_SIZE md < ITEM_TOTAL_LEN len + MODULE_INFO_SIZE md")
  case True
  with rep show ?thesis by (simp add: nv_flashWriteNewHandler_def)
next
  case False
  let ?new = "other_sect sec"
  have lr: "log_rep md sec f l" and h: "hdr_ok md sec f"
    using rep by (auto simp: nv_rep_def)
  then have lay: "lay_ok md sec" by (auto simp: log_rep_def)
  note dis = sect_disjoint [OF lay]
  note ly = layout [OF lay] and ln = layout [OF dis(1)]
  obtain s where s: "nv_sector_read md MODULE_SECTOR_NUM f = (NV_SUCC, Some s, f)" "unat (si_opSect s) = sec"
    using sector_read_ok [OF lay h] by blast
  obtain f3 pool1 where c: "change_sector True md k len sec ?new f pool = (Inl NV_NOT_ENOUGH_SAPCE, f3, pool1)"
    "erased (MODULE_SECT_START md ?new) 4 f3"
    and fr3: "\<And>i. i < MODULE_SECT_START md ?new \<or> MODULE_SECT_END md ?new \<le> i \<Longrightarrow> f3 i = f i"
    using change_sector_ok [OF rep, of k len pool] room by auto
  have keep: "f3 i = f i" if "MODULE_SECT_START md sec \<le> i" "i < MODULE_SECT_END md sec" for i
    using fr3 [of i] dis(3) that by linarith
  have "flash_read (MODULE_SECT_START md sec) 4 f3 = flash_read (MODULE_SECT_START md sec) 4 f"
    by (rule flash_read_cong) (use keep ly in auto)
  then have h3: "sect_at (MODULE_SECT_START md sec) f3 = sect_info_for md sec NV_SECTOR_VALID_CHECKCRC"
    using h by (simp add: hdr_ok_def sect_at_def SECT_INFO_SIZE_def)
  have idle: "si_usedFlag (sect_at (MODULE_SECT_START md 0) f3) = NV_SECTOR_IDLE" if "sec \<noteq> 0"
  proof -
    have "?new = 0" using lay that by (auto simp: lay_ok_def other_sect_def MODULE_SECTOR_NUM_def less_Suc_eq numeral_2_eq_2)
    then have "flash_read (MODULE_SECT_START md 0) 2 f3 = replicate 2 0xFF"
      using c(2) by (intro nth_equalityI) (auto simp: erased_def)
    moreover have "replicate 2 0xFF = u16_bytes NV_SECTOR_IDLE" by code_simp
    ultimately show ?thesis by (simp add: used_flag_at)
  qed
  have "nv_rep md sec f3 l"
    using rep log_rep_cong [OF lr, of f3] keep ly h3 idle by (simp add: nv_rep_def hdr_ok_def)
  moreover have slot: "(if force then None else find_slot md sec len f) = None" using force by auto
  have "nv_flashWriteNewHandler force True md k len buf f pool = (NV_NOT_ENOUGH_SAPCE, f3, pool1)"
    using False unfolding nv_flashWriteNewHandler_def s(1) prod.case nv_sts_t.case option.case Let_def slot s(2)
      other_sect_def [symmetric]
    by (simp add: c(1))
  moreover have "f3 i = f i" if "i < MODULE_SECT_START md 0 \<or> MODULE_SECT_END md 1 \<le> i" for i
  proof (rule fr3)
    have "MODULE_SECT_START md 0 \<le> MODULE_SECT_START md ?new \<and> MODULE_SECT_END md ?new \<le> MODULE_SECT_END md 1"
      using dis(1) by (auto simp: lay_ok_def MODULE_SECTOR_NUM_def MODULE_SECT_START_def MODULE_SECT_END_def
          less_Suc_eq numeral_2_eq_2)
    with that show "i < MODULE_SECT_START md ?new \<or> MODULE_SECT_END md ?new \<le> i" by linarith
  qed
  ultimately show ?thesis by blast
qed

end
