(* ===== verification/Nv_Store.thy ===== *)
theory Nv_Store
  imports Nv_Change Zb_Refine
begin

text \<open>
  The item store as its users see it: \<^verbatim>\<open>nv_flashWriteNew\<close>, \<^verbatim>\<open>nv_flashReadNew\<close>,
  \<^verbatim>\<open>nv_flashSingleItemRemove\<close> and \<^verbatim>\<open>nv_resetModule\<close> for single items implement a map from item
  numbers to byte strings. The relation says that the module is erased and the map is empty, or
  that one of its sectors holds a log whose valid items are the map; the locale of
  \<^verbatim>\<open>Zb_Refine\<close> lifts the simulation to sessions.
\<close>

subsection \<open>A write\<close>

text \<open>The room test of the code looks at the end of the newest item, not at the aligned offset
  where the next one would start. When only the alignment does not fit, the item check refuses
  before anything is written, and the second call of the handler changes the sector.\<close>

lemma handler_misfit:
  assumes rep: "nv_rep md sec f l" and slot: "find_slot md sec len f = Some (length l)"
    and fit: "\<not> next_off md sec l + (8 + unat len) \<le> MODULE_SECT_END md sec"
    and room: "MODULE_INFO_SIZE md + (8 + unat len) \<le> NV_SECTOR_SIZE md"
  shows "nv_flashWriteNewHandler False True md k len buf f pool = (NV_ITEM_CHECK_ERROR, f, pool)"
proof -
  have lr: "log_rep md sec f l" and h: "hdr_ok md sec f" using rep by (auto simp: nv_rep_def)
  then have lay: "lay_ok md sec" and lo: "log_ok md sec f l" by (auto simp: log_rep_def)
  obtain s where s: "nv_sector_read md MODULE_SECTOR_NUM f = (NV_SUCC, Some s, f)" "unat (si_opSect s) = sec"
    using sector_read_ok [OF lay h] by blast
  have "NV_SECTOR_SIZE md \<le> 16384" by (simp add: NV_SECTOR_SIZE_def FLASH_SECTOR_SIZE_def)
  then have sz: "unat (of_nat (unat len + HDR_SIZE) :: u16) = unat len + 8"
    using room unat_of_nat_u16 [of "unat len + 8"] by (simp add: HDR_SIZE_def)
  have "nv_write_item True md k sec (length l) len (Ram buf) f = (NV_ITEM_CHECK_ERROR, f)"
    using log_item_offset [OF lay lo] fit sz
    by (auto simp: nv_write_item_def Let_def ITEM_OFT_CHECK_def HDR_SIZE_def)
  then show ?thesis
    using slot room
    by (auto simp: nv_flashWriteNewHandler_def s Let_def ITEM_TOTAL_LEN_def HDR_SIZE_def split: prod.splits)
qed

lemma sect_span: "lay_ok md sec \<Longrightarrow>
  MODULE_SECT_START md 0 \<le> MODULE_SECT_START md sec \<and> MODULE_SECT_END md sec \<le> MODULE_SECT_END md 1"
  by (auto simp: lay_ok_def MODULE_SECTOR_NUM_def MODULE_SECT_START_def MODULE_SECT_END_def
      less_Suc_eq numeral_2_eq_2)

text \<open>The bytes outside the two sectors of a module.\<close>

definition nv_same_outside :: "nat \<Rightarrow> flash \<Rightarrow> flash \<Rightarrow> bool" where
  "nv_same_outside md f f' \<longleftrightarrow>
     (\<forall>i. i < MODULE_SECT_START md 0 \<or> MODULE_SECT_END md 1 \<le> i \<longrightarrow> f' i = f i)"

lemma write_new_ok:
  assumes rep: "nv_rep md sec f l" and md: "md \<noteq> NV_MODULE_NWK_FRAME_COUNT"
    and g: "getter_ok l k len" and buf: "length buf = unat len"
  shows "\<exists>f' sec' l' pool'. nv_flashWriteNew True md k len buf f pool =
      (if log_room md k len l then NV_SUCC else NV_NOT_ENOUGH_SAPCE, f', pool') \<and>
    nv_rep md sec' f' l' \<and> nv_get l' = (if log_room md k len l then (nv_get l)(k \<mapsto> buf) else nv_get l) \<and>
    nv_same_outside md f f'"
proof -
  have lr: "log_rep md sec f l" and ne: "l \<noteq> []" using rep by (auto simp: nv_rep_def)
  then have lay: "lay_ok md sec" and lo: "log_ok md sec f l" and n: "length l \<le> MODULE_IDX_NUM md"
    by (auto simp: log_rep_def)
  have by_handler: ?thesis
    if A: "\<exists>f' sec' l' pool'. nv_flashWriteNewHandler force True md k len buf f pool =
        (if log_room md k len l then NV_SUCC else NV_NOT_ENOUGH_SAPCE, f', pool') \<and>
      nv_rep md sec' f' l' \<and> nv_get l' = (if log_room md k len l then (nv_get l)(k \<mapsto> buf) else nv_get l) \<and>
      nv_same_outside md f f'"
      and B: "force \<longrightarrow> nv_flashWriteNewHandler False True md k len buf f pool = (NV_ITEM_CHECK_ERROR, f, pool)" for force
  proof -
    obtain f' sec' l' pool' where w: "nv_flashWriteNewHandler force True md k len buf f pool =
        (if log_room md k len l then NV_SUCC else NV_NOT_ENOUGH_SAPCE, f', pool')"
      "nv_rep md sec' f' l'" "nv_get l' = (if log_room md k len l then (nv_get l)(k \<mapsto> buf) else nv_get l)"
      "nv_same_outside md f f'" using A by blast
    have "nv_flashWriteNew True md k len buf f pool =
        (if log_room md k len l then NV_SUCC else NV_NOT_ENOUGH_SAPCE, f', pool')"
      using B w(1) md by (cases force) (auto simp: nv_flashWriteNew_def)
    with w show ?thesis by blast
  qed
  have change: "\<exists>f' sec' l' pool'. nv_flashWriteNewHandler force True md k len buf f pool =
        (if log_room md k len l then NV_SUCC else NV_NOT_ENOUGH_SAPCE, f', pool') \<and>
      nv_rep md sec' f' l' \<and> nv_get l' = (if log_room md k len l then (nv_get l)(k \<mapsto> buf) else nv_get l) \<and>
      nv_same_outside md f f'"
    if "force \<or> find_slot md sec len f = None" for force
    using handler_change [OF rep that g buf, of pool] handler_no_room [OF rep that, of k buf pool]
    unfolding nv_same_outside_def by (cases "log_room md k len l") (simp only: if_True if_False, blast)+
  show ?thesis
  proof (cases "find_slot md sec len f")
    case None
    then show ?thesis using change [of False] by (intro by_handler [of False]) auto
  next
    case (Some i)
    with find_slot_log [OF lr ne, of len] n have i: "i = length l" "length l < MODULE_IDX_NUM md"
      and pe: "plain_end md sec l + (8 + unat len) \<le> MODULE_SECT_END md sec"
      by (auto split: if_splits)
    show ?thesis
    proof (cases "next_off md sec l + (8 + unat len) \<le> MODULE_SECT_END md sec")
      case True
      obtain f' l' where w: "nv_flashWriteNewHandler False True md k len buf f pool = (NV_SUCC, f', pool)"
        "nv_rep md sec f' l'" "nv_get l' = (nv_get l)(k \<mapsto> buf)"
        and fr: "\<And>i. i < MODULE_IDX_START md sec \<or> MODULE_SECT_END md sec \<le> i \<Longrightarrow> f' i = f i"
        using handler_in_place [OF rep i(2) g buf True, of pool] by blast
      have "nv_same_outside md f f'"
        using sect_span [OF lay] layout(1) [OF lay] fr by (auto simp: nv_same_outside_def)
      moreover have "log_room md k len l"
        using live_le_total [OF lay lo, of k] i(2) True
        by (simp add: log_room_def MODULE_CONTEXT_START_def sect_start_next)
      ultimately show ?thesis using w by (intro by_handler [of False]) auto
    next
      case False
      obtain x l' where l: "l = x # l'" using ne by (cases l) auto
      have "MODULE_CONTEXT_START md sec \<le> plain_end md sec l"
        using next_off_bounds [OF lay, of f l'] lo l by (cases x) auto
      then have "MODULE_INFO_SIZE md + (8 + unat len) \<le> NV_SECTOR_SIZE md"
        using pe by (simp add: MODULE_CONTEXT_START_def sect_start_next)
      from handler_misfit [OF rep _ False this] Some i change [of True] show ?thesis
        by (intro by_handler [of True]) auto
    qed
  qed
qed

subsection \<open>A write to an erased module\<close>

definition nv_blank :: "nat \<Rightarrow> flash \<Rightarrow> bool" where
  "nv_blank md f \<longleftrightarrow> lay_ok md 0 \<and> erased (MODULE_SECT_START md 0) (MODULE_SECTOR_NUM * NV_SECTOR_SIZE md) f"

lemma blank_bytes: "replicate 4 (0xFF :: u8) = sect_bytes \<lparr>si_usedFlag = 0xFFFF, si_idName = 0xFF, si_opSect = 0xFF\<rparr>"
  by code_simp

lemma blank_sect:
  assumes "nv_blank md f" "sec < MODULE_SECTOR_NUM"
  shows "lay_ok md sec" "erased (MODULE_SECT_START md sec) (NV_SECTOR_SIZE md) f"
    "sect_at (MODULE_SECT_START md sec) f = \<lparr>si_usedFlag = 0xFFFF, si_idName = 0xFF, si_opSect = 0xFF\<rparr>"
proof -
  show "lay_ok md sec" using assms by (simp add: nv_blank_def lay_ok_def)
  have "sec = 0 \<or> sec = 1" using assms(2) by (auto simp: MODULE_SECTOR_NUM_def)
  then show er: "erased (MODULE_SECT_START md sec) (NV_SECTOR_SIZE md) f"
    using assms(1) unfolding nv_blank_def
    by (auto elim!: erased_mono simp: MODULE_SECT_START_def MODULE_SECTOR_NUM_def)
  have "4 \<le> NV_SECTOR_SIZE md" by (simp add: NV_SECTOR_SIZE_def FLASH_SECTOR_SIZE_def)
  with er have "flash_read (MODULE_SECT_START md sec) 4 f = replicate 4 0xFF"
    by (intro nth_equalityI) (auto simp: erased_def)
  then have "flash_read (MODULE_SECT_START md sec) 4 f = sect_bytes \<lparr>si_usedFlag = 0xFFFF, si_idName = 0xFF, si_opSect = 0xFF\<rparr>"
    unfolding blank_bytes .
  then show "sect_at (MODULE_SECT_START md sec) f = \<lparr>si_usedFlag = 0xFFFF, si_idName = 0xFF, si_opSect = 0xFF\<rparr>"
    by (simp add: sect_at_def SECT_INFO_SIZE_def)
qed

lemma blank_sector_read: "nv_blank md f \<Longrightarrow> nv_sector_read md MODULE_SECTOR_NUM f = (NV_ITEM_NOT_FOUND, None, f)"
proof -
  assume b: "nv_blank md f"
  have n2: "MODULE_SECTOR_NUM = Suc (Suc 0)" by (simp add: MODULE_SECTOR_NUM_def)
  note s = blank_sect(3) [OF b, of 0] blank_sect(3) [OF b, of 1]
  show ?thesis
    using s by (simp add: nv_sector_read_def n2 sect_start_next Let_def SECT_VALID_CHECK_def
        NV_SECTOR_VALID_def NV_SECTOR_VALID_CHECKCRC_def NV_SECTOR_VALID_READY_CHECKCRC_def)
qed

lemma nv_get_Nil [simp]: "nv_get [] = Map.empty"
  by (simp add: fun_eq_iff)

lemma blank_write_new:
  assumes b: "nv_blank md f" and md: "md \<noteq> NV_MODULE_NWK_FRAME_COUNT"
    and g: "getter_ok [] k len" and buf: "length buf = unat len"
    and room: "MODULE_INFO_SIZE md + (8 + unat len) \<le> NV_SECTOR_SIZE md"
  shows "\<exists>f' sec' l' pool'. nv_flashWriteNew True md k len buf f pool = (NV_SUCC, f', pool') \<and>
    nv_rep md sec' f' l' \<and> nv_get l' = [k \<mapsto> buf] \<and>
    nv_same_outside md f f'"
proof -
  let ?a = "MODULE_SECT_START md 0"
  have s0: "0 < MODULE_SECTOR_NUM" by (simp add: MODULE_SECTOR_NUM_def)
  note bs = blank_sect [OF b s0]
  note ly = layout [OF bs(1)]
  define f1 where "f1 = erase_sectors (NV_SECTOR_SIZE md div FLASH_SECTOR_SIZE) (MODULES_START_ADDR md) f"
  note en = erase_new [OF bs(1), where f = f, simplified, folded f1_def]
  have lr: "log_rep md 0 f1 []" by (rule log_rep_empty [OF bs(1) en(1)])
  have fit: "next_off md 0 [] + (8 + unat len) \<le> MODULE_SECT_END md 0"
    using room by (simp add: MODULE_CONTEXT_START_def sect_start_next)
  obtain f4 l' where w: "write_phase md k len buf 0 0 f1 f4" "log_rep md 0 f4 l'" "uniq l'" "l' \<noteq> []"
    "nv_get l' = [k \<mapsto> buf]"
    and fr4: "\<And>i. i < MODULE_IDX_START md 0 \<or> MODULE_SECT_END md 0 \<le> i \<Longrightarrow> f4 i = f1 i"
    using write_phase_ok [OF lr _ _ g buf fit] ly(7) unfolding nv_get_Nil list.size by fastforce
  let ?h = "sect_bytes (sect_info_for md 0 NV_SECTOR_VALID_CHECKCRC)"
  define f5 where "f5 = flash_write_page ?a ?h f4"
  have er: "erased ?a 4 f4"
    using en(1) fr4 ly by (auto simp: erased_def sect_start_next)
  have w5: "flash_writeWithCheck ?a ?h f4 = (True, f5)"
    unfolding f5_def using er by (intro writeWithCheck_erased) simp
  have "flash_read ?a 4 f5 = ?h" unfolding f5_def using flash_read_write_erased [of ?a ?h f4] er by simp
  then have "hdr_ok md 0 f5" by (simp add: hdr_ok_def sect_at_iff)
  moreover have "log_rep md 0 f5 l'"
    by (rule log_rep_cong [OF w(2)]) (use ly in \<open>simp add: f5_def flash_write_page_def\<close>)
  ultimately have "nv_rep md 0 f5 l'" using w by (simp add: nv_rep_def)
  moreover have "nv_flashWriteNew True md k len buf f pool = (NV_SUCC, f5, pool)"
  proof -
    have "find_slot md 0 len f1 = Some 0" by (simp add: find_slot_def index_read_idle [OF lr])
    then show ?thesis
      using w(1) w5 room md
      by (auto simp: nv_flashWriteNew_def nv_flashWriteNewHandler_def blank_sector_read [OF b] Let_def
          write_phase_def f1_def [symmetric] ITEM_TOTAL_LEN_def HDR_SIZE_def split: prod.splits)
  qed
  moreover have "f5 i = f i" if i: "i < ?a \<or> MODULE_SECT_END md 1 \<le> i" for i
  proof -
    have e: "i < ?a \<or> MODULE_SECT_END md 0 \<le> i" using i sect_span [OF bs(1)] by auto
    then have "f5 i = f4 i" using ly by (auto simp: f5_def flash_write_page_def sect_start_next NV_SECTOR_SIZE_def FLASH_SECTOR_SIZE_def)
    with e fr4 [of i] en(2) [of i] ly show ?thesis by auto
  qed
  ultimately show ?thesis using w(5) unfolding nv_same_outside_def by blast
qed

subsection \<open>Reading and removing\<close>

lemma nv_get_entry:
  assumes "log_ok md sec f l" "log_find (\<lambda>e. ITEM_VALID_FLAG_CHECK (ix_usedState e) \<and> ix_itemId e = k) l = Some i"
  shows "\<exists>e d off. idx_at (MODULE_IDX_START md sec + i * 8) f = e \<and> item_ok f off e d \<and>
    ITEM_VALID_FLAG_CHECK (ix_usedState e) \<and> ix_itemId e = k \<and> nv_get l k = Some d"
  using assms by (induction l) (auto split: if_splits)

definition stored_len :: "nv_len_tbl \<Rightarrow> u8 \<Rightarrow> bytes \<Rightarrow> nat" where
  "stored_len tbl k d = unat (nv_itemLengthValidCheck tbl k (of_nat (length d)))"

lemma stored_len_le: "length d < 2 ^ 16 \<Longrightarrow> stored_len tbl k d \<le> length d"
proof -
  assume "length d < 2 ^ 16"
  then have "unat (of_nat (length d) :: u16) = length d" by (rule unat_of_nat_u16)
  then show ?thesis
    by (auto simp: stored_len_def nv_itemLengthValidCheck_def min_def word_le_nat_alt split: option.splits)
qed

lemma read_new_ok:
  assumes rep: "nv_rep md sec f l" and md: "md \<noteq> NV_MODULE_NWK_FRAME_COUNT" and g: "getter_ok l k len"
  shows "nv_flashReadNew tbl True md k len f =
    (case nv_get l k of Some d \<Rightarrow> (NV_SUCC, Some (Data (take (stored_len tbl k d) d)), f)
     | None \<Rightarrow> (NV_ITEM_NOT_FOUND, None, f))"
proof -
  have lr: "log_rep md sec f l" and h: "hdr_ok md sec f" and u: "uniq l" using rep by (auto simp: nv_rep_def)
  then have lay: "lay_ok md sec" and lo: "log_ok md sec f l" by (auto simp: log_rep_def)
  obtain s where s: "nv_sector_read md MODULE_SECTOR_NUM f = (NV_SUCC, Some s, f)" "unat (si_opSect s) = sec"
    using sector_read_ok [OF lay h] by blast
  let ?F = "log_find (\<lambda>e. ITEM_VALID_FLAG_CHECK (ix_usedState e) \<and> ix_itemId e = k) l"
  note ir = index_read_get [OF lr u g]
  show ?thesis
  proof (cases ?F)
    case None
    then have "nv_get l k = None" by (simp add: log_find_None)
    with None md show ?thesis by (simp add: nv_flashReadNew_def s ir Let_def)
  next
    case (Some i)
    obtain e d off where e: "idx_at (MODULE_IDX_START md sec + i * 8) f = e" "item_ok f off e d"
      "ITEM_VALID_FLAG_CHECK (ix_usedState e)" "ix_itemId e = k" "nv_get l k = Some d"
      using nv_get_entry [OF lo Some] by blast
    have len: "len \<noteq> 0" "length d mod unat len = 0" using g e(5) by (auto simp: getter_ok_def)
    have "length d < 2 ^ 16" using nv_get_size [OF lo e(5)] by simp
    from read_item_ok [OF e(2,1,3,4) len refl stored_len_le [OF this, unfolded stored_len_def]]
    have "nv_flashReadByIndex tbl md k sec i len f = (NV_SUCC, take (stored_len tbl k d) d)"
      by (simp add: stored_len_def)
    with Some md e(5) show ?thesis by (simp add: nv_flashReadNew_def s ir Let_def)
  qed
qed

lemma remove_ok:
  assumes rep: "nv_rep md sec f l" and g: "getter_ok l k len"
  shows "\<exists>f' l'. nv_flashSingleItemRemove md k len f =
      (if nv_get l k = None then NV_ITEM_NOT_FOUND else NV_SUCC, f') \<and>
    nv_rep md sec f' l' \<and> nv_get l' = (nv_get l)(k := None) \<and>
    nv_same_outside md f f'"
proof -
  have lr: "log_rep md sec f l" and h: "hdr_ok md sec f" and u: "uniq l" and ne: "l \<noteq> []"
    using rep by (auto simp: nv_rep_def)
  then have lay: "lay_ok md sec" and lo: "log_ok md sec f l" by (auto simp: log_rep_def)
  obtain s where s: "nv_sector_read md MODULE_SECTOR_NUM f = (NV_SUCC, Some s, f)" "unat (si_opSect s) = sec"
    using sector_read_ok [OF lay h] by blast
  let ?F = "log_find (\<lambda>e. ITEM_VALID_FLAG_CHECK (ix_usedState e) \<and> ix_itemId e = k) l"
  note ir = index_read_get [OF lr u g]
  show ?thesis
  proof (cases ?F)
    case None
    then have n: "nv_get l k = None" by (simp add: log_find_None)
    then have "nv_get l = (nv_get l)(k := None)" by (simp add: fun_eq_iff)
    moreover have "nv_flashSingleItemRemove md k len f = (NV_ITEM_NOT_FOUND, f)"
      using None by (simp add: nv_flashSingleItemRemove_def s ir Let_def)
    moreover have "nv_same_outside md f f" by (simp add: nv_same_outside_def)
    ultimately show ?thesis using n rep by (auto simp del: fun_upd_apply)
  next
    case (Some i)
    then have i: "i < length l" by (rule log_find_bound)
    let ?a = "MODULE_IDX_START md sec + i * 8 + 7"
    note iv = log_inval_rep [OF lr i]
    note ig = inval_get [OF u Some]
    have gone: "\<not> nv_get l k = None" using nv_get_entry [OF lo Some] by auto
    have "flash_write ?a [ITEM_FIELD_INVALID] f = f(?a := ITEM_FIELD_INVALID)"
      using iv(1) by (simp add: flash_writeWithCheck_def flash_write_def Let_def)
    then have "nv_flashSingleItemRemove md k len f = (NV_SUCC, f(?a := ITEM_FIELD_INVALID))"
      using Some by (simp add: nv_flashSingleItemRemove_def nv_itemDeleteByIndex_def IDX_SIZE_def s ir Let_def)
    moreover have "hdr_ok md sec (f(?a := ITEM_FIELD_INVALID))"
      by (rule hdr_ok_cong [OF lay h]) (use iv(3,4) in auto)
    moreover have "log_inval i l \<noteq> []" using length_log_inval [of i l] i by fastforce
    ultimately have "nv_rep md sec (f(?a := ITEM_FIELD_INVALID)) (log_inval i l)"
      "nv_flashSingleItemRemove md k len f = (NV_SUCC, f(?a := ITEM_FIELD_INVALID))"
      using iv(2) ig by (simp_all add: nv_rep_def)
    moreover have "nv_same_outside md f (f(?a := ITEM_FIELD_INVALID))"
      using sect_span [OF lay] layout(1) [OF lay] iv(3,4) by (auto simp: nv_same_outside_def)
    ultimately show ?thesis unfolding if_not_P [OF gone] using ig(1) by (intro exI conjI)
  qed
qed

subsection \<open>What the items cost\<close>

text \<open>The bytes and the index entries that the items other than \<open>k\<close> take in a sector.\<close>

definition nv_bytes :: "u8 \<Rightarrow> (u8 \<rightharpoonup> bytes) \<Rightarrow> nat" where
  "nv_bytes k m = (\<Sum>j \<in> dom m - {k}. al4 (8 + length (the (m j))))"

definition nv_items :: "u8 \<Rightarrow> (u8 \<rightharpoonup> bytes) \<Rightarrow> nat" where
  "nv_items k m = card (dom m - {k})"

lemma live_bytes: "uniq l \<Longrightarrow> live_sz k l = nv_bytes k (nv_get l) \<and> live_cnt k l = nv_items k (nv_get l)"
proof (induction l)
  case Nil
  then show ?case by (simp add: nv_bytes_def nv_items_def)
next
  case (Cons x l)
  obtain e d where x: "x = (e, d)" by (cases x)
  show ?case
  proof (cases "ITEM_VALID_FLAG_CHECK (ix_usedState e)")
    case False
    then have "nv_get (x # l) = nv_get l" using x by (simp add: fun_eq_iff)
    with Cons False x show ?thesis by simp
  next
    case True
    let ?j = "ix_itemId e" and ?m = "nv_get l"
    have n: "?m ?j = None" using Cons.prems True x by simp
    have m: "nv_get (x # l) = ?m(?j \<mapsto> d)" using True x by (auto simp: fun_eq_iff)
    show ?thesis
    proof (cases "?j = k")
      case eq: True
      have "nv_bytes k (?m(?j \<mapsto> d)) = nv_bytes k ?m" "nv_items k (?m(?j \<mapsto> d)) = nv_items k ?m"
        unfolding nv_bytes_def nv_items_def eq by (auto intro!: sum.cong simp: Diff_insert_absorb)
      with Cons eq x show ?thesis unfolding m by (simp del: fun_upd_apply)
    next
      case ne: False
      have D: "dom (?m(?j \<mapsto> d)) - {k} = insert ?j (dom ?m - {k})" "?j \<notin> dom ?m - {k}"
        using ne n by auto
      have "(\<Sum>j \<in> dom ?m - {k}. al4 (8 + length (the ((?m(?j \<mapsto> d)) j)))) = nv_bytes k ?m"
        unfolding nv_bytes_def using n by (intro sum.cong) auto
      then have "nv_bytes k (?m(?j \<mapsto> d)) = al4 (8 + length d) + nv_bytes k ?m"
        unfolding nv_bytes_def [of k "?m(?j \<mapsto> d)"] D(1) using D(2) by (simp add: sum.insert)
      moreover have "nv_items k (?m(?j \<mapsto> d)) = Suc (nv_items k ?m)"
        unfolding nv_items_def D(1) using D(2) by (simp add: card_insert_disjoint)
      ultimately show ?thesis using Cons True ne x unfolding m by (simp del: fun_upd_apply)
    qed
  qed
qed

subsection \<open>The store as a map\<close>

datatype nv_op = Nv_write u8 bytes | Nv_read u8 u16 | Nv_remove u8 u16 | Nv_reset

fun nv_step ::
  "nv_len_tbl \<Rightarrow> nat \<Rightarrow> nv_op \<Rightarrow> flash \<times> ev_buf_vars_t \<Rightarrow> ((bool \<times> bytes) \<times> (flash \<times> ev_buf_vars_t)) option" where
  "nv_step tbl md (Nv_write k buf) (f, pool) =
     (let (ret, f', pool') = nv_flashWriteNew True md k (of_nat (length buf)) buf f pool in
      Some ((ret = NV_SUCC, []), f', pool'))"
| "nv_step tbl md (Nv_read k len) (f, pool) =
     (let (ret, out, f') = nv_flashReadNew tbl True md k len f in
      Some ((case out of Some (Data d) \<Rightarrow> (ret = NV_SUCC, d) | _ \<Rightarrow> (False, [])), f', pool))"
| "nv_step tbl md (Nv_remove k len) (f, pool) =
     (let (ret, f') = nv_flashSingleItemRemove md k len f in Some ((ret = NV_SUCC, []), f', pool))"
| "nv_step tbl md Nv_reset (f, pool) = Some ((True, []), nv_resetModule md f, pool)"

text \<open>What is written fits the sector beside the other items.\<close>

definition nv_room :: "nat \<Rightarrow> (u8 \<rightharpoonup> bytes) \<Rightarrow> u8 \<Rightarrow> nat \<Rightarrow> bool" where
  "nv_room md m k n \<longleftrightarrow> MODULE_INFO_SIZE md + nv_bytes k m + (8 + n) \<le> NV_SECTOR_SIZE md \<and>
     nv_items k m < MODULE_IDX_NUM md"

fun nv_spec :: "nv_len_tbl \<Rightarrow> nat \<Rightarrow> nv_op \<Rightarrow> (u8 \<rightharpoonup> bytes) \<Rightarrow> (bool \<times> bytes) \<times> (u8 \<rightharpoonup> bytes)" where
  "nv_spec tbl md (Nv_write k buf) m =
     (if nv_room md m k (length buf) then ((True, []), m(k \<mapsto> buf)) else ((False, []), m))"
| "nv_spec tbl md (Nv_read k len) m =
     ((case m k of None \<Rightarrow> (False, []) | Some d \<Rightarrow> (True, take (stored_len tbl k d) d)), m)"
| "nv_spec tbl md (Nv_remove k len) m = ((m k \<noteq> None, []), m(k := None))"
| "nv_spec tbl md Nv_reset m = ((True, []), Map.empty)"

text \<open>The users: the item number is not the idle one, a length is a 16-bit number other than 0 and
  divides the length already stored for the item.\<close>

definition len_fits :: "(u8 \<rightharpoonup> bytes) \<Rightarrow> u8 \<Rightarrow> nat \<Rightarrow> bool" where
  "len_fits m k n \<longleftrightarrow> k \<noteq> ITEM_FIELD_IDLE \<and> n \<noteq> 0 \<and> (case m k of None \<Rightarrow> True | Some d \<Rightarrow> length d mod n = 0)"

fun nv_allowed :: "nv_op \<Rightarrow> (u8 \<rightharpoonup> bytes) \<Rightarrow> bool" where
  "nv_allowed (Nv_write k buf) m \<longleftrightarrow> len_fits m k (length buf) \<and> length buf < 2 ^ 16"
| "nv_allowed (Nv_read k len) m \<longleftrightarrow> len_fits m k (unat len)"
| "nv_allowed (Nv_remove k len) m \<longleftrightarrow> len_fits m k (unat len)"
| "nv_allowed Nv_reset m \<longleftrightarrow> True"

text \<open>A flash and the map its module stores; outside the module it is still \<open>f0\<close>.\<close>

definition nv_rel :: "nat \<Rightarrow> flash \<Rightarrow> flash \<times> ev_buf_vars_t \<Rightarrow> (u8 \<rightharpoonup> bytes) \<Rightarrow> bool" where
  "nv_rel md f0 s m \<longleftrightarrow> md \<noteq> NV_MODULE_NWK_FRAME_COUNT \<and> nv_same_outside md f0 (fst s) \<and>
     (nv_blank md (fst s) \<and> m = Map.empty \<or> (\<exists>sec l. nv_rep md sec (fst s) l \<and> nv_get l = m))"

lemma same_outside_trans: "nv_same_outside md f g \<Longrightarrow> nv_same_outside md g h \<Longrightarrow> nv_same_outside md f h"
  by (simp add: nv_same_outside_def)

lemma getter_ok_fits: "getter_ok l k len \<longleftrightarrow> len_fits (nv_get l) k (unat len)"
proof -
  have "len = 0 \<longleftrightarrow> unat len = 0" by (simp add: unat_eq_0)
  then show ?thesis by (auto simp: getter_ok_def len_fits_def split: option.splits)
qed

lemma reset_ok:
  assumes "lay_ok md 0"
  shows "nv_blank md (nv_resetModule md f)" "nv_same_outside md f (nv_resetModule md f)"
proof -
  have n: "NV_SECTOR_SIZE md div FLASH_SECTOR_SIZE * FLASH_SECTOR_SIZE = NV_SECTOR_SIZE md"
    and a: "MODULES_START_ADDR md mod FLASH_SECTOR_SIZE = 0"
    by (simp_all add: NV_SECTOR_SIZE_def FLASH_SECTOR_SIZE_def MODULES_START_ADDR_def NV_BASE_ADDRESS_def mod_eq_0_iff_dvd)
  let ?n = "MODULE_SECTOR_NUM * (NV_SECTOR_SIZE md div FLASH_SECTOR_SIZE)"
  have "?n * FLASH_SECTOR_SIZE = MODULE_SECTOR_NUM * NV_SECTOR_SIZE md" using n by (simp add: mult.assoc)
  with erase_sectors_ok [OF a, of ?n f]
  have e: "nv_resetModule md f i = (if MODULE_SECT_START md 0 \<le> i \<and> i < MODULE_SECT_START md 0 + MODULE_SECTOR_NUM * NV_SECTOR_SIZE md
      then 0xFF else f i)" for i
    by (simp add: nv_resetModule_def sect_start_next)
  show "nv_blank md (nv_resetModule md f)" using assms by (simp add: nv_blank_def erased_def e)
  show "nv_same_outside md f (nv_resetModule md f)"
    by (auto simp: nv_same_outside_def e MODULE_SECT_END_def MODULE_SECT_START_def MODULE_SECTOR_NUM_def)
qed

lemma log_room_iff: "uniq l \<Longrightarrow> log_room md k len l \<longleftrightarrow> nv_room md (nv_get l) k (unat len)"
  using live_bytes [of l k] by (simp add: log_room_def nv_room_def)

lemma sim_write:
  assumes r: "nv_rel md f0 (f, pool) m" and a: "nv_allowed (Nv_write k buf) m"
  defines "ok \<equiv> nv_room md m k (length buf)"
  shows "\<exists>f' pool'. nv_flashWriteNew True md k (of_nat (length buf)) buf f pool =
      (if ok then NV_SUCC else NV_NOT_ENOUGH_SAPCE, f', pool') \<and>
    nv_rel md f0 (f', pool') (if ok then m(k \<mapsto> buf) else m)"
proof (cases "nv_blank md f \<and> m = Map.empty")
  case True
  then have b: "nv_blank md f" and m: "m = Map.empty" by auto
  have md: "md \<noteq> NV_MODULE_NWK_FRAME_COUNT" and out: "nv_same_outside md f0 f" using r by (auto simp: nv_rel_def)
  have len: "unat (of_nat (length buf) :: u16) = length buf" using a by (intro unat_of_nat_u16) simp
  show ?thesis
  proof (cases ok)
    case fits: True
    have g: "getter_ok [] k (of_nat (length buf))" using a m len by (simp add: getter_ok_fits)
    obtain f' sec' l' pool' where w: "nv_flashWriteNew True md k (of_nat (length buf)) buf f pool = (NV_SUCC, f', pool')"
      "nv_rep md sec' f' l'" "nv_get l' = [k \<mapsto> buf]" "nv_same_outside md f f'"
      using blank_write_new [OF b md g, of buf pool] fits len by (auto simp: ok_def nv_room_def)
    then have "nv_rel md f0 (f', pool') (m(k \<mapsto> buf))"
      using md same_outside_trans [OF out w(4)] unfolding nv_rel_def m fst_conv by blast
    with w(1) fits show ?thesis by simp
  next
    case False
    have "0 < MODULE_IDX_NUM md" using b layout(7) [of md 0] by (simp add: nv_blank_def)
    then have "NV_SECTOR_SIZE md < ITEM_TOTAL_LEN (of_nat (length buf)) + MODULE_INFO_SIZE md"
      using False len m by (simp add: ok_def nv_room_def nv_bytes_def nv_items_def ITEM_TOTAL_LEN_def HDR_SIZE_def)
    then show ?thesis
      using False md r by (simp add: nv_flashWriteNew_def nv_flashWriteNewHandler_def)
  qed
next
  case False
  have md: "md \<noteq> NV_MODULE_NWK_FRAME_COUNT" and out: "nv_same_outside md f0 f" using r by (auto simp: nv_rel_def)
  have len: "unat (of_nat (length buf) :: u16) = length buf" using a by (intro unat_of_nat_u16) simp
  obtain sec l where l: "nv_rep md sec f l" "nv_get l = m" using r False by (auto simp: nv_rel_def)
  have u: "uniq l" using l(1) by (simp add: nv_rep_def)
  have rm: "log_room md k (of_nat (length buf)) l \<longleftrightarrow> ok" using l(2) len by (simp add: log_room_iff [OF u] ok_def)
  have "getter_ok l k (of_nat (length buf))" using a l(2) len by (simp add: getter_ok_fits)
  from write_new_ok [OF l(1) md this len [symmetric], of pool]
  obtain f' sec' l' pool' where w: "nv_flashWriteNew True md k (of_nat (length buf)) buf f pool =
      (if ok then NV_SUCC else NV_NOT_ENOUGH_SAPCE, f', pool')"
    "nv_rep md sec' f' l'" "nv_get l' = (if ok then m(k \<mapsto> buf) else m)" "nv_same_outside md f f'"
    unfolding rm l(2) by blast
  have "nv_rel md f0 (f', pool') (if ok then m(k \<mapsto> buf) else m)"
    using md same_outside_trans [OF out w(4)] w(2,3) unfolding nv_rel_def fst_conv by blast
  with w(1) show ?thesis by blast
qed

lemma nv_sim:
  assumes "nv_rel md f0 s m" "nv_allowed x m"
  shows "\<exists>s'. nv_step tbl md x s = Some (fst (nv_spec tbl md x m), s') \<and> nv_rel md f0 s' (snd (nv_spec tbl md x m))"
proof -
  obtain f pool where s: "s = (f, pool)" by (cases s)
  have md: "md \<noteq> NV_MODULE_NWK_FRAME_COUNT" and out: "nv_same_outside md f0 f"
    using assms(1) by (auto simp: nv_rel_def s)
  show ?thesis
  proof (cases x)
    case (Nv_write k buf)
    have a: "nv_allowed (Nv_write k buf) m" using assms(2) Nv_write by simp
    from sim_write [OF assms(1) [unfolded s] a] show ?thesis
      using Nv_write s by (cases "nv_room md m k (length buf)") auto
  next
    case (Nv_read k len)
    show ?thesis
    proof (cases "nv_blank md f \<and> m = Map.empty")
      case True
      then show ?thesis using Nv_read s assms md by (simp add: nv_flashReadNew_def blank_sector_read)
    next
      case False
      then obtain sec l where l: "nv_rep md sec f l" "nv_get l = m" using assms(1) s by (auto simp: nv_rel_def)
      have "getter_ok l k len" using assms(2) Nv_read l(2) by (simp add: getter_ok_fits)
      from read_new_ok [OF l(1) md this, of tbl] show ?thesis
        using Nv_read s assms(1) l(2) by (simp split: option.splits)
    qed
  next
    case (Nv_remove k len)
    show ?thesis
    proof (cases "nv_blank md f \<and> m = Map.empty")
      case True
      then show ?thesis using Nv_remove s assms by (simp add: nv_flashSingleItemRemove_def blank_sector_read fun_upd_def)
    next
      case False
      then obtain sec l where l: "nv_rep md sec f l" "nv_get l = m" using assms(1) s by (auto simp: nv_rel_def)
      have g: "getter_ok l k len" using assms(2) Nv_remove l(2) by (simp add: getter_ok_fits)
      obtain f' l' where w: "nv_flashSingleItemRemove md k len f = (if nv_get l k = None then NV_ITEM_NOT_FOUND else NV_SUCC, f')"
        "nv_rep md sec f' l'" "nv_get l' = (nv_get l)(k := None)" "nv_same_outside md f f'"
        using remove_ok [OF l(1) g] unfolding nv_same_outside_def by blast
      have "nv_rel md f0 (f', pool) (m(k := None))"
        using w md l(2) same_outside_trans [OF out w(4)] unfolding nv_rel_def fst_conv by blast
      with Nv_remove s w(1) l(2) show ?thesis by (simp del: fun_upd_apply)
    qed
  next
    case Nv_reset
    have "lay_ok md 0"
      using assms(1) s by (auto simp: nv_rel_def nv_rep_def log_rep_def nv_blank_def lay_ok_def)
    note ro = reset_ok [OF this, of f]
    with Nv_reset s md same_outside_trans [OF out ro(2)] show ?thesis by (simp add: nv_rel_def)
  qed
qed

interpretation nvs: forward_sim "nv_step tbl md" "nv_spec tbl md" nv_allowed "nv_rel md f0"
  for tbl md f0
  by unfold_locales (rule nv_sim)

subsection \<open>Sessions\<close>

text \<open>C1. The store implements a map from item numbers to byte strings. Any sequence of writes,
  reads, removals and resets answers as the map does and leaves a flash that stores the final
  map: a write succeeds exactly when the item fits a sector beside the other stored items, and a
  write that does not fit keeps them all; a read gives the bytes last written, cut to the length
  the item length table allows. That holds through any number of changes of the sector, and no
  byte outside the module changes. The caller keeps a contract, \<open>nv_allowed\<close>: the item number is not
  \<open>0xFF\<close>, and the length of a read or write is not zero and divides the stored one.\<close>

theorem nv_store_refines:
  assumes "nv_rel md f0 s m" "spec_ok (nv_spec tbl md) nv_allowed ops m"
  shows "\<exists>s'. run_ops (nv_step tbl md) ops s = Some (fst (spec_run (nv_spec tbl md) ops m), s') \<and>
    nv_rel md f0 s' (snd (spec_run (nv_spec tbl md) ops m))"
  using assms by (rule nvs.run_sim)

definition ex_tbl :: nv_len_tbl where
  "ex_tbl = \<lparr>g_nvItemLengthCheckNum = 0, g_nvItemLenCheckTbl = [], T_nvExcept = 0\<rparr>"

definition ex_blank :: "flash \<times> ev_buf_vars_t" where
  "ex_blank = ((\<lambda>_. 0xFF), \<lparr>bufGroups = [], groupIndex = (\<lambda>_. 0), T_evtExcept = []\<rparr>)"

lemma ex_blank_rel: "nv_rel 6 (\<lambda>_. 0xFF) ex_blank Map.empty"
  by (simp add: nv_rel_def nv_blank_def erased_def nv_same_outside_def lay_ok_def NV_MAX_MODULS_def
      MODULE_SECTOR_NUM_def NV_MODULE_NWK_FRAME_COUNT_def ex_blank_def)

lemmas nv_eval = len_fits_def nv_room_def nv_bytes_def nv_items_def ITEM_FIELD_IDLE_def MODULE_INFO_SIZE_def
  NV_SECTOR_SIZE_def FLASH_SECTOR_SIZE_def FLASH_PAGE_SIZE_def MODULE_IDX_NUM_def MODULE_IDX_SIZE_def
  SECT_INFO_SIZE_def IDX_SIZE_def NV_MODULE_OTA_def NV_MODULE_KEYPAIR_def NV_MODULE_ADDRESS_TABLE_def al4_def
  insert_Diff_if stored_len_def nv_itemLengthValidCheck_def ex_tbl_def

lemma nv_store_refines_witness:
  "\<exists>s'. run_ops (nv_step ex_tbl 6)
     [Nv_reset, Nv_write 3 [1, 2], Nv_write 5 [7], Nv_write 3 [9, 8], Nv_write 4 (replicate 5000 0),
      Nv_remove 5 1, Nv_read 3 2, Nv_read 5 1] ex_blank =
   Some ([(True, []), (True, []), (True, []), (True, []), (False, []), (True, []), (True, [9, 8]), (False, [])], s')"
proof -
  let ?ops = "[Nv_reset, Nv_write 3 [1, 2], Nv_write 5 [7], Nv_write 3 [9, 8], Nv_write 4 (replicate 5000 0),
      Nv_remove 5 1, Nv_read 3 2, Nv_read 5 1]"
  have "spec_ok (nv_spec ex_tbl 6) nv_allowed ?ops Map.empty" by (simp add: nv_eval)
  from nv_store_refines [OF ex_blank_rel this] show ?thesis by (auto simp: nv_eval)
qed

fun touches :: "u8 \<Rightarrow> nv_op \<Rightarrow> bool" where
  "touches k (Nv_write j buf) \<longleftrightarrow> j = k"
| "touches k (Nv_read j len) \<longleftrightarrow> False"
| "touches k (Nv_remove j len) \<longleftrightarrow> j = k"
| "touches k Nv_reset \<longleftrightarrow> True"

lemma untouched: "\<forall>x \<in> set ops. \<not> touches k x \<Longrightarrow> snd (spec_run (nv_spec tbl md) ops m) k = m k"
proof (induction ops arbitrary: m)
  case (Cons x ops)
  then have "snd (nv_spec tbl md x m) k = m k" by (cases x) auto
  moreover have "snd (spec_run (nv_spec tbl md) ops (snd (nv_spec tbl md x m))) k = snd (nv_spec tbl md x m) k"
    using Cons.prems by (intro Cons.IH) simp
  ultimately show ?case by (simp add: Let_def split_beta)
qed simp

text \<open>C26. An item is read back as it was written, whatever the store did in between to the other
  items: the read of a session that starts with the write of an item and ends with its read, with
  no other write, removal or reset of it, succeeds and gives the bytes of that write. This is for items
  without an entry in the table of lengths, which cuts what a read gives.\<close>

theorem nv_read_after_write:
  assumes "nv_rel md f0 s m" "\<forall>x \<in> set ops. \<not> touches k x"
    "nv_room md m k (length buf)" "spec_ok (nv_spec tbl md) nv_allowed (Nv_write k buf # ops @ [Nv_read k len]) m"
    "\<forall>e \<in> set (g_nvItemLenCheckTbl tbl). lc_itemId e \<noteq> k"
  shows "\<exists>rs s'. run_ops (nv_step tbl md) (Nv_write k buf # ops @ [Nv_read k len]) s
    = Some (rs @ [(True, buf)], s')"
proof -
  let ?m = "snd (spec_run (nv_spec tbl md) ops (m(k \<mapsto> buf)))"
  have k: "?m k = Some buf" using untouched [OF assms(2), of tbl md "m(k \<mapsto> buf)"] by simp
  have "length buf < 2 ^ 16"
    using assms(4) by simp
  then have "unat (of_nat (length buf) :: u16) = length buf" by (rule unat_of_nat_u16)
  moreover have "List.find (\<lambda>e. lc_itemId e = k) (g_nvItemLenCheckTbl tbl) = None"
    using assms(5) by (auto simp: find_None_iff)
  ultimately have l: "take (stored_len tbl k buf) buf = buf"
    by (simp add: stored_len_def nv_itemLengthValidCheck_def)
  let ?rs = "(True, []) # fst (spec_run (nv_spec tbl md) ops (m(k \<mapsto> buf)))"
  have "fst (spec_run (nv_spec tbl md) (Nv_write k buf # ops @ [Nv_read k len]) m) = ?rs @ [(True, buf)]"
    using assms(3) k l by (simp add: spec_run_append Let_def split_beta)
  with nvs.run_sim [OF assms(1,4)] show ?thesis by metis
qed

lemma nv_read_after_write_witness:
  "\<exists>rs s'. run_ops (nv_step ex_tbl 6)
     (Nv_write 3 [1, 2] # [Nv_write 5 [7], Nv_write 4 (replicate 5000 0), Nv_remove 5 1] @ [Nv_read 3 2]) ex_blank
   = Some (rs @ [(True, [1, 2])], s')"
proof (rule nv_read_after_write [OF ex_blank_rel])
  show "spec_ok (nv_spec ex_tbl 6) nv_allowed
     (Nv_write 3 [1, 2] # [Nv_write 5 [7], Nv_write 4 (replicate 5000 0), Nv_remove 5 1] @ [Nv_read 3 2]) Map.empty"
    by (simp add: nv_eval)
qed (simp_all add: nv_eval)

end
