(* ===== verification/Nv_FrameCount.thy ===== *)
theory Nv_FrameCount
  imports Nv_Store
begin

text \<open>
  The store of the outgoing frame counter: the functions \<^verbatim>\<open>nv_nwkFrameCount...\<close> of
  \<^verbatim>\<open>proj/drivers/drv_nv.c\<close>. Behind the header a sector holds nothing but counters of four
  bytes, appended one after the other; the search looks at the pages and then at units of
  sixteen bytes from the end of the sector down. The module is \<open>NV_MODULE_NWK_FRAME_COUNT\<close>
  throughout.

  The search is proved to find the last counter of a log and the address behind it; saving and
  loading implement a list of counters, through changes of the sector, so that a counter saved in
  small steps is never lost. The retry after a failed write takes the wrong sector.
\<close>

subsection \<open>The code\<close>

definition UPDATE_FRAMECOUNT_THRES :: u32 where "UPDATE_FRAMECOUNT_THRES = 1024"

definition FRAMECOUNT_PAYLOAD_START :: "nat \<Rightarrow> nat" where
  "FRAMECOUNT_PAYLOAD_START opSect =
     (MODULE_SECT_START NV_MODULE_NWK_FRAME_COUNT opSect + SECT_INFO_SIZE + 3) div 4 * 4"

definition FRAMECOUNT_NUM_PER_SECT :: nat where
  "FRAMECOUNT_NUM_PER_SECT = (FLASH_SECTOR_SIZE - SECT_INFO_SIZE) div 4 * 4 div 4"

definition word_at :: "nat \<Rightarrow> flash \<Rightarrow> u32" where
  "word_at a f = u32_of (flash_read a 4 f)"

text \<open>The pages are looked at from the last one down: the loop stops at the first page that is
  not erased, and gives its address, the lowest address known to be free, and whether it
  stopped.\<close>

fun page_loop :: "nat \<Rightarrow> nat \<Rightarrow> nat \<Rightarrow> flash \<Rightarrow> nat \<times> nat \<times> bool" where
  "page_loop 0 opPageAddr validAddr f = (opPageAddr, validAddr, False)"
| "page_loop (Suc n) opPageAddr validAddr f =
     (if word_at opPageAddr f \<noteq> 0xffffffff then (opPageAddr, validAddr, True)
      else page_loop n (opPageAddr - FLASH_PAGE_SIZE) opPageAddr f)"

text \<open>The words of a unit after the first: the last counter, and the index of the first free
  word when the scan ends.\<close>

fun unit_scan :: "u32 \<Rightarrow> nat \<Rightarrow> u32 list \<Rightarrow> u32 \<times> nat option" where
  "unit_scan c i [] = (c, None)"
| "unit_scan c i (w # ws) =
     (if w \<noteq> 0xffffffff then (if ws = [] then (w, Some (i + 1)) else unit_scan w (i + 1) ws)
      else (c, Some i))"

function unit_loop ::
  "nat \<Rightarrow> nat \<Rightarrow> nat \<Rightarrow> u32 option \<Rightarrow> flash \<Rightarrow> nv_sts_t \<times> u32 option \<times> nat" where
  "unit_loop checkSize opPageAddr validAddr frameCount f =
     (if checkSize = 0 then (NV_ITEM_NOT_FOUND, frameCount, validAddr)
      else
        let readSize = min 16 checkSize;
            a = opPageAddr - readSize;
            raw = flash_read a readSize f;
            checkValid = map (\<lambda>j. u32_of (take 4 (drop (4 * j) raw))) [0..<readSize div 4] in
        if checkValid ! 0 \<noteq> 0xffffffff then
          (case unit_scan (checkValid ! 0) 1 (tl checkValid) of
             (c, Some i) \<Rightarrow> (NV_SUCC, Some c, a + 4 * i)
           | (c, None) \<Rightarrow> unit_loop (checkSize - readSize) a validAddr (Some c) f)
        else unit_loop (checkSize - readSize) a a frameCount f)"
  by auto
termination by (relation "measure (\<lambda>(n, _). n)") auto

declare unit_loop.simps [simp del]

definition nv_nwkFrameCountSearch :: "nat \<Rightarrow> nat \<Rightarrow> flash \<Rightarrow> nv_sts_t \<times> u32 option \<times> nat" where
  "nv_nwkFrameCountSearch md opSect f =
     (let sizeUsed = FRAMECOUNT_NUM_PER_SECT * 4;
          pageUsed = (if sizeUsed mod 256 \<noteq> 0 then sizeUsed div FLASH_PAGE_SIZE + 1 else sizeUsed div FLASH_PAGE_SIZE);
          (p, validAddr, stopped) = page_loop (pageUsed - 1) (MODULE_SECT_END md opSect - FLASH_PAGE_SIZE)
             (FRAMECOUNT_PAYLOAD_START opSect) f;
          (opPageAddr, checkSize) = (if stopped then (p, FLASH_PAGE_SIZE)
             else (FRAMECOUNT_PAYLOAD_START opSect, (FLASH_PAGE_SIZE - SECT_INFO_SIZE) div 4 * 4)) in
      unit_loop checkSize ((opPageAddr + FLASH_PAGE_SIZE) div FLASH_PAGE_SIZE * FLASH_PAGE_SIZE) validAddr None f)"

text \<open>\<open>errSect\<close> is the sector the caller found faulty; it is used by a forced change only. When
  the search finds nothing, the first word of the payload is written.\<close>

definition nv_nwkFrameCountSaveToFlashHandler :: "bool \<Rightarrow> nat \<Rightarrow> u32 \<Rightarrow> flash \<Rightarrow> nv_sts_t \<times> flash" where
  "nv_nwkFrameCountSaveToFlashHandler forceChgSec errSect frameCount f0 =
     (let md = NV_MODULE_NWK_FRAME_COUNT;
          (opSect0, f1) =
            (if forceChgSec then
               let opSect = (errSect + 1) mod MODULE_SECTOR_NUM in
               (opSect, erase_sectors (NV_SECTOR_SIZE md div FLASH_SECTOR_SIZE)
                          (MODULES_START_ADDR md + opSect * NV_SECTOR_SIZE md) f0)
             else (case nv_sector_read md MODULE_SECTOR_NUM f0 of
                 (NV_SUCC, Some s, f) \<Rightarrow> (unat (si_opSect s), f)
               | (_, _, f) \<Rightarrow> (0, erase_sectors MODULE_SECTOR_NUM (MODULES_START_ADDR md) f)));
          (ret, lastFrmCnt, wAddr0) = nv_nwkFrameCountSearch md opSect0 f1;
          sectorUpdate = (ret = NV_SUCC \<and> wAddr0 = MODULE_SECT_END md opSect0);
          opSect = (if sectorUpdate then (opSect0 + 1) mod MODULE_SECTOR_NUM else opSect0);
          (ok2, f2) = (if sectorUpdate
             then flash_writeWithCheck (FRAMECOUNT_PAYLOAD_START opSect) (u32_bytes (the lastFrmCnt))
                    (flash_erase (MODULES_START_ADDR md + opSect * FLASH_SECTOR_SIZE) f1)
             else (True, f1)) in
      if \<not> ok2 then (NV_CHECK_SUM_ERROR, f2)
      else
        let wAddr = (if sectorUpdate then FRAMECOUNT_PAYLOAD_START opSect + 4 else wAddr0);
            (ok3, f3) = flash_writeWithCheck wAddr (u32_bytes frameCount) f2 in
        if \<not> ok3 then (NV_CHECK_SUM_ERROR, f3)
        else if sectorUpdate \<or> wAddr = FRAMECOUNT_PAYLOAD_START opSect then
          let (ok4, f4) = flash_writeWithCheck (MODULE_SECT_START md opSect)
                (sect_bytes (sect_info_for md opSect NV_SECTOR_VALID_READY_CHECKCRC)) f3 in
          if \<not> ok4 then (NV_CHECK_SUM_ERROR, f4)
          else if sectorUpdate \<or> forceChgSec then
            let oldSect = (if forceChgSec then errSect else opSect0);
                (ok5, f5) = flash_writeWithCheck (MODULE_SECT_START md oldSect) (u16_bytes NV_SECTOR_INVALID) f4 in
            if \<not> ok5 then (NV_CHECK_SUM_ERROR, f5)
            else (NV_SUCC, snd (flash_writeWithCheck (MODULE_SECT_START md opSect)
                             (u16_bytes NV_SECTOR_VALID_CHECKCRC) f5))
          else (NV_SUCC, f4)
        else (NV_SUCC, f3))"

definition nv_nwkFrameCountSaveToFlash :: "u32 \<Rightarrow> flash \<Rightarrow> nv_sts_t \<times> flash" where
  "nv_nwkFrameCountSaveToFlash frameCount f =
     (let sect = 0xff;
          (ret, f1) = nv_nwkFrameCountSaveToFlashHandler False sect frameCount f in
      if ret = NV_CHECK_SUM_ERROR
      then (NV_SUCC, snd (nv_nwkFrameCountSaveToFlashHandler True sect frameCount f1))
      else (NV_SUCC, f1))"

definition nv_nwkFrameCountFromFlash :: "flash \<Rightarrow> nv_sts_t \<times> u32 option \<times> flash" where
  "nv_nwkFrameCountFromFlash f =
     (let md = NV_MODULE_NWK_FRAME_COUNT in
      case nv_sector_read md MODULE_SECTOR_NUM f of
        (NV_SUCC, Some s, f1) \<Rightarrow>
          (let opSect = unat (si_opSect s);
               (ret, lastFrmCnt, wAddr) = nv_nwkFrameCountSearch md opSect f1 in
           if ret \<noteq> NV_SUCC then (ret, None, f1)
           else if wAddr > FRAMECOUNT_PAYLOAD_START opSect + 8 \<and>
                   word_at (wAddr - 4) f1 - word_at (wAddr - 8) f1 > UPDATE_FRAMECOUNT_THRES
           then
             let c = word_at (wAddr - 8) f1 + UPDATE_FRAMECOUNT_THRES in
             (ret, Some c, snd (nv_nwkFrameCountSaveToFlashHandler True opSect c f1))
           else (ret, lastFrmCnt, f1))
      | (ret, _, f1) \<Rightarrow> (ret, None, f1))"

subsection \<open>The search\<close>

lemma unit_scan_ok:
  assumes "0 < k" "1 \<le> i" "i \<le> e" "\<forall>j < k. g (i + j) \<noteq> 0xffffffff \<longleftrightarrow> i + j < e"
  shows "unit_scan (g (i - 1)) i (map (\<lambda>j. g (i + j)) [0..<k]) =
    (g (min e (i + k) - 1), Some (min e (i + k)))"
  using assms
proof (induction k arbitrary: i)
  case (Suc k)
  have l: "map (\<lambda>j. g (i + j)) [0..<Suc k] = g i # map (\<lambda>j. g (Suc i + j)) [0..<k]"
    by (simp add: map_upt_Suc del: upt_Suc)
  have g0: "g i \<noteq> 0xffffffff \<longleftrightarrow> i < e" using Suc.prems(4) by auto
  show ?case
  proof (cases "i < e")
    case False
    with Suc.prems(3) g0 show ?thesis unfolding l by simp
  next
    case True
    show ?thesis
    proof (cases "k = 0")
      case True
      with \<open>i < e\<close> g0 show ?thesis unfolding l by simp
    next
      case False
      have "\<forall>j < k. g (Suc i + j) \<noteq> 0xffffffff \<longleftrightarrow> Suc i + j < e"
        using Suc.prems(4) by (metis Suc_less_eq add_Suc_shift)
      from Suc.IH [OF _ _ _ this] False True g0 show ?thesis unfolding l by simp
    qed
  qed
qed simp

definition fc_word :: "nat \<Rightarrow> flash \<Rightarrow> nat \<Rightarrow> u32" where
  "fc_word b f p = word_at (b + 4 * p) f"

lemma chunk_words:
  "m * 4 = n \<Longrightarrow> map (\<lambda>j. u32_of (take 4 (drop (4 * j) (flash_read (b + 4 * q) n f)))) [0..<n div 4]
     = map (\<lambda>j. fc_word b f (q + j)) [0..<m]"
  by (auto simp: fc_word_def word_at_def take_flash_read drop_flash_read algebra_simps)

lemma unit_loop_ok:
  assumes "q0 \<le> q" "(q - q0) mod 4 \<noteq> 1" "N < q" "\<forall>p. q0 \<le> p \<and> p < q \<longrightarrow> (fc_word b f p \<noteq> 0xffffffff \<longleftrightarrow> p \<le> N)"
  shows "unit_loop (4 * (q - q0)) (b + 4 * q) v fc f =
    (if q0 \<le> N then (NV_SUCC, Some (fc_word b f N), b + 4 * (N + 1))
     else (NV_ITEM_NOT_FOUND, fc, if q = q0 then v else b + 4 * q0))"
  using assms
proof (induction "q - q0" arbitrary: q v rule: less_induct)
  case less
  show ?case
  proof (cases "q = q0")
    case True
    with less.prems show ?thesis by (simp add: unit_loop.simps)
  next
    case False
    define m where "m = min 4 (q - q0)"
    have m: "0 < m" "m \<le> q - q0" "m \<noteq> 1" "m \<le> 4" using False less.prems(1,2) by (auto simp: m_def min_def)
    have rd: "min 16 (4 * (q - q0)) = m * 4" by (simp add: m_def)
    have a: "b + 4 * q - m * 4 = b + 4 * (q - m)" using m by (simp add: algebra_simps diff_mult_distrib2)
    have cs: "4 * (q - q0) - m * 4 = 4 * (q - m - q0)" by (simp add: diff_mult_distrib2)
    let ?g = "\<lambda>j. fc_word b f (q - m + j)"
    let ?l = "map ?g [0..<m]"
    have l: "?l = ?g 0 # map (\<lambda>j. ?g (1 + j)) [0..<m - 1]"
      using m(1) by (cases m) (simp_all add: map_upt_Suc del: upt_Suc)
    have step: "unit_loop (4 * (q - q0)) (b + 4 * q) v fc f =
      (if ?g 0 \<noteq> 0xffffffff then
          (case unit_scan (?g 0) 1 (tl ?l) of
             (c, Some i) \<Rightarrow> (NV_SUCC, Some c, b + 4 * (q - m) + 4 * i)
           | (c, None) \<Rightarrow> unit_loop (4 * (q - m - q0)) (b + 4 * (q - m)) v (Some c) f)
        else unit_loop (4 * (q - m - q0)) (b + 4 * (q - m)) (b + 4 * (q - m)) fc f)"
    proof -
      have i: "?l ! 0 = ?g 0" "(4 * (q - q0) = 0) = False" using m(1) False less.prems(1) by simp_all
      show ?thesis
        by (subst unit_loop.simps) (simp only: Let_def rd a cs chunk_words [OF refl] i if_False)
    qed
    have g: "?g j \<noteq> 0xffffffff \<longleftrightarrow> q - m + j \<le> N" if "j < m" for j
    proof -
      have "q0 \<le> q - m + j \<and> q - m + j < q" using that m(2) less.prems(1) by linarith
      with less.prems(4) show ?thesis by blast
    qed
    show ?thesis
    proof (cases "q - m \<le> N")
      case True
      let ?e = "N - (q - m) + 1"
      have e: "\<forall>j < m - 1. ?g (1 + j) \<noteq> 0xffffffff \<longleftrightarrow> 1 + j < ?e"
      proof (intro allI impI)
        fix j assume "j < m - 1"
        then have "1 + j < m" by simp
        from g [OF this] True show "?g (1 + j) \<noteq> 0xffffffff \<longleftrightarrow> 1 + j < ?e" by linarith
      qed
      have "min ?e (1 + (m - 1)) = ?e" using less.prems(3) m True by (simp add: min_def)
      then have us: "unit_scan (?g 0) 1 (map (\<lambda>j. ?g (1 + j)) [0..<m - 1]) = (?g (N - (q - m)), Some ?e)"
        using unit_scan_ok [OF _ _ _ e] m by simp
      have i: "q - m + (N - (q - m)) = N" using True by (rule le_add_diff_inverse)
      have sc: "unit_scan (?g 0) 1 (tl ?l) = (fc_word b f N, Some ?e)"
        unfolding l list.sel us i ..
      have n: "?g 0 \<noteq> 0xffffffff" "q0 \<le> N" using g [of 0] m True less.prems(1) by simp_all
      have "4 * (q - m) + 4 * (N - (q - m)) = 4 * N" using i by (metis add_mult_distrib2)
      then have "b + 4 * (q - m) + 4 * ?e = b + 4 * (N + 1)" by simp
      with n sc show ?thesis unfolding step by (simp only: if_P prod.case option.case simp_thms if_True)
    next
      case F: False
      have q: "q0 \<le> q - m" "q - m - q0 < q - q0" "(q - m - q0) mod 4 \<noteq> 1"
      proof -
        show "q0 \<le> q - m" "q - m - q0 < q - q0" using m less.prems(1) by linarith+
        show "(q - m - q0) mod 4 \<noteq> 1"
        proof (cases "4 \<le> q - q0")
          case True
          then have "m = 4" by (simp add: m_def)
          then have "(q - m - q0) mod 4 = (q - q0) mod 4" using True by (simp add: le_mod_geq add.commute)
          with less.prems(2) show ?thesis by simp
        next
          case False
          then have "q - m - q0 = 0" by (simp add: m_def)
          then show ?thesis by simp
        qed
      qed
      have "unit_loop (4 * (q - m - q0)) (b + 4 * (q - m)) (b + 4 * (q - m)) fc f =
        (if q0 \<le> N then (NV_SUCC, Some (fc_word b f N), b + 4 * (N + 1))
         else (NV_ITEM_NOT_FOUND, fc, if q - m = q0 then b + 4 * (q - m) else b + 4 * q0))"
        by (rule less.hyps [OF q(2,1,3)]) (use F less.prems(4) in auto)
      moreover have "\<not> ?g 0 \<noteq> 0xffffffff" using g [of 0] m(1) F by simp
      ultimately show ?thesis unfolding step using False by (simp only: if_not_P) auto
    qed
  qed
qed

lemma page_loop_ok:
  assumes "N < 64 * (k + 1)" "\<forall>j. 1 \<le> j \<and> j \<le> k \<longrightarrow> (fc_word b f (64 * j) \<noteq> 0xffffffff \<longleftrightarrow> 64 * j \<le> N)"
  shows "\<exists>v'. page_loop k (b + 256 * k) v f =
    (if 64 \<le> N then (b + 256 * (N div 64), v', True) else (b, v', False))"
  using assms
proof (induction k arbitrary: v)
  case (Suc k)
  have w: "fc_word b f (64 * Suc k) = word_at (b + 256 * Suc k) f" by (simp add: fc_word_def algebra_simps)
  show ?case
  proof (cases "64 * Suc k \<le> N")
    case True
    then have "N div 64 = Suc k" using Suc.prems(1) by (intro div_nat_eqI) auto
    moreover have "word_at (b + 256 * Suc k) f \<noteq> 0xffffffff" using True Suc.prems(2) w by (metis le_refl le_add1 plus_1_eq_Suc)
    ultimately show ?thesis using True by simp
  next
    case False
    then have "word_at (b + 256 * Suc k) f = 0xffffffff" using Suc.prems(2) w by (metis le_refl le_add1 plus_1_eq_Suc)
    moreover have "b + 256 * Suc k - FLASH_PAGE_SIZE = b + 256 * k" by (simp add: FLASH_PAGE_SIZE_def)
    ultimately show ?thesis using Suc.IH [of "b + 256 * Suc k"] Suc.prems False by simp
  qed
qed simp

subsection \<open>The log of counters\<close>

abbreviation fc_md :: nat where "fc_md \<equiv> NV_MODULE_NWK_FRAME_COUNT"

definition fc_base :: "nat \<Rightarrow> nat" where "fc_base sec = MODULE_SECT_START fc_md sec"

lemma fc_base_eq: "fc_base sec = 557056 + 4096 * sec"
  by (simp add: fc_base_def MODULE_SECT_START_def MODULES_START_ADDR_def FLASH_SECTOR_SIZE_def
      NV_SECTOR_SIZE_def NV_MODULE_NWK_FRAME_COUNT_def NV_MODULE_KEYPAIR_def NV_BASE_ADDRESS_def)

lemma fc_payload: "FRAMECOUNT_PAYLOAD_START sec = fc_base sec + 4"
proof -
  let ?x = "139264 + 1024 * sec"
  have "(4 * ?x + 7) div 4 = ?x + 1" by (rule div_nat_eqI) auto
  moreover have "fc_base sec = 4 * ?x" by (simp add: fc_base_eq)
  ultimately show ?thesis
    by (simp add: FRAMECOUNT_PAYLOAD_START_def fc_base_def [symmetric] SECT_INFO_SIZE_def add.assoc)
qed

lemma fc_layout: "MODULE_SECT_START fc_md sec = fc_base sec" "MODULE_SECT_END fc_md sec = fc_base sec + 4096"
  "MODULE_IDX_START fc_md sec = fc_base sec + 4" "FRAMECOUNT_NUM_PER_SECT = 1023"
  "NV_SECTOR_SIZE fc_md = 4096" "MODULES_START_ADDR fc_md = fc_base 0"
  by (simp_all add: fc_base_def MODULE_SECT_START_def MODULE_SECT_END_def FRAMECOUNT_NUM_PER_SECT_def
      MODULE_IDX_START_def FLASH_SECTOR_SIZE_def SECT_INFO_SIZE_def NV_SECTOR_SIZE_def NV_MODULE_NWK_FRAME_COUNT_def
      NV_MODULE_KEYPAIR_def MODULES_START_ADDR_def NV_BASE_ADDRESS_def)

text \<open>The counters \<open>ws\<close> stand in order behind the header; the rest of the sector is erased.\<close>

definition fc_log :: "nat \<Rightarrow> flash \<Rightarrow> u32 list \<Rightarrow> bool" where
  "fc_log sec f ws \<longleftrightarrow> length ws \<le> 1023 \<and> 0xffffffff \<notin> set ws \<and>
     (\<forall>j < length ws. fc_word (fc_base sec) f (j + 1) = ws ! j) \<and>
     erased (fc_base sec + 4 * (length ws + 1)) (4 * (1023 - length ws)) f"

lemma word_erased: "erased a 4 f \<Longrightarrow> word_at a f = 0xffffffff"
proof -
  assume "erased a 4 f"
  then have "flash_read a 4 f = replicate 4 0xFF" by (intro nth_equalityI) (auto simp: erased_def)
  moreover have "u32_of (replicate 4 0xFF) = 0xffffffff" by code_simp
  ultimately show ?thesis by (simp only: word_at_def)
qed

lemma fc_word_iff:
  assumes "fc_log sec f ws" "1 \<le> p" "p \<le> 1023"
  shows "fc_word (fc_base sec) f p \<noteq> 0xffffffff \<longleftrightarrow> p \<le> length ws"
proof (cases "p \<le> length ws")
  case True
  then obtain j where j: "p = j + 1" "j < length ws" using assms(2) by (metis Suc_eq_plus1 Suc_le_eq le_Suc_ex plus_1_eq_Suc)
  then have "fc_word (fc_base sec) f p = ws ! j" using assms(1) by (simp add: fc_log_def)
  moreover have "ws ! j \<noteq> 0xffffffff" using j(2) assms(1) nth_mem by (fastforce simp: fc_log_def)
  ultimately show ?thesis using True by simp
next
  case False
  have "erased (fc_base sec + 4 * (length ws + 1)) (4 * (1023 - length ws)) f"
    using assms(1) by (simp add: fc_log_def)
  then have "erased (fc_base sec + 4 * p) 4 f" by (rule erased_mono) (use False assms(3) in auto)
  with False show ?thesis by (simp add: fc_word_def word_erased)
qed

lemma search_ok:
  assumes "fc_log sec f ws"
  shows "nv_nwkFrameCountSearch fc_md sec f =
    (if ws = [] then (NV_ITEM_NOT_FOUND, None, fc_base sec + 4)
     else (NV_SUCC, Some (last ws), fc_base sec + 4 * (length ws + 1)))"
proof -
  let ?b = "fc_base sec" and ?N = "length ws"
  have N: "?N \<le> 1023" using assms by (simp add: fc_log_def)
  have "\<forall>j. 1 \<le> j \<and> j \<le> 15 \<longrightarrow> (fc_word ?b f (64 * j) \<noteq> 0xffffffff \<longleftrightarrow> 64 * j \<le> ?N)"
    by (intro allI impI fc_word_iff [OF assms]) auto
  from page_loop_ok [OF _ this, of "?b + 4"] N obtain v'
    where pl: "page_loop 15 (?b + 3840) (?b + 4) f =
      (if 64 \<le> ?N then (?b + 256 * (?N div 64), v', True) else (?b, v', False))" by auto
  have last: "ws \<noteq> [] \<Longrightarrow> fc_word ?b f ?N = last ws"
    using assms by (cases ws rule: rev_cases) (auto simp: fc_log_def nth_append)
  have ul: "unit_loop (4 * (q - q0)) (?b + 4 * q) v' None f =
      (if q0 \<le> ?N then (NV_SUCC, Some (fc_word ?b f ?N), ?b + 4 * (?N + 1))
       else (NV_ITEM_NOT_FOUND, None, ?b + 4 * q0))"
    if "1 \<le> q0" "q0 < q" "(q - q0) mod 4 \<noteq> 1" "?N < q" "q \<le> 1024" for q0 q
    using unit_loop_ok [of q0 q ?N ?b f v' None] that fc_word_iff [OF assms] by simp
  have c: "?b = 256 * (2176 + 16 * sec)" by (simp add: fc_base_eq)
  have e: "?b + 4096 - 256 = ?b + 3840" by simp
  have search: "nv_nwkFrameCountSearch fc_md sec f =
      unit_loop (if st then 256 else 252) (((if st then p else ?b + 4) + 256) div 256 * 256) v' None f"
    if "page_loop 15 (?b + 3840) (?b + 4) f = (p, v', st)" for p st
    using that unfolding nv_nwkFrameCountSearch_def fc_layout fc_payload FLASH_PAGE_SIZE_def e
    by (simp add: SECT_INFO_SIZE_def)
  show ?thesis
  proof (cases "64 \<le> ?N")
    case True
    let ?k = "?N div 64"
    have k: "64 * ?k \<le> ?N" "?N < 64 * (?k + 1)" "1 \<le> ?k" "?k \<le> 15" using True N by auto
    have d: "(?b + 256 * ?k + 256) div 256 * 256 = ?b + 4 * (64 * (?k + 1))" "(256 :: nat) = 4 * (64 * (?k + 1) - 64 * ?k)"
      using c by simp_all
    have "unit_loop (4 * (64 * (?k + 1) - 64 * ?k)) (?b + 4 * (64 * (?k + 1))) v' None f =
      (NV_SUCC, Some (fc_word ?b f ?N), ?b + 4 * (?N + 1))"
      using ul [of "64 * ?k" "64 * (?k + 1)"] k by simp
    moreover have "ws \<noteq> []" using True by auto
    ultimately show ?thesis
      using search [of "?b + 256 * ?k" True] pl True last unfolding if_True d(1) by simp
  next
    case False
    have d: "(?b + 4 + 256) div 256 * 256 = ?b + 4 * 64"
    proof -
      have "(256 * (2176 + 16 * sec) + 4 + 256) div 256 = 2176 + 16 * sec + 1" by (rule div_nat_eqI) auto
      then show ?thesis unfolding c by simp
    qed
    have "unit_loop (4 * (64 - 1)) (?b + 4 * 64) v' None f =
      (if 1 \<le> ?N then (NV_SUCC, Some (fc_word ?b f ?N), ?b + 4 * (?N + 1))
       else (NV_ITEM_NOT_FOUND, None, ?b + 4 * 1))"
      using False by (intro ul) auto
    then show ?thesis
      using search [of ?b False] pl False last unfolding if_False d by (cases ws) auto
  qed
qed

subsection \<open>Saving a counter\<close>

definition fc_hdr :: "nat \<Rightarrow> flash \<Rightarrow> bool" where
  \<comment> \<open>the first save after a reset leaves the ready flag, which the next read turns into valid\<close>
  "fc_hdr sec f \<longleftrightarrow> hdr_ok fc_md sec f \<or>
     sec = 0 \<and> sect_at (fc_base 0) f = sect_info_for fc_md 0 NV_SECTOR_VALID_READY_CHECKCRC \<and>
     erased (fc_base 1) 2 f"

definition fc_rep :: "nat \<Rightarrow> flash \<Rightarrow> u32 list \<Rightarrow> bool" where
  "fc_rep sec f ws \<longleftrightarrow> sec < MODULE_SECTOR_NUM \<and> fc_hdr sec f \<and> fc_log sec f ws \<and> ws \<noteq> []"

lemma fc_lay: "sec < MODULE_SECTOR_NUM \<Longrightarrow> lay_ok fc_md sec"
  by (simp add: lay_ok_def NV_MODULE_NWK_FRAME_COUNT_def NV_MAX_MODULS_def)

lemma fc_log_cong:
  assumes "fc_log sec f ws" "\<And>i. fc_base sec + 4 \<le> i \<Longrightarrow> i < fc_base sec + 4096 \<Longrightarrow> g i = f i"
  shows "fc_log sec g ws"
proof -
  have "fc_word (fc_base sec) g (j + 1) = fc_word (fc_base sec) f (j + 1)" if "j < length ws" for j
  proof -
    have "flash_read (fc_base sec + 4 * (j + 1)) 4 g = flash_read (fc_base sec + 4 * (j + 1)) 4 f"
      using that assms(1) by (intro flash_read_cong assms(2)) (auto simp: fc_log_def)
    then show ?thesis by (simp only: fc_word_def word_at_def)
  qed
  then show ?thesis using assms by (auto simp: fc_log_def erased_def)
qed

lemma fc_log_empty: "erased (fc_base sec) 4096 f \<Longrightarrow> fc_log sec f []"
  by (auto simp: fc_log_def elim!: erased_mono)

lemma fc_append:
  assumes l: "fc_log sec f ws" and n: "length ws < 1023" and c: "c \<noteq> 0xffffffff"
  defines "a \<equiv> fc_base sec + 4 * (length ws + 1)"
  shows "\<exists>f'. flash_writeWithCheck a (u32_bytes c) f = (True, f') \<and> fc_log sec f' (ws @ [c]) \<and>
    (\<forall>i. i < a \<or> a + 4 \<le> i \<longrightarrow> f' i = f i)"
proof -
  define f' where "f' = flash_write_page a (u32_bytes c) f"
  have er: "erased a (4 * (1023 - length ws)) f" using l by (simp add: fc_log_def a_def)
  have er4: "erased a (length (u32_bytes c)) f" using er by (rule erased_mono) (use n in auto)
  have w: "flash_writeWithCheck a (u32_bytes c) f = (True, f')"
    unfolding f'_def by (rule writeWithCheck_erased [OF er4])
  have fr: "f' i = f i" if "i < a \<or> a + 4 \<le> i" for i
    using that by (simp add: f'_def flash_write_outside)
  have "word_at a f' = c"
    using flash_read_write_erased [OF er4] u32_of_bytes [of c "[]"] by (simp add: word_at_def f'_def)
  moreover have "fc_word (fc_base sec) f' (j + 1) = fc_word (fc_base sec) f (j + 1)" if "j < length ws" for j
  proof -
    have "flash_read (fc_base sec + 4 * (j + 1)) 4 f' = flash_read (fc_base sec + 4 * (j + 1)) 4 f"
      using that by (intro flash_read_cong fr) (auto simp: a_def)
    then show ?thesis by (simp only: fc_word_def word_at_def)
  qed
  moreover have "erased (fc_base sec + 4 * (length (ws @ [c]) + 1)) (4 * (1023 - length (ws @ [c]))) f'"
  proof -
    have "erased (a + 4) (4 * (1023 - length ws) - 4) f'"
      using er fr by (simp add: erased_def)
    then show ?thesis by (rule erased_mono) (auto simp: a_def)
  qed
  ultimately have "fc_log sec f' (ws @ [c])"
    using l n c by (auto simp: fc_log_def nth_append less_Suc_eq fc_word_def a_def)
  with w fr show ?thesis by blast
qed

lemma fc_sector_read:
  assumes "fc_rep sec f ws"
  shows "\<exists>s f'. nv_sector_read fc_md MODULE_SECTOR_NUM f = (NV_SUCC, Some s, f') \<and> unat (si_opSect s) = sec \<and>
    hdr_ok fc_md sec f' \<and> fc_log sec f' ws \<and> nv_same_outside fc_md f f'"
proof -
  have sec: "sec < MODULE_SECTOR_NUM" and h: "fc_hdr sec f" and l: "fc_log sec f ws" using assms by (auto simp: fc_rep_def)
  note lay = fc_lay [OF sec]
  show ?thesis
  proof (cases "hdr_ok fc_md sec f")
    case True
    have "nv_same_outside fc_md f f" by (simp add: nv_same_outside_def)
    with sector_read_ok [OF lay True] True l show ?thesis by blast
  next
    case False
    with h have s0: "sec = 0" and at: "sect_at (fc_base 0) f = sect_info_for fc_md 0 NV_SECTOR_VALID_READY_CHECKCRC"
      and er: "erased (fc_base 1) 2 f" by (auto simp: fc_hdr_def)
    let ?s = "sect_info_for fc_md 0 NV_SECTOR_VALID_READY_CHECKCRC"
    define f1 where "f1 = flash_write_page (fc_base 1) (u16_bytes NV_SECTOR_INVALID) f"
    have w1: "flash_writeWithCheck (fc_base 1) (u16_bytes NV_SECTOR_INVALID) f = (True, f1)"
      unfolding f1_def by (rule writeWithCheck_erased) (use er in simp)
    have r0: "flash_read (fc_base 0) 4 f = sect_bytes ?s" using at by (simp add: sect_at_iff)
    have r1: "flash_read (fc_base 0) 4 f1 = sect_bytes ?s"
      unfolding f1_def r0 [symmetric] by (rule flash_read_write_other) (simp add: fc_base_eq)
    then have h1: "flash_read (fc_base 0) 2 f1 = u16_bytes NV_SECTOR_VALID_READY_CHECKCRC"
      "flash_read (fc_base 0 + 2) 2 f1 = [of_nat fc_md, si_opSect (sect_info_for fc_md 0 0)]"
      unfolding sect_read_split sect_bytes_split by (simp_all add: append_eq_append_conv)
    define f2 where "f2 = flash_write_page (fc_base 0) (u16_bytes NV_SECTOR_VALID_CHECKCRC) f1"
    note w2 = flash_write_flag [OF h1(1) _ _ flag_bits(1), simplified, folded f2_def]
    have "flash_read (fc_base 0 + 2) 2 f2 = [of_nat fc_md, si_opSect (sect_info_for fc_md 0 0)]"
      unfolding f2_def by (subst flash_read_write_other) (simp, rule h1(2))
    then have "flash_read (fc_base 0) 4 f2 = sect_bytes (sect_info_for fc_md 0 NV_SECTOR_VALID_CHECKCRC)"
      unfolding sect_read_split [of "fc_base 0"] sect_bytes_split using w2(2) by simp
    then have hd: "hdr_ok fc_md 0 f2" by (simp add: hdr_ok_def sect_at_iff fc_layout)
    have fr: "f2 i = f i" if "i < fc_base 0 \<or> fc_base 0 + 2 \<le> i" "i < fc_base 1 \<or> fc_base 1 + 2 \<le> i" for i
      using that by (simp add: f2_def f1_def flash_write_outside)
    have "fc_log 0 f2 ws"
      by (rule fc_log_cong [OF l [unfolded s0]], rule fr) (auto simp: fc_base_eq)
    moreover have "nv_same_outside fc_md f f2"
      using fr by (simp add: nv_same_outside_def fc_layout fc_base_eq)
    moreover have "nv_sector_read fc_md MODULE_SECTOR_NUM f =
      (NV_SUCC, Some (?s\<lparr>si_usedFlag := NV_SECTOR_VALID_CHECKCRC, si_opSect := 0\<rparr>), f2)"
    proof -
      have n2: "MODULE_SECTOR_NUM = Suc (Suc 0)" by (simp add: MODULE_SECTOR_NUM_def)
      have "nv_sectInfoCrcCheck ?s" "si_opSect ?s AND 3 = 0"
        using sect_info_ok [of 0 fc_md] by (simp_all add: n2)
      moreover have "si_usedFlag ?s = NV_SECTOR_VALID_READY_CHECKCRC" by (simp add: sect_info_for_def Let_def)
      ultimately show ?thesis
        using at w1 w2(1) by (simp add: nv_sector_read_def n2 fc_layout Let_def)
    qed
    ultimately show ?thesis using hd s0 by fastforce
  qed
qed

text \<open>The counters are in the new sector, its header is still erased: the three header writes.\<close>

lemma fc_headers:
  assumes sec: "sec < MODULE_SECTOR_NUM" and h: "hdr_ok fc_md sec f"
    and er: "erased (fc_base (other_sect sec)) 4 f4" and l: "fc_log (other_sect sec) f4 ws" and ws: "ws \<noteq> []"
    and fr: "\<And>i. i < fc_base (other_sect sec) \<or> fc_base (other_sect sec) + 4096 \<le> i \<Longrightarrow> f4 i = f i"
  defines "new \<equiv> other_sect sec"
  shows "\<exists>f5 f6 f7. flash_writeWithCheck (fc_base new) (sect_bytes (sect_info_for fc_md new NV_SECTOR_VALID_READY_CHECKCRC)) f4 = (True, f5) \<and>
    flash_writeWithCheck (fc_base sec) (u16_bytes NV_SECTOR_INVALID) f5 = (True, f6) \<and>
    flash_writeWithCheck (fc_base new) (u16_bytes NV_SECTOR_VALID_CHECKCRC) f6 = (True, f7) \<and>
    fc_rep new f7 ws \<and> nv_same_outside fc_md f f7"
proof -
  note lay = fc_lay [OF sec]
  note dis = sect_disjoint [OF lay]
  have ap: "fc_base sec + 4096 \<le> fc_base new \<or> fc_base new + 4096 \<le> fc_base sec"
    using dis(3) by (simp add: fc_layout new_def)
  have "flash_read (fc_base sec) 4 f4 = flash_read (fc_base sec) 4 f"
    by (rule flash_read_cong, rule fr) (use ap in \<open>auto simp: new_def\<close>)
  then have old: "sect_at (MODULE_SECT_START fc_md sec) f4 = sect_info_for fc_md sec NV_SECTOR_VALID_CHECKCRC"
    using h by (simp add: hdr_ok_def sect_at_iff fc_layout)
  obtain f5 f6 f7 where w: "flash_writeWithCheck (fc_base new) (sect_bytes (sect_info_for fc_md new NV_SECTOR_VALID_READY_CHECKCRC)) f4 = (True, f5)"
    "flash_writeWithCheck (fc_base sec) (u16_bytes NV_SECTOR_INVALID) f5 = (True, f6)"
    "flash_writeWithCheck (fc_base new) (u16_bytes NV_SECTOR_VALID_CHECKCRC) f6 = (True, f7)"
    "hdr_ok fc_md new f7"
    and fr7: "\<And>i. (i < fc_base new \<or> fc_base new + 4 \<le> i) \<Longrightarrow> (i < fc_base sec \<or> fc_base sec + 2 \<le> i) \<Longrightarrow> f7 i = f4 i"
    using headers_ok [OF lay _ old] er unfolding fc_layout new_def [symmetric] by blast
  have "fc_log new f7 ws"
    by (rule fc_log_cong [OF l [folded new_def]], rule fr7) (use ap in auto)
  then have "fc_rep new f7 ws"
    using w(4) ws dis(1) by (simp add: fc_rep_def fc_hdr_def new_def lay_ok_def)
  moreover have "f7 i = f i" if "i < fc_base 0 \<or> fc_base 1 + 4096 \<le> i" for i
  proof -
    have "fc_base 0 \<le> fc_base s \<and> fc_base s \<le> fc_base 1" if "lay_ok fc_md s" for s
      using that by (simp add: fc_base_eq lay_ok_def MODULE_SECTOR_NUM_def)
    from this [OF lay] this [OF dis(1), folded new_def] that
    have "f7 i = f4 i" "f4 i = f i" by (intro fr7 fr [folded new_def]; linarith)+
    then show ?thesis by simp
  qed
  ultimately show ?thesis using w(1-3) by (auto simp: nv_same_outside_def fc_layout)
qed

lemma fc_erase:
  fixes f :: flash
  assumes "sec < MODULE_SECTOR_NUM"
  defines "f1 \<equiv> flash_erase (fc_base 0 + sec * FLASH_SECTOR_SIZE) f"
  shows "erase_sectors (NV_SECTOR_SIZE fc_md div FLASH_SECTOR_SIZE) (MODULES_START_ADDR fc_md + sec * NV_SECTOR_SIZE fc_md) f = f1"
    "erased (fc_base sec) 4096 f1" "\<And>i. i < fc_base sec \<or> fc_base sec + 4096 \<le> i \<Longrightarrow> f1 i = f i"
proof -
  show e: "erase_sectors (NV_SECTOR_SIZE fc_md div FLASH_SECTOR_SIZE) (MODULES_START_ADDR fc_md + sec * NV_SECTOR_SIZE fc_md) f = f1"
    by (simp add: fc_layout f1_def FLASH_SECTOR_SIZE_def)
  note en = erase_new [OF fc_lay [OF assms(1)], where f = f, unfolded e]
  show "erased (fc_base sec) 4096 f1" using en(1) by (simp add: fc_layout)
  show "\<And>i. i < fc_base sec \<or> fc_base sec + 4096 \<le> i \<Longrightarrow> f1 i = f i" using en(2) by (simp add: fc_layout)
qed

definition fc_after :: "u32 list \<Rightarrow> u32 \<Rightarrow> u32 list" where
  "fc_after ws c = (if length ws = 1023 then [last ws, c] else ws @ [c])"

lemma fc_save_ok:
  assumes rep: "fc_rep sec f ws" and c: "c \<noteq> 0xffffffff"
  shows "\<exists>f' sec'. nv_nwkFrameCountSaveToFlashHandler False e c f = (NV_SUCC, f') \<and>
    fc_rep sec' f' (fc_after ws c) \<and> nv_same_outside fc_md f f'"
proof -
  have sec: "sec < MODULE_SECTOR_NUM" and ws: "ws \<noteq> []" using rep by (auto simp: fc_rep_def)
  obtain s f1 where s: "nv_sector_read fc_md MODULE_SECTOR_NUM f = (NV_SUCC, Some s, f1)" "unat (si_opSect s) = sec"
    "hdr_ok fc_md sec f1" "fc_log sec f1 ws" "nv_same_outside fc_md f f1"
    using fc_sector_read [OF rep] by blast
  have n: "length ws \<le> 1023" and lst: "last ws \<noteq> 0xffffffff"
    using s(4) last_in_set [OF ws] by (auto simp: fc_log_def)
  note se = search_ok [OF s(4)]
  show ?thesis
  proof (cases "length ws = 1023")
    case False
    let ?a = "fc_base sec + 4 * (length ws + 1)"
    have n': "length ws < 1023" using n False by simp
    obtain f2 where w: "flash_writeWithCheck ?a (u32_bytes c) f1 = (True, f2)" "fc_log sec f2 (ws @ [c])"
      and fr: "\<And>i. i < ?a \<or> ?a + 4 \<le> i \<Longrightarrow> f2 i = f1 i"
      using fc_append [OF s(4) n' c] by blast
    have "hdr_ok fc_md sec f2"
      by (rule hdr_ok_cong [OF fc_lay [OF sec] s(3)], rule fr) (use n' in \<open>auto simp: fc_layout\<close>)
    then have "fc_rep sec f2 (fc_after ws c)"
      using w(2) sec False by (simp add: fc_rep_def fc_hdr_def fc_after_def)
    moreover have "nv_same_outside fc_md f1 f2"
      using fr n' sec by (simp add: nv_same_outside_def fc_layout fc_base_eq MODULE_SECTOR_NUM_def)
    moreover have "nv_nwkFrameCountSaveToFlashHandler False e c f = (NV_SUCC, f2)"
      using s(1,2) se w(1) ws False
      by (simp add: nv_nwkFrameCountSaveToFlashHandler_def Let_def fc_layout fc_payload)
    ultimately show ?thesis using same_outside_trans [OF s(5)] by blast
  next
    case True
    let ?new = "other_sect sec"
    have new: "?new < MODULE_SECTOR_NUM" by (simp add: other_sect_def MODULE_SECTOR_NUM_def)
    define f2 where "f2 = flash_erase (fc_base 0 + ?new * FLASH_SECTOR_SIZE) f1"
    note er = fc_erase [OF new, where f = f1, folded f2_def]
    obtain f3 where w3: "flash_writeWithCheck (fc_base ?new + 4) (u32_bytes (last ws)) f2 = (True, f3)"
      "fc_log ?new f3 [last ws]"
      and fr3: "\<And>i. i < fc_base ?new + 4 \<or> 8 + fc_base ?new \<le> i \<Longrightarrow> f3 i = f2 i"
      using fc_append [OF fc_log_empty [OF er(2)] _ lst] by auto
    obtain f4 where w4: "flash_writeWithCheck (fc_base ?new + 8) (u32_bytes c) f3 = (True, f4)"
      "fc_log ?new f4 [last ws, c]"
      and fr4: "\<And>i. i < fc_base ?new + 8 \<or> 12 + fc_base ?new \<le> i \<Longrightarrow> f4 i = f3 i"
      using fc_append [OF w3(2) _ c] by auto
    have er4: "erased (fc_base ?new) 4 f4" using er(2) fr3 fr4 by (simp add: erased_def)
    have fr: "f4 i = f1 i" if "i < fc_base ?new \<or> fc_base ?new + 4096 \<le> i" for i
    proof -
      have "f4 i = f3 i" "f3 i = f2 i" "f2 i = f1 i" using that by (intro fr4 fr3 er(3); linarith)+
      then show ?thesis by simp
    qed
    obtain f5 f6 f7 where w: "flash_writeWithCheck (fc_base ?new) (sect_bytes (sect_info_for fc_md ?new NV_SECTOR_VALID_READY_CHECKCRC)) f4 = (True, f5)"
      "flash_writeWithCheck (fc_base sec) (u16_bytes NV_SECTOR_INVALID) f5 = (True, f6)"
      "flash_writeWithCheck (fc_base ?new) (u16_bytes NV_SECTOR_VALID_CHECKCRC) f6 = (True, f7)"
      "fc_rep ?new f7 [last ws, c]" "nv_same_outside fc_md f1 f7"
      using fc_headers [OF sec s(3) er4 w4(2) _ fr] by blast
    have "nv_nwkFrameCountSaveToFlashHandler False e c f = (NV_SUCC, f7)"
    proof -
      have o: "Suc sec mod MODULE_SECTOR_NUM = ?new" "(sec + 1) mod MODULE_SECTOR_NUM = ?new"
        by (simp_all add: other_sect_def)
      have w4': "flash_writeWithCheck (8 + fc_base ?new) (u32_bytes c) f3 = (True, f4)"
        using w4(1) by (simp add: add.commute)
      show ?thesis
        using s(1,2) se ws True w3(1) w4' w(1-3)
        by (simp add: nv_nwkFrameCountSaveToFlashHandler_def Let_def fc_layout fc_payload o f2_def [symmetric])
    qed
    moreover have "fc_after ws c = [last ws, c]" using True by (simp add: fc_after_def)
    ultimately show ?thesis using w(4) same_outside_trans [OF s(5) w(5)] by auto
  qed
qed

lemma fc_blank_save:
  assumes b: "nv_blank fc_md f" and c: "c \<noteq> 0xffffffff"
  shows "\<exists>f'. nv_nwkFrameCountSaveToFlashHandler False e c f = (NV_SUCC, f') \<and>
    fc_rep 0 f' [c] \<and> nv_same_outside fc_md f f'"
proof -
  have s0: "0 < MODULE_SECTOR_NUM" "1 < MODULE_SECTOR_NUM" by (simp_all add: MODULE_SECTOR_NUM_def)
  define f1 where "f1 = erase_sectors MODULE_SECTOR_NUM (fc_base 0) f"
  have "f1 = nv_resetModule fc_md f"
    by (simp add: f1_def nv_resetModule_def fc_layout FLASH_SECTOR_SIZE_def)
  then have b1: "nv_blank fc_md f1" and o1: "nv_same_outside fc_md f f1"
    using reset_ok [OF fc_lay [OF s0(1)]] by simp_all
  have er: "erased (fc_base 0) 4096 f1" "erased (fc_base 1) 4096 f1"
    using blank_sect(2) [OF b1 s0(1)] blank_sect(2) [OF b1 s0(2)] by (simp_all add: fc_layout)
  note l0 = fc_log_empty [OF er(1)]
  obtain f2 where w: "flash_writeWithCheck (fc_base 0 + 4) (u32_bytes c) f1 = (True, f2)" "fc_log 0 f2 [c]"
    and fr2: "\<And>i. i < fc_base 0 + 4 \<or> 8 + fc_base 0 \<le> i \<Longrightarrow> f2 i = f1 i"
    using fc_append [OF l0 _ c] by auto
  let ?h = "sect_bytes (sect_info_for fc_md 0 NV_SECTOR_VALID_READY_CHECKCRC)"
  define f3 where "f3 = flash_write_page (fc_base 0) ?h f2"
  have er2: "erased (fc_base 0) (length ?h) f2" using er(1) fr2 by (simp add: erased_def)
  have w3: "flash_writeWithCheck (fc_base 0) ?h f2 = (True, f3)"
    unfolding f3_def by (rule writeWithCheck_erased [OF er2])
  have fr3: "f3 i = f2 i" if "i < fc_base 0 \<or> fc_base 0 + 4 \<le> i" for i
    using that by (simp add: f3_def flash_write_outside)
  have "sect_at (fc_base 0) f3 = sect_info_for fc_md 0 NV_SECTOR_VALID_READY_CHECKCRC"
    using flash_read_write_erased [OF er2] by (simp add: sect_at_iff f3_def)
  moreover have "erased (fc_base 1) 2 f3"
    using er(2) fr2 fr3 by (simp add: erased_def fc_base_eq)
  moreover have "fc_log 0 f3 [c]" by (rule fc_log_cong [OF w(2)]) (simp add: fr3)
  ultimately have "fc_rep 0 f3 [c]" using s0 by (simp add: fc_rep_def fc_hdr_def)
  moreover have "nv_same_outside fc_md f1 f3"
    using fr2 fr3 by (simp add: nv_same_outside_def fc_layout fc_base_eq)
  moreover have "nv_nwkFrameCountSaveToFlashHandler False e c f = (NV_SUCC, f3)"
    using w(1) w3 search_ok [OF l0]
    by (simp add: nv_nwkFrameCountSaveToFlashHandler_def Let_def fc_layout fc_payload blank_sector_read [OF b] f1_def [symmetric])
  ultimately show ?thesis using same_outside_trans [OF o1] by blast
qed

lemma fc_force_ok:
  assumes sec: "sec < MODULE_SECTOR_NUM" and h: "hdr_ok fc_md sec f" and c: "c \<noteq> 0xffffffff"
  shows "\<exists>f' sec'. nv_nwkFrameCountSaveToFlashHandler True sec c f = (NV_SUCC, f') \<and>
    fc_rep sec' f' [c] \<and> nv_same_outside fc_md f f'"
proof -
  let ?new = "other_sect sec"
  have new: "?new < MODULE_SECTOR_NUM" by (simp add: other_sect_def MODULE_SECTOR_NUM_def)
  define f2 where "f2 = flash_erase (fc_base 0 + ?new * FLASH_SECTOR_SIZE) f"
  note er = fc_erase [OF new, where f = f, folded f2_def]
  note l0 = fc_log_empty [OF er(2)]
  obtain f4 where w4: "flash_writeWithCheck (fc_base ?new + 4) (u32_bytes c) f2 = (True, f4)" "fc_log ?new f4 [c]"
    and fr4: "\<And>i. i < fc_base ?new + 4 \<or> 8 + fc_base ?new \<le> i \<Longrightarrow> f4 i = f2 i"
    using fc_append [OF l0 _ c] by auto
  have er4: "erased (fc_base ?new) 4 f4" using er(2) fr4 by (simp add: erased_def)
  have fr: "f4 i = f i" if "i < fc_base ?new \<or> fc_base ?new + 4096 \<le> i" for i
  proof -
    have "f4 i = f2 i" "f2 i = f i" using that by (intro fr4 er(3); linarith)+
    then show ?thesis by simp
  qed
  obtain f5 f6 f7 where w: "flash_writeWithCheck (fc_base ?new) (sect_bytes (sect_info_for fc_md ?new NV_SECTOR_VALID_READY_CHECKCRC)) f4 = (True, f5)"
    "flash_writeWithCheck (fc_base sec) (u16_bytes NV_SECTOR_INVALID) f5 = (True, f6)"
    "flash_writeWithCheck (fc_base ?new) (u16_bytes NV_SECTOR_VALID_CHECKCRC) f6 = (True, f7)"
    "fc_rep ?new f7 [c]" "nv_same_outside fc_md f f7"
    using fc_headers [OF sec h er4 w4(2) _ fr] by blast
  have o: "Suc sec mod MODULE_SECTOR_NUM = ?new" by (simp add: other_sect_def)
  have "nv_nwkFrameCountSaveToFlashHandler True sec c f = (NV_SUCC, f7)"
    using w4(1) w(1-3) er(1) search_ok [OF l0]
    by (simp add: nv_nwkFrameCountSaveToFlashHandler_def Let_def fc_layout fc_payload o f2_def [symmetric] FLASH_SECTOR_SIZE_def)
  with w(4,5) show ?thesis by blast
qed

subsection \<open>Reading the counter back\<close>

text \<open>The counter read, and what the flash holds afterwards: with more than two counters in the
  sector and a last step above the threshold, the counter before it plus the threshold is
  returned and moved to the other sector.\<close>

definition fc_load :: "u32 list \<Rightarrow> u32 option \<times> u32 list" where
  "fc_load ws = (if ws = [] then (None, [])
     else let c = last ws; p = last (butlast ws) in
       if length ws > 2 \<and> c - p > UPDATE_FRAMECOUNT_THRES
       then (Some (p + UPDATE_FRAMECOUNT_THRES), [p + UPDATE_FRAMECOUNT_THRES])
       else (Some c, ws))"

lemma fc_words_at:
  assumes "fc_log sec f ws" "ws \<noteq> []"
  shows "word_at (fc_base sec + 4 * length ws) f = last ws"
    "1 < length ws \<Longrightarrow> word_at (fc_base sec + 4 * length ws - 4) f = last (butlast ws)"
proof -
  have w: "word_at (fc_base sec + 4 * (j + 1)) f = ws ! j" if "j < length ws" for j
    using assms(1) that by (simp add: fc_log_def fc_word_def)
  show "word_at (fc_base sec + 4 * length ws) f = last ws"
    using w [of "length ws - 1"] assms(2) by (simp add: last_conv_nth)
  assume l: "1 < length ws"
  then have "fc_base sec + 4 * (length ws - 2 + 1) = fc_base sec + 4 * length ws - 4" by simp
  moreover have "last (butlast ws) = ws ! (length ws - 2)"
    using l by (subst last_conv_nth) (auto simp: nth_butlast numeral_2_eq_2 simp flip: length_0_conv)
  ultimately show "word_at (fc_base sec + 4 * length ws - 4) f = last (butlast ws)"
    using w [of "length ws - 2"] l by simp
qed

lemma fc_load_ok:
  assumes rep: "fc_rep sec f ws" and c: "fst (fc_load ws) \<noteq> Some 0xffffffff"
  shows "\<exists>f' sec'. nv_nwkFrameCountFromFlash f = (NV_SUCC, fst (fc_load ws), f') \<and>
    fc_rep sec' f' (snd (fc_load ws)) \<and> nv_same_outside fc_md f f'"
proof -
  have sec: "sec < MODULE_SECTOR_NUM" and ws: "ws \<noteq> []" using rep by (auto simp: fc_rep_def)
  obtain s f1 where s: "nv_sector_read fc_md MODULE_SECTOR_NUM f = (NV_SUCC, Some s, f1)" "unat (si_opSect s) = sec"
    "hdr_ok fc_md sec f1" "fc_log sec f1 ws" "nv_same_outside fc_md f f1"
    using fc_sector_read [OF rep] by blast
  note se = search_ok [OF s(4)]
  let ?a = "fc_base sec + 4 * (length ws + 1)"
  have th: "?a > FRAMECOUNT_PAYLOAD_START sec + 8 \<longleftrightarrow> length ws > 2" by (auto simp: fc_payload)
  have "?a - 4 = fc_base sec + 4 * length ws" "?a - 8 = fc_base sec + 4 * length ws - 4" by simp_all
  then have wd: "word_at (?a - 4) f1 = last ws" "1 < length ws \<Longrightarrow> word_at (?a - 8) f1 = last (butlast ws)"
    using fc_words_at [OF s(4) ws] by metis+
  let ?p = "last (butlast ws)"
  show ?thesis
  proof (cases "length ws > 2 \<and> last ws - ?p > UPDATE_FRAMECOUNT_THRES")
    case True
    then have l: "fc_load ws = (Some (?p + UPDATE_FRAMECOUNT_THRES), [?p + UPDATE_FRAMECOUNT_THRES])"
      using ws by (simp add: fc_load_def Let_def)
    then have "?p + UPDATE_FRAMECOUNT_THRES \<noteq> 0xffffffff" using c by simp
    from fc_force_ok [OF sec s(3) this] obtain f' sec' where
      w: "nv_nwkFrameCountSaveToFlashHandler True sec (?p + UPDATE_FRAMECOUNT_THRES) f1 = (NV_SUCC, f')"
      "fc_rep sec' f' [?p + UPDATE_FRAMECOUNT_THRES]" "nv_same_outside fc_md f1 f'" by blast
    have "nv_nwkFrameCountFromFlash f = (NV_SUCC, Some (?p + UPDATE_FRAMECOUNT_THRES), f')"
      unfolding nv_nwkFrameCountFromFlash_def Let_def s(1) prod.case nv_sts_t.case option.case s(2) se
      using ws True w(1) th wd by simp
    with w l same_outside_trans [OF s(5) w(3)] show ?thesis by auto
  next
    case False
    then have l: "fc_load ws = (Some (last ws), ws)" using ws by (auto simp: fc_load_def Let_def)
    have "nv_nwkFrameCountFromFlash f = (NV_SUCC, Some (last ws), f1)"
      unfolding nv_nwkFrameCountFromFlash_def Let_def s(1) prod.case nv_sts_t.case option.case s(2) se
      using ws False th wd by auto
    moreover have "fc_rep sec f1 ws" using s sec ws by (simp add: fc_rep_def fc_hdr_def)
    ultimately show ?thesis using l s(5) by auto
  qed
qed

subsection \<open>Sessions\<close>

datatype fc_op = Fc_save u32 | Fc_load | Fc_reset

fun fc_step :: "fc_op \<Rightarrow> flash \<Rightarrow> (u32 option \<times> flash) option" where
  "fc_step (Fc_save c) f = Some (None, snd (nv_nwkFrameCountSaveToFlash c f))"
| "fc_step Fc_load f = (case nv_nwkFrameCountFromFlash f of (ret, c, f') \<Rightarrow> Some (if ret = NV_SUCC then c else None, f'))"
| "fc_step Fc_reset f = Some (None, nv_resetModule fc_md f)"

fun fc_spec :: "fc_op \<Rightarrow> u32 list \<Rightarrow> u32 option \<times> u32 list" where
  "fc_spec (Fc_save c) ws = (None, fc_after ws c)"
| "fc_spec Fc_load ws = fc_load ws"
| "fc_spec Fc_reset ws = (None, [])"

fun fc_allowed :: "fc_op \<Rightarrow> u32 list \<Rightarrow> bool" where
  "fc_allowed (Fc_save c) ws \<longleftrightarrow> c \<noteq> 0xffffffff"
| "fc_allowed Fc_load ws \<longleftrightarrow> fst (fc_load ws) \<noteq> Some 0xffffffff"
| "fc_allowed Fc_reset ws \<longleftrightarrow> True"

definition fc_rel :: "flash \<Rightarrow> flash \<Rightarrow> u32 list \<Rightarrow> bool" where
  "fc_rel f0 f ws \<longleftrightarrow> nv_same_outside fc_md f0 f \<and>
     (nv_blank fc_md f \<and> ws = [] \<or> (\<exists>sec. fc_rep sec f ws))"

lemma fc_sim:
  assumes r: "fc_rel f0 f ws" and a: "fc_allowed x ws"
  shows "\<exists>f'. fc_step x f = Some (fst (fc_spec x ws), f') \<and> fc_rel f0 f' (snd (fc_spec x ws))"
proof -
  have out: "nv_same_outside fc_md f0 f" using r by (simp add: fc_rel_def)
  show ?thesis
  proof (cases x)
    case (Fc_save c)
    with a have c: "c \<noteq> 0xffffffff" by simp
    have "\<exists>f' sec'. nv_nwkFrameCountSaveToFlashHandler False 0xff c f = (NV_SUCC, f') \<and>
        fc_rep sec' f' (fc_after ws c) \<and> nv_same_outside fc_md f f'"
    proof (cases "nv_blank fc_md f \<and> ws = []")
      case True
      then have b: "nv_blank fc_md f" and w: "fc_after ws c = [c]" by (simp_all add: fc_after_def)
      from fc_blank_save [OF b c, of 255] show ?thesis unfolding w by blast
    next
      case False
      then obtain sec where "fc_rep sec f ws" using r by (auto simp: fc_rel_def)
      from fc_save_ok [OF this c] show ?thesis by blast
    qed
    then obtain f' sec' where w: "nv_nwkFrameCountSaveToFlashHandler False 0xff c f = (NV_SUCC, f')"
      "fc_rep sec' f' (fc_after ws c)" "nv_same_outside fc_md f f'" by blast
    then have "fc_rel f0 f' (fc_after ws c)" using same_outside_trans [OF out w(3)] by (auto simp: fc_rel_def)
    moreover have "fc_step x f = Some (None, f')"
      using w(1) Fc_save by (simp add: nv_nwkFrameCountSaveToFlash_def Let_def)
    ultimately show ?thesis using Fc_save by simp
  next
    case Fc_load
    show ?thesis
    proof (cases "nv_blank fc_md f \<and> ws = []")
      case True
      then show ?thesis using Fc_load r
        by (simp add: nv_nwkFrameCountFromFlash_def Let_def blank_sector_read fc_load_def)
    next
      case False
      then obtain sec where rep: "fc_rep sec f ws" using r by (auto simp: fc_rel_def)
      obtain f' sec' where w: "nv_nwkFrameCountFromFlash f = (NV_SUCC, fst (fc_load ws), f')"
        "fc_rep sec' f' (snd (fc_load ws))" "nv_same_outside fc_md f f'"
        using fc_load_ok [OF rep] a Fc_load by auto
      then have "fc_rel f0 f' (snd (fc_load ws))" using same_outside_trans [OF out w(3)] by (auto simp: fc_rel_def)
      with w(1) Fc_load show ?thesis by simp
    qed
  next
    case Fc_reset
    have "lay_ok fc_md 0" by (rule fc_lay) (simp add: MODULE_SECTOR_NUM_def)
    note ro = reset_ok [OF this, of f]
    then show ?thesis using Fc_reset same_outside_trans [OF out ro(2)] by (simp add: fc_rel_def)
  qed
qed

interpretation fcs: forward_sim fc_step fc_spec fc_allowed "fc_rel f0"
  for f0
  by unfold_locales (rule fc_sim)

text \<open>C27. The store of the frame counter implements a list of counters: a save appends, moving the
  last counter to the other sector first when the sector is full, a load gives the last counter,
  or the one before it plus the threshold when the last step was larger. No session of saves,
  loads and resets fails, and no byte outside the module changes.\<close>

theorem fc_refines:
  assumes "fc_rel f0 f ws" "spec_ok fc_spec fc_allowed ops ws"
  shows "\<exists>f'. run_ops fc_step ops f = Some (fst (spec_run fc_spec ops ws), f') \<and>
    fc_rel f0 f' (snd (spec_run fc_spec ops ws))"
  using assms by (rule fcs.run_sim)

lemma fc_blank_rel: "fc_rel (\<lambda>_. 0xFF) (\<lambda>_. 0xFF) []"
  using fc_lay [of 0] by (simp add: fc_rel_def nv_blank_def erased_def nv_same_outside_def MODULE_SECTOR_NUM_def)

lemmas fc_eval = fc_after_def fc_load_def Let_def UPDATE_FRAMECOUNT_THRES_def

lemma fc_refines_witness:
  "\<exists>f'. run_ops fc_step [Fc_load, Fc_save 1024, Fc_load, Fc_save 2048, Fc_save 9000, Fc_load, Fc_load, Fc_reset, Fc_load] (\<lambda>_. 0xFF)
    = Some ([None, None, Some 1024, None, None, Some 3072, Some 3072, None, None], f')"
proof -
  let ?ops = "[Fc_load, Fc_save 1024, Fc_load, Fc_save 2048, Fc_save 9000, Fc_load, Fc_load, Fc_reset, Fc_load]"
  have "spec_ok fc_spec fc_allowed ?ops []" by (simp add: fc_eval)
  from fc_refines [OF fc_blank_rel this] show ?thesis by (auto simp: fc_eval)
qed

subsection \<open>The counter never goes back\<close>

definition small_step :: "u32 \<Rightarrow> u32 \<Rightarrow> bool" where
  "small_step a b \<longleftrightarrow> b - a \<le> UPDATE_FRAMECOUNT_THRES"

lemma fc_after_steps:
  assumes "successively small_step ws" "ws \<noteq> [] \<longrightarrow> small_step (last ws) c"
  shows "successively small_step (fc_after ws c)" "last (fc_after ws c) = c" "fc_after ws c \<noteq> []"
  using assms by (auto simp: fc_after_def successively_append_iff)

lemma fc_saves:
  "successively small_step ws \<Longrightarrow> ws \<noteq> [] \<longrightarrow> cs \<noteq> [] \<longrightarrow> small_step (last ws) (hd cs) \<Longrightarrow>
   successively small_step cs \<Longrightarrow> 0xffffffff \<notin> set cs \<Longrightarrow>
   \<exists>ws'. snd (spec_run fc_spec (map Fc_save cs) ws) = ws' \<and> spec_ok fc_spec fc_allowed (map Fc_save cs) ws \<and>
     successively small_step ws' \<and> (cs \<noteq> [] \<longrightarrow> ws' \<noteq> [] \<and> last ws' = last cs)"
proof (induction cs arbitrary: ws)
  case (Cons c cs)
  have c: "ws \<noteq> [] \<longrightarrow> small_step (last ws) c" using Cons.prems(2) by simp
  note fa = fc_after_steps [OF Cons.prems(1) c]
  have "cs \<noteq> [] \<longrightarrow> small_step c (hd cs)" using Cons.prems(3) by (cases cs) auto
  moreover have "successively small_step cs" using Cons.prems(3) by (cases cs) auto
  ultimately show ?case
    using Cons.IH [OF fa(1)] fa Cons.prems(4) by (cases cs) (auto simp: Let_def split_beta)
qed auto

lemma fc_load_steps:
  assumes "successively small_step ws" "ws \<noteq> []"
  shows "fst (fc_load ws) = Some (last ws)"
proof (cases "length ws > 2")
  case True
  define n where "n = length ws - 2"
  have n: "Suc n < length ws" "ws \<noteq> []" using True by (auto simp: n_def)
  have "small_step (ws ! n) (ws ! Suc n)"
    using assms(1) n(1) by (simp add: successively_conv_nth)
  moreover have "last ws = ws ! Suc n" "last (butlast ws) = ws ! n"
    using True by (auto simp: last_conv_nth n_def nth_butlast numeral_2_eq_2 Suc_diff_Suc simp flip: length_0_conv)
  ultimately show ?thesis using n by (auto simp: fc_load_def Let_def small_step_def)
qed (use assms in \<open>simp add: fc_load_def Let_def\<close>)

text \<open>C7. A counter that is saved often enough, never more than the threshold after the one before,
  is not lost: whatever number of saves the module has seen, and however often it changed its
  sector, a load returns the counter of the last save.\<close>

theorem fc_load_last_save:
  assumes "fc_rel f0 f []" "cs \<noteq> []" "0xffffffff \<notin> set cs" "successively small_step cs"
  shows "\<exists>rs f'. run_ops fc_step (map Fc_save cs @ [Fc_load]) f = Some (rs @ [Some (last cs)], f')"
proof -
  let ?ws = "snd (spec_run fc_spec (map Fc_save cs) [])"
  have w: "spec_ok fc_spec fc_allowed (map Fc_save cs) []" "successively small_step ?ws" "?ws \<noteq> []" "last ?ws = last cs"
    using fc_saves [of "[]" cs] assms(2-4) by auto
  have ld: "fst (fc_load ?ws) = Some (last cs)" using fc_load_steps [OF w(2,3)] w(4) by simp
  moreover have "last cs \<noteq> 0xffffffff" using assms(2,3) last_in_set by metis
  ultimately have "spec_ok fc_spec fc_allowed (map Fc_save cs @ [Fc_load]) []"
    using w(1) by (simp add: spec_ok_append)
  from fcs.run_sim [OF assms(1) this] obtain f' where
    "run_ops fc_step (map Fc_save cs @ [Fc_load]) f = Some (fst (spec_run fc_spec (map Fc_save cs @ [Fc_load]) []), f')"
    by blast
  moreover have "fst (spec_run fc_spec (map Fc_save cs @ [Fc_load]) []) = fst (spec_run fc_spec (map Fc_save cs) []) @ [Some (last cs)]"
    using ld by (simp add: spec_run_append Let_def split_beta)
  ultimately show ?thesis by metis
qed

lemma fc_load_last_save_witness:
  "\<exists>rs f'. run_ops fc_step (map Fc_save [5, 1029, 1030, 2000] @ [Fc_load]) (\<lambda>_. 0xFF) = Some (rs @ [Some (last [5, 1029, 1030, 2000])], f')"
  by (rule fc_load_last_save [OF fc_blank_rel]) (simp_all add: small_step_def UPDATE_FRAMECOUNT_THRES_def)

subsection \<open>The retry after a failed write\<close>

text \<open>\<^verbatim>\<open>nv_nwkFrameCountSaveToFlash\<close> retries a failed write with a forced change of sector, and
  hands on the sector number it had set to 0xFF: the first call never stores the sector it used.
  So the retry always erases sector 0, also when the write that failed was in sector 1 or when
  sector 0 holds the counters in use, leaves sector 1 as it is, and clears bits of the two bytes
  at address 0x187000, which is no address of the module.\<close>

theorem fc_retry_wrong_sector:
  assumes "nv_nwkFrameCountSaveToFlashHandler False 0xff c f = (NV_CHECK_SUM_ERROR, f1)" "c \<noteq> 0xffffffff"
  shows "\<exists>f'. nv_nwkFrameCountSaveToFlash c f = (NV_SUCC, f') \<and> fc_log 0 f' [c] \<and>
    (\<forall>i. fc_base 1 \<le> i \<and> i < fc_base 1 + 4096 \<longrightarrow> f' i = f1 i) \<and>
    f' 0x187000 = f1 0x187000 AND 0x50 \<and> f' 0x187001 = f1 0x187001 AND 0x50 \<and>
    \<not> (0x187000 < MODULE_SECT_END NV_MODULE_NWK_FRAME_COUNT 1)"
proof -
  let ?n = "fc_base 0" and ?o = "0x187000 :: nat"
  define f2 where "f2 = flash_erase (fc_base 0 + 0 * FLASH_SECTOR_SIZE) f1"
  have s0: "0 < MODULE_SECTOR_NUM" by (simp add: MODULE_SECTOR_NUM_def)
  note er = fc_erase [OF s0, where f = f1, folded f2_def]
  note l0 = fc_log_empty [OF er(2)]
  obtain f3 where w3: "flash_writeWithCheck (?n + 4) (u32_bytes c) f2 = (True, f3)" "fc_log 0 f3 [c]"
    and fr3: "\<And>i. i < ?n + 4 \<or> 8 + ?n \<le> i \<Longrightarrow> f3 i = f2 i"
    using fc_append [OF l0 _ assms(2)] by auto
  let ?h = "sect_bytes (sect_info_for fc_md 0 NV_SECTOR_VALID_READY_CHECKCRC)"
  define f4 where "f4 = flash_write_page ?n ?h f3"
  have er4: "erased ?n (length ?h) f3" using er(2) fr3 by (simp add: erased_def)
  have w4: "flash_writeWithCheck ?n ?h f3 = (True, f4)" unfolding f4_def by (rule writeWithCheck_erased [OF er4])
  have fr4: "f4 i = f1 i" if "?n + 4096 \<le> i" for i
    using that fr3 [of i] er(3) [of i] by (simp add: f4_def flash_write_outside)
  have l4: "fc_log 0 f4 [c]" by (rule fc_log_cong [OF w3(2)]) (simp add: f4_def flash_write_outside)
  define f5 where "f5 = flash_write_page ?o (u16_bytes NV_SECTOR_INVALID) f4"
  define f6 where "f6 = (if fst (flash_writeWithCheck ?o (u16_bytes NV_SECTOR_INVALID) f4)
     then flash_write_page ?n (u16_bytes NV_SECTOR_VALID_CHECKCRC) f5 else f5)"
  have o: "MODULE_SECT_START fc_md 0xff = ?o" by (simp add: fc_layout fc_base_eq)
  have m: "(0xff + 1) mod MODULE_SECTOR_NUM = 0" by (simp add: MODULE_SECTOR_NUM_def)
  have "snd (nv_nwkFrameCountSaveToFlashHandler True 0xff c f1) = f6"
  proof -
    have e: "erase_sectors (NV_SECTOR_SIZE fc_md div FLASH_SECTOR_SIZE) (MODULES_START_ADDR fc_md + 0 * NV_SECTOR_SIZE fc_md) f1 = f2"
      by (rule er(1))
    show ?thesis
      unfolding nv_nwkFrameCountSaveToFlashHandler_def Let_def if_True m prod.case e search_ok [OF l0] o
      using w3(1) w4 by (auto simp: fc_layout fc_payload f6_def f5_def flash_writeWithCheck_def Let_def)
  qed
  then have s: "nv_nwkFrameCountSaveToFlash c f = (NV_SUCC, f6)"
    using assms(1) by (simp add: nv_nwkFrameCountSaveToFlash_def Let_def)
  have f6: "f6 i = f5 i" if "?n + 4 \<le> i" for i
    using that by (simp add: f6_def flash_write_outside)
  have "fc_log 0 f6 [c]"
    by (rule fc_log_cong [OF l4]) (use f6 in \<open>simp add: f5_def flash_write_outside fc_base_eq\<close>)
  moreover have "f6 i = f1 i" if "fc_base 1 \<le> i \<and> i < fc_base 1 + 4096" for i
    using that f6 [of i] fr4 [of i] by (simp add: f5_def flash_write_outside fc_base_eq)
  moreover have "f6 (?o + j) = f1 (?o + j) AND 0x50" if "j < 2" for j
  proof -
    have "u16_bytes NV_SECTOR_INVALID = [0x50, 0x50]" by code_simp
    then have "u16_bytes NV_SECTOR_INVALID ! j = 0x50" using that by (auto simp: less_2_cases_iff)
    then show ?thesis
      using that f6 [of "?o + j"] fr4 [of "?o + j"] by (simp add: f5_def flash_write_page_def fc_base_eq)
  qed
  from this [of 0] this [of 1] have "f6 0x187000 = f1 0x187000 AND 0x50" "f6 0x187001 = f1 0x187001 AND 0x50" by simp_all
  ultimately show ?thesis using s by (auto simp: fc_layout fc_base_eq)
qed

text \<open>A sector 1 with a valid header and no counter yet: the header is written again, with bits
  set that are already cleared.\<close>

definition ex_stuck :: flash where
  "ex_stuck = flash_write_page (fc_base 1) (sect_bytes (sect_info_for fc_md 1 NV_SECTOR_VALID_CHECKCRC)) (\<lambda>_. 0xFF)"

lemma ex_stuck_fails: "\<exists>f1. nv_nwkFrameCountSaveToFlashHandler False 0xff 7 ex_stuck = (NV_CHECK_SUM_ERROR, f1)"
proof -
  let ?h = "sect_bytes (sect_info_for fc_md 1 NV_SECTOR_VALID_CHECKCRC)"
  let ?r = "sect_bytes (sect_info_for fc_md 1 NV_SECTOR_VALID_READY_CHECKCRC)"
  have s1: "1 < MODULE_SECTOR_NUM" by (simp add: MODULE_SECTOR_NUM_def)
  have "flash_read (fc_base 1) 4 ex_stuck = ?h"
    unfolding ex_stuck_def using flash_read_write_erased [of "fc_base 1" ?h "\<lambda>_. 0xFF"] by (simp add: erased_def)
  moreover have "flash_read (fc_base 0) 2 ex_stuck = u16_bytes NV_SECTOR_IDLE"
  proof -
    have "flash_read (fc_base 0) 2 ex_stuck = replicate 2 0xFF"
      by (intro nth_equalityI) (auto simp: ex_stuck_def flash_write_outside fc_base_eq)
    also have "\<dots> = u16_bytes NV_SECTOR_IDLE" by code_simp
    finally show ?thesis .
  qed
  ultimately have h: "hdr_ok fc_md 1 ex_stuck"
    by (simp add: hdr_ok_def sect_at_iff used_flag_at fc_layout)
  obtain s where s: "nv_sector_read fc_md MODULE_SECTOR_NUM ex_stuck = (NV_SUCC, Some s, ex_stuck)" "unat (si_opSect s) = 1"
    using sector_read_ok [OF fc_lay [OF s1] h] by blast
  have l: "fc_log 1 ex_stuck []"
    by (simp add: fc_log_def erased_def ex_stuck_def flash_write_outside)
  obtain f2 where w: "flash_writeWithCheck (fc_base 1 + 4) (u32_bytes 7) ex_stuck = (True, f2)"
    and fr: "\<And>i. i < fc_base 1 + 4 \<or> 8 + fc_base 1 \<le> i \<Longrightarrow> f2 i = ex_stuck i"
    using fc_append [OF l, of 7] by auto
  have b: "?h ! 0 = 0x7A" "?r ! 0 = 0xFA" by code_simp+
  have "f2 (fc_base 1) = 0x7A" using fr [of "fc_base 1"] b(1) by (simp add: ex_stuck_def flash_write_page_def)
  then have "flash_read (fc_base 1) 4 (flash_write_page (fc_base 1) ?r f2) ! 0 \<noteq> ?r ! 0"
    using b(2) by (simp add: flash_write_page_def)
  then have "flash_read (fc_base 1) 4 (flash_write_page (fc_base 1) ?r f2) \<noteq> ?r" by metis
  then have "flash_writeWithCheck (fc_base 1) ?r f2 = (False, flash_write_page (fc_base 1) ?r f2)"
    by (simp add: writeWithCheck_iff)
  then show ?thesis
    using s w search_ok [OF l]
    by (simp add: nv_nwkFrameCountSaveToFlashHandler_def Let_def fc_layout fc_payload)
qed

lemma fc_retry_wrong_sector_witness:
  "\<exists>f'. nv_nwkFrameCountSaveToFlash 7 ex_stuck = (NV_SUCC, f') \<and> fc_log 0 f' [7]"
proof -
  obtain f1 where "nv_nwkFrameCountSaveToFlashHandler False 0xff 7 ex_stuck = (NV_CHECK_SUM_ERROR, f1)"
    using ex_stuck_fails by blast
  from fc_retry_wrong_sector [OF this] show ?thesis by auto
qed

end
