(* ===== verification/Aps_Group.thy ===== *)
theory Aps_Group
  imports Nv_Store
begin

text \<open>
  The APS group table: \<^verbatim>\<open>zigbee/aps/aps_group.c\<close> and its table in \<^verbatim>\<open>zigbee/common/zb_config.c\<close>.

  An entry holds a group address and the endpoints that belong to the group; free places hold
  the invalid address and the invalid endpoint. \<^verbatim>\<open>APS_GROUP_TABLE_SIZE\<close> is the length of the
  table. A pointer into the table is its index. A result is \<open>None\<close> when the code reads or writes
  outside the table (or outside the endpoint array of an entry).

  The specification is a list of groups with their endpoints, in the order they were added.
\<close>

definition APS_EP_NUM_IN_GROUP_TBL :: nat where "APS_EP_NUM_IN_GROUP_TBL = 8"
definition APS_GROUP_NAME_LEN :: nat where "APS_GROUP_NAME_LEN = 16"
definition APS_GROUP_EP_INVALID :: u8 where "APS_GROUP_EP_INVALID = 0xFF"
definition APS_INVALID_GRP_ADDR :: u16 where "APS_INVALID_GRP_ADDR = 0xFFFF"

definition APS_STATUS_SUCCESS :: u8 where "APS_STATUS_SUCCESS = 0x00"
definition APS_STATUS_INVALID_GROUP :: u8 where "APS_STATUS_INVALID_GROUP = 0xA5"
definition APS_STATUS_INVALID_PARAMETER :: u8 where "APS_STATUS_INVALID_PARAMETER = 0xA6"
definition APS_STATUS_TABLE_FULL :: u8 where "APS_STATUS_TABLE_FULL = 0xAE"
definition APS_STATUS_DUPLICATE_ENTRY :: u8 where "APS_STATUS_DUPLICATE_ENTRY = 0xB8"

lemmas aps_status_defs = APS_STATUS_SUCCESS_def APS_STATUS_INVALID_GROUP_def
  APS_STATUS_INVALID_PARAMETER_def APS_STATUS_TABLE_FULL_def APS_STATUS_DUPLICATE_ENTRY_def

lemmas aps_inv_defs = APS_GROUP_EP_INVALID_def APS_INVALID_GRP_ADDR_def

record aps_group_tbl_ent_t =
  group_addr :: u16
  g_endpoints :: bytes
  n_endpoints :: u8
  group_name :: bytes
  g_rsv :: u8

text \<open>The global variables; \<open>T_saves\<close> counts the tasks \<^verbatim>\<open>aps_groupTblSave2Flash\<close> posted.\<close>

record aps_groups =
  aps_group_tbl :: "aps_group_tbl_ent_t list"
  aps_group_entry_num :: u8
  T_saves :: nat

abbreviation APS_GROUP_TABLE_SIZE :: "aps_groups \<Rightarrow> nat" where
  "APS_GROUP_TABLE_SIZE s \<equiv> length (aps_group_tbl s)"

subsection \<open>Searching\<close>

text \<open>\<^verbatim>\<open>aps_group_search_by_addr\<close> and \<^verbatim>\<open>aps_group_ep_find\<close> are the same search over the keys of a
  table: \<open>n\<close> used keys are expected, free places hold \<open>hole\<close> and are skipped without being counted,
  and looking for \<open>hole\<close> means looking for a free place. The loop gives the place it returned from,
  or the \<^verbatim>\<open>index\<close> at which it ended.\<close>

function key_loop :: "'k \<Rightarrow> 'k list \<Rightarrow> nat \<Rightarrow> 'k \<Rightarrow> nat \<Rightarrow> nat \<Rightarrow> (nat + nat) option" where
  "key_loop hole ks n k i index =
     (if i < n then
        if index < length ks then
          if ks ! index = hole then
            if k = hole then Some (Inl index) else key_loop hole ks n k i (index + 1)
          else if ks ! index = k then Some (Inl index)
          else key_loop hole ks n k (i + 1) (index + 1)
        else None
      else Some (Inr index))"
  by pat_completeness auto
termination by (relation "measure (\<lambda>(hole, ks, n, k, i, index). length ks - index)") auto

declare key_loop.simps [simp del]

definition key_search :: "'k \<Rightarrow> 'k list \<Rightarrow> nat \<Rightarrow> 'k \<Rightarrow> nat option option" where
  "key_search hole ks n k = (case key_loop hole ks n k 0 0 of
     None \<Rightarrow> None
   | Some (Inl i) \<Rightarrow> Some (Some i)
   | Some (Inr index) \<Rightarrow> Some (if k = hole
       then map_option (\<lambda>j. index + j) (find_index (\<lambda>x. x = hole) (drop index ks)) else None))"

definition aps_group_search_by_addr :: "u16 \<Rightarrow> aps_groups \<Rightarrow> nat option option" where
  "aps_group_search_by_addr addr s = key_search APS_INVALID_GRP_ADDR
     (map group_addr (aps_group_tbl s)) (unat (aps_group_entry_num s)) addr"

definition aps_group_ep_find :: "aps_group_tbl_ent_t \<Rightarrow> u8 \<Rightarrow> nat option option" where
  "aps_group_ep_find entry ep =
     key_search APS_GROUP_EP_INVALID (g_endpoints entry) (unat (n_endpoints entry)) ep"

definition aps_group_ep_info_get :: "u16 \<Rightarrow> aps_groups \<Rightarrow> (u8 \<times> bytes) option option" where
  "aps_group_ep_info_get addr s = map_option (map_option (\<lambda>i.
     let ent = aps_group_tbl s ! i in (n_endpoints ent, g_endpoints ent))) (aps_group_search_by_addr addr s)"

definition aps_group_search :: "u16 \<Rightarrow> u8 \<Rightarrow> aps_groups \<Rightarrow> nat option option" where
  "aps_group_search addr ep s = (case aps_group_search_by_addr addr s of
     None \<Rightarrow> None
   | Some None \<Rightarrow> Some None
   | Some (Some i) \<Rightarrow> (case aps_group_ep_find (aps_group_tbl s ! i) ep of
        None \<Rightarrow> None
      | Some None \<Rightarrow> Some None
      | Some (Some j) \<Rightarrow> Some (Some i)))"

subsection \<open>Changing the table\<close>

definition entry_upd :: "nat \<Rightarrow> (aps_group_tbl_ent_t \<Rightarrow> aps_group_tbl_ent_t) \<Rightarrow> aps_groups \<Rightarrow> aps_groups" where
  "entry_upd i g s = s\<lparr>aps_group_tbl := (aps_group_tbl s)[i := g (aps_group_tbl s ! i)]\<rparr>"

definition post_save :: "aps_groups \<Rightarrow> aps_groups" where
  "post_save s = s\<lparr>T_saves := T_saves s + 1\<rparr>"

definition free_entry :: "aps_group_tbl_ent_t \<Rightarrow> aps_group_tbl_ent_t" where
  "free_entry e = e\<lparr>group_addr := APS_INVALID_GRP_ADDR, n_endpoints := 0,
     g_endpoints := replicate APS_EP_NUM_IN_GROUP_TBL APS_GROUP_EP_INVALID\<rparr>"

text \<open>\<^verbatim>\<open>num - 1\<close> is an \<^verbatim>\<open>int\<close> in C: it is -1 for an empty table. \<^verbatim>\<open>memcpy\<close> of this code base copies
  overlapping ranges correctly (\<^verbatim>\<open>bcopy_\<close> in \<^verbatim>\<open>proj/common/string.c\<close>).\<close>

definition aps_groupEntryDel :: "nat \<Rightarrow> aps_groups \<Rightarrow> aps_groups option" where
  "aps_groupEntryDel sn s =
     (let num = unat (aps_group_entry_num s);
          s1 = entry_upd sn (\<lambda>e. e\<lparr>group_addr := APS_INVALID_GRP_ADDR\<rparr>) s;
          s2 = s1\<lparr>aps_group_entry_num := aps_group_entry_num s1 - 1\<rparr>;
          t = aps_group_tbl s2;
          s3 = (if int sn < int num - 1
                then s2\<lparr>aps_group_tbl := take sn t @ take (num - 1 - sn) (drop (sn + 1) t) @ drop (num - 1) t\<rparr>
                else s2) in
      if num = 0 \<or> APS_GROUP_TABLE_SIZE s < num then None
      else Some (entry_upd (num - 1) free_entry s3))"

definition ep_valid :: "u8 \<Rightarrow> bool" where
  "ep_valid ep \<longleftrightarrow> \<not> (ep < 0x01 \<or> ep > 0xFE)"

definition aps_me_group_add_req :: "u16 \<Rightarrow> u8 \<Rightarrow> aps_groups \<Rightarrow> (u8 \<times> aps_groups) option" where
  "aps_me_group_add_req addr ep s =
     (if \<not> ep_valid ep then Some (APS_STATUS_INVALID_PARAMETER, s)
      else case aps_group_search_by_addr addr s of
        None \<Rightarrow> None
      | Some (Some i) \<Rightarrow>
          (case aps_group_ep_find (aps_group_tbl s ! i) ep of
             None \<Rightarrow> None
           | Some (Some j) \<Rightarrow> Some (APS_STATUS_DUPLICATE_ENTRY, s)
           | Some None \<Rightarrow>
               (case aps_group_ep_find (aps_group_tbl s ! i) APS_GROUP_EP_INVALID of
                  None \<Rightarrow> None
                | Some None \<Rightarrow> Some (APS_STATUS_TABLE_FULL, s)
                | Some (Some j) \<Rightarrow> Some (APS_STATUS_SUCCESS, post_save
                    (entry_upd i (\<lambda>e. e\<lparr>g_endpoints := (g_endpoints e)[j := ep],
                                        n_endpoints := n_endpoints e + 1\<rparr>) s))))
      | Some None \<Rightarrow>
          (case aps_group_search_by_addr APS_INVALID_GRP_ADDR s of
             None \<Rightarrow> None
           | Some None \<Rightarrow> Some (APS_STATUS_TABLE_FULL, s)
           | Some (Some i) \<Rightarrow>
               (let s1 = entry_upd i (\<lambda>e. e\<lparr>
                     g_endpoints := (replicate APS_EP_NUM_IN_GROUP_TBL APS_GROUP_EP_INVALID)[0 := ep],
                     group_name := replicate APS_GROUP_NAME_LEN 0,
                     group_addr := addr, n_endpoints := 1\<rparr>) s in
                Some (APS_STATUS_SUCCESS,
                      post_save (s1\<lparr>aps_group_entry_num := aps_group_entry_num s1 + 1\<rparr>)))))"

definition pack_eps :: "bytes \<Rightarrow> bytes" where
  "pack_eps es = (let v = filter (\<lambda>e. e \<noteq> APS_GROUP_EP_INVALID) (take APS_EP_NUM_IN_GROUP_TBL es) in
     v @ replicate (APS_EP_NUM_IN_GROUP_TBL - length v) APS_GROUP_EP_INVALID)"

text \<open>Taking the endpoint at place \<open>j\<close> out of the entry at place \<open>i\<close>, as both delete requests do;
  the flag says that the whole entry went.\<close>

definition take_ep_out :: "nat \<Rightarrow> nat \<Rightarrow> aps_groups \<Rightarrow> (bool \<times> aps_groups) option" where
  "take_ep_out i j s =
     (let s1 = entry_upd i (\<lambda>e. e\<lparr>g_endpoints := (g_endpoints e)[j := APS_GROUP_EP_INVALID],
                                  n_endpoints := n_endpoints e - 1\<rparr>) s in
      if n_endpoints (aps_group_tbl s1 ! i) = 0
      then map_option (\<lambda>t. (True, t)) (aps_groupEntryDel i s1)
      else Some (False, entry_upd i (\<lambda>e. e\<lparr>g_endpoints := pack_eps (g_endpoints e)\<rparr>) s1))"

definition aps_me_group_delete_req :: "u16 \<Rightarrow> u8 \<Rightarrow> aps_groups \<Rightarrow> (u8 \<times> aps_groups) option" where
  "aps_me_group_delete_req addr ep s =
     (if \<not> ep_valid ep then Some (APS_STATUS_INVALID_PARAMETER, s)
      else case aps_group_search_by_addr addr s of
        None \<Rightarrow> None
      | Some None \<Rightarrow> Some (APS_STATUS_INVALID_GROUP, s)
      | Some (Some i) \<Rightarrow>
          (case aps_group_ep_find (aps_group_tbl s ! i) ep of
             None \<Rightarrow> None
           | Some None \<Rightarrow> Some (APS_STATUS_INVALID_GROUP, s)
           | Some (Some j) \<Rightarrow>
               map_option (\<lambda>(_, t). (APS_STATUS_SUCCESS, post_save t)) (take_ep_out i j s)))"

definition aps_groupTblReset :: "aps_groups \<Rightarrow> aps_groups" where
  "aps_groupTblReset s = s\<lparr>aps_group_entry_num := 0, aps_group_tbl := map free_entry (aps_group_tbl s)\<rparr>"

lemma length_entry_upd [simp]: "length (aps_group_tbl (entry_upd i g s)) = length (aps_group_tbl s)"
  by (simp add: entry_upd_def)

lemma del_guard: "int sn < int num - 1 \<longleftrightarrow> sn + 1 < num"
  by linarith

lemma length_groupEntryDel:
  "aps_groupEntryDel sn s = Some t \<Longrightarrow> length (aps_group_tbl t) = length (aps_group_tbl s)"
  unfolding aps_groupEntryDel_def Let_def del_guard by (auto simp: entry_upd_def split: if_splits)

lemma length_take_ep_out:
  "take_ep_out i j s = Some (d, t) \<Longrightarrow> length (aps_group_tbl t) = length (aps_group_tbl s)"
  by (auto simp: take_ep_out_def Let_def dest!: length_groupEntryDel split: if_splits)

text \<open>One turn of the loop of \<^verbatim>\<open>aps_me_group_delete_all_req\<close> at a used place.\<close>

definition delete_at :: "u8 \<Rightarrow> nat \<Rightarrow> aps_groups \<Rightarrow> (bool \<times> aps_groups) option" where
  "delete_at ep index s = (case aps_group_ep_find (aps_group_tbl s ! index) ep of
     None \<Rightarrow> None
   | Some None \<Rightarrow> Some (False, s)
   | Some (Some j) \<Rightarrow> take_ep_out index j s)"

lemma length_delete_at:
  "delete_at ep index s = Some (d, t) \<Longrightarrow> length (aps_group_tbl t) = length (aps_group_tbl s)"
  by (auto simp: delete_at_def dest: length_take_ep_out split: option.splits)

function delete_all_loop :: "u8 \<Rightarrow> nat \<Rightarrow> nat \<Rightarrow> nat \<Rightarrow> aps_groups \<Rightarrow> aps_groups option" where
  "delete_all_loop ep group_num i index s =
     (if i < group_num \<and> index < APS_GROUP_TABLE_SIZE s then
        if group_addr (aps_group_tbl s ! index) = APS_INVALID_GRP_ADDR
        then delete_all_loop ep group_num i (index + 1) s
        else (case delete_at ep index s of
                None \<Rightarrow> None
              | Some (deleted, t) \<Rightarrow>
                  delete_all_loop ep group_num (i + 1) (if deleted then index else index + 1) t)
      else Some s)"
  by pat_completeness auto
termination
  by (relation "measure (\<lambda>(ep, n, i, index, s). (n - i) + (APS_GROUP_TABLE_SIZE s - index))")
     (auto dest!: length_delete_at)

declare delete_all_loop.simps [simp del]

definition aps_me_group_delete_all_req :: "u8 \<Rightarrow> aps_groups \<Rightarrow> (u8 \<times> aps_groups) option" where
  "aps_me_group_delete_all_req ep s =
     (if \<not> ep_valid ep then Some (APS_STATUS_INVALID_PARAMETER, s)
      else map_option (\<lambda>t. (APS_STATUS_SUCCESS, post_save t))
             (delete_all_loop ep (unat (aps_group_entry_num s)) 0 0 s))"

definition aps_group_entry_num_get :: "aps_groups \<Rightarrow> u8" where
  "aps_group_entry_num_get s = aps_group_entry_num s"

definition aps_group_list_get :: "aps_groups \<Rightarrow> u16 list" where
  "aps_group_list_get s = filter (\<lambda>a. a \<noteq> APS_INVALID_GRP_ADDR) (map group_addr (aps_group_tbl s))"

definition aps_init_group_num_set :: "aps_groups \<Rightarrow> aps_groups" where
  "aps_init_group_num_set s = s\<lparr>aps_group_entry_num :=
     aps_group_entry_num s + of_nat (length (aps_group_list_get s))\<rparr>"

subsection \<open>The search over a packed table\<close>

lemma find_index_append:
  "find_index P (xs @ ys) = (case find_index P xs of Some i \<Rightarrow> Some i
     | None \<Rightarrow> map_option (\<lambda>j. length xs + j) (find_index P ys))"
  by (cases "find_index P ys"; induction xs) (auto split: option.splits)

lemma find_index_map: "find_index P (map f xs) = find_index (\<lambda>x. P (f x)) xs"
  by (induction xs) auto

lemma find_index_replicate: "find_index (\<lambda>x. x = k) (replicate m k) = (if m = 0 then None else Some 0)"
  by (cases m) auto

lemma key_loop_packed:
  assumes "hole \<notin> set vs" "i \<le> length vs"
  shows "key_loop hole (vs @ rs) (length vs) k i i = Some (case find_index (\<lambda>x. x = k) (drop i vs) of
     Some j \<Rightarrow> Inl (i + j) | None \<Rightarrow> Inr (length vs))"
  using assms(2)
proof (induction "length vs - i" arbitrary: i)
  case 0
  then show ?case by (simp add: key_loop.simps)
next
  case (Suc m)
  then have i: "i < length vs" by simp
  then have d: "drop i vs = vs ! i # drop (i + 1) vs" by (simp add: Cons_nth_drop_Suc)
  have h: "vs ! i \<noteq> hole" using i assms(1) nth_mem by fastforce
  have n: "(vs @ rs) ! i = vs ! i" using i by (simp add: nth_append)
  have ih: "key_loop hole (vs @ rs) (length vs) k (i + 1) (i + 1) = Some (case find_index (\<lambda>x. x = k) (drop (i + 1) vs) of
     Some j \<Rightarrow> Inl (i + 1 + j) | None \<Rightarrow> Inr (length vs))"
    using Suc i by (intro Suc.hyps(1)) auto
  show ?case
    using i h n ih unfolding key_loop.simps [of hole "vs @ rs" "length vs" k i i] d by (auto split: option.splits)
qed

lemma key_search_packed:
  assumes "hole \<notin> set vs"
  shows "key_search hole (vs @ replicate m hole) (length vs) k = Some (
     if k = hole then (if m = 0 then None else Some (length vs)) else find_index (\<lambda>x. x = k) vs)"
proof -
  have "find_index (\<lambda>x. x = hole) vs = None" using assms by (auto simp: find_index_None_iff)
  then show ?thesis
    by (auto simp: key_search_def key_loop_packed [OF assms, of 0, simplified] find_index_replicate split: option.splits)
qed

subsection \<open>What a table stands for\<close>

type_synonym groups = "(u16 \<times> bytes) list"

definition entry_rep :: "aps_group_tbl_ent_t \<Rightarrow> u16 \<times> bytes \<Rightarrow> bool" where
  "entry_rep e g \<longleftrightarrow> group_addr e = fst g \<and> fst g \<noteq> APS_INVALID_GRP_ADDR \<and>
     snd g \<noteq> [] \<and> length (snd g) \<le> APS_EP_NUM_IN_GROUP_TBL \<and> distinct (snd g) \<and> (\<forall>x \<in> set (snd g). ep_valid x) \<and>
     g_endpoints e = snd g @ replicate (APS_EP_NUM_IN_GROUP_TBL - length (snd g)) APS_GROUP_EP_INVALID \<and>
     n_endpoints e = of_nat (length (snd g)) \<and> length (group_name e) = APS_GROUP_NAME_LEN"

definition entry_free :: "aps_group_tbl_ent_t \<Rightarrow> bool" where
  "entry_free e \<longleftrightarrow> group_addr e = APS_INVALID_GRP_ADDR \<and> n_endpoints e = 0 \<and>
     g_endpoints e = replicate APS_EP_NUM_IN_GROUP_TBL APS_GROUP_EP_INVALID \<and>
     length (group_name e) = APS_GROUP_NAME_LEN"

text \<open>The used entries come first and stand for the groups one by one; the rest are free.\<close>

definition groups_rel :: "aps_groups \<Rightarrow> groups \<Rightarrow> bool" where
  "groups_rel s G \<longleftrightarrow> length (aps_group_tbl s) < 256 \<and> length G \<le> length (aps_group_tbl s) \<and>
     list_all2 entry_rep (take (length G) (aps_group_tbl s)) G \<and>
     list_all entry_free (drop (length G) (aps_group_tbl s)) \<and>
     distinct (map fst G) \<and> aps_group_entry_num s = of_nat (length G)"

lemma ep_valid_not_hole: "ep_valid ep \<Longrightarrow> ep \<noteq> APS_GROUP_EP_INVALID"
  by (auto simp: ep_valid_def APS_GROUP_EP_INVALID_def)

lemma free_entry_free [simp]: "length (group_name e) = APS_GROUP_NAME_LEN \<Longrightarrow> entry_free (free_entry e)"
  by (simp add: entry_free_def free_entry_def)

lemma groups_relE:
  assumes "groups_rel s G"
  obtains es fs where "aps_group_tbl s = es @ fs" "list_all2 entry_rep es G" "list_all entry_free fs"
    "distinct (map fst G)" "aps_group_entry_num s = of_nat (length G)" "length es + length fs < 256" "length es = length G"
  using assms unfolding groups_rel_def
  by (metis append_take_drop_id length_append list_all2_lengthD)

lemma groups_relI:
  "aps_group_tbl s = es @ fs \<Longrightarrow> list_all2 entry_rep es G \<Longrightarrow> list_all entry_free fs \<Longrightarrow>
   distinct (map fst G) \<Longrightarrow> aps_group_entry_num s = of_nat (length G) \<Longrightarrow> length es + length fs < 256 \<Longrightarrow> groups_rel s G"
  using list_all2_lengthD [of entry_rep es G] by (simp add: groups_rel_def)

lemma entry_num_rel: "groups_rel s G \<Longrightarrow> unat (aps_group_entry_num s) = length G"
  by (auto simp: groups_rel_def unat_of_nat take_bit_eq_mod)

lemma addrs_rel:
  assumes "list_all2 entry_rep es G"
  shows "map group_addr es = map fst G" "APS_INVALID_GRP_ADDR \<notin> fst ` set G"
  using assms by (induction rule: list_all2_induct) (auto simp: entry_rep_def)

lemma names_rep: "list_all2 entry_rep es G \<Longrightarrow> \<forall>e \<in> set es. length (group_name e) = APS_GROUP_NAME_LEN"
  by (induction rule: list_all2_induct) (auto simp: entry_rep_def)

lemma names_rel:
  assumes "groups_rel s G"
  shows "\<forall>e \<in> set (aps_group_tbl s). length (group_name e) = APS_GROUP_NAME_LEN"
proof -
  from assms obtain es fs where s: "aps_group_tbl s = es @ fs" "list_all2 entry_rep es G" "list_all entry_free fs"
    by (rule groups_relE)
  then show ?thesis using names_rep [OF s(2)] by (auto simp: entry_free_def list_all_iff)
qed

lemma addrs_free: "list_all entry_free fs \<Longrightarrow> map group_addr fs = replicate (length fs) APS_INVALID_GRP_ADDR"
  by (induction fs) (auto simp: entry_free_def)

lemma search_by_addr_rel:
  assumes "groups_rel s G"
  shows "aps_group_search_by_addr a s = Some (
    if a = APS_INVALID_GRP_ADDR then (if length G < APS_GROUP_TABLE_SIZE s then Some (length G) else None)
    else find_index (\<lambda>g. fst g = a) G)"
proof -
  from assms obtain es fs where s: "aps_group_tbl s = es @ fs" "list_all2 entry_rep es G" "list_all entry_free fs"
    "length es = length G" by (rule groups_relE)
  have h: "APS_INVALID_GRP_ADDR \<notin> set (map fst G)" using addrs_rel(2) [OF s(2)] by simp
  show ?thesis
    using key_search_packed [OF h, of "length fs" a] s(4)
    by (simp add: aps_group_search_by_addr_def entry_num_rel [OF assms] s(1) addrs_rel [OF s(2)] addrs_free [OF s(3)]
        find_index_map)
qed

lemma ep_find_rep:
  assumes "entry_rep e (a, es)"
  shows "aps_group_ep_find e ep = Some (
    if ep = APS_GROUP_EP_INVALID then (if length es < APS_EP_NUM_IN_GROUP_TBL then Some (length es) else None)
    else find_index (\<lambda>x. x = ep) es)"
proof -
  have h: "APS_GROUP_EP_INVALID \<notin> set es" using assms ep_valid_not_hole by (auto simp: entry_rep_def)
  have n: "unat (n_endpoints e) = length es"
    using assms by (simp add: entry_rep_def APS_EP_NUM_IN_GROUP_TBL_def unat_of_nat take_bit_eq_mod)
  show ?thesis
    using key_search_packed [OF h, of "APS_EP_NUM_IN_GROUP_TBL - length es" ep] assms
    unfolding aps_group_ep_find_def n by (simp add: entry_rep_def)
qed

lemma ep_find_free: "entry_free e \<Longrightarrow> aps_group_ep_find e ep = Some (if ep = APS_GROUP_EP_INVALID then Some 0 else None)"
  using key_search_packed [of APS_GROUP_EP_INVALID "[]" APS_EP_NUM_IN_GROUP_TBL ep]
  by (auto simp: aps_group_ep_find_def entry_free_def APS_EP_NUM_IN_GROUP_TBL_def)


subsection \<open>Steps on the table\<close>

lemma entry_upd_at: "aps_group_tbl s = xs @ e # ys \<Longrightarrow> i = length xs \<Longrightarrow>
   entry_upd i g s = s\<lparr>aps_group_tbl := xs @ g e # ys\<rparr>"
  by (simp add: entry_upd_def)

lemma groupEntryDel_at:
  assumes s: "aps_group_tbl s = xs @ e # ys @ fs" and n: "unat (aps_group_entry_num s) = Suc (length xs + length ys)"
    and w: "\<forall>x \<in> set (e # ys). length (group_name x) = APS_GROUP_NAME_LEN"
  shows "\<exists>f. entry_free f \<and> aps_groupEntryDel (length xs) s = Some (s\<lparr>aps_group_tbl := xs @ ys @ f # fs,
    aps_group_entry_num := aps_group_entry_num s - 1\<rparr>)"
proof (cases ys rule: rev_cases)
  case Nil
  show ?thesis
    unfolding aps_groupEntryDel_def Let_def del_guard n using s w Nil
    by (intro exI [of _ "free_entry (e\<lparr>group_addr := APS_INVALID_GRP_ADDR\<rparr>)"]) (simp add: entry_upd_def)
next
  case (snoc zs z)
  show ?thesis
    unfolding aps_groupEntryDel_def Let_def del_guard n using s w snoc
    by (intro exI [of _ "free_entry z"]) (simp add: entry_upd_def nth_append list_update_append)
qed

lemma filter_out: "distinct es \<Longrightarrow> h \<notin> set es \<Longrightarrow> j < length es \<Longrightarrow> filter (\<lambda>e. e \<noteq> h) (es[j := h]) = remove1 (es ! j) es"
proof -
  assume a: "distinct es" "h \<notin> set es" "j < length es"
  let ?x = "take j es" and ?y = "drop (Suc j) es"
  have e: "es = ?x @ es ! j # ?y" using a(3) by (rule id_take_nth_drop)
  have "es ! j \<notin> set ?x" using a(1) e by (metis distinct_append disjoint_iff list.set_intros(1))
  then have r: "remove1 (es ! j) es = ?x @ ?y" by (subst (2) e) (simp add: remove1_append)
  have "filter (\<lambda>e. e \<noteq> h) ?x = ?x" "filter (\<lambda>e. e \<noteq> h) ?y = ?y"
    using a(2) by (auto simp: filter_id_conv dest: in_set_takeD in_set_dropD)
  then show ?thesis unfolding upd_conv_take_nth_drop [OF a(3)] r by simp
qed

lemma pack_eps_rep:
  assumes "entry_rep e (a, es)" "j < length es"
  shows "pack_eps ((g_endpoints e)[j := APS_GROUP_EP_INVALID]) =
    remove1 (es ! j) es @ replicate (APS_EP_NUM_IN_GROUP_TBL - (length es - 1)) APS_GROUP_EP_INVALID"
proof -
  have h: "APS_GROUP_EP_INVALID \<notin> set es" using assms(1) ep_valid_not_hole by (auto simp: entry_rep_def)
  then have f: "filter (\<lambda>e. e \<noteq> APS_GROUP_EP_INVALID) (es[j := APS_GROUP_EP_INVALID]) = remove1 (es ! j) es"
    using assms by (intro filter_out) (auto simp: entry_rep_def)
  have "length (remove1 (es ! j) es) = length es - 1" using assms(2) by (simp add: length_remove1)
  then show ?thesis using assms f
    by (simp add: pack_eps_def Let_def entry_rep_def list_update_append)
qed

text \<open>Taking an endpoint out leaves the group with one endpoint less, or takes the group out.\<close>

definition drop_ep :: "u8 \<Rightarrow> u16 \<times> bytes \<Rightarrow> groups" where
  "drop_ep ep g = (let es = remove1 ep (snd g) in if es = [] then [] else [(fst g, es)])"

lemma take_ep_out_rel:
  assumes r: "groups_rel s (G1 @ (a, es) # G2)" and j: "j < length es"
  shows "\<exists>t. take_ep_out (length G1) j s = Some (length es = 1, t) \<and>
    groups_rel t (G1 @ drop_ep (es ! j) (a, es) @ G2) \<and> T_saves t = T_saves s \<and> APS_GROUP_TABLE_SIZE t = APS_GROUP_TABLE_SIZE s"
proof -
  from r obtain us fs where u: "aps_group_tbl s = us @ fs" "list_all2 entry_rep us (G1 @ (a, es) # G2)"
    "list_all entry_free fs" "distinct (map fst (G1 @ (a, es) # G2))"
    "aps_group_entry_num s = of_nat (length (G1 @ (a, es) # G2))"
    "length us + length fs < 256" "length us = length (G1 @ (a, es) # G2)" by (rule groups_relE)
  from u(2) obtain xs e ys where us: "us = xs @ e # ys" "list_all2 entry_rep xs G1" "entry_rep e (a, es)"
    "list_all2 entry_rep ys G2" by (auto simp: list_all2_append2 list_all2_Cons2)
  have lx: "length xs = length G1" "length ys = length G2" using us by (auto dest: list_all2_lengthD)
  have tb: "aps_group_tbl s = xs @ e # ys @ fs" using u(1) us(1) by simp
  let ?e1 = "e\<lparr>g_endpoints := (g_endpoints e)[j := APS_GROUP_EP_INVALID], n_endpoints := n_endpoints e - 1\<rparr>"
  let ?s1 = "s\<lparr>aps_group_tbl := xs @ ?e1 # ys @ fs\<rparr>"
  have s1: "entry_upd (length G1) (\<lambda>e. e\<lparr>g_endpoints := (g_endpoints e)[j := APS_GROUP_EP_INVALID],
      n_endpoints := n_endpoints e - 1\<rparr>) s = ?s1"
    using entry_upd_at [OF tb lx(1) [symmetric]] .
  have n: "n_endpoints e = of_nat (length es)" "length es \<le> 8" "es \<noteq> []"
    using us(3) by (auto simp: entry_rep_def APS_EP_NUM_IN_GROUP_TBL_def)
  have n1: "n_endpoints e - 1 = of_nat (length es - 1)" using n by (cases es) auto
  have z: "n_endpoints e - 1 = 0 \<longleftrightarrow> length es = 1"
  proof -
    have "unat (of_nat (length es - 1) :: u8) = length es - 1" using n(2) by (simp add: unat_of_nat take_bit_eq_mod)
    then have "(of_nat (length es - 1) :: u8) = 0 \<longleftrightarrow> length es - 1 = 0" by (metis unat_eq_0)
    with n(3) n1 show ?thesis by (cases es) auto
  qed
  have at: "aps_group_tbl ?s1 ! length G1 = ?e1" using lx by (simp add: nth_append)
  show ?thesis
  proof (cases "length es = 1")
    case True
    then have dr: "drop_ep (es ! j) (a, es) = []" using j by (cases es) (auto simp: drop_ep_def)
    have "unat (aps_group_entry_num ?s1) = Suc (length xs + length ys)"
      using entry_num_rel [OF r] lx by simp
    moreover have "\<forall>x \<in> set (?e1 # ys). length (group_name x) = APS_GROUP_NAME_LEN"
      using us(3) names_rep [OF us(4)] by (simp add: entry_rep_def)
    ultimately obtain f where f: "entry_free f"
      "aps_groupEntryDel (length xs) ?s1 = Some (s\<lparr>aps_group_tbl := xs @ ys @ f # fs,
         aps_group_entry_num := aps_group_entry_num s - 1\<rparr>)"
      using groupEntryDel_at [of ?s1 xs ?e1 ys fs] by auto
    let ?t = "s\<lparr>aps_group_tbl := xs @ ys @ f # fs, aps_group_entry_num := aps_group_entry_num s - 1\<rparr>"
    have "groups_rel ?t (G1 @ G2)"
      by (rule groups_relI [of _ "xs @ ys" "f # fs"]) (use u us f lx in \<open>auto intro: list_all2_appendI\<close>)
    then show ?thesis using True f(2) lx(1) z at dr tb unfolding take_ep_out_def s1 Let_def at by auto
  next
    case False
    let ?e2 = "?e1\<lparr>g_endpoints := pack_eps (g_endpoints ?e1)\<rparr>"
    let ?t = "s\<lparr>aps_group_tbl := xs @ ?e2 # ys @ fs\<rparr>"
    have l1: "length (remove1 (es ! j) es) = length es - 1" using j by (simp add: length_remove1)
    then have ne: "remove1 (es ! j) es \<noteq> []" using False n(3) by (cases es) (auto simp flip: length_greater_0_conv)
    have "entry_rep ?e2 (a, remove1 (es ! j) es)"
      using us(3) ne l1 n1 pack_eps_rep [OF us(3) j] set_remove1_subset [of "es ! j" es]
      by (auto simp: entry_rep_def)
    then have "groups_rel ?t (G1 @ (a, remove1 (es ! j) es) # G2)"
      by (intro groups_relI [of _ "xs @ ?e2 # ys" fs]) (use u us lx in \<open>auto intro!: list_all2_appendI\<close>)
    moreover have "entry_upd (length G1) (\<lambda>e. e\<lparr>g_endpoints := pack_eps (g_endpoints e)\<rparr>) ?s1 = ?t"
      using lx by (simp add: entry_upd_def list_update_append nth_append)
    ultimately show ?thesis using False z at ne tb unfolding take_ep_out_def s1 Let_def at by (auto simp: drop_ep_def)
  qed
qed


subsection \<open>The group table as a list of groups\<close>

datatype grp_op = Grp_add u16 u8 | Grp_delete u16 u8 | Grp_delete_all u8 | Grp_reset
  | Grp_search u16 u8 | Grp_list

datatype grp_out = Grp_status u8 | Grp_member bool | Grp_ids u8 "u16 list" | Grp_done

fun grp_step :: "grp_op \<Rightarrow> aps_groups \<Rightarrow> (grp_out \<times> aps_groups) option" where
  "grp_step (Grp_add a ep) s = map_option (\<lambda>(st, t). (Grp_status st, t)) (aps_me_group_add_req a ep s)"
| "grp_step (Grp_delete a ep) s = map_option (\<lambda>(st, t). (Grp_status st, t)) (aps_me_group_delete_req a ep s)"
| "grp_step (Grp_delete_all ep) s = map_option (\<lambda>(st, t). (Grp_status st, t)) (aps_me_group_delete_all_req ep s)"
| "grp_step Grp_reset s = Some (Grp_done, aps_groupTblReset s)"
| "grp_step (Grp_search a ep) s = map_option (\<lambda>r. (Grp_member (r \<noteq> None), s)) (aps_group_search a ep s)"
| "grp_step Grp_list s = Some (Grp_ids (aps_group_entry_num_get s) (aps_group_list_get s), s)"

fun add_member :: "u16 \<Rightarrow> u8 \<Rightarrow> groups \<Rightarrow> groups" where
  "add_member a ep [] = [(a, [ep])]"
| "add_member a ep ((b, es) # G) = (if b = a then (b, es @ [ep]) # G else (b, es) # add_member a ep G)"

definition del_member :: "u16 \<Rightarrow> u8 \<Rightarrow> groups \<Rightarrow> groups" where
  "del_member a ep G = concat (map (\<lambda>g. if fst g = a then drop_ep ep g else [g]) G)"

definition del_all :: "u8 \<Rightarrow> groups \<Rightarrow> groups" where
  "del_all ep G = concat (map (drop_ep ep) G)"

definition member :: "u16 \<Rightarrow> u8 \<Rightarrow> groups \<Rightarrow> bool" where
  "member a ep G \<longleftrightarrow> (case map_of G a of Some es \<Rightarrow> ep \<in> set es | None \<Rightarrow> False)"

fun grp_spec :: "nat \<Rightarrow> grp_op \<Rightarrow> groups \<Rightarrow> grp_out \<times> groups" where
  "grp_spec cap (Grp_add a ep) G =
     (if \<not> ep_valid ep then (Grp_status APS_STATUS_INVALID_PARAMETER, G)
      else case map_of G a of
        Some es \<Rightarrow>
          (if ep \<in> set es then (Grp_status APS_STATUS_DUPLICATE_ENTRY, G)
           else if length es < APS_EP_NUM_IN_GROUP_TBL then (Grp_status APS_STATUS_SUCCESS, add_member a ep G)
           else (Grp_status APS_STATUS_TABLE_FULL, G))
      | None \<Rightarrow>
          (if length G < cap then (Grp_status APS_STATUS_SUCCESS, add_member a ep G)
           else (Grp_status APS_STATUS_TABLE_FULL, G)))"
| "grp_spec cap (Grp_delete a ep) G =
     (if \<not> ep_valid ep then (Grp_status APS_STATUS_INVALID_PARAMETER, G)
      else if member a ep G then (Grp_status APS_STATUS_SUCCESS, del_member a ep G)
      else (Grp_status APS_STATUS_INVALID_GROUP, G))"
| "grp_spec cap (Grp_delete_all ep) G =
     (if ep_valid ep then (Grp_status APS_STATUS_SUCCESS, del_all ep G)
      else (Grp_status APS_STATUS_INVALID_PARAMETER, G))"
| "grp_spec cap Grp_reset G = (Grp_done, [])"
| "grp_spec cap (Grp_search a ep) G = (Grp_member (member a ep G), G)"
| "grp_spec cap Grp_list G = (Grp_ids (of_nat (length G)) (map fst G), G)"

text \<open>The users of the table must not add the invalid address.\<close>

fun grp_allowed :: "grp_op \<Rightarrow> groups \<Rightarrow> bool" where
  "grp_allowed (Grp_add a ep) G \<longleftrightarrow> a \<noteq> APS_INVALID_GRP_ADDR"
| "grp_allowed (Grp_search a ep) G \<longleftrightarrow> ep_valid ep"
| "grp_allowed _ G \<longleftrightarrow> True"

definition table_rel :: "nat \<Rightarrow> aps_groups \<Rightarrow> groups \<Rightarrow> bool" where
  "table_rel cap s G \<longleftrightarrow> groups_rel s G \<and> APS_GROUP_TABLE_SIZE s = cap"

lemma find_index_split: "find_index P xs = Some i \<longleftrightarrow> (\<exists>ys x zs. xs = ys @ x # zs \<and> length ys = i \<and> P x \<and> (\<forall>y \<in> set ys. \<not> P y))"
proof (induction xs arbitrary: i)
  case (Cons w xs)
  show ?case
  proof (cases "P w")
    case True
    have "find_index P (w # xs) = Some i \<longleftrightarrow> i = 0" using True by auto
    moreover have "i = 0 \<longleftrightarrow> (\<exists>ys x zs. w # xs = ys @ x # zs \<and> length ys = i \<and> P x \<and> (\<forall>y \<in> set ys. \<not> P y))"
      using True by (auto simp: Cons_eq_append_conv)
    ultimately show ?thesis by blast
  next
    case False
    then have "find_index P (w # xs) = Some i \<longleftrightarrow> (\<exists>k. i = Suc k \<and> find_index P xs = Some k)" by auto
    also have "\<dots> \<longleftrightarrow> (\<exists>ys x zs. w # xs = ys @ x # zs \<and> length ys = i \<and> P x \<and> (\<forall>y \<in> set ys. \<not> P y))"
      unfolding Cons.IH using False by (auto simp: Cons_eq_append_conv) (metis length_Cons list.set_intros(2) set_ConsD)+
    finally show ?thesis .
  qed
qed simp

lemma find_group:
  assumes "distinct (map fst G)"
  shows "(find_index (\<lambda>g. fst g = a) G = None) = (map_of G a = None)"
    and "find_index (\<lambda>g. fst g = a) G = Some i \<longleftrightarrow> (\<exists>G1 es G2. G = G1 @ (a, es) # G2 \<and> length G1 = i \<and> map_of G a = Some es)"
proof -
  show "(find_index (\<lambda>g. fst g = a) G = None) = (map_of G a = None)"
    by (auto simp: find_index_None_iff map_of_eq_None_iff)
  show "find_index (\<lambda>g. fst g = a) G = Some i \<longleftrightarrow> (\<exists>G1 es G2. G = G1 @ (a, es) # G2 \<and> length G1 = i \<and> map_of G a = Some es)"
    unfolding find_index_split using assms by (auto simp: map_add_def map_of_eq_None_iff split: option.splits) force+
qed

lemma split_group:
  assumes "distinct (map fst (G1 @ (a, es) # G2))"
  shows "add_member a ep (G1 @ (a, es) # G2) = G1 @ (a, es @ [ep]) # G2"
    and "del_member a ep (G1 @ (a, es) # G2) = G1 @ drop_ep ep (a, es) @ G2"
proof -
  have n: "\<forall>g \<in> set G1 \<union> set G2. fst g \<noteq> a" using assms by auto
  then show "add_member a ep (G1 @ (a, es) # G2) = G1 @ (a, es @ [ep]) # G2" by (induction G1) auto
  have "concat (map (\<lambda>g. if fst g = a then drop_ep ep g else [g]) H) = H" if "\<forall>g \<in> set H. fst g \<noteq> a" for H
    using that by (induction H) auto
  then show "del_member a ep (G1 @ (a, es) # G2) = G1 @ drop_ep ep (a, es) @ G2" using n by (simp add: del_member_def)
qed

lemma add_new: "map_of G a = None \<Longrightarrow> add_member a ep G = G @ [(a, [ep])]"
  by (induction G) (auto split: if_splits)


subsection \<open>The simulation\<close>

lemma search_group:
  assumes "groups_rel s G" "ep_valid ep"
  shows "aps_group_search_by_addr a s = Some None \<and> map_of G a = None \<and> a \<noteq> APS_INVALID_GRP_ADDR
    \<or> (\<exists>G1 es G2. aps_group_search_by_addr a s = Some (Some (length G1)) \<and> G = G1 @ (a, es) # G2 \<and> map_of G a = Some es
         \<and> entry_rep (aps_group_tbl s ! length G1) (a, es)
         \<and> aps_group_ep_find (aps_group_tbl s ! length G1) ep = Some (find_index (\<lambda>x. x = ep) es))
    \<or> a = APS_INVALID_GRP_ADDR \<and> map_of G a = None \<and> (aps_group_search_by_addr a s = Some None \<or>
         (\<exists>i. aps_group_search_by_addr a s = Some (Some i) \<and> aps_group_ep_find (aps_group_tbl s ! i) ep = Some None))"
proof -
  from assms(1) obtain es fs where s: "aps_group_tbl s = es @ fs" "list_all2 entry_rep es G" "list_all entry_free fs"
    "length es = length G" and d: "distinct (map fst G)" by (rule groups_relE)
  note sa = search_by_addr_rel [OF assms(1), of a] and fg = find_group [OF d, of a]
  have n: "map_of G APS_INVALID_GRP_ADDR = None" using addrs_rel(2) [OF s(2)] by (simp add: map_of_eq_None_iff)
  have nh: "ep \<noteq> APS_GROUP_EP_INVALID" using assms(2) by (rule ep_valid_not_hole)
  show ?thesis
  proof (cases "a = APS_INVALID_GRP_ADDR")
    case True
    have "aps_group_ep_find (aps_group_tbl s ! length G) ep = Some None" if "length G < APS_GROUP_TABLE_SIZE s"
    proof -
      have "entry_free (fs ! 0)" using that s(1,3,4) by (cases fs) auto
      moreover have "aps_group_tbl s ! length G = fs ! 0" using s(1,4) by (simp add: nth_append)
      ultimately show ?thesis using nh by (simp add: ep_find_free)
    qed
    then show ?thesis using sa n True by auto
  next
    case False
    show ?thesis
    proof (cases "find_index (\<lambda>g. fst g = a) G")
      case None
      then show ?thesis using sa fg(1) False by simp
    next
      case (Some i)
      with fg(2) obtain G1 vs G2 where g: "G = G1 @ (a, vs) # G2" "length G1 = i" "map_of G a = Some vs" by blast
      have l: "i < length G" using g by simp
      then have "entry_rep (es ! i) (G ! i)" using s(2,4) by (auto simp: list_all2_conv_all_nth)
      then have "entry_rep (aps_group_tbl s ! length G1) (a, vs)"
        using s(1,4) g l by (simp add: nth_append)
      then show ?thesis using sa Some False g ep_find_rep nh by auto
    qed
  qed
qed

lemma find_mem: "(find_index (\<lambda>x. x = k) xs = None) = (k \<notin> set xs)"
  by (auto simp: find_index_None_iff)

lemma search_sim:
  assumes "groups_rel s G" "ep_valid ep"
  shows "\<exists>r. aps_group_search a ep s = Some r \<and> (r \<noteq> None \<longleftrightarrow> member a ep G)"
  using search_group [OF assms, of a]
  by (auto simp: aps_group_search_def member_def find_mem split: option.splits)
    (metis find_mem option.distinct(1))+

lemma list_all2_split: "list_all2 R es (G1 @ g # G2) \<Longrightarrow>
   \<exists>xs e ys. es = xs @ e # ys \<and> list_all2 R xs G1 \<and> R e g \<and> list_all2 R ys G2 \<and> length xs = length G1"
  by (auto simp: list_all2_append2 list_all2_Cons2)

lemma add_ep_rel:
  assumes r: "groups_rel s (G1 @ (a, es) # G2)" and ep: "ep_valid ep" "ep \<notin> set es" "length es < APS_EP_NUM_IN_GROUP_TBL"
  shows "groups_rel (entry_upd (length G1) (\<lambda>e. e\<lparr>g_endpoints := (g_endpoints e)[length es := ep],
      n_endpoints := n_endpoints e + 1\<rparr>) s) (G1 @ (a, es @ [ep]) # G2)"
proof -
  from r obtain us fs where u: "aps_group_tbl s = us @ fs" "list_all2 entry_rep us (G1 @ (a, es) # G2)"
    "list_all entry_free fs" "distinct (map fst (G1 @ (a, es) # G2))"
    "aps_group_entry_num s = of_nat (length (G1 @ (a, es) # G2))"
    "length us + length fs < 256" by (rule groups_relE)
  from list_all2_split [OF u(2)] obtain xs e ys where us: "us = xs @ e # ys" "list_all2 entry_rep xs G1"
    "entry_rep e (a, es)" "list_all2 entry_rep ys G2" "length xs = length G1" by blast
  have tb: "aps_group_tbl s = xs @ e # (ys @ fs)" using u(1) us(1) by simp
  let ?e = "e\<lparr>g_endpoints := (g_endpoints e)[length es := ep], n_endpoints := n_endpoints e + 1\<rparr>"
  have "APS_EP_NUM_IN_GROUP_TBL - length es = Suc (APS_EP_NUM_IN_GROUP_TBL - Suc (length es))" using ep(3) by simp
  then have "entry_rep ?e (a, es @ [ep])"
    using us(3) ep by (simp add: entry_rep_def list_update_append)
  then show ?thesis
    unfolding entry_upd_at [OF tb us(5) [symmetric]]
    by (intro groups_relI [of _ "xs @ ?e # ys" fs]) (use u us in \<open>auto intro!: list_all2_appendI\<close>)
qed

lemma add_group_rel:
  assumes r: "groups_rel s G" and g: "map_of G a = None" "a \<noteq> APS_INVALID_GRP_ADDR" "ep_valid ep"
    and l: "length G < APS_GROUP_TABLE_SIZE s"
  shows "groups_rel ((entry_upd (length G) (\<lambda>e. e\<lparr>
      g_endpoints := (replicate APS_EP_NUM_IN_GROUP_TBL APS_GROUP_EP_INVALID)[0 := ep],
      group_name := replicate APS_GROUP_NAME_LEN 0, group_addr := a, n_endpoints := 1\<rparr>) s)
      \<lparr>aps_group_entry_num := aps_group_entry_num s + 1\<rparr>) (G @ [(a, [ep])])"
proof -
  from r obtain us fs where u: "aps_group_tbl s = us @ fs" "list_all2 entry_rep us G"
    "list_all entry_free fs" "distinct (map fst G)" "aps_group_entry_num s = of_nat (length G)"
    "length us + length fs < 256" "length us = length G" by (rule groups_relE)
  from l u obtain f fs' where f: "fs = f # fs'" by (cases fs) auto
  have tb: "aps_group_tbl s = us @ f # fs'" using u(1) f by simp
  let ?e = "f\<lparr>g_endpoints := (replicate APS_EP_NUM_IN_GROUP_TBL APS_GROUP_EP_INVALID)[0 := ep],
      group_name := replicate APS_GROUP_NAME_LEN 0, group_addr := a, n_endpoints := 1\<rparr>"
  have "entry_rep ?e (a, [ep])" using g by (simp add: entry_rep_def APS_EP_NUM_IN_GROUP_TBL_def numeral_eq_Suc)
  then show ?thesis
    unfolding entry_upd_at [OF tb u(7) [symmetric]]
    by (intro groups_relI [of _ "us @ [?e]" fs'])
       (use u f g in \<open>auto intro!: list_all2_appendI simp: map_of_eq_None_iff\<close>)
qed

lemma post_save_rel [simp]: "groups_rel (post_save s) G = groups_rel s G"
  by (simp add: post_save_def groups_rel_def)

lemma post_save_tbl [simp]: "aps_group_tbl (post_save s) = aps_group_tbl s"
  by (simp add: post_save_def)


lemma drop_ep_absent: "ep \<notin> set (snd g) \<Longrightarrow> snd g \<noteq> [] \<Longrightarrow> drop_ep ep g = [g]"
  by (cases g) (simp add: drop_ep_def remove1_idem)

lemma group_at:
  assumes "groups_rel s (G1 @ g # G2)"
  shows "length G1 < APS_GROUP_TABLE_SIZE s \<and> entry_rep (aps_group_tbl s ! length G1) g"
proof -
  from assms obtain us fs where u: "aps_group_tbl s = us @ fs" "list_all2 entry_rep us (G1 @ g # G2)" by (rule groups_relE)
  from list_all2_split [OF u(2)] u(1) show ?thesis by (auto simp: nth_append)
qed

lemma delete_at_rel:
  assumes r: "groups_rel s (G1 @ g # G2)" and ep: "ep_valid ep"
  shows "\<exists>t. delete_at ep (length G1) s = Some (drop_ep ep g = [], t) \<and> groups_rel t (G1 @ drop_ep ep g @ G2) \<and>
    T_saves t = T_saves s \<and> APS_GROUP_TABLE_SIZE t = APS_GROUP_TABLE_SIZE s"
proof -
  obtain a es where g: "g = (a, es)" by (cases g)
  have e: "entry_rep (aps_group_tbl s ! length G1) (a, es)" using group_at [OF r] g by simp
  then have ne: "es \<noteq> []" "distinct es" by (auto simp: entry_rep_def)
  have f: "aps_group_ep_find (aps_group_tbl s ! length G1) ep = Some (find_index (\<lambda>x. x = ep) es)"
    using ep_find_rep [OF e] ep_valid_not_hole [OF ep] by simp
  show ?thesis
  proof (cases "find_index (\<lambda>x. x = ep) es")
    case None
    then have "ep \<notin> set es" by (simp add: find_mem)
    then show ?thesis using None f r g ne by (simp add: delete_at_def drop_ep_absent)
  next
    case (Some j)
    then have j: "j < length es" "es ! j = ep" by (auto dest: find_index_Some)
    have "remove1 ep es = [] \<longleftrightarrow> length es = 1"
    proof -
      have "ep \<in> set es" using j by auto
      then have "length (remove1 ep es) = length es - 1" by (simp add: length_remove1)
      then have "remove1 ep es = [] \<longleftrightarrow> length es - 1 = 0" by (metis length_0_conv)
      then show ?thesis using ne(1) by (cases es) simp_all
    qed
    then show ?thesis
      using take_ep_out_rel [OF r [unfolded g] j(1)] Some f j(2) g by (auto simp: delete_at_def drop_ep_def Let_def)
  qed
qed

lemma delete_all_rel:
  "groups_rel s (G1 @ G2) \<Longrightarrow> ep_valid ep \<Longrightarrow> n = i + length G2 \<Longrightarrow>
   \<exists>t. delete_all_loop ep n i (length G1) s = Some t \<and> groups_rel t (G1 @ del_all ep G2) \<and>
     T_saves t = T_saves s \<and> APS_GROUP_TABLE_SIZE t = APS_GROUP_TABLE_SIZE s"
proof (induction G2 arbitrary: G1 i s)
  case Nil
  then show ?case by (simp add: delete_all_loop.simps del_all_def)
next
  case (Cons g G2)
  from delete_at_rel [OF Cons.prems(1,2)] obtain t where t: "delete_at ep (length G1) s = Some (drop_ep ep g = [], t)"
    "groups_rel t ((G1 @ drop_ep ep g) @ G2)" "T_saves t = T_saves s" "APS_GROUP_TABLE_SIZE t = APS_GROUP_TABLE_SIZE s" by auto
  have next_idx: "length (G1 @ drop_ep ep g) = (if drop_ep ep g = [] then length G1 else length G1 + 1)"
    by (simp add: drop_ep_def Let_def)
  have "n = (i + 1) + length G2" using Cons.prems(3) by simp
  from Cons.IH [OF t(2) Cons.prems(2) this] obtain u where u:
    "delete_all_loop ep n (i + 1) (length (G1 @ drop_ep ep g)) t = Some u"
    "groups_rel u (G1 @ del_all ep (g # G2))" "T_saves u = T_saves t" "APS_GROUP_TABLE_SIZE u = APS_GROUP_TABLE_SIZE t"
    by (auto simp: del_all_def)
  note at = group_at [OF Cons.prems(1)]
  then have "group_addr (aps_group_tbl s ! length G1) \<noteq> APS_INVALID_GRP_ADDR" by (simp add: entry_rep_def)
  then have "delete_all_loop ep n i (length G1) s = Some u"
    using u(1) at t(1) Cons.prems(3) unfolding next_idx by (subst delete_all_loop.simps) auto
  then show ?case using u t by auto
qed

lemma reset_rel: "length (aps_group_tbl s) < 256 \<Longrightarrow>
   \<forall>e \<in> set (aps_group_tbl s). length (group_name e) = APS_GROUP_NAME_LEN \<Longrightarrow> groups_rel (aps_groupTblReset s) []"
  by (simp add: groups_rel_def aps_groupTblReset_def list_all_iff)

lemma list_get_rel:
  assumes "groups_rel s G"
  shows "aps_group_list_get s = map fst G"
proof -
  from assms obtain es fs where s: "aps_group_tbl s = es @ fs" "list_all2 entry_rep es G" "list_all entry_free fs"
    by (rule groups_relE)
  have "filter (\<lambda>a. a \<noteq> APS_INVALID_GRP_ADDR) (map fst G) = map fst G"
    using addrs_rel(2) [OF s(2)] by (force simp: filter_id_conv)
  then show ?thesis
    by (simp only: aps_group_list_get_def s(1) map_append addrs_rel(1) [OF s(2)] addrs_free [OF s(3)] filter_append) simp
qed

lemma group_add_sim:
  assumes r: "table_rel cap s G" and a: "a \<noteq> APS_INVALID_GRP_ADDR"
  shows "\<exists>t. grp_step (Grp_add a ep) s = Some (fst (grp_spec cap (Grp_add a ep) G), t) \<and>
    table_rel cap t (snd (grp_spec cap (Grp_add a ep) G))"
proof (cases "ep_valid ep")
  case True
  have rel: "groups_rel s G" and cap: "APS_GROUP_TABLE_SIZE s = cap" using r by (auto simp: table_rel_def)
  have d: "distinct (map fst G)" using rel by (simp add: groups_rel_def)
  consider "aps_group_search_by_addr a s = Some None" "map_of G a = None"
    | G1 es G2 where "aps_group_search_by_addr a s = Some (Some (length G1))" "G = G1 @ (a, es) # G2" "map_of G a = Some es"
        "entry_rep (aps_group_tbl s ! length G1) (a, es)"
        "aps_group_ep_find (aps_group_tbl s ! length G1) ep = Some (find_index (\<lambda>x. x = ep) es)"
    using search_group [OF rel True, of a] a by (elim disjE exE conjE) blast+
  then show ?thesis
  proof cases
    case 1
    have f: "aps_group_search_by_addr APS_INVALID_GRP_ADDR s = Some (if length G < cap then Some (length G) else None)"
      using search_by_addr_rel [OF rel] cap by simp
    show ?thesis
    proof (cases "length G < cap")
      case lt: True
      from add_group_rel [OF rel 1(2) a True] lt cap show ?thesis
        using 1 True f by (simp add: aps_me_group_add_req_def Let_def add_new table_rel_def entry_upd_def)
    next
      case False
      then show ?thesis using 1 True f r by (simp add: aps_me_group_add_req_def)
    qed
  next
    case 2
    have f: "aps_group_ep_find (aps_group_tbl s ! length G1) APS_GROUP_EP_INVALID =
        Some (if length es < APS_EP_NUM_IN_GROUP_TBL then Some (length es) else None)"
      using ep_find_rep [OF 2(4)] by simp
    show ?thesis
    proof (cases "ep \<in> set es")
      case True
      then obtain j where "find_index (\<lambda>x. x = ep) es = Some j" by (metis find_mem not_None_eq)
      then show ?thesis using 2 \<open>ep_valid ep\<close> True r by (simp add: aps_me_group_add_req_def)
    next
      case False
      then have n: "find_index (\<lambda>x. x = ep) es = None" by (simp add: find_mem)
      show ?thesis
      proof (cases "length es < APS_EP_NUM_IN_GROUP_TBL")
        case lt: True
        have am: "add_member a ep G = G1 @ (a, es @ [ep]) # G2" using split_group(1) d 2(2) by blast
        from add_ep_rel [OF rel [unfolded 2(2)] True False lt] show ?thesis
          using 2(1,3,5) am cap n f \<open>ep_valid ep\<close> False lt by (simp add: aps_me_group_add_req_def table_rel_def)
      next
        case False
        then show ?thesis using 2(1,3,5) n f \<open>ep_valid ep\<close> \<open>ep \<notin> set es\<close> r by (simp add: aps_me_group_add_req_def)
      qed
    qed
  qed
qed (use r in \<open>simp add: aps_me_group_add_req_def\<close>)

lemma group_delete_sim:
  assumes r: "table_rel cap s G"
  shows "\<exists>t. grp_step (Grp_delete a ep) s = Some (fst (grp_spec cap (Grp_delete a ep) G), t) \<and>
    table_rel cap t (snd (grp_spec cap (Grp_delete a ep) G))"
proof (cases "ep_valid ep")
  case True
  have rel: "groups_rel s G" and cap: "APS_GROUP_TABLE_SIZE s = cap" using r by (auto simp: table_rel_def)
  have d: "distinct (map fst G)" using rel by (simp add: groups_rel_def)
  from search_group [OF rel True, of a] show ?thesis
  proof (elim disjE)
    assume "\<exists>G1 es G2. aps_group_search_by_addr a s = Some (Some (length G1)) \<and> G = G1 @ (a, es) # G2 \<and> map_of G a = Some es
         \<and> entry_rep (aps_group_tbl s ! length G1) (a, es)
         \<and> aps_group_ep_find (aps_group_tbl s ! length G1) ep = Some (find_index (\<lambda>x. x = ep) es)"
    then obtain G1 es G2 where g: "aps_group_search_by_addr a s = Some (Some (length G1))" "G = G1 @ (a, es) # G2"
      "map_of G a = Some es" "aps_group_ep_find (aps_group_tbl s ! length G1) ep = Some (find_index (\<lambda>x. x = ep) es)" by blast
    show ?thesis
    proof (cases "find_index (\<lambda>x. x = ep) es")
      case None
      then have "ep \<notin> set es" by (simp add: find_mem)
      then show ?thesis using None g True r by (simp add: aps_me_group_delete_req_def member_def)
    next
      case (Some j)
      then have j: "j < length es" "es ! j = ep" by (auto dest: find_index_Some)
      then have "ep \<in> set es" by auto
      then have m: "member a ep G" using g(3) by (simp add: member_def)
      have dm: "del_member a ep G = G1 @ drop_ep ep (a, es) @ G2" using split_group(2) d g(2) by blast
      from take_ep_out_rel [OF rel [unfolded g(2)] j(1)] j(2) obtain t where
        "take_ep_out (length G1) j s = Some (length es = 1, t)" "groups_rel t (del_member a ep G)"
        "APS_GROUP_TABLE_SIZE t = APS_GROUP_TABLE_SIZE s" unfolding dm by auto
      then show ?thesis using g(1,4) Some True m cap by (simp add: aps_me_group_delete_req_def table_rel_def)
    qed
  qed (use True r in \<open>auto simp: aps_me_group_delete_req_def member_def\<close>)
qed (use r in \<open>simp add: aps_me_group_delete_req_def\<close>)

lemma grp_sim:
  assumes r: "table_rel cap s G" and a: "grp_allowed x G"
  shows "\<exists>t. grp_step x s = Some (fst (grp_spec cap x G), t) \<and> table_rel cap t (snd (grp_spec cap x G))"
proof (cases x)
  case (Grp_delete_all ep)
  have rel: "groups_rel s G" and cap: "APS_GROUP_TABLE_SIZE s = cap" using r by (auto simp: table_rel_def)
  show ?thesis
  proof (cases "ep_valid ep")
    case True
    from delete_all_rel [of s "[]" G ep "length G" 0, simplified, OF rel True] obtain t where
      "delete_all_loop ep (length G) 0 0 s = Some t" "groups_rel t (del_all ep G)" "APS_GROUP_TABLE_SIZE t = cap"
      using cap by auto
    then show ?thesis using Grp_delete_all True
      by (simp add: aps_me_group_delete_all_req_def entry_num_rel [OF rel] table_rel_def)
  qed (use Grp_delete_all r in \<open>simp add: aps_me_group_delete_all_req_def\<close>)
next
  case Grp_reset
  then show ?thesis using r reset_rel [of s] names_rel [of s G] by (simp add: table_rel_def aps_groupTblReset_def groups_rel_def)
next
  case (Grp_search a ep)
  then show ?thesis using r assms(2) search_sim [of s G ep a] by (auto simp: table_rel_def)
next
  case Grp_list
  then show ?thesis using r list_get_rel [of s G]
    by (auto simp: table_rel_def aps_group_entry_num_get_def groups_rel_def)
qed (use group_add_sim [OF r] group_delete_sim [OF r] a in \<open>simp_all del: grp_step.simps grp_spec.simps\<close>)

interpretation grp: forward_sim grp_step "grp_spec cap" grp_allowed "table_rel cap" for cap
  by unfold_locales (rule grp_sim)


subsection \<open>Saving and restoring the table\<close>

text \<open>\<^verbatim>\<open>aps_group_tbl_ent_t\<close> is packed: 28 bytes in the order of its fields.\<close>

definition ENT_SIZE :: nat where "ENT_SIZE = 2 + APS_EP_NUM_IN_GROUP_TBL + 1 + APS_GROUP_NAME_LEN + 1"

definition ent_bytes :: "aps_group_tbl_ent_t \<Rightarrow> bytes" where
  "ent_bytes e = [LO_UINT16 (group_addr e), HI_UINT16 (group_addr e)] @ g_endpoints e @ [n_endpoints e]
     @ group_name e @ [g_rsv e]"

definition ent_of :: "bytes \<Rightarrow> aps_group_tbl_ent_t" where
  "ent_of b = \<lparr>group_addr = BUILD_U16 (b ! 0) (b ! 1),
     g_endpoints = take APS_EP_NUM_IN_GROUP_TBL (drop 2 b),
     n_endpoints = b ! (2 + APS_EP_NUM_IN_GROUP_TBL),
     group_name = take APS_GROUP_NAME_LEN (drop (3 + APS_EP_NUM_IN_GROUP_TBL) b),
     g_rsv = b ! (3 + APS_EP_NUM_IN_GROUP_TBL + APS_GROUP_NAME_LEN)\<rparr>"

definition tbl_bytes :: "aps_groups \<Rightarrow> bytes" where
  "tbl_bytes s = concat (map ent_bytes (aps_group_tbl s))"

text \<open>Reading overwrites the first bytes of the table.\<close>

definition tbl_read :: "bytes \<Rightarrow> aps_groups \<Rightarrow> aps_groups" where
  "tbl_read d s = (let b = d @ drop (length d) (tbl_bytes s) in
     s\<lparr>aps_group_tbl := map (\<lambda>i. ent_of (take ENT_SIZE (drop (i * ENT_SIZE) b))) [0..<APS_GROUP_TABLE_SIZE s]\<rparr>)"

definition NV_MODULE_APS :: nat where "NV_MODULE_APS = 2"
definition NV_ITEM_APS_GROUP_TABLE :: u8 where "NV_ITEM_APS_GROUP_TABLE = 5"

definition aps_groupTblSave2Flash ::
  "aps_groups \<Rightarrow> flash \<Rightarrow> ev_buf_vars_t \<Rightarrow> nv_sts_t \<times> flash \<times> ev_buf_vars_t" where
  "aps_groupTblSave2Flash s f pool = nv_flashWriteNew True NV_MODULE_APS NV_ITEM_APS_GROUP_TABLE
     (of_nat (APS_GROUP_TABLE_SIZE s * ENT_SIZE)) (tbl_bytes s) f pool"

definition aps_groupTblNvInit ::
  "nv_len_tbl \<Rightarrow> flash \<Rightarrow> aps_groups \<Rightarrow> nv_sts_t \<times> nv_len_tbl \<times> flash \<times> aps_groups" where
  "aps_groupTblNvInit lt f s =
     (let lt' = nv_itemLengthCheckAdd NV_ITEM_APS_GROUP_TABLE (of_nat (APS_GROUP_TABLE_SIZE s * ENT_SIZE)) lt;
          (ret, out, f') = nv_flashReadNew lt' True NV_MODULE_APS NV_ITEM_APS_GROUP_TABLE (of_nat ENT_SIZE) f in
      (ret, lt', f', case out of Some (Data d) \<Rightarrow> tbl_read d s | _ \<Rightarrow> s))"

definition ent_sized :: "aps_group_tbl_ent_t \<Rightarrow> bool" where
  "ent_sized e \<longleftrightarrow> length (g_endpoints e) = APS_EP_NUM_IN_GROUP_TBL \<and> length (group_name e) = APS_GROUP_NAME_LEN"

lemma length_ent_bytes: "ent_sized e \<Longrightarrow> length (ent_bytes e) = ENT_SIZE"
  by (simp add: ent_bytes_def ent_sized_def ENT_SIZE_def)

lemma ent_of_bytes: "ent_sized e \<Longrightarrow> ent_of (ent_bytes e) = e"
  by (simp add: ent_of_def ent_bytes_def ent_sized_def nth_append drop_Cons')

lemma concat_chunk:
  "\<forall>x \<in> set xs. length (f x) = n \<Longrightarrow> i < length xs \<Longrightarrow> take n (drop (i * n) (concat (map f xs))) = f (xs ! i)"
proof (induction xs arbitrary: i)
  case (Cons x xs)
  then show ?case by (cases i) simp_all
qed simp

lemma length_chunks: "\<forall>x \<in> set xs. length (f x) = n \<Longrightarrow> length (concat (map f xs)) = length xs * n"
  by (induction xs) simp_all

lemma tbl_read_bytes:
  assumes "\<forall>e \<in> set (aps_group_tbl s). ent_sized e" "APS_GROUP_TABLE_SIZE t = APS_GROUP_TABLE_SIZE s"
    "\<forall>e \<in> set (aps_group_tbl t). ent_sized e"
  shows "tbl_read (tbl_bytes s) t = t\<lparr>aps_group_tbl := aps_group_tbl s\<rparr>"
proof -
  have l: "\<forall>e \<in> set (aps_group_tbl s). length (ent_bytes e) = ENT_SIZE" "\<forall>e \<in> set (aps_group_tbl t). length (ent_bytes e) = ENT_SIZE"
    using assms length_ent_bytes by auto
  then have n: "length (tbl_bytes s) = length (tbl_bytes t)"
    using assms(2) by (simp add: tbl_bytes_def length_chunks [OF l(1)] length_chunks [OF l(2)])
  have "map (\<lambda>i. ent_of (take ENT_SIZE (drop (i * ENT_SIZE) (tbl_bytes s)))) [0..<APS_GROUP_TABLE_SIZE s] = aps_group_tbl s"
    using concat_chunk [OF l(1)] assms(1) by (intro nth_equalityI) (auto simp: tbl_bytes_def ent_of_bytes)
  then show ?thesis using assms(2) n by (simp add: tbl_read_def Let_def)
qed

text \<open>The length registered last is the one that counts.\<close>

definition len_tbl_ok :: "nv_len_tbl \<Rightarrow> bool" where
  "len_tbl_ok t \<longleftrightarrow> length (g_nvItemLenCheckTbl t) = NV_ITEM_LEN_CHK_TABBLE_NUM \<and>
     g_nvItemLengthCheckNum t \<le> NV_ITEM_LEN_CHK_TABBLE_NUM"

lemma find_at: "i < length xs \<Longrightarrow> P (xs ! i) \<Longrightarrow> \<forall>j < i. \<not> P (xs ! j) \<Longrightarrow> List.find P xs = Some (xs ! i)"
  unfolding find_Some_iff by blast

lemma len_registered:
  assumes "len_tbl_ok t"
  shows "nv_itemLengthValidCheck (nv_itemLengthCheckAdd k len t) k len = len"
proof -
  let ?n = "g_nvItemLengthCheckNum t" and ?l = "g_nvItemLenCheckTbl t" and ?P = "\<lambda>e. lc_itemId e = k"
  have l: "?n \<le> length ?l" "length ?l = NV_ITEM_LEN_CHK_TABBLE_NUM" using assms by (auto simp: len_tbl_ok_def)
  show ?thesis
  proof (cases "find_index ?P (take ?n ?l)")
    case (Some i)
    let ?e = "(?l ! i)\<lparr>lc_len := len\<rparr>"
    have i: "i < ?n" "i < length ?l" "lc_itemId (?l ! i) = k" "\<forall>j < i. lc_itemId (?l ! j) \<noteq> k"
      using find_index_Some [OF Some] by (auto simp: nth_take)
    have "List.find ?P (?l[i := ?e]) = Some (?l[i := ?e] ! i)"
      using i by (intro find_at) auto
    then show ?thesis using Some i by (simp add: nv_itemLengthCheckAdd_def nv_itemLengthValidCheck_def)
  next
    case None
    have n: "\<forall>j < ?n. lc_itemId (?l ! j) \<noteq> k"
    proof (intro allI impI)
      fix j assume j: "j < ?n"
      then have "take ?n ?l ! j \<in> set (take ?n ?l)" using l(1) by (intro nth_mem) simp
      then show "lc_itemId (?l ! j) \<noteq> k" using None j by (simp add: find_index_None_iff)
    qed
    show ?thesis
    proof (cases "?n \<ge> NV_ITEM_LEN_CHK_TABBLE_NUM")
      case True
      then have "List.find ?P ?l = None" using n l by (auto simp: find_None_iff in_set_conv_nth)
      then show ?thesis using None True by (simp add: nv_itemLengthCheckAdd_def nv_itemLengthValidCheck_def)
    next
      case False
      let ?e = "\<lparr>lc_itemId = k, lc_len = len\<rparr>"
      have "List.find ?P (?l[?n := ?e]) = Some (?l[?n := ?e] ! ?n)"
        using n l False by (intro find_at) auto
      then show ?thesis using None False l by (simp add: nv_itemLengthCheckAdd_def nv_itemLengthValidCheck_def)
    qed
  qed
qed


lemma restore_read:
  assumes rel: "nv_rel md f0 (f, pool) m" and k: "m k = Some d" "k \<noteq> ITEM_FIELD_IDLE" and lt: "len_tbl_ok lt"
    and d: "length d < 2 ^ 16" "len \<noteq> 0" "length d mod unat len = 0"
  shows "nv_flashReadNew (nv_itemLengthCheckAdd k (of_nat (length d)) lt) True md k len f = (NV_SUCC, Some (Data d), f)"
proof -
  have "md \<noteq> NV_MODULE_NWK_FRAME_COUNT" "m \<noteq> Map.empty" using rel k(1) by (auto simp: nv_rel_def)
  then obtain sec l where l: "nv_rep md sec f l" "nv_get l = m" using rel by (auto simp: nv_rel_def)
  have g: "getter_ok l k len" using k d l(2) by (simp add: getter_ok_fits len_fits_def unat_eq_0)
  from read_new_ok [OF l(1) \<open>md \<noteq> _\<close> g] k(1) l(2) d(1) show ?thesis
    by (simp add: stored_len_def len_registered [OF lt] unat_of_nat_u16)
qed

lemma group_size: "ENT_SIZE = 28"
  by (simp add: ENT_SIZE_def APS_EP_NUM_IN_GROUP_TBL_def APS_GROUP_NAME_LEN_def)

lemma sized_rel:
  assumes "groups_rel s G"
  shows "\<forall>e \<in> set (aps_group_tbl s). ent_sized e"
proof -
  from assms obtain es fs where s: "aps_group_tbl s = es @ fs" "list_all2 entry_rep es G" "list_all entry_free fs"
    by (rule groups_relE)
  have "\<forall>e \<in> set es. ent_sized e"
    using s(2) by (induction rule: list_all2_induct) (auto simp: entry_rep_def ent_sized_def)
  then show ?thesis using s(1,3) by (auto simp: entry_free_def ent_sized_def list_all_iff)
qed


subsection \<open>Properties\<close>

text \<open>C9. The group table implements a list of groups with their endpoints. Whatever sequence of
  add, delete, delete-all, reset, search and list requests it gets, as long as nobody adds the
  invalid group address 0xFFFF and searches are for valid endpoints, it never reads or writes outside the table, answers what the list
  answers (success, duplicate, table full, unknown group, invalid endpoint), and ends packed: the
  used entries first, each group once, its endpoints distinct, valid and in front.\<close>

theorem group_table_refines:
  assumes "table_rel cap s G" "spec_ok (grp_spec cap) grp_allowed ops G"
  shows "\<exists>t. run_ops grp_step ops s = Some (fst (spec_run (grp_spec cap) ops G), t) \<and>
    table_rel cap t (snd (spec_run (grp_spec cap) ops G))"
  using assms by (rule grp.run_sim)

definition ex_free_entry :: aps_group_tbl_ent_t where
  "ex_free_entry = \<lparr>group_addr = APS_INVALID_GRP_ADDR,
     g_endpoints = replicate APS_EP_NUM_IN_GROUP_TBL APS_GROUP_EP_INVALID, n_endpoints = 0,
     group_name = replicate APS_GROUP_NAME_LEN 0, g_rsv = 0\<rparr>"

definition ex_groups :: "nat \<Rightarrow> aps_groups" where
  "ex_groups cap = \<lparr>aps_group_tbl = replicate cap ex_free_entry, aps_group_entry_num = 0, T_saves = 0\<rparr>"

lemma ex_groups_rel: "cap < 256 \<Longrightarrow> table_rel cap (ex_groups cap) []"
  by (simp add: table_rel_def groups_rel_def ex_groups_def ex_free_entry_def entry_free_def list_all_iff)

lemma group_table_refines_witness:
  "\<exists>t. run_ops grp_step [Grp_add 7 1, Grp_add 9 1, Grp_add 7 2, Grp_add 7 1, Grp_add 5 1, Grp_search 7 2,
      Grp_delete 7 1, Grp_delete_all 2, Grp_list, Grp_delete 7 1] (ex_groups 2) =
    Some ([Grp_status 0, Grp_status 0, Grp_status 0, Grp_status 0xB8, Grp_status 0xAE, Grp_member True,
      Grp_status 0, Grp_status 0, Grp_ids 1 [9], Grp_status 0xA5], t)"
proof -
  let ?ops = "[Grp_add 7 1, Grp_add 9 1, Grp_add 7 2, Grp_add 7 1, Grp_add 5 1, Grp_search 7 2,
      Grp_delete 7 1, Grp_delete_all 2, Grp_list, Grp_delete 7 1]"
  note ev = ep_valid_def member_def del_member_def del_all_def drop_ep_def APS_EP_NUM_IN_GROUP_TBL_def
    APS_INVALID_GRP_ADDR_def aps_status_defs
  have r: "table_rel 2 (ex_groups 2) []" by (rule ex_groups_rel) simp
  have "spec_ok (grp_spec 2) grp_allowed ?ops []" by (simp add: ev)
  from group_table_refines [OF r this] show ?thesis by (auto simp: ev)
qed

text \<open>C30. The group table survives a restart. Once the posted task has saved it, in a module with
  room for it, initialising the table from the flash after a boot gives the same groups with the
  same endpoints and the same number of groups, whatever the table in memory held before, and the
  other items of the module keep their bytes.\<close>

theorem group_table_survives:
  assumes "table_rel cap s G" "nv_rel NV_MODULE_APS f0 (f, pool) m"
    "nv_room NV_MODULE_APS m NV_ITEM_APS_GROUP_TABLE (cap * ENT_SIZE)"
    "len_fits m NV_ITEM_APS_GROUP_TABLE (cap * ENT_SIZE)" "len_tbl_ok lt"
    "APS_GROUP_TABLE_SIZE t = cap" "\<forall>e \<in> set (aps_group_tbl t). ent_sized e" "aps_group_entry_num t = 0"
  shows "\<exists>f' pool' lt' t'. aps_groupTblSave2Flash s f pool = (NV_SUCC, f', pool') \<and>
    nv_rel NV_MODULE_APS f0 (f', pool') (m(NV_ITEM_APS_GROUP_TABLE \<mapsto> tbl_bytes s)) \<and>
    aps_groupTblNvInit lt f' t = (NV_SUCC, lt', f', t') \<and> table_rel cap (aps_init_group_num_set t') G"
proof -
  let ?k = NV_ITEM_APS_GROUP_TABLE and ?d = "tbl_bytes s"
  have rel: "groups_rel s G" and cap: "APS_GROUP_TABLE_SIZE s = cap" "cap < 256"
    using assms(1) by (auto simp: table_rel_def groups_rel_def)
  note sz = sized_rel [OF rel]
  have e: "\<forall>e \<in> set (aps_group_tbl s). length (ent_bytes e) = ENT_SIZE" using sz length_ent_bytes by auto
  then have d: "length ?d = cap * ENT_SIZE" using cap(1) by (simp add: tbl_bytes_def length_chunks [OF e])
  then have d16: "length ?d < 2 ^ 16" using cap(2) by (simp add: group_size)
  have a: "nv_allowed (Nv_write ?k ?d) m" using assms(4) d16 d by simp
  from sim_write [OF assms(2) a] obtain f' pool' where w:
    "aps_groupTblSave2Flash s f pool = (NV_SUCC, f', pool')" "nv_rel NV_MODULE_APS f0 (f', pool') (m(?k \<mapsto> ?d))"
    using assms(3) by (auto simp: aps_groupTblSave2Flash_def d cap)
  have "length ?d mod unat (of_nat ENT_SIZE :: u16) = 0" "(of_nat ENT_SIZE :: u16) \<noteq> 0" "?k \<noteq> ITEM_FIELD_IDLE"
    by (simp_all add: d group_size NV_ITEM_APS_GROUP_TABLE_def ITEM_FIELD_IDLE_def)
  with restore_read [OF w(2) _ _ assms(5) d16, of ?k "of_nat ENT_SIZE"] have
    r: "nv_flashReadNew (nv_itemLengthCheckAdd ?k (of_nat (cap * ENT_SIZE)) lt) True NV_MODULE_APS ?k (of_nat ENT_SIZE) f' =
      (NV_SUCC, Some (Data ?d), f')" by (simp add: d)
  have t: "tbl_read ?d t = t\<lparr>aps_group_tbl := aps_group_tbl s\<rparr>"
    using tbl_read_bytes [OF sz _ assms(7)] cap assms(6) by simp
  have "aps_group_list_get (t\<lparr>aps_group_tbl := aps_group_tbl s\<rparr>) = map fst G"
    using list_get_rel [OF rel] by (simp add: aps_group_list_get_def)
  then have "table_rel cap (aps_init_group_num_set (t\<lparr>aps_group_tbl := aps_group_tbl s\<rparr>)) G"
    using assms(1,8) by (simp add: table_rel_def groups_rel_def aps_init_group_num_set_def)
  moreover have "aps_groupTblNvInit lt f' t =
      (NV_SUCC, nv_itemLengthCheckAdd ?k (of_nat (cap * ENT_SIZE)) lt, f', t\<lparr>aps_group_tbl := aps_group_tbl s\<rparr>)"
    using r t assms(6) by (simp add: aps_groupTblNvInit_def Let_def)
  ultimately show ?thesis using w by blast
qed

definition ex_len_tbl :: nv_len_tbl where
  "ex_len_tbl = \<lparr>g_nvItemLengthCheckNum = 0, g_nvItemLenCheckTbl = replicate 16 \<lparr>lc_itemId = 0, lc_len = 0\<rparr>, T_nvExcept = 0\<rparr>"

lemma group_table_survives_witness:
  "\<exists>s f' pool' lt' t'. aps_me_group_add_req 7 1 (ex_groups 2) = Some (0, s) \<and>
     aps_groupTblSave2Flash s (fst ex_blank) (snd ex_blank) = (NV_SUCC, f', pool') \<and>
     aps_groupTblNvInit ex_len_tbl f' (ex_groups 2) = (NV_SUCC, lt', f', t') \<and>
     table_rel 2 (aps_init_group_num_set t') [(7, [1])]"
proof -
  have r: "table_rel 2 (ex_groups 2) []" by (rule ex_groups_rel) simp
  obtain s where s: "aps_me_group_add_req 7 1 (ex_groups 2) = Some (0, s)" "table_rel 2 s [(7, [1])]"
    using group_add_sim [OF r, of 7 1] by (auto simp: APS_INVALID_GRP_ADDR_def ep_valid_def APS_STATUS_SUCCESS_def)
  have b: "nv_rel NV_MODULE_APS (\<lambda>_. 0xFF) (fst ex_blank, snd ex_blank) Map.empty"
    by (simp add: nv_rel_def nv_blank_def erased_def nv_same_outside_def lay_ok_def NV_MAX_MODULS_def
      MODULE_SECTOR_NUM_def NV_MODULE_NWK_FRAME_COUNT_def ex_blank_def NV_MODULE_APS_def)
  have "nv_room NV_MODULE_APS Map.empty NV_ITEM_APS_GROUP_TABLE (2 * ENT_SIZE)"
    "len_fits Map.empty NV_ITEM_APS_GROUP_TABLE (2 * ENT_SIZE)"
    by (simp_all add: nv_eval NV_MODULE_APS_def NV_ITEM_APS_GROUP_TABLE_def group_size)
  moreover have "len_tbl_ok ex_len_tbl" by (simp add: len_tbl_ok_def ex_len_tbl_def NV_ITEM_LEN_CHK_TABBLE_NUM_def)
  moreover have "APS_GROUP_TABLE_SIZE (ex_groups 2) = 2" "\<forall>e \<in> set (aps_group_tbl (ex_groups 2)). ent_sized e"
    "aps_group_entry_num (ex_groups 2) = 0"
    by (simp_all add: ex_groups_def ent_sized_def ex_free_entry_def)
  ultimately show ?thesis using group_table_survives [OF s(2) b] s(1) by blast
qed

text \<open>C31. The invalid address is not refused. Adding an endpoint to group 0xFFFF is answered with
  success and puts the endpoint into a free place without counting it. Deleting it from group 0xFFFF
  again is answered with success too, and takes the last real group of the table with it; when there
  is no real group, it clears an entry before the start of the table.\<close>

theorem invalid_group_loses_group:
  assumes "table_rel cap s G" "ep_valid ep" "length G < cap"
  shows "\<exists>u. aps_me_group_add_req APS_INVALID_GRP_ADDR ep s = Some (APS_STATUS_SUCCESS, u) \<and>
    (if G = [] then aps_me_group_delete_req APS_INVALID_GRP_ADDR ep u = None
     else \<exists>t. aps_me_group_delete_req APS_INVALID_GRP_ADDR ep u = Some (APS_STATUS_SUCCESS, t) \<and>
       table_rel cap t (butlast G))"
proof -
  have rel: "groups_rel s G" and cap: "APS_GROUP_TABLE_SIZE s = cap" using assms(1) by (auto simp: table_rel_def)
  from rel obtain us fs where u: "aps_group_tbl s = us @ fs" "list_all2 entry_rep us G"
    "list_all entry_free fs" "distinct (map fst G)" "aps_group_entry_num s = of_nat (length G)"
    "length us + length fs < 256" "length us = length G" by (rule groups_relE)
  obtain f fs' where fs: "fs = f # fs'" using u(1,7) cap assms(3) by (cases fs) auto
  have f: "entry_free f" and fr: "list_all entry_free fs'" using u(3) fs by auto
  have tb: "aps_group_tbl s = us @ f # fs'" using u(1) fs by simp
  have nh: "ep \<noteq> APS_GROUP_EP_INVALID" using assms(2) by (rule ep_valid_not_hole)
  have sa: "aps_group_search_by_addr APS_INVALID_GRP_ADDR s = Some (Some (length us))"
    using search_by_addr_rel [OF rel] cap assms(3) u(7) by simp
  let ?g = "f\<lparr>g_endpoints := (g_endpoints f)[0 := ep], n_endpoints := n_endpoints f + 1\<rparr>"
  let ?u = "post_save (s\<lparr>aps_group_tbl := us @ ?g # fs'\<rparr>)"
  have add: "aps_me_group_add_req APS_INVALID_GRP_ADDR ep s = Some (APS_STATUS_SUCCESS, ?u)"
    using assms(2) sa ep_find_free [OF f] nh entry_upd_at [OF tb refl]
    by (simp add: aps_me_group_add_req_def nth_append tb)
  have "map group_addr (aps_group_tbl ?u) = map group_addr (aps_group_tbl s)" using tb by simp
  moreover have "aps_group_entry_num ?u = aps_group_entry_num s" by (simp add: post_save_def)
  ultimately have su: "aps_group_search_by_addr APS_INVALID_GRP_ADDR ?u = Some (Some (length us))"
    using sa by (simp only: aps_group_search_by_addr_def)
  have "g_endpoints ?g = [ep] @ replicate 7 APS_GROUP_EP_INVALID" "n_endpoints ?g = 1"
    using f by (simp_all add: entry_free_def APS_EP_NUM_IN_GROUP_TBL_def numeral_eq_Suc)
  then have fu: "aps_group_ep_find ?g ep = Some (Some 0)"
    using key_search_packed [of APS_GROUP_EP_INVALID "[ep]" 7 ep] nh by (simp add: aps_group_ep_find_def)
  let ?f = "f\<lparr>g_endpoints := (g_endpoints f)[0 := APS_GROUP_EP_INVALID]\<rparr>"
  let ?v = "post_save (s\<lparr>aps_group_tbl := us @ ?f # fs'\<rparr>)"
  have f': "entry_free ?f" using f by (simp add: entry_free_def APS_EP_NUM_IN_GROUP_TBL_def numeral_eq_Suc)
  have "?f\<lparr>n_endpoints := 0\<rparr> = ?f" using f by (simp add: entry_free_def)
  then have v: "entry_upd (length us) (\<lambda>e. e\<lparr>g_endpoints := (g_endpoints e)[0 := APS_GROUP_EP_INVALID],
      n_endpoints := n_endpoints e - 1\<rparr>) ?u = ?v"
    using f by (subst entry_upd_at) (auto simp: post_save_def entry_free_def)
  have "n_endpoints (aps_group_tbl ?v ! length us) = 0" using f' by (simp add: nth_append entry_free_def)
  then have del: "aps_me_group_delete_req APS_INVALID_GRP_ADDR ep ?u =
      map_option (\<lambda>t. (APS_STATUS_SUCCESS, post_save t)) (aps_groupEntryDel (length us) ?v)"
    using assms(2) su fu v
    by (simp add: aps_me_group_delete_req_def take_ep_out_def nth_append Let_def option.map_comp comp_def)
  have nv: "unat (aps_group_entry_num ?v) = length G" using entry_num_rel [OF rel] by (simp add: post_save_def)
  have at: "entry_upd (length us) (\<lambda>e. e\<lparr>group_addr := APS_INVALID_GRP_ADDR\<rparr>) ?v = ?v"
    using f' by (subst entry_upd_at) (auto simp: post_save_def entry_free_def)
  show ?thesis
  proof (cases G rule: rev_cases)
    case Nil
    then show ?thesis using add del nv by (simp add: aps_groupEntryDel_def Let_def)
  next
    case (snoc H h)
    from u(2) snoc obtain ws w where w: "us = ws @ [w]" "list_all2 entry_rep ws H" "entry_rep w h"
      by (auto simp: list_all2_append2 list_all2_Cons2)
    let ?t = "(s\<lparr>aps_group_tbl := ws @ free_entry w # ?f # fs', aps_group_entry_num := aps_group_entry_num s - 1,
       T_saves := T_saves s + 1\<rparr>)"
    have ng: "\<not> int (length us) < int (length G) - 1" using u(7) by simp
    have l: "length ws = length G - 1" using w(1) u(7) by simp
    have "aps_groupEntryDel (length us) ?v = Some ?t"
      unfolding aps_groupEntryDel_def Let_def at nv if_not_P [OF ng]
      using snoc w(1) l u(7) by (simp add: entry_upd_def post_save_def nth_append list_update_append)
    moreover have "groups_rel ?t H"
      by (rule groups_relI [of _ ws "free_entry w # ?f # fs'"])
        (use u fs w snoc f' fr in \<open>auto simp: entry_rep_def\<close>)
    ultimately show ?thesis using add del snoc cap tb w(1) by (simp add: table_rel_def)
  qed
qed

lemma invalid_group_loses_group_witness:
  "\<exists>s u t. aps_me_group_add_req 7 1 (ex_groups 2) = Some (0, s) \<and>
     aps_me_group_add_req 0xFFFF 1 s = Some (0, u) \<and>
     aps_me_group_delete_req 0xFFFF 1 u = Some (0, t) \<and> table_rel 2 t []"
proof -
  have r: "table_rel 2 (ex_groups 2) []" by (rule ex_groups_rel) simp
  obtain s where s: "aps_me_group_add_req 7 1 (ex_groups 2) = Some (0, s)" "table_rel 2 s [(7, [1])]"
    using group_add_sim [OF r, of 7 1] by (auto simp: APS_INVALID_GRP_ADDR_def ep_valid_def APS_STATUS_SUCCESS_def)
  from invalid_group_loses_group [OF s(2), of 1] s(1) show ?thesis
    by (simp add: APS_INVALID_GRP_ADDR_def APS_STATUS_SUCCESS_def ep_valid_def)
qed

end
