(* ===== verification/Zcl_SceneTab.thy ===== *)
theory Zcl_SceneTab
  imports Zcl_Dispatch Aps_Group
begin

text \<open>
  The scene table of \<^verbatim>\<open>zigbee/zcl/general/zcl_scene.c\<close> and its copy in flash
  (\<^verbatim>\<open>zcl_sceneTable_save\<close> and \<^verbatim>\<open>zcl_sceneTable_restore\<close> of \<^verbatim>\<open>zigbee/zcl/zcl_nv.c\<close>).

  \<^verbatim>\<open>ZCL_SCENE_TABLE_NUM\<close> is the length of the table, a pointer to an entry its index. The state
  of the groups and scenes clusters is the state of the ZCL with the scene table, the group
  table of the APS layer and the flash beside it; \<open>g_fault\<close> records an access outside the group
  table. The application's callback is a field of the environment.

  The specification is a finite map from endpoint, group and scene number to scenes.
\<close>

definition ZCL_MAX_SCENE_NAME_LEN :: nat where "ZCL_MAX_SCENE_NAME_LEN = 16"
definition ZCL_MAX_SCENE_EXT_FIELD_SIZE :: nat where "ZCL_MAX_SCENE_EXT_FIELD_SIZE = 24"
definition ZCL_CLUSTER_GEN_GROUPS :: u16 where "ZCL_CLUSTER_GEN_GROUPS = 0x0004"
definition ZCL_CLUSTER_GEN_SCENES :: u16 where "ZCL_CLUSTER_GEN_SCENES = 0x0005"
definition ZCL_ATTRID_SCENE_SCENE_COUNT :: u16 where "ZCL_ATTRID_SCENE_SCENE_COUNT = 0x0000"
definition ZCL_ATTRID_SCENE_CURRENT_SCENE :: u16 where "ZCL_ATTRID_SCENE_CURRENT_SCENE = 0x0001"
definition ZCL_ATTRID_SCENE_CURRENT_GROUP :: u16 where "ZCL_ATTRID_SCENE_CURRENT_GROUP = 0x0002"
definition ZCL_ATTRID_SCENE_SCENE_VALID :: u16 where "ZCL_ATTRID_SCENE_SCENE_VALID = 0x0003"
definition ZCL_ATTRID_SCENE_NAME_SUPPORT :: u16 where "ZCL_ATTRID_SCENE_NAME_SUPPORT = 0x0004"

record zcl_sceneEntry_t =
  sc_groupId :: u16
  sc_sceneId :: u8
  sc_sceneName :: bytes
  sc_transTime :: u16
  sc_transTime100ms :: u16
  sc_extFieldLen :: u8
  sc_extField :: bytes

record zcl_sceneTable_t =
  st_used :: u8
  st_endpoint :: u8
  st_scene :: zcl_sceneEntry_t

record copyScene_t =
  cs_mode :: u8
  cs_groupIdFrom :: u16
  cs_sceneIdFrom :: u8
  cs_groupIdTo :: u16
  cs_sceneIdTo :: u8

type_synonym scene_tab = "zcl_sceneTable_t list"

subsection \<open>The table\<close>

definition zero_scene :: zcl_sceneEntry_t where
  "zero_scene = \<lparr>sc_groupId = 0, sc_sceneId = 0, sc_sceneName = replicate ZCL_MAX_SCENE_NAME_LEN 0,
     sc_transTime = 0, sc_transTime100ms = 0, sc_extFieldLen = 0,
     sc_extField = replicate ZCL_MAX_SCENE_EXT_FIELD_SIZE 0\<rparr>"

definition zcl_scene_clearEntry :: "zcl_sceneTable_t \<Rightarrow> zcl_sceneTable_t" where
  "zcl_scene_clearEntry t = t\<lparr>st_used := 0, st_endpoint := 0xFE, st_scene := zero_scene\<rparr>"

definition zcl_scene_sceneTabClear :: "scene_tab \<Rightarrow> scene_tab" where
  "zcl_scene_sceneTabClear tab = map zcl_scene_clearEntry tab"

definition zcl_scene_getFreeEntry :: "scene_tab \<Rightarrow> nat option" where
  "zcl_scene_getFreeEntry tab = find_index (\<lambda>t. st_used t = 0) tab"

definition scene_is :: "u8 \<Rightarrow> u16 \<Rightarrow> u8 \<Rightarrow> zcl_sceneTable_t \<Rightarrow> bool" where
  "scene_is ep g sc t \<longleftrightarrow> st_used t \<noteq> 0 \<and> st_endpoint t = ep \<and>
     sc_groupId (st_scene t) = g \<and> sc_sceneId (st_scene t) = sc"

definition zcl_scene_findEntry :: "u8 \<Rightarrow> u16 \<Rightarrow> u8 \<Rightarrow> scene_tab \<Rightarrow> nat option" where
  "zcl_scene_findEntry ep g sc tab = find_index (scene_is ep g sc) tab"

definition zcl_scene_getSceneUsedNum :: "scene_tab \<Rightarrow> u8" where
  "zcl_scene_getSceneUsedNum tab = of_nat (length (filter (\<lambda>t. st_used t \<noteq> 0) tab))"

definition scene_of_group :: "u8 \<Rightarrow> u16 \<Rightarrow> zcl_sceneTable_t \<Rightarrow> bool" where
  "scene_of_group ep g t \<longleftrightarrow> st_used t \<noteq> 0 \<and> st_endpoint t = ep \<and> sc_groupId (st_scene t) = g"

text \<open>\<^verbatim>\<open>cnt\<close> is the length of the list that is filled.\<close>

definition zcl_scene_findAllSceneByGroup :: "u8 \<Rightarrow> u16 \<Rightarrow> scene_tab \<Rightarrow> u8 list" where
  "zcl_scene_findAllSceneByGroup ep g tab = map (\<lambda>t. sc_sceneId (st_scene t)) (filter (scene_of_group ep g) tab)"

text \<open>The place a scene goes to: its old one, or a free one.\<close>

definition scene_slot :: "u8 \<Rightarrow> u16 \<Rightarrow> u8 \<Rightarrow> scene_tab \<Rightarrow> nat option" where
  "scene_slot ep g sc tab = (case zcl_scene_findEntry ep g sc tab of
     Some i \<Rightarrow> Some i | None \<Rightarrow> zcl_scene_getFreeEntry tab)"

definition scene_put :: "nat \<Rightarrow> u8 \<Rightarrow> zcl_sceneEntry_t \<Rightarrow> scene_tab \<Rightarrow> scene_tab" where
  "scene_put i ep e tab = tab[i := \<lparr>st_used = 1, st_endpoint = ep, st_scene = e\<rparr>]"

definition add_entry :: "u8 \<Rightarrow> zcl_sceneEntry_t \<Rightarrow> scene_tab \<Rightarrow> u8 \<times> scene_tab" where
  "add_entry ep e tab = (case scene_slot ep (sc_groupId e) (sc_sceneId e) tab of
     None \<Rightarrow> (ZCL_STA_INSUFFICIENT_SPACE, tab)
   | Some i \<Rightarrow> (ZCL_STA_SUCCESS, scene_put i ep e tab))"

definition remove_entry :: "u8 \<Rightarrow> u16 \<Rightarrow> u8 \<Rightarrow> scene_tab \<Rightarrow> u8 \<times> scene_tab" where
  "remove_entry ep g sc tab = (case zcl_scene_findEntry ep g sc tab of
     None \<Rightarrow> (ZCL_STA_NOT_FOUND, tab)
   | Some i \<Rightarrow> (ZCL_STA_SUCCESS, tab[i := zcl_scene_clearEntry (tab ! i)]))"

definition remove_all_entries :: "u8 \<Rightarrow> u16 \<Rightarrow> scene_tab \<Rightarrow> bool \<times> scene_tab" where
  "remove_all_entries ep g tab = (list_ex (scene_of_group ep g) tab,
     map (\<lambda>t. if scene_of_group ep g t then zcl_scene_clearEntry t else t) tab)"

definition ZB_SCENE_CLUSTER_COPY_SCENE_MODE_ALL :: "u8 \<Rightarrow> bool" where
  "ZB_SCENE_CLUSTER_COPY_SCENE_MODE_ALL mode \<longleftrightarrow> mode AND 0x01 = 0x01"

definition copied_id :: "copyScene_t \<Rightarrow> u8 \<Rightarrow> u8" where
  "copied_id c x = (if ZB_SCENE_CLUSTER_COPY_SCENE_MODE_ALL (cs_mode c) then x else cs_sceneIdTo c)"

fun copy_loop :: "u8 \<Rightarrow> copyScene_t \<Rightarrow> u8 list \<Rightarrow> scene_tab \<Rightarrow> u8 \<times> scene_tab" where
  "copy_loop ep c [] tab = (ZCL_STA_SUCCESS, tab)"
| "copy_loop ep c (x # xs) tab =
     (case zcl_scene_findEntry ep (cs_groupIdFrom c) x tab of
        None \<Rightarrow> copy_loop ep c xs tab
      | Some i \<Rightarrow>
          (case scene_slot ep (cs_groupIdTo c) (copied_id c x) tab of
             None \<Rightarrow> (ZCL_STA_INSUFFICIENT_SPACE, tab)
           | Some j \<Rightarrow> copy_loop ep c xs (scene_put j ep ((st_scene (tab ! i))\<lparr>sc_sceneId := copied_id c x,
                          sc_groupId := cs_groupIdTo c\<rparr>) tab)))"

definition copy_sources :: "u8 \<Rightarrow> copyScene_t \<Rightarrow> scene_tab \<Rightarrow> u8 list" where
  "copy_sources ep c tab =
     (if ZB_SCENE_CLUSTER_COPY_SCENE_MODE_ALL (cs_mode c)
      then zcl_scene_findAllSceneByGroup ep (cs_groupIdFrom c) tab
      else if zcl_scene_findEntry ep (cs_groupIdFrom c) (cs_sceneIdFrom c) tab \<noteq> None
      then [cs_sceneIdFrom c] else [])"

text \<open>The space test looks for the \<^emph>\<open>source\<close> scene numbers in the target group, also when a single
  scene is copied under another number.\<close>

definition copy_scenes :: "u8 \<Rightarrow> copyScene_t \<Rightarrow> scene_tab \<Rightarrow> u8 \<times> scene_tab" where
  "copy_scenes ep c tab =
     (let sceneList = copy_sources ep c tab;
          addCnt = length (filter (\<lambda>x. zcl_scene_findEntry ep (cs_groupIdTo c) x tab = None) sceneList) in
      if sceneList = [] then (ZCL_STA_INVALID_FIELD, tab)
      else if int addCnt > int (length tab) - int (unat (zcl_scene_getSceneUsedNum tab))
      then (ZCL_STA_INSUFFICIENT_SPACE, tab)
      else copy_loop ep c sceneList tab)"

subsection \<open>The table in flash\<close>

text \<open>\<^verbatim>\<open>zcl_sceneTable_t\<close> is packed: 50 bytes in the order of the fields.\<close>

definition SCENE_SIZE :: nat where
  "SCENE_SIZE = 2 + (2 + 1 + ZCL_MAX_SCENE_NAME_LEN + 2 + 2 + 1 + ZCL_MAX_SCENE_EXT_FIELD_SIZE)"

definition sceneEntry_bytes :: "zcl_sceneEntry_t \<Rightarrow> bytes" where
  "sceneEntry_bytes e = u16_bytes (sc_groupId e) @ [sc_sceneId e] @ sc_sceneName e @ u16_bytes (sc_transTime e)
     @ u16_bytes (sc_transTime100ms e) @ [sc_extFieldLen e] @ sc_extField e"

definition scene_bytes :: "zcl_sceneTable_t \<Rightarrow> bytes" where
  "scene_bytes t = [st_used t, st_endpoint t] @ sceneEntry_bytes (st_scene t)"

definition scene_from :: "bytes \<Rightarrow> zcl_sceneTable_t" where
  "scene_from b = \<lparr>st_used = b ! 0, st_endpoint = b ! 1, st_scene =
     \<lparr>sc_groupId = BUILD_U16 (b ! 2) (b ! 3), sc_sceneId = b ! 4,
      sc_sceneName = take ZCL_MAX_SCENE_NAME_LEN (drop 5 b),
      sc_transTime = BUILD_U16 (b ! 21) (b ! 22), sc_transTime100ms = BUILD_U16 (b ! 23) (b ! 24),
      sc_extFieldLen = b ! 25, sc_extField = take ZCL_MAX_SCENE_EXT_FIELD_SIZE (drop 26 b)\<rparr>\<rparr>"

definition scenetab_bytes :: "scene_tab \<Rightarrow> bytes" where
  "scenetab_bytes tab = concat (map scene_bytes tab)"

definition scenetab_read :: "bytes \<Rightarrow> scene_tab \<Rightarrow> scene_tab" where
  "scenetab_read d tab = (let b = d @ drop (length d) (scenetab_bytes tab) in
     map (\<lambda>i. scene_from (take SCENE_SIZE (drop (i * SCENE_SIZE) b))) [0..<length tab])"

definition NV_MODULE_ZCL :: nat where "NV_MODULE_ZCL = 3"
definition NV_ITEM_ZCL_SCENE_TABLE :: u8 where "NV_ITEM_ZCL_SCENE_TABLE = 0x24"

subsection \<open>State of the groups and scenes clusters\<close>

datatype gs_payload =
    StoreScene zcl_sceneEntry_t | RecallScene zcl_sceneEntry_t
  | AddSceneRsp u8 u16 u8 | ViewSceneRsp u8 zcl_sceneEntry_t | RemoveSceneRsp u8 u16 u8
  | RemoveAllSceneRsp u8 u16 | StoreSceneRsp u8 u16 u8
  | SceneMemRsp u8 u8 u16 u8 "view option" | CopySceneRsp u8 u16 u8
  | AddGroupRsp u8 u16 | ViewGroupRsp u8 u16 "view option" | RemoveGroupRsp u8 u16
  | GroupMemRsp u8 u8 view

record gsst =
  g_z :: zst
  g_groups :: aps_groups
  g_scenes :: scene_tab
  g_flash :: flash
  g_lens :: nv_len_tbl
  g_fault :: bool

record genv =
  e_z :: zenv
  appCb :: "nat \<Rightarrow> zclIncomingAddrInfo_t \<Rightarrow> u8 \<Rightarrow> gs_payload \<Rightarrow> gsst \<Rightarrow> gs_payload \<times> gsst"

definition zcl_sceneTable_save :: "gsst \<Rightarrow> nv_sts_t \<times> gsst" where
  "zcl_sceneTable_save s =
     (let (st, f, p) = Drv_Nv.nv_flashWriteNew True NV_MODULE_ZCL NV_ITEM_ZCL_SCENE_TABLE
        (of_nat (SCENE_SIZE * length (g_scenes s))) (scenetab_bytes (g_scenes s)) (g_flash s) (pool (g_z s)) in
      (st, s\<lparr>g_flash := f, g_z := (g_z s)\<lparr>pool := p\<rparr>\<rparr>))"

definition zcl_sceneTable_restore :: "gsst \<Rightarrow> nv_sts_t \<times> gsst" where
  "zcl_sceneTable_restore s =
     (let lens = nv_itemLengthCheckAdd NV_ITEM_ZCL_SCENE_TABLE (of_nat (SCENE_SIZE * length (g_scenes s))) (g_lens s);
          (st, out, f) = Drv_Nv.nv_flashReadNew lens True NV_MODULE_ZCL NV_ITEM_ZCL_SCENE_TABLE (of_nat SCENE_SIZE) (g_flash s) in
      (st, s\<lparr>g_lens := lens, g_flash := f,
             g_scenes := (case out of Some (Data d) \<Rightarrow> scenetab_read d (g_scenes s) | _ \<Rightarrow> g_scenes s)\<rparr>))"

text \<open>An attribute of the scenes cluster is set when it exists: it is read into a local variable of
  \<open>k\<close> bytes, which is then overwritten and written back.\<close>

definition scene_attr_set :: "genv \<Rightarrow> u8 \<Rightarrow> u16 \<Rightarrow> bytes \<Rightarrow> gsst \<Rightarrow> gsst" where
  "scene_attr_set env ep attr val s =
     (case zcl_getAttrVal ep ZCL_CLUSTER_GEN_SCENES attr (g_z s) of
        (st, len, bs) \<Rightarrow>
          if st = ZCL_STA_SUCCESS then
            s\<lparr>g_z := snd (zcl_setAttrVal ep ZCL_CLUSTER_GEN_SCENES attr (lview val (uninit (e_z env)))
                          (local_touch (length val) (length bs) (g_z s)))\<rparr>
          else s)"

definition zcl_scene_updateSceneCntAttr :: "genv \<Rightarrow> u8 \<Rightarrow> gsst \<Rightarrow> gsst" where
  "zcl_scene_updateSceneCntAttr env ep s =
     scene_attr_set env ep ZCL_ATTRID_SCENE_SCENE_COUNT [zcl_scene_getSceneUsedNum (g_scenes s)] s"

definition zcl_scenesSave :: "genv \<Rightarrow> u8 \<Rightarrow> gsst \<Rightarrow> nv_sts_t \<times> gsst" where
  "zcl_scenesSave env ep s = zcl_sceneTable_save (zcl_scene_updateSceneCntAttr env ep s)"

definition zcl_scenesRestore :: "gsst \<Rightarrow> nv_sts_t \<times> gsst" where
  "zcl_scenesRestore s = zcl_sceneTable_restore s"

definition zcl_scene_addSceneEntry :: "genv \<Rightarrow> u8 \<Rightarrow> zcl_sceneEntry_t \<Rightarrow> gsst \<Rightarrow> u8 \<times> gsst" where
  "zcl_scene_addSceneEntry env ep e s =
     (let (st, tab) = add_entry ep e (g_scenes s) in
      if st = ZCL_STA_SUCCESS then (ZCL_STA_SUCCESS, snd (zcl_scenesSave env ep (s\<lparr>g_scenes := tab\<rparr>)))
      else (st, s))"

definition zcl_scene_removeSceneEntry :: "genv \<Rightarrow> u8 \<Rightarrow> u16 \<Rightarrow> u8 \<Rightarrow> gsst \<Rightarrow> u8 \<times> gsst" where
  "zcl_scene_removeSceneEntry env ep g sc s =
     (let (st, tab) = remove_entry ep g sc (g_scenes s) in
      if st = ZCL_STA_SUCCESS then (ZCL_STA_SUCCESS, snd (zcl_scenesSave env ep (s\<lparr>g_scenes := tab\<rparr>)))
      else (st, s))"

definition zcl_scene_removeAllSceneEntry :: "genv \<Rightarrow> u8 \<Rightarrow> u16 \<Rightarrow> bool \<Rightarrow> gsst \<Rightarrow> gsst" where
  "zcl_scene_removeAllSceneEntry env ep g updateNV s =
     (let (found, tab) = remove_all_entries ep g (g_scenes s); s1 = s\<lparr>g_scenes := tab\<rparr> in
      if found \<and> updateNV then snd (zcl_scenesSave env ep s1) else s1)"

text \<open>When a free place is missing half way, the scenes copied so far stay, and are not saved.\<close>

definition zcl_scene_copySceneEntry :: "genv \<Rightarrow> u8 \<Rightarrow> copyScene_t \<Rightarrow> gsst \<Rightarrow> u8 \<times> gsst" where
  "zcl_scene_copySceneEntry env ep c s =
     (let (st, tab) = copy_scenes ep c (g_scenes s); s1 = s\<lparr>g_scenes := tab\<rparr> in
      if st = ZCL_STA_SUCCESS then (ZCL_STA_SUCCESS, snd (zcl_scenesSave env ep s1)) else (st, s1))"

definition zcl_scene_register ::
  "genv \<Rightarrow> u8 \<Rightarrow> u16 \<Rightarrow> u8 \<Rightarrow> zclAttrInfo_t list \<Rightarrow> nat option \<Rightarrow> nat option \<Rightarrow> gsst \<Rightarrow> u8 \<times> gsst" where
  "zcl_scene_register env ep manu attrs attrTbl cmdHdl app s =
     (let (nst, s1) = zcl_scenesRestore s;
          s2 = (if nst \<noteq> NV_SUCC then s1\<lparr>g_scenes := zcl_scene_sceneTabClear (g_scenes s1)\<rparr> else s1);
          (st, z) = zcl_registerCluster ep ZCL_CLUSTER_GEN_SCENES manu attrs attrTbl cmdHdl app (g_z s2);
          s3 = s2\<lparr>g_z := z\<rparr> in
      (st, if st = ZCL_STA_SUCCESS then zcl_scene_updateSceneCntAttr env ep s3 else s3))"

subsection \<open>The table as a map\<close>

type_synonym scene_key = "u8 \<times> u16 \<times> u8"

definition scene_key :: "zcl_sceneTable_t \<Rightarrow> scene_key" where
  "scene_key t = (st_endpoint t, sc_groupId (st_scene t), sc_sceneId (st_scene t))"

definition scene_list :: "scene_tab \<Rightarrow> (scene_key \<times> zcl_sceneEntry_t) list" where
  "scene_list tab = map (\<lambda>t. (scene_key t, st_scene t)) (filter (\<lambda>t. st_used t \<noteq> 0) tab)"

definition scene_rel :: "nat \<Rightarrow> scene_tab \<Rightarrow> (scene_key \<rightharpoonup> zcl_sceneEntry_t) \<Rightarrow> bool" where
  "scene_rel cap tab m \<longleftrightarrow> length tab = cap \<and> cap < 256 \<and> distinct (map fst (scene_list tab)) \<and> m = map_of (scene_list tab)"

lemma scene_list_append [simp]: "scene_list (xs @ ys) = scene_list xs @ scene_list ys"
  by (simp add: scene_list_def)

lemma scene_list_Cons [simp]: "scene_list (t # ys) = (if st_used t \<noteq> 0 then [(scene_key t, st_scene t)] else []) @ scene_list ys"
  by (simp add: scene_list_def)

lemma scene_list_Nil [simp]: "scene_list [] = []"
  by (simp add: scene_list_def)

lemma find_index_at: "find_index P xs = Some i \<Longrightarrow> \<exists>ys x zs. xs = ys @ x # zs \<and> i = length ys \<and> P x"
  unfolding find_index_split by auto

lemma findEntry_None: "zcl_scene_findEntry ep g sc tab = None \<longleftrightarrow> map_of (scene_list tab) (ep, g, sc) = None"
  by (induction tab) (auto simp: zcl_scene_findEntry_def scene_is_def scene_key_def split: if_splits)

lemma findEntry_Some:
  assumes "zcl_scene_findEntry ep g sc tab = Some i"
  shows "\<exists>xs t ys. tab = xs @ t # ys \<and> i = length xs \<and> st_used t \<noteq> 0 \<and> scene_key t = (ep, g, sc)"
  using find_index_at [OF assms [unfolded zcl_scene_findEntry_def]] by (auto simp: scene_is_def scene_key_def)

lemma findEntry_val:
  assumes "zcl_scene_findEntry ep g sc tab = Some i" "distinct (map fst (scene_list tab))"
  shows "i < length tab" "map_of (scene_list tab) (ep, g, sc) = Some (st_scene (tab ! i))"
proof -
  from findEntry_Some [OF assms(1)] obtain xs t ys where t: "tab = xs @ t # ys" "i = length xs" "st_used t \<noteq> 0"
    "scene_key t = (ep, g, sc)" by blast
  then show "i < length tab" by simp
  have "((ep, g, sc), st_scene t) \<in> set (scene_list tab)" using t by simp
  then show "map_of (scene_list tab) (ep, g, sc) = Some (st_scene (tab ! i))"
    using map_of_is_SomeI [OF assms(2)] t by (simp add: nth_append del: scene_list_append)
qed

lemma getFree_Some:
  assumes "zcl_scene_getFreeEntry tab = Some i"
  shows "\<exists>xs t ys. tab = xs @ t # ys \<and> i = length xs \<and> st_used t = 0"
  using find_index_at [OF assms [unfolded zcl_scene_getFreeEntry_def]] by auto

lemma getFree_None: "zcl_scene_getFreeEntry tab = None \<longleftrightarrow> length (scene_list tab) = length tab"
  using length_filter_less [of _ tab "\<lambda>t. st_used t \<noteq> 0"]
  by (auto simp: zcl_scene_getFreeEntry_def find_index_None_iff scene_list_def)

lemma card_scenes: "distinct (map fst l) \<Longrightarrow> card (dom (map_of l)) = length l"
  using distinct_card [of "map fst l"] by (simp add: dom_map_of_conv_image_fst)

lemma map_of_replace:
  assumes "distinct (map fst (xs @ (k, v) # ys))"
  shows "map_of (xs @ (k, w) # ys) = (map_of (xs @ (k, v) # ys))(k \<mapsto> w)"
    and "map_of (xs @ ys) = (map_of (xs @ (k, v) # ys))(k := None)"
proof -
  have n: "map_of xs k = None" "map_of ys k = None" using assms by (auto simp: map_of_eq_None_iff)
  then show "map_of (xs @ (k, w) # ys) = (map_of (xs @ (k, v) # ys))(k \<mapsto> w)"
    "map_of (xs @ ys) = (map_of (xs @ (k, v) # ys))(k := None)"
    by (auto simp: map_add_def fun_eq_iff split: option.splits)
qed

lemma map_of_insert: "map_of (xs @ ys) k = None \<Longrightarrow> map_of (xs @ (k, v) # ys) = (map_of (xs @ ys))(k \<mapsto> v)"
  by (auto simp: map_add_def fun_eq_iff split: option.splits)

text \<open>A scene put into its slot is an update of the map; there is a slot when the key is known or the
  table is not full.\<close>

lemma scene_put_rel:
  assumes r: "scene_rel cap tab m" and k: "sc_groupId e = g" "sc_sceneId e = sc"
  shows "scene_slot ep g sc tab = None \<and> m (ep, g, sc) = None \<and> card (dom m) = cap \<or>
    (\<exists>i. scene_slot ep g sc tab = Some i \<and> scene_rel cap (scene_put i ep e tab) (m((ep, g, sc) \<mapsto> e)) \<and>
      (m (ep, g, sc) \<noteq> None \<or> card (dom m) < cap))"
proof -
  have m: "m = map_of (scene_list tab)" and d: "distinct (map fst (scene_list tab))" and cap: "length tab = cap" "cap < 256"
    using r by (auto simp: scene_rel_def)
  have c: "card (dom m) = length (scene_list tab)" unfolding m by (rule card_scenes [OF d])
  let ?n = "\<lparr>st_used = 1, st_endpoint = ep, st_scene = e\<rparr>"
  have kn: "scene_key ?n = (ep, g, sc)" by (simp add: scene_key_def k)
  show ?thesis
  proof (cases "zcl_scene_findEntry ep g sc tab")
    case (Some i)
    from findEntry_Some [OF Some] obtain xs t ys where t: "tab = xs @ t # ys" "i = length xs" "st_used t \<noteq> 0"
      "scene_key t = (ep, g, sc)" by blast
    have p: "scene_put i ep e tab = xs @ ?n # ys" using t by (simp add: scene_put_def)
    have "scene_list tab = scene_list xs @ ((ep, g, sc), st_scene t) # scene_list ys"
      "scene_list (scene_put i ep e tab) = scene_list xs @ ((ep, g, sc), e) # scene_list ys"
      using t p kn by simp_all
    moreover from this map_of_replace(1) [of "scene_list xs" "(ep, g, sc)" "st_scene t" "scene_list ys" e] d
    have "map_of (scene_list (scene_put i ep e tab)) = m((ep, g, sc) \<mapsto> e)" by (simp add: m)
    ultimately have "scene_rel cap (scene_put i ep e tab) (m((ep, g, sc) \<mapsto> e))"
      using d cap by (simp add: scene_rel_def scene_put_def)
    moreover have "m (ep, g, sc) \<noteq> None" using Some findEntry_None [of ep g sc tab] m by simp
    ultimately show ?thesis using Some by (simp add: scene_slot_def)
  next
    case None
    then have mn: "m (ep, g, sc) = None" using findEntry_None [of ep g sc tab] m by simp
    show ?thesis
    proof (cases "zcl_scene_getFreeEntry tab")
      case n: None
      then show ?thesis using None mn c cap getFree_None [of tab] by (simp add: scene_slot_def)
    next
      case (Some i)
      from getFree_Some [OF Some] obtain xs t ys where t: "tab = xs @ t # ys" "i = length xs" "st_used t = 0" by blast
      have p: "scene_put i ep e tab = xs @ ?n # ys" using t by (simp add: scene_put_def)
      have l: "scene_list tab = scene_list xs @ scene_list ys"
        "scene_list (scene_put i ep e tab) = scene_list xs @ ((ep, g, sc), e) # scene_list ys"
        using t p kn by simp_all
      have mn': "map_of (scene_list xs @ scene_list ys) (ep, g, sc) = None" using mn m l(1) by simp
      from map_of_insert [OF mn'] have "map_of (scene_list (scene_put i ep e tab)) = m((ep, g, sc) \<mapsto> e)"
        using l m by simp
      moreover have "distinct (map fst (scene_list (scene_put i ep e tab)))"
        using d mn' unfolding l by (auto simp: map_of_eq_None_iff)
      ultimately have "scene_rel cap (scene_put i ep e tab) (m((ep, g, sc) \<mapsto> e))"
        using cap by (simp add: scene_rel_def scene_put_def)
      moreover have "length (scene_list tab) < length tab"
        using Some getFree_None [of tab] by (simp add: scene_list_def le_neq_implies_less)
      ultimately show ?thesis using None Some c cap by (simp add: scene_slot_def)
    qed
  qed
qed

lemma remove_entry_rel:
  assumes r: "scene_rel cap tab m"
  shows "\<exists>tab'. remove_entry ep g sc tab = (if m (ep, g, sc) = None then ZCL_STA_NOT_FOUND else ZCL_STA_SUCCESS, tab') \<and>
    scene_rel cap tab' (m((ep, g, sc) := None))"
proof -
  have m: "m = map_of (scene_list tab)" and d: "distinct (map fst (scene_list tab))" using r by (auto simp: scene_rel_def)
  show ?thesis
  proof (cases "zcl_scene_findEntry ep g sc tab")
    case None
    then have n: "m (ep, g, sc) = None" using findEntry_None [of ep g sc tab] m by simp
    then have "m((ep, g, sc) := None) = m" by (simp add: fun_upd_idem)
    then show ?thesis using None n r by (simp add: remove_entry_def)
  next
    case (Some i)
    from findEntry_Some [OF Some] obtain xs t ys where t: "tab = xs @ t # ys" "i = length xs" "st_used t \<noteq> 0"
      "scene_key t = (ep, g, sc)" by blast
    have l: "scene_list tab = scene_list xs @ ((ep, g, sc), st_scene t) # scene_list ys" using t by simp
    let ?t = "xs @ zcl_scene_clearEntry t # ys"
    have l': "scene_list ?t = scene_list xs @ scene_list ys" by (simp add: zcl_scene_clearEntry_def)
    from map_of_replace(2) [of "scene_list xs" "(ep, g, sc)" "st_scene t" "scene_list ys"] d
    have "scene_rel cap ?t (m((ep, g, sc) := None))"
      using r t(1) unfolding scene_rel_def l l' by simp
    moreover have "m (ep, g, sc) \<noteq> None" using Some findEntry_None [of ep g sc tab] m by simp
    ultimately show ?thesis using Some t by (simp add: remove_entry_def del: fun_upd_apply)
  qed
qed

lemma map_of_filter_key: "map_of (filter (\<lambda>x. P (fst x)) l) = (\<lambda>k. if P k then map_of l k else None)"
  by (induction l) auto

definition group_key :: "u8 \<Rightarrow> u16 \<Rightarrow> scene_key \<Rightarrow> bool" where
  "group_key ep g k \<longleftrightarrow> fst k = ep \<and> fst (snd k) = g"

lemma remove_all_rel:
  assumes r: "scene_rel cap tab m"
  shows "scene_rel cap (snd (remove_all_entries ep g tab)) (\<lambda>k. if group_key ep g k then None else m k)"
    and "fst (remove_all_entries ep g tab) \<longleftrightarrow> (\<exists>sc. m (ep, g, sc) \<noteq> None)"
proof -
  have m: "m = map_of (scene_list tab)" and d: "distinct (map fst (scene_list tab))" using r by (auto simp: scene_rel_def)
  have l: "scene_list (snd (remove_all_entries ep g ts)) = filter (\<lambda>x. \<not> group_key ep g (fst x)) (scene_list ts)" for ts
    by (induction ts) (auto simp: remove_all_entries_def zcl_scene_clearEntry_def group_key_def scene_key_def scene_of_group_def)
  show "scene_rel cap (snd (remove_all_entries ep g tab)) (\<lambda>k. if group_key ep g k then None else m k)"
    using r d unfolding scene_rel_def l map_of_filter_key [of "\<lambda>k. \<not> group_key ep g k"]
    by (auto simp: remove_all_entries_def fun_eq_iff distinct_map_filter)
  have "fst (remove_all_entries ep g ts) \<longleftrightarrow> (\<exists>sc. map_of (scene_list ts) (ep, g, sc) \<noteq> None)" for ts
    by (induction ts) (auto simp: remove_all_entries_def scene_of_group_def scene_key_def split: if_splits)
  then show "fst (remove_all_entries ep g tab) \<longleftrightarrow> (\<exists>sc. m (ep, g, sc) \<noteq> None)" unfolding m .
qed

lemma members_rel:
  assumes r: "scene_rel cap tab m"
  shows "set (zcl_scene_findAllSceneByGroup ep g tab) = {sc. m (ep, g, sc) \<noteq> None}"
    and "distinct (zcl_scene_findAllSceneByGroup ep g tab)"
proof -
  have m: "m = map_of (scene_list tab)" and d: "distinct (map fst (scene_list tab))" using r by (auto simp: scene_rel_def)
  have s: "set (zcl_scene_findAllSceneByGroup ep g ts) = {sc. map_of (scene_list ts) (ep, g, sc) \<noteq> None}" for ts
    by (induction ts) (auto simp: zcl_scene_findAllSceneByGroup_def scene_of_group_def scene_key_def split: if_splits)
  then show "set (zcl_scene_findAllSceneByGroup ep g tab) = {sc. m (ep, g, sc) \<noteq> None}" unfolding m .
  have "distinct (map fst (scene_list ts)) \<Longrightarrow> distinct (zcl_scene_findAllSceneByGroup ep g ts)" for ts
  proof (induction ts)
    case (Cons t ts)
    have "sc_sceneId (st_scene t) \<notin> set (zcl_scene_findAllSceneByGroup ep g ts)" if "scene_of_group ep g t"
    proof -
      have "st_used t \<noteq> 0" "scene_key t = (ep, g, sc_sceneId (st_scene t))"
        using that by (auto simp: scene_of_group_def scene_key_def)
      then have "map_of (scene_list ts) (ep, g, sc_sceneId (st_scene t)) = None"
        using Cons.prems by (simp add: map_of_eq_None_iff)
      then show ?thesis unfolding s by simp
    qed
    moreover have "distinct (map fst (scene_list ts))" using Cons.prems by simp
    ultimately show ?case using Cons.IH by (simp add: zcl_scene_findAllSceneByGroup_def)
  qed (simp add: zcl_scene_findAllSceneByGroup_def)
  with d show "distinct (zcl_scene_findAllSceneByGroup ep g tab)" by simp
qed

lemma used_rel: "scene_rel cap tab m \<Longrightarrow> unat (zcl_scene_getSceneUsedNum tab) = card (dom m) \<and> card (dom m) \<le> cap"
proof -
  assume r: "scene_rel cap tab m"
  then have m: "m = map_of (scene_list tab)" "distinct (map fst (scene_list tab))" "length tab = cap" "cap < 256"
    by (auto simp: scene_rel_def)
  have "card (dom m) = length (scene_list tab)" unfolding m(1) by (rule card_scenes [OF m(2)])
  also have "\<dots> = length (filter (\<lambda>t. st_used t \<noteq> 0) tab)" by (simp add: scene_list_def)
  finally have c: "card (dom m) = length (filter (\<lambda>t. st_used t \<noteq> 0) tab)" .
  then have "card (dom m) \<le> cap" using m(3) by (simp add: length_filter_le [THEN order_trans])
  then show ?thesis using c m(4) by (simp add: zcl_scene_getSceneUsedNum_def unat_of_nat take_bit_eq_mod)
qed

text \<open>Copying scenes.\<close>

definition copy_map :: "u8 \<Rightarrow> u16 \<Rightarrow> u16 \<Rightarrow> u8 set \<Rightarrow> (scene_key \<rightharpoonup> zcl_sceneEntry_t) \<Rightarrow> (scene_key \<rightharpoonup> zcl_sceneEntry_t)" where
  "copy_map ep f t X m = (\<lambda>(e, g, x). if e = ep \<and> g = t \<and> x \<in> X
     then map_option (\<lambda>s. s\<lparr>sc_sceneId := x, sc_groupId := t\<rparr>) (m (ep, f, x)) else m (e, g, x))"

lemma copy_map_empty [simp]: "copy_map ep f t {} m = m"
  by (simp add: copy_map_def fun_eq_iff)

lemma scene_finite: "scene_rel cap tab m \<Longrightarrow> finite (dom m)"
  by (simp add: scene_rel_def finite_dom_map_of)

lemma found_rel:
  assumes "scene_rel cap tab m" "m (ep, g, sc) = Some e"
  shows "\<exists>i. zcl_scene_findEntry ep g sc tab = Some i \<and> st_scene (tab ! i) = e"
proof -
  have m: "m = map_of (scene_list tab)" "distinct (map fst (scene_list tab))" using assms(1) by (auto simp: scene_rel_def)
  then obtain i where i: "zcl_scene_findEntry ep g sc tab = Some i" using assms(2) findEntry_None [of ep g sc tab] by fastforce
  from findEntry_val(2) [OF i m(2)] assms(2) m(1) i show ?thesis by simp
qed

lemma copy_loop_all:
  assumes "ZB_SCENE_CLUSTER_COPY_SCENE_MODE_ALL (cs_mode c)" "scene_rel cap tab m" "distinct xs"
    "\<forall>x \<in> set xs. m (ep, cs_groupIdFrom c, x) \<noteq> None"
    "card {x \<in> set xs. m (ep, cs_groupIdTo c, x) = None} + card (dom m) \<le> cap"
  shows "\<exists>tab'. copy_loop ep c xs tab = (ZCL_STA_SUCCESS, tab') \<and>
    scene_rel cap tab' (copy_map ep (cs_groupIdFrom c) (cs_groupIdTo c) (set xs) m)"
  using assms(2-5)
proof (induction xs arbitrary: tab m)
  case (Cons x xs)
  let ?f = "cs_groupIdFrom c" and ?t = "cs_groupIdTo c"
  obtain e where e: "m (ep, ?f, x) = Some e" using Cons.prems(3) by auto
  from found_rel [OF Cons.prems(1) e] obtain i where i: "zcl_scene_findEntry ep ?f x tab = Some i" "st_scene (tab ! i) = e" by blast
  let ?e = "e\<lparr>sc_sceneId := x, sc_groupId := ?t\<rparr>" and ?N = "\<lambda>m. {x \<in> set xs. m (ep, ?t, x) = None}"
  have x: "x \<notin> set xs" using Cons.prems(2) by simp
  have N: "card {y \<in> set (x # xs). m (ep, ?t, y) = None} = (if m (ep, ?t, x) = None then Suc (card (?N m)) else card (?N m))"
  proof -
    have "{y \<in> set (x # xs). m (ep, ?t, y) = None} = (if m (ep, ?t, x) = None then insert x (?N m) else ?N m)" by auto
    then show ?thesis using x by simp
  qed
  let ?m = "m((ep, ?t, x) \<mapsto> ?e)"
  have sp: "\<exists>j. scene_slot ep ?t x tab = Some j \<and> scene_rel cap (scene_put j ep ?e tab) ?m"
    using scene_put_rel [OF Cons.prems(1), of ?e ?t x ep] Cons.prems(4) unfolding N by auto
  then obtain j where j: "scene_slot ep ?t x tab = Some j" "scene_rel cap (scene_put j ep ?e tab) ?m" by blast
  have N': "?N ?m = ?N m" using x by auto
  have D: "card (dom ?m) = (if m (ep, ?t, x) = None then Suc (card (dom m)) else card (dom m))"
    using scene_finite [OF Cons.prems(1)] by (auto simp: card_insert_if domIff insert_absorb)
  have src: "\<forall>y \<in> set xs. ?m (ep, ?f, y) = m (ep, ?f, y)" using x by auto
  have "\<exists>tab'. copy_loop ep c xs (scene_put j ep ?e tab) = (ZCL_STA_SUCCESS, tab') \<and>
      scene_rel cap tab' (copy_map ep ?f ?t (set xs) ?m)"
  proof (rule Cons.IH [OF j(2)])
    show "distinct xs" using Cons.prems(2) by simp
    show "\<forall>y \<in> set xs. ?m (ep, ?f, y) \<noteq> None" using src Cons.prems(3) by simp
    show "card (?N ?m) + card (dom ?m) \<le> cap"
    proof (cases "m (ep, ?t, x) = None")
      case True
      from Cons.prems(4) show ?thesis unfolding N' N D if_P [OF True] by simp
    next
      case False
      from Cons.prems(4) show ?thesis unfolding N' N D if_not_P [OF False] .
    qed
  qed
  moreover have "copy_map ep ?f ?t (set xs) ?m = copy_map ep ?f ?t (set (x # xs)) m"
    using src e x by (auto simp: copy_map_def fun_eq_iff)
  moreover have "copy_loop ep c (x # xs) tab = copy_loop ep c xs (scene_put j ep ?e tab)"
    using i j assms(1) by (simp add: copied_id_def)
  ultimately show ?case by simp
qed simp

subsection \<open>The refinement\<close>

datatype scene_op = Sc_add u8 zcl_sceneEntry_t | Sc_remove u8 u16 u8 | Sc_remove_all u8 u16
  | Sc_copy u8 copyScene_t | Sc_find u8 u16 u8 | Sc_members u8 u16 | Sc_clear

datatype scene_out = Sc_status u8 | Sc_found bool | Sc_scene "zcl_sceneEntry_t option" | Sc_ids "u8 set" nat nat | Sc_done

fun scene_step :: "scene_op \<Rightarrow> scene_tab \<Rightarrow> (scene_out \<times> scene_tab) option" where
  "scene_step (Sc_add ep e) tab = (let (st, tab') = add_entry ep e tab in Some (Sc_status st, tab'))"
| "scene_step (Sc_remove ep g sc) tab = (let (st, tab') = remove_entry ep g sc tab in Some (Sc_status st, tab'))"
| "scene_step (Sc_remove_all ep g) tab = (let (b, tab') = remove_all_entries ep g tab in Some (Sc_found b, tab'))"
| "scene_step (Sc_copy ep c) tab = (let (st, tab') = copy_scenes ep c tab in Some (Sc_status st, tab'))"
| "scene_step (Sc_find ep g sc) tab =
     Some (Sc_scene (map_option (\<lambda>i. st_scene (tab ! i)) (zcl_scene_findEntry ep g sc tab)), tab)"
| "scene_step (Sc_members ep g) tab = (let l = zcl_scene_findAllSceneByGroup ep g tab in
     Some (Sc_ids (set l) (length l) (length tab - unat (zcl_scene_getSceneUsedNum tab)), tab))"
| "scene_step Sc_clear tab = Some (Sc_done, zcl_scene_sceneTabClear tab)"

text \<open>Copying all scenes of a group is all or nothing. Copying one scene needs a free place, or the
  scene with the \<^emph>\<open>source\<close> number in the target group, even when the target itself exists.\<close>

fun scene_spec :: "nat \<Rightarrow> scene_op \<Rightarrow> (scene_key \<rightharpoonup> zcl_sceneEntry_t) \<Rightarrow> scene_out \<times> (scene_key \<rightharpoonup> zcl_sceneEntry_t)" where
  "scene_spec cap (Sc_add ep e) m = (let k = (ep, sc_groupId e, sc_sceneId e) in
     if m k \<noteq> None \<or> card (dom m) < cap then (Sc_status ZCL_STA_SUCCESS, m(k \<mapsto> e))
     else (Sc_status ZCL_STA_INSUFFICIENT_SPACE, m))"
| "scene_spec cap (Sc_remove ep g sc) m =
     (Sc_status (if m (ep, g, sc) = None then ZCL_STA_NOT_FOUND else ZCL_STA_SUCCESS), m((ep, g, sc) := None))"
| "scene_spec cap (Sc_remove_all ep g) m =
     (Sc_found (\<exists>sc. m (ep, g, sc) \<noteq> None), \<lambda>k. if group_key ep g k then None else m k)"
| "scene_spec cap (Sc_copy ep c) m =
     (let f = cs_groupIdFrom c; t = cs_groupIdTo c; free = cap - card (dom m) in
      if ZB_SCENE_CLUSTER_COPY_SCENE_MODE_ALL (cs_mode c) then
        (let X = {x. m (ep, f, x) \<noteq> None} in
         if X = {} then (Sc_status ZCL_STA_INVALID_FIELD, m)
         else if free < card {x \<in> X. m (ep, t, x) = None} then (Sc_status ZCL_STA_INSUFFICIENT_SPACE, m)
         else (Sc_status ZCL_STA_SUCCESS, copy_map ep f t X m))
      else (case m (ep, f, cs_sceneIdFrom c) of
         None \<Rightarrow> (Sc_status ZCL_STA_INVALID_FIELD, m)
       | Some e \<Rightarrow>
           if free = 0 \<and> (m (ep, t, cs_sceneIdFrom c) = None \<or> m (ep, t, cs_sceneIdTo c) = None)
           then (Sc_status ZCL_STA_INSUFFICIENT_SPACE, m)
           else (Sc_status ZCL_STA_SUCCESS,
                 m((ep, t, cs_sceneIdTo c) \<mapsto> e\<lparr>sc_sceneId := cs_sceneIdTo c, sc_groupId := t\<rparr>))))"
| "scene_spec cap (Sc_find ep g sc) m = (Sc_scene (m (ep, g, sc)), m)"
| "scene_spec cap (Sc_members ep g) m = (let X = {sc. m (ep, g, sc) \<noteq> None} in
     (Sc_ids X (card X) (cap - card (dom m)), m))"
| "scene_spec cap Sc_clear m = (Sc_done, Map.empty)"

lemma copy_all_sim:
  assumes r: "scene_rel cap tab m" and a: "ZB_SCENE_CLUSTER_COPY_SCENE_MODE_ALL (cs_mode c)"
  shows "\<exists>tab'. scene_step (Sc_copy ep c) tab = Some (fst (scene_spec cap (Sc_copy ep c) m), tab') \<and>
    scene_rel cap tab' (snd (scene_spec cap (Sc_copy ep c) m))"
proof -
  let ?f = "cs_groupIdFrom c" and ?t = "cs_groupIdTo c"
  let ?l = "zcl_scene_findAllSceneByGroup ep ?f tab" and ?X = "{x. m (ep, ?f, x) \<noteq> None}"
  have l: "set ?l = ?X" "distinct ?l" using members_rel [OF r] by auto
  have m: "m = map_of (scene_list tab)" and cap: "length tab = cap" using r by (auto simp: scene_rel_def)
  have n: "length (filter (\<lambda>x. zcl_scene_findEntry ep ?t x tab = None) ?l) = card {x \<in> ?X. m (ep, ?t, x) = None}"
  proof -
    have "length (filter (\<lambda>x. zcl_scene_findEntry ep ?t x tab = None) ?l) =
        card (set (filter (\<lambda>x. zcl_scene_findEntry ep ?t x tab = None) ?l))"
      using l(2) by (intro distinct_card [symmetric] distinct_filter)
    also have "set (filter (\<lambda>x. zcl_scene_findEntry ep ?t x tab = None) ?l) = {x \<in> ?X. m (ep, ?t, x) = None}"
      unfolding set_filter l(1) findEntry_None m ..
    finally show ?thesis .
  qed
  have src: "copy_sources ep c tab = ?l" using a by (simp add: copy_sources_def)
  note u = used_rel [OF r]
  consider "?X = {}" | "?X \<noteq> {}" "cap - card (dom m) < card {x \<in> ?X. m (ep, ?t, x) = None}"
    | "?X \<noteq> {}" "\<not> cap - card (dom m) < card {x \<in> ?X. m (ep, ?t, x) = None}" by blast
  then show ?thesis
  proof cases
    case 1
    then have "?l = []" using l(1) by (metis set_empty)
    then show ?thesis using 1 src a r by (simp add: copy_scenes_def Let_def)
  next
    case 2
    then have "?l \<noteq> []" using l(1) by (metis set_empty)
    moreover have "int (card {x \<in> ?X. m (ep, ?t, x) = None}) > int (length tab) - int (unat (zcl_scene_getSceneUsedNum tab))"
      using 2(2) u cap by linarith
    ultimately have "copy_scenes ep c tab = (ZCL_STA_INSUFFICIENT_SPACE, tab)"
      by (simp only: copy_scenes_def Let_def src n if_False if_True)
    then show ?thesis using 2 a r by (simp add: Let_def)
  next
    case 3
    then have "?l \<noteq> []" using l(1) by (metis set_empty)
    moreover have "\<not> int (card {x \<in> ?X. m (ep, ?t, x) = None}) > int (length tab) - int (unat (zcl_scene_getSceneUsedNum tab))"
      using 3(2) u cap by linarith
    ultimately have cs: "copy_scenes ep c tab = copy_loop ep c ?l tab"
      by (simp only: copy_scenes_def Let_def src n if_False)
    have "\<exists>tab'. copy_loop ep c ?l tab = (ZCL_STA_SUCCESS, tab') \<and> scene_rel cap tab' (copy_map ep ?f ?t (set ?l) m)"
    proof (rule copy_loop_all [OF a r l(2)])
      show "\<forall>x \<in> set ?l. m (ep, ?f, x) \<noteq> None" using l(1) by simp
      show "card {x \<in> set ?l. m (ep, ?t, x) = None} + card (dom m) \<le> cap"
        using 3(2) u unfolding l(1) by linarith
    qed
    then show ?thesis using cs 3 a l(1) by (auto simp: Let_def)
  qed
qed

lemma copy_one_sim:
  assumes r: "scene_rel cap tab m" and a: "\<not> ZB_SCENE_CLUSTER_COPY_SCENE_MODE_ALL (cs_mode c)"
  shows "\<exists>tab'. scene_step (Sc_copy ep c) tab = Some (fst (scene_spec cap (Sc_copy ep c) m), tab') \<and>
    scene_rel cap tab' (snd (scene_spec cap (Sc_copy ep c) m))"
proof -
  let ?f = "cs_groupIdFrom c" and ?t = "cs_groupIdTo c" and ?x = "cs_sceneIdFrom c" and ?y = "cs_sceneIdTo c"
  have m: "m = map_of (scene_list tab)" and cap: "length tab = cap" using r by (auto simp: scene_rel_def)
  note u = used_rel [OF r]
  have fe: "zcl_scene_findEntry ep g x tab = None \<longleftrightarrow> m (ep, g, x) = None" for g x
    unfolding m by (rule findEntry_None)
  show ?thesis
  proof (cases "m (ep, ?f, ?x)")
    case None
    then have "copy_sources ep c tab = []" using a fe by (simp add: copy_sources_def)
    then show ?thesis using None a r by (simp add: copy_scenes_def Let_def)
  next
    case (Some e)
    from found_rel [OF r Some] obtain i where i: "zcl_scene_findEntry ep ?f ?x tab = Some i" "st_scene (tab ! i) = e" by blast
    let ?e = "e\<lparr>sc_sceneId := ?y, sc_groupId := ?t\<rparr>"
    have cs: "copy_sources ep c tab = [?x]" using a i by (simp add: copy_sources_def)
    have cl: "copy_loop ep c [?x] tab = (case scene_slot ep ?t ?y tab of None \<Rightarrow> (ZCL_STA_INSUFFICIENT_SPACE, tab)
        | Some j \<Rightarrow> (ZCL_STA_SUCCESS, scene_put j ep ?e tab))"
      using i a by (simp add: copied_id_def split: option.splits)
    show ?thesis
    proof (cases "cap - card (dom m) = 0 \<and> m (ep, ?t, ?x) = None")
      case True
      then have "copy_scenes ep c tab = (ZCL_STA_INSUFFICIENT_SPACE, tab)"
        using cs fe u cap by (simp add: copy_scenes_def Let_def)
      then show ?thesis using True Some a r by (simp add: Let_def)
    next
      case False
      then have "copy_scenes ep c tab = copy_loop ep c [?x] tab"
        using cs fe [of ?t ?x] u cap by (auto simp: copy_scenes_def Let_def)
      then show ?thesis using scene_put_rel [OF r, of ?e ?t ?y ep] False Some a r u cl by (auto simp: Let_def)
    qed
  qed
qed

lemma scene_sim:
  assumes r: "scene_rel cap tab m"
  shows "\<exists>tab'. scene_step x tab = Some (fst (scene_spec cap x m), tab') \<and> scene_rel cap tab' (snd (scene_spec cap x m))"
proof (cases x)
  case (Sc_add ep e)
  then show ?thesis using scene_put_rel [OF r refl refl, where e = e and ep = ep] r by (auto simp: add_entry_def Let_def)
next
  case (Sc_remove ep g sc)
  then show ?thesis using remove_entry_rel [OF r, of ep g sc] by (auto simp: Let_def simp del: fun_upd_apply)
next
  case (Sc_remove_all ep g)
  then show ?thesis using remove_all_rel [OF r, of ep g] by (auto simp: Let_def split_beta)
next
  case (Sc_copy ep c)
  then show ?thesis using copy_all_sim [OF r] copy_one_sim [OF r] by blast
next
  case (Sc_find ep g sc)
  have "map_option (\<lambda>i. st_scene (tab ! i)) (zcl_scene_findEntry ep g sc tab) = m (ep, g, sc)"
    using found_rel [OF r] findEntry_None [of ep g sc tab] r
    by (cases "m (ep, g, sc)") (fastforce simp: scene_rel_def)+
  then show ?thesis using Sc_find r by simp
next
  case (Sc_members ep g)
  note ms = members_rel [OF r, of ep g]
  have "length (zcl_scene_findAllSceneByGroup ep g tab) = card {sc. m (ep, g, sc) \<noteq> None}"
    using distinct_card [OF ms(2)] ms(1) by simp
  moreover have "length tab = cap" using r by (simp add: scene_rel_def)
  ultimately show ?thesis using Sc_members r ms(1) used_rel [OF r] by (simp add: Let_def)
next
  case Sc_clear
  have "scene_list (zcl_scene_sceneTabClear ts) = []" for ts
    by (induction ts) (auto simp: zcl_scene_sceneTabClear_def zcl_scene_clearEntry_def)
  then have "scene_rel cap (zcl_scene_sceneTabClear tab) Map.empty"
    using r by (simp add: scene_rel_def) (simp add: zcl_scene_sceneTabClear_def)
  then show ?thesis using Sc_clear by simp
qed

interpretation scn: forward_sim scene_step "scene_spec cap" "\<lambda>_ _. True" "scene_rel cap" for cap
  by unfold_locales (rule scene_sim)

subsection \<open>Saving and restoring\<close>

definition scene_sized :: "zcl_sceneEntry_t \<Rightarrow> bool" where
  "scene_sized e \<longleftrightarrow> length (sc_sceneName e) = ZCL_MAX_SCENE_NAME_LEN \<and> length (sc_extField e) = ZCL_MAX_SCENE_EXT_FIELD_SIZE"

definition tab_sized :: "scene_tab \<Rightarrow> bool" where
  "tab_sized tab \<longleftrightarrow> (\<forall>t \<in> set tab. scene_sized (st_scene t))"

lemma scene_size: "SCENE_SIZE = 50"
  by (simp add: SCENE_SIZE_def ZCL_MAX_SCENE_NAME_LEN_def ZCL_MAX_SCENE_EXT_FIELD_SIZE_def)

lemma length_scene_bytes: "scene_sized (st_scene t) \<Longrightarrow> length (scene_bytes t) = SCENE_SIZE"
  by (simp add: scene_bytes_def sceneEntry_bytes_def scene_sized_def SCENE_SIZE_def)

lemma scene_from_bytes: "scene_sized (st_scene t) \<Longrightarrow> scene_from (scene_bytes t) = t"
  by (simp add: scene_from_def scene_bytes_def sceneEntry_bytes_def scene_sized_def u16_bytes_def nth_append drop_Cons'
      ZCL_MAX_SCENE_NAME_LEN_def ZCL_MAX_SCENE_EXT_FIELD_SIZE_def)

lemma length_scenetab_bytes: "tab_sized tab \<Longrightarrow> length (scenetab_bytes tab) = length tab * SCENE_SIZE"
  using length_scene_bytes length_chunks [of tab scene_bytes SCENE_SIZE] by (auto simp: scenetab_bytes_def tab_sized_def)

lemma scenetab_read_bytes:
  assumes "tab_sized tab" "tab_sized tab0" "length tab0 = length tab"
  shows "scenetab_read (scenetab_bytes tab) tab0 = tab"
proof -
  have l: "\<forall>t \<in> set tab. length (scene_bytes t) = SCENE_SIZE"
    using assms(1) length_scene_bytes by (auto simp: tab_sized_def)
  have "map (\<lambda>i. scene_from (take SCENE_SIZE (drop (i * SCENE_SIZE) (scenetab_bytes tab)))) [0..<length tab] = tab"
    using concat_chunk [OF l] assms(1) by (intro nth_equalityI) (auto simp: scenetab_bytes_def tab_sized_def scene_from_bytes)
  then show ?thesis using assms length_scenetab_bytes by (simp add: scenetab_read_def Let_def)
qed

lemma nv_rel_pool: "nv_rel md f0 (f, p) m = nv_rel md f0 (f, q) m"
  by (simp add: nv_rel_def)

text \<open>What a save leaves in the flash, and what a boot makes of it.\<close>

definition scene_room :: "gsst \<Rightarrow> (u8 \<rightharpoonup> bytes) \<Rightarrow> bool" where
  "scene_room s nm \<longleftrightarrow> tab_sized (g_scenes s) \<and> length (g_scenes s) < 256 \<and>
     nv_room NV_MODULE_ZCL nm NV_ITEM_ZCL_SCENE_TABLE (length (g_scenes s) * SCENE_SIZE) \<and>
     len_fits nm NV_ITEM_ZCL_SCENE_TABLE (length (g_scenes s) * SCENE_SIZE)"

definition boots_to :: "gsst \<Rightarrow> flash \<Rightarrow> gsst \<Rightarrow> bool" where
  \<comment> \<open>\<open>s0\<close> is a device after a boot, with the flash \<open>f\<close>, whose scene table may hold anything\<close>
  "boots_to s f s0 \<longleftrightarrow> g_flash s0 = f \<and> len_tbl_ok (g_lens s0) \<and> tab_sized (g_scenes s0) \<and>
     length (g_scenes s0) = length (g_scenes s)"

lemma scene_save_restore:
  assumes nv: "nv_rel NV_MODULE_ZCL f0 (g_flash s, p) nm" and rm: "scene_room s nm"
  shows "\<exists>s1. zcl_sceneTable_save s = (NV_SUCC, s1) \<and> g_scenes s1 = g_scenes s \<and>
    nv_rel NV_MODULE_ZCL f0 (g_flash s1, p) (nm(NV_ITEM_ZCL_SCENE_TABLE \<mapsto> scenetab_bytes (g_scenes s))) \<and>
    (\<forall>s0. boots_to s (g_flash s1) s0 \<longrightarrow> fst (zcl_scenesRestore s0) = NV_SUCC \<and>
       g_scenes (snd (zcl_scenesRestore s0)) = g_scenes s)"
proof -
  let ?k = NV_ITEM_ZCL_SCENE_TABLE and ?d = "scenetab_bytes (g_scenes s)" and ?n = "length (g_scenes s)"
  have sz: "tab_sized (g_scenes s)" "?n < 256" and room: "nv_room NV_MODULE_ZCL nm ?k (?n * SCENE_SIZE)"
    "len_fits nm ?k (?n * SCENE_SIZE)" using rm by (auto simp: scene_room_def)
  have d: "length ?d = ?n * SCENE_SIZE" by (rule length_scenetab_bytes [OF sz(1)])
  have d16: "length ?d < 2 ^ 16" using sz(2) d by (simp add: scene_size)
  have a: "nv_allowed (Nv_write ?k ?d) nm" using room(2) d16 d by simp
  from sim_write [OF nv [unfolded nv_rel_pool [of _ _ _ p _ "pool (g_z s)"]] a] obtain f' pool' where w:
    "Drv_Nv.nv_flashWriteNew True NV_MODULE_ZCL ?k (of_nat (length ?d)) ?d (g_flash s) (pool (g_z s)) = (NV_SUCC, f', pool')"
    "nv_rel NV_MODULE_ZCL f0 (f', pool') (nm(?k \<mapsto> ?d))" using room(1) d by auto
  let ?s1 = "s\<lparr>g_flash := f', g_z := (g_z s)\<lparr>pool := pool'\<rparr>\<rparr>"
  have save: "zcl_sceneTable_save s = (NV_SUCC, ?s1)"
    using w(1) d by (simp add: zcl_sceneTable_save_def mult.commute)
  have m0: "length ?d mod unat (of_nat SCENE_SIZE :: u16) = 0" "(of_nat SCENE_SIZE :: u16) \<noteq> 0" "?k \<noteq> ITEM_FIELD_IDLE"
    by (simp_all add: d scene_size NV_ITEM_ZCL_SCENE_TABLE_def ITEM_FIELD_IDLE_def)
  have "fst (zcl_scenesRestore s0) = NV_SUCC \<and> g_scenes (snd (zcl_scenesRestore s0)) = g_scenes s"
    if b: "boots_to s f' s0" for s0
  proof -
    have b: "g_flash s0 = f'" "len_tbl_ok (g_lens s0)" "tab_sized (g_scenes s0)" "length (g_scenes s0) = ?n"
      using b by (auto simp: boots_to_def)
    from restore_read [OF w(2) _ m0(3) b(2) d16 m0(2,1)] have
      "Drv_Nv.nv_flashReadNew (nv_itemLengthCheckAdd ?k (of_nat (SCENE_SIZE * ?n)) (g_lens s0)) True NV_MODULE_ZCL ?k
         (of_nat SCENE_SIZE) f' = (NV_SUCC, Some (Data ?d), f')"
      using m0(3) by (simp add: d mult.commute)
    then show ?thesis using b scenetab_read_bytes [OF sz(1) b(3,4)]
      by (simp add: zcl_scenesRestore_def zcl_sceneTable_restore_def Let_def)
  qed
  then show ?thesis using save w(2) by (intro exI [of _ ?s1]) (simp add: nv_rel_pool [of _ _ _ p _ pool'])
qed

lemma scene_attr_set_fields [simp]:
  "g_scenes (scene_attr_set env ep a v s) = g_scenes s" "g_flash (scene_attr_set env ep a v s) = g_flash s"
  "g_groups (scene_attr_set env ep a v s) = g_groups s" "g_lens (scene_attr_set env ep a v s) = g_lens s"
  "g_fault (scene_attr_set env ep a v s) = g_fault s"
  by (auto simp: scene_attr_set_def split: prod.splits)

lemma updateSceneCnt_fields [simp]:
  "g_scenes (zcl_scene_updateSceneCntAttr env ep s) = g_scenes s"
  "g_flash (zcl_scene_updateSceneCntAttr env ep s) = g_flash s"
  by (simp_all add: zcl_scene_updateSceneCntAttr_def)

lemma scenesSave_survives:
  assumes "nv_rel NV_MODULE_ZCL f0 (g_flash s, p) nm" "scene_room s nm"
  shows "\<exists>s1. zcl_scenesSave env ep s = (NV_SUCC, s1) \<and> g_scenes s1 = g_scenes s \<and>
    (\<forall>s0. boots_to s (g_flash s1) s0 \<longrightarrow> fst (zcl_scenesRestore s0) = NV_SUCC \<and>
       g_scenes (snd (zcl_scenesRestore s0)) = g_scenes s)"
proof -
  let ?s = "zcl_scene_updateSceneCntAttr env ep s"
  have "nv_rel NV_MODULE_ZCL f0 (g_flash ?s, p) nm" "scene_room ?s nm" using assms by (simp_all add: scene_room_def)
  from scene_save_restore [OF this] show ?thesis by (auto simp: zcl_scenesSave_def boots_to_def)
qed

lemma tab_sized_upd: "tab_sized tab \<Longrightarrow> scene_sized (st_scene t) \<Longrightarrow> tab_sized (tab[i := t])"
  by (auto simp: tab_sized_def dest!: set_update_subset_insert [THEN subsetD])

lemma zero_scene_sized [simp]: "scene_sized zero_scene"
  by (simp add: zero_scene_def scene_sized_def)

subsection \<open>Properties\<close>

text \<open>C32. The scene table implements a map from endpoint, group and scene number to scenes, of bounded
  size. Whatever sequence of requests it gets, adding a scene replaces the old one or takes a free
  place and fails exactly on a full table with a new key; removing one scene or all scenes of a group
  removes exactly those; copying all scenes of a group is all or nothing; membership lists each scene
  of the group once, beside the number of free places. No scene is lost and no key occurs twice.\<close>

theorem scene_table_refines:
  assumes "scene_rel cap tab m"
  shows "\<exists>tab'. run_ops scene_step ops tab = Some (fst (spec_run (scene_spec cap) ops m), tab') \<and>
    scene_rel cap tab' (snd (spec_run (scene_spec cap) ops m))"
proof -
  have "spec_ok (scene_spec cap) (\<lambda>_ _. True) xs a" for xs a by (induction xs arbitrary: a) auto
  then show ?thesis by (rule scn.run_sim [OF assms])
qed

definition ex_scene :: "u16 \<Rightarrow> u8 \<Rightarrow> zcl_sceneEntry_t" where
  "ex_scene g sc = zero_scene\<lparr>sc_groupId := g, sc_sceneId := sc, sc_transTime := 3\<rparr>"

definition ex_scenes :: "nat \<Rightarrow> scene_tab" where
  "ex_scenes n = replicate n \<lparr>st_used = 0, st_endpoint = 0xFE, st_scene = zero_scene\<rparr>"

lemma ex_scenes_rel: "n < 256 \<Longrightarrow> scene_rel n (ex_scenes n) Map.empty"
  by (simp add: scene_rel_def ex_scenes_def scene_list_def)

lemma scene_table_refines_witness:
  "\<exists>tab. run_ops scene_step [Sc_add 1 (ex_scene 7 1), Sc_add 1 (ex_scene 7 2), Sc_add 1 (ex_scene 8 1),
      Sc_copy 1 \<lparr>cs_mode = 1, cs_groupIdFrom = 7, cs_sceneIdFrom = 0, cs_groupIdTo = 9, cs_sceneIdTo = 0\<rparr>,
      Sc_remove 1 7 1, Sc_find 1 7 2, Sc_find 1 7 1] (ex_scenes 2) =
   Some ([Sc_status 0, Sc_status 0, Sc_status 0x89, Sc_status 0x89, Sc_status 0, Sc_scene (Some (ex_scene 7 2)),
     Sc_scene None], tab)"
proof -
  let ?c = "\<lparr>cs_mode = 1, cs_groupIdFrom = 7, cs_sceneIdFrom = 0, cs_groupIdTo = 9, cs_sceneIdTo = 0\<rparr>"
  let ?m = "[(1 :: u8, 7 :: u16, 1 :: u8) \<mapsto> ex_scene 7 1, (1, 7, 2) \<mapsto> ex_scene 7 2]"
  let ?X = "{x :: u8. ?m (1, 7, x) \<noteq> None}"
  have k: "sc_groupId (ex_scene g sc) = g" "sc_sceneId (ex_scene g sc) = sc" for g sc by (simp_all add: ex_scene_def)
  have X: "?X = {1, 2}" by auto
  have ne: "(?X = {}) = False" unfolding X by simp
  have S: "{x \<in> ?X. ?m (1, 9, x) = None} = {1, 2}" unfolding X by auto
  have c: "card {x \<in> ?X. ?m (1, 9, x) = None} = 2" unfolding S by simp
  have d: "card (dom ?m) = 2" by simp
  have a: "ZB_SCENE_CLUSTER_COPY_SCENE_MODE_ALL 1 = True" by (simp add: ZB_SCENE_CLUSTER_COPY_SCENE_MODE_ALL_def)
  have "scene_spec 2 (Sc_copy 1 ?c) ?m = (Sc_status 0x89, ?m)"
    by (simp only: scene_spec.simps Let_def copyScene_t.select_convs a ne c d if_True if_False) simp
  then show ?thesis
    using scene_table_refines [OF ex_scenes_rel, of 2 "[Sc_add 1 (ex_scene 7 1), Sc_add 1 (ex_scene 7 2), Sc_add 1 (ex_scene 8 1),
      Sc_copy 1 ?c, Sc_remove 1 7 1, Sc_find 1 7 2, Sc_find 1 7 1]"]
    by (auto simp: k Let_def simp del: scene_step.simps scene_spec.simps(4))
qed

text \<open>C33. A scene that was added survives a restart. When \<^verbatim>\<open>zcl_scene_addSceneEntry\<close> reports success
  (the scene was known, or the table had a free place), a device that boots with the flash as it left
  it restores a table that holds the new scene beside all the others; and when a scene of the table is
  removed, the restored table lacks exactly that scene.\<close>

theorem scene_change_survives:
  assumes "scene_rel cap (g_scenes s) m" "nv_rel NV_MODULE_ZCL f0 (g_flash s, p) nm" "scene_room s nm"
  shows "(scene_sized e \<and> (m (ep, sc_groupId e, sc_sceneId e) \<noteq> None \<or> card (dom m) < cap) \<longrightarrow>
      (\<exists>s1. zcl_scene_addSceneEntry env ep e s = (ZCL_STA_SUCCESS, s1) \<and>
        (\<forall>s0. boots_to s (g_flash s1) s0 \<longrightarrow> fst (zcl_scenesRestore s0) = NV_SUCC \<and>
          scene_rel cap (g_scenes (snd (zcl_scenesRestore s0))) (m((ep, sc_groupId e, sc_sceneId e) \<mapsto> e))))) \<and>
    (m (ep, g, sc) \<noteq> None \<longrightarrow>
      (\<exists>s1. zcl_scene_removeSceneEntry env ep g sc s = (ZCL_STA_SUCCESS, s1) \<and>
        (\<forall>s0. boots_to s (g_flash s1) s0 \<longrightarrow> fst (zcl_scenesRestore s0) = NV_SUCC \<and>
          scene_rel cap (g_scenes (snd (zcl_scenesRestore s0))) (m((ep, g, sc) := None)))))"
proof -
  let ?tab = "g_scenes s"
  have sz: "tab_sized ?tab" using assms(3) by (simp add: scene_room_def)
  have surv: "\<exists>s1. zcl_scenesSave env ep (s\<lparr>g_scenes := tab'\<rparr>) = (NV_SUCC, s1) \<and>
      (\<forall>s0. boots_to s (g_flash s1) s0 \<longrightarrow> fst (zcl_scenesRestore s0) = NV_SUCC \<and>
        scene_rel cap (g_scenes (snd (zcl_scenesRestore s0))) m')"
    if "scene_rel cap tab' m'" "tab_sized tab'" for tab' m'
  proof -
    have "length tab' = length ?tab" using that(1) assms(1) by (simp add: scene_rel_def)
    then have "scene_room (s\<lparr>g_scenes := tab'\<rparr>) nm" using assms(3) that(2) by (simp add: scene_room_def)
    from scenesSave_survives [OF _ this, of f0 p env ep] assms(2) that(1) \<open>length tab' = length ?tab\<close>
    show ?thesis by (auto simp: boots_to_def)
  qed
  show ?thesis
  proof (intro conjI impI)
    assume e: "scene_sized e \<and> (m (ep, sc_groupId e, sc_sceneId e) \<noteq> None \<or> card (dom m) < cap)"
    then obtain i where i: "scene_slot ep (sc_groupId e) (sc_sceneId e) ?tab = Some i"
      "scene_rel cap (scene_put i ep e ?tab) (m((ep, sc_groupId e, sc_sceneId e) \<mapsto> e))"
      using scene_put_rel [OF assms(1) refl refl, where e = e and ep = ep] by auto
    have "tab_sized (scene_put i ep e ?tab)" using sz e by (simp add: scene_put_def tab_sized_upd)
    from surv [OF i(2) this] i(1) show "\<exists>s1. zcl_scene_addSceneEntry env ep e s = (ZCL_STA_SUCCESS, s1) \<and>
        (\<forall>s0. boots_to s (g_flash s1) s0 \<longrightarrow> fst (zcl_scenesRestore s0) = NV_SUCC \<and>
          scene_rel cap (g_scenes (snd (zcl_scenesRestore s0))) (m((ep, sc_groupId e, sc_sceneId e) \<mapsto> e)))"
      by (auto simp: zcl_scene_addSceneEntry_def add_entry_def simp del: fun_upd_apply)
  next
    assume "m (ep, g, sc) \<noteq> None"
    then obtain tab' where r: "remove_entry ep g sc ?tab = (ZCL_STA_SUCCESS, tab')" "scene_rel cap tab' (m((ep, g, sc) := None))"
      using remove_entry_rel [OF assms(1), of ep g sc] by auto
    have "tab_sized tab'" using r(1) sz
      by (auto simp: remove_entry_def zcl_scene_clearEntry_def intro!: tab_sized_upd split: option.splits)
    from surv [OF r(2) this] r(1) show "\<exists>s1. zcl_scene_removeSceneEntry env ep g sc s = (ZCL_STA_SUCCESS, s1) \<and>
        (\<forall>s0. boots_to s (g_flash s1) s0 \<longrightarrow> fst (zcl_scenesRestore s0) = NV_SUCC \<and>
          scene_rel cap (g_scenes (snd (zcl_scenesRestore s0))) (m((ep, g, sc) := None)))"
      by (auto simp: zcl_scene_removeSceneEntry_def simp del: fun_upd_apply)
  qed
qed

definition ex_gs :: gsst where
  "ex_gs = \<lparr>g_z = ex_state, g_groups = ex_groups 2, g_scenes = scene_put 0 1 (ex_scene 7 1) (ex_scenes 2),
     g_flash = fst ex_blank, g_lens = ex_len_tbl, g_fault = False\<rparr>"

definition ex_genv :: genv where
  "ex_genv = \<lparr>e_z = ex_env, appCb = (\<lambda>_ _ _ d s. (d, s))\<rparr>"

lemma ex_scene_sized [simp]: "scene_sized (ex_scene g sc)"
  by (simp add: ex_scene_def zero_scene_def scene_sized_def)

lemma ex_gs_rel: "scene_rel 2 (g_scenes ex_gs) [(1, 7, 1) \<mapsto> ex_scene 7 1]"
  by (simp add: scene_rel_def ex_gs_def ex_scenes_def scene_put_def scene_list_def scene_key_def ex_scene_def numeral_eq_Suc)

lemma ex_gs_sized: "tab_sized (g_scenes ex_gs)" "length (g_scenes ex_gs) = 2"
  by (auto simp: ex_gs_def ex_scenes_def scene_put_def intro!: tab_sized_upd) (auto simp: tab_sized_def)

lemma ex_gs_nv: "nv_rel NV_MODULE_ZCL (\<lambda>_. 0xFF) (g_flash ex_gs, snd ex_blank) Map.empty"
  by (simp add: nv_rel_def nv_blank_def erased_def nv_same_outside_def lay_ok_def NV_MAX_MODULS_def
    MODULE_SECTOR_NUM_def NV_MODULE_NWK_FRAME_COUNT_def ex_blank_def NV_MODULE_ZCL_def ex_gs_def)

lemma ex_gs_room: "scene_room ex_gs Map.empty"
  using ex_gs_sized by (simp add: scene_room_def nv_eval NV_MODULE_ZCL_def NV_ITEM_ZCL_SCENE_TABLE_def scene_size)

lemma scene_change_survives_witness:
  "\<exists>s1. zcl_scene_addSceneEntry ex_genv 1 (ex_scene 8 1) ex_gs = (ZCL_STA_SUCCESS, s1) \<and>
     (let s2 = snd (zcl_scenesRestore (ex_gs\<lparr>g_flash := g_flash s1\<rparr>)) in
      scene_rel 2 (g_scenes s2) [(1, 7, 1) \<mapsto> ex_scene 7 1, (1, 8, 1) \<mapsto> ex_scene 8 1])"
proof -
  let ?m = "[(1, 7, 1) \<mapsto> ex_scene 7 1] :: scene_key \<rightharpoonup> zcl_sceneEntry_t"
  have c: "scene_sized (ex_scene 8 1) \<and>
      (?m (1, sc_groupId (ex_scene 8 1), sc_sceneId (ex_scene 8 1)) \<noteq> None \<or> card (dom ?m) < 2)" by simp
  from mp [OF conjunct1 [OF scene_change_survives [OF ex_gs_rel ex_gs_nv ex_gs_room]] c, of ex_genv]
  obtain s1 where s1: "zcl_scene_addSceneEntry ex_genv 1 (ex_scene 8 1) ex_gs = (ZCL_STA_SUCCESS, s1)"
    "\<And>s0. boots_to ex_gs (g_flash s1) s0 \<Longrightarrow> scene_rel 2 (g_scenes (snd (zcl_scenesRestore s0)))
       (?m((1, sc_groupId (ex_scene 8 1), sc_sceneId (ex_scene 8 1)) \<mapsto> ex_scene 8 1))" by blast
  have "boots_to ex_gs (g_flash s1) (ex_gs\<lparr>g_flash := g_flash s1\<rparr>)"
    using ex_gs_sized by (simp add: boots_to_def) (simp add: ex_gs_def len_tbl_ok_def ex_len_tbl_def NV_ITEM_LEN_CHK_TABBLE_NUM_def)
  from s1(2) [OF this] s1(1) show ?thesis by (auto simp: Let_def ex_scene_def)
qed

end
