(* ===== verification/Zcl_Scene.thy ===== *)
theory Zcl_Scene
  imports Zcl_SceneTab
begin

text \<open>
  The commands of the scenes cluster: \<^verbatim>\<open>zigbee/zcl/general/zcl_scene.c\<close>, both sides. The handlers
  work on the scene table of \<open>Zcl_SceneTab\<close>, the group table of \<open>Aps_Group\<close> and the ZCL of
  \<open>Zcl_Core\<close>; an answer is a frame sent with \<^verbatim>\<open>zcl_sendCmd\<close>.
\<close>

definition ZCL_FRAME_CLIENT_SERVER_DIR :: u8 where "ZCL_FRAME_CLIENT_SERVER_DIR = 0x00"

definition ZCL_CMD_SCENE_ADD_SCENE :: u8 where "ZCL_CMD_SCENE_ADD_SCENE = 0x00"
definition ZCL_CMD_SCENE_VIEW_SCENE :: u8 where "ZCL_CMD_SCENE_VIEW_SCENE = 0x01"
definition ZCL_CMD_SCENE_REMOVE_SCENE :: u8 where "ZCL_CMD_SCENE_REMOVE_SCENE = 0x02"
definition ZCL_CMD_SCENE_REMOVE_ALL_SCENE :: u8 where "ZCL_CMD_SCENE_REMOVE_ALL_SCENE = 0x03"
definition ZCL_CMD_SCENE_STORE_SCENE :: u8 where "ZCL_CMD_SCENE_STORE_SCENE = 0x04"
definition ZCL_CMD_SCENE_RECALL_SCENE :: u8 where "ZCL_CMD_SCENE_RECALL_SCENE = 0x05"
definition ZCL_CMD_SCENE_GET_SCENE_MEMSHIP :: u8 where "ZCL_CMD_SCENE_GET_SCENE_MEMSHIP = 0x06"
definition ZCL_CMD_SCENE_ENHANCED_ADD_SCENE :: u8 where "ZCL_CMD_SCENE_ENHANCED_ADD_SCENE = 0x40"
definition ZCL_CMD_SCENE_ENHANCED_VIEW_SCENE :: u8 where "ZCL_CMD_SCENE_ENHANCED_VIEW_SCENE = 0x41"
definition ZCL_CMD_SCENE_COPY_SCENE :: u8 where "ZCL_CMD_SCENE_COPY_SCENE = 0x42"
definition ZCL_CMD_SCENE_REMOVE_SCENE_RSP :: u8 where "ZCL_CMD_SCENE_REMOVE_SCENE_RSP = 0x02"
definition ZCL_CMD_SCENE_REMOVE_ALL_SCENE_RSP :: u8 where "ZCL_CMD_SCENE_REMOVE_ALL_SCENE_RSP = 0x03"
definition ZCL_CMD_SCENE_STORE_SCENE_RSP :: u8 where "ZCL_CMD_SCENE_STORE_SCENE_RSP = 0x04"
definition ZCL_CMD_SCENE_GET_SCENE_MEMSHIP_RSP :: u8 where "ZCL_CMD_SCENE_GET_SCENE_MEMSHIP_RSP = 0x06"
definition ZCL_CMD_SCENE_ENHANCED_VIEW_SCENE_RSP :: u8 where "ZCL_CMD_SCENE_ENHANCED_VIEW_SCENE_RSP = 0x41"
definition ZCL_CMD_SCENE_COPY_SCENE_RSP :: u8 where "ZCL_CMD_SCENE_COPY_SCENE_RSP = 0x42"

lemmas scene_cmd_defs = ZCL_CMD_SCENE_ADD_SCENE_def ZCL_CMD_SCENE_VIEW_SCENE_def ZCL_CMD_SCENE_REMOVE_SCENE_def
  ZCL_CMD_SCENE_REMOVE_ALL_SCENE_def ZCL_CMD_SCENE_STORE_SCENE_def ZCL_CMD_SCENE_RECALL_SCENE_def
  ZCL_CMD_SCENE_GET_SCENE_MEMSHIP_def ZCL_CMD_SCENE_ENHANCED_ADD_SCENE_def ZCL_CMD_SCENE_ENHANCED_VIEW_SCENE_def
  ZCL_CMD_SCENE_COPY_SCENE_def ZCL_CMD_SCENE_REMOVE_SCENE_RSP_def ZCL_CMD_SCENE_REMOVE_ALL_SCENE_RSP_def
  ZCL_CMD_SCENE_STORE_SCENE_RSP_def ZCL_CMD_SCENE_GET_SCENE_MEMSHIP_RSP_def
  ZCL_CMD_SCENE_ENHANCED_VIEW_SCENE_RSP_def ZCL_CMD_SCENE_COPY_SCENE_RSP_def

subsection \<open>Sending\<close>

text \<open>A cluster command whose payload is in a local array, and one whose payload is in a block of its
  own; the status of the latter's transmission is ignored.\<close>

definition cluster_send ::
  "genv \<Rightarrow> u16 \<Rightarrow> u8 \<Rightarrow> epInfo_t \<Rightarrow> u8 \<Rightarrow> u8 \<Rightarrow> u8 \<Rightarrow> u8 \<Rightarrow> bytes \<Rightarrow> gsst \<Rightarrow> u8 \<times> gsst" where
  "cluster_send env cluster srcEp dst dis seqNo cmd dir payload s =
     (let (st, z) = zcl_sendCmd (e_z env) srcEp dst cluster cmd 1 dir dis 0 seqNo (of_nat (length payload))
        (lview payload (uninit (e_z env))) (g_z s) in
      (st, s\<lparr>g_z := z\<rparr>))"

definition cluster_sendBuf ::
  "genv \<Rightarrow> u8 \<Rightarrow> epInfo_t \<Rightarrow> u8 \<Rightarrow> u8 \<Rightarrow> u8 \<Rightarrow> u8 \<Rightarrow> u8 \<Rightarrow> bytes \<Rightarrow> gsst \<Rightarrow> u8 \<times> gsst" where
  "cluster_sendBuf env srcEp dst dis seqNo cmd dir len payload s =
     (case zalloc (ucast len) (g_z s) of
        (None, z) \<Rightarrow> (ZCL_STA_INSUFFICIENT_SPACE, s\<lparr>g_z := z\<rparr>)
      | (Some p, z) \<Rightarrow>
          (let s1 = snd (cluster_send env ZCL_CLUSTER_GEN_SCENES srcEp dst dis seqNo cmd dir payload
                      (s\<lparr>g_z := buf_touch p (length payload) z\<rparr>)) in
           (ZCL_STA_SUCCESS, s1\<lparr>g_z := zfree p (g_z s1)\<rparr>)))"

definition cluster_reply_ep :: "zclIncoming_t \<Rightarrow> epInfo_t" where
  "cluster_reply_ep m = (let i = indInfo (msg m) in
     \<lparr>shortAddr = i_src_short_addr i, profileId = i_profile_id i, dstAddrMode = APS_SHORT_DSTADDR_WITHEP,
      dstEp = i_src_ep i, txOptions = 0\<rparr>)"

text \<open>The name and the extension field of a scene are copied from its packed bytes, as many as their
  length fields say.\<close>

definition scene_name_of :: "genv \<Rightarrow> zcl_sceneEntry_t \<Rightarrow> bytes" where
  "scene_name_of env e = vtake (unat (sc_sceneName e ! 0)) (vdrop 4 (lview (sceneEntry_bytes e) (uninit (e_z env))))"

definition scene_ext_of :: "genv \<Rightarrow> zcl_sceneEntry_t \<Rightarrow> bytes" where
  "scene_ext_of env e = vtake (unat (sc_extFieldLen e)) (vdrop 24 (lview (sceneEntry_bytes e) (uninit (e_z env))))"

definition zcl_scene_addScene ::
  "genv \<Rightarrow> u8 \<Rightarrow> epInfo_t \<Rightarrow> u8 \<Rightarrow> u8 \<Rightarrow> u8 \<Rightarrow> zcl_sceneEntry_t \<Rightarrow> gsst \<Rightarrow> u8 \<times> gsst" where
  "zcl_scene_addScene env srcEp dst dis seqNo cmd e s =
     cluster_sendBuf env srcEp dst dis seqNo cmd ZCL_FRAME_CLIENT_SERVER_DIR
       (5 + (1 + sc_sceneName e ! 0) + sc_extFieldLen e)
       (u16_bytes (sc_groupId e) @ [sc_sceneId e] @ u16_bytes (sc_transTime e) @ [sc_sceneName e ! 0]
        @ scene_name_of env e @ scene_ext_of env e) s"

definition scene_cmd :: "genv \<Rightarrow> u8 \<Rightarrow> epInfo_t \<Rightarrow> u8 \<Rightarrow> u8 \<Rightarrow> u8 \<Rightarrow> bytes \<Rightarrow> gsst \<Rightarrow> u8 \<times> gsst" where
  "scene_cmd env srcEp dst dis seqNo cmd payload s =
     cluster_send env ZCL_CLUSTER_GEN_SCENES srcEp dst dis seqNo cmd ZCL_FRAME_CLIENT_SERVER_DIR payload s"

definition zcl_scene_viewScene :: "genv \<Rightarrow> u8 \<Rightarrow> epInfo_t \<Rightarrow> u8 \<Rightarrow> u8 \<Rightarrow> u8 \<Rightarrow> u16 \<Rightarrow> u8 \<Rightarrow> gsst \<Rightarrow> u8 \<times> gsst" where
  "zcl_scene_viewScene env srcEp dst dis seqNo cmd g sc s = scene_cmd env srcEp dst dis seqNo cmd (u16_bytes g @ [sc]) s"

definition zcl_scene_removeScene :: "genv \<Rightarrow> u8 \<Rightarrow> epInfo_t \<Rightarrow> u8 \<Rightarrow> u8 \<Rightarrow> u16 \<Rightarrow> u8 \<Rightarrow> gsst \<Rightarrow> u8 \<times> gsst" where
  "zcl_scene_removeScene env srcEp dst dis seqNo g sc s =
     scene_cmd env srcEp dst dis seqNo ZCL_CMD_SCENE_REMOVE_SCENE (u16_bytes g @ [sc]) s"

definition zcl_scene_removeAllScene :: "genv \<Rightarrow> u8 \<Rightarrow> epInfo_t \<Rightarrow> u8 \<Rightarrow> u8 \<Rightarrow> u16 \<Rightarrow> gsst \<Rightarrow> u8 \<times> gsst" where
  "zcl_scene_removeAllScene env srcEp dst dis seqNo g s =
     scene_cmd env srcEp dst dis seqNo ZCL_CMD_SCENE_REMOVE_ALL_SCENE (u16_bytes g) s"

definition zcl_scene_storeScene :: "genv \<Rightarrow> u8 \<Rightarrow> epInfo_t \<Rightarrow> u8 \<Rightarrow> u8 \<Rightarrow> u16 \<Rightarrow> u8 \<Rightarrow> gsst \<Rightarrow> u8 \<times> gsst" where
  "zcl_scene_storeScene env srcEp dst dis seqNo g sc s =
     scene_cmd env srcEp dst dis seqNo ZCL_CMD_SCENE_STORE_SCENE (u16_bytes g @ [sc]) s"

definition zcl_scene_recallScene :: "genv \<Rightarrow> u8 \<Rightarrow> epInfo_t \<Rightarrow> u8 \<Rightarrow> u8 \<Rightarrow> u16 \<Rightarrow> u8 \<Rightarrow> u16 \<Rightarrow> gsst \<Rightarrow> u8 \<times> gsst" where
  "zcl_scene_recallScene env srcEp dst dis seqNo g sc t s =
     scene_cmd env srcEp dst dis seqNo ZCL_CMD_SCENE_RECALL_SCENE
       (u16_bytes g @ [sc] @ (if t \<noteq> 0 then u16_bytes t else [])) s"

definition zcl_scene_getSceneMemship :: "genv \<Rightarrow> u8 \<Rightarrow> epInfo_t \<Rightarrow> u8 \<Rightarrow> u8 \<Rightarrow> u16 \<Rightarrow> gsst \<Rightarrow> u8 \<times> gsst" where
  "zcl_scene_getSceneMemship env srcEp dst dis seqNo g s =
     scene_cmd env srcEp dst dis seqNo ZCL_CMD_SCENE_GET_SCENE_MEMSHIP (u16_bytes g) s"

definition zcl_scene_copyScene :: "genv \<Rightarrow> u8 \<Rightarrow> epInfo_t \<Rightarrow> u8 \<Rightarrow> u8 \<Rightarrow> copyScene_t \<Rightarrow> gsst \<Rightarrow> u8 \<times> gsst" where
  "zcl_scene_copyScene env srcEp dst dis seqNo c s =
     (if cs_groupIdFrom c = cs_groupIdTo c \<and> cs_sceneIdFrom c = cs_sceneIdTo c then (ZCL_STA_INVALID_FIELD, s)
      else scene_cmd env srcEp dst dis seqNo ZCL_CMD_SCENE_COPY_SCENE
        ([cs_mode c] @ u16_bytes (cs_groupIdFrom c) @ [cs_sceneIdFrom c] @ u16_bytes (cs_groupIdTo c) @ [cs_sceneIdTo c]) s)"

definition zcl_scene_sceneRsp ::
  "genv \<Rightarrow> u8 \<Rightarrow> epInfo_t \<Rightarrow> u8 \<Rightarrow> u8 \<Rightarrow> u8 \<Rightarrow> u8 \<Rightarrow> u16 \<Rightarrow> u8 \<Rightarrow> gsst \<Rightarrow> u8 \<times> gsst" where
  "zcl_scene_sceneRsp env srcEp dst dis seqNo cmd status g sc s =
     cluster_send env ZCL_CLUSTER_GEN_SCENES srcEp dst dis seqNo cmd ZCL_FRAME_SERVER_CLIENT_DIR
       ([status] @ u16_bytes g @ (if cmd \<noteq> ZCL_CMD_SCENE_REMOVE_ALL_SCENE_RSP then [sc] else [])) s"

text \<open>The transition time of a view response: seconds, or tenths of a second in the enhanced one.\<close>

definition rsp_time :: "u8 \<Rightarrow> zcl_sceneEntry_t \<Rightarrow> u16" where
  "rsp_time cmd e = (if cmd = ZCL_CMD_SCENE_ENHANCED_VIEW_SCENE_RSP
     then sc_transTime e * 10 + sc_transTime100ms e else sc_transTime e)"

definition zcl_scene_viewSceneRsp ::
  "genv \<Rightarrow> u8 \<Rightarrow> epInfo_t \<Rightarrow> u8 \<Rightarrow> u8 \<Rightarrow> u8 \<Rightarrow> u8 \<Rightarrow> u16 \<Rightarrow> u8 \<Rightarrow> zcl_sceneEntry_t option \<Rightarrow> gsst \<Rightarrow> u8 \<times> gsst" where
  "zcl_scene_viewSceneRsp env srcEp dst dis seqNo cmd status g sc eo s =
     (if status = ZCL_STA_SUCCESS then
        (case eo of
           None \<Rightarrow> (ZCL_STA_FAILURE, s)
         | Some e \<Rightarrow> cluster_sendBuf env srcEp dst dis seqNo cmd ZCL_FRAME_SERVER_CLIENT_DIR
             (4 + 3 + sc_sceneName e ! 0 + sc_extFieldLen e)
             ([status] @ u16_bytes g @ [sc] @ u16_bytes (rsp_time cmd e) @ [sc_sceneName e ! 0]
              @ scene_name_of env e @ scene_ext_of env e) s)
      else cluster_sendBuf env srcEp dst dis seqNo cmd ZCL_FRAME_SERVER_CLIENT_DIR 4
             ([status] @ u16_bytes g @ [sc]) s)"

definition zcl_scene_getSceneMembershipRsp ::
  "genv \<Rightarrow> u8 \<Rightarrow> epInfo_t \<Rightarrow> u8 \<Rightarrow> u8 \<Rightarrow> u8 \<Rightarrow> u8 \<Rightarrow> u16 \<Rightarrow> u8 list \<Rightarrow> gsst \<Rightarrow> u8 \<times> gsst" where
  "zcl_scene_getSceneMembershipRsp env srcEp dst dis seqNo status free_places g scenes s =
     cluster_sendBuf env srcEp dst dis seqNo ZCL_CMD_SCENE_GET_SCENE_MEMSHIP_RSP ZCL_FRAME_SERVER_CLIENT_DIR
       (if status = ZCL_STA_SUCCESS then 4 + 1 + of_nat (length scenes) else 4)
       ([status, free_places] @ u16_bytes g @
        (if status = ZCL_STA_SUCCESS then [of_nat (length scenes)] @ scenes else [])) s"

subsection \<open>Parsing\<close>

text \<open>\<open>fill n bs xs\<close>: the bytes \<open>bs\<close> copied to place \<open>n\<close> of the array \<open>xs\<close>.\<close>

definition fill :: "nat \<Rightarrow> bytes \<Rightarrow> bytes \<Rightarrow> bytes" where
  "fill n bs xs = take n xs @ bs @ drop (n + length bs) xs"

definition name_cut :: "u8 \<Rightarrow> u8" where
  "name_cut n = (if n > of_nat (ZCL_MAX_SCENE_NAME_LEN - 1) then of_nat (ZCL_MAX_SCENE_NAME_LEN - 1) else n)"

text \<open>The length of the extension field is what is left of the frame, in eight bits.\<close>

definition ext_len :: "u16 \<Rightarrow> nat \<Rightarrow> u8" where
  "ext_len dlen pos = ucast dlen - of_nat pos"

definition ext_cut :: "u8 \<Rightarrow> u8" where
  "ext_cut n = (if n > of_nat ZCL_MAX_SCENE_EXT_FIELD_SIZE then of_nat ZCL_MAX_SCENE_EXT_FIELD_SIZE else n)"

definition put_ext :: "u16 \<Rightarrow> nat \<Rightarrow> view \<Rightarrow> zcl_sceneEntry_t \<Rightarrow> zcl_sceneEntry_t" where
  "put_ext dlen pos p e = (let n = ext_cut (ext_len dlen pos) in
     e\<lparr>sc_extFieldLen := n, sc_extField := fill 0 (vtake (unat n) (vdrop pos p)) (sc_extField e)\<rparr>)"

definition put_name :: "u8 \<Rightarrow> view \<Rightarrow> zcl_sceneEntry_t \<Rightarrow> zcl_sceneEntry_t" where
  "put_name nameLen p e = (let n = name_cut nameLen in
     e\<lparr>sc_sceneName := fill 0 (n # vtake (unat n) p) (sc_sceneName e)\<rparr>)"

text \<open>Whether the endpoint supports scene names, read into a one-byte variable that is \<^verbatim>\<open>FALSE\<close>.\<close>

definition name_support :: "u8 \<Rightarrow> gsst \<Rightarrow> bool \<times> gsst" where
  "name_support ep s = (case zcl_getAttrVal ep ZCL_CLUSTER_GEN_SCENES ZCL_ATTRID_SCENE_NAME_SUPPORT (g_z s) of
     (st, len, bs) \<Rightarrow> if st = ZCL_STA_SUCCESS
       then ((case bs of [] \<Rightarrow> False | b # _ \<Rightarrow> b \<noteq> 0), s\<lparr>g_z := local_touch 1 (length bs) (g_z s)\<rparr>)
       else (False, s))"

definition zcl_addSceneParse :: "u8 \<Rightarrow> view \<Rightarrow> u16 \<Rightarrow> zcl_sceneEntry_t \<Rightarrow> gsst \<Rightarrow> zcl_sceneEntry_t \<times> gsst" where
  "zcl_addSceneParse ep p dlen e s =
     (let e1 = e\<lparr>sc_groupId := BUILD_U16 (p 0) (p 1), sc_sceneId := p 2, sc_transTime := BUILD_U16 (p 3) (p 4)\<rparr>;
          nameLen = p 5;
          (nameSupport, s1) = name_support ep s;
          e2 = (if nameSupport then put_name nameLen (vdrop 6 p) e1 else e1) in
      (put_ext dlen (6 + unat nameLen) p e2, s1))"

definition zcl_viewSceneRspParse :: "view \<Rightarrow> u16 \<Rightarrow> zcl_sceneEntry_t \<Rightarrow> u8 \<times> zcl_sceneEntry_t" where
  "zcl_viewSceneRspParse p dlen e =
     (let e1 = e\<lparr>sc_groupId := BUILD_U16 (p 1) (p 2), sc_sceneId := p 3\<rparr> in
      (p 0, if p 0 = ZCL_STA_SUCCESS
            then put_ext dlen (7 + unat (p 6)) p
                   (put_name (p 6) (vdrop 7 p) (e1\<lparr>sc_transTime := BUILD_U16 (p 4) (p 5)\<rparr>))
            else e1))"

definition zcl_getSceneMembershipRspParse :: "view \<Rightarrow> gs_payload" where
  "zcl_getSceneMembershipRspParse p =
     (if p 0 = ZCL_STA_SUCCESS then SceneMemRsp (p 0) (p 1) (BUILD_U16 (p 2) (p 3)) (p 4) (Some (vdrop 5 p))
      else SceneMemRsp (p 0) (p 1) (BUILD_U16 (p 2) (p 3)) 0 None)"

subsection \<open>The handlers of the server\<close>

text \<open>Whether an endpoint belongs to a group.\<close>

definition in_group :: "u16 \<Rightarrow> u8 \<Rightarrow> gsst \<Rightarrow> bool \<times> gsst" where
  "in_group g ep s = (case aps_group_search g ep (g_groups s) of
     None \<Rightarrow> (False, s\<lparr>g_fault := True\<rparr>) | Some r \<Rightarrow> (r \<noteq> None, s))"

definition group_known :: "u16 \<Rightarrow> u8 \<Rightarrow> gsst \<Rightarrow> bool \<times> gsst" where
  "group_known g ep s = (if g = 0 then (True, s) else in_group g ep s)"

definition ep_of :: "zclIncoming_t \<Rightarrow> u8" where
  "ep_of m = i_dst_ep (indInfo (msg m))"

text \<open>The end of every handler: an answer to a unicast, the status to any other message.\<close>

definition answer :: "zclIncoming_t \<Rightarrow> u8 \<Rightarrow> (gsst \<Rightarrow> u8 \<times> gsst) \<Rightarrow> gsst \<Rightarrow> u8 \<times> gsst" where
  "answer m status send s =
     (if UNICAST_MSG (msg m) then (ZCL_STA_CMD_HAS_RESP, snd (send s)) else (status, s))"

definition scene_answer :: "genv \<Rightarrow> zclIncoming_t \<Rightarrow> u8 \<Rightarrow> u16 \<Rightarrow> u8 \<Rightarrow> u8 \<Rightarrow> gsst \<Rightarrow> u8 \<times> gsst" where
  "scene_answer env m cmd g sc status s = answer m status
     (zcl_scene_sceneRsp env (ep_of m) (cluster_reply_ep m) 1 (h_seqNum (hdr m)) cmd status g sc) s"

definition enhanced :: "u8 \<Rightarrow> zcl_sceneEntry_t \<Rightarrow> zcl_sceneEntry_t" where
  "enhanced cmd e = (if cmd = ZCL_CMD_SCENE_ENHANCED_ADD_SCENE
     then e\<lparr>sc_transTime100ms := sc_transTime e mod 10, sc_transTime := sc_transTime e div 10\<rparr> else e)"

definition zcl_addScenePrc :: "genv \<Rightarrow> zclIncoming_t \<Rightarrow> gsst \<Rightarrow> u8 \<times> gsst" where
  "zcl_addScenePrc env m s =
     (let cmd = h_cmd (hdr m);
          (e0, s1) = zcl_addSceneParse (ep_of m) (pData m) (dataLen m) zero_scene s;
          e = enhanced cmd e0;
          (known, s2) = group_known (sc_groupId e) (ep_of m) s1;
          (status, s3) = (if known then zcl_scene_addSceneEntry env (ep_of m) e s2 else (ZCL_STA_INVALID_FIELD, s2)) in
      scene_answer env m cmd (sc_groupId e) (sc_sceneId e) status s3)"

definition zcl_viewScenePrc :: "genv \<Rightarrow> zclIncoming_t \<Rightarrow> gsst \<Rightarrow> u8 \<times> gsst" where
  "zcl_viewScenePrc env m s =
     (let p = pData m; g = BUILD_U16 (p 0) (p 1); sc = p 2; cmd = h_cmd (hdr m) in
      case zcl_scene_findEntry (ep_of m) g sc (g_scenes s) of
        Some i \<Rightarrow> answer m ZCL_STA_SUCCESS (zcl_scene_viewSceneRsp env (ep_of m) (cluster_reply_ep m) 1
          (h_seqNum (hdr m)) cmd ZCL_STA_SUCCESS g sc (Some (st_scene (g_scenes s ! i)))) s
      | None \<Rightarrow>
          (let (known, s1) = group_known g (ep_of m) s;
               status = (if known then ZCL_STA_NOT_FOUND else ZCL_STA_INVALID_FIELD) in
           answer m status (zcl_scene_viewSceneRsp env (ep_of m) (cluster_reply_ep m) 1
             (h_seqNum (hdr m)) cmd status g sc None) s1))"

definition zcl_removeScenePrc :: "genv \<Rightarrow> zclIncoming_t \<Rightarrow> gsst \<Rightarrow> u8 \<times> gsst" where
  "zcl_removeScenePrc env m s =
     (let p = pData m; g = BUILD_U16 (p 0) (p 1); sc = p 2;
          (st, s1) = zcl_scene_removeSceneEntry env (ep_of m) g sc s;
          (status, s2) = (if st = ZCL_STA_NOT_FOUND then
             (let (b, s') = in_group g (ep_of m) s1 in (if b then st else ZCL_STA_INVALID_FIELD, s')) else (st, s1)) in
      scene_answer env m ZCL_CMD_SCENE_REMOVE_SCENE_RSP g sc status s2)"

definition zcl_removeAllScenePrc :: "genv \<Rightarrow> zclIncoming_t \<Rightarrow> gsst \<Rightarrow> u8 \<times> gsst" where
  "zcl_removeAllScenePrc env m s =
     (let p = pData m; g = BUILD_U16 (p 0) (p 1);
          (known, s1) = group_known g (ep_of m) s;
          (status, s2) = (if known then (ZCL_STA_SUCCESS, zcl_scene_removeAllSceneEntry env (ep_of m) g True s1)
                          else (ZCL_STA_INVALID_FIELD, s1)) in
      scene_answer env m ZCL_CMD_SCENE_REMOVE_ALL_SCENE_RSP g 0 status s2)"

definition set_current :: "genv \<Rightarrow> u8 \<Rightarrow> u16 \<Rightarrow> u8 \<Rightarrow> gsst \<Rightarrow> gsst" where
  "set_current env ep g sc s =
     scene_attr_set env ep ZCL_ATTRID_SCENE_SCENE_VALID [1]
       (scene_attr_set env ep ZCL_ATTRID_SCENE_CURRENT_GROUP (u16_bytes g)
         (scene_attr_set env ep ZCL_ATTRID_SCENE_CURRENT_SCENE [sc] s))"

definition scene_at :: "nat \<Rightarrow> gsst \<Rightarrow> zcl_sceneEntry_t" where
  "scene_at i s = st_scene (g_scenes s ! i)"

definition set_scene :: "nat \<Rightarrow> zcl_sceneEntry_t \<Rightarrow> gsst \<Rightarrow> gsst" where
  "set_scene i e s = s\<lparr>g_scenes := (g_scenes s)[i := (g_scenes s ! i)\<lparr>st_scene := e\<rparr>]\<rparr>"

text \<open>The application fills in, or applies, the scene it is given a pointer to.\<close>

definition app_scene :: "genv \<Rightarrow> nat \<Rightarrow> zclIncoming_t \<Rightarrow> u8 \<Rightarrow> gs_payload \<Rightarrow> nat \<Rightarrow> gsst \<Rightarrow> gsst" where
  "app_scene env app m cmd d i s =
     (case appCb env app (addrInfo m) cmd d s of
        (StoreScene e, s1) \<Rightarrow> set_scene i e s1 | (RecallScene e, s1) \<Rightarrow> set_scene i e s1 | (_, s1) \<Rightarrow> s1)"

definition store_at :: "genv \<Rightarrow> zclIncoming_t \<Rightarrow> nat \<Rightarrow> u16 \<Rightarrow> u8 \<Rightarrow> nat \<Rightarrow> gsst \<Rightarrow> gsst" where
  "store_at env m app g sc i s =
     (let s1 = app_scene env app m ZCL_CMD_SCENE_STORE_SCENE (StoreScene (scene_at i s)) i s;
          s2 = s1\<lparr>g_scenes := scene_put i (ep_of m) ((scene_at i s1)\<lparr>sc_groupId := g, sc_sceneId := sc\<rparr>) (g_scenes s1)\<rparr> in
      snd (zcl_scenesSave env (ep_of m) (set_current env (ep_of m) g sc s2)))"

definition zcl_storeScenePrc :: "genv \<Rightarrow> zclIncoming_t \<Rightarrow> gsst \<Rightarrow> u8 \<times> gsst" where
  "zcl_storeScenePrc env m s =
     (let p = pData m; g = BUILD_U16 (p 0) (p 1); sc = p 2;
          (known, s1) = group_known g (ep_of m) s;
          (status, s2) =
            (if \<not> known then (ZCL_STA_INVALID_FIELD, s1)
             else case scene_slot (ep_of m) g sc (g_scenes s1) of
               None \<Rightarrow> (ZCL_STA_INSUFFICIENT_SPACE, s1)
             | Some i \<Rightarrow> (case m_clusterAppCb m of
                 None \<Rightarrow> (ZCL_STA_FAILURE, s1)
               | Some app \<Rightarrow> (ZCL_STA_SUCCESS, store_at env m app g sc i s1))) in
      scene_answer env m ZCL_CMD_SCENE_STORE_SCENE_RSP g sc status s2)"

definition recall_at :: "genv \<Rightarrow> zclIncoming_t \<Rightarrow> nat \<Rightarrow> u16 \<Rightarrow> u8 \<Rightarrow> u16 \<Rightarrow> nat \<Rightarrow> gsst \<Rightarrow> gsst" where
  "recall_at env m app g sc t i s =
     (let e = scene_at i s;
          s1 = (if t \<noteq> 0xFFFF then set_scene i (e\<lparr>sc_transTime := t div 10, sc_transTime100ms := t mod 10\<rparr>) s else s);
          s2 = app_scene env app m ZCL_CMD_SCENE_RECALL_SCENE (RecallScene (scene_at i s1)) i s1;
          s3 = set_scene i ((scene_at i s2)\<lparr>sc_transTime := sc_transTime e, sc_transTime100ms := sc_transTime100ms e\<rparr>) s2 in
      set_current env (ep_of m) g sc s3)"

text \<open>There is no answer to a recall; a scene that does not exist is ignored.\<close>

definition zcl_recallScenePrc :: "genv \<Rightarrow> zclIncoming_t \<Rightarrow> gsst \<Rightarrow> u8 \<times> gsst" where
  "zcl_recallScenePrc env m s =
     (let p = pData m; g = BUILD_U16 (p 0) (p 1); sc = p 2;
          t = (if dataLen m = 5 then BUILD_U16 (p 3) (p 4) else 0xFFFF) in
      case zcl_scene_findEntry (ep_of m) g sc (g_scenes s) of
        None \<Rightarrow> (ZCL_STA_SUCCESS, s)
      | Some i \<Rightarrow> (case m_clusterAppCb m of
          None \<Rightarrow> (ZCL_STA_SUCCESS, s)
        | Some app \<Rightarrow> (ZCL_STA_SUCCESS, recall_at env m app g sc t i s)))"

definition zcl_getSceneMembershipPrc :: "genv \<Rightarrow> zclIncoming_t \<Rightarrow> gsst \<Rightarrow> u8 \<times> gsst" where
  "zcl_getSceneMembershipPrc env m s =
     (let p = pData m; g = BUILD_U16 (p 0) (p 1);
          (known, s1) = group_known g (ep_of m) s;
          (status, scenes) = (if known then (ZCL_STA_SUCCESS, zcl_scene_findAllSceneByGroup (ep_of m) g (g_scenes s1))
                              else (ZCL_STA_INVALID_FIELD, []));
          free_places = of_nat (length (g_scenes s1)) - zcl_scene_getSceneUsedNum (g_scenes s1) in
      answer m status (zcl_scene_getSceneMembershipRsp env (ep_of m) (cluster_reply_ep m) 1 (h_seqNum (hdr m))
        status free_places g scenes) s1)"

definition parse_copy :: "view \<Rightarrow> copyScene_t" where
  "parse_copy p = \<lparr>cs_mode = p 0, cs_groupIdFrom = BUILD_U16 (p 1) (p 2), cs_sceneIdFrom = p 3,
     cs_groupIdTo = BUILD_U16 (p 4) (p 5), cs_sceneIdTo = p 6\<rparr>"

definition zcl_copyScenePrc :: "genv \<Rightarrow> zclIncoming_t \<Rightarrow> gsst \<Rightarrow> u8 \<times> gsst" where
  "zcl_copyScenePrc env m s =
     (let c = parse_copy (pData m);
          (b, s1) = in_group (cs_groupIdFrom c) (ep_of m) s;
          (b2, s2) = (if b then in_group (cs_groupIdTo c) (ep_of m) s1 else (False, s1));
          (status, s3) = (if b2 then zcl_scene_copySceneEntry env (ep_of m) c s2 else (ZCL_STA_INVALID_FIELD, s2)) in
      scene_answer env m ZCL_CMD_SCENE_COPY_SCENE_RSP (cs_groupIdFrom c) (cs_sceneIdFrom c) status s3)"

definition zcl_scene_clientCmdHandler :: "genv \<Rightarrow> zclIncoming_t \<Rightarrow> gsst \<Rightarrow> u8 \<times> gsst" where
  "zcl_scene_clientCmdHandler env m s = (let c = h_cmd (hdr m) in
     if c = ZCL_CMD_SCENE_ADD_SCENE \<or> c = ZCL_CMD_SCENE_ENHANCED_ADD_SCENE then zcl_addScenePrc env m s
     else if c = ZCL_CMD_SCENE_VIEW_SCENE \<or> c = ZCL_CMD_SCENE_ENHANCED_VIEW_SCENE then zcl_viewScenePrc env m s
     else if c = ZCL_CMD_SCENE_REMOVE_SCENE then zcl_removeScenePrc env m s
     else if c = ZCL_CMD_SCENE_REMOVE_ALL_SCENE then zcl_removeAllScenePrc env m s
     else if c = ZCL_CMD_SCENE_STORE_SCENE then zcl_storeScenePrc env m s
     else if c = ZCL_CMD_SCENE_RECALL_SCENE then zcl_recallScenePrc env m s
     else if c = ZCL_CMD_SCENE_GET_SCENE_MEMSHIP then zcl_getSceneMembershipPrc env m s
     else if c = ZCL_CMD_SCENE_COPY_SCENE then zcl_copyScenePrc env m s
     else (ZCL_STA_UNSUP_CLUSTER_COMMAND, s))"

subsection \<open>The handler of the client\<close>

definition scene_rsp_payload :: "u8 \<Rightarrow> view \<Rightarrow> u16 \<Rightarrow> gs_payload option" where
  "scene_rsp_payload cmd p len =
     (let g = BUILD_U16 (p 1) (p 2) in
      if cmd = ZCL_CMD_SCENE_ADD_SCENE \<or> cmd = ZCL_CMD_SCENE_ENHANCED_ADD_SCENE then Some (AddSceneRsp (p 0) g (p 3))
      else if cmd = ZCL_CMD_SCENE_VIEW_SCENE \<or> cmd = ZCL_CMD_SCENE_ENHANCED_VIEW_SCENE_RSP
      then Some (case zcl_viewSceneRspParse p len zero_scene of (st, e) \<Rightarrow> ViewSceneRsp st e)
      else if cmd = ZCL_CMD_SCENE_REMOVE_SCENE_RSP then Some (RemoveSceneRsp (p 0) g (p 3))
      else if cmd = ZCL_CMD_SCENE_REMOVE_ALL_SCENE_RSP then Some (RemoveAllSceneRsp (p 0) g)
      else if cmd = ZCL_CMD_SCENE_STORE_SCENE_RSP then Some (StoreSceneRsp (p 0) g (p 3))
      else if cmd = ZCL_CMD_SCENE_GET_SCENE_MEMSHIP_RSP then Some (zcl_getSceneMembershipRspParse p)
      else if cmd = ZCL_CMD_SCENE_COPY_SCENE_RSP then Some (CopySceneRsp (p 0) g (p 3))
      else None)"

definition zcl_scene_serverCmdHandler :: "genv \<Rightarrow> zclIncoming_t \<Rightarrow> gsst \<Rightarrow> u8 \<times> gsst" where
  "zcl_scene_serverCmdHandler env m s =
     (case scene_rsp_payload (h_cmd (hdr m)) (pData m) (dataLen m) of
        None \<Rightarrow> (ZCL_STA_UNSUP_CLUSTER_COMMAND, s)
      | Some d \<Rightarrow> (ZCL_STA_SUCCESS, case m_clusterAppCb m of
          None \<Rightarrow> s | Some app \<Rightarrow> snd (appCb env app (addrInfo m) (h_cmd (hdr m)) d s)))"

definition zcl_scene_cmdHandler :: "genv \<Rightarrow> zclIncoming_t \<Rightarrow> gsst \<Rightarrow> u8 \<times> gsst" where
  "zcl_scene_cmdHandler env m s =
     (if \<not> frmCtrl_dir (h_frmCtrl (hdr m)) then zcl_scene_clientCmdHandler env m s
      else zcl_scene_serverCmdHandler env m s)"

subsection \<open>Blocks\<close>

text \<open>The flash driver gives back the block it takes while it changes the sector.\<close>

definition pool_kept :: "ev_buf_vars_t \<Rightarrow> ev_buf_vars_t \<Rightarrow> bool" where
  "pool_kept v w \<longleftrightarrow> (pool_ok v \<longrightarrow> pool_ok w \<and> live w = live v)"

lemma pool_kept_refl [simp]: "pool_kept v v"
  by (simp add: pool_kept_def)

lemma exceptionData_pool: "nv_exceptionDataHandler single sec md f v = (f', w) \<Longrightarrow> pool_kept v w"
  using eb.alloc_fail eb.scoped [OF _ _ eb.alloc_inv refl]
  by (fastforce simp: nv_exceptionDataHandler_def pool_kept_def Let_def split: prod.splits option.splits if_splits)

lemma change_sector_pool:
  assumes "change_sector single md k len old new f v = (r, f', w)"
  shows "pool_kept v w"
proof -
  obtain f2 v1 where e: "nv_exceptionDataHandler single old md (erase_sectors (NV_SECTOR_SIZE md div FLASH_SECTOR_SIZE)
      (MODULES_START_ADDR md + new * NV_SECTOR_SIZE md) f) v = (f2, v1)" by fastforce
  then have "w = v1" using assms by (auto simp: change_sector_def Let_def split: prod.splits if_splits copy_res.splits)
  with exceptionData_pool [OF e] show ?thesis by simp
qed

lemma writeHandler_pool:
  assumes "nv_flashWriteNewHandler force single md k len buf f v = (r, f', w)"
  shows "pool_kept v w"
proof -
  have c: "pool_kept v v1" if "change_sector single md k len o1 o2 f1 v = (x, f2, v1)" for o1 o2 f1 x f2 v1
    using that by (rule change_sector_pool)
  show ?thesis
    using assms unfolding nv_flashWriteNewHandler_def Let_def
    by (auto split: if_splits prod.splits option.splits sum.splits intro: c)
qed

lemma writeNew_pool:
  assumes "Drv_Nv.nv_flashWriteNew single md k len buf f v = (r, f', w)"
  shows "pool_kept v w"
proof -
  obtain r1 f1 v1 where h: "nv_flashWriteNewHandler False single md k len buf f v = (r1, f1, v1)" by (metis prod_cases3)
  note k1 = writeHandler_pool [OF h]
  have k2: "pool_kept v1 w" if "nv_flashWriteNewHandler True single md k len buf f1 v1 = (r, f', w)"
    using that by (rule writeHandler_pool)
  show ?thesis
    using assms h k1 k2 unfolding Drv_Nv.nv_flashWriteNew_def
    by (auto simp: Let_def pool_kept_def split: if_splits)
qed

text \<open>\<open>gs_kept\<close>: work on the clusters' state that gives back what it takes.\<close>

definition gs_kept :: "gsst \<Rightarrow> gsst \<Rightarrow> bool" where
  "gs_kept s s' \<longleftrightarrow> same_pool (g_z s) (g_z s')"

named_theorems gs_effects

definition genv_ok :: "genv \<Rightarrow> bool" where
  "genv_ok env \<longleftrightarrow> (\<forall>k a c d s. gs_kept s (snd (appCb env k a c d s)))"

lemma gs_kept_refl [simp]: "gs_kept s s"
  by (simp add: gs_kept_def)

lemma gs_kept_trans: "gs_kept s s' \<Longrightarrow> gs_kept s' s'' \<Longrightarrow> gs_kept s s''"
  using same_pool_trans by (auto simp: gs_kept_def)

lemma gs_kept_upd [simp]:
  "gs_kept s (s'\<lparr>g_scenes := a\<rparr>) = gs_kept s s'" "gs_kept s (s'\<lparr>g_fault := b\<rparr>) = gs_kept s s'"
  "gs_kept s (s'\<lparr>g_groups := c\<rparr>) = gs_kept s s'" "gs_kept s (s'\<lparr>g_flash := d\<rparr>) = gs_kept s s'"
  "gs_kept (s\<lparr>g_scenes := a\<rparr>) s' = gs_kept s s'" "gs_kept (s\<lparr>g_groups := c\<rparr>) s' = gs_kept s s'"
  by (simp_all add: gs_kept_def)

lemma gs_kept_let: "gs_kept s t \<Longrightarrow> gs_kept t (f t) \<Longrightarrow> gs_kept s (f t)"
  by (rule gs_kept_trans)

lemma setAttr_kept: "same_pool z (snd (zcl_setAttrVal ep c a v z'))" if "same_pool z z'"
  using that by (auto simp: zcl_setAttrVal_def Let_def same_pool_def split: option.splits)

lemma attr_set_kept [gs_effects]: "gs_kept s (scene_attr_set env ep a v s)"
  by (auto simp: scene_attr_set_def gs_kept_def split: prod.splits intro!: setAttr_kept same_pool_eq)

lemma table_save_kept [gs_effects]: "gs_kept s (snd (zcl_sceneTable_save s))"
proof -
  obtain r f w where e: "Drv_Nv.nv_flashWriteNew True NV_MODULE_ZCL NV_ITEM_ZCL_SCENE_TABLE
        (of_nat (SCENE_SIZE * length (g_scenes s))) (scenetab_bytes (g_scenes s)) (g_flash s) (pool (g_z s)) = (r, f, w)"
    by (metis prod_cases3)
  from writeNew_pool [OF e] show ?thesis
    using e by (simp add: zcl_sceneTable_save_def gs_kept_def same_pool_def pool_kept_def)
qed

lemma scenesSave_kept [gs_effects]: "gs_kept s (snd (zcl_scenesSave env ep s))"
  unfolding zcl_scenesSave_def zcl_scene_updateSceneCntAttr_def
  by (rule gs_kept_trans [OF attr_set_kept table_save_kept])

lemma addEntry_kept [gs_effects]: "gs_kept s (snd (zcl_scene_addSceneEntry env ep e s))"
  using scenesSave_kept [of "s\<lparr>g_scenes := t\<rparr>" for t] by (simp add: zcl_scene_addSceneEntry_def split: prod.splits)

lemma removeEntry_kept [gs_effects]: "gs_kept s (snd (zcl_scene_removeSceneEntry env ep g sc s))"
  using scenesSave_kept [of "s\<lparr>g_scenes := t\<rparr>" for t] by (simp add: zcl_scene_removeSceneEntry_def split: prod.splits)

lemma removeAllEntry_kept [gs_effects]: "gs_kept s (zcl_scene_removeAllSceneEntry env ep g b s)"
  using scenesSave_kept [of "s\<lparr>g_scenes := t\<rparr>" for t]
  by (simp add: zcl_scene_removeAllSceneEntry_def Let_def split: prod.splits)

lemma copyEntry_kept [gs_effects]: "gs_kept s (snd (zcl_scene_copySceneEntry env ep c s))"
  using scenesSave_kept [of "s\<lparr>g_scenes := t\<rparr>" for t]
  by (simp add: zcl_scene_copySceneEntry_def Let_def split: prod.splits)

lemma cluster_send_kept [gs_effects]: "gs_kept s (snd (cluster_send env cl srcEp dst dis seqNo cmd dir bs s))"
  using sendCmd_effect(2) by (auto simp: cluster_send_def gs_kept_def split: prod.splits)

lemma cluster_sendBuf_kept [gs_effects]: "gs_kept s (snd (cluster_sendBuf env srcEp dst dis seqNo cmd dir len bs s))"
proof -
  obtain r z where a: "zalloc (ucast len) (g_z s) = (r, z)" by fastforce
  show ?thesis
  proof (cases r)
    case None
    then show ?thesis using a same_pool_fail by (auto simp: cluster_sendBuf_def gs_kept_def)
  next
    case (Some p)
    let ?s1 = "snd (cluster_send env ZCL_CLUSTER_GEN_SCENES srcEp dst dis seqNo cmd dir bs (s\<lparr>g_z := buf_touch p (length bs) z\<rparr>))"
    have "same_pool z (g_z ?s1)"
      using cluster_send_kept [of "s\<lparr>g_z := buf_touch p (length bs) z\<rparr>"] by (simp add: gs_kept_def)
    from same_pool_scoped [OF a [unfolded Some] this] show ?thesis
      using a Some by (simp add: cluster_sendBuf_def gs_kept_def Let_def)
  qed
qed

lemma in_group_kept [gs_effects]: "gs_kept s (snd (in_group g ep s))"
  by (simp add: in_group_def split: option.splits)

lemma group_known_kept [gs_effects]: "gs_kept s (snd (group_known g ep s))"
  by (simp add: group_known_def gs_effects)

lemma name_support_kept [gs_effects]: "gs_kept s (snd (name_support ep s))"
  by (auto simp: name_support_def gs_kept_def same_pool_eq split: prod.splits)

lemma addSceneParse_kept [gs_effects]: "gs_kept s (snd (zcl_addSceneParse ep p n e s))"
  using name_support_kept [of s ep] by (auto simp: zcl_addSceneParse_def Let_def split: prod.splits)

lemma app_scene_kept [gs_effects]: "genv_ok env \<Longrightarrow> gs_kept s (app_scene env app m cmd d i s)"
  unfolding genv_ok_def by (auto simp: app_scene_def set_scene_def split: prod.splits gs_payload.splits) (metis snd_conv)+

lemma set_scene_kept [simp]: "gs_kept s (set_scene i e s') = gs_kept s s'"
  by (simp add: set_scene_def)

lemma set_current_kept [gs_effects]: "gs_kept s (set_current env ep g sc s)"
  unfolding set_current_def by (meson attr_set_kept gs_kept_trans)

lemma answer_kept: "(\<And>t. gs_kept t (snd (send t))) \<Longrightarrow> gs_kept s t \<Longrightarrow> gs_kept s (snd (answer m st send t))"
  using gs_kept_trans by (auto simp: answer_def)

lemma scene_answer_kept: "gs_kept s t \<Longrightarrow> gs_kept s (snd (scene_answer env m cmd g sc st t))"
  unfolding scene_answer_def by (rule answer_kept) (simp_all add: zcl_scene_sceneRsp_def gs_effects)

lemmas gs_intros = gs_effects [THEN gs_kept_trans [rotated]] scene_answer_kept

lemma kept_if: "(b \<Longrightarrow> gs_kept s (snd x)) \<Longrightarrow> (\<not> b \<Longrightarrow> gs_kept s (snd y)) \<Longrightarrow> gs_kept s (snd (if b then x else y))"
  by simp

lemma viewSceneRsp_kept [gs_effects]: "gs_kept s (snd (zcl_scene_viewSceneRsp env a b c d e f g h i s))"
  by (auto simp: zcl_scene_viewSceneRsp_def intro: gs_intros split: option.splits)

lemma memRsp_kept [gs_effects]: "gs_kept s (snd (zcl_scene_getSceneMembershipRsp env a b c d e f g h s))"
  by (auto simp: zcl_scene_getSceneMembershipRsp_def intro: gs_intros)

lemma addScenePrc_kept [gs_effects]: "gs_kept s (snd (zcl_addScenePrc env m s))"
  unfolding zcl_addScenePrc_def Let_def split_beta
  by (intro scene_answer_kept kept_if) (auto intro!: gs_intros)

lemma viewScenePrc_kept [gs_effects]: "gs_kept s (snd (zcl_viewScenePrc env m s))"
  unfolding zcl_viewScenePrc_def Let_def split_beta
  by (auto intro!: answer_kept gs_intros viewSceneRsp_kept split: option.splits)

lemma removeScenePrc_kept [gs_effects]: "gs_kept s (snd (zcl_removeScenePrc env m s))"
  unfolding zcl_removeScenePrc_def Let_def split_beta
  by (intro scene_answer_kept kept_if) (auto intro!: gs_intros)

lemma removeAllScenePrc_kept [gs_effects]: "gs_kept s (snd (zcl_removeAllScenePrc env m s))"
  unfolding zcl_removeAllScenePrc_def Let_def split_beta
  by (intro scene_answer_kept kept_if) (auto intro!: gs_intros)

lemma store_at_kept: "genv_ok env \<Longrightarrow> gs_kept s (store_at env m app g sc i s)"
  unfolding store_at_def Let_def
  by (rule gs_kept_trans [OF _ scenesSave_kept], rule gs_kept_trans [OF _ set_current_kept]) (simp add: app_scene_kept)

lemma storeScenePrc_kept [gs_effects]: "genv_ok env \<Longrightarrow> gs_kept s (snd (zcl_storeScenePrc env m s))"
  unfolding zcl_storeScenePrc_def Let_def split_beta
  by (intro scene_answer_kept)
     (auto intro!: gs_intros gs_kept_trans [OF _ store_at_kept] split: option.splits)

lemma recall_at_kept: "genv_ok env \<Longrightarrow> gs_kept s (recall_at env m app g sc t i s)"
  unfolding recall_at_def Let_def
  by (rule gs_kept_trans [OF _ set_current_kept], simp only: set_scene_kept, rule gs_kept_trans [OF _ app_scene_kept])
     simp_all

lemma recallScenePrc_kept [gs_effects]: "genv_ok env \<Longrightarrow> gs_kept s (snd (zcl_recallScenePrc env m s))"
  by (auto simp: zcl_recallScenePrc_def Let_def recall_at_kept split: option.splits)

lemma memPrc_kept [gs_effects]: "gs_kept s (snd (zcl_getSceneMembershipPrc env m s))"
  unfolding zcl_getSceneMembershipPrc_def Let_def split_beta
  by (auto intro!: answer_kept gs_intros memRsp_kept)

lemma copyScenePrc_kept [gs_effects]: "gs_kept s (snd (zcl_copyScenePrc env m s))"
  unfolding zcl_copyScenePrc_def Let_def split_beta
  by (intro scene_answer_kept kept_if) (auto intro!: gs_intros)

lemma clientCmd_kept [gs_effects]: "genv_ok env \<Longrightarrow> gs_kept s (snd (zcl_scene_clientCmdHandler env m s))"
  unfolding zcl_scene_clientCmdHandler_def Let_def by (intro kept_if) (simp_all add: gs_effects)

lemma app_kept: "genv_ok env \<Longrightarrow> gs_kept s (snd (appCb env k a c d s))"
  by (simp add: genv_ok_def)

lemma serverCmd_kept [gs_effects]: "genv_ok env \<Longrightarrow> gs_kept s (snd (zcl_scene_serverCmdHandler env m s))"
  by (auto simp: zcl_scene_serverCmdHandler_def app_kept split: option.splits)

lemma scene_handler_kept: "genv_ok env \<Longrightarrow> gs_kept s (snd (zcl_scene_cmdHandler env m s))"
  unfolding zcl_scene_cmdHandler_def by (intro kept_if gs_effects)

subsection \<open>What is sent, and what is parsed\<close>

lemma unat_u8_less: "unat (w :: u8) < 256"
  using unsigned_less [of w, where ?'a = nat] by simp

lemma ucast_u16_of_nat: "(ucast (of_nat n :: u16) :: u8) = of_nat n"
  by (simp add: unsigned_of_nat word_of_nat_eq_iff)

lemma cluster_send_sends:
  assumes "length bs < 65530" and ok: "zok (g_z s)"
  shows "ub (g_z (snd (cluster_send env cl srcEp dst dis seqNo cmd dir bs s))) = ub (g_z s)"
    "T_sent (g_z (snd (cluster_send env cl srcEp dst dis seqNo cmd dir bs s))) =
       (if fst (zalloc (5 + of_nat (length bs)) (g_z s)) = None then T_sent (g_z s)
        else sent_frame srcEp dst cl (zcl_buildHdr 1 dir dis 0 seqNo cmd @ bs) # T_sent (g_z s))"
proof -
  obtain st z where c: "zcl_sendCmd (e_z env) srcEp dst cl cmd 1 dir dis 0 seqNo (of_nat (length bs))
        (lview bs (uninit (e_z env))) (g_z s) = (st, z)" by fastforce
  obtain r z1 where a: "zalloc (5 + of_nat (length bs)) (g_z s) = (r, z1)" by fastforce
  note S = sendCmd_sends [OF c assms] and zf = zalloc_fields [OF a]
  from S(1) show "ub (g_z (snd (cluster_send env cl srcEp dst dis seqNo cmd dir bs s))) = ub (g_z s)"
    using c by (simp add: cluster_send_def)
  have "T_sent z \<noteq> T_sent (g_z s)" if "r = Some q" for q
    using that c a zf by (auto simp: zcl_sendCmd_def send_frame_def Let_def buf_touch_def zfree_def)
  moreover have "T_sent z = T_sent (g_z s)" if "r = None"
    using that c a zf by (auto simp: zcl_sendCmd_def send_frame_def)
  ultimately show "T_sent (g_z (snd (cluster_send env cl srcEp dst dis seqNo cmd dir bs s))) =
       (if fst (zalloc (5 + of_nat (length bs)) (g_z s)) = None then T_sent (g_z s)
        else sent_frame srcEp dst cl (zcl_buildHdr 1 dir dis 0 seqNo cmd @ bs) # T_sent (g_z s))"
    using S(4) c a by (cases r) (auto simp: cluster_send_def)
qed

text \<open>A block for the payload of \<open>n\<close> bytes, and then one for the frame.\<close>

definition sendable :: "nat \<Rightarrow> zst \<Rightarrow> bool" where
  "sendable n z = (case zalloc (of_nat n) z of
     (None, _) \<Rightarrow> False | (Some _, z1) \<Rightarrow> fst (zalloc (5 + of_nat n) z1) \<noteq> None)"

lemma cluster_sendBuf_sends:
  assumes n: "unat len = length bs" and ok: "zok (g_z s)"
  shows "ub (g_z (snd (cluster_sendBuf env srcEp dst dis seqNo cmd dir len bs s))) = ub (g_z s)"
    "T_sent (g_z (snd (cluster_sendBuf env srcEp dst dis seqNo cmd dir len bs s))) =
       (if sendable (length bs) (g_z s)
        then sent_frame srcEp dst ZCL_CLUSTER_GEN_SCENES (zcl_buildHdr 1 dir dis 0 seqNo cmd @ bs) # T_sent (g_z s)
        else T_sent (g_z s))"
proof -
  have l: "length bs < 65530" using unat_u8_less [of len] n by simp
  have "(ucast len :: u16) = of_nat (length bs)" unfolding n [symmetric] by simp
  then obtain r z where a: "zalloc (of_nat (length bs)) (g_z s) = (r, z)" "zalloc (ucast len) (g_z s) = (r, z)"
    by fastforce
  note zf = zalloc_fields [OF a(1)]
  have "ub (g_z (snd (cluster_sendBuf env srcEp dst dis seqNo cmd dir len bs s))) = ub (g_z s) \<and>
    T_sent (g_z (snd (cluster_sendBuf env srcEp dst dis seqNo cmd dir len bs s))) =
       (if sendable (length bs) (g_z s)
        then sent_frame srcEp dst ZCL_CLUSTER_GEN_SCENES (zcl_buildHdr 1 dir dis 0 seqNo cmd @ bs) # T_sent (g_z s)
        else T_sent (g_z s))"
  proof (cases r)
    case None
    then show ?thesis using a zf by (simp add: cluster_sendBuf_def sendable_def)
  next
    case (Some p)
    have "length bs \<le> capacity p"
      using zb.alloc_new [OF ok a(2) [unfolded Some]] n by (simp add: unat_ucast_u8_u16)
    then have u: "buf_touch p (length bs) z = z" by (simp add: buf_touch_def)
    have "zok (g_z (s\<lparr>g_z := z\<rparr>))" using zb.alloc_inv [OF ok a(1)] by simp
    from cluster_send_sends [OF l this, of env ZCL_CLUSTER_GEN_SCENES srcEp dst dis seqNo cmd dir] u zf
    show ?thesis using a Some by (auto simp: cluster_sendBuf_def Let_def sendable_def)
  qed
  then show "ub (g_z (snd (cluster_sendBuf env srcEp dst dis seqNo cmd dir len bs s))) = ub (g_z s)"
    "T_sent (g_z (snd (cluster_sendBuf env srcEp dst dis seqNo cmd dir len bs s))) =
       (if sendable (length bs) (g_z s)
        then sent_frame srcEp dst ZCL_CLUSTER_GEN_SCENES (zcl_buildHdr 1 dir dis 0 seqNo cmd @ bs) # T_sent (g_z s)
        else T_sent (g_z s))" by auto
qed

definition scene_wf :: "zcl_sceneEntry_t \<Rightarrow> bool" where
  "scene_wf e \<longleftrightarrow> scene_sized e \<and> unat (sc_sceneName e ! 0) < ZCL_MAX_SCENE_NAME_LEN \<and>
     unat (sc_extFieldLen e) \<le> ZCL_MAX_SCENE_EXT_FIELD_SIZE"

definition scene_name :: "zcl_sceneEntry_t \<Rightarrow> bytes" where
  "scene_name e = take (unat (sc_sceneName e ! 0)) (drop 1 (sc_sceneName e))"

definition scene_ext :: "zcl_sceneEntry_t \<Rightarrow> bytes" where
  "scene_ext e = take (unat (sc_extFieldLen e)) (sc_extField e)"

lemma vtake_vdrop_lview: "k + n \<le> length xs \<Longrightarrow> vtake n (vdrop k (lview xs v)) = take n (drop k xs)"
  by (rule nth_equalityI) (auto simp: lview_inside)

lemma scene_parts:
  assumes "scene_wf e"
  shows "scene_name_of env e = scene_name e" "scene_ext_of env e = scene_ext e"
    "length (scene_name e) = unat (sc_sceneName e ! 0)" "length (scene_ext e) = unat (sc_extFieldLen e)"
proof -
  have l: "length (sc_sceneName e) = 16" "length (sc_extField e) = 24" "unat (sc_sceneName e ! 0) < 16" "unat (sc_extFieldLen e) \<le> 24"
    using assms by (auto simp: scene_wf_def scene_sized_def ZCL_MAX_SCENE_NAME_LEN_def ZCL_MAX_SCENE_EXT_FIELD_SIZE_def)
  then have n: "length (sceneEntry_bytes e) = 48" by (simp add: sceneEntry_bytes_def)
  have d: "drop 4 (sceneEntry_bytes e) = drop 1 (sc_sceneName e) @ u16_bytes (sc_transTime e)
     @ u16_bytes (sc_transTime100ms e) @ [sc_extFieldLen e] @ sc_extField e"
    "drop 24 (sceneEntry_bytes e) = sc_extField e"
    using l(1) by (simp_all add: sceneEntry_bytes_def u16_bytes_def drop_Cons')
  show "scene_name_of env e = scene_name e"
    unfolding scene_name_of_def using l n by (subst vtake_vdrop_lview) (simp_all add: d scene_name_def)
  show "scene_ext_of env e = scene_ext e"
    unfolding scene_ext_of_def using l n by (subst vtake_vdrop_lview) (simp_all add: d scene_ext_def)
  show "length (scene_name e) = unat (sc_sceneName e ! 0)" "length (scene_ext e) = unat (sc_extFieldLen e)"
    using l by (simp_all add: scene_name_def scene_ext_def)
qed

definition add_payload :: "u16 \<Rightarrow> u8 \<Rightarrow> u16 \<Rightarrow> bytes \<Rightarrow> bytes \<Rightarrow> bytes" where
  "add_payload g sc t nm ext = u16_bytes g @ [sc] @ u16_bytes t @ [of_nat (length nm)] @ nm @ ext"

definition parsed_scene :: "u16 \<Rightarrow> u8 \<Rightarrow> u16 \<Rightarrow> bytes \<Rightarrow> bytes \<Rightarrow> zcl_sceneEntry_t" where
  "parsed_scene g sc t nm ext = \<lparr>sc_groupId = g, sc_sceneId = sc,
     sc_sceneName = [of_nat (length nm)] @ nm @ replicate (15 - length nm) 0, sc_transTime = t, sc_transTime100ms = 0,
     sc_extFieldLen = of_nat (length ext), sc_extField = ext @ replicate (24 - length ext) 0\<rparr>"

lemma add_parse:
  assumes "length nm < ZCL_MAX_SCENE_NAME_LEN" "length ext \<le> ZCL_MAX_SCENE_EXT_FIELD_SIZE" "fst (name_support ep s)"
  shows "zcl_addSceneParse ep (lview (add_payload g sc t nm ext) v) (of_nat (length (add_payload g sc t nm ext))) zero_scene s =
    (parsed_scene g sc t nm ext, snd (name_support ep s))"
proof -
  have l: "length nm < 16" "length ext \<le> 24"
    using assms(1,2) by (simp_all add: ZCL_MAX_SCENE_NAME_LEN_def ZCL_MAX_SCENE_EXT_FIELD_SIZE_def)
  let ?p = "lview (add_payload g sc t nm ext) v"
  have n8: "unat (of_nat (length nm) :: u8) = length nm" "unat (of_nat (length ext) :: u8) = length ext"
    using l by (simp_all add: unat_of_nat take_bit_eq_mod)
  have b: "?p 0 = LO_UINT16 g" "?p 1 = HI_UINT16 g" "?p 2 = sc" "?p 3 = LO_UINT16 t" "?p 4 = HI_UINT16 t"
    "?p 5 = of_nat (length nm)"
    by (simp_all add: add_payload_def u16_bytes_def lview_def nth_append)
  have cut: "name_cut (of_nat (length nm)) = of_nat (length nm)" "ext_cut (of_nat (length ext)) = of_nat (length ext)"
    using n8 l by (auto simp: name_cut_def ext_cut_def word_less_nat_alt ZCL_MAX_SCENE_NAME_LEN_def ZCL_MAX_SCENE_EXT_FIELD_SIZE_def)
  have el: "ext_len (of_nat (length (add_payload g sc t nm ext))) (6 + length nm) = of_nat (length ext)"
    unfolding ext_len_def ucast_u16_of_nat by (simp add: add_payload_def)
  have nmv: "vtake (length nm) (vdrop 6 ?p) = nm"
    by (subst vtake_vdrop_lview) (simp_all add: add_payload_def u16_bytes_def)
  have "drop (6 + length nm) (add_payload g sc t nm ext) = ext"
    by (simp add: add_payload_def u16_bytes_def drop_Cons')
  then have exv: "vtake (length ext) (vdrop (6 + length nm) ?p) = ext"
    by (subst vtake_vdrop_lview) (simp_all add: add_payload_def u16_bytes_def)
  have "put_name (of_nat (length nm)) (vdrop 6 ?p) e = e\<lparr>sc_sceneName := fill 0 (of_nat (length nm) # nm) (sc_sceneName e)\<rparr>" for e
    by (simp add: put_name_def Let_def cut n8 nmv)
  moreover have "put_ext (of_nat (length (add_payload g sc t nm ext))) (6 + length nm) ?p e =
      e\<lparr>sc_extFieldLen := of_nat (length ext), sc_extField := fill 0 ext (sc_extField e)\<rparr>" for e
    by (simp add: put_ext_def Let_def el cut n8 exv)
  ultimately show ?thesis
    using assms(3) l b n8
    by (simp add: zcl_addSceneParse_def Let_def split_beta parsed_scene_def zero_scene_def fill_def
        ZCL_MAX_SCENE_NAME_LEN_def ZCL_MAX_SCENE_EXT_FIELD_SIZE_def)
qed

lemma scene_send_fields [simp]:
  "g_scenes (snd (cluster_send env cl srcEp dst dis seqNo cmd dir bs s)) = g_scenes s"
  "g_groups (snd (cluster_send env cl srcEp dst dis seqNo cmd dir bs s)) = g_groups s"
  "g_flash (snd (cluster_send env cl srcEp dst dis seqNo cmd dir bs s)) = g_flash s"
  "g_fault (snd (cluster_send env cl srcEp dst dis seqNo cmd dir bs s)) = g_fault s"
  by (simp_all add: cluster_send_def split: prod.splits)

lemma scene_lookup_fields [simp]:
  "g_scenes (snd (in_group g ep s)) = g_scenes s" "g_scenes (snd (group_known g ep s)) = g_scenes s"
  "g_scenes (snd (name_support ep s)) = g_scenes s" "g_groups (snd (name_support ep s)) = g_groups s"
  by (simp_all add: in_group_def group_known_def name_support_def split: option.splits prod.splits)

lemma scene_save_fields [simp]: "g_scenes (snd (zcl_scenesSave env ep s)) = g_scenes s"
  by (simp add: zcl_scenesSave_def zcl_sceneTable_save_def split: prod.splits)

lemma scene_answer_fields [simp]: "g_scenes (snd (scene_answer env m cmd g sc st s)) = g_scenes s"
  by (simp add: scene_answer_def answer_def zcl_scene_sceneRsp_def)

lemma group_known_support: "fst (group_known g ep (snd (name_support ep' s))) = fst (group_known g ep s)"
  by (simp add: group_known_def in_group_def split: option.splits)

lemma parsed_scene_parts:
  assumes "length nm < ZCL_MAX_SCENE_NAME_LEN" "length ext \<le> ZCL_MAX_SCENE_EXT_FIELD_SIZE"
  shows "scene_wf (parsed_scene g sc t nm ext)" "scene_name (parsed_scene g sc t nm ext) = nm"
    "scene_ext (parsed_scene g sc t nm ext) = ext"
    "unat (of_nat (length nm) :: u8) = length nm" "unat (of_nat (length ext) :: u8) = length ext"
  using assms
  by (auto simp: scene_wf_def scene_sized_def scene_name_def scene_ext_def parsed_scene_def unat_of_nat take_bit_eq_mod
      ZCL_MAX_SCENE_NAME_LEN_def ZCL_MAX_SCENE_EXT_FIELD_SIZE_def)

lemma enhanced_parts [simp]:
  "scene_wf (enhanced cmd e) = scene_wf e" "scene_name (enhanced cmd e) = scene_name e"
  "scene_ext (enhanced cmd e) = scene_ext e" "sc_groupId (enhanced cmd e) = sc_groupId e"
  "sc_sceneId (enhanced cmd e) = sc_sceneId e" "sc_sceneName (enhanced cmd e) = sc_sceneName e"
  "sc_extFieldLen (enhanced cmd e) = sc_extFieldLen e"
  by (simp_all add: enhanced_def scene_wf_def scene_sized_def scene_name_def scene_ext_def)

text \<open>What an add request does to the table, and what a view request sends for a scene in it.\<close>

lemma add_request_scenes:
  assumes r: "scene_rel cap (g_scenes s) m" and room: "m (ep, g, sc) \<noteq> None \<or> card (dom m) < cap"
    and len: "length nm < ZCL_MAX_SCENE_NAME_LEN" "length ext \<le> ZCL_MAX_SCENE_EXT_FIELD_SIZE"
    and sup: "fst (name_support ep s)" and kn: "fst (group_known g ep s)"
    and msg: "ep_of m1 = ep" "pData m1 = lview (add_payload g sc t nm ext) v"
      "dataLen m1 = of_nat (length (add_payload g sc t nm ext))"
  shows "scene_rel cap (g_scenes (snd (zcl_addScenePrc env m1 s)))
    (m((ep, g, sc) \<mapsto> enhanced (h_cmd (hdr m1)) (parsed_scene g sc t nm ext)))"
proof -
  let ?e = "enhanced (h_cmd (hdr m1)) (parsed_scene g sc t nm ext)"
  have k: "sc_groupId ?e = g" "sc_sceneId ?e = sc" by (simp_all add: parsed_scene_def)
  from scene_put_rel [OF r k(1) k(2), of ep] room obtain i where
    i: "scene_slot ep g sc (g_scenes s) = Some i" "scene_rel cap (scene_put i ep ?e (g_scenes s)) (m((ep, g, sc) \<mapsto> ?e))"
    by auto
  have P: "zcl_addSceneParse ep (pData m1) (dataLen m1) zero_scene s = (parsed_scene g sc t nm ext, snd (name_support ep s))"
    using add_parse [OF len sup] msg(2,3) by simp
  have "fst (group_known g ep (snd (name_support ep s)))" using kn by (simp add: group_known_support)
  then have "g_scenes (snd (zcl_addScenePrc env m1 s)) = scene_put i ep ?e (g_scenes s)"
    using i(1) msg(1) k
    by (simp add: zcl_addScenePrc_def Let_def P split_beta zcl_scene_addSceneEntry_def add_entry_def)
  then show ?thesis using i(2) by simp
qed

lemma view_request_sends:
  assumes r: "scene_rel cap (g_scenes s) m" and e: "m (ep, g, sc) = Some e" and wf: "scene_wf e" and ok: "zok (g_z s)"
    and msg: "ep_of m2 = ep" "pData m2 = lview (u16_bytes g @ [sc]) v" "UNICAST_MSG (msg m2)"
  defines "F \<equiv> [ZCL_STA_SUCCESS] @ u16_bytes g @ [sc] @ u16_bytes (rsp_time (h_cmd (hdr m2)) e) @
      [of_nat (length (scene_name e))] @ scene_name e @ scene_ext e"
  shows "fst (zcl_viewScenePrc env m2 s) = ZCL_STA_CMD_HAS_RESP"
    "ub (g_z (snd (zcl_viewScenePrc env m2 s))) = ub (g_z s)"
    "T_sent (g_z (snd (zcl_viewScenePrc env m2 s))) = (if sendable (length F) (g_z s)
       then sent_frame ep (cluster_reply_ep m2) ZCL_CLUSTER_GEN_SCENES
         (zcl_buildHdr 1 ZCL_FRAME_SERVER_CLIENT_DIR 1 0 (h_seqNum (hdr m2)) (h_cmd (hdr m2)) @ F) # T_sent (g_z s)
       else T_sent (g_z s))"
proof -
  note parts = scene_parts [OF wf]
  obtain i where i: "zcl_scene_findEntry ep g sc (g_scenes s) = Some i" "st_scene (g_scenes s ! i) = e"
    using found_rel [OF r e] by blast
  have b: "BUILD_U16 (pData m2 0) (pData m2 1) = g" "pData m2 2 = sc"
    using msg(2) by (simp_all add: u16_bytes_def lview_def)
  have nm: "sc_sceneName e ! 0 = of_nat (length (scene_name e))" "sc_extFieldLen e = of_nat (length (scene_ext e))"
    by (simp_all add: parts(3,4))
  have l: "length (scene_name e) < 16" "length (scene_ext e) \<le> 24"
    using wf unfolding parts(3,4) by (simp_all add: scene_wf_def ZCL_MAX_SCENE_NAME_LEN_def ZCL_MAX_SCENE_EXT_FIELD_SIZE_def)
  let ?len = "4 + 3 + sc_sceneName e ! 0 + sc_extFieldLen e"
  have "?len = of_nat (7 + length (scene_name e) + length (scene_ext e))" unfolding nm by simp
  then have "unat ?len = 7 + length (scene_name e) + length (scene_ext e)"
    using l by (simp only: unat_of_nat) (simp add: take_bit_eq_mod)
  then have n: "unat ?len = length F" by (simp add: F_def u16_bytes_def)
  have V: "zcl_viewScenePrc env m2 s = (ZCL_STA_CMD_HAS_RESP, snd (cluster_sendBuf env ep (cluster_reply_ep m2) 1
      (h_seqNum (hdr m2)) (h_cmd (hdr m2)) ZCL_FRAME_SERVER_CLIENT_DIR ?len F s))"
    using i b msg parts(1,2) by (simp add: zcl_viewScenePrc_def Let_def answer_def zcl_scene_viewSceneRsp_def F_def flip: nm)
  show "fst (zcl_viewScenePrc env m2 s) = ZCL_STA_CMD_HAS_RESP" unfolding V by simp
  show "ub (g_z (snd (zcl_viewScenePrc env m2 s))) = ub (g_z s)"
    unfolding V using cluster_sendBuf_sends(1) [OF n ok] by simp
  show "T_sent (g_z (snd (zcl_viewScenePrc env m2 s))) = (if sendable (length F) (g_z s)
       then sent_frame ep (cluster_reply_ep m2) ZCL_CLUSTER_GEN_SCENES
         (zcl_buildHdr 1 ZCL_FRAME_SERVER_CLIENT_DIR 1 0 (h_seqNum (hdr m2)) (h_cmd (hdr m2)) @ F) # T_sent (g_z s)
       else T_sent (g_z s))"
    unfolding V using cluster_sendBuf_sends(2) [OF n ok] by simp
qed

text \<open>The same for an add request of six bytes that announces a name of \<open>n\<close> bytes, on an endpoint without
  scene names: the length of the extension field wraps around.\<close>

definition leak_scene :: "u16 \<Rightarrow> u8 \<Rightarrow> u16 \<Rightarrow> bytes \<Rightarrow> zcl_sceneEntry_t" where
  "leak_scene g sc t bs = zero_scene\<lparr>sc_groupId := g, sc_sceneId := sc, sc_transTime := t,
     sc_extFieldLen := of_nat ZCL_MAX_SCENE_EXT_FIELD_SIZE, sc_extField := bs\<rparr>"

lemma short_add_parse:
  assumes n: "0 < n" "n \<le> 232" and ns: "\<not> fst (name_support ep s)"
  shows "zcl_addSceneParse ep (lview (u16_bytes g @ [sc] @ u16_bytes t @ [of_nat n]) v) 6 zero_scene s =
    (leak_scene g sc t (vtake 24 (vdrop n v)), snd (name_support ep s))"
proof -
  let ?p = "lview (u16_bytes g @ [sc] @ u16_bytes t @ [of_nat n]) v"
  have u: "unat (of_nat n :: u8) = n" using n by (simp add: unat_of_nat take_bit_eq_mod)
  have "ext_len 6 (6 + n) = of_nat (256 - n)"
  proof -
    have "(of_nat (256 - n) :: u8) = of_nat 256 - of_nat n" using n by (intro of_nat_diff) simp
    then show ?thesis by (simp add: ext_len_def)
  qed
  moreover have "unat (of_nat (256 - n) :: u8) = 256 - n"
    unfolding unat_of_nat take_bit_eq_mod using n by (simp del: of_nat_diff)
  ultimately have cut: "ext_cut (ext_len 6 (6 + n)) = 24"
    using n by (cases "n = 232") (auto simp: ext_cut_def word_less_nat_alt ZCL_MAX_SCENE_EXT_FIELD_SIZE_def)
  have b: "?p 0 = LO_UINT16 g" "?p 1 = HI_UINT16 g" "?p 2 = sc" "?p 3 = LO_UINT16 t" "?p 4 = HI_UINT16 t" "?p 5 = of_nat n"
    by (simp_all add: u16_bytes_def lview_def)
  have "vdrop (6 + n) ?p = vdrop n v" by (simp add: fun_eq_iff vdrop_def lview_def u16_bytes_def)
  then have "put_ext 6 (6 + n) ?p e = e\<lparr>sc_extFieldLen := 24, sc_extField := fill 0 (vtake 24 (vdrop n v)) (sc_extField e)\<rparr>" for e
    by (simp add: put_ext_def Let_def cut)
  then show ?thesis using ns b u
    by (simp add: zcl_addSceneParse_def Let_def split_beta leak_scene_def zero_scene_def fill_def vtake_def
        ZCL_MAX_SCENE_EXT_FIELD_SIZE_def ZCL_MAX_SCENE_NAME_LEN_def)
qed

lemma short_add_scenes:
  assumes r: "scene_rel cap (g_scenes s) m" and room: "m (ep, g, sc) \<noteq> None \<or> card (dom m) < cap"
    and n: "0 < n" "n \<le> 232" and ns: "\<not> fst (name_support ep s)" and kn: "fst (group_known g ep s)"
    and msg: "ep_of m1 = ep" "pData m1 = lview (u16_bytes g @ [sc] @ u16_bytes t @ [of_nat n]) v" "dataLen m1 = 6"
      "h_cmd (hdr m1) = ZCL_CMD_SCENE_ADD_SCENE"
  shows "scene_rel cap (g_scenes (snd (zcl_addScenePrc env m1 s)))
    (m((ep, g, sc) \<mapsto> leak_scene g sc t (vtake 24 (vdrop n v))))"
proof -
  let ?e = "leak_scene g sc t (vtake 24 (vdrop n v))"
  have k: "sc_groupId ?e = g" "sc_sceneId ?e = sc" by (simp_all add: leak_scene_def)
  from scene_put_rel [OF r k(1) k(2), of ep] room obtain i where
    i: "scene_slot ep g sc (g_scenes s) = Some i" "scene_rel cap (scene_put i ep ?e (g_scenes s)) (m((ep, g, sc) \<mapsto> ?e))"
    by auto
  have P: "zcl_addSceneParse ep (pData m1) (dataLen m1) zero_scene s = (?e, snd (name_support ep s))"
    using short_add_parse [OF n ns] msg(2,3) by simp
  have "enhanced (h_cmd (hdr m1)) ?e = ?e" using msg(4) by (simp add: enhanced_def scene_cmd_defs)
  moreover have "fst (group_known g ep (snd (name_support ep s)))" using kn by (simp add: group_known_support)
  ultimately have "g_scenes (snd (zcl_addScenePrc env m1 s)) = scene_put i ep ?e (g_scenes s)"
    using i(1) msg(1) k
    by (simp add: zcl_addScenePrc_def Let_def P split_beta zcl_scene_addSceneEntry_def add_entry_def)
  then show ?thesis using i(2) by simp
qed

lemma leak_scene_parts:
  assumes "length bs = 24"
  shows "scene_wf (leak_scene g sc t bs)" "scene_name (leak_scene g sc t bs) = []" "scene_ext (leak_scene g sc t bs) = bs"
  using assms by (simp_all add: scene_wf_def scene_sized_def scene_name_def scene_ext_def leak_scene_def zero_scene_def
      ZCL_MAX_SCENE_NAME_LEN_def ZCL_MAX_SCENE_EXT_FIELD_SIZE_def)

lemma addPrc_ok: "zok (g_z s) \<Longrightarrow> zok (g_z (snd (zcl_addScenePrc env m s)))"
  using addScenePrc_kept [of s env m] by (simp add: gs_kept_def same_pool_def)

subsection \<open>Lengths\<close>

text \<open>Every place of the table holds a scene whose name and extension lengths stay inside their arrays. The
  application must keep that when it is given a scene to fill in.\<close>

definition tab_wf :: "scene_tab \<Rightarrow> bool" where
  "tab_wf tab \<longleftrightarrow> list_all (\<lambda>t. scene_wf (st_scene t)) tab"

fun payload_wf :: "gs_payload \<Rightarrow> bool" where
  "payload_wf (StoreScene e) = scene_wf e"
| "payload_wf (RecallScene e) = scene_wf e"
| "payload_wf _ = True"

definition wf_step :: "gsst \<Rightarrow> gsst \<Rightarrow> bool" where
  "wf_step s s' \<longleftrightarrow> (tab_wf (g_scenes s) \<longrightarrow> tab_wf (g_scenes s') \<and> length (g_scenes s') = length (g_scenes s))"

definition app_wf :: "genv \<Rightarrow> bool" where
  "app_wf env \<longleftrightarrow> (\<forall>k a c d s. payload_wf d \<longrightarrow>
     payload_wf (fst (appCb env k a c d s)) \<and> wf_step s (snd (appCb env k a c d s)))"

lemma wf_step_same: "g_scenes s' = g_scenes s \<Longrightarrow> wf_step s s'"
  by (simp add: wf_step_def)

lemma wf_step_trans: "wf_step s s' \<Longrightarrow> wf_step s' s'' \<Longrightarrow> wf_step s s''"
  by (simp add: wf_step_def)

lemma tab_wf_upd: "tab_wf tab \<Longrightarrow> scene_wf (st_scene t) \<Longrightarrow> tab_wf (tab[i := t])"
  by (auto simp: tab_wf_def list_all_iff dest!: set_update_subset_insert [THEN subsetD])

lemma tab_wf_nth: "tab_wf tab \<Longrightarrow> i < length tab \<Longrightarrow> scene_wf (st_scene (tab ! i))"
  by (simp add: tab_wf_def list_all_length)

lemma scene_put_wf: "tab_wf tab \<Longrightarrow> scene_wf e \<Longrightarrow> tab_wf (scene_put i ep e tab)"
  by (simp add: scene_put_def tab_wf_upd)

lemma scene_wf_upd [simp]:
  "scene_wf (e\<lparr>sc_groupId := g\<rparr>) = scene_wf e" "scene_wf (e\<lparr>sc_sceneId := sc\<rparr>) = scene_wf e"
  "scene_wf (e\<lparr>sc_transTime := t\<rparr>) = scene_wf e" "scene_wf (e\<lparr>sc_transTime100ms := t\<rparr>) = scene_wf e"
  "scene_wf zero_scene"
  by (simp_all add: scene_wf_def scene_sized_def zero_scene_def ZCL_MAX_SCENE_NAME_LEN_def)

lemma clearEntry_wf: "scene_wf (st_scene (zcl_scene_clearEntry t))"
  by (simp add: zcl_scene_clearEntry_def)

lemma length_fill: "n + length bs \<le> length xs \<Longrightarrow> length (fill n bs xs) = length xs"
  by (simp add: fill_def)

lemma cut_le: "unat (name_cut n) \<le> 15" "unat (ext_cut n) \<le> 24"
  by (auto simp: name_cut_def ext_cut_def ZCL_MAX_SCENE_NAME_LEN_def ZCL_MAX_SCENE_EXT_FIELD_SIZE_def word_less_nat_alt)

lemma put_name_wf: "scene_wf e \<Longrightarrow> scene_wf (put_name n p e)"
  using cut_le(1) [of n]
  by (simp add: scene_wf_def scene_sized_def put_name_def Let_def length_fill vtake_def fill_def ZCL_MAX_SCENE_NAME_LEN_def)

lemma put_ext_wf: "scene_wf e \<Longrightarrow> scene_wf (put_ext dlen pos p e)"
  using cut_le(2) [of "ext_len dlen pos"]
  by (simp add: scene_wf_def scene_sized_def put_ext_def Let_def length_fill vtake_def ZCL_MAX_SCENE_EXT_FIELD_SIZE_def)

lemma addSceneParse_wf: "scene_wf e \<Longrightarrow> scene_wf (fst (zcl_addSceneParse ep p dlen e s))"
  by (simp add: zcl_addSceneParse_def Let_def split_beta put_ext_wf put_name_wf)

lemma find_index_lt: "find_index P xs = Some i \<Longrightarrow> i < length xs"
  using find_index_at [of P xs i] by auto

lemma findEntry_lt: "zcl_scene_findEntry ep g sc tab = Some i \<Longrightarrow> i < length tab"
  unfolding zcl_scene_findEntry_def by (rule find_index_lt)

lemma scene_slot_lt: "scene_slot ep g sc tab = Some i \<Longrightarrow> i < length tab"
  by (auto simp: scene_slot_def findEntry_lt zcl_scene_getFreeEntry_def find_index_lt split: option.splits)

lemma add_entry_wf: "tab_wf tab \<Longrightarrow> scene_wf e \<Longrightarrow> tab_wf (snd (add_entry ep e tab)) \<and> length (snd (add_entry ep e tab)) = length tab"
  by (auto simp: add_entry_def scene_put_wf scene_put_def tab_wf_upd split: option.splits)

lemma remove_entry_wf: "tab_wf tab \<Longrightarrow> tab_wf (snd (remove_entry ep g sc tab)) \<and> length (snd (remove_entry ep g sc tab)) = length tab"
  by (auto simp: remove_entry_def tab_wf_upd clearEntry_wf split: option.splits)

lemma remove_all_wf:
  "tab_wf tab \<Longrightarrow> tab_wf (snd (remove_all_entries ep g tab)) \<and> length (snd (remove_all_entries ep g tab)) = length tab"
  by (auto simp: remove_all_entries_def tab_wf_def list_all_iff clearEntry_wf)

lemma copy_loop_wf: "tab_wf tab \<Longrightarrow> tab_wf (snd (copy_loop ep c xs tab)) \<and> length (snd (copy_loop ep c xs tab)) = length tab"
proof (induction xs arbitrary: tab)
  case (Cons x xs)
  show ?case
  proof (cases "zcl_scene_findEntry ep (cs_groupIdFrom c) x tab")
    case None
    then show ?thesis using Cons by simp
  next
    case (Some i)
    show ?thesis
    proof (cases "scene_slot ep (cs_groupIdTo c) (copied_id c x) tab")
      case None
      then show ?thesis using Some Cons by simp
    next
      case (Some j)
      let ?e = "(st_scene (tab ! i))\<lparr>sc_sceneId := copied_id c x, sc_groupId := cs_groupIdTo c\<rparr>"
      have "scene_wf ?e" using tab_wf_nth [OF Cons.prems findEntry_lt] \<open>zcl_scene_findEntry _ _ _ _ = Some i\<close> by simp
      from Cons.IH [OF scene_put_wf [OF Cons.prems this, of j ep]] show ?thesis
        using Some \<open>zcl_scene_findEntry _ _ _ _ = Some i\<close> by (simp add: scene_put_def)
    qed
  qed
qed simp

lemma copy_scenes_wf: "tab_wf tab \<Longrightarrow> tab_wf (snd (copy_scenes ep c tab)) \<and> length (snd (copy_scenes ep c tab)) = length tab"
  by (simp add: copy_scenes_def Let_def copy_loop_wf)

lemma addSceneParse_scenes [simp]: "g_scenes (snd (zcl_addSceneParse ep p n e s)) = g_scenes s"
  by (simp add: zcl_addSceneParse_def Let_def split_beta)

text \<open>The four operations on the table, and the two of the application.\<close>

lemma addSceneEntry_wf: "scene_wf e \<Longrightarrow> wf_step s (snd (zcl_scene_addSceneEntry env ep e s))"
  by (simp add: wf_step_def zcl_scene_addSceneEntry_def split_beta add_entry_wf)

lemma removeSceneEntry_wf: "wf_step s (snd (zcl_scene_removeSceneEntry env ep g sc s))"
  by (simp add: wf_step_def zcl_scene_removeSceneEntry_def split_beta remove_entry_wf)

lemma removeAllSceneEntry_wf: "wf_step s (zcl_scene_removeAllSceneEntry env ep g b s)"
  by (simp add: wf_step_def zcl_scene_removeAllSceneEntry_def Let_def split_beta remove_all_wf)

lemma copySceneEntry_wf: "wf_step s (snd (zcl_scene_copySceneEntry env ep c s))"
  by (simp add: wf_step_def zcl_scene_copySceneEntry_def Let_def split_beta copy_scenes_wf)

lemma answer_scenes: "(\<And>t. g_scenes (snd (send t)) = g_scenes t) \<Longrightarrow> g_scenes (snd (answer m st send s)) = g_scenes s"
  by (simp add: answer_def)

lemma wf_scene_answer: "wf_step s (snd (scene_answer env m cmd g sc st s')) = wf_step s s'"
  by (simp add: wf_step_def)

lemma addScenePrc_wf: "wf_step s (snd (zcl_addScenePrc env m s))"
proof -
  let ?r = "zcl_addSceneParse (ep_of m) (pData m) (dataLen m) zero_scene s"
  let ?e = "enhanced (h_cmd (hdr m)) (fst ?r)"
  let ?s = "snd (group_known (sc_groupId ?e) (ep_of m) (snd ?r))"
  have e: "scene_wf ?e" using addSceneParse_wf [of zero_scene] by simp
  have "wf_step s ?s" by (rule wf_step_same) simp
  with addSceneEntry_wf [OF e, of ?s env "ep_of m"] show ?thesis
    by (auto simp: zcl_addScenePrc_def Let_def split_beta wf_scene_answer simp del: enhanced_parts intro: wf_step_trans)
qed

lemma sendBuf_scenes [simp]: "g_scenes (snd (cluster_sendBuf env srcEp dst dis seqNo cmd dir len bs s)) = g_scenes s"
  by (simp add: cluster_sendBuf_def Let_def split: prod.splits option.splits)

lemma viewScenePrc_scenes: "g_scenes (snd (zcl_viewScenePrc env m s)) = g_scenes s"
  by (simp add: zcl_viewScenePrc_def Let_def split_beta answer_def zcl_scene_viewSceneRsp_def split: option.splits)

lemma memPrc_scenes: "g_scenes (snd (zcl_getSceneMembershipPrc env m s)) = g_scenes s"
  by (simp add: zcl_getSceneMembershipPrc_def Let_def split_beta answer_def zcl_scene_getSceneMembershipRsp_def)

lemma removeScenePrc_wf: "wf_step s (snd (zcl_removeScenePrc env m s))"
  using removeSceneEntry_wf [of s env "ep_of m" "BUILD_U16 (pData m 0) (pData m 1)" "pData m 2"]
  by (simp add: zcl_removeScenePrc_def Let_def split_beta wf_scene_answer) (simp add: wf_step_def)

lemma group_known_wf: "wf_step (snd (group_known g ep s)) s' = wf_step s s'"
  by (simp add: wf_step_def)

lemma removeAllScenePrc_wf: "wf_step s (snd (zcl_removeAllScenePrc env m s))"
  using removeAllSceneEntry_wf [of "snd (group_known (BUILD_U16 (pData m 0) (pData m 1)) (ep_of m) s)" env "ep_of m"
      "BUILD_U16 (pData m 0) (pData m 1)" True]
  by (auto simp: zcl_removeAllScenePrc_def Let_def split_beta wf_scene_answer group_known_wf wf_step_same)

lemma copyScenePrc_wf: "wf_step s (snd (zcl_copyScenePrc env m s))"
proof -
  let ?c = "parse_copy (pData m)"
  have "wf_step s (snd (zcl_scene_copySceneEntry env (ep_of m) ?c
      (snd (in_group (cs_groupIdTo ?c) (ep_of m) (snd (in_group (cs_groupIdFrom ?c) (ep_of m) s))))))"
    by (rule wf_step_trans [OF wf_step_same copySceneEntry_wf]) simp
  then show ?thesis
    by (auto simp: zcl_copyScenePrc_def Let_def split_beta wf_scene_answer wf_step_same)
qed

lemma scene_attr_scenes [simp]: "g_scenes (set_current env ep g sc s) = g_scenes s"
  by (simp add: set_current_def)

lemma set_scene_wf: "scene_wf e \<Longrightarrow> wf_step s (set_scene i e s)"
  by (simp add: wf_step_def set_scene_def tab_wf_upd)

lemma app_scene_wf:
  assumes "app_wf env" "payload_wf d"
  shows "wf_step s (app_scene env app m cmd d i s)"
proof -
  obtain d' s' where r: "appCb env app (addrInfo m) cmd d s = (d', s')" by fastforce
  then have w: "payload_wf d'" "wf_step s s'" using assms by (auto simp: app_wf_def) (metis fst_conv, metis snd_conv)
  show ?thesis unfolding app_scene_def r
    using w set_scene_wf wf_step_trans by (cases d') fastforce+
qed

lemma scene_at_wf: "tab_wf (g_scenes s) \<Longrightarrow> i < length (g_scenes s) \<Longrightarrow> scene_wf (scene_at i s)"
  by (simp add: scene_at_def tab_wf_nth)

lemma store_at_wf:
  assumes "app_wf env" "i < length (g_scenes s)"
  shows "wf_step s (store_at env m app g sc i s)"
proof (unfold wf_step_def, intro impI)
  assume t: "tab_wf (g_scenes s)"
  let ?s1 = "app_scene env app m ZCL_CMD_SCENE_STORE_SCENE (StoreScene (scene_at i s)) i s"
  have "payload_wf (StoreScene (scene_at i s))" using scene_at_wf [OF t assms(2)] by simp
  from app_scene_wf [OF assms(1) this, of s app m ZCL_CMD_SCENE_STORE_SCENE i] t
  have w: "tab_wf (g_scenes ?s1)" "length (g_scenes ?s1) = length (g_scenes s)" by (auto simp: wf_step_def)
  then have "scene_wf (scene_at i ?s1)" using assms(2) by (simp add: scene_at_wf)
  then show "tab_wf (g_scenes (store_at env m app g sc i s)) \<and> length (g_scenes (store_at env m app g sc i s)) = length (g_scenes s)"
    using w by (simp add: store_at_def Let_def scene_put_def tab_wf_upd)
qed

lemma storeScenePrc_wf:
  assumes "app_wf env"
  shows "wf_step s (snd (zcl_storeScenePrc env m s))"
proof -
  let ?g = "BUILD_U16 (pData m 0) (pData m 1)"
  let ?s = "snd (group_known ?g (ep_of m) s)"
  have "wf_step s (store_at env m app ?g (pData m 2) i ?s)" if "scene_slot (ep_of m) ?g (pData m 2) (g_scenes s) = Some i" for app i
    using store_at_wf [OF assms, of i ?s m app ?g "pData m 2"] scene_slot_lt [OF that] by (simp add: group_known_wf)
  then show ?thesis
    by (auto simp: zcl_storeScenePrc_def Let_def split_beta wf_scene_answer wf_step_same split: option.splits)
qed

lemma recall_at_wf:
  assumes "app_wf env" "i < length (g_scenes s)"
  shows "wf_step s (recall_at env m app g sc t i s)"
proof (unfold wf_step_def, intro impI)
  assume t: "tab_wf (g_scenes s)"
  let ?e = "scene_at i s"
  let ?s1 = "if t \<noteq> 0xFFFF then set_scene i (?e\<lparr>sc_transTime := t div 10, sc_transTime100ms := t mod 10\<rparr>) s else s"
  let ?s2 = "app_scene env app m ZCL_CMD_SCENE_RECALL_SCENE (RecallScene (scene_at i ?s1)) i ?s1"
  have "scene_wf ?e" by (rule scene_at_wf [OF t assms(2)])
  then have "wf_step s ?s1" using set_scene_wf by (simp add: wf_step_same)
  with t have w1: "tab_wf (g_scenes ?s1)" "length (g_scenes ?s1) = length (g_scenes s)" by (simp_all only: wf_step_def)
  have "payload_wf (RecallScene (scene_at i ?s1))"
    using scene_at_wf [OF w1(1)] w1(2) assms(2) by (simp only: payload_wf.simps)
  from app_scene_wf [OF assms(1) this, of ?s1 app m ZCL_CMD_SCENE_RECALL_SCENE i] w1
  have w2: "tab_wf (g_scenes ?s2)" "length (g_scenes ?s2) = length (g_scenes s)" by (simp_all only: wf_step_def)
  have "scene_wf (scene_at i ?s2)" using scene_at_wf [OF w2(1)] w2(2) assms(2) by (simp only:)
  then have "wf_step ?s2 (set_scene i ((scene_at i ?s2)\<lparr>sc_transTime := sc_transTime ?e, sc_transTime100ms := sc_transTime100ms ?e\<rparr>) ?s2)"
    by (intro set_scene_wf) simp
  then show "tab_wf (g_scenes (recall_at env m app g sc t i s)) \<and> length (g_scenes (recall_at env m app g sc t i s)) = length (g_scenes s)"
    unfolding recall_at_def Let_def scene_attr_scenes using w2 by (simp only: wf_step_def)
qed

lemma recallScenePrc_wf: "app_wf env \<Longrightarrow> wf_step s (snd (zcl_recallScenePrc env m s))"
  by (auto simp: zcl_recallScenePrc_def Let_def wf_step_same recall_at_wf findEntry_lt split: option.splits)

lemma viewSceneRspParse_wf: "scene_wf e \<Longrightarrow> scene_wf (snd (zcl_viewSceneRspParse p n e))"
  by (simp add: zcl_viewSceneRspParse_def Let_def put_ext_wf put_name_wf)

lemma rsp_payload_wf: "scene_rsp_payload cmd p n = Some d \<Longrightarrow> payload_wf d"
  by (auto simp: scene_rsp_payload_def Let_def zcl_getSceneMembershipRspParse_def split: if_splits prod.splits)

lemma clientCmd_wf: "app_wf env \<Longrightarrow> wf_step s (snd (zcl_scene_clientCmdHandler env m s))"
  by (simp add: zcl_scene_clientCmdHandler_def Let_def addScenePrc_wf removeScenePrc_wf removeAllScenePrc_wf
      storeScenePrc_wf recallScenePrc_wf copyScenePrc_wf wf_step_same viewScenePrc_scenes memPrc_scenes)

lemma serverCmd_wf:
  assumes "app_wf env"
  shows "wf_step s (snd (zcl_scene_serverCmdHandler env m s))"
proof (cases "scene_rsp_payload (h_cmd (hdr m)) (pData m) (dataLen m)")
  case (Some d)
  with rsp_payload_wf [OF Some] assms show ?thesis
    by (auto simp: zcl_scene_serverCmdHandler_def wf_step_same app_wf_def split: option.splits)
qed (simp add: zcl_scene_serverCmdHandler_def wf_step_same)

subsection \<open>Properties\<close>

text \<open>C34. Whatever bytes a scenes cluster message has, the scene table stays well typed: after the handler
  every place holds a scene whose name and extension lengths stay inside their arrays (at most 15 and 24
  bytes), so that no later answer copies from beyond them, and the table keeps its size. The
  application is asked only for the same of the scenes it is given to fill in.\<close>

theorem scene_table_well_typed:
  assumes "app_wf env" "tab_wf (g_scenes s)"
  shows "tab_wf (g_scenes (snd (zcl_scene_cmdHandler env m s))) \<and>
    length (g_scenes (snd (zcl_scene_cmdHandler env m s))) = length (g_scenes s)"
  using clientCmd_wf [OF assms(1), of s m] serverCmd_wf [OF assms(1), of s m] assms(2)
  by (simp add: zcl_scene_cmdHandler_def wf_step_def)

text \<open>C35. The scenes cluster gives back every block. Whatever the message, the handler leaves the buffer
  pool well-formed and with the blocks handed out that were handed out before: the payloads and frames
  of its answers and the temporary blocks of the flash driver that saves the table are all freed, on
  every path, for an application that does the same.\<close>

theorem scene_handler_frees:
  assumes "genv_ok env" "zok (g_z s)"
  shows "zok (g_z (snd (zcl_scene_cmdHandler env m s))) \<and> zlive (g_z (snd (zcl_scene_cmdHandler env m s))) = zlive (g_z s)"
  using scene_handler_kept [OF assms(1), of s m] assms(2) by (simp add: gs_kept_def same_pool_def)

text \<open>C36. What an add scene request stores is what a view scene request returns. After an add (or enhanced
  add) request for a known group, with room in the table, names supported, a name of less than 16 and
  an extension of at most 24 bytes, a unicast view (or enhanced view) request is answered with
  status, group, scene, transition time (also when the table keeps it split in seconds and
  tenths), name and extension of the request, byte for byte; no answer is sent exactly when there is
  no block for the payload or for the frame.\<close>

theorem scene_add_then_view:
  assumes "zok (g_z s)" "scene_rel cap (g_scenes s) m" "m (ep, g, sc) \<noteq> None \<or> card (dom m) < cap"
    "fst (name_support ep s)" "fst (group_known g ep s)"
    "length nm < ZCL_MAX_SCENE_NAME_LEN" "length ext \<le> ZCL_MAX_SCENE_EXT_FIELD_SIZE"
    "ep_of m1 = ep" "pData m1 = lview (add_payload g sc t nm ext) v" "dataLen m1 = of_nat (length (add_payload g sc t nm ext))"
    "ep_of m2 = ep" "pData m2 = lview (u16_bytes g @ [sc]) v2" "UNICAST_MSG (msg m2)"
    "\<not> frmCtrl_dir (h_frmCtrl (hdr m1))" "\<not> frmCtrl_dir (h_frmCtrl (hdr m2))"
    "(h_cmd (hdr m1), h_cmd (hdr m2)) \<in> {(ZCL_CMD_SCENE_ADD_SCENE, ZCL_CMD_SCENE_VIEW_SCENE),
       (ZCL_CMD_SCENE_ENHANCED_ADD_SCENE, ZCL_CMD_SCENE_ENHANCED_VIEW_SCENE)}"
  shows "let s1 = snd (zcl_scene_cmdHandler env m1 s);
             (st, s2) = zcl_scene_cmdHandler env m2 s1;
             F = [ZCL_STA_SUCCESS] @ u16_bytes g @ [sc] @ u16_bytes t @ [of_nat (length nm)] @ nm @ ext in
    st = ZCL_STA_CMD_HAS_RESP \<and> ub (g_z s2) = ub (g_z s1) \<and>
    T_sent (g_z s2) = (if sendable (length F) (g_z s1)
      then sent_frame ep (cluster_reply_ep m2) ZCL_CLUSTER_GEN_SCENES
        (zcl_buildHdr 1 ZCL_FRAME_SERVER_CLIENT_DIR 1 0 (h_seqNum (hdr m2)) (h_cmd (hdr m2)) @ F) # T_sent (g_z s1)
      else T_sent (g_z s1))"
proof -
  let ?s1 = "snd (zcl_addScenePrc env m1 s)" and ?e = "enhanced (h_cmd (hdr m1)) (parsed_scene g sc t nm ext)"
  note pp = parsed_scene_parts [OF assms(6,7)]
  have h1: "zcl_scene_cmdHandler env m1 s = zcl_addScenePrc env m1 s"
    using assms(14,16) by (auto simp: zcl_scene_cmdHandler_def zcl_scene_clientCmdHandler_def)
  have h2: "zcl_scene_cmdHandler env m2 t = zcl_viewScenePrc env m2 t" for t
    using assms(15,16) by (auto simp: zcl_scene_cmdHandler_def zcl_scene_clientCmdHandler_def scene_cmd_defs)
  have tm: "rsp_time (h_cmd (hdr m2)) ?e = t"
    using assms(16) by (auto simp: rsp_time_def enhanced_def parsed_scene_def scene_cmd_defs div_mult_mod_eq)
  have r: "scene_rel cap (g_scenes ?s1) (m((ep, g, sc) \<mapsto> ?e))"
    by (rule add_request_scenes [OF assms(2-3,6-7,4-5,8-10)])
  have "scene_wf ?e" using pp(1) by simp
  from view_request_sends [OF r _ this addPrc_ok [OF assms(1)] assms(11-13), of env] tm pp show ?thesis
    by (simp add: h1 h2 Let_def split_beta)
qed

text \<open>C37. An add scene request can make the device reveal memory behind the received frame. A request of
  six bytes that announces a name of \<open>n\<close> bytes (\<open>1 \<le> n \<le> 232\<close>), to an endpoint without scene names, is
  accepted: the computed length of the extension field wraps around, and 24 bytes from \<open>n\<close> bytes behind
  the end of the payload become the scene's extension. A view request then sends them.\<close>

theorem scene_add_reveals_memory:
  assumes "zok (g_z s)" "scene_rel cap (g_scenes s) m" "m (ep, g, sc) \<noteq> None \<or> card (dom m) < cap"
    "0 < n" "n \<le> 232" "\<not> fst (name_support ep s)" "fst (group_known g ep s)"
    "ep_of m1 = ep" "pData m1 = lview (u16_bytes g @ [sc] @ u16_bytes t @ [of_nat n]) behind" "dataLen m1 = 6"
    "ep_of m2 = ep" "pData m2 = lview (u16_bytes g @ [sc]) v2" "UNICAST_MSG (msg m2)"
    "\<not> frmCtrl_dir (h_frmCtrl (hdr m1))" "\<not> frmCtrl_dir (h_frmCtrl (hdr m2))"
    "h_cmd (hdr m1) = ZCL_CMD_SCENE_ADD_SCENE" "h_cmd (hdr m2) = ZCL_CMD_SCENE_VIEW_SCENE"
  shows "let s1 = snd (zcl_scene_cmdHandler env m1 s);
             F = [ZCL_STA_SUCCESS] @ u16_bytes g @ [sc] @ u16_bytes t @ [0] @ map behind [n..<n + 24] in
    T_sent (g_z (snd (zcl_scene_cmdHandler env m2 s1))) = (if sendable (length F) (g_z s1)
      then sent_frame ep (cluster_reply_ep m2) ZCL_CLUSTER_GEN_SCENES
        (zcl_buildHdr 1 ZCL_FRAME_SERVER_CLIENT_DIR 1 0 (h_seqNum (hdr m2)) (h_cmd (hdr m2)) @ F) # T_sent (g_z s1)
      else T_sent (g_z s1))"
proof -
  let ?s1 = "snd (zcl_addScenePrc env m1 s)" and ?bs = "vtake 24 (vdrop n behind)"
  let ?e = "leak_scene g sc t ?bs"
  have h1: "zcl_scene_cmdHandler env m1 s = zcl_addScenePrc env m1 s"
    using assms(14,16) by (simp add: zcl_scene_cmdHandler_def zcl_scene_clientCmdHandler_def)
  have h2: "zcl_scene_cmdHandler env m2 t = zcl_viewScenePrc env m2 t" for t
    using assms(15,17) by (simp add: zcl_scene_cmdHandler_def zcl_scene_clientCmdHandler_def scene_cmd_defs)
  have bs: "?bs = map behind [n..<n + 24]" by (rule nth_equalityI) (simp_all add: vtake_def vdrop_def)
  have tm: "rsp_time (h_cmd (hdr m2)) ?e = t"
    using assms(17) by (simp add: rsp_time_def leak_scene_def scene_cmd_defs)
  have r: "scene_rel cap (g_scenes ?s1) (m((ep, g, sc) \<mapsto> ?e))"
    by (rule short_add_scenes [OF assms(2-10,16)])
  have "length ?bs = 24" by (simp add: vtake_def)
  note pp = leak_scene_parts [OF this, of g sc t]
  from view_request_sends [OF r _ pp(1) addPrc_ok [OF assms(1)] assms(11-13), of env] tm pp(2,3) show ?thesis
    by (simp add: h1 h2 Let_def bs)
qed

subsection \<open>Witnesses\<close>

text \<open>The example device with the scenes cluster registered; \<open>ns\<close> is its name support attribute.\<close>

definition ex_scene_cluster :: clusterInfo_t where
  "ex_scene_cluster = \<lparr>attrTable = [\<lparr>a_id = ZCL_ATTRID_SCENE_NAME_SUPPORT, a_type = ZCL_DATA_TYPE_BOOLEAN, a_access = 1, a_data = 400\<rparr>],
     cmdHandlerFunc = Some 1, clusterAppCb = Some 1, clusterID = ZCL_CLUSTER_GEN_SCENES, manuCode = 0, endpoint = 1, attrNum = 1\<rparr>"

definition ex_scn :: "u8 \<Rightarrow> gsst" where
  "ex_scn ns = ex_gs\<lparr>g_z := ex_state\<lparr>clusterNum := 4, clusterList := [ex_basic, ex_temp, ex_onoff, ex_scene_cluster],
     ram := (\<lambda>_. ns)\<rparr>\<rparr>"

definition ex_req :: "u8 \<Rightarrow> bytes \<Rightarrow> zclIncoming_t" where
  "ex_req cmd bs = (ex_in ZCL_CLUSTER_GEN_SCENES bs)\<lparr>hdr := \<lparr>h_frmCtrl = 1, h_manufCode = 0, h_seqNum = 7, h_cmd = cmd\<rparr>,
     m_clusterAppCb := Some 1\<rparr>"

lemma ex_scn_rel: "scene_rel 2 (g_scenes (ex_scn ns)) [(1, 7, 1) \<mapsto> ex_scene 7 1]"
  using ex_gs_rel by (simp add: ex_scn_def)

lemma ex_scn_ok: "zok (g_z (ex_scn ns))"
  by (simp add: ex_scn_def)

lemma ex_scn_support: "fst (name_support 1 (ex_scn ns)) = (ns \<noteq> 0)"
  by (simp add: name_support_def ex_scn_def zcl_getAttrVal_def zcl_findAttribute_def zcl_findCluster_def cluster_is_def
      ex_basic_def ex_temp_def ex_onoff_def ex_scene_cluster_def ZCL_CLUSTER_GEN_SCENES_def ZCL_ATTRID_SCENE_NAME_SUPPORT_def
      cluster_attrs_def zcl_getAttrSize_def zcl_getDataTypeLen_def attr_view_def vtake_def mem_at_def)

lemma ex_app: "app_wf ex_genv" "genv_ok ex_genv"
  by (simp_all add: app_wf_def genv_ok_def ex_genv_def wf_step_same)

lemma ex_req_fields:
  "ep_of (ex_req cmd bs) = 1" "UNICAST_MSG (msg (ex_req cmd bs))" "pData (ex_req cmd bs) = lview bs (\<lambda>_. 0)"
  "dataLen (ex_req cmd bs) = of_nat (length bs)" "\<not> frmCtrl_dir (h_frmCtrl (hdr (ex_req cmd bs)))"
  "h_cmd (hdr (ex_req cmd bs)) = cmd" "h_seqNum (hdr (ex_req cmd bs)) = 7"
  by (simp_all add: ep_of_def ex_req_def ex_in_def ex_ind_def UNICAST_MSG_def frmCtrl_dir_def)

lemma scene_table_well_typed_witness:
  "tab_wf (g_scenes (snd (zcl_scene_cmdHandler ex_genv (ex_req 0 [7, 0, 1, 0, 0, 200]) (ex_scn 0))))"
proof -
  have "tab_wf (g_scenes (ex_scn 0))"
    by (simp add: tab_wf_def ex_scn_def ex_gs_def scene_put_def ex_scenes_def ex_scene_def numeral_2_eq_2)
  from scene_table_well_typed [OF ex_app(1) this] show ?thesis by simp
qed

lemma scene_handler_frees_witness:
  "zlive (g_z (snd (zcl_scene_cmdHandler ex_genv (ex_req 0 [7, 0, 1, 0, 0, 200]) (ex_scn 0)))) = {EvBuf 2 0}"
  using scene_handler_frees [OF ex_app(2) ex_scn_ok, of "ex_req 0 [7, 0, 1, 0, 0, 200]" 0] by (simp add: ex_scn_def)

lemma scene_add_then_view_witness:
  "let m1 = ex_req ZCL_CMD_SCENE_ENHANCED_ADD_SCENE (add_payload 0 9 123 [0x68, 0x69] [1, 2]);
       m2 = ex_req ZCL_CMD_SCENE_ENHANCED_VIEW_SCENE (u16_bytes 0 @ [9]);
       s1 = snd (zcl_scene_cmdHandler ex_genv m1 (ex_scn 1)); s2 = snd (zcl_scene_cmdHandler ex_genv m2 s1) in
   map s_asdu (T_sent (g_z s2)) =
     (if sendable 11 (g_z s1) then [[0x19, 7, 0x41, 0, 0, 0, 9, 123, 0, 2, 0x68, 0x69, 1, 2]] else []) @ map s_asdu (T_sent (g_z s1))"
proof -
  let ?m1 = "ex_req ZCL_CMD_SCENE_ENHANCED_ADD_SCENE (add_payload 0 9 123 [0x68, 0x69] [1, 2])"
  let ?m2 = "ex_req ZCL_CMD_SCENE_ENHANCED_VIEW_SCENE (u16_bytes 0 @ [9])"
  have c: "[(1, 7, 1) \<mapsto> ex_scene 7 1] (1, 0, 9) \<noteq> None \<or> card (dom [(1, 7, 1) \<mapsto> ex_scene 7 1]) < 2" by simp
  have h: "fst (name_support 1 (ex_scn 1))" "fst (group_known 0 1 (ex_scn 1))" "length [0x68, 0x69 :: u8] < ZCL_MAX_SCENE_NAME_LEN"
    "length [1, 2 :: u8] \<le> ZCL_MAX_SCENE_EXT_FIELD_SIZE"
    by (simp_all add: ex_scn_support group_known_def ZCL_MAX_SCENE_NAME_LEN_def ZCL_MAX_SCENE_EXT_FIELD_SIZE_def)
  have k: "(h_cmd (hdr ?m1), h_cmd (hdr ?m2)) \<in> {(ZCL_CMD_SCENE_ADD_SCENE, ZCL_CMD_SCENE_VIEW_SCENE),
       (ZCL_CMD_SCENE_ENHANCED_ADD_SCENE, ZCL_CMD_SCENE_ENHANCED_VIEW_SCENE)}" by (simp add: ex_req_fields)
  from scene_add_then_view [OF ex_scn_ok ex_scn_rel c h ex_req_fields(1,3,4) ex_req_fields(1,3,2,5,5) k, of ex_genv]
  show ?thesis
    by (simp add: Let_def split_beta sent_frame_def cong: if_cong) (simp add: ex_req_fields zcl_buildHdr_def u16_bytes_def LO_UINT16_def
        HI_UINT16_def ZCL_CMD_SCENE_ENHANCED_VIEW_SCENE_def cong: if_cong)
qed

lemma scene_add_reveals_memory_witness:
  "let m1 = ex_req ZCL_CMD_SCENE_ADD_SCENE (u16_bytes 0 @ [9] @ u16_bytes 0 @ [of_nat 2]);
       m2 = ex_req ZCL_CMD_SCENE_VIEW_SCENE (u16_bytes 0 @ [9]);
       s1 = snd (zcl_scene_cmdHandler ex_genv (m1\<lparr>pData := lview (u16_bytes 0 @ [9] @ u16_bytes 0 @ [of_nat 2]) of_nat\<rparr>) (ex_scn 0));
       s2 = snd (zcl_scene_cmdHandler ex_genv m2 s1) in
   map s_asdu (T_sent (g_z s2)) =
     (if sendable 31 (g_z s1) then [[0x19, 7, 1, 0, 0, 0, 9, 0, 0, 0] @ map of_nat [2..<26]] else []) @ map s_asdu (T_sent (g_z s1))"
proof -
  let ?m1 = "(ex_req ZCL_CMD_SCENE_ADD_SCENE (u16_bytes 0 @ [9] @ u16_bytes 0 @ [of_nat 2]))
    \<lparr>pData := lview (u16_bytes 0 @ [9] @ u16_bytes 0 @ [of_nat 2]) of_nat\<rparr>"
  let ?m2 = "ex_req ZCL_CMD_SCENE_VIEW_SCENE (u16_bytes 0 @ [9])"
  have c: "[(1, 7, 1) \<mapsto> ex_scene 7 1] (1, 0, 9) \<noteq> None \<or> card (dom [(1, 7, 1) \<mapsto> ex_scene 7 1]) < 2" by simp
  have h: "0 < (2 :: nat)" "2 \<le> (232 :: nat)" "\<not> fst (name_support 1 (ex_scn 0))" "fst (group_known 0 1 (ex_scn 0))"
    by (simp_all add: ex_scn_support group_known_def)
  have m: "ep_of ?m1 = 1" "pData ?m1 = lview (u16_bytes 0 @ [9] @ u16_bytes 0 @ [of_nat 2]) of_nat" "dataLen ?m1 = 6"
    "\<not> frmCtrl_dir (h_frmCtrl (hdr ?m1))" "h_cmd (hdr ?m1) = ZCL_CMD_SCENE_ADD_SCENE"
    using ex_req_fields by (simp_all add: ep_of_def)
  let ?F = "[ZCL_STA_SUCCESS] @ u16_bytes 0 @ [9] @ u16_bytes 0 @ [0] @ map of_nat [2..<2 + 24]"
  have F: "length ?F = 31" by simp
  have H: "zcl_buildHdr 1 ZCL_FRAME_SERVER_CLIENT_DIR 1 0 (h_seqNum (hdr ?m2)) (h_cmd (hdr ?m2)) @ ?F =
      [0x19, 7, 1, 0, 0, 0, 9, 0, 0, 0] @ map of_nat [2..<26]"
    by (simp add: ex_req_fields zcl_buildHdr_def u16_bytes_def LO_UINT16_def HI_UINT16_def ZCL_CMD_SCENE_VIEW_SCENE_def)
  have A: "map s_asdu (if b then sent_frame a d c bs # t else t) = (if b then [bs] else []) @ map s_asdu t" for b a d c bs t
    by (simp add: sent_frame_def)
  note T = scene_add_reveals_memory [OF ex_scn_ok ex_scn_rel c h m(1-3) ex_req_fields(1,3,2) m(4) ex_req_fields(5) m(5)
      ex_req_fields(6), of ex_genv, unfolded Let_def]
  show ?thesis unfolding Let_def T A F H by (rule refl)
qed

end
