(* ===== verification/Zcl_Group.thy ===== *)
theory Zcl_Group
  imports Zcl_Scene
begin

text \<open>
  The commands of the groups cluster: \<^verbatim>\<open>zigbee/zcl/general/zcl_group.c\<close>, both sides, over the group
  table of \<open>Aps_Group\<close>. Removing groups also removes their scenes, so the cluster acts on the scene
  table of \<open>Zcl_SceneTab\<close>.
\<close>

definition ZCL_CLUSTER_GEN_IDENTIFY :: u16 where "ZCL_CLUSTER_GEN_IDENTIFY = 0x0003"
definition ZCL_ATTRID_IDENTIFY_TIME :: u16 where "ZCL_ATTRID_IDENTIFY_TIME = 0x0000"
definition ZCL_CMD_GROUP_ADD_GROUP :: u8 where "ZCL_CMD_GROUP_ADD_GROUP = 0x00"
definition ZCL_CMD_GROUP_VIEW_GROUP :: u8 where "ZCL_CMD_GROUP_VIEW_GROUP = 0x01"
definition ZCL_CMD_GROUP_GET_MEMBERSHIP :: u8 where "ZCL_CMD_GROUP_GET_MEMBERSHIP = 0x02"
definition ZCL_CMD_GROUP_REMOVE_GROUP :: u8 where "ZCL_CMD_GROUP_REMOVE_GROUP = 0x03"
definition ZCL_CMD_GROUP_REMOVE_ALL_GROUP :: u8 where "ZCL_CMD_GROUP_REMOVE_ALL_GROUP = 0x04"
definition ZCL_CMD_GROUP_ADD_GROUP_IF_IDF :: u8 where "ZCL_CMD_GROUP_ADD_GROUP_IF_IDF = 0x05"
definition ZCL_CMD_GROUP_ADD_GROUP_RSP :: u8 where "ZCL_CMD_GROUP_ADD_GROUP_RSP = 0x00"
definition ZCL_CMD_GROUP_VIEW_GROUP_RSP :: u8 where "ZCL_CMD_GROUP_VIEW_GROUP_RSP = 0x01"
definition ZCL_CMD_GROUP_GET_MEMBERSHIP_RSP :: u8 where "ZCL_CMD_GROUP_GET_MEMBERSHIP_RSP = 0x02"
definition ZCL_CMD_GROUP_REMOVE_GROUP_RSP :: u8 where "ZCL_CMD_GROUP_REMOVE_GROUP_RSP = 0x03"

lemmas group_cmd_defs = ZCL_CMD_GROUP_ADD_GROUP_def ZCL_CMD_GROUP_VIEW_GROUP_def ZCL_CMD_GROUP_GET_MEMBERSHIP_def
  ZCL_CMD_GROUP_REMOVE_GROUP_def ZCL_CMD_GROUP_REMOVE_ALL_GROUP_def ZCL_CMD_GROUP_ADD_GROUP_IF_IDF_def
  ZCL_CMD_GROUP_ADD_GROUP_RSP_def ZCL_CMD_GROUP_VIEW_GROUP_RSP_def ZCL_CMD_GROUP_GET_MEMBERSHIP_RSP_def
  ZCL_CMD_GROUP_REMOVE_GROUP_RSP_def

definition zcl_group_register ::
  "u8 \<Rightarrow> u16 \<Rightarrow> u8 \<Rightarrow> zclAttrInfo_t list \<Rightarrow> nat option \<Rightarrow> nat option \<Rightarrow> gsst \<Rightarrow> u8 \<times> gsst" where
  "zcl_group_register ep manu attrs attrTbl cmdHdl app s =
     (let (st, z) = zcl_registerCluster ep ZCL_CLUSTER_GEN_GROUPS manu attrs attrTbl cmdHdl app (g_z s) in (st, s\<lparr>g_z := z\<rparr>))"

subsection \<open>Sending\<close>

text \<open>A name is a length byte and the characters behind the pointer; at most 15 of them are sent.\<close>

definition group_name_bytes :: "view option \<Rightarrow> bytes" where
  "group_name_bytes nm = (case nm of
     None \<Rightarrow> [0]
   | Some v \<Rightarrow> (let len = (if v 0 > 15 then 15 else v 0) in len # vtake (unat len) (vdrop 1 v)))"

definition group_cmd :: "genv \<Rightarrow> u8 \<Rightarrow> epInfo_t \<Rightarrow> u8 \<Rightarrow> u8 \<Rightarrow> u8 \<Rightarrow> u8 \<Rightarrow> bytes \<Rightarrow> gsst \<Rightarrow> u8 \<times> gsst" where
  "group_cmd env srcEp dst dis seqNo cmd dir payload s =
     cluster_send env ZCL_CLUSTER_GEN_GROUPS srcEp dst dis seqNo cmd dir payload s"

definition zcl_group_add :: "genv \<Rightarrow> u8 \<Rightarrow> epInfo_t \<Rightarrow> u8 \<Rightarrow> u8 \<Rightarrow> u16 \<Rightarrow> view option \<Rightarrow> gsst \<Rightarrow> u8 \<times> gsst" where
  "zcl_group_add env srcEp dst dis seqNo g nm s = group_cmd env srcEp dst dis seqNo ZCL_CMD_GROUP_ADD_GROUP
     ZCL_FRAME_CLIENT_SERVER_DIR (u16_bytes g @ group_name_bytes nm) s"

definition zcl_group_view :: "genv \<Rightarrow> u8 \<Rightarrow> epInfo_t \<Rightarrow> u8 \<Rightarrow> u8 \<Rightarrow> u16 \<Rightarrow> gsst \<Rightarrow> u8 \<times> gsst" where
  "zcl_group_view env srcEp dst dis seqNo g s = group_cmd env srcEp dst dis seqNo ZCL_CMD_GROUP_VIEW_GROUP
     ZCL_FRAME_CLIENT_SERVER_DIR (u16_bytes g) s"

definition zcl_group_getMembership :: "genv \<Rightarrow> u8 \<Rightarrow> epInfo_t \<Rightarrow> u8 \<Rightarrow> u8 \<Rightarrow> u8 \<Rightarrow> view \<Rightarrow> gsst \<Rightarrow> u8 \<times> gsst" where
  "zcl_group_getMembership env srcEp dst dis seqNo groupCnt groupList s =
     (if unat groupCnt > APS_GROUP_TABLE_SIZE (g_groups s) then (ZCL_STA_INVALID_VALUE, s)
      else group_cmd env srcEp dst dis seqNo ZCL_CMD_GROUP_GET_MEMBERSHIP ZCL_FRAME_CLIENT_SERVER_DIR
        (groupCnt # vtake (unat groupCnt * 2) groupList) s)"

definition zcl_group_remove :: "genv \<Rightarrow> u8 \<Rightarrow> epInfo_t \<Rightarrow> u8 \<Rightarrow> u8 \<Rightarrow> u16 \<Rightarrow> gsst \<Rightarrow> u8 \<times> gsst" where
  "zcl_group_remove env srcEp dst dis seqNo g s = group_cmd env srcEp dst dis seqNo ZCL_CMD_GROUP_REMOVE_GROUP
     ZCL_FRAME_CLIENT_SERVER_DIR (u16_bytes g) s"

definition zcl_group_removeAll :: "genv \<Rightarrow> u8 \<Rightarrow> epInfo_t \<Rightarrow> u8 \<Rightarrow> u8 \<Rightarrow> gsst \<Rightarrow> u8 \<times> gsst" where
  "zcl_group_removeAll env srcEp dst dis seqNo s = group_cmd env srcEp dst dis seqNo ZCL_CMD_GROUP_REMOVE_ALL_GROUP
     ZCL_FRAME_CLIENT_SERVER_DIR [] s"

definition zcl_group_addIfIdentify :: "genv \<Rightarrow> u8 \<Rightarrow> epInfo_t \<Rightarrow> u8 \<Rightarrow> u8 \<Rightarrow> u16 \<Rightarrow> view option \<Rightarrow> gsst \<Rightarrow> u8 \<times> gsst" where
  "zcl_group_addIfIdentify env srcEp dst dis seqNo g nm s = group_cmd env srcEp dst dis seqNo ZCL_CMD_GROUP_ADD_GROUP_IF_IDF
     ZCL_FRAME_CLIENT_SERVER_DIR (u16_bytes g @ group_name_bytes nm) s"

definition zcl_group_addGroupRsp :: "genv \<Rightarrow> u8 \<Rightarrow> epInfo_t \<Rightarrow> u8 \<Rightarrow> u8 \<Rightarrow> u16 \<Rightarrow> u8 \<Rightarrow> gsst \<Rightarrow> u8 \<times> gsst" where
  "zcl_group_addGroupRsp env srcEp dst dis seqNo g status s = group_cmd env srcEp dst dis seqNo ZCL_CMD_GROUP_ADD_GROUP_RSP
     ZCL_FRAME_SERVER_CLIENT_DIR (status # u16_bytes g) s"

definition zcl_group_viewGroupRsp :: "genv \<Rightarrow> u8 \<Rightarrow> epInfo_t \<Rightarrow> u8 \<Rightarrow> u8 \<Rightarrow> u8 \<Rightarrow> u16 \<Rightarrow> view option \<Rightarrow> gsst \<Rightarrow> u8 \<times> gsst" where
  "zcl_group_viewGroupRsp env srcEp dst dis seqNo status g nm s = group_cmd env srcEp dst dis seqNo ZCL_CMD_GROUP_VIEW_GROUP_RSP
     ZCL_FRAME_SERVER_CLIENT_DIR (status # u16_bytes g @ group_name_bytes nm) s"

text \<open>The list of groups is already in the buffer, behind the two bytes written here.\<close>

definition zcl_group_getGroupMembershipRsp :: "genv \<Rightarrow> u8 \<Rightarrow> epInfo_t \<Rightarrow> u8 \<Rightarrow> u8 \<Rightarrow> u8 \<Rightarrow> u16 list \<Rightarrow> gsst \<Rightarrow> u8 \<times> gsst" where
  "zcl_group_getGroupMembershipRsp env srcEp dst dis seqNo free_places groups s =
     group_cmd env srcEp dst dis seqNo ZCL_CMD_GROUP_GET_MEMBERSHIP_RSP ZCL_FRAME_SERVER_CLIENT_DIR
       ([free_places, of_nat (length groups)] @ concat (map u16_bytes groups)) s"

definition zcl_group_removeGroupRsp :: "genv \<Rightarrow> u8 \<Rightarrow> epInfo_t \<Rightarrow> u8 \<Rightarrow> u8 \<Rightarrow> u16 \<Rightarrow> u8 \<Rightarrow> gsst \<Rightarrow> u8 \<times> gsst" where
  "zcl_group_removeGroupRsp env srcEp dst dis seqNo g status s = group_cmd env srcEp dst dis seqNo ZCL_CMD_GROUP_REMOVE_GROUP_RSP
     ZCL_FRAME_SERVER_CLIENT_DIR (status # u16_bytes g) s"

subsection \<open>The handlers of the server\<close>

text \<open>A request to the group table; a search that runs off the table sets \<open>g_fault\<close>.\<close>

definition aps_req :: "(aps_groups \<Rightarrow> (u8 \<times> aps_groups) option) \<Rightarrow> gsst \<Rightarrow> u8 \<times> gsst" where
  "aps_req f s = (case f (g_groups s) of
     None \<Rightarrow> (0, s\<lparr>g_fault := True\<rparr>) | Some (st, t) \<Rightarrow> (st, s\<lparr>g_groups := t\<rparr>))"

definition add_status :: "u8 \<Rightarrow> u8" where
  "add_status st = (if st = APS_STATUS_DUPLICATE_ENTRY then ZCL_STA_DUPLICATE_EXISTS
     else if st = APS_STATUS_TABLE_FULL then ZCL_STA_INSUFFICIENT_SPACE else ZCL_STA_SUCCESS)"

definition zcl_addGroupPrc :: "genv \<Rightarrow> zclIncoming_t \<Rightarrow> gsst \<Rightarrow> u8 \<times> gsst" where
  "zcl_addGroupPrc env m s =
     (let g = BUILD_U16 (pData m 0) (pData m 1);
          (st, s1) = aps_req (aps_me_group_add_req g (ep_of m)) s; status = add_status st in
      answer m status (zcl_group_addGroupRsp env (ep_of m) (cluster_reply_ep m) 1 (h_seqNum (hdr m)) g status) s1)"

definition zcl_viewGroupPrc :: "genv \<Rightarrow> zclIncoming_t \<Rightarrow> gsst \<Rightarrow> u8 \<times> gsst" where
  "zcl_viewGroupPrc env m s =
     (if UNICAST_MSG (msg m) then
        (let g = BUILD_U16 (pData m 0) (pData m 1);
             (b, s1) = in_group g (ep_of m) s; status = (if b then ZCL_STA_SUCCESS else ZCL_STA_NOT_FOUND) in
         (ZCL_STA_CMD_HAS_RESP, snd (zcl_group_viewGroupRsp env (ep_of m) (cluster_reply_ep m) 1 (h_seqNum (hdr m))
           status g None s1)))
      else (ZCL_STA_SUCCESS, s))"

fun find_groups :: "nat \<Rightarrow> view \<Rightarrow> u8 \<Rightarrow> u16 list \<Rightarrow> gsst \<Rightarrow> u16 list \<times> gsst" where
  "find_groups 0 p ep found s = (found, s)"
| "find_groups (Suc n) p ep found s =
     (let g = BUILD_U16 (p 0) (p 1); (b, s1) = in_group g ep s; found1 = (if b then found @ [g] else found) in
      if b \<and> length found1 \<ge> APS_GROUP_TABLE_SIZE (g_groups s1) then (found1, s1)
      else find_groups n (vdrop 2 p) ep found1 s1)"

definition zcl_getGroupMembershipPrc :: "genv \<Rightarrow> zclIncoming_t \<Rightarrow> gsst \<Rightarrow> u8 \<times> gsst" where
  "zcl_getGroupMembershipPrc env m s =
     (if UNICAST_MSG (msg m) then
        (let cnt = pData m 0;
             (found, s1) = (if cnt = 0 then (aps_group_list_get (g_groups s), s)
                            else find_groups (unat cnt) (vdrop 1 (pData m)) (ep_of m) [] s);
             free_places = of_nat (APS_GROUP_TABLE_SIZE (g_groups s1)) - aps_group_entry_num_get (g_groups s1) in
         (ZCL_STA_CMD_HAS_RESP, snd (zcl_group_getGroupMembershipRsp env (ep_of m) (cluster_reply_ep m) 1
           (h_seqNum (hdr m)) free_places found s1)))
      else (ZCL_STA_SUCCESS, s))"

definition zcl_removeGroupPrc :: "genv \<Rightarrow> zclIncoming_t \<Rightarrow> gsst \<Rightarrow> u8 \<times> gsst" where
  "zcl_removeGroupPrc env m s =
     (let g = BUILD_U16 (pData m 0) (pData m 1);
          s1 = zcl_scene_removeAllSceneEntry env (ep_of m) g True s;
          (st, s2) = aps_req (aps_me_group_delete_req g (ep_of m)) s1;
          status = (if st = APS_STATUS_INVALID_GROUP then ZCL_STA_NOT_FOUND else ZCL_STA_SUCCESS) in
      answer m status (zcl_group_removeGroupRsp env (ep_of m) (cluster_reply_ep m) 1 (h_seqNum (hdr m)) g status) s2)"

text \<open>The last argument of \<^verbatim>\<open>zcl_scene_removeAllSceneEntry\<close> is \<^verbatim>\<open>i >= groupCnt\<close>, inside a loop that
  runs while \<^verbatim>\<open>i < groupCnt\<close>.\<close>

definition remove_group_scenes :: "genv \<Rightarrow> u8 \<Rightarrow> u16 list \<Rightarrow> gsst \<Rightarrow> gsst" where
  "remove_group_scenes env ep groupList s =
     fold (\<lambda>(i, g) t. zcl_scene_removeAllSceneEntry env ep g (i \<ge> length groupList) t)
       (zip [0..<length groupList] groupList) s"

definition zcl_removeAllGroupPrc :: "genv \<Rightarrow> zclIncoming_t \<Rightarrow> gsst \<Rightarrow> u8 \<times> gsst" where
  "zcl_removeAllGroupPrc env m s =
     (let s1 = remove_group_scenes env (ep_of m) (aps_group_list_get (g_groups s)) s in
      (ZCL_STA_SUCCESS, snd (aps_req (aps_me_group_delete_all_req (ep_of m)) s1)))"

text \<open>The identify time is read into a variable of two bytes.\<close>

definition identify_time :: "u8 \<Rightarrow> gsst \<Rightarrow> u16 option \<times> gsst" where
  "identify_time ep s = (case zcl_getAttrVal ep ZCL_CLUSTER_GEN_IDENTIFY ZCL_ATTRID_IDENTIFY_TIME (g_z s) of
     (st, len, bs) \<Rightarrow> if st = ZCL_STA_SUCCESS
       then (Some (get_u16 (lview bs (\<lambda>_. 0))), s\<lparr>g_z := local_touch 2 (length bs) (g_z s)\<rparr>) else (None, s))"

definition zcl_addGroupIfIdentifyPrc :: "zclIncoming_t \<Rightarrow> gsst \<Rightarrow> u8 \<times> gsst" where
  "zcl_addGroupIfIdentifyPrc m s =
     (case identify_time (ep_of m) s of
        (Some t, s1) \<Rightarrow>
          (if t \<noteq> 0 then
             (let (st, s2) = aps_req (aps_me_group_add_req (BUILD_U16 (pData m 0) (pData m 1)) (ep_of m)) s1 in
              (add_status st, s2))
           else (ZCL_STA_SUCCESS, s1))
      | (None, s1) \<Rightarrow> (ZCL_STA_SUCCESS, s1))"

definition zcl_group_clientCmdHandler :: "genv \<Rightarrow> zclIncoming_t \<Rightarrow> gsst \<Rightarrow> u8 \<times> gsst" where
  "zcl_group_clientCmdHandler env m s = (let c = h_cmd (hdr m) in
     if c = ZCL_CMD_GROUP_ADD_GROUP then zcl_addGroupPrc env m s
     else if c = ZCL_CMD_GROUP_VIEW_GROUP then zcl_viewGroupPrc env m s
     else if c = ZCL_CMD_GROUP_GET_MEMBERSHIP then zcl_getGroupMembershipPrc env m s
     else if c = ZCL_CMD_GROUP_REMOVE_GROUP then zcl_removeGroupPrc env m s
     else if c = ZCL_CMD_GROUP_REMOVE_ALL_GROUP then zcl_removeAllGroupPrc env m s
     else if c = ZCL_CMD_GROUP_ADD_GROUP_IF_IDF then zcl_addGroupIfIdentifyPrc m s
     else (ZCL_STA_UNSUP_CLUSTER_COMMAND, s))"

subsection \<open>The handlers of the client\<close>

definition to_app :: "genv \<Rightarrow> zclIncoming_t \<Rightarrow> gs_payload \<Rightarrow> gsst \<Rightarrow> u8 \<times> gsst" where
  "to_app env m d s = (ZCL_STA_SUCCESS, case m_clusterAppCb m of
     None \<Rightarrow> s | Some app \<Rightarrow> snd (appCb env app (addrInfo m) (h_cmd (hdr m)) d s))"

definition zcl_addGroupRspPrc :: "genv \<Rightarrow> zclIncoming_t \<Rightarrow> gsst \<Rightarrow> u8 \<times> gsst" where
  "zcl_addGroupRspPrc env m s = to_app env m (AddGroupRsp (pData m 0) (BUILD_U16 (pData m 1) (pData m 2))) s"

definition zcl_viewGroupRspPrc :: "genv \<Rightarrow> zclIncoming_t \<Rightarrow> gsst \<Rightarrow> u8 \<times> gsst" where
  "zcl_viewGroupRspPrc env m s = to_app env m (ViewGroupRsp (pData m 0) (BUILD_U16 (pData m 1) (pData m 2))
     (if pData m 0 = ZCL_STA_SUCCESS then Some (vdrop 3 (pData m)) else None)) s"

definition zcl_removeGroupRspPrc :: "genv \<Rightarrow> zclIncoming_t \<Rightarrow> gsst \<Rightarrow> u8 \<times> gsst" where
  "zcl_removeGroupRspPrc env m s = to_app env m (RemoveGroupRsp (pData m 0) (BUILD_U16 (pData m 1) (pData m 2))) s"

definition zcl_getGroupMembershipRspPrc :: "genv \<Rightarrow> zclIncoming_t \<Rightarrow> gsst \<Rightarrow> u8 \<times> gsst" where
  "zcl_getGroupMembershipRspPrc env m s = to_app env m (GroupMemRsp (pData m 0) (pData m 1) (vdrop 2 (pData m))) s"

definition zcl_group_serverCmdHandler :: "genv \<Rightarrow> zclIncoming_t \<Rightarrow> gsst \<Rightarrow> u8 \<times> gsst" where
  "zcl_group_serverCmdHandler env m s = (let c = h_cmd (hdr m) in
     if c = ZCL_CMD_GROUP_ADD_GROUP_RSP then zcl_addGroupRspPrc env m s
     else if c = ZCL_CMD_GROUP_VIEW_GROUP_RSP then zcl_viewGroupRspPrc env m s
     else if c = ZCL_CMD_GROUP_REMOVE_GROUP_RSP then zcl_removeGroupRspPrc env m s
     else if c = ZCL_CMD_GROUP_GET_MEMBERSHIP_RSP then zcl_getGroupMembershipRspPrc env m s
     else (ZCL_STA_UNSUP_CLUSTER_COMMAND, s))"

definition zcl_group_cmdHandler :: "genv \<Rightarrow> zclIncoming_t \<Rightarrow> gsst \<Rightarrow> u8 \<times> gsst" where
  "zcl_group_cmdHandler env m s =
     (if \<not> frmCtrl_dir (h_frmCtrl (hdr m)) then zcl_group_clientCmdHandler env m s
      else zcl_group_serverCmdHandler env m s)"

subsection \<open>Blocks\<close>

lemma aps_req_kept [gs_effects]: "gs_kept s (snd (aps_req f s))"
  by (auto simp: aps_req_def split: option.splits)

lemma find_groups_kept: "gs_kept s t \<Longrightarrow> gs_kept s (snd (find_groups n p ep found t))"
proof (induction n arbitrary: p found t)
  case (Suc n)
  have "gs_kept s (snd (in_group (BUILD_U16 (p 0) (p 1)) ep t))"
    by (rule gs_kept_trans [OF Suc.prems in_group_kept])
  with Suc.IH show ?case by (auto simp: Let_def split_beta)
qed simp

lemma remove_group_scenes_kept: "gs_kept s (remove_group_scenes env ep gs s)"
proof -
  have A: "gs_kept s t \<Longrightarrow> gs_kept s (fold (\<lambda>(i, g) t. zcl_scene_removeAllSceneEntry env ep g (i \<ge> n) t) xs t)" for xs n t
    by (induction xs arbitrary: t) (auto intro!: gs_kept_trans [OF _ removeAllEntry_kept])
  show ?thesis unfolding remove_group_scenes_def by (rule A) simp
qed

lemma identify_kept: "gs_kept s (snd (identify_time ep s))"
  by (auto simp: identify_time_def gs_kept_def local_touch_def same_pool_def split: prod.splits)

lemma group_cmd_kept [gs_effects]: "gs_kept s (snd (group_cmd env srcEp dst dis seqNo cmd dir payload s))"
  unfolding group_cmd_def by (rule cluster_send_kept)

lemma group_client_kept: "gs_kept s (snd (zcl_group_clientCmdHandler env m s))"
proof -
  have "gs_kept s (snd (zcl_addGroupPrc env m s))"
    by (auto simp: zcl_addGroupPrc_def zcl_group_addGroupRsp_def Let_def split_beta intro!: answer_kept group_cmd_kept aps_req_kept)
  moreover have "gs_kept s (snd (zcl_viewGroupPrc env m s))"
    by (auto simp: zcl_viewGroupPrc_def zcl_group_viewGroupRsp_def Let_def split_beta
        intro!: gs_kept_trans [OF in_group_kept group_cmd_kept])
  moreover have "gs_kept s (snd (zcl_getGroupMembershipPrc env m s))"
    by (auto simp: zcl_getGroupMembershipPrc_def zcl_group_getGroupMembershipRsp_def Let_def split_beta
        intro!: gs_kept_trans [OF find_groups_kept [OF gs_kept_refl] group_cmd_kept] group_cmd_kept)
  moreover have "gs_kept s (snd (zcl_removeGroupPrc env m s))"
    by (auto simp: zcl_removeGroupPrc_def zcl_group_removeGroupRsp_def Let_def split_beta
        intro!: answer_kept group_cmd_kept gs_kept_trans [OF removeAllEntry_kept aps_req_kept])
  moreover have "gs_kept s (snd (zcl_removeAllGroupPrc env m s))"
    by (auto simp: zcl_removeAllGroupPrc_def Let_def intro!: gs_kept_trans [OF remove_group_scenes_kept aps_req_kept])
  moreover have "gs_kept s (snd (zcl_addGroupIfIdentifyPrc m s))"
    using identify_kept [of s "ep_of m"]
    by (auto simp: zcl_addGroupIfIdentifyPrc_def Let_def split_beta split: option.splits prod.splits
        intro: gs_kept_trans [OF _ aps_req_kept])
  ultimately show ?thesis by (simp add: zcl_group_clientCmdHandler_def Let_def)
qed

lemma group_handler_kept:
  assumes "genv_ok env"
  shows "gs_kept s (snd (zcl_group_cmdHandler env m s))"
proof -
  have "gs_kept s (snd (to_app env m d s))" for d
    using app_kept [OF assms] by (auto simp: to_app_def split: option.splits)
  then have "gs_kept s (snd (zcl_group_serverCmdHandler env m s))"
    by (simp add: zcl_group_serverCmdHandler_def Let_def zcl_addGroupRspPrc_def zcl_viewGroupRspPrc_def
        zcl_removeGroupRspPrc_def zcl_getGroupMembershipRspPrc_def)
  then show ?thesis using group_client_kept by (simp add: zcl_group_cmdHandler_def)
qed

subsection \<open>Requests to the two tables\<close>

lemma aps_req_rel:
  assumes "table_rel cap (g_groups s) G" "grp_allowed x G"
    and f: "\<And>t. grp_step x t = map_option (\<lambda>(st, t). (Grp_status st, t)) (f t)"
  shows "\<exists>st t. aps_req f s = (st, s\<lparr>g_groups := t\<rparr>) \<and> fst (grp_spec cap x G) = Grp_status st \<and>
    table_rel cap t (snd (grp_spec cap x G))"
proof -
  from grp_sim [OF assms(1,2)] obtain t where
    t: "grp_step x (g_groups s) = Some (fst (grp_spec cap x G), t)" "table_rel cap t (snd (grp_spec cap x G))" by blast
  obtain st where e: "f (g_groups s) = Some (st, t)" "fst (grp_spec cap x G) = Grp_status st"
    using t(1) unfolding f by (cases "f (g_groups s)") auto
  show ?thesis
    by (rule exI [of _ st], rule exI [of _ t]) (simp only: aps_req_def e t(2) option.case prod.case simp_thms)
qed

lemma in_group_rel:
  assumes "table_rel cap (g_groups s) G" "ep_valid ep"
  shows "in_group g ep s = (member g ep G, s)"
  using search_sim [of "g_groups s" G ep g] assms by (auto simp: in_group_def table_rel_def)

lemma find_groups_rel:
  assumes r: "table_rel cap (g_groups s) G" and ep: "ep_valid ep" and n: "length found < cap"
  shows "find_groups (length gs) (lview (concat (map u16_bytes gs)) v) ep found s =
    (take cap (found @ filter (\<lambda>g. member g ep G) gs), s)"
  using n
proof (induction gs arbitrary: found)
  case (Cons g gs)
  have b: "BUILD_U16 (lview (u16_bytes g @ xs) v 0) (lview (u16_bytes g @ xs) v (Suc 0)) = g"
    "vdrop 2 (lview (u16_bytes g @ xs) v) = lview xs v" for xs
    by (simp_all add: u16_bytes_def lview_def vdrop_def fun_eq_iff)
  have size: "APS_GROUP_TABLE_SIZE (g_groups s) = cap" using r by (simp add: table_rel_def)
  note I = in_group_rel [OF r ep]
  show ?case
  proof (cases "member g ep G \<and> cap \<le> length (found @ [g])")
    case True
    then have "take cap (found @ filter (\<lambda>g. member g ep G) (g # gs)) = found @ [g]"
      using Cons.prems by (simp add: take_Cons')
    then show ?thesis using True by (simp add: b I size Let_def)
  next
    case False
    let ?f = "if member g ep G then found @ [g] else found"
    have "length ?f < cap" using False Cons.prems by auto
    from Cons.IH [OF this] False show ?thesis by (auto simp: b I size Let_def take_Cons' not_le)
  qed
qed simp

lemma removeAllEntry_fields [simp]: "g_groups (zcl_scene_removeAllSceneEntry env ep g b s) = g_groups s"
  by (simp add: zcl_scene_removeAllSceneEntry_def Let_def zcl_scenesSave_def zcl_sceneTable_save_def
      zcl_scene_updateSceneCntAttr_def split: prod.splits)

definition without_groups :: "u8 \<Rightarrow> u16 set \<Rightarrow> (scene_key \<rightharpoonup> zcl_sceneEntry_t) \<Rightarrow> (scene_key \<rightharpoonup> zcl_sceneEntry_t)" where
  "without_groups ep gs sm = (\<lambda>k. if fst k = ep \<and> fst (snd k) \<in> gs then None else sm k)"

lemma remove_group_scenes_eq:
  "remove_group_scenes env ep gs s = s\<lparr>g_scenes := fold (\<lambda>g tab. snd (remove_all_entries ep g tab)) gs (g_scenes s)\<rparr>"
proof -
  have A: "\<forall>(i, g) \<in> set xs. i < n \<Longrightarrow> fold (\<lambda>(i, g) t. zcl_scene_removeAllSceneEntry env ep g (i \<ge> n) t) xs t =
      t\<lparr>g_scenes := fold (\<lambda>g tab. snd (remove_all_entries ep g tab)) (map snd xs) (g_scenes t)\<rparr>" for n :: nat and xs t
    by (induction xs arbitrary: t) (auto simp: zcl_scene_removeAllSceneEntry_def Let_def split_beta not_le)
  have "\<forall>(i, g) \<in> set (zip [0..<length gs] gs). i < length gs" by (auto dest: set_zip_leftD)
  from A [OF this, of s] show ?thesis unfolding remove_group_scenes_def by simp
qed

lemma remove_groups_rel:
  "scene_rel cap tab sm \<Longrightarrow>
   scene_rel cap (fold (\<lambda>g tab. snd (remove_all_entries ep g tab)) gs tab) (without_groups ep (set gs) sm)"
proof (induction gs arbitrary: tab sm)
  case (Cons g gs)
  from Cons.IH [OF remove_all_rel(1) [OF Cons.prems, of ep g]] show ?case
    by (simp add: without_groups_def group_key_def if_distrib [of "\<lambda>c. if c then None else _"])
      (erule back_subst [of "scene_rel cap _"], auto)
qed (simp add: without_groups_def)

subsection \<open>Properties\<close>

text \<open>C38. A remove group request takes the endpoint out of the group and forgets the scenes of that group at
  that endpoint, and nothing else: the group table and the scene table afterwards stand for exactly
  that, and if there were such scenes, so does the scene table a restarted device restores.\<close>

theorem remove_group_forgets:
  assumes "table_rel gcap (g_groups s) G" "scene_rel cap (g_scenes s) sm" "ep_valid (ep_of m)"
    "nv_rel NV_MODULE_ZCL f0 (g_flash s, p) nm" "scene_room s nm"
    "\<not> frmCtrl_dir (h_frmCtrl (hdr m))" "h_cmd (hdr m) = ZCL_CMD_GROUP_REMOVE_GROUP" "pData m = lview (u16_bytes g) v"
  shows "let s1 = snd (zcl_group_cmdHandler env m s); sm1 = without_groups (ep_of m) {g} sm in
    table_rel gcap (g_groups s1) (if member g (ep_of m) G then del_member g (ep_of m) G else G) \<and>
    scene_rel cap (g_scenes s1) sm1 \<and>
    ((\<exists>sc. sm (ep_of m, g, sc) \<noteq> None) \<longrightarrow> (\<forall>s0. boots_to s (g_flash s1) s0 \<longrightarrow>
       scene_rel cap (g_scenes (snd (zcl_scenesRestore s0))) sm1))"
proof -
  let ?ep = "ep_of m" and ?sm = "without_groups (ep_of m) {g} sm"
  let ?s1 = "zcl_scene_removeAllSceneEntry env ?ep g True s"
  let ?tab = "snd (remove_all_entries ?ep g (g_scenes s))"
  have g: "BUILD_U16 (pData m 0) (pData m (Suc 0)) = g" using assms(8) by (simp add: u16_bytes_def lview_def)
  have sm: "(\<lambda>k. if group_key ?ep g k then None else sm k) = ?sm" by (simp add: without_groups_def group_key_def fun_eq_iff)
  note R = remove_all_rel [OF assms(2), of ?ep g, unfolded sm]
  have sc: "g_scenes ?s1 = ?tab" by (simp add: zcl_scene_removeAllSceneEntry_def Let_def split_beta)
  have tab: "tab_sized ?tab" "length ?tab = length (g_scenes s)"
    using assms(5) by (auto simp: scene_room_def tab_sized_def remove_all_entries_def zcl_scene_clearEntry_def)
  have "table_rel gcap (g_groups ?s1) G" using assms(1) by simp
  from aps_req_rel [OF this, of "Grp_delete g ?ep" "aps_me_group_delete_req g ?ep"] assms(3) obtain st t where
    t: "aps_req (aps_me_group_delete_req g ?ep) ?s1 = (st, ?s1\<lparr>g_groups := t\<rparr>)"
      "table_rel gcap t (if member g ?ep G then del_member g ?ep G else G)"
    by (auto split: if_splits)
  have keep: "g_groups (snd (zcl_group_cmdHandler env m s)) = t" "g_scenes (snd (zcl_group_cmdHandler env m s)) = ?tab"
    "g_flash (snd (zcl_group_cmdHandler env m s)) = g_flash ?s1"
    using t(1) sc assms(6,7)
    by (simp_all add: zcl_group_cmdHandler_def zcl_group_clientCmdHandler_def group_cmd_defs Let_def zcl_removeGroupPrc_def g
        answer_def zcl_group_removeGroupRsp_def group_cmd_def)
  have "scene_rel cap (g_scenes (snd (zcl_scenesRestore s0))) ?sm"
    if "sm (?ep, g, x) \<noteq> None" "boots_to s (g_flash ?s1) s0" for x s0
  proof -
    let ?s = "s\<lparr>g_scenes := ?tab\<rparr>"
    have f: "fst (remove_all_entries ?ep g (g_scenes s))" using that(1) R(2) by blast
    have "scene_room ?s nm" using assms(5) tab by (simp add: scene_room_def)
    from scenesSave_survives [OF _ this, of f0 p env ?ep] assms(4) obtain s2 where
      s2: "zcl_scenesSave env ?ep ?s = (NV_SUCC, s2)" "\<forall>s0. boots_to ?s (g_flash s2) s0 \<longrightarrow> g_scenes (snd (zcl_scenesRestore s0)) = ?tab"
      by auto
    have "?s1 = s2" using f s2(1) by (simp add: zcl_scene_removeAllSceneEntry_def Let_def split_beta)
    then show ?thesis using s2(2) that(2) R(1) tab(2) by (auto simp: boots_to_def)
  qed
  then show ?thesis using t(2) R(1) by (auto simp: Let_def keep)
qed

text \<open>C40. Scenes that a remove all groups request removed come back. A device whose scene table is saved
  handles the request: the endpoint is in no group any more and the scenes of every group are gone from
  the table in memory, but the flash is not written, because the condition for saving is never true in
  the loop; after a restart all the scenes are there again.\<close>

theorem removed_groups_scenes_return:
  assumes "table_rel gcap (g_groups s) G" "scene_rel cap (g_scenes s) sm" "ep_valid (ep_of m)"
    "nv_rel NV_MODULE_ZCL f0 (g_flash s, p) nm" "scene_room s nm"
    "\<not> frmCtrl_dir (h_frmCtrl (hdr m))" "h_cmd (hdr m) = ZCL_CMD_GROUP_REMOVE_ALL_GROUP"
  shows "let s1 = snd (zcl_scenesSave env (ep_of m) s); s2 = snd (zcl_group_cmdHandler env m s1) in
    table_rel gcap (g_groups s2) (del_all (ep_of m) G) \<and>
    scene_rel cap (g_scenes s2) (without_groups (ep_of m) (fst ` set G) sm) \<and>
    (\<forall>s0. boots_to s (g_flash s2) s0 \<longrightarrow> scene_rel cap (g_scenes (snd (zcl_scenesRestore s0))) sm)"
proof -
  let ?ep = "ep_of m" and ?s1 = "snd (zcl_scenesSave env (ep_of m) s)"
  have gr: "g_groups ?s1 = g_groups s"
    by (simp add: zcl_scenesSave_def zcl_sceneTable_save_def zcl_scene_updateSceneCntAttr_def split: prod.splits)
  have l: "aps_group_list_get (g_groups ?s1) = map fst G"
    using assms(1) list_get_rel gr by (simp add: table_rel_def)
  let ?s2 = "remove_group_scenes env ?ep (map fst G) ?s1"
  have s2: "g_groups ?s2 = g_groups s" "g_flash ?s2 = g_flash ?s1" by (simp_all add: remove_group_scenes_eq gr)
  have sr: "scene_rel cap (g_scenes ?s2) (without_groups ?ep (fst ` set G) sm)"
    using remove_groups_rel [of cap "g_scenes s" sm ?ep "map fst G"] assms(2) by (simp add: remove_group_scenes_eq)
  have "table_rel gcap (g_groups ?s2) G" using assms(1) s2 by simp
  from aps_req_rel [OF this, of "Grp_delete_all ?ep" "aps_me_group_delete_all_req ?ep"] assms(3) obtain st t where
    t: "aps_req (aps_me_group_delete_all_req ?ep) ?s2 = (st, ?s2\<lparr>g_groups := t\<rparr>)" "table_rel gcap t (del_all ?ep G)"
    by auto
  have h: "snd (zcl_group_cmdHandler env m ?s1) = ?s2\<lparr>g_groups := t\<rparr>"
    using assms(6,7) t(1)
    by (simp add: zcl_group_cmdHandler_def zcl_group_clientCmdHandler_def group_cmd_defs Let_def zcl_removeAllGroupPrc_def l)
  from scenesSave_survives [OF assms(4,5), of env ?ep] have
    "\<forall>s0. boots_to s (g_flash ?s1) s0 \<longrightarrow> g_scenes (snd (zcl_scenesRestore s0)) = g_scenes s" by auto
  then show ?thesis using t(2) sr assms(2) s2(2) by (simp add: Let_def h)
qed

text \<open>C39. A unicast membership request is answered with the number of free places and the groups asked for
  that the endpoint belongs to, in the order of the request and at most as many as the table has
  places. A request for all groups (count 0) is answered with every group of the table, also those the
  endpoint does not belong to. The answer is sent unless there is no block for its frame.\<close>

theorem group_membership_answer:
  assumes "table_rel cap (g_groups s) G" "ep_valid (ep_of m)" "0 < cap" "zok (g_z s)" "length gs < 256"
    "UNICAST_MSG (msg m)" "\<not> frmCtrl_dir (h_frmCtrl (hdr m))" "h_cmd (hdr m) = ZCL_CMD_GROUP_GET_MEMBERSHIP"
    "pData m = lview ([of_nat (length gs)] @ concat (map u16_bytes gs)) v"
  shows "let found = (if gs = [] then map fst G else take cap (filter (\<lambda>g. member g (ep_of m) G) gs));
             F = [of_nat (cap - length G), of_nat (length found)] @ concat (map u16_bytes found);
             (st, s1) = zcl_group_cmdHandler env m s in
    st = ZCL_STA_CMD_HAS_RESP \<and> ub (g_z s1) = ub (g_z s) \<and> g_groups s1 = g_groups s \<and>
    T_sent (g_z s1) = (if fst (zalloc (5 + of_nat (length F)) (g_z s)) = None then T_sent (g_z s)
      else sent_frame (ep_of m) (cluster_reply_ep m) ZCL_CLUSTER_GEN_GROUPS
        (zcl_buildHdr 1 ZCL_FRAME_SERVER_CLIENT_DIR 1 0 (h_seqNum (hdr m)) ZCL_CMD_GROUP_GET_MEMBERSHIP_RSP @ F) # T_sent (g_z s))"
proof -
  define found where "found = (if gs = [] then map fst G else take cap (filter (\<lambda>g. member g (ep_of m) G) gs))"
  define F :: bytes where "F = [of_nat (cap - length G), of_nat (length found)] @ concat (map u16_bytes found)"
  have tb: "groups_rel (g_groups s) G" "APS_GROUP_TABLE_SIZE (g_groups s) = cap" using assms(1) by (simp_all add: table_rel_def)
  then have G: "length G \<le> cap" "cap < 256" "aps_group_entry_num (g_groups s) = of_nat (length G)" by (auto simp: groups_rel_def)
  have cnt: "pData m 0 = of_nat (length gs)" using assms(9) by (simp add: lview_def)
  have n: "unat (of_nat (length gs) :: u8) = length gs" using assms(5) by (simp add: unat_of_nat take_bit_eq_mod)
  then have z: "(of_nat (length gs) :: u8) = 0 \<longleftrightarrow> gs = []" by (simp flip: unat_eq_0)
  have v: "vdrop 1 (pData m) = lview (concat (map u16_bytes gs)) v"
    unfolding assms(9) by (rule ext) (simp add: vdrop_def lview_def)
  have f: "(if pData m 0 = 0 then (aps_group_list_get (g_groups s), s)
      else find_groups (unat (pData m 0)) (vdrop 1 (pData m)) (ep_of m) [] s) = (found, s)"
    unfolding cnt n z v found_def using list_get_rel [OF tb(1)] find_groups_rel [OF assms(1,2), of "[]" gs v] assms(3)
    by simp
  have free: "(of_nat cap :: u8) - of_nat (length G) = of_nat (cap - length G)" using G(1) by simp
  have hd: "zcl_group_cmdHandler env m s = (ZCL_STA_CMD_HAS_RESP, snd (cluster_send env ZCL_CLUSTER_GEN_GROUPS (ep_of m)
      (cluster_reply_ep m) 1 (h_seqNum (hdr m)) ZCL_CMD_GROUP_GET_MEMBERSHIP_RSP ZCL_FRAME_SERVER_CLIENT_DIR F s))"
  proof -
    have "zcl_group_cmdHandler env m s = zcl_getGroupMembershipPrc env m s"
      using assms(7,8) by (simp add: zcl_group_cmdHandler_def zcl_group_clientCmdHandler_def group_cmd_defs)
    also have "\<dots> = (ZCL_STA_CMD_HAS_RESP, snd (zcl_group_getGroupMembershipRsp env (ep_of m) (cluster_reply_ep m) 1
        (h_seqNum (hdr m)) (of_nat (cap - length G)) found s))"
      unfolding zcl_getGroupMembershipPrc_def if_P [OF assms(6)] Let_def f
      by (simp add: tb(2) aps_group_entry_num_get_def G(3) free del: of_nat_diff)
    finally show ?thesis by (simp only: zcl_group_getGroupMembershipRsp_def group_cmd_def F_def)
  qed
  have "length found < 256"
    using G(1,2) min.cobounded2 [of _ cap] by (auto simp: found_def intro: le_less_trans)
  moreover have "length (concat (map u16_bytes xs)) = 2 * length xs" for xs by (induction xs) simp_all
  ultimately have l: "length F < 65530" by (simp add: F_def)
  have "let (st, s1) = zcl_group_cmdHandler env m s in
    st = ZCL_STA_CMD_HAS_RESP \<and> ub (g_z s1) = ub (g_z s) \<and> g_groups s1 = g_groups s \<and>
    T_sent (g_z s1) = (if fst (zalloc (5 + of_nat (length F)) (g_z s)) = None then T_sent (g_z s)
      else sent_frame (ep_of m) (cluster_reply_ep m) ZCL_CLUSTER_GEN_GROUPS
        (zcl_buildHdr 1 ZCL_FRAME_SERVER_CLIENT_DIR 1 0 (h_seqNum (hdr m)) ZCL_CMD_GROUP_GET_MEMBERSHIP_RSP @ F) # T_sent (g_z s))"
    unfolding hd Let_def prod.case using cluster_send_sends [OF l assms(4)] by simp
  then show ?thesis unfolding F_def found_def Let_def .
qed

text \<open>The groups cluster gives back every block, whatever the message: the pool stays well-formed and the
  blocks handed out are those handed out before, for an application that does the same.\<close>

theorem group_handler_frees:
  assumes "genv_ok env" "zok (g_z s)"
  shows "zok (g_z (snd (zcl_group_cmdHandler env m s))) \<and> zlive (g_z (snd (zcl_group_cmdHandler env m s))) = zlive (g_z s)"
  using group_handler_kept [OF assms(1), of s m] assms(2) by (simp add: gs_kept_def same_pool_def)

subsection \<open>Witnesses\<close>

text \<open>A device in two groups, endpoint 1 of the first and endpoint 2 of the second, with the scene 1 of group 7
  at endpoint 1.\<close>

definition ex_grp :: gsst where
  "ex_grp = snd (aps_req (aps_me_group_add_req 9 2) (snd (aps_req (aps_me_group_add_req 7 1) ex_gs)))"

lemma ex_grp_rel: "table_rel 2 (g_groups ex_grp) [(7, [1]), (9, [2])]"
proof -
  have v: "ep_valid 1" "ep_valid 2" by (simp_all add: ep_valid_def)
  have "table_rel 2 (g_groups ex_gs) []" by (simp add: ex_gs_def ex_groups_rel)
  from aps_req_rel [OF this, of "Grp_add 7 1" "aps_me_group_add_req 7 1"] v obtain st t where
    1: "aps_req (aps_me_group_add_req 7 1) ex_gs = (st, ex_gs\<lparr>g_groups := t\<rparr>)" "table_rel 2 t [(7, [1])]"
    by (auto simp: APS_INVALID_GRP_ADDR_def)
  have "table_rel 2 (g_groups (ex_gs\<lparr>g_groups := t\<rparr>)) [(7, [1])]" using 1(2) by simp
  from aps_req_rel [OF this, of "Grp_add 9 2" "aps_me_group_add_req 9 2"] v show ?thesis
    by (auto simp: ex_grp_def 1(1) APS_INVALID_GRP_ADDR_def)
qed

lemma ex_grp_fields [simp]:
  "g_scenes ex_grp = g_scenes ex_gs" "g_flash ex_grp = g_flash ex_gs" "g_z ex_grp = g_z ex_gs" "g_lens ex_grp = g_lens ex_gs"
  by (simp_all add: ex_grp_def aps_req_def split: option.splits)

lemma ex_grp_scenes: "scene_rel 2 (g_scenes ex_grp) [(1, 7, 1) \<mapsto> ex_scene 7 1]"
  "nv_rel NV_MODULE_ZCL (\<lambda>_. 0xFF) (g_flash ex_grp, snd ex_blank) Map.empty" "scene_room ex_grp Map.empty"
  "zok (g_z ex_grp)"
  using ex_gs_rel ex_gs_nv ex_gs_room by (simp_all add: scene_room_def) (simp add: ex_gs_def)

lemma ex_grp_boots: "boots_to ex_grp f (ex_grp\<lparr>g_flash := f\<rparr>)"
  using ex_gs_sized by (simp add: boots_to_def) (simp add: ex_gs_def len_tbl_ok_def ex_len_tbl_def NV_ITEM_LEN_CHK_TABBLE_NUM_def)

lemma ex_ep_valid: "ep_valid (ep_of (ex_req cmd bs))"
  by (simp add: ex_req_fields ep_valid_def)

lemma remove_group_forgets_witness:
  "let s1 = snd (zcl_group_cmdHandler ex_genv (ex_req ZCL_CMD_GROUP_REMOVE_GROUP (u16_bytes 7)) ex_grp) in
   table_rel 2 (g_groups s1) [(9, [2])] \<and> scene_rel 2 (g_scenes s1) Map.empty \<and>
   scene_rel 2 (g_scenes (snd (zcl_scenesRestore (ex_grp\<lparr>g_flash := g_flash s1\<rparr>)))) Map.empty"
proof -
  let ?m = "ex_req ZCL_CMD_GROUP_REMOVE_GROUP (u16_bytes 7)"
  have e: "without_groups 1 {7} [(1, 7, 1) \<mapsto> ex_scene 7 1] = Map.empty" by (auto simp: without_groups_def fun_eq_iff)
  have mem: "member 7 1 [(7, [1]), (9, [2])]" "del_member 7 1 [(7, [1]), (9, [2])] = [(9, [2])]"
    by (simp_all add: member_def del_member_def drop_ep_def)
  from remove_group_forgets [where m = ?m and g = 7 and env = ex_genv, OF ex_grp_rel ex_grp_scenes(1) ex_ep_valid ex_grp_scenes(2,3) ex_req_fields(5,6,3)]
  show ?thesis using ex_grp_boots by (simp add: ex_req_fields Let_def e mem cong: if_cong)
qed

lemma removed_groups_scenes_return_witness:
  "let s1 = snd (zcl_scenesSave ex_genv 1 ex_grp);
       s2 = snd (zcl_group_cmdHandler ex_genv (ex_req ZCL_CMD_GROUP_REMOVE_ALL_GROUP []) s1) in
   table_rel 2 (g_groups s2) [(9, [2])] \<and> scene_rel 2 (g_scenes s2) Map.empty \<and>
   scene_rel 2 (g_scenes (snd (zcl_scenesRestore (ex_grp\<lparr>g_flash := g_flash s2\<rparr>)))) [(1, 7, 1) \<mapsto> ex_scene 7 1]"
proof -
  let ?m = "ex_req ZCL_CMD_GROUP_REMOVE_ALL_GROUP []"
  have e: "without_groups 1 {7, 9} [(1, 7, 1) \<mapsto> ex_scene 7 1] = Map.empty" by (auto simp: without_groups_def fun_eq_iff)
  have d: "del_all 1 [(7, [1]), (9, [2])] = [(9, [2])]" by (simp add: del_all_def drop_ep_def)
  from removed_groups_scenes_return [where m = ?m and env = ex_genv, OF ex_grp_rel ex_grp_scenes(1) ex_ep_valid ex_grp_scenes(2,3) ex_req_fields(5,6)]
  show ?thesis using ex_grp_boots by (simp add: ex_req_fields Let_def e d)
qed

lemma group_handler_frees_witness:
  "zlive (g_z (snd (zcl_group_cmdHandler ex_genv (ex_req ZCL_CMD_GROUP_REMOVE_GROUP (u16_bytes 7)) ex_grp))) = {EvBuf 2 0}"
  using group_handler_frees [OF ex_app(2) ex_grp_scenes(4), of "ex_req ZCL_CMD_GROUP_REMOVE_GROUP (u16_bytes 7)"]
  by (simp add: ex_gs_def)

lemma ex_grp_alloc: "fst (zalloc 9 (g_z ex_grp)) \<noteq> None"
proof -
  have "fst (ev_buf_allocate 9 (snd (ev_buf_allocate 100 ex_pool))) = Some (EvBuf 0 0)" by code_simp
  then show ?thesis by (simp add: ex_gs_def ex_state_def zalloc_def split_beta)
qed

lemma group_membership_answer_witness:
  "map s_asdu (T_sent (g_z (snd (zcl_group_cmdHandler ex_genv
      (ex_req ZCL_CMD_GROUP_GET_MEMBERSHIP ([of_nat 3] @ concat (map u16_bytes [9, 8, 7]))) ex_grp)))) = [[0x19, 7, 2, 0, 1, 7, 0]]"
proof -
  let ?gs = "[9, 8, 7] :: u16 list"
  let ?m = "ex_req ZCL_CMD_GROUP_GET_MEMBERSHIP ([of_nat (length ?gs)] @ concat (map u16_bytes ?gs))"
  have f: "member 7 1 [(7, [1]), (9, [2])]" "\<not> member 8 1 [(7, [1]), (9, [2])]" "\<not> member 9 1 [(7, [1]), (9, [2])]"
    by (simp_all add: member_def)
  have l: "0 < (2 :: nat)" "length ?gs < 256" by simp_all
  from group_membership_answer [OF ex_grp_rel ex_ep_valid l(1) ex_grp_scenes(4) l(2) ex_req_fields(2,5,6,3), of ex_genv]
  moreover have "T_sent (g_z ex_gs) = []" by (simp add: ex_gs_def ex_state_def)
  ultimately show ?thesis using ex_grp_alloc f
    by (simp add: ex_req_fields Let_def split_beta sent_frame_def zcl_buildHdr_def u16_bytes_def LO_UINT16_def HI_UINT16_def
        group_cmd_defs cong: if_cong)
qed

end
