(* ===== verification/Spec2Isabelle.thy ===== *)
theory Spec2Isabelle
  imports Zcl_Dispatch Epever Juntek Ev_Queue Ring_Buffer Nv_FrameCount Zcl_Group
begin

text \<open>
  A verification library for the Zigbee SDK of this repository as its battery and solar monitors
  use it: the operating layer under \<^verbatim>\<open>proj/\<close>, the Zigbee Cluster Library under
  \<^verbatim>\<open>zigbee/zcl/\<close>, and the two applications \<^verbatim>\<open>apps/epeverMonitor\<close> and \<^verbatim>\<open>apps/juntekBMS\<close>.
  The network stack proper is a binary library and is a parameter.

  \<^bold>\<open>The parts and how they interact.\<close> An application polls a serial device, parses the answer,
  writes the readings into the attribute tables it registered with the ZCL, and reports them. The
  ZCL receives a frame in a block of the buffer pool, parses it into a second block, reads or
  writes attributes, changes the reporting table, and sends an answer built in a third block;
  every block goes back to the pool. A light of the SDK also belongs to groups, a table the
  application support layer keeps, and stores scenes, whose table refers to groups and whose
  contents the application supplies. The reporting engine runs on software timers; timers count
  in the ticks of the clock, and the second counter is fed by them. The event queue and the ring
  buffer carry messages and bytes between interrupts and the main loop. Tables that must survive
  a reset are items of the flash store, which keeps them in a log per module.

  \<^bold>\<open>The theories.\<close>
  \<^item> \<open>Zb_Prelude\<close>: integer types, the byte macros of \<^verbatim>\<open>utility.h\<close>, memory seen through a byte
    pointer (\<open>view\<close>), generic lemmas. \<open>Zb_Refine\<close>: sessions of operations and the locale
    \<open>forward_sim\<close>, which lifts a simulation of single operations to sessions.
  \<^item> \<open>Ev_Buffer\<close>: \<^verbatim>\<open>mempool.c\<close>, \<^verbatim>\<open>ev_buffer.c\<close>. The record \<open>ev_buf_vars_t\<close> is the static variable
    of that name. Lemmas: well-formedness, the set of live blocks, what allocation and release do
    to it; the locale \<open>buf_allocator\<close> is what clients of the pool rely on, interpreted here and
    again in \<open>Zcl_Core\<close> on the ZCL's own allocation.
  \<^item> \<open>Ev_Rtc\<close>, \<open>Ev_Timer\<close>: \<^verbatim>\<open>ev_rtc.c\<close>, \<^verbatim>\<open>ev_timer.c\<close> with the list macros of \<^verbatim>\<open>utlist.h\<close>.
  \<^item> \<open>Zb_List\<close>, \<open>Ev_Queue\<close>, \<open>Ring_Buffer\<close>: \<^verbatim>\<open>list.c\<close>, \<^verbatim>\<open>ev_queue.c\<close>, \<^verbatim>\<open>ringbuffer.c\<close>. Linked
    structures are a store of next pointers; \<open>path\<close> says which list a chain holds. Each
    implements an abstract list or queue, proved by interpretation of \<open>forward_sim\<close>.
  \<^item> \<open>Crc32\<close>, \<open>Drv_Flash\<close>, \<open>Drv_Nv\<close>, \<open>Nv_Log\<close>, \<open>Nv_Change\<close>, \<open>Nv_Store\<close>, \<open>Nv_FrameCount\<close>:
    \<^verbatim>\<open>xcrc32\<close> of \<^verbatim>\<open>utility.c\<close>, \<^verbatim>\<open>drv_flash.c\<close>, \<^verbatim>\<open>drv_nv.c\<close>. A flash is a function from addresses
    to bytes; a write clears bits, an erase sets a sector of 4096 bytes to \<open>0xFF\<close>. \<open>Drv_Nv\<close> and
    the first section of \<open>Nv_FrameCount\<close> hold the code; \<open>Nv_Log\<close> relates a sector to a log of
    entries, \<open>Nv_Change\<close> treats the two ways of a write, \<open>Nv_Store\<close> shows that the store is a
    map, \<open>Nv_FrameCount\<close> that the frame counter module is a list of counters.
  \<^item> \<open>Zcl_Data\<close>, \<open>Zcl_Core\<close>: types and lengths, the cluster registry, attribute access, frame
    headers, sending (\<^verbatim>\<open>zcl.c\<close>, \<^verbatim>\<open>zcl.h\<close>). The record \<open>zst\<close> is the state of the ZCL: the pool, the
    registry, the reporting table, the memory of the attribute values, the timers and the clock.
  \<^item> \<open>Zcl_Read\<close>, \<open>Zcl_Write\<close>, \<open>Zcl_Reporting\<close>, \<open>Zcl_Report\<close>, \<open>Zcl_Discover\<close>, \<open>Zcl_Dispatch\<close>: the
    profile commands, each with its sender, parser and handler, the reporting engine of
    \<^verbatim>\<open>zcl_reporting.c\<close>, and \<^verbatim>\<open>zcl_cmdHandler\<close>, which composes them. For every handler there is a
    lemma that it gives back every block it takes; \<open>Zcl_Dispatch\<close> puts them together.
  \<^item> \<open>Aps_Group\<close>: \<^verbatim>\<open>aps_group.c\<close>, the table of groups and their endpoints, and its copy in the
    flash store. \<open>group_table_refines\<close> is its refinement to a relation of groups and endpoints.
  \<^item> \<open>Zcl_SceneTab\<close>, \<open>Zcl_Scene\<close>: \<^verbatim>\<open>zcl_scene.c\<close> and the scene part of \<^verbatim>\<open>zcl_nv.c\<close>. The first holds
    the table, its two chains and its image in flash, and shows that it is a bounded map; the
    second holds senders, parsers and handlers. The record \<open>gsst\<close> is the state of both clusters:
    that of the ZCL, the groups, the scenes and the flash; \<open>genv\<close> adds the callback of the
    application to the environment.
  \<^item> \<open>Zcl_Group\<close>: \<^verbatim>\<open>zcl_group.c\<close>, its senders and handlers, over both tables.
  \<^item> \<open>Float32\<close>, \<open>App_Report\<close>, \<open>Epever\<close>, \<open>Juntek\<close>: the C type \<^verbatim>\<open>float\<close> as the rational it stands
    for, with rounding to 24 bits after every operation; the state machines, parsers and filters
    of the applications. \<open>Epever\<close> has a step relation whose steps are a received frame, the
    timers, the main loop and anything the rest of the system may do; its invariants are proved
    by rule induction over the reachable states.

  \<^bold>\<open>Conventions.\<close> A C function is a function of the state it reads and returns the state it
  leaves. Machine integers are words of their width; where an intermediate value is an \<^verbatim>\<open>int\<close> the
  promotion is written out. Reading outside an object gives some byte (\<open>view\<close> is total); writing
  outside a block, a local variable or a table, or through a null pointer, sets the flag \<open>ub\<close> of the
  state, so a lemma that keeps \<open>ub\<close> says that the code is memory safe, and a theorem that starts from
  a clear \<open>ub\<close> at the end claims nothing of runs that overrun. Attribute memory is the exception:
  \<open>ram\<close> is flat, the attribute tables have no sizes, and a string that \<^verbatim>\<open>zcl_setAttrVal\<close> writes
  beyond its attribute overwrites what is behind it and is not flagged. What leaves the model is recorded in traces, the fields
  \<open>T_sent\<close>, \<open>T_shown\<close> and the like. The environment \<open>zenv\<close> holds what is not C code of this
  repository (sending by the stack, binding table) or is a function pointer of the application;
  the laws assumed of it are hypotheses of the theorems and have witnesses. A loop that may not
  end is a partial function with the value \<open>None\<close> (\<open>Ev_Timer\<close>, the report loop, \<^verbatim>\<open>list.c\<close>); that
  it ends is proved. All other recursion has a termination proof, so no fuel is used.

  \<^bold>\<open>Configuration.\<close> The sizes are those of the monitor builds: buffer groups of 24, 60, 152 and
  512 bytes, 24 timers, 1 MB of flash with the item modules from \<open>0x80000\<close>, index entries of
  eight bytes. The number of clusters and of reporting entries are lengths of lists, as are the
  sizes of the group and scene tables. The scenes take the figures of \<^verbatim>\<open>apps/pwm5ch\<close>, the application that
  has them: 24 bytes of extension fields.

  \<^bold>\<open>What the properties show.\<close> The pools neither lose nor duplicate a block, across every frame
  the ZCL handles without a write outside an object, as long as the application has a hook. Parsers return what the senders encoded; handlers answer what the request
  asked. The reporting table is a map with timers of its own. The queues, lists, the ring buffer,
  the item store and the frame counter implement their abstract types, through any number of
  sector changes. The group table is a relation and the scene table a bounded map, both found
  again after a reset; a scene added can be viewed, a group removed takes its scenes with it.
  Published readings come from complete poll cycles, and polling goes on.
  Several theorems are about what goes wrong: parsers that overrun their block, values that are
  never seen to change, an invalid group in flash that hides the groups behind it, an added
  scene whose stored bytes are those next to the request in memory, scenes that return with a
  restart because removing their group did not save.

  \<^bold>\<open>Not modelled.\<close> The binary stack library (MAC, NWK, APS, security) has no source here. Device
  drivers and chip support are register accesses. Interrupts are atomic steps; masking them is
  left out. The flash store does not lose power in the middle of a write. The
  handlers of the other clusters, commissioning, OTA, Green Power, the endpoint table and the
  host interface are not modelled, or enter as fields of the environment; the order in which
  they would be added is OTA, the endpoint table, Green Power tables.
\<close>

end
